(* ===== verification/Upnp_Prelude.thy ===== *)
theory Upnp_Prelude
  imports Main "HOL-Library.Word"
begin

text \<open>
  What the component theories share: the named collections of rewrite rules, the types of
  ports and addresses, and the part of the C library the daemon calls on strings
  (character classes, \<^verbatim>\<open>atoi\<close>, \<^verbatim>\<open>%u\<close> printing, \<^verbatim>\<open>inet_aton\<close>,
  \<^verbatim>\<open>strtok\<close>) with the lemmas the components use about them.

  A C string is a \<^typ>\<open>string\<close> without its terminator: the end of the list is the NUL byte.
  A 32-bit IPv4 address is kept in host order, so \<open>192.168.0.1\<close> is \<open>0xC0A80001\<close>; the code
  keeps it in network order, and masks and compares addresses only as a whole.
\<close>

unbundle bit_operations_syntax

named_theorems cstr \<open>rewrite rules for the C string functions\<close>
named_theorems wordport \<open>rules that move comparisons of ports to natural numbers\<close>

type_synonym port = "16 word"
type_synonym ipv4 = "32 word"
type_synonym u32 = "32 word"

section \<open>Characters\<close>

abbreviation ord :: "char \<Rightarrow> nat" where
  "ord c \<equiv> of_char c"

definition isdigit :: "char \<Rightarrow> bool" where
  "isdigit c \<longleftrightarrow> 48 \<le> ord c \<and> ord c \<le> 57"

definition isspace :: "char \<Rightarrow> bool" where
  "isspace c \<longleftrightarrow> ord c = 32 \<or> (9 \<le> ord c \<and> ord c \<le> 13)"

abbreviation skip_space :: "string \<Rightarrow> string" where
  "skip_space s \<equiv> dropWhile isspace s"

lemma isdigit_not_space [cstr]: "isdigit c \<Longrightarrow> \<not> isspace c"
  by (auto simp: isdigit_def isspace_def)

lemma isspace_not_digit [cstr]: "isspace c \<Longrightarrow> \<not> isdigit c"
  by (auto simp: isdigit_def isspace_def)

text \<open>Letters, and \<^verbatim>\<open>strcasecmp\<close> of the C locale.\<close>

definition isalpha :: "char \<Rightarrow> bool" where
  "isalpha c \<longleftrightarrow> (65 \<le> ord c \<and> ord c \<le> 90) \<or> (97 \<le> ord c \<and> ord c \<le> 122)"

definition tolower :: "char \<Rightarrow> char" where
  "tolower c = (if 65 \<le> ord c \<and> ord c \<le> 90 then char_of (ord c + 32) else c)"

lemma ord_tolower: "ord (tolower c) = (if 65 \<le> ord c \<and> ord c \<le> 90 then ord c + 32 else ord c)"
  by (simp add: tolower_def)

lemma ord_eq_iff: "a = b \<longleftrightarrow> ord a = ord b"
  by simp

definition strcasecmp_eq :: "string \<Rightarrow> string \<Rightarrow> bool" where
  "strcasecmp_eq a b \<longleftrightarrow> map tolower a = map tolower b"

text \<open>\<^verbatim>\<open>strncpy\<close> writes exactly \<open>n\<close> bytes: the text, cut or padded with zero bytes.\<close>

definition strncpy :: "string \<Rightarrow> nat \<Rightarrow> string" where
  "strncpy src n = take n (src @ replicate n (CHR 0x00))"

definition terminated :: "string \<Rightarrow> bool" where
  "terminated buf \<longleftrightarrow> CHR 0x00 \<in> set buf"

text \<open>The C string a buffer holds: the characters before its first zero byte.\<close>

definition cstring :: "string \<Rightarrow> string" where
  "cstring buf = takeWhile (\<lambda>c. c \<noteq> CHR 0x00) buf"

lemma strncpy_terminated: "CHR 0x00 \<notin> set s \<Longrightarrow> terminated (strncpy s n) \<longleftrightarrow> length s < n"
  by (auto simp: terminated_def strncpy_def dest: in_set_takeD)

lemma cstring_strncpy: "CHR 0x00 \<notin> set s \<Longrightarrow> length s < n \<Longrightarrow> cstring (strncpy s n) = s"
proof -
  assume s: "CHR 0x00 \<notin> set s" "length s < n"
  then have "strncpy s n = s @ replicate (n - length s) (CHR 0x00)" by (simp add: strncpy_def)
  moreover have "replicate (n - length s) (CHR 0x00) = CHR 0x00 # replicate (n - length s - 1) (CHR 0x00)"
    using s(2) by (cases "n - length s") auto
  ultimately show ?thesis using s(1) by (simp add: cstring_def takeWhile_append)
qed

section \<open>Decimal numbers\<close>

definition digit_val :: "char \<Rightarrow> nat" where
  "digit_val c = ord c - 48"

definition dec_val :: "string \<Rightarrow> nat" where
  "dec_val s = foldl (\<lambda>a c. 10 * a + digit_val c) 0 s"

definition digit_char :: "nat \<Rightarrow> char" where
  "digit_char d = char_of (48 + d)"

text \<open>The decimal digits \<^verbatim>\<open>printf\<close> writes for \<^verbatim>\<open>%u\<close> and \<^verbatim>\<open>%hu\<close>.\<close>

fun dec :: "nat \<Rightarrow> string" where
  "dec n = (if n < 10 then [digit_char n] else dec (n div 10) @ [digit_char (n mod 10)])"

declare dec.simps [simp del]

lemma ord_digit_char: "d < 10 \<Longrightarrow> ord (digit_char d) = 48 + d"
  by (simp add: digit_char_def)

lemma char_of_zero [simp]: "char_of (48::nat) = CHR ''0''"
proof -
  have "char_of (ord (CHR ''0'')) = CHR ''0''" by (rule char_of_char)
  then show ?thesis by simp
qed

lemma dec_zero [simp]: "dec 0 = ''0''"
  by (subst dec.simps) (simp add: digit_char_def)

lemma isdigit_digit_char [cstr]: "d < 10 \<Longrightarrow> isdigit (digit_char d)"
  by (simp add: isdigit_def ord_digit_char)

lemma digit_val_digit_char [cstr]: "d < 10 \<Longrightarrow> digit_val (digit_char d) = d"
  by (simp add: digit_val_def ord_digit_char)

lemma dec_nonempty [simp]: "dec n \<noteq> []"
  by (subst dec.simps) simp

lemma dec_digits: "\<forall>c \<in> set (dec n). isdigit c"
proof (induction n rule: dec.induct)
  case (1 n)
  then show ?case
    by (subst dec.simps) (auto simp: cstr)
qed

lemma dec_val_snoc: "dec_val (s @ [c]) = 10 * dec_val s + digit_val c"
  by (simp add: dec_val_def)

lemma dec_val_dec [simp]: "dec_val (dec n) = n"
proof (induction n rule: dec.induct)
  case (1 n)
  show ?case
  proof (cases "n < 10")
    case True
    then show ?thesis
      by (subst dec.simps) (simp add: dec_val_def cstr)
  next
    case False
    with "1" show ?thesis
      by (subst dec.simps) (simp add: dec_val_snoc cstr)
  qed
qed

lemma hd_dec_digit [simp]: "isdigit (hd (dec n))"
  using dec_digits [of n] by (cases "dec n") auto

lemma hd_dec_zero: "0 < n \<Longrightarrow> hd (dec n) \<noteq> CHR ''0''"
proof (induction n rule: dec.induct)
  case (1 n)
  show ?case
  proof (cases "n < 10")
    case True
    with "1.prems" have "ord (digit_char n) \<noteq> ord (CHR ''0'')"
      by (simp add: ord_digit_char)
    then have "digit_char n \<noteq> CHR ''0''"
      by metis
    with True show ?thesis
      by (subst dec.simps) simp
  next
    case False
    with "1" show ?thesis
      by (subst dec.simps) (simp add: hd_append)
  qed
qed

lemma digit_char_val: "isdigit c \<Longrightarrow> digit_char (digit_val c) = c"
  by (auto simp: isdigit_def digit_char_def digit_val_def)

lemma dec_dec_val:
  "s \<noteq> [] \<Longrightarrow> list_all isdigit s \<Longrightarrow> length s = 1 \<or> hd s \<noteq> CHR ''0'' \<Longrightarrow> dec (dec_val s) = s"
proof (induction s rule: rev_induct)
  case (snoc c s)
  have c: "isdigit c" "digit_val c < 10" using snoc.prems by (auto simp: isdigit_def digit_val_def)
  show ?case
  proof (cases "s = []")
    case True
    then show ?thesis using c by (simp add: dec_val_def dec.simps [of "digit_val c"] digit_char_val)
  next
    case False
    have s: "list_all isdigit s" "hd s \<noteq> CHR ''0''" using snoc.prems False by auto
    then have "dec (dec_val s) = s" using snoc.IH False by simp
    moreover have "0 < dec_val s"
    proof (rule ccontr)
      assume "\<not> 0 < dec_val s"
      then have "s = ''0''" using \<open>dec (dec_val s) = s\<close> by simp
      then show False using s by simp
    qed
    ultimately show ?thesis
      using c by (simp add: dec_val_snoc dec.simps [of "10 * dec_val s + digit_val c"] digit_char_val)
  qed
qed simp

lemma length_dec: "n < 10 ^ k \<Longrightarrow> 0 < k \<Longrightarrow> length (dec n) \<le> k"
proof (induction k arbitrary: n)
  case 0
  then show ?case by simp
next
  case (Suc k)
  show ?case
  proof (cases "n < 10")
    case True
    then show ?thesis by (subst dec.simps) simp
  next
    case False
    then have "0 < k" using Suc.prems(1) by (cases k) auto
    moreover have "n div 10 < 10 ^ k" using Suc.prems(1) by auto
    ultimately have "length (dec (n div 10)) \<le> k" by (rule Suc.IH [rotated])
    with False show ?thesis by (subst dec.simps) simp
  qed
qed

text \<open>A number printed in front of a character that is no digit is cut off again whole.\<close>

definition starts_nondigit :: "string \<Rightarrow> bool" where
  "starts_nondigit s \<longleftrightarrow> (case s of [] \<Rightarrow> True | c # _ \<Rightarrow> \<not> isdigit c)"

lemma takeWhile_dec [cstr]: "starts_nondigit r \<Longrightarrow> takeWhile isdigit (dec n @ r) = dec n"
  using dec_digits [of n]
  by (cases r) (auto simp: takeWhile_append2 starts_nondigit_def)

lemma dropWhile_dec [cstr]: "starts_nondigit r \<Longrightarrow> dropWhile isdigit (dec n @ r) = r"
  using dec_digits [of n]
  by (cases r) (auto simp: dropWhile_append2 starts_nondigit_def)

section \<open>strtol and atoi\<close>

text \<open>
  \<^verbatim>\<open>strtol(s, NULL, 10)\<close> on a 64-bit \<^verbatim>\<open>long\<close> saturates; \<^verbatim>\<open>atoi\<close> is its
  conversion to a 32-bit \<^verbatim>\<open>int\<close>, as in glibc.
\<close>

definition strtol10 :: "string \<Rightarrow> int" where
  "strtol10 s =
     (let t = skip_space s;
          neg = (case t of c # _ \<Rightarrow> c = CHR ''-'' | [] \<Rightarrow> False);
          u = (case t of c # r \<Rightarrow> if c = CHR ''-'' \<or> c = CHR ''+'' then r else t | [] \<Rightarrow> []);
          v = int (dec_val (takeWhile isdigit u))
      in max (- (2 ^ 63)) (min (2 ^ 63 - 1) (if neg then - v else v)))"

definition atoi :: "string \<Rightarrow> int" where
  "atoi s = signed_take_bit 31 (strtol10 s)"

lemma isdigit_not_sign: "isdigit c \<Longrightarrow> c \<noteq> CHR ''-'' \<and> c \<noteq> CHR ''+''"
  by (auto simp: isdigit_def)

lemma strtol10_digits:
  assumes "s \<noteq> []" and "isdigit (hd s)"
  shows "strtol10 s = min (2 ^ 63 - 1) (int (dec_val (takeWhile isdigit s)))"
proof -
  obtain c r where s: "s = c # r" using assms(1) by (cases s) auto
  with assms(2) have "isdigit c" by simp
  then show ?thesis
    by (simp add: strtol10_def s isdigit_not_space isdigit_not_sign)
qed

lemma signed_take_bit_small:
  assumes "0 \<le> (k::int)" and "k < 2 ^ n" shows "signed_take_bit n k = k"
  using assms by (intro signed_take_bit_int_eq_self) auto

lemma atoi_dec [cstr]:
  assumes "starts_nondigit r" and "n < 2 ^ 31"
  shows "atoi (dec n @ r) = int n"
proof -
  have "strtol10 (dec n @ r) = min (2 ^ 63 - 1) (int n)"
    using assms(1) by (subst strtol10_digits) (simp_all add: cstr)
  also have "\<dots> = int n" using assms(2) by simp
  finally show ?thesis
    using assms(2) by (simp add: atoi_def signed_take_bit_small)
qed

lemma atoi_dec_nil [cstr]: "n < 2 ^ 31 \<Longrightarrow> atoi (dec n) = int n"
  using atoi_dec [of "[]" n] by (simp add: starts_nondigit_def)

lemma atoi_empty [simp]: "atoi [] = 0"
  by (simp add: atoi_def strtol10_def dec_val_def)

lemma atoi_bounds: "- (2 ^ 31) \<le> atoi s \<and> atoi s < 2 ^ 31"
  using signed_take_bit_int_less_exp [of 31 "strtol10 s"]
    signed_take_bit_int_greater_eq_minus_exp [of 31 "strtol10 s"]
  by (simp add: atoi_def)

section \<open>inet_aton\<close>

text \<open>
  \<^verbatim>\<open>strtoul(s, &end, 0)\<close> on a text that starts with a digit (hexadecimal after
  \<^verbatim>\<open>0x\<close>, octal after \<^verbatim>\<open>0\<close>, decimal otherwise), and glibc's \<^verbatim>\<open>inet_aton\<close>:
  up to four numbers, the last one filling the bytes that are left.
\<close>

definition isoctdigit :: "char \<Rightarrow> bool" where
  "isoctdigit c \<longleftrightarrow> 48 \<le> ord c \<and> ord c \<le> 55"

definition isxdigit :: "char \<Rightarrow> bool" where
  "isxdigit c \<longleftrightarrow> isdigit c \<or> (65 \<le> ord c \<and> ord c \<le> 70) \<or> (97 \<le> ord c \<and> ord c \<le> 102)"

definition xdigit_val :: "char \<Rightarrow> nat" where
  "xdigit_val c = (if isdigit c then ord c - 48 else if ord c \<le> 70 then ord c - 55 else ord c - 87)"

definition base_val :: "nat \<Rightarrow> string \<Rightarrow> nat" where
  "base_val b s = foldl (\<lambda>a c. b * a + xdigit_val c) 0 s"

definition strtoul0 :: "string \<Rightarrow> nat \<times> string" where
  "strtoul0 s =
     (if take 1 s = ''0'' \<and> (take 1 (drop 1 s) = ''x'' \<or> take 1 (drop 1 s) = ''X'')
         \<and> drop 2 s \<noteq> [] \<and> isxdigit (hd (drop 2 s))
      then (base_val 16 (takeWhile isxdigit (drop 2 s)), dropWhile isxdigit (drop 2 s))
      else if take 1 s = ''0''
      then (base_val 8 (takeWhile isoctdigit s), dropWhile isoctdigit s)
      else (dec_val (takeWhile isdigit s), dropWhile isdigit s))"

fun inet_parts :: "nat \<Rightarrow> nat \<Rightarrow> string \<Rightarrow> nat option" where
  "inet_parts k acc s =
     (if s = [] \<or> \<not> isdigit (hd s) then None
      else (let (v, r) = strtoul0 s in
        if r \<noteq> [] \<and> hd r = CHR ''.''
        then (if k = 0 \<or> 255 < v then None
              else inet_parts (k - 1) (acc + v * 256 ^ k) (tl r))
        else if (r = [] \<or> isspace (hd r)) \<and> v < 256 ^ (k + 1) then Some (acc + v)
        else None))"

declare inet_parts.simps [simp del]

definition inet_aton :: "string \<Rightarrow> ipv4 option" where
  "inet_aton s = map_option word_of_nat (inet_parts 3 0 s)"

text \<open>The dotted-decimal text \<^verbatim>\<open>inet_ntoa\<close> and \<^verbatim>\<open>inet_ntop\<close> write.\<close>

definition octet :: "nat \<Rightarrow> ipv4 \<Rightarrow> nat" where
  "octet i a = unat a div 256 ^ i mod 256"

definition dotted :: "ipv4 \<Rightarrow> string" where
  "dotted a = dec (octet 3 a) @ ''.'' @ dec (octet 2 a) @ ''.'' @ dec (octet 1 a)
              @ ''.'' @ dec (octet 0 a)"

lemma dec_head_zero: "take 1 (dec n) = ''0'' \<longleftrightarrow> n = 0"
proof (cases "n = 0")
  case True
  then show ?thesis by (subst dec.simps) (simp add: digit_char_def)
next
  case False
  then have "hd (dec n) \<noteq> CHR ''0''" by (intro hd_dec_zero) simp
  with False show ?thesis by (cases "dec n") auto
qed

lemma strtoul0_dec [cstr]:
  assumes r: "r = [] \<or> (\<not> isdigit (hd r) \<and> hd r \<noteq> CHR ''x'' \<and> hd r \<noteq> CHR ''X'')"
  shows "strtoul0 (dec n @ r) = (n, r)"
proof (cases "n = 0")
  case True
  have "isoctdigit c \<Longrightarrow> isdigit c" for c by (simp add: isoctdigit_def isdigit_def)
  with r True show ?thesis
    by (cases r) (auto simp: strtoul0_def dec.simps [of 0] digit_char_def base_val_def
        xdigit_val_def isoctdigit_def isdigit_def)
next
  case False
  then have "take 1 (dec n @ r) \<noteq> ''0''"
    using dec_head_zero [of n] by (cases "dec n") auto
  moreover have "starts_nondigit r" using r by (cases r) (auto simp: starts_nondigit_def)
  ultimately show ?thesis by (auto simp: strtoul0_def cstr)
qed

lemma inet_parts_dot:
  assumes "v < 256" and "0 < k"
  shows "inet_parts k acc (dec v @ CHR ''.'' # r) = inet_parts (k - 1) (acc + v * 256 ^ k) r"
proof -
  have "strtoul0 (dec v @ CHR ''.'' # r) = (v, CHR ''.'' # r)"
    by (rule strtoul0_dec) (simp add: isdigit_def)
  with assms show ?thesis
    by (subst inet_parts.simps) (simp add: hd_append)
qed

lemma inet_parts_last:
  assumes "v < 256"
  shows "inet_parts 0 acc (dec v) = Some (acc + v)"
proof -
  have "strtoul0 (dec v) = (v, [])"
    using strtoul0_dec [of "[]" v] by simp
  with assms show ?thesis by (subst inet_parts.simps) simp
qed

lemma inet_parts_rest:
  assumes "\<not> isdigit c" "c \<notin> {CHR ''.'', CHR ''x'', CHR ''X''}" "\<not> isspace c"
  shows "inet_parts k acc (dec v @ c # r) = None"
proof -
  have "strtoul0 (dec v @ c # r) = (v, c # r)" by (rule strtoul0_dec) (use assms in simp)
  with assms show ?thesis by (subst inet_parts.simps) (simp add: hd_append)
qed

lemma octet_less [simp]: "octet i a < 256"
  by (simp add: octet_def)

lemma octets_sum:
  "octet 3 a * 256 ^ 3 + octet 2 a * 256 ^ 2 + octet 1 a * 256 + octet 0 a = unat a"
proof -
  define n where "n = unat a"
  have "n < 256 ^ 4" using unsigned_less [of a] by (simp add: n_def)
  then have "n div 256 div 256 div 256 < 256" by simp
  then have top: "n div 16777216 mod 256 = n div 16777216"
    by (simp add: div_mult2_eq [symmetric])
  have "n div 256 div 256 div 256 mod 256 = n div 256 div 256 div 256"
    using \<open>n div 256 div 256 div 256 < 256\<close> by simp
  then have "n = ((n div 256 div 256 div 256 mod 256 * 256 + n div 256 div 256 mod 256) * 256
      + n div 256 mod 256) * 256 + n mod 256"
    by (metis div_mult_mod_eq)
  then show ?thesis
    by (simp add: octet_def n_def [symmetric] div_mult2_eq [symmetric] algebra_simps top)
qed

lemma inet_aton_dotted [cstr]: "inet_aton (dotted a) = Some a"
proof -
  have "inet_parts 3 0 (dotted a)
    = Some (octet 3 a * 256 ^ 3 + octet 2 a * 256 ^ 2 + octet 1 a * 256 + octet 0 a)"
    by (simp add: dotted_def inet_parts_dot inet_parts_last)
  then have "inet_parts 3 0 (dotted a) = Some (unat a)"
    by (simp only: octets_sum)
  then show ?thesis by (simp add: inet_aton_def)
qed

lemma inet_aton_dotted_rest:
  assumes "\<not> isdigit c" "c \<notin> {CHR ''.'', CHR ''x'', CHR ''X''}" "\<not> isspace c"
  shows "inet_aton (dotted a @ c # r) = None"
  by (simp add: inet_aton_def dotted_def inet_parts_dot inet_parts_rest [OF assms])

lemma length_dotted: "length (dotted a) \<le> 15"
proof -
  have "length (dec (octet i a)) \<le> 3" for i
    by (intro length_dec order_less_trans [OF octet_less]) simp_all
  from this [of 0] this [of 1] this [of 2] this [of 3]
  show ?thesis by (simp add: dotted_def)
qed

section \<open>First match in a list\<close>

text \<open>The index loops of the rule tables: the position of the first entry that satisfies a test.\<close>

fun find_index :: "('a \<Rightarrow> bool) \<Rightarrow> 'a list \<Rightarrow> nat option" where
  "find_index P [] = None"
| "find_index P (x # xs) = (if P x then Some 0 else map_option Suc (find_index P xs))"

definition delete_nth :: "nat \<Rightarrow> 'a list \<Rightarrow> 'a list" where
  "delete_nth i xs = take i xs @ drop (Suc i) xs"

fun remove_first :: "('a \<Rightarrow> bool) \<Rightarrow> 'a list \<Rightarrow> 'a list" where
  "remove_first P [] = []"
| "remove_first P (x # xs) = (if P x then xs else x # remove_first P xs)"

lemma find_index_None: "find_index P xs = None \<longleftrightarrow> (\<forall>x \<in> set xs. \<not> P x)"
  by (induction xs) auto

lemma find_None_index: "find P xs = None \<longleftrightarrow> find_index P xs = None"
  by (induction xs) auto

lemma find_index_Some: "find_index P xs = Some i \<Longrightarrow> i < length xs \<and> P (xs ! i) \<and> find P xs = Some (xs ! i)"
  by (induction xs arbitrary: i) (auto split: if_splits)

lemma delete_found: "find_index P xs = Some i \<Longrightarrow> delete_nth i xs = remove_first P xs"
  by (induction xs arbitrary: i) (auto simp: delete_nth_def split: if_splits)

lemma remove_first_none: "\<forall>x \<in> set xs. \<not> P x \<Longrightarrow> remove_first P xs = xs"
  by (induction xs) auto

lemma set_remove_first: "set (remove_first P xs) \<subseteq> set xs"
  by (induction xs) auto

lemma find_append: "find P (xs @ ys) = (case find P xs of None \<Rightarrow> find P ys | Some x \<Rightarrow> Some x)"
  by (induction xs) auto

lemma find_remove_other: "(\<And>x. Q x \<Longrightarrow> \<not> P x) \<Longrightarrow> find Q (remove_first P xs) = find Q xs"
  by (induction xs) auto

section \<open>Ports\<close>

lemma unat_port_less [wordport]: "unat (p::port) < 65536"
  using unsigned_less [of p] by simp

lemma uint_port_le [wordport]: "uint (p::port) \<le> 65535"
proof -
  have "int (unat p) < 65536" using unat_port_less [of p] by linarith
  then show ?thesis by simp
qed

lemma port_le_iff [wordport]: "(a::port) \<le> b \<longleftrightarrow> unat a \<le> unat b"
  by (rule word_le_nat_alt)

lemma unat_port_of_nat [wordport]: "n < 65536 \<Longrightarrow> unat (word_of_nat n :: port) = n"
  by (simp add: unat_of_nat take_bit_nat_eq_self)

lemma unat_port_of_int [wordport]:
  "0 \<le> i \<Longrightarrow> i \<le> 65535 \<Longrightarrow> unat (word_of_int i :: port) = nat i"
  by (simp add: unsigned_of_int take_bit_int_eq_self)

lemma port_less_iff [wordport]: "(a::port) < b \<longleftrightarrow> unat a < unat b"
  by (rule word_less_nat_alt)

lemma unat_port_max [wordport]: "(x :: port) = 65535 \<longleftrightarrow> unat x = 65535"
  by (simp add: word_unat_eq_iff)

lemma unat_port_next [wordport]: "unat (x :: port) \<noteq> 65535 \<Longrightarrow> unat (x + 1) = unat x + 1"
  using unat_port_less [of x] by (simp add: unat_word_ariths)

lemma port_next_closer: "unat (x :: port) \<noteq> 65535 \<Longrightarrow> 65535 - unat (x + 1) < 65535 - unat x"
  using unat_port_less [of x] by (simp add: unat_port_next)

lemma unat_port_prev [wordport]: "0 < unat (x :: port) \<Longrightarrow> unat (x - 1) = unat x - 1"
  by (metis unat_minus_one unat_0 less_numeral_extra(3))

lemma port_positive: "p \<noteq> 0 \<Longrightarrow> 1 \<le> unat (p :: port)"
  by (simp add: Suc_le_eq unat_gt_0)

lemma port_eqI: "unat (p :: port) = unat q \<Longrightarrow> p = q"
  by (rule word_unat_eq_iff [THEN iffD2])

end
