(* ===== verification/Permissions.thy ===== *)
theory Permissions
  imports Upnp_Prelude
begin

text \<open>
  The permission list of \<^verbatim>\<open>upnppermissions.c\<close>: parsing one configuration line, matching
  a mapping against one rule, the first-match decision over the list, and the bitmap of the
  external ports a client may be given. The lemmas show that a printed rule is parsed back,
  that the bitmap and the decision agree on every port, and when the parser runs past the
  end of its line.
\<close>

section \<open>Data\<close>

datatype perm_type = UPNPPERM_ALLOW | UPNPPERM_DENY

record upnpperm =
  ptype :: perm_type
  eport_min :: port
  eport_max :: port
  address :: ipv4
  perm_mask :: ipv4
  iport_min :: port
  iport_max :: port

text \<open>
  The outcomes of the parser other than success: \<open>Bad_line\<close> is the code's \<open>-1\<close>;
  \<open>Overrun\<close> is a read behind the terminator of the line, \<open>Bad_shift\<close> a shift by more than
  the width (both undefined in C, so the model stops there).
\<close>

datatype perm_error = Bad_line | Overrun | Bad_shift

section \<open>Parsing a line\<close>

text \<open>
  A port token, \<^verbatim>\<open>n\<close> or \<^verbatim>\<open>n-m\<close>. The result is the range and what follows the
  character that was overwritten with the terminator; \<open>None\<close> when that character was the
  terminator of the line already, so that nothing may be read behind it. \<open>end_ok\<close> is the
  difference between the two places the code has this text: the fourth token may end the line.
\<close>

definition port_token :: "bool \<Rightarrow> string \<Rightarrow> perm_error + (port \<times> port \<times> string option)" where
  "port_token end_ok p =
     (if p = [] \<or> \<not> isdigit (hd p) then Inl Bad_line
      else (let ds = takeWhile isdigit p; q = dropWhile isdigit p; i = atoi ds in
        if take 1 q = ''-'' then
          (if i > 65535 then Inl Bad_line
           else (let pmin = word_of_int i; p2 = tl q; i2 = atoi (takeWhile isdigit p2);
                     q2 = dropWhile isdigit p2
             in if i2 > 65535 then Inl Bad_line
                else (let pmax = word_of_int i2 in
                  if pmin > pmax then Inl Bad_line
                  else Inr (pmin, pmax, if q2 = [] then None else Some (tl q2)))))
        else if (q \<noteq> [] \<and> isspace (hd q)) \<or> (end_ok \<and> q = []) then
          (if i > 65535 then Inl Bad_line
           else Inr (word_of_int i, word_of_int i, if q = [] then None else Some (tl q)))
        else Inl Bad_line))"

definition addr_char :: "char \<Rightarrow> bool" where
  "addr_char c \<longleftrightarrow> isdigit c \<or> c = CHR ''.''"

text \<open>\<^verbatim>\<open>n_bits ? (0xffffffffu << (32 - n_bits)) : 0\<close>, for \<open>n_bits\<close> at most 32.\<close>

definition cidr_mask :: "int \<Rightarrow> ipv4 option" where
  "cidr_mask n_bits =
     (if n_bits < 0 then None
      else Some (if n_bits = 0 then 0 else push_bit (nat (32 - n_bits)) 0xffffffff))"

definition addr_token :: "string \<Rightarrow> perm_error + (ipv4 \<times> ipv4 \<times> string)" where
  "addr_token p =
     (if p = [] \<or> \<not> isdigit (hd p) then Inl Bad_line
      else (let a = takeWhile addr_char p; q = dropWhile addr_char p in
        if take 1 q = ''/'' then
          (case inet_aton a of None \<Rightarrow> Inl Bad_line
           | Some addr \<Rightarrow>
             (let m = tl q; q2 = dropWhile isdigit m in
              if take 1 q2 = ''.'' then
                (let q3 = dropWhile addr_char q2 in
                 if q3 = [] \<or> \<not> isspace (hd q3) then Inl Bad_line
                 else (case inet_aton (takeWhile addr_char m) of None \<Rightarrow> Inl Bad_line
                       | Some msk \<Rightarrow> Inr (addr, msk, tl q3)))
              else if q2 = [] \<or> \<not> isspace (hd q2) then Inl Bad_line
              else (let n_bits = atoi (takeWhile isdigit m) in
                if n_bits > 32 then Inl Bad_line
                else (case cidr_mask n_bits of None \<Rightarrow> Inl Bad_shift
                      | Some msk \<Rightarrow> Inr (addr, msk, tl q2)))))
        else if q \<noteq> [] \<and> isspace (hd q) then
          (case inet_aton a of None \<Rightarrow> Inl Bad_line
           | Some addr \<Rightarrow> Inr (addr, 0xffffffff, tl q))
        else Inl Bad_line))"

definition type_token :: "string \<Rightarrow> (perm_type \<times> string) option" where
  "type_token p =
     (if take 5 p = ''allow'' then Some (UPNPPERM_ALLOW, drop 5 p)
      else if take 4 p = ''deny'' then Some (UPNPPERM_DENY, drop 4 p)
      else None)"

definition read_permission_line :: "string \<Rightarrow> perm_error + upnpperm" where
  "read_permission_line p =
     (case type_token (skip_space p) of None \<Rightarrow> Inl Bad_line
      | Some (t, p1) \<Rightarrow>
        (case port_token False (skip_space p1) of Inl e \<Rightarrow> Inl e
         | Inr (emin, emax, None) \<Rightarrow> Inl Overrun
         | Inr (emin, emax, Some p2) \<Rightarrow>
           (case addr_token (skip_space p2) of Inl e \<Rightarrow> Inl e
            | Inr (addr, msk, p3) \<Rightarrow>
              (case port_token True (skip_space p3) of Inl e \<Rightarrow> Inl e
               | Inr (imin, imax, _) \<Rightarrow>
                 Inr \<lparr>ptype = t, eport_min = emin, eport_max = emax, address = addr,
                      perm_mask = msk, iport_min = imin, iport_max = imax\<rparr>))))"

section \<open>Matching\<close>

definition match_permission :: "upnpperm \<Rightarrow> port \<Rightarrow> ipv4 \<Rightarrow> port \<Rightarrow> bool" where
  "match_permission perm eport addr iport =
     (if eport < eport_min perm \<or> eport_max perm < eport then False
      else if iport < iport_min perm \<or> iport_max perm < iport then False
      else if (addr AND perm_mask perm) \<noteq> (address perm AND perm_mask perm) then False
      else True)"

fun check_upnp_rule_against_permissions :: "upnpperm list \<Rightarrow> port \<Rightarrow> ipv4 \<Rightarrow> port \<Rightarrow> bool" where
  "check_upnp_rule_against_permissions [] eport addr iport = True"
| "check_upnp_rule_against_permissions (p # ps) eport addr iport =
     (if match_permission p eport addr iport then ptype p = UPNPPERM_ALLOW
      else check_upnp_rule_against_permissions ps eport addr iport)"

section \<open>The bitmap of permitted external ports\<close>

definition set_bit_word :: "perm_type \<Rightarrow> nat \<Rightarrow> u32 \<Rightarrow> u32" where
  "set_bit_word t b w =
     (if t = UPNPPERM_ALLOW then w OR push_bit b 1 else w AND NOT (push_bit b 1))"

text \<open>The inner \<^verbatim>\<open>do ... while\<close>: one bit at once, up to the end of the word.\<close>

function fill_bits :: "perm_type \<Rightarrow> nat \<Rightarrow> nat \<Rightarrow> u32 list \<Rightarrow> nat \<times> u32 list" where
  "fill_bits t emax j allowed =
     (let allowed' = allowed[j div 32 := set_bit_word t (j mod 32) (allowed ! (j div 32))];
          j' = j + 1
      in if j' mod 32 \<noteq> 0 \<and> j' \<le> emax then fill_bits t emax j' allowed' else (j', allowed'))"
  by pat_completeness auto
termination
  by (relation "measure (\<lambda>(t, emax, j, allowed). emax - j)") auto

declare fill_bits.simps [simp del]

lemma fill_bits_progress: "j < fst (fill_bits t emax j allowed)"
proof (induction t emax j allowed rule: fill_bits.induct)
  case (1 t emax j allowed)
  then show ?case by (subst fill_bits.simps) (force simp: Let_def)
qed

text \<open>The loop over the external ports of one rule: 32 bits at once where it can.\<close>

function fill_ports :: "perm_type \<Rightarrow> nat \<Rightarrow> nat \<Rightarrow> u32 list \<Rightarrow> u32 list" where
  "fill_ports t emax j allowed =
     (if j \<le> emax then
        (if j mod 32 = 0 \<and> j + 31 \<le> emax
         then fill_ports t emax (j + 32)
                (allowed[j div 32 := (if t = UPNPPERM_ALLOW then 0xffffffff else 0)])
         else (let r = fill_bits t emax j allowed in fill_ports t emax (fst r) (snd r)))
      else allowed)"
  by pat_completeness auto
termination
  by (relation "measure (\<lambda>x. Suc (fst (snd x)) - fst (snd (snd x)))")
    (auto simp del: One_nat_def intro!: diff_less_mono2 fill_bits_progress)

declare fill_ports.simps [simp del]

definition permit_step :: "ipv4 \<Rightarrow> port \<Rightarrow> upnpperm \<Rightarrow> u32 list \<Rightarrow> u32 list" where
  "permit_step addr iport perm allowed =
     (if (addr AND perm_mask perm) \<noteq> (address perm AND perm_mask perm) then allowed
      else if iport < iport_min perm \<or> iport_max perm < iport then allowed
      else fill_ports (ptype perm) (unat (eport_max perm)) (unat (eport_min perm)) allowed)"

definition get_permitted_ext_ports :: "upnpperm list \<Rightarrow> ipv4 \<Rightarrow> port \<Rightarrow> u32 list" where
  "get_permitted_ext_ports permary addr iport =
     foldr (permit_step addr iport) permary (replicate 2048 0xffffffff)"

definition port_bit :: "u32 list \<Rightarrow> nat \<Rightarrow> bool" where
  "port_bit allowed e = bit (allowed ! (e div 32)) (e mod 32)"

section \<open>The bitmap agrees with the decision\<close>

lemma bit_set_bit_word:
  "b < 32 \<Longrightarrow> i < 32 \<Longrightarrow>
   bit (set_bit_word t b w) i = (if i = b then t = UPNPPERM_ALLOW else bit w i)"
  by (auto simp: set_bit_word_def bit_or_iff bit_and_iff bit_not_iff bit_exp_iff)

lemma div_mod_32_eq: "(a::nat) div 32 = b div 32 \<Longrightarrow> a mod 32 = b mod 32 \<Longrightarrow> a = b"
  by (metis div_mult_mod_eq)

lemma port_bit_set_one:
  assumes "j div 32 < length allowed"
  shows "port_bit (allowed[j div 32 := set_bit_word t (j mod 32) (allowed ! (j div 32))]) e
    = (if e = j then t = UPNPPERM_ALLOW else port_bit allowed e)"
  using assms by (auto simp: port_bit_def nth_list_update bit_set_bit_word dest: div_mod_32_eq)

lemma bit_all_ones: "i < 32 \<Longrightarrow> bit (0xffffffff :: u32) i"
proof -
  have "(0xffffffff :: u32) = mask 32" by (simp add: mask_eq_exp_minus_1)
  moreover assume "i < 32"
  ultimately show ?thesis by (simp only: bit_mask_iff) simp
qed

lemma port_bit_set_word:
  assumes "j mod 32 = 0" and "j div 32 < length allowed"
  shows "port_bit (allowed[j div 32 := (if t = UPNPPERM_ALLOW then 0xffffffff else 0)]) e
    = (if j \<le> e \<and> e < j + 32 then t = UPNPPERM_ALLOW else port_bit allowed e)"
proof -
  define w :: u32 where "w = (if t = UPNPPERM_ALLOW then 0xffffffff else 0)"
  obtain q where q: "j = 32 * q" using assms(1) by (auto simp: mod_eq_0_iff_dvd elim: dvdE)
  have "e div 32 = q \<longleftrightarrow> 32 * q \<le> e \<and> e < 32 * q + 32" by arith
  then have same: "e div 32 = j div 32 \<longleftrightarrow> j \<le> e \<and> e < j + 32" using q by simp
  have "bit w (e mod 32) = (t = UPNPPERM_ALLOW)"
    unfolding w_def using bit_all_ones [of "e mod 32"] by (cases t) simp_all
  moreover have "allowed[j div 32 := w] ! (e div 32)
      = (if e div 32 = j div 32 then w else allowed ! (e div 32))"
    using assms(2) by (cases "e div 32 = j div 32") simp_all
  ultimately show ?thesis
    unfolding port_bit_def w_def [symmetric]
    by (cases "j \<le> e \<and> e < j + 32") (auto simp: same)
qed

lemma fill_bits_spec:
  assumes "length allowed = 2048" and "emax < 65536" and "j \<le> emax"
  shows "length (snd (fill_bits t emax j allowed)) = 2048
    \<and> fst (fill_bits t emax j allowed) \<le> Suc emax
    \<and> port_bit (snd (fill_bits t emax j allowed)) e
      = (if j \<le> e \<and> e < fst (fill_bits t emax j allowed)
         then t = UPNPPERM_ALLOW else port_bit allowed e)"
  using assms
proof (induction t emax j allowed rule: fill_bits.induct)
  case (1 t emax j allowed)
  define a1 where "a1 = allowed[j div 32 := set_bit_word t (j mod 32) (allowed ! (j div 32))]"
  have len: "length a1 = 2048" using "1.prems" by (simp add: a1_def)
  have b1: "port_bit a1 e = (if e = j then t = UPNPPERM_ALLOW else port_bit allowed e)"
    unfolding a1_def using "1.prems" by (intro port_bit_set_one) simp
  have eq: "fill_bits t emax j allowed =
      (if (j + 1) mod 32 \<noteq> 0 \<and> j + 1 \<le> emax then fill_bits t emax (j + 1) a1 else (j + 1, a1))"
    by (subst fill_bits.simps) (simp add: a1_def Let_def)
  show ?case
  proof (cases "(j + 1) mod 32 \<noteq> 0 \<and> j + 1 \<le> emax")
    case True
    then have "fill_bits t emax j allowed = fill_bits t emax (j + 1) a1"
      unfolding eq by (rule if_P)
    with "1.IH" [OF a1_def refl True len] "1.prems" b1 True
      fill_bits_progress [of "j + 1" t emax a1] show ?thesis by auto
  next
    case False
    then have "fill_bits t emax j allowed = (j + 1, a1)" unfolding eq by (rule if_not_P)
    with len b1 "1.prems" show ?thesis by auto
  qed
qed

lemma fill_ports_spec:
  assumes "length allowed = 2048" and "emax < 65536"
  shows "length (fill_ports t emax j allowed) = 2048
    \<and> port_bit (fill_ports t emax j allowed) e
      = (if j \<le> e \<and> e \<le> emax then t = UPNPPERM_ALLOW else port_bit allowed e)"
  using assms
proof (induction t emax j allowed rule: fill_ports.induct)
  case (1 t emax j allowed)
  consider "\<not> j \<le> emax" | "j \<le> emax" "j mod 32 = 0 \<and> j + 31 \<le> emax"
    | "j \<le> emax" "\<not> (j mod 32 = 0 \<and> j + 31 \<le> emax)" by blast
  then show ?case
  proof cases
    case 1
    then show ?thesis using "1.prems" by (subst (1 2) fill_ports.simps) auto
  next
    case 2
    define a1 where "a1 = allowed[j div 32 := (if t = UPNPPERM_ALLOW then 0xffffffff else 0)]"
    have "port_bit a1 e = (if j \<le> e \<and> e < j + 32 then t = UPNPPERM_ALLOW else port_bit allowed e)"
      unfolding a1_def using "1.prems" 2 by (intro port_bit_set_word) auto
    moreover have "length a1 = 2048" using "1.prems" by (simp add: a1_def)
    moreover have "fill_ports t emax j allowed = fill_ports t emax (j + 32) a1"
      using 2 by (subst fill_ports.simps) (simp add: a1_def)
    ultimately show ?thesis
      using "1.IH" (1) [OF 2, folded a1_def] "1.prems" 2 by auto
  next
    case 3
    define r where "r = fill_bits t emax j allowed"
    have "fill_ports t emax j allowed = fill_ports t emax (fst r) (snd r)"
      using 3 by (subst fill_ports.simps) (auto simp: r_def Let_def)
    moreover note fill_bits_spec [OF "1.prems" 3(1), of t e, folded r_def]
    moreover have "j < fst r" unfolding r_def by (rule fill_bits_progress)
    ultimately show ?thesis
      using "1.IH" (2) [OF 3 r_def] "1.prems" by auto
  qed
qed

lemma permit_step_spec:
  assumes "length allowed = 2048"
  shows "length (permit_step addr iport perm allowed) = 2048
    \<and> port_bit (permit_step addr iport perm allowed) (unat e)
      = (if match_permission perm e addr iport then ptype perm = UPNPPERM_ALLOW
         else port_bit allowed (unat e))"
  using fill_ports_spec [OF assms, of "unat (eport_max perm)" "ptype perm" "unat (eport_min perm)"]
    unat_port_less [of "eport_max perm"] assms
  by (auto simp: permit_step_def match_permission_def word_less_nat_alt not_less)

lemma permitted_spec:
  "length (get_permitted_ext_ports perms addr iport) = 2048
   \<and> port_bit (get_permitted_ext_ports perms addr iport) (unat e)
     = check_upnp_rule_against_permissions perms e addr iport"
proof (induction perms)
  case Nil
  have "unat e div 32 < 2048" using unat_port_less [of e] by simp
  moreover have "bit (0xffffffff :: u32) (unat e mod 32)" by (rule bit_all_ones) simp
  ultimately show ?case by (simp add: get_permitted_ext_ports_def port_bit_def)
next
  case (Cons p ps)
  have "get_permitted_ext_ports (p # ps) addr iport
    = permit_step addr iport p (get_permitted_ext_ports ps addr iport)"
    by (simp add: get_permitted_ext_ports_def)
  then show ?case using Cons.IH permit_step_spec by simp
qed

section \<open>Printing a rule and reading it back\<close>

definition print_ports :: "port \<Rightarrow> port \<Rightarrow> string" where
  "print_ports a b = (if a = b then dec (unat a) else dec (unat a) @ ''-'' @ dec (unat b))"

text \<open>The text of a rule in the syntax the configuration file documents.\<close>

definition print_rule :: "upnpperm \<Rightarrow> string" where
  "print_rule p = (case ptype p of UPNPPERM_ALLOW \<Rightarrow> ''allow '' | UPNPPERM_DENY \<Rightarrow> ''deny '')
     @ dec (unat (eport_min p)) @ ''-'' @ dec (unat (eport_max p)) @ '' ''
     @ dotted (address p) @ ''/'' @ dotted (perm_mask p) @ '' ''
     @ dec (unat (iport_min p)) @ ''-'' @ dec (unat (iport_max p))"

definition wf_perm :: "upnpperm \<Rightarrow> bool" where
  "wf_perm p \<longleftrightarrow> eport_min p \<le> eport_max p \<and> iport_min p \<le> iport_max p"

lemma dec_nth_not_space: "skip_space (dec n @ r) = dec n @ r"
  using dec_digits [of n] by (cases "dec n") (auto simp: cstr)

lemma port_token_print:
  assumes "a \<le> b" and r: "starts_nondigit r"
  shows "port_token e (dec (unat a) @ CHR ''-'' # dec (unat b) @ r)
    = Inr (a, b, if r = [] then None else Some (tl r))"
proof -
  have dash: "starts_nondigit (CHR ''-'' # s)" for s
    by (simp add: starts_nondigit_def isdigit_def)
  have "atoi (dec (unat a)) = int (unat a)" "atoi (dec (unat b)) = int (unat b)"
    using unat_port_less [of a] unat_port_less [of b] by (simp_all add: cstr)
  moreover have "uint a \<le> 65535" "uint b \<le> 65535"
    by (rule uint_port_le)+
  ultimately show ?thesis
    using assms
    by (simp add: port_token_def Let_def takeWhile_dec [OF dash] dropWhile_dec [OF dash]
        takeWhile_dec [OF r] dropWhile_dec [OF r] hd_append)
qed

lemma addr_char_dotted: "\<forall>c \<in> set (dotted a). addr_char c"
  using dec_digits by (auto simp: dotted_def addr_char_def)

lemma takeWhile_dotted [cstr]:
  "\<not> addr_char c \<Longrightarrow> takeWhile addr_char (dotted a @ c # r) = dotted a"
  "\<not> addr_char c \<Longrightarrow> dropWhile addr_char (dotted a @ c # r) = c # r"
  using addr_char_dotted [of a] by (simp_all add: takeWhile_append2 dropWhile_append2)

lemma hd_dotted: "dotted a \<noteq> []" "isdigit (hd (dotted a))"
  by (simp_all add: dotted_def hd_append)

lemma addr_token_print:
  "addr_token (dotted a @ CHR ''/'' # dotted m @ CHR '' '' # r) = Inr (a, m, r)"
proof -
  have sl: "\<not> addr_char (CHR ''/'')" "\<not> addr_char (CHR '' '')"
    by (simp_all add: addr_char_def isdigit_def)
  have nd: "starts_nondigit (CHR ''.'' # s)" for s
    by (simp add: starts_nondigit_def isdigit_def)
  have q2: "dropWhile isdigit (dotted m @ CHR '' '' # r) =
    ''.'' @ dec (octet 2 m) @ ''.'' @ dec (octet 1 m) @ ''.'' @ dec (octet 0 m) @ CHR '' '' # r"
    by (simp add: dotted_def dropWhile_dec [OF nd])
  have "dropWhile addr_char (dropWhile isdigit (dotted m @ CHR '' '' # r)) = CHR '' '' # r"
    using dec_digits sl unfolding q2 by (auto simp: dropWhile_append2 addr_char_def)
  then show ?thesis
    using hd_dotted [of a] sl
    by (simp add: addr_token_def Let_def cstr q2 hd_append isspace_def)
qed

lemma read_print_rule:
  assumes "wf_perm p"
  shows "read_permission_line (print_rule p) = Inr p"
proof -
  have sp: "starts_nondigit (CHR '' '' # s)" for s
    by (simp add: starts_nondigit_def isdigit_def)
  have skip: "skip_space (CHR '' '' # s) = skip_space s" for s by (simp add: isspace_def)
  have kw: "skip_space (''allow'' @ s) = ''allow'' @ s" "skip_space (''deny'' @ s) = ''deny'' @ s" for s
    by (simp_all add: isspace_def)
  have addr: "skip_space (dotted a @ s) = dotted a @ s" for a s
    by (simp add: dotted_def dec_nth_not_space)
  define tail where "tail = dec (unat (eport_min p)) @ CHR ''-'' # dec (unat (eport_max p))
     @ CHR '' '' # dotted (address p) @ CHR ''/'' # dotted (perm_mask p) @ CHR '' ''
     # dec (unat (iport_min p)) @ CHR ''-'' # dec (unat (iport_max p)) @ []"
  have "type_token (skip_space (print_rule p)) = Some (ptype p, CHR '' '' # tail)"
    by (cases "ptype p") (simp_all add: print_rule_def tail_def type_token_def isspace_def)
  moreover have "skip_space (CHR '' '' # tail) = tail"
    unfolding skip tail_def by (rule dec_nth_not_space)
  moreover have le: "eport_min p \<le> eport_max p" "iport_min p \<le> iport_max p"
    using assms by (simp_all add: wf_perm_def)
  moreover define t2 where "t2 = dotted (address p) @ CHR ''/'' # dotted (perm_mask p) @ CHR '' ''
     # dec (unat (iport_min p)) @ CHR ''-'' # dec (unat (iport_max p)) @ []"
  moreover have "port_token False tail = Inr (eport_min p, eport_max p, Some t2)"
    unfolding tail_def t2_def using le(1) by (subst port_token_print) (simp_all add: sp)
  moreover have "addr_token (skip_space t2) = Inr (address p, perm_mask p,
      dec (unat (iport_min p)) @ CHR ''-'' # dec (unat (iport_max p)) @ [])"
    unfolding t2_def addr by (rule addr_token_print)
  moreover have "port_token True (skip_space (dec (unat (iport_min p)) @ CHR ''-''
      # dec (unat (iport_max p)) @ [])) = Inr (iport_min p, iport_max p, None)"
    unfolding dec_nth_not_space
    using le(2) by (subst port_token_print) (simp_all add: starts_nondigit_def)
  moreover have "skip_space t2 = t2" unfolding t2_def by (rule addr)
  ultimately show ?thesis
    by (simp add: read_permission_line_def del: dropWhile.simps append_Nil2)
qed

section \<open>What an accepted line guarantees\<close>

lemma port_token_ordered: "port_token e p = Inr (a, b, r) \<Longrightarrow> a \<le> b"
  by (auto simp: port_token_def Let_def not_less split: if_splits)

lemma read_permission_line_wf: "read_permission_line s = Inr p \<Longrightarrow> wf_perm p"
  by (auto simp: read_permission_line_def wf_perm_def
      split: option.splits prod.splits sum.splits dest!: port_token_ordered)

section \<open>Properties\<close>

text \<open>C23: The bitmap \<^verbatim>\<open>get_permitted_ext_ports\<close> builds (last rule first, 32 ports at once
  where a range covers a whole word) has the bit of an external port set exactly when
  \<^verbatim>\<open>check_upnp_rule_against_permissions\<close> (first match decides, accept by default) accepts
  that port for the same client address and internal port.\<close>

theorem permitted_ports_agree:
  "length (get_permitted_ext_ports perms addr iport) = 2048
   \<and> (\<forall>e. port_bit (get_permitted_ext_ports perms addr iport) (unat e)
        = check_upnp_rule_against_permissions perms e addr iport)"
  using permitted_spec by blast

text \<open>A rule whose ranges are ordered, printed in the syntax of the configuration file with
  dotted address and mask, is read back unchanged by \<^verbatim>\<open>read_permission_line\<close>.\<close>

theorem permission_line_roundtrip:
  assumes "wf_perm p"
  shows "read_permission_line (print_rule p) = Inr p"
  using assms by (rule read_print_rule)

definition sample_rule :: upnpperm where
  "sample_rule = \<lparr>ptype = UPNPPERM_DENY, eport_min = 1024, eport_max = 65535,
     address = 0xC0A80300, perm_mask = 0xFFFFFF00, iport_min = 22, iport_max = 22\<rparr>"

theorem permission_line_roundtrip_witness:
  "read_permission_line (print_rule sample_rule) = Inr sample_rule"
  by (rule permission_line_roundtrip) (simp add: sample_rule_def wf_perm_def)

text \<open>A line that ends right after an external port range is not rejected where it ends: the
  parser steps behind the terminator and reads on. This holds for every rule type and every
  ordered range.\<close>

theorem permission_line_overrun:
  assumes "(a::port) \<le> b"
  shows "read_permission_line ((case t of UPNPPERM_ALLOW \<Rightarrow> ''allow '' | UPNPPERM_DENY \<Rightarrow> ''deny '')
     @ dec (unat a) @ ''-'' @ dec (unat b)) = Inl Overrun"
proof -
  have port: "port_token False (dec (unat a) @ CHR ''-'' # dec (unat b)) = Inr (a, b, None)"
    using port_token_print [OF assms, of "[]" False] by (simp add: starts_nondigit_def)
  show ?thesis
    using dec_nth_not_space [of "unat a" "CHR ''-'' # dec (unat b)"]
    by (cases t) (simp_all add: read_permission_line_def type_token_def isspace_def port)
qed

theorem permission_line_overrun_witness:
  "read_permission_line (''allow '' @ dec (unat (1024::port)) @ ''-'' @ dec (unat (65535::port)))
     = Inl Overrun"
  using permission_line_overrun [of 1024 65535 UPNPPERM_ALLOW] by simp

end
