(* ===== verification/Jwt_Utils.thy ===== *)
theory Jwt_Utils
  imports Upnp_Prelude
begin

text \<open>
  \<^verbatim>\<open>jwtauthutils.c\<close> (addresses and address ranges of a token), \<^verbatim>\<open>upnpsoapauth.c\<close> (the
  decision whether a mapping request is covered by a token's permission) and the
  \<^verbatim>\<open>strtok\<close> of the C library both use.
\<close>

section \<open>strtok\<close>

text \<open>One call with a single delimiter: the token and the text the next call continues in.\<close>

definition strtok :: "char \<Rightarrow> string \<Rightarrow> (string \<times> string) option" where
  "strtok d s =
     (let t = dropWhile (\<lambda>c. c = d) s
      in if t = [] then None
         else Some (takeWhile (\<lambda>c. c \<noteq> d) t, drop 1 (dropWhile (\<lambda>c. c \<noteq> d) t)))"

lemma strtok_token:
  assumes "t \<noteq> []" and "\<forall>c \<in> set t. c \<noteq> d"
  shows "strtok d (t @ d # r) = Some (t, r)" and "strtok d t = Some (t, [])"
proof -
  obtain c t' where t: "t = c # t'" "c \<noteq> d" using assms by (cases t) auto
  have "dropWhile (\<lambda>c. c = d) (t @ s) = t @ s" for s using t by simp
  moreover have nil: "dropWhile (\<lambda>c. c \<noteq> d) t = []" using assms by simp
  ultimately show "strtok d (t @ d # r) = Some (t, r)"
    and "strtok d t = Some (t, [])"
    using assms by (auto simp: strtok_def takeWhile_append2 dropWhile_append2 nil)
qed

lemma dec_not_delim: "\<not> isdigit d \<Longrightarrow> \<forall>c \<in> set (dec n). c \<noteq> d"
  using dec_digits [of n] by auto

lemma strtok_dec [cstr]:
  "\<not> isdigit d \<Longrightarrow> strtok d (dec n @ d # r) = Some (dec n, r)"
  "\<not> isdigit d \<Longrightarrow> strtok d (dec n) = Some (dec n, [])"
  by (simp_all add: strtok_token dec_not_delim)

lemma strtok_Some_token:
  assumes "strtok d s = Some (t, r)"
  shows "t \<noteq> [] \<and> d \<notin> set t"
proof -
  define u where "u = dropWhile (\<lambda>c. c = d) s"
  from assms have u: "u \<noteq> []" "t = takeWhile (\<lambda>c. c \<noteq> d) u"
    by (auto simp: strtok_def u_def Let_def split: if_splits)
  then have "hd u \<noteq> d" using hd_dropWhile [of "\<lambda>c. c = d" s] by (simp add: u_def)
  with u show ?thesis by (cases u) (auto dest: set_takeWhileD)
qed

section \<open>Addresses\<close>

definition MAX_IP_STR_LEN :: nat where "MAX_IP_STR_LEN = 15"
definition MAX_IPRANGE_STR_LEN :: nat where "MAX_IPRANGE_STR_LEN = MAX_IP_STR_LEN + 3"

definition parse_octet :: "string \<Rightarrow> int option" where
  "parse_octet seg =
     (let tmp = atoi seg
      in if tmp > 256 \<or> tmp < 0 \<or> (tmp = 0 \<and> (length seg \<noteq> 1 \<or> hd seg \<noteq> CHR ''0''))
         then None else Some tmp)"

definition parse_ip_address :: "string \<Rightarrow> ipv4 option" where
  "parse_ip_address address_str =
     (case strtok CHR ''.'' address_str of None \<Rightarrow> None | Some (first, s1) \<Rightarrow>
      (case strtok CHR ''.'' s1 of None \<Rightarrow> None | Some (second, s2) \<Rightarrow>
       (case strtok CHR ''.'' s2 of None \<Rightarrow> None | Some (third, s3) \<Rightarrow>
        (case strtok CHR ''.'' s3 of None \<Rightarrow> None | Some (fourth, _) \<Rightarrow>
         (case parse_octet first of None \<Rightarrow> None | Some a \<Rightarrow>
          (case parse_octet second of None \<Rightarrow> None | Some b \<Rightarrow>
           (case parse_octet third of None \<Rightarrow> None | Some c \<Rightarrow>
            (case parse_octet fourth of None \<Rightarrow> None | Some d \<Rightarrow>
              Some (push_bit 24 (word_of_int a) + push_bit 16 (word_of_int b)
                    + push_bit 8 (word_of_int c) + word_of_int d)))))))))"

text \<open>
  \<^verbatim>\<open>ParseIpAddress\<close> copies the text without its terminator into a block of exactly its
  length and tokenizes the copy, so the bytes that follow the block up to the first zero byte,
  \<open>heap\<close>, are parsed with it.
\<close>

definition ParseIpAddress :: "string \<Rightarrow> string \<Rightarrow> ipv4 option" where
  "ParseIpAddress heap address_str =
     (if length address_str > MAX_IP_STR_LEN then None
      else parse_ip_address (address_str @ heap))"

definition ParseIpMaskString :: "string \<Rightarrow> (ipv4 \<times> u32) option" where
  "ParseIpMaskString range_str =
     (case strtok CHR ''/'' range_str of None \<Rightarrow> None | Some (addr_seg, s1) \<Rightarrow>
      (case strtok CHR ''/'' s1 of None \<Rightarrow> None | Some (mask_seg, _) \<Rightarrow>
       (case parse_ip_address addr_seg of None \<Rightarrow> None | Some address \<Rightarrow>
         (let tmp = atoi mask_seg
          in if tmp > 32 \<or> tmp < 0 \<or> (tmp = 0 \<and> (length mask_seg \<noteq> 1 \<or> hd mask_seg \<noteq> CHR ''0''))
             then None else Some (address, word_of_int tmp)))))"

definition ContainIp :: "ipv4 \<Rightarrow> u32 \<Rightarrow> ipv4 \<Rightarrow> int" where
  "ContainIp range_addr range_mask target =
     (if range_mask = 0 then 1
      else if range_mask < 1 \<or> range_mask > 32 then - 1
      else (let mask = 0xffffffff - (push_bit (unat (32 - range_mask)) 1 - 1)
            in if (range_addr AND mask) = (target AND mask) then 1 else 0))"

lemma parse_octet_dec: "n \<le> 256 \<Longrightarrow> parse_octet (dec n) = Some (int n)"
  by (auto simp: parse_octet_def cstr Let_def)

lemma not_digit_sep: "\<not> isdigit CHR ''.''" "\<not> isdigit CHR ''/''" "\<not> isdigit CHR ''-''"
  by (simp_all add: isdigit_def)

lemma parse_ip_address_numbers:
  assumes "a \<le> 256" "b \<le> 256" "c \<le> 256" "d \<le> 256"
  shows "parse_ip_address (dec a @ ''.'' @ dec b @ ''.'' @ dec c @ ''.'' @ dec d)
    = Some (word_of_nat (a * 256 ^ 3 + b * 256 ^ 2 + c * 256 + d))"
  using assms
  by (simp add: parse_ip_address_def cstr not_digit_sep parse_octet_dec push_bit_eq_mult mult.commute)

lemma parse_ip_address_dotted: "parse_ip_address (dotted a) = Some a"
proof -
  have "parse_ip_address (dotted a)
    = Some (word_of_nat (octet 3 a * 256 ^ 3 + octet 2 a * 256 ^ 2 + octet 1 a * 256 + octet 0 a))"
    unfolding dotted_def by (rule parse_ip_address_numbers) (simp_all add: less_imp_le)
  then show ?thesis by (simp only: octets_sum) simp
qed

lemma dotted_no_slash: "dotted a \<noteq> []" "\<forall>c \<in> set (dotted a). c \<noteq> CHR ''/''"
  using dec_digits not_digit_sep(2) by (auto simp: dotted_def)

lemma parse_range_dotted:
  assumes "m \<le> 32"
  shows "ParseIpMaskString (dotted a @ ''/'' @ dec m) = Some (a, word_of_nat m)"
  using assms
  by (auto simp: ParseIpMaskString_def strtok_token dotted_no_slash cstr not_digit_sep
      parse_ip_address_dotted Let_def)

section \<open>The range test\<close>

lemma and_not_mask_eq_iff:
  "((x::ipv4) AND NOT (mask n)) = (y AND NOT (mask n))
    \<longleftrightarrow> drop_bit n x = drop_bit n y"
proof
  assume eq: "(x AND NOT (mask n)) = (y AND NOT (mask n))"
  have "drop_bit n x = drop_bit n (x AND NOT (mask n))" for x :: ipv4
    by (rule bit_word_eqI)
      (auto simp: bit_drop_bit_eq bit_and_iff bit_not_iff bit_mask_iff dest: bit_imp_le_length)
  then show "drop_bit n x = drop_bit n y" using eq by metis
next
  assume eq: "drop_bit n x = drop_bit n y"
  have "bit x i = bit y i" if "n \<le> i" for i
  proof -
    have "bit (drop_bit n x) (i - n) = bit (drop_bit n y) (i - n)" using eq by simp
    with that show ?thesis by (simp add: bit_drop_bit_eq)
  qed
  then show "(x AND NOT (mask n)) = (y AND NOT (mask n))"
    by (intro bit_word_eqI) (auto simp: bit_and_iff bit_not_iff bit_mask_iff)
qed

lemma cidr_complement:
  "(0xffffffff::ipv4) - (push_bit n 1 - 1) = NOT (mask n)"
  by (simp add: mask_eq_exp_minus_1 not_eq_complement)

lemma ContainIp_prefix:
  assumes "m \<le> 32"
  shows "ContainIp a m t = (if drop_bit (32 - unat m) a = drop_bit (32 - unat m) t then 1 else 0)"
proof (cases "m = 0")
  case True
  have "drop_bit 32 x = 0" for x :: ipv4
    by (rule bit_word_eqI) (simp add: bit_drop_bit_eq)
  with True show ?thesis by (simp add: ContainIp_def)
next
  case False
  have "unat (32 - m) = 32 - unat m"
    using assms by (simp add: unat_sub)
  moreover have "\<not> (m < 1 \<or> m > 32)"
    using assms False by (simp add: word_less_1 not_less)
  ultimately show ?thesis
    using False
    by (simp only: ContainIp_def cidr_complement and_not_mask_eq_iff Let_def if_False)
qed

section \<open>Permissions of a token\<close>

record PortRange =
  pr_start :: port
  pr_end :: port

record IpRange =
  ip_address :: ipv4
  ip_mask :: u32

record Permission =
  pub_port_range :: "PortRange list"
  int_ip_range :: "IpRange list"

section \<open>Covered requests\<close>

text \<open>An address is in a range when the leading bits, as many as the mask says, are those of the range.\<close>

definition in_ip_range :: "IpRange \<Rightarrow> ipv4 \<Rightarrow> bool" where
  "in_ip_range r ip \<longleftrightarrow> unat (ip_mask r) \<le> 32
     \<and> unat (ip_address r) div 2 ^ (32 - unat (ip_mask r)) = unat ip div 2 ^ (32 - unat (ip_mask r))"

definition in_port_range :: "PortRange \<Rightarrow> port \<Rightarrow> bool" where
  "in_port_range r p \<longleftrightarrow> unat p \<in> {unat (pr_start r)..unat (pr_end r)}"

text \<open>The loops of \<^verbatim>\<open>upnpsoapauth.c\<close>: look for the first range that contains the value.\<close>

fun contains_ip :: "IpRange list \<Rightarrow> ipv4 \<Rightarrow> bool" where
  "contains_ip [] ip = False"
| "contains_ip (r # rs) ip = (if 1 = ContainIp (ip_address r) (ip_mask r) ip then True else contains_ip rs ip)"

fun contains_port :: "PortRange list \<Rightarrow> port \<Rightarrow> bool" where
  "contains_port [] p = False"
| "contains_port (r # rs) p = (if pr_start r \<le> p \<and> pr_end r \<ge> p then True else contains_port rs p)"

definition VeridyAddPortMappingAuth :: "Permission \<Rightarrow> ipv4 \<Rightarrow> port \<Rightarrow> int" where
  "VeridyAddPortMappingAuth perm int_ip_addr eport =
     (if \<not> contains_ip (int_ip_range perm) int_ip_addr then 0
      else if \<not> contains_port (pub_port_range perm) eport then 0
      else 1)"

definition VeridyAddAnyPortMappingAuth :: "Permission \<Rightarrow> ipv4 \<Rightarrow> port \<Rightarrow> int" where
  "VeridyAddAnyPortMappingAuth perm int_ip_addr eport =
     (if \<not> contains_ip (int_ip_range perm) int_ip_addr then 0
      else if eport = 0 \<and> length (pub_port_range perm) > 0 then 1
      else if \<not> contains_port (pub_port_range perm) eport then 0
      else 1)"

lemma drop_bit_unat_eq: "drop_bit n (a :: u32) = drop_bit n b \<longleftrightarrow> unat a div 2 ^ n = unat b div 2 ^ n"
  by (simp only: word_unat_eq_iff [of "drop_bit n a"] unat_drop_bit_eq drop_bit_eq_div [where 'a = nat])

lemma in_ip_range_iff: "in_ip_range r ip \<longleftrightarrow> ContainIp (ip_address r) (ip_mask r) ip = 1"
proof (cases "ip_mask r \<le> 32")
  case True
  then show ?thesis by (simp add: ContainIp_prefix in_ip_range_def drop_bit_unat_eq word_le_nat_alt)
next
  case False
  then have "32 < ip_mask r" by simp
  then have "ContainIp (ip_address r) (ip_mask r) ip = - 1" by (auto simp: ContainIp_def)
  then show ?thesis using False by (simp add: in_ip_range_def word_le_nat_alt)
qed

lemma contains_ip_iff: "contains_ip rs ip \<longleftrightarrow> (\<exists>r \<in> set rs. in_ip_range r ip)"
  by (induction rs) (auto simp: in_ip_range_iff)

lemma contains_port_iff: "contains_port rs p \<longleftrightarrow> (\<exists>r \<in> set rs. in_port_range r p)"
  by (induction rs) (auto simp: in_port_range_def word_le_nat_alt)

section \<open>Properties\<close>

text \<open>An address range of a token in the form \<^verbatim>\<open>a.b.c.d/m\<close> is parsed to the address and
  the prefix length it was printed from.\<close>

theorem ip_range_roundtrip:
  assumes "m \<le> 32"
  shows "ParseIpMaskString (dotted a @ ''/'' @ dec m) = Some (a, word_of_nat m)"
  using assms by (rule parse_range_dotted)

theorem ip_range_roundtrip_witness:
  "ParseIpMaskString (dotted 0xC0A80000 @ ''/'' @ dec 16) = Some (0xC0A80000, 16)"
  using ip_range_roundtrip [of 16 "0xC0A80000"] by simp

text \<open>The token's address test is the prefix test: for a prefix length up to 32,
  \<^verbatim>\<open>ContainIp\<close> answers 1 exactly when the leading bits of range and target agree, else 0.\<close>

theorem contain_ip_is_prefix_match:
  assumes "m \<le> 32"
  shows "ContainIp a m t = (if drop_bit (32 - unat m) a = drop_bit (32 - unat m) t then 1 else 0)"
  using assms by (rule ContainIp_prefix)

theorem contain_ip_is_prefix_match_witness:
  "(16::u32) \<le> 32 \<and> ContainIp 0xC0A80000 16 0xC0A80505 = 1"
proof
  show "(16::u32) \<le> 32" by simp
  show "ContainIp 0xC0A80000 16 0xC0A80505 = 1"
    by (subst contain_ip_is_prefix_match) simp_all
qed

text \<open>The octet check lets 256 pass, and the excess is carried into the octet on its left: the
  text \<^verbatim>\<open>a.b.256.d\<close> is accepted as the address \<open>a.(b+1).0.d\<close>, another network.\<close>

theorem octet_256_carries:
  assumes "a < 256" and "b < 255" and "d < 256"
  shows "parse_ip_address (dec a @ ''.'' @ dec b @ ''.'' @ dec 256 @ ''.'' @ dec d)
    = parse_ip_address (dec a @ ''.'' @ dec (b + 1) @ ''.'' @ dec 0 @ ''.'' @ dec d)"
  using assms parse_ip_address_numbers [of a b 256 d] parse_ip_address_numbers [of a "b + 1" 0 d]
  by (simp add: algebra_simps)

theorem octet_256_carries_witness:
  "parse_ip_address (dec 10 @ ''.'' @ dec 0 @ ''.'' @ dec 256 @ ''.'' @ dec 1)
    = parse_ip_address (dec 10 @ ''.'' @ dec 1 @ ''.'' @ dec 0 @ ''.'' @ dec 1)"
  using octet_256_carries [of 10 0 1] by simp

text \<open>C32: A mapping request is authorised exactly when the leading bits of the internal address are those of one of the
  token's address ranges, as many as its mask says and at most 32, and the external port lies in one of
  its port ranges, ends included; for the any-port action the wildcard port 0 is also allowed
  as soon as the token has a port range.\<close>

theorem mapping_auth_iff:
  "(VeridyAddPortMappingAuth perm ip eport = 1 \<longleftrightarrow>
      (\<exists>r \<in> set (int_ip_range perm). in_ip_range r ip)
      \<and> (\<exists>r \<in> set (pub_port_range perm). in_port_range r eport))
   \<and> (VeridyAddAnyPortMappingAuth perm ip eport = 1 \<longleftrightarrow>
      (\<exists>r \<in> set (int_ip_range perm). in_ip_range r ip)
      \<and> ((eport = 0 \<and> pub_port_range perm \<noteq> [])
          \<or> (\<exists>r \<in> set (pub_port_range perm). in_port_range r eport)))"
  by (auto simp: VeridyAddPortMappingAuth_def VeridyAddAnyPortMappingAuth_def
      contains_ip_iff contains_port_iff)

end
