(* ===== verification/Json_Object.thy ===== *)
theory Json_Object
  imports Upnp_Prelude
begin

text \<open>
  The JSON values of \<^verbatim>\<open>json/json_object.c\<close> as the daemon reads them: the object type and
  the accessors the controller client and the token check call, with the exact ranges of the
  integer accessors, and the retrieval helpers of \<^verbatim>\<open>sdn/iptcrdr.c\<close> and \<^verbatim>\<open>jwtauth.c\<close>.
  Doubles are kept opaque (an integer code), since the daemon rejects them by type only.
\<close>

datatype json =
    JNull
  | JBool bool
  | JDouble int
  | JInt int
  | JString string
  | JArray "json list"
  | JObject "(string \<times> json) list"

datatype json_type =
    json_type_null | json_type_boolean | json_type_double | json_type_int
  | json_type_object | json_type_array | json_type_string

fun json_object_get_type :: "json \<Rightarrow> json_type" where
  "json_object_get_type JNull = json_type_null"
| "json_object_get_type (JBool b) = json_type_boolean"
| "json_object_get_type (JDouble d) = json_type_double"
| "json_object_get_type (JInt i) = json_type_int"
| "json_object_get_type (JString s) = json_type_string"
| "json_object_get_type (JArray xs) = json_type_array"
| "json_object_get_type (JObject fs) = json_type_object"

fun json_object_object_get_ex :: "json \<Rightarrow> string \<Rightarrow> json option" where
  "json_object_object_get_ex (JObject fs) key = map_of fs key"
| "json_object_object_get_ex _ key = None"

text \<open>
  \<^verbatim>\<open>json_object_get_int\<close> on a value of type int: the 64-bit value (unsigned ones are cut
  at \<^verbatim>\<open>INT64_MAX\<close>) clamped to 32 bits.
\<close>

definition INT32_MIN :: int where "INT32_MIN = - 2147483648"
definition INT32_MAX :: int where "INT32_MAX = 2147483647"
definition INT64_MAX :: int where "INT64_MAX = 9223372036854775807"
definition UINT_MAX :: int where "UINT_MAX = 4294967295"

definition json_int_get_int :: "int \<Rightarrow> int" where
  "json_int_get_int i =
     (let c = (if INT64_MAX \<le> i then INT64_MAX else i)
      in if c \<le> INT32_MIN then INT32_MIN else if INT32_MAX \<le> c then INT32_MAX else c)"

definition json_int_get_uint64 :: "int \<Rightarrow> int" where
  "json_int_get_uint64 i = (if i < 0 then 0 else i)"

lemma json_int_get_int_range: "INT32_MIN \<le> json_int_get_int i \<and> json_int_get_int i \<le> INT32_MAX"
  by (simp add: json_int_get_int_def INT32_MIN_def INT32_MAX_def INT64_MAX_def Let_def)

lemma json_int_get_int_id: "INT32_MIN \<le> i \<Longrightarrow> i \<le> INT32_MAX \<Longrightarrow> json_int_get_int i = i"
  by (auto simp: json_int_get_int_def INT32_MIN_def INT32_MAX_def INT64_MAX_def Let_def)

section \<open>Retrieval helpers\<close>

definition retrieveStringFromJsonObj :: "json \<Rightarrow> string \<Rightarrow> string option" where
  "retrieveStringFromJsonObj jobj key =
     (case json_object_object_get_ex jobj key of None \<Rightarrow> None
      | Some (JString s) \<Rightarrow> Some s
      | Some _ \<Rightarrow> None)"

definition retrieveIntFromJsonObj :: "json \<Rightarrow> string \<Rightarrow> int option" where
  "retrieveIntFromJsonObj jobj key =
     (case json_object_object_get_ex jobj key of None \<Rightarrow> None
      | Some (JInt i) \<Rightarrow> Some (json_int_get_int i)
      | Some _ \<Rightarrow> None)"

definition retrieveUnsignedIntFromJsonObj :: "json \<Rightarrow> string \<Rightarrow> u32 option" where
  "retrieveUnsignedIntFromJsonObj jobj key =
     (case json_object_object_get_ex jobj key of None \<Rightarrow> None
      | Some (JInt i) \<Rightarrow>
          (let v = json_int_get_uint64 i
           in if v > UINT_MAX then None else Some (word_of_int v))
      | Some _ \<Rightarrow> None)"

definition retrieveJsonArrayFromJsonObj :: "json \<Rightarrow> string \<Rightarrow> json list option" where
  "retrieveJsonArrayFromJsonObj jobj key =
     (case json_object_object_get_ex jobj key of None \<Rightarrow> None
      | Some (JArray xs) \<Rightarrow> Some xs
      | Some _ \<Rightarrow> None)"

text \<open>\<^verbatim>\<open>ISVALID_USHORT\<close>\<close>

definition isvalid_ushort :: "int \<Rightarrow> bool" where
  "isvalid_ushort x \<longleftrightarrow> x \<ge> 0 \<and> x \<le> 65535"

text \<open>
  \<^verbatim>\<open>retrievePortNumberFromJsonObj\<close> rejects only when the integer is missing \<^emph>\<open>and\<close> the
  local variable is in range. A missing integer leaves that variable unset: \<open>stack\<close> is the value
  it happens to hold. A present integer is converted whatever its value.
\<close>

definition retrievePortNumberFromJsonObj :: "int \<Rightarrow> json \<Rightarrow> string \<Rightarrow> port option" where
  "retrievePortNumberFromJsonObj stack jobj key =
     (let found = retrieveIntFromJsonObj jobj key;
          json_int = (case found of Some i \<Rightarrow> i | None \<Rightarrow> stack)
      in if found = None \<and> isvalid_ushort json_int then None
         else Some (word_of_int json_int))"

text \<open>The entries of an array of ports: entries of another type or out of range are skipped.\<close>

fun port_entries :: "json list \<Rightarrow> port list" where
  "port_entries [] = []"
| "port_entries (JInt i # es) =
     (let v = json_int_get_int i
      in if isvalid_ushort v then word_of_int v # port_entries es else port_entries es)"
| "port_entries (_ # es) = port_entries es"

definition retrievePortNumberArrayFromJsonObj :: "json \<Rightarrow> string \<Rightarrow> port list option" where
  "retrievePortNumberArrayFromJsonObj jobj key =
     map_option port_entries (retrieveJsonArrayFromJsonObj jobj key)"

lemma length_port_entries: "length (port_entries es) \<le> length es"
  by (induction es rule: port_entries.induct) (auto simp: Let_def)

lemma retrieveUnsignedInt_nonneg:
  assumes "json_object_object_get_ex j k = Some (JInt i)" and "0 \<le> i" and "i \<le> UINT_MAX"
  shows "retrieveUnsignedIntFromJsonObj j k = Some (word_of_int i)"
  using assms by (simp add: retrieveUnsignedIntFromJsonObj_def json_int_get_uint64_def)

lemma retrievePortNumber_in_range:
  assumes "json_object_object_get_ex j k = Some (JInt i)" and "isvalid_ushort i"
  shows "retrievePortNumberFromJsonObj stack j k = Some (word_of_int i)"
  using assms
  by (simp add: retrievePortNumberFromJsonObj_def retrieveIntFromJsonObj_def
      json_int_get_int_id isvalid_ushort_def INT32_MIN_def INT32_MAX_def)

section \<open>Properties\<close>

text \<open>The range test of \<^verbatim>\<open>retrievePortNumberFromJsonObj\<close> never rejects a number the
  controller sent: every integer field is accepted, an integer outside the port range is cut
  to its low 16 bits.\<close>

theorem port_field_truncated:
  assumes "json_object_object_get_ex jobj key = Some (JInt i)"
  shows "retrievePortNumberFromJsonObj stack jobj key = Some (word_of_int (json_int_get_int i))"
  using assms by (simp add: retrievePortNumberFromJsonObj_def retrieveIntFromJsonObj_def)

theorem port_field_truncated_witness:
  "retrievePortNumberFromJsonObj 0 (JObject [(''eport'', JInt 65616)]) ''eport'' = Some 80"
  using port_field_truncated [of "JObject [(''eport'', JInt 65616)]" "''eport''" 65616 0]
  by (simp add: json_int_get_int_id INT32_MIN_def INT32_MAX_def)

end
