(* ===== verification/Jwt_Auth.thy ===== *)
theory Jwt_Auth
  imports Jwt_Utils Json_Object
begin

text \<open>
  \<^verbatim>\<open>jwtauth.c\<close>: verification of the bearer token and of the signature over the HTTP content,
  and extraction of the permission. OpenSSL (base64, key loading, signature check) and the JSON
  tokenizer are the fields of a record that is an argument of the definitions.
\<close>

record 'k crypto =
  decodeBase64 :: "string \<Rightarrow> string option"
  PEM_read_PUBKEY :: "'k option"
  PEM_read_bio_PUBKEY :: "string \<Rightarrow> 'k option"
  verify_digest :: "string \<Rightarrow> string \<Rightarrow> 'k \<Rightarrow> int"
  json_tokener_parse_ex :: "string \<Rightarrow> json option"

text \<open>Undefined behaviour the code can reach: \<^verbatim>\<open>strlen(NULL)\<close>, and freeing a block twice.\<close>

datatype fault = Null_strlen | Double_free

text \<open>The characters of a length-counted text up to its first zero byte.\<close>

definition cut_nul :: "string \<Rightarrow> string" where
  "cut_nul s = takeWhile (\<lambda>c. c \<noteq> CHR 0x00) s"

section \<open>Signatures\<close>

definition verifySignatureFromKeyFile :: "'k crypto \<Rightarrow> string \<Rightarrow> string \<Rightarrow> int" where
  "verifySignatureFromKeyFile env payload sig =
     (case PEM_read_PUBKEY env of None \<Rightarrow> - 1
      | Some pkey \<Rightarrow> verify_digest env payload sig pkey)"

definition verifySignature :: "'k crypto \<Rightarrow> string \<Rightarrow> string \<Rightarrow> string \<Rightarrow> int" where
  "verifySignature env payload sig pubkey =
     (case PEM_read_bio_PUBKEY env pubkey of None \<Rightarrow> - 1
      | Some pkey \<Rightarrow> verify_digest env payload sig pkey)"

section \<open>Ranges of the permission\<close>

definition MAX_PORTRANGE_STR_LEN :: nat where "MAX_PORTRANGE_STR_LEN = 11"

text \<open>One pass of the loop; \<open>None\<close> is its \<^verbatim>\<open>break\<close>.\<close>

definition port_range_entry :: "json \<Rightarrow> PortRange option" where
  "port_range_entry entry =
     (case entry of
        JString text \<Rightarrow>
          (if length text > MAX_PORTRANGE_STR_LEN then None
           else (case strtok CHR ''-'' (cut_nul text) of None \<Rightarrow> None
             | Some (start_str, r) \<Rightarrow>
               (case strtok CHR ''-'' r of None \<Rightarrow> None
                | Some (end_str, _) \<Rightarrow>
                  (let s = atoi start_str; e = atoi end_str
                   in if s \<le> 0 \<or> e \<le> 0 then None
                      else Some \<lparr>pr_start = word_of_int s, pr_end = word_of_int e\<rparr>))))
      | _ \<Rightarrow> None)"

definition ip_range_entry :: "json \<Rightarrow> IpRange option" where
  "ip_range_entry entry =
     (case entry of
        JString text \<Rightarrow>
          (if length text > MAX_IPRANGE_STR_LEN then None
           else map_option (\<lambda>(a, m). \<lparr>ip_address = a, ip_mask = m\<rparr>)
                  (ParseIpMaskString (cut_nul text)))
      | _ \<Rightarrow> None)"

text \<open>The array is returned only when every entry was stored (\<^verbatim>\<open>index == arr_len\<close>).\<close>

fun all_entries :: "(json \<Rightarrow> 'r option) \<Rightarrow> json list \<Rightarrow> 'r list option" where
  "all_entries f [] = Some []"
| "all_entries f (e # es) =
     (case f e of None \<Rightarrow> None
      | Some r \<Rightarrow> (case all_entries f es of None \<Rightarrow> None | Some rs \<Rightarrow> Some (r # rs)))"

definition retrievePortRangeFromJsonObj :: "json \<Rightarrow> string \<Rightarrow> PortRange list option" where
  "retrievePortRangeFromJsonObj jobj key =
     (case retrieveJsonArrayFromJsonObj jobj key of None \<Rightarrow> None
      | Some arr \<Rightarrow> all_entries port_range_entry arr)"

definition retrieveIpRangeFromJsonObj :: "json \<Rightarrow> string \<Rightarrow> IpRange list option" where
  "retrieveIpRangeFromJsonObj jobj key =
     (case retrieveJsonArrayFromJsonObj jobj key of None \<Rightarrow> None
      | Some arr \<Rightarrow> all_entries ip_range_entry arr)"

section \<open>The token\<close>

definition CreatePermissionObject :: Permission where
  "CreatePermissionObject = \<lparr>pub_port_range = [], int_ip_range = []\<rparr>"

text \<open>The three parts of a token; \<open>Inl\<close> is the \<^verbatim>\<open>strlen\<close> of a missing part.\<close>

definition split_token :: "string \<Rightarrow> fault + (string \<times> string \<times> string) option" where
  "split_token auth =
     (case strtok CHR ''.'' (cut_nul auth) of None \<Rightarrow> Inl Null_strlen
      | Some (headerb64, r1) \<Rightarrow>
        (case strtok CHR ''.'' r1 of None \<Rightarrow> Inl Null_strlen
         | Some (payloadb64, r2) \<Rightarrow>
           (case strtok CHR ''.'' r2 of None \<Rightarrow> Inr None
            | Some (sigb64, _) \<Rightarrow> Inr (Some (headerb64, payloadb64, sigb64)))))"

text \<open>What follows once the token's own signature is good and its payload is parsed.\<close>

definition check_content :: "'k crypto \<Rightarrow> json \<Rightarrow> string \<Rightarrow> string \<Rightarrow> Permission \<Rightarrow> fault + int \<times> Permission" where
  "check_content env payload_json http_sigb64 http_content out_perm =
     (case retrieveStringFromJsonObj payload_json ''public_key'' of None \<Rightarrow> Inr (- 1, out_perm)
      | Some client_pubkey \<Rightarrow>
        (case decodeBase64 env http_sigb64 of None \<Rightarrow> Inl Double_free
         | Some http_sig \<Rightarrow>
           (if verifySignature env http_content http_sig (cut_nul client_pubkey) \<noteq> 1
            then Inr (- 1, out_perm)
            else (case retrievePortRangeFromJsonObj payload_json ''pub_port_range'' of
                None \<Rightarrow> Inr (- 1, out_perm)
              | Some ports \<Rightarrow>
                (let out1 = out_perm\<lparr>pub_port_range := ports\<rparr> in
                 (case retrieveIpRangeFromJsonObj payload_json ''int_ip_range'' of
                    None \<Rightarrow> Inr (- 1, out1)
                  | Some ips \<Rightarrow> Inr (1, out1\<lparr>int_ip_range := ips\<rparr>)))))))"

definition VerifyAndExtractAuthToken ::
  "'k crypto \<Rightarrow> string option \<Rightarrow> string \<Rightarrow> string \<Rightarrow> Permission \<Rightarrow> fault + int \<times> Permission" where
  "VerifyAndExtractAuthToken env auth http_sigb64 http_content out_perm =
     (case auth of None \<Rightarrow> Inr (- 1, out_perm)
      | Some [] \<Rightarrow> Inr (- 1, out_perm)
      | Some a \<Rightarrow>
        (case split_token a of Inl f \<Rightarrow> Inl f
         | Inr None \<Rightarrow> Inr (- 1, out_perm)
         | Inr (Some (headerb64, payloadb64, sigb64)) \<Rightarrow>
           (case (decodeBase64 env headerb64, decodeBase64 env payloadb64, decodeBase64 env sigb64) of
              (Some header, Some payload, Some sig) \<Rightarrow>
                (if verifySignatureFromKeyFile env (headerb64 @ ''.'' @ payloadb64) sig \<noteq> 1
                 then Inr (- 1, out_perm)
                 else (case json_tokener_parse_ex env payload of None \<Rightarrow> Inr (- 1, out_perm)
                       | Some payload_json \<Rightarrow>
                           check_content env payload_json http_sigb64 http_content out_perm))
            | _ \<Rightarrow> Inr (- 1, out_perm))))"

section \<open>Lemmas\<close>

lemma all_entries_Some:
  "all_entries f es = Some rs \<longleftrightarrow> list_all2 (\<lambda>e r. f e = Some r) es rs"
proof (induction es arbitrary: rs)
  case Nil
  then show ?case by auto
next
  case (Cons e es)
  then show ?case by (cases rs) (auto simp: Cons.IH [symmetric] split: option.splits)
qed

lemma check_content_success:
  "check_content env pj sg content perm0 = Inr (1, perm) \<longleftrightarrow>
     (\<exists>key hs. retrieveStringFromJsonObj pj ''public_key'' = Some key
        \<and> decodeBase64 env sg = Some hs
        \<and> verifySignature env content hs (cut_nul key) = 1
        \<and> retrievePortRangeFromJsonObj pj ''pub_port_range'' = Some (pub_port_range perm)
        \<and> retrieveIpRangeFromJsonObj pj ''int_ip_range'' = Some (int_ip_range perm))"
  by (cases perm; cases perm0) (auto simp: check_content_def Let_def split: option.splits)

lemma verify_returns:
  "VerifyAndExtractAuthToken env auth sg content perm0 = Inr (1, perm) \<longleftrightarrow>
     (\<exists>a h p s payload sig pj. auth = Some a \<and> a \<noteq> [] \<and> split_token a = Inr (Some (h, p, s))
        \<and> decodeBase64 env h \<noteq> None \<and> decodeBase64 env p = Some payload
        \<and> decodeBase64 env s = Some sig
        \<and> verifySignatureFromKeyFile env (h @ ''.'' @ p) sig = 1
        \<and> json_tokener_parse_ex env payload = Some pj
        \<and> check_content env pj sg content perm0 = Inr (1, perm))"
proof (cases auth)
  case None
  then show ?thesis by (simp add: VerifyAndExtractAuthToken_def)
next
  case (Some a)
  then show ?thesis
    by (cases a)
      (auto simp: VerifyAndExtractAuthToken_def split: sum.splits option.splits prod.splits)
qed

lemma split_token_three:
  assumes "h \<noteq> []" "p \<noteq> []" "s \<noteq> []"
    and "\<forall>c \<in> set h \<union> set p \<union> set s. c \<noteq> CHR ''.'' \<and> c \<noteq> CHR 0x00"
  shows "split_token (h @ ''.'' @ p @ ''.'' @ s) = Inr (Some (h, p, s))"
proof -
  have "cut_nul (h @ ''.'' @ p @ ''.'' @ s) = h @ CHR ''.'' # p @ CHR ''.'' # s"
    using assms(4) by (auto simp: cut_nul_def takeWhile_append2)
  then show ?thesis
    using assms by (simp add: split_token_def strtok_token)
qed

lemma cut_nul_dec: "cut_nul (dec n @ CHR ''-'' # dec m) = dec n @ CHR ''-'' # dec m"
  using dec_digits [of n] dec_digits [of m]
  by (auto simp: cut_nul_def takeWhile_eq_all_conv isdigit_def)

lemma port_range_entry_numbers:
  assumes "0 < s" "s < 100000" "0 < e" "e < 100000"
  shows "port_range_entry (JString (dec s @ ''-'' @ dec e))
    = Some \<lparr>pr_start = word_of_nat s, pr_end = word_of_nat e\<rparr>"
proof -
  have "length (dec s) \<le> 5" "length (dec e) \<le> 5"
    using assms by (simp_all add: length_dec)
  then show ?thesis
    using assms by (simp add: port_range_entry_def MAX_PORTRANGE_STR_LEN_def cut_nul_dec cstr
        not_digit_sep Let_def)
qed

section \<open>Properties\<close>

text \<open>C10: The token check returns 1 only for a token of three parts whose signature over
  \<^verbatim>\<open>header.payload\<close> the certification authority's key accepts, together with a content signature
  that the client key named in that payload accepts; the permission it fills in is
  exactly what the two range arrays of the payload say, entry by entry.\<close>

theorem token_accepted_is_signed:
  assumes "VerifyAndExtractAuthToken env auth http_sigb64 content perm0 = Inr (1, perm)"
  shows "\<exists>a h p s payload sig pj key hs ports ips. auth = Some a \<and> split_token a = Inr (Some (h, p, s))
    \<and> decodeBase64 env p = Some payload \<and> decodeBase64 env s = Some sig
    \<and> verifySignatureFromKeyFile env (h @ ''.'' @ p) sig = 1
    \<and> json_tokener_parse_ex env payload = Some pj
    \<and> json_object_object_get_ex pj ''public_key'' = Some (JString key)
    \<and> decodeBase64 env http_sigb64 = Some hs
    \<and> verifySignature env content hs (cut_nul key) = 1
    \<and> json_object_object_get_ex pj ''pub_port_range'' = Some (JArray ports)
    \<and> json_object_object_get_ex pj ''int_ip_range'' = Some (JArray ips)
    \<and> list_all2 (\<lambda>e r. port_range_entry e = Some r) ports (pub_port_range perm)
    \<and> list_all2 (\<lambda>e r. ip_range_entry e = Some r) ips (int_ip_range perm)"
proof -
  obtain a h p s payload sig pj where tok: "auth = Some a" "split_token a = Inr (Some (h, p, s))"
      "decodeBase64 env p = Some payload" "decodeBase64 env s = Some sig"
      "verifySignatureFromKeyFile env (h @ ''.'' @ p) sig = 1"
      "json_tokener_parse_ex env payload = Some pj"
    and cont: "check_content env pj http_sigb64 content perm0 = Inr (1, perm)"
    using assms unfolding verify_returns by blast
  obtain key hs where sig: "retrieveStringFromJsonObj pj ''public_key'' = Some key"
      "decodeBase64 env http_sigb64 = Some hs" "verifySignature env content hs (cut_nul key) = 1"
    and ports: "retrievePortRangeFromJsonObj pj ''pub_port_range'' = Some (pub_port_range perm)"
    and ips: "retrieveIpRangeFromJsonObj pj ''int_ip_range'' = Some (int_ip_range perm)"
    using cont unfolding check_content_success by blast
  have "json_object_object_get_ex pj ''public_key'' = Some (JString key)"
    using sig(1) by (auto simp: retrieveStringFromJsonObj_def split: option.splits json.splits)
  moreover obtain pes where "json_object_object_get_ex pj ''pub_port_range'' = Some (JArray pes)"
      "list_all2 (\<lambda>e r. port_range_entry e = Some r) pes (pub_port_range perm)"
    using ports by (auto simp: retrievePortRangeFromJsonObj_def retrieveJsonArrayFromJsonObj_def
        all_entries_Some split: option.splits json.splits)
  moreover obtain ies where "json_object_object_get_ex pj ''int_ip_range'' = Some (JArray ies)"
      "list_all2 (\<lambda>e r. ip_range_entry e = Some r) ies (int_ip_range perm)"
    using ips by (auto simp: retrieveIpRangeFromJsonObj_def retrieveJsonArrayFromJsonObj_def
        all_entries_Some split: option.splits json.splits)
  ultimately show ?thesis using tok sig(2,3) by blast
qed

definition sample_payload :: json where
  "sample_payload = JObject [(''public_key'', JString ''K''),
     (''pub_port_range'', JArray [JString ''1024-2000'']), (''int_ip_range'', JArray [])]"

definition sample_crypto :: "string crypto" where
  "sample_crypto = \<lparr>decodeBase64 = Some, PEM_read_PUBKEY = Some ''CA'', PEM_read_bio_PUBKEY = Some,
     verify_digest = (\<lambda>payload sig k. if sig = k then 1 else 0),
     json_tokener_parse_ex = (\<lambda>t. Some sample_payload)\<rparr>"

lemma sample_range: "port_range_entry (JString ''1024-2000'') = Some \<lparr>pr_start = 1024, pr_end = 2000\<rparr>"
  by code_simp

lemma sample_accepts:
  "VerifyAndExtractAuthToken sample_crypto (Some ''h.p.CA'') ''K'' ''body'' CreatePermissionObject
     = Inr (1, \<lparr>pub_port_range = [\<lparr>pr_start = 1024, pr_end = 2000\<rparr>], int_ip_range = []\<rparr>)"
  by code_simp

theorem token_accepted_is_signed_witness:
  "\<exists>a h p s. Some ''h.p.CA'' = Some a \<and> split_token a = Inr (Some (h, p, s))
     \<and> verifySignatureFromKeyFile sample_crypto (h @ ''.'' @ p) s = 1"
  using token_accepted_is_signed [OF sample_accepts] by (auto simp: sample_crypto_def)

text \<open>An authorization value without a dot (not only of dots) reaches \<^verbatim>\<open>strlen\<close> of a
  missing payload part before the format is checked, whatever keys are installed.\<close>

theorem token_without_dot_faults:
  assumes "a \<noteq> []" and "\<forall>c \<in> set a. c \<noteq> CHR ''.'' \<and> c \<noteq> CHR 0x00"
  shows "VerifyAndExtractAuthToken env (Some a) sg content perm = Inl Null_strlen"
proof -
  have "cut_nul a = a" using assms(2) by (simp add: cut_nul_def takeWhile_eq_all_conv)
  then have "split_token a = Inl Null_strlen"
    using assms by (simp add: split_token_def strtok_token) (simp add: strtok_def)
  then show ?thesis using assms(1) by (cases a) (simp_all add: VerifyAndExtractAuthToken_def)
qed

theorem token_without_dot_faults_witness:
  "VerifyAndExtractAuthToken sample_crypto (Some ''Bearer'') ''K'' ''body'' CreatePermissionObject
     = Inl Null_strlen"
  by (rule token_without_dot_faults) simp_all

text \<open>A port range of a token is stored in 16 bits without a range check: two positive numbers
  of up to five digits are accepted and each is reduced modulo 65536.\<close>

theorem token_port_range_reduced:
  assumes "0 < s" "s < 100000" "0 < e" "e < 100000"
  shows "port_range_entry (JString (dec s @ ''-'' @ dec e))
    = Some \<lparr>pr_start = word_of_nat (s mod 65536), pr_end = word_of_nat (e mod 65536)\<rparr>"
proof -
  have "word_of_nat (n mod 65536) = (word_of_nat n :: port)" for n
    by (simp add: word_of_nat_eq_iff take_bit_eq_mod)
  then show ?thesis using port_range_entry_numbers [OF assms] by simp
qed

theorem token_port_range_reduced_witness:
  "port_range_entry (JString (dec 65536 @ ''-'' @ dec 65535)) = Some \<lparr>pr_start = 0, pr_end = 65535\<rparr>"
  using token_port_range_reduced [of 65536 65535] by simp

end
