(* ===== verification/Onos_Client.thy ===== *)
theory Onos_Client
  imports Json_Object
begin

text \<open>
  \<^verbatim>\<open>sdn/onosclient.c\<close>: the HTTP requests to the SDN controller and the event handlers that
  run them. The handlers are state machines driven by mongoose: one request is sent when the
  connection is up, and a response, an error or the closing of the connection sets \<open>done_flag\<close>.
  The event source is a transport record, an argument of the definitions; the JSON printer and
  tokenizer of the vendored library are arguments too.
\<close>

section \<open>Requests\<close>

datatype http_response_code =
    OK_200 | BADREQUEST_400 | NOTFOUND_404 | METHODNOTALLOWED_405 | CONFLICT_409
  | INTERNALSERVERERROR_500 | UNKNOWNERRORCODE

text \<open>The position of a code in the enumeration, and the table of its names: the table has one
  entry less than the enumeration, because two literals stand without a comma between them.\<close>

fun code_index :: "http_response_code \<Rightarrow> nat" where
  "code_index OK_200 = 0"
| "code_index BADREQUEST_400 = 1"
| "code_index NOTFOUND_404 = 2"
| "code_index METHODNOTALLOWED_405 = 3"
| "code_index CONFLICT_409 = 4"
| "code_index INTERNALSERVERERROR_500 = 5"
| "code_index UNKNOWNERRORCODE = 6"

definition http_response_code_to_string :: "string list" where
  "http_response_code_to_string =
     [''200'', ''400'', ''404'', ''405'', ''409,500'', ''UnknownCode'']"

definition code_name :: "http_response_code \<Rightarrow> string option" where
  "code_name c = (if code_index c < length http_response_code_to_string
     then Some (http_response_code_to_string ! code_index c) else None)"

definition crlf :: string where
  "crlf = [CHR 0x0D, CHR 0x0A]"

definition sendGetRequest :: "string \<Rightarrow> string \<Rightarrow> string" where
  "sendGetRequest req_url host = ''GET '' @ req_url @ '' HTTP/1.1'' @ crlf
     @ ''Host: '' @ host @ crlf @ crlf"

definition request_with_payload :: "string \<Rightarrow> string \<Rightarrow> string \<Rightarrow> string \<Rightarrow> string" where
  "request_with_payload method req_url host payload = method @ '' '' @ req_url @ '' HTTP/1.1'' @ crlf
     @ ''Host: '' @ host @ crlf @ ''Content-length: '' @ dec (length payload) @ crlf
     @ crlf @ payload @ crlf"

definition sendGetRequestWithPayload :: "(json \<Rightarrow> string) \<Rightarrow> string \<Rightarrow> string \<Rightarrow> json \<Rightarrow> string" where
  "sendGetRequestWithPayload print req_url host payload =
     request_with_payload ''GET'' req_url host (print payload)"

definition sendPostRequest :: "(json \<Rightarrow> string) \<Rightarrow> string \<Rightarrow> string \<Rightarrow> json \<Rightarrow> string" where
  "sendPostRequest print req_url host payload =
     request_with_payload ''POST'' req_url host (print payload)"

definition sendDeleteRequest :: "(json \<Rightarrow> string) \<Rightarrow> string \<Rightarrow> string \<Rightarrow> json \<Rightarrow> string" where
  "sendDeleteRequest print req_url host payload =
     request_with_payload ''DELETE'' req_url host (print payload)"

definition MAX_REMOTE_ADDR_LEN :: nat where "MAX_REMOTE_ADDR_LEN = 22"

text \<open>\<^verbatim>\<open>snprintf\<close> into a buffer of the given size keeps all but the last byte of it.\<close>

definition snprintf :: "nat \<Rightarrow> string \<Rightarrow> string" where
  "snprintf n text = take (n - 1) text"

definition getHttpRemoteHostInfo :: "ipv4 \<Rightarrow> port \<Rightarrow> string" where
  "getHttpRemoteHostInfo ip peer_port =
     snprintf MAX_REMOTE_ADDR_LEN
       (dec (unat (drop_bit 24 ip)) @ ''.'' @ dec (unat (drop_bit 16 ip AND 0xff)) @ ''.''
        @ dec (unat (drop_bit 8 ip AND 0xff)) @ ''.'' @ dec (unat (ip AND 0xff))
        @ '':'' @ dec (unat peer_port))"

section \<open>Responses\<close>

record conn_runtime_vars =
  request :: json
  response :: "json option"
  response_code :: http_response_code
  done_flag :: bool

text \<open>\<^verbatim>\<open>{ .request = jobj, .done = false }\<close>: the other members start as zero, so the code is the
  first of the enumeration.\<close>

definition new_conn :: "json \<Rightarrow> conn_runtime_vars" where
  "new_conn jobj = \<lparr>request = jobj, response = None, response_code = OK_200, done_flag = False\<rparr>"

definition retrieveResponseStatus :: "string \<Rightarrow> conn_runtime_vars \<Rightarrow> conn_runtime_vars" where
  "retrieveResponseStatus uri data =
     (let status_code = atoi (take 3 uri)
      in data\<lparr>response_code :=
           (if status_code = 200 then OK_200
            else if status_code = 400 then BADREQUEST_400
            else if status_code = 404 then NOTFOUND_404
            else if status_code = 405 then METHODNOTALLOWED_405
            else if status_code = 409 then CONFLICT_409
            else if status_code = 500 then INTERNALSERVERERROR_500
            else UNKNOWNERRORCODE)\<rparr>)"

definition retrieveJsonPayload ::
  "(string \<Rightarrow> json option) \<Rightarrow> string \<Rightarrow> conn_runtime_vars \<Rightarrow> conn_runtime_vars" where
  "retrieveJsonPayload parse body data = data\<lparr>response := parse body\<rparr>"

section \<open>Handlers\<close>

text \<open>The mongoose events the handlers look at; \<open>MG_EV_OTHER\<close> stands for the rest.\<close>

datatype mg_event =
    MG_EV_CONNECT ipv4 port
  | MG_EV_HTTP_MSG string string
  | MG_EV_ERROR
  | MG_EV_CLOSE
  | MG_EV_OTHER

datatype onos_op =
    AddIGDPortMapping
  | GetExtIpAddr
  | GetIGDRuntimeStatus
  | GetWanConnectionStatus
  | GetIGDPortMappingByIndex
  | GetIGDPortMapping
  | GetIGDPortMappingRange
  | DeleteIGDPortMapping
  | DeleteIGDPortMappingRange

record codec =
  print_json :: "json \<Rightarrow> string"
  parse_json :: "string \<Rightarrow> json option"

text \<open>What each handler sends once it is connected: URL, method and payload.\<close>

fun onos_request :: "codec \<Rightarrow> onos_op \<Rightarrow> string \<Rightarrow> json \<Rightarrow> string" where
  "onos_request cd AddIGDPortMapping host jobj =
     sendPostRequest (print_json cd) ''/portmapping'' host jobj"
| "onos_request cd GetExtIpAddr host jobj = sendGetRequest ''/stats/extipaddr'' host"
| "onos_request cd GetIGDRuntimeStatus host jobj = sendGetRequest ''/stats/iface'' host"
| "onos_request cd GetWanConnectionStatus host jobj = sendGetRequest ''/stats/wanconnstatus'' host"
| "onos_request cd GetIGDPortMappingByIndex host jobj =
     sendGetRequestWithPayload (print_json cd) ''/portmapping/index'' host jobj"
| "onos_request cd GetIGDPortMapping host jobj =
     sendGetRequestWithPayload (print_json cd) ''/portmapping'' host jobj"
| "onos_request cd GetIGDPortMappingRange host jobj =
     sendGetRequestWithPayload (print_json cd) ''/portmapping/range'' host jobj"
| "onos_request cd DeleteIGDPortMapping host jobj =
     sendDeleteRequest (print_json cd) ''/portmapping'' host jobj"
| "onos_request cd DeleteIGDPortMappingRange host jobj =
     sendDeleteRequest (print_json cd) ''/portmapping/range'' host jobj"

text \<open>One call of a handler: the new variables and the text written to the connection.\<close>

fun onos_handler :: "codec \<Rightarrow> onos_op \<Rightarrow> mg_event \<Rightarrow> conn_runtime_vars \<Rightarrow> conn_runtime_vars \<times> string" where
  "onos_handler cd oper (MG_EV_CONNECT ip p) data =
     (data, onos_request cd oper (getHttpRemoteHostInfo ip p) (request data))"
| "onos_handler cd oper (MG_EV_HTTP_MSG uri body) data =
     ((retrieveJsonPayload (parse_json cd) body (retrieveResponseStatus uri data))\<lparr>done_flag := True\<rparr>, [])"
| "onos_handler cd oper MG_EV_ERROR data = (data\<lparr>done_flag := True\<rparr>, [])"
| "onos_handler cd oper MG_EV_CLOSE data = (data\<lparr>done_flag := True\<rparr>, [])"
| "onos_handler cd oper MG_EV_OTHER data = (data, [])"

section \<open>The polling loop\<close>

text \<open>A transport: opening a connection, the next event, and writing to the connection.\<close>

record 'w transport =
  mg_http_connect :: "'w \<Rightarrow> 'w"
  mg_next_event :: "'w \<Rightarrow> mg_event \<times> 'w"
  mg_write :: "string \<Rightarrow> 'w \<Rightarrow> 'w"

text \<open>\<^verbatim>\<open>while(!data.done) mg_mgr_poll(&mgr, 1000)\<close>, event by event; \<open>None\<close> is a loop that
  never ends.\<close>

partial_function (option) poll_loop ::
  "codec \<Rightarrow> 'w transport \<Rightarrow> onos_op \<Rightarrow> conn_runtime_vars \<Rightarrow> 'w \<Rightarrow> (conn_runtime_vars \<times> 'w) option" where
  "poll_loop cd tr oper data w =
     (if done_flag data then Some (data, w)
      else (let (ev, w1) = mg_next_event tr w; (data', out) = onos_handler cd oper ev data
            in poll_loop cd tr oper data' (mg_write tr out w1)))"

definition onos_exchange ::
  "codec \<Rightarrow> 'w transport \<Rightarrow> onos_op \<Rightarrow> json \<Rightarrow> 'w \<Rightarrow> (conn_runtime_vars \<times> 'w) option" where
  "onos_exchange cd tr oper jobj w = poll_loop cd tr oper (new_conn jobj) (mg_http_connect tr w)"

section \<open>Lemmas\<close>

lemma done_handler_stays: "done_flag data \<Longrightarrow> done_flag (fst (onos_handler cd oper ev data))"
  by (cases ev) (simp_all add: retrieveJsonPayload_def retrieveResponseStatus_def Let_def)

lemma request_unchanged [simp]: "request (fst (onos_handler cd oper ev data)) = request data"
  by (cases ev) (simp_all add: retrieveJsonPayload_def retrieveResponseStatus_def Let_def)

fun ends_exchange :: "mg_event \<Rightarrow> bool" where
  "ends_exchange (MG_EV_HTTP_MSG _ _) = True"
| "ends_exchange MG_EV_ERROR = True"
| "ends_exchange MG_EV_CLOSE = True"
| "ends_exchange _ = False"

lemma done_iff_ends:
  "\<not> done_flag data \<Longrightarrow> done_flag (fst (onos_handler cd oper ev data)) \<longleftrightarrow> ends_exchange ev"
  by (cases ev) (simp_all add: retrieveJsonPayload_def retrieveResponseStatus_def Let_def)

text \<open>The first ending event within \<open>n\<close> polls, with the variables before it: \<open>None\<close> if there is
  none. Only an ending event changes the variables.\<close>

fun first_end ::
  "codec \<Rightarrow> 'w transport \<Rightarrow> onos_op \<Rightarrow> conn_runtime_vars \<Rightarrow> nat \<Rightarrow> 'w \<Rightarrow> (mg_event \<times> 'w) option" where
  "first_end cd tr oper data 0 w = None"
| "first_end cd tr oper data (Suc n) w =
     (let (ev, w1) = mg_next_event tr w; w2 = mg_write tr (snd (onos_handler cd oper ev data)) w1
      in if ends_exchange ev then Some (ev, w2) else first_end cd tr oper data n w2)"

lemma handler_pending:
  "\<not> ends_exchange ev \<Longrightarrow> fst (onos_handler cd oper ev data) = data"
  by (cases ev) simp_all

lemma poll_loop_first_end:
  assumes "first_end cd tr oper data n w = Some (ev, w')" and "\<not> done_flag data"
  shows "poll_loop cd tr oper data w = Some (fst (onos_handler cd oper ev data), w')"
  using assms
proof (induction n arbitrary: w)
  case 0
  then show ?case by simp
next
  case (Suc n)
  obtain e w1 where e: "mg_next_event tr w = (e, w1)" by force
  define d2 where "d2 = fst (onos_handler cd oper e data)"
  define w2 where "w2 = mg_write tr (snd (onos_handler cd oper e data)) w1"
  have step: "poll_loop cd tr oper data w = poll_loop cd tr oper d2 w2"
    using Suc.prems(2) by (subst poll_loop.simps) (simp add: e d2_def w2_def case_prod_beta)
  show ?case
  proof (cases "ends_exchange e")
    case True
    then have "ev = e" "w' = w2" using Suc.prems(1) by (auto simp: e w2_def)
    moreover have "done_flag d2" using True Suc.prems(2) by (simp add: d2_def done_iff_ends)
    then have "poll_loop cd tr oper d2 w2 = Some (d2, w2)"
      by (subst poll_loop.simps) simp
    with calculation step show ?thesis by (simp add: d2_def)
  next
    case False
    then have "d2 = data" by (simp add: d2_def handler_pending)
    moreover have "first_end cd tr oper data n w2 = Some (ev, w')"
      using Suc.prems(1) False by (simp add: e w2_def)
    ultimately show ?thesis using step Suc.IH Suc.prems(2) by simp
  qed
qed

lemma first_end_ends: "first_end cd tr oper data n w = Some (ev, w') \<Longrightarrow> ends_exchange ev"
  by (induction n arbitrary: w) (auto simp: Let_def split: prod.splits if_splits)

text \<open>What the caller sees when the exchange ends without a response.\<close>

lemma exchange_without_response:
  assumes "first_end cd tr oper (new_conn jobj) n (mg_http_connect tr w) = Some (ev, w')"
    and "ev = MG_EV_ERROR \<or> ev = MG_EV_CLOSE"
  shows "onos_exchange cd tr oper jobj w = Some ((new_conn jobj)\<lparr>done_flag := True\<rparr>, w')"
proof -
  have "poll_loop cd tr oper (new_conn jobj) (mg_http_connect tr w)
      = Some (fst (onos_handler cd oper ev (new_conn jobj)), w')"
    by (rule poll_loop_first_end [OF assms(1)]) (simp add: new_conn_def)
  then show ?thesis using assms(2) by (auto simp: onos_exchange_def)
qed

lemma exchange_with_response:
  assumes "first_end cd tr oper (new_conn jobj) n (mg_http_connect tr w) = Some (MG_EV_HTTP_MSG uri body, w')"
  shows "onos_exchange cd tr oper jobj w
    = Some ((retrieveJsonPayload (parse_json cd) body
               (retrieveResponseStatus uri (new_conn jobj)))\<lparr>done_flag := True\<rparr>, w')"
proof -
  have "poll_loop cd tr oper (new_conn jobj) (mg_http_connect tr w)
      = Some (fst (onos_handler cd oper (MG_EV_HTTP_MSG uri body) (new_conn jobj)), w')"
    by (rule poll_loop_first_end [OF assms]) (simp add: new_conn_def)
  then show ?thesis by (simp add: onos_exchange_def)
qed

lemma code_name_None: "code_name c = None \<longleftrightarrow> c = UNKNOWNERRORCODE"
  by (cases c) (simp_all add: code_name_def http_response_code_to_string_def)

lemma octet_shift:
  "unat (drop_bit 24 a) = octet 3 a" "unat (drop_bit 16 a AND 0xff) = octet 2 a"
  "unat (drop_bit 8 a AND 0xff) = octet 1 a" "unat (a AND 0xff) = octet 0 (a::ipv4)"
proof -
  have m: "(0xff::ipv4) = mask 8" by (simp add: mask_eq_exp_minus_1)
  have t: "take_bit 32 (unat a) = unat a"
    by (rule take_bit_nat_eq_self) (use unsigned_less [of a] in simp)
  have "unat (drop_bit n a AND mask 8) = unat a div 2 ^ n mod 256" for n
  proof -
    have "unat (take_bit 8 (drop_bit n a)) = take_bit 8 (drop_bit n (unat a))"
      by (simp only: unsigned_take_bit_eq unsigned_drop_bit_eq) (simp add: t)
    then show ?thesis by (simp add: drop_bit_eq_div take_bit_eq_mod flip: take_bit_eq_mask)
  qed
  from this [of 16] this [of 8] this [of 0]
  show "unat (drop_bit 16 a AND 0xff) = octet 2 a" "unat (drop_bit 8 a AND 0xff) = octet 1 a"
    "unat (a AND 0xff) = octet 0 a"
    by (simp_all add: octet_def m)
  have "unat a < 2 ^ 32" using unsigned_less [of a] by simp
  moreover have "unat (drop_bit 24 a) = drop_bit 24 (unat a)"
    by (simp only: unsigned_drop_bit_eq) (simp add: t)
  ultimately show "unat (drop_bit 24 a) = octet 3 a"
    by (simp add: octet_def drop_bit_eq_div)
qed

lemma host_info_whole:
  "getHttpRemoteHostInfo ip p = dotted ip @ '':'' @ dec (unat p)"
proof -
  have "length (dec (unat p)) \<le> 5"
    using unat_port_less [of p] by (intro length_dec) auto
  then have "length (dotted ip @ '':'' @ dec (unat p)) \<le> 21"
    using length_dotted [of ip] by simp
  then show ?thesis
    unfolding getHttpRemoteHostInfo_def snprintf_def octet_shift(1-3) MAX_REMOTE_ADDR_LEN_def
      dotted_def unfolding octet_shift(4) by (simp only: append_assoc) (rule take_all, simp)
qed

end
