(* ===== verification/Sdn_Redirect.thy ===== *)
theory Sdn_Redirect
  imports Onos_Client Jwt_Utils
begin

text \<open>
  \<^verbatim>\<open>sdn/iptcrdr.c\<close>: the redirection backend of the SDN build. Every operation builds a JSON
  request, runs one exchange with the controller and decodes the response. A result is
  \<open>None\<close> when the polling loop never ends, \<open>Inl\<close> for undefined behaviour the code can reach,
  and otherwise the returned value with the output arguments.
\<close>

text \<open>\<open>Name_overrun\<close>: the log line reads the table of code names behind its end.\<close>

datatype sdn_fault = Name_overrun

type_synonym ('r, 'w) sdn_result = "((sdn_fault + 'r) \<times> 'w) option"

abbreviation strcmp_eq :: "string \<Rightarrow> string \<Rightarrow> bool" where
  "strcmp_eq a b \<equiv> a = b"

definition schar :: "char \<Rightarrow> int" where
  "schar c = (if ord c < 128 then int (ord c) else int (ord c) - 256)"

fun cmp_chars :: "string \<Rightarrow> string \<Rightarrow> int" where
  "cmp_chars (a # as) (b # bs) =
     (if a \<noteq> b \<and> ((schar b < 91 \<and> schar a \<noteq> schar b + 32)
                   \<or> (schar b > 91 \<and> schar a \<noteq> schar b - 32))
      then - 1 else cmp_chars as bs)"
| "cmp_chars _ _ = 0"

definition cmpCaseInsensitive :: "string \<Rightarrow> string \<Rightarrow> int" where
  "cmpCaseInsensitive a b = (if length a \<noteq> length b then - 1 else cmp_chars a b)"

text \<open>Reading a response: a missing document behaves as one without fields.\<close>

definition resp :: "conn_runtime_vars \<Rightarrow> json" where
  "resp data = (case response data of None \<Rightarrow> JNull | Some j \<Rightarrow> j)"

text \<open>The log line and \<^verbatim>\<open>return -1\<close> for an unexpected status.\<close>

definition log_code :: "conn_runtime_vars \<Rightarrow> 'r \<Rightarrow> sdn_fault + 'r" where
  "log_code data r =
     (case code_name (response_code data) of None \<Rightarrow> Inl Name_overrun | Some _ \<Rightarrow> Inr r)"

definition sdn_call ::
  "codec \<Rightarrow> 'w transport \<Rightarrow> onos_op \<Rightarrow> json \<Rightarrow> 'w \<Rightarrow> (conn_runtime_vars \<Rightarrow> sdn_fault + 'r)
     \<Rightarrow> ('r, 'w) sdn_result" where
  "sdn_call cd tr oper jobj w decode =
     (case onos_exchange cd tr oper jobj w of None \<Rightarrow> None
      | Some (data, w') \<Rightarrow> Some (decode data, w'))"

section \<open>Status queries\<close>

definition get_sdn_igd_external_ip_addr ::
  "codec \<Rightarrow> 'w transport \<Rightarrow> nat \<Rightarrow> 'w \<Rightarrow> (int \<times> string option, 'w) sdn_result" where
  "get_sdn_igd_external_ip_addr cd tr max_len w =
     sdn_call cd tr GetExtIpAddr JNull w (\<lambda>data.
       if response_code data \<noteq> OK_200 then log_code data (- 1, None)
       else (case retrieveStringFromJsonObj (resp data) ''ext_ip_addr'' of
           None \<Rightarrow> Inr (- 1, None)
         | Some ip \<Rightarrow> if length ip \<le> max_len then Inr (0, Some (strncpy ip max_len))
                      else Inr (- 1, None)))"

definition get_sdn_igd_wan_conn_status :: "codec \<Rightarrow> 'w transport \<Rightarrow> 'w \<Rightarrow> (int, 'w) sdn_result" where
  "get_sdn_igd_wan_conn_status cd tr w =
     sdn_call cd tr GetWanConnectionStatus JNull w (\<lambda>data.
       if response_code data \<noteq> OK_200 then log_code data (- 1)
       else (case retrieveStringFromJsonObj (resp data) ''wan_conn_status'' of
           None \<Rightarrow> Inr (- 1)
         | Some st \<Rightarrow> if take 9 st \<noteq> ''connected'' then Inr (- 1) else Inr 0))"

record igd_iface_status =
  if_status :: string
  baudrate :: u32
  ibytes :: u32
  obytes :: u32
  ipackets :: u32
  opackets :: u32

definition get_sdn_igd_iface_status ::
  "codec \<Rightarrow> 'w transport \<Rightarrow> 'w \<Rightarrow> (int \<times> igd_iface_status option, 'w) sdn_result" where
  "get_sdn_igd_iface_status cd tr w =
     sdn_call cd tr GetIGDRuntimeStatus JNull w (\<lambda>data.
       if response_code data \<noteq> OK_200 then log_code data (- 1, None)
       else (let r = resp data in
         (case (retrieveStringFromJsonObj r ''iface_status'', retrieveUnsignedIntFromJsonObj r ''baudrate'',
                retrieveUnsignedIntFromJsonObj r ''total_bytes_sent'',
                retrieveUnsignedIntFromJsonObj r ''total_bytes_received'',
                retrieveUnsignedIntFromJsonObj r ''total_packets_sent'',
                retrieveUnsignedIntFromJsonObj r ''total_packets_received'') of
            (Some st, Some bd, Some bs, Some br, Some ps, Some pr) \<Rightarrow>
              Inr (0, Some \<lparr>if_status = st, baudrate = bd, ibytes = br, obytes = bs,
                            ipackets = pr, opackets = ps\<rparr>)
          | _ \<Rightarrow> Inr (- 1, None))))"

section \<open>Adding a mapping\<close>

text \<open>\<^verbatim>\<open>json_object_new_int\<close> takes a signed 32-bit value.\<close>

definition json_new_int :: "u32 \<Rightarrow> json" where
  "json_new_int x = JInt (sint x)"

definition json_new_port :: "port \<Rightarrow> json" where
  "json_new_port p = JInt (int (unat p))"

definition add_request ::
  "string \<Rightarrow> port \<Rightarrow> string \<Rightarrow> port \<Rightarrow> string \<Rightarrow> u32 \<Rightarrow> PortRange list option \<Rightarrow> json" where
  "add_request rhost eport iaddr iport proto duration allowed =
     JObject ([(''rhost'', JString rhost), (''eport'', json_new_port eport), (''proto'', JString proto),
        (''iport'', json_new_port iport), (''iaddr'', JString iaddr), (''duration'', json_new_int duration)]
       @ (case allowed of None \<Rightarrow> []
          | Some rs \<Rightarrow> [(''permit_port_range'',
              JArray (map (\<lambda>r. JArray [json_new_port (pr_start r), json_new_port (pr_end r)]) rs))]))"

text \<open>The return code and \<open>final_eport\<close>, left unset (\<open>None\<close>) where the code does not write it.
  \<open>stack\<close> is the unset local of the port retrieval.\<close>

definition add_redirect_and_filter_rules_common ::
  "codec \<Rightarrow> 'w transport \<Rightarrow> int \<Rightarrow> string \<Rightarrow> port \<Rightarrow> string \<Rightarrow> port \<Rightarrow> string \<Rightarrow> string \<Rightarrow> u32
     \<Rightarrow> PortRange list option \<Rightarrow> 'w \<Rightarrow> (int \<times> port option, 'w) sdn_result" where
  "add_redirect_and_filter_rules_common cd tr stack rhost eport iaddr iport proto desc duration allowed w =
     sdn_call cd tr AddIGDPortMapping (add_request rhost eport iaddr iport proto duration allowed) w
       (\<lambda>data.
         if response_code data = CONFLICT_409 then Inr (- 3, None)
         else if response_code data \<noteq> OK_200 then log_code data (- 1, None)
         else (case retrieveIntFromJsonObj (resp data) ''return_code'' of None \<Rightarrow> Inr (- 1, None)
           | Some ret_code \<Rightarrow>
             (if ret_code = 0 then
                (case retrievePortNumberFromJsonObj stack (resp data) ''eport'' of None \<Rightarrow> Inr (1, None)
                 | Some e \<Rightarrow> Inr (ret_code, Some e))
              else Inr (ret_code, None))))"

definition map_result :: "('a \<Rightarrow> 'b) \<Rightarrow> ('a, 'w) sdn_result \<Rightarrow> ('b, 'w) sdn_result" where
  "map_result f r = map_option (\<lambda>(x, w). (map_sum (\<lambda>e. e) f x, w)) r"

definition add_redirect_and_filter_rules ::
  "codec \<Rightarrow> 'w transport \<Rightarrow> int \<Rightarrow> string \<Rightarrow> port \<Rightarrow> string \<Rightarrow> port \<Rightarrow> string \<Rightarrow> string \<Rightarrow> u32
     \<Rightarrow> 'w \<Rightarrow> (int, 'w) sdn_result" where
  "add_redirect_and_filter_rules cd tr stack rhost eport iaddr iport proto desc duration w =
     map_result (\<lambda>(ret_code, _).
         if ret_code = 1 then 0 else if ret_code = 0 then 0
         else if ret_code = - 2 then - 4 else if ret_code = - 3 then - 2 else - 1)
       (add_redirect_and_filter_rules_common cd tr stack rhost eport iaddr iport proto desc duration None w)"

definition add_any_redirect_and_filter_rules ::
  "codec \<Rightarrow> 'w transport \<Rightarrow> int \<Rightarrow> string \<Rightarrow> port \<Rightarrow> string \<Rightarrow> port \<Rightarrow> string \<Rightarrow> string \<Rightarrow> u32
     \<Rightarrow> PortRange list \<Rightarrow> 'w \<Rightarrow> (int \<times> port option, 'w) sdn_result" where
  "add_any_redirect_and_filter_rules cd tr stack rhost eport iaddr iport proto desc duration allowed w =
     map_result (\<lambda>(ret_code, final_eport).
         if ret_code = 1 then (- 1, None) else if ret_code = 0 then (0, final_eport)
         else if ret_code = - 2 then (- 1, None) else if ret_code = - 3 then (1, None) else (- 1, None))
       (add_redirect_and_filter_rules_common cd tr stack rhost eport iaddr iport proto desc duration
          (Some allowed) w)"

section \<open>Looking mappings up\<close>

record rule_info =
  ri_eport :: port
  ri_iport :: port
  ri_iaddr :: string
  ri_proto :: string
  ri_rhost :: string
  ri_desc :: string
  ri_lease :: u32

text \<open>The decoded mapping, or the first retrieval of the code's sequence that fails.\<close>

definition decode_rule :: "int \<Rightarrow> json \<Rightarrow> nat \<Rightarrow> nat \<Rightarrow> nat \<Rightarrow> rule_info option" where
  "decode_rule stack r iaddrlen desclen rhostlen =
     (case retrieveStringFromJsonObj r ''rhost'' of None \<Rightarrow> None | Some rhost_new \<Rightarrow>
      (case retrievePortNumberFromJsonObj stack r ''eport'' of None \<Rightarrow> None | Some eport \<Rightarrow>
       (case retrieveStringFromJsonObj r ''proto'' of None \<Rightarrow> None | Some proto_new \<Rightarrow>
        (case retrieveStringFromJsonObj r ''iaddr'' of None \<Rightarrow> None | Some iaddr_new \<Rightarrow>
         (case retrievePortNumberFromJsonObj stack r ''iport'' of None \<Rightarrow> None | Some iport \<Rightarrow>
          (case retrieveUnsignedIntFromJsonObj r ''duration'' of None \<Rightarrow> None | Some lease \<Rightarrow>
            Some \<lparr>ri_eport = eport, ri_iport = iport, ri_iaddr = strncpy iaddr_new iaddrlen,
                  ri_proto = proto_new, ri_rhost = strncpy rhost_new rhostlen,
                  ri_desc = strncpy ''empty'' desclen, ri_lease = lease\<rparr>))))))"

definition key_request :: "string \<Rightarrow> port \<Rightarrow> string \<Rightarrow> json" where
  "key_request rhost eport proto =
     JObject [(''rhost'', JString rhost), (''eport'', json_new_port eport), (''proto'', JString proto)]"

text \<open>\<^verbatim>\<open>get_redirect_rule\<close>: the response must repeat the key it was asked for.\<close>

definition get_redirect_rule ::
  "codec \<Rightarrow> 'w transport \<Rightarrow> int \<Rightarrow> port \<Rightarrow> string \<Rightarrow> nat \<Rightarrow> nat \<Rightarrow> string \<Rightarrow> 'w
     \<Rightarrow> (rule_info option, 'w) sdn_result" where
  "get_redirect_rule cd tr stack eport proto iaddrlen desclen rhost w =
     sdn_call cd tr GetIGDPortMapping (key_request rhost eport proto) w (\<lambda>data.
       if response_code data = NOTFOUND_404 then Inr None
       else if response_code data \<noteq> OK_200 then log_code data None
       else (let r = resp data in
         (case retrieveStringFromJsonObj r ''rhost'' of None \<Rightarrow> Inr None | Some rhost_new \<Rightarrow>
          if \<not> strcmp_eq rhost_new rhost then Inr None else
          (case retrievePortNumberFromJsonObj stack r ''eport'' of None \<Rightarrow> Inr None | Some eport_new \<Rightarrow>
           if eport_new \<noteq> eport then Inr None else
           (case retrieveStringFromJsonObj r ''proto'' of None \<Rightarrow> Inr None | Some proto_new \<Rightarrow>
            if cmpCaseInsensitive proto_new proto \<noteq> 0 then Inr None else
            (case retrieveStringFromJsonObj r ''iaddr'' of None \<Rightarrow> Inr None | Some iaddr_new \<Rightarrow>
             (case retrievePortNumberFromJsonObj stack r ''iport'' of None \<Rightarrow> Inr None | Some iport \<Rightarrow>
              (case retrieveUnsignedIntFromJsonObj r ''duration'' of None \<Rightarrow> Inr None | Some lease \<Rightarrow>
                Inr (Some \<lparr>ri_eport = eport_new, ri_iport = iport, ri_iaddr = strncpy iaddr_new iaddrlen,
                   ri_proto = proto_new, ri_rhost = rhost, ri_desc = strncpy ''empty'' desclen,
                   ri_lease = lease\<rparr>)))))))))"

definition get_redirect_rule_by_index ::
  "codec \<Rightarrow> 'w transport \<Rightarrow> int \<Rightarrow> int \<Rightarrow> nat \<Rightarrow> nat \<Rightarrow> nat \<Rightarrow> 'w \<Rightarrow> (rule_info option, 'w) sdn_result" where
  "get_redirect_rule_by_index cd tr stack index iaddrlen desclen rhostlen w =
     sdn_call cd tr GetIGDPortMappingByIndex (JObject [(''index'', JInt index)]) w (\<lambda>data.
       if response_code data = NOTFOUND_404 then Inr None
       else if response_code data \<noteq> OK_200 then log_code data None
       else Inr (decode_rule stack (resp data) iaddrlen desclen rhostlen))"

section \<open>Deleting and listing\<close>

definition delete_redirect_and_filter_rules ::
  "codec \<Rightarrow> 'w transport \<Rightarrow> string \<Rightarrow> port \<Rightarrow> string \<Rightarrow> 'w \<Rightarrow> (int, 'w) sdn_result" where
  "delete_redirect_and_filter_rules cd tr rhost eport proto w =
     sdn_call cd tr DeleteIGDPortMapping (key_request rhost eport proto) w (\<lambda>data.
       if response_code data = NOTFOUND_404 then Inr (- 1)
       else if response_code data \<noteq> OK_200 then log_code data (- 1)
       else Inr 0)"

record portmapping_entry =
  pe_rhost :: string
  pe_eport :: port
  pe_proto :: string
  pe_iaddr :: string
  pe_iport :: port
  pe_lease :: u32

definition portmapping_entry_of :: "int \<Rightarrow> json \<Rightarrow> portmapping_entry option" where
  "portmapping_entry_of stack e =
     (case (retrieveStringFromJsonObj e ''rhost'', retrievePortNumberFromJsonObj stack e ''eport'',
            retrieveStringFromJsonObj e ''proto'', retrieveStringFromJsonObj e ''iaddr'',
            retrievePortNumberFromJsonObj stack e ''iport'', retrieveUnsignedIntFromJsonObj e ''duration'') of
        (Some rhost, Some eport, Some proto, Some iaddr, Some iport, Some lease) \<Rightarrow>
          Some \<lparr>pe_rhost = rhost, pe_eport = eport, pe_proto = proto, pe_iaddr = iaddr,
                pe_iport = iport, pe_lease = lease\<rparr>
      | _ \<Rightarrow> None)"

definition retrievePortmappingArrayFromJsonObj :: "int \<Rightarrow> json \<Rightarrow> string \<Rightarrow> portmapping_entry list option" where
  "retrievePortmappingArrayFromJsonObj stack jobj key =
     map_option (List.map_filter (portmapping_entry_of stack)) (retrieveJsonArrayFromJsonObj jobj key)"

definition DEFAULT_PORTMAPPING_CAP :: int where "DEFAULT_PORTMAPPING_CAP = 64"

text \<open>The array (\<open>None\<close> for \<^verbatim>\<open>NULL\<close>) and the value written to \<^verbatim>\<open>*number\<close>, if any.\<close>

definition get_portmappings_in_range ::
  "codec \<Rightarrow> 'w transport \<Rightarrow> int \<Rightarrow> port \<Rightarrow> port \<Rightarrow> string \<Rightarrow> 'w
     \<Rightarrow> (portmapping_entry list option \<times> nat option, 'w) sdn_result" where
  "get_portmappings_in_range cd tr stack startport endport proto w =
     sdn_call cd tr GetIGDPortMappingRange
       (JObject [(''proto'', JString proto), (''start_port_num'', json_new_port startport),
          (''end_port_num'', json_new_port endport), (''max_entry_number'', JInt DEFAULT_PORTMAPPING_CAP)]) w
       (\<lambda>data.
         if response_code data = NOTFOUND_404 then Inr (None, Some 0)
         else if response_code data \<noteq> OK_200 then log_code data (None, None)
         else (case retrievePortmappingArrayFromJsonObj stack (resp data) ''portmapping'' of
             None \<Rightarrow> Inr (None, None)
           | Some es \<Rightarrow> Inr (Some es, Some (length es))))"

definition delete_portmappings_in_range ::
  "codec \<Rightarrow> 'w transport \<Rightarrow> port \<Rightarrow> port \<Rightarrow> string \<Rightarrow> 'w \<Rightarrow> (int \<times> port list option, 'w) sdn_result" where
  "delete_portmappings_in_range cd tr startport endport proto w =
     sdn_call cd tr DeleteIGDPortMappingRange
       (JObject [(''proto'', JString proto), (''start_port_num'', json_new_port startport),
          (''end_port_num'', json_new_port endport)]) w
       (\<lambda>data.
         if response_code data = NOTFOUND_404 then Inr (- 1, None)
         else if response_code data \<noteq> OK_200 then log_code data (- 1, None)
         else (case retrievePortNumberArrayFromJsonObj (resp data) ''deleted'' of
             None \<Rightarrow> Inr (- 1, None)
           | Some ps \<Rightarrow> Inr (0, Some ps)))"

section \<open>Lemmas\<close>

lemma cmp_chars_refl: "cmp_chars s s = 0"
  by (induction s) simp_all

lemma cmpCaseInsensitive_refl [simp]: "cmpCaseInsensitive s s = 0"
  by (simp add: cmpCaseInsensitive_def cmp_chars_refl)

lemma cmpCaseInsensitive_range: "cmpCaseInsensitive a b = 0 \<or> cmpCaseInsensitive a b = - 1"
proof -
  have "cmp_chars a b = 0 \<or> cmp_chars a b = - 1"
    by (induction a b rule: cmp_chars.induct) auto
  then show ?thesis by (auto simp: cmpCaseInsensitive_def)
qed

lemma length_strncpy [simp]: "length (strncpy s n) = n"
  by (simp add: strncpy_def)

text \<open>The exchanges that end in an error or a closed connection: each caller in turn.\<close>

definition exchange_lost :: "codec \<Rightarrow> 'w transport \<Rightarrow> onos_op \<Rightarrow> json \<Rightarrow> 'w \<Rightarrow> 'w \<Rightarrow> bool" where
  "exchange_lost cd tr oper jobj w w' \<longleftrightarrow>
     onos_exchange cd tr oper jobj w = Some ((new_conn jobj)\<lparr>done_flag := True\<rparr>, w')"

lemma exchange_lostI:
  assumes "first_end cd tr oper (new_conn jobj) n (mg_http_connect tr w) = Some (ev, w')"
    and "ev = MG_EV_ERROR \<or> ev = MG_EV_CLOSE"
  shows "exchange_lost cd tr oper jobj w w'"
  using exchange_without_response [OF assms] by (simp add: exchange_lost_def)

lemma sdn_call_lost:
  "exchange_lost cd tr oper jobj w w' \<Longrightarrow>
   sdn_call cd tr oper jobj w decode = Some (decode ((new_conn jobj)\<lparr>done_flag := True\<rparr>), w')"
  by (simp add: sdn_call_def exchange_lost_def)

lemma resp_new_conn [simp]: "resp ((new_conn jobj)\<lparr>done_flag := b\<rparr>) = JNull"
  by (simp add: resp_def new_conn_def)

lemma code_new_conn [simp]: "response_code ((new_conn jobj)\<lparr>done_flag := b\<rparr>) = OK_200"
  by (simp add: new_conn_def)

lemma retrieve_null [simp]:
  "retrieveStringFromJsonObj JNull k = None" "retrieveIntFromJsonObj JNull k = None"
  "retrieveJsonArrayFromJsonObj JNull k = None"
  by (simp_all add: retrieveStringFromJsonObj_def retrieveIntFromJsonObj_def
      retrieveJsonArrayFromJsonObj_def)

text \<open>Letters: the comparison is the case-insensitive one.\<close>

lemma letter_test:
  assumes "isalpha a" and "isalpha b"
  shows "(a \<noteq> b \<and> ((schar b < 91 \<and> schar a \<noteq> schar b + 32) \<or> (schar b > 91 \<and> schar a \<noteq> schar b - 32)))
    \<longleftrightarrow> tolower a \<noteq> tolower b"
  using assms unfolding ord_eq_iff [of a b] ord_eq_iff [of "tolower a"] ord_tolower schar_def isalpha_def
  by (auto split: if_splits)

lemma cmp_chars_letters:
  assumes "length a = length b" and "\<forall>c \<in> set a \<union> set b. isalpha c"
  shows "cmp_chars a b = 0 \<longleftrightarrow> map tolower a = map tolower b"
  using assms
proof (induction a b rule: list_induct2)
  case Nil
  then show ?case by simp
next
  case (Cons x xs y ys)
  then show ?case using letter_test [of x y] by simp
qed

lemma retrieve_add_request:
  "json_object_object_get_ex (add_request rhost eport iaddr iport proto duration allowed) ''rhost'' = Some (JString rhost)"
  "json_object_object_get_ex (add_request rhost eport iaddr iport proto duration allowed) ''eport'' = Some (json_new_port eport)"
  "json_object_object_get_ex (add_request rhost eport iaddr iport proto duration allowed) ''proto'' = Some (JString proto)"
  "json_object_object_get_ex (add_request rhost eport iaddr iport proto duration allowed) ''iport'' = Some (json_new_port iport)"
  "json_object_object_get_ex (add_request rhost eport iaddr iport proto duration allowed) ''iaddr'' = Some (JString iaddr)"
  "json_object_object_get_ex (add_request rhost eport iaddr iport proto duration allowed) ''duration'' = Some (json_new_int duration)"
  by (simp_all add: add_request_def)

lemma valid_port_int: "isvalid_ushort (int (unat (p::port)))"
  using uint_port_le [of p] by (simp add: isvalid_ushort_def)

lemma retrieve_new_port:
  "json_object_object_get_ex j k = Some (json_new_port p) \<Longrightarrow> retrievePortNumberFromJsonObj stack j k = Some p"
  unfolding json_new_port_def
  by (drule retrievePortNumber_in_range [OF _ valid_port_int]) simp

lemma retrieve_new_int:
  assumes "json_object_object_get_ex j k = Some (json_new_int d)" and "unat d < 2 ^ 31"
  shows "retrieveUnsignedIntFromJsonObj j k = Some d"
proof -
  have "uint d < 2 ^ 31" using assms(2) by (metis of_nat_less_iff of_nat_numeral of_nat_power uint_nat)
  then have "sint d = uint d" by (simp add: sint_uint signed_take_bit_small)
  moreover have "uint d \<le> UINT_MAX" using \<open>uint d < 2 ^ 31\<close> by (simp add: UINT_MAX_def)
  ultimately show ?thesis
    using assms(1) by (simp add: json_new_int_def retrieveUnsignedInt_nonneg)
qed

section \<open>Properties\<close>

text \<open>When the exchange with the controller ends in an error or a closed connection,
  deleting a mapping reports success, because the unset status is the code of 200; adding a
  mapping reports failure and a lookup finds nothing.\<close>

theorem lost_delete_reports_success:
  assumes "exchange_lost cd tr DeleteIGDPortMapping (key_request rhost eport proto) w w1"
    and "exchange_lost cd tr AddIGDPortMapping (add_request rhost eport iaddr iport proto dur None) w w2"
    and "exchange_lost cd tr GetIGDPortMapping (key_request rhost eport proto) w w3"
  shows "delete_redirect_and_filter_rules cd tr rhost eport proto w = Some (Inr 0, w1)
    \<and> add_redirect_and_filter_rules cd tr stack rhost eport iaddr iport proto desc dur w = Some (Inr (- 1), w2)
    \<and> get_redirect_rule cd tr stack eport proto n m rhost w = Some (Inr None, w3)"
  by (simp add: sdn_call_lost [OF assms(1)] sdn_call_lost [OF assms(2)] sdn_call_lost [OF assms(3)]
      delete_redirect_and_filter_rules_def add_redirect_and_filter_rules_def
      add_redirect_and_filter_rules_common_def get_redirect_rule_def map_result_def)

definition dead_transport :: "unit transport" where
  "dead_transport = \<lparr>mg_http_connect = (\<lambda>w. w), mg_next_event = (\<lambda>w. (MG_EV_ERROR, w)),
     mg_write = (\<lambda>s w. w)\<rparr>"

definition null_codec :: codec where
  "null_codec = \<lparr>print_json = (\<lambda>j. []), parse_json = (\<lambda>s. None)\<rparr>"

lemma dead_exchange: "exchange_lost null_codec dead_transport oper jobj () ()"
  by (rule exchange_lostI [where n = 1 and ev = MG_EV_ERROR]) (simp_all add: dead_transport_def)

theorem lost_delete_reports_success_witness:
  "delete_redirect_and_filter_rules null_codec dead_transport [] 80 ''TCP'' () = Some (Inr 0, ())"
  using lost_delete_reports_success [OF dead_exchange dead_exchange dead_exchange] by blast

text \<open>A response with a status outside the six known ones makes every operation that reports
  the status read the table of code names behind its end.\<close>

theorem unknown_status_overruns:
  assumes "first_end cd tr DeleteIGDPortMapping (new_conn (key_request rhost eport proto)) n
      (mg_http_connect tr w) = Some (MG_EV_HTTP_MSG uri body, w')"
    and "atoi (take 3 uri) \<notin> {200, 400, 404, 405, 409, 500}"
  shows "delete_redirect_and_filter_rules cd tr rhost eport proto w = Some (Inl Name_overrun, w')"
  using assms(2)
  by (simp add: delete_redirect_and_filter_rules_def sdn_call_def exchange_with_response [OF assms(1)]
      retrieveJsonPayload_def retrieveResponseStatus_def log_code_def code_name_None [THEN iffD2] Let_def)

definition answering_transport :: "string \<Rightarrow> unit transport" where
  "answering_transport status = \<lparr>mg_http_connect = (\<lambda>w. w),
     mg_next_event = (\<lambda>w. (MG_EV_HTTP_MSG status [], w)), mg_write = (\<lambda>s w. w)\<rparr>"

theorem unknown_status_overruns_witness:
  "delete_redirect_and_filter_rules null_codec (answering_transport ''503'') [] 80 ''TCP'' ()
     = Some (Inl Name_overrun, ())"
proof (rule unknown_status_overruns [where n = 1 and uri = "''503''" and body = "[]"])
  show "first_end null_codec (answering_transport ''503'') DeleteIGDPortMapping
      (new_conn (key_request [] 80 ''TCP'')) 1 (mg_http_connect (answering_transport ''503'') ())
      = Some (MG_EV_HTTP_MSG ''503'' [], ())"
    by (simp add: answering_transport_def)
  show "atoi (take 3 ''503'') \<notin> {200, 400, 404, 405, 409, 500}" by code_simp
qed

text \<open>As soon as the transport delivers a response, an error or a close within some number of
  polls, the polling loop of the exchange ends, with the variables that event leaves.\<close>

theorem exchange_returns:
  assumes "first_end cd tr oper (new_conn jobj) n (mg_http_connect tr w) = Some (ev, w')"
  shows "\<exists>data. onos_exchange cd tr oper jobj w = Some (data, w') \<and> done_flag data \<and> request data = jobj"
proof -
  have "poll_loop cd tr oper (new_conn jobj) (mg_http_connect tr w)
      = Some (fst (onos_handler cd oper ev (new_conn jobj)), w')"
    by (rule poll_loop_first_end [OF assms]) (simp add: new_conn_def)
  moreover have "done_flag (fst (onos_handler cd oper ev (new_conn jobj)))"
    using first_end_ends [OF assms] by (subst done_iff_ends) (simp_all add: new_conn_def)
  moreover have "request (new_conn jobj) = jobj" by (simp add: new_conn_def)
  ultimately show ?thesis by (simp add: onos_exchange_def)
qed

theorem exchange_returns_witness:
  "\<exists>data. onos_exchange null_codec dead_transport GetExtIpAddr JNull () = Some (data, ()) \<and> done_flag data"
proof -
  have "first_end null_codec dead_transport GetExtIpAddr (new_conn JNull) 1
      (mg_http_connect dead_transport ()) = Some (MG_EV_ERROR, ())"
    by (simp add: dead_transport_def)
  from exchange_returns [OF this] show ?thesis by blast
qed

text \<open>A mapping that \<^verbatim>\<open>get_redirect_rule\<close> returns is the one asked for: the controller's
  response carried status 200, the same remote host and external port, and a protocol the
  case-insensitive comparison accepts.\<close>

theorem found_rule_matches_key:
  assumes "get_redirect_rule cd tr stack eport proto n m rhost w = Some (Inr (Some info), w')"
  shows "\<exists>data. onos_exchange cd tr GetIGDPortMapping (key_request rhost eport proto) w = Some (data, w')
    \<and> response_code data = OK_200 \<and> ri_eport info = eport
    \<and> retrieveStringFromJsonObj (resp data) ''rhost'' = Some rhost
    \<and> retrieveStringFromJsonObj (resp data) ''proto'' = Some (ri_proto info)
    \<and> cmpCaseInsensitive (ri_proto info) proto = 0"
proof -
  obtain data where ex: "onos_exchange cd tr GetIGDPortMapping (key_request rhost eport proto) w = Some (data, w')"
    using assms by (auto simp: get_redirect_rule_def sdn_call_def split: option.splits)
  then show ?thesis
    using assms
    by (auto simp: get_redirect_rule_def sdn_call_def log_code_def Let_def
        split: option.splits if_splits)
qed

definition sample_mapping :: json where
  "sample_mapping = JObject [(''rhost'', JString []), (''eport'', JInt 80), (''proto'', JString ''tcp''),
     (''iaddr'', JString ''10.0.0.2''), (''iport'', JInt 8080), (''duration'', JInt 0)]"

definition sample_codec :: codec where
  "sample_codec = \<lparr>print_json = (\<lambda>j. []), parse_json = (\<lambda>s. Some sample_mapping)\<rparr>"

lemma sample_lookup:
  "get_redirect_rule sample_codec (answering_transport ''200'') 0 80 ''TCP'' 16 1 [] ()
     = Some (Inr (Some \<lparr>ri_eport = 80, ri_iport = 8080, ri_iaddr = strncpy ''10.0.0.2'' 16, ri_proto = ''tcp'',
         ri_rhost = [], ri_desc = strncpy ''empty'' 1, ri_lease = 0\<rparr>), ())"
proof -
  have fe: "first_end sample_codec (answering_transport ''200'') GetIGDPortMapping
      (new_conn (key_request [] 80 ''TCP'')) 1 (mg_http_connect (answering_transport ''200'') ())
      = Some (MG_EV_HTTP_MSG ''200'' [], ())"
    by (simp add: answering_transport_def)
  have "cmpCaseInsensitive ''tcp'' ''TCP'' = 0" by code_simp
  moreover have "atoi ''200'' = 200" by code_simp
  ultimately show ?thesis
    unfolding get_redirect_rule_def sdn_call_def exchange_with_response [OF fe]
    by (simp add: retrieveJsonPayload_def
        retrieveResponseStatus_def sample_codec_def sample_mapping_def Let_def resp_def
        retrieveStringFromJsonObj_def retrievePortNumber_in_range isvalid_ushort_def
        retrieveUnsignedInt_nonneg UINT_MAX_def)
qed

theorem found_rule_matches_key_witness:
  "\<exists>data. onos_exchange sample_codec (answering_transport ''200'') GetIGDPortMapping
      (key_request [] 80 ''TCP'') () = Some (data, ()) \<and> response_code data = OK_200"
  using found_rule_matches_key [OF sample_lookup] by blast

text \<open>For protocol names made of letters, \<^verbatim>\<open>cmpCaseInsensitive\<close> answers 0 exactly when the
  names agree after conversion to lower case.\<close>

theorem cmp_letters_case_insensitive:
  assumes "\<forall>c \<in> set a \<union> set b. isalpha c"
  shows "cmpCaseInsensitive a b = 0 \<longleftrightarrow> map tolower a = map tolower b"
proof (cases "length a = length b")
  case True
  then show ?thesis using cmp_chars_letters [OF True assms] by (simp add: cmpCaseInsensitive_def)
next
  case False
  then show ?thesis by (auto simp: cmpCaseInsensitive_def dest: map_eq_imp_length_eq)
qed

theorem cmp_letters_case_insensitive_witness:
  "cmpCaseInsensitive ''Tcp'' ''tCP'' = 0"
proof (subst cmp_letters_case_insensitive)
  show "\<forall>c \<in> set ''Tcp'' \<union> set ''tCP''. isalpha c" by code_simp
  show "map tolower ''Tcp'' = map tolower ''tCP''" by code_simp
qed

text \<open>Outside the letters it is no comparison: a name of opening brackets matches every name of
  its length.\<close>

theorem cmp_bracket_matches_all:
  "cmpCaseInsensitive a (replicate (length a) CHR ''['') = 0"
proof -
  have "cmp_chars a (replicate (length a) CHR ''['') = 0"
    by (induction a) (simp_all add: schar_def)
  then show ?thesis by (simp add: cmpCaseInsensitive_def)
qed

text \<open>The request of an added mapping carries its fields without loss: read with the retrieval
  helpers it gives back the key, the target and, below \<open>2 ^ 31\<close> seconds, the lease duration.\<close>

theorem add_request_roundtrip:
  assumes "unat dur < 2 ^ 31"
  shows "decode_rule stack (add_request rhost eport iaddr iport proto dur allowed) n m k
    = Some \<lparr>ri_eport = eport, ri_iport = iport, ri_iaddr = strncpy iaddr n, ri_proto = proto,
            ri_rhost = strncpy rhost k, ri_desc = strncpy ''empty'' m, ri_lease = dur\<rparr>"
  using assms
  by (simp add: decode_rule_def retrieveStringFromJsonObj_def retrieve_add_request
      retrieve_new_port retrieve_new_int)

theorem add_request_roundtrip_witness:
  "decode_rule 0 (add_request [] 80 ''10.0.0.2'' 8080 ''TCP'' 3600 None) 16 64 40
    = Some \<lparr>ri_eport = 80, ri_iport = 8080, ri_iaddr = strncpy ''10.0.0.2'' 16, ri_proto = ''TCP'',
            ri_rhost = strncpy [] 40, ri_desc = strncpy ''empty'' 64, ri_lease = 3600\<rparr>"
  by (rule add_request_roundtrip) simp

text \<open>The external address is copied without its terminator when it fills the caller's
  buffer: the test admits a text of exactly the buffer's length.\<close>

theorem external_address_terminated_iff:
  assumes "get_sdn_igd_external_ip_addr cd tr max_len w = Some (Inr (0, Some buf), w')"
  shows "\<exists>ip. length ip \<le> max_len \<and> buf = strncpy ip max_len
    \<and> (CHR 0x00 \<in> set ip \<or> (terminated buf \<longleftrightarrow> length ip < max_len))"
proof -
  obtain ip where "length ip \<le> max_len" "buf = strncpy ip max_len"
    using assms by (auto simp: get_sdn_igd_external_ip_addr_def sdn_call_def log_code_def
        split: option.splits if_splits)
  then show ?thesis using strncpy_terminated [of ip max_len] by blast
qed

definition ip_codec :: codec where
  "ip_codec = \<lparr>print_json = (\<lambda>j. []), parse_json = (\<lambda>s. Some (JObject [(''ext_ip_addr'', JString s)]))\<rparr>"

definition ip_transport :: "unit transport" where
  "ip_transport = \<lparr>mg_http_connect = (\<lambda>w. w),
     mg_next_event = (\<lambda>w. (MG_EV_HTTP_MSG ''200'' ''203.0.113.100'', w)), mg_write = (\<lambda>s w. w)\<rparr>"

lemma sample_external_ip:
  "get_sdn_igd_external_ip_addr ip_codec ip_transport 13 () = Some (Inr (0, Some ''203.0.113.100''), ())"
proof -
  have fe: "first_end ip_codec ip_transport GetExtIpAddr (new_conn JNull) 1 (mg_http_connect ip_transport ())
      = Some (MG_EV_HTTP_MSG ''200'' ''203.0.113.100'', ())"
    by (simp add: ip_transport_def)
  have "atoi ''200'' = 200" by code_simp
  moreover have "strncpy ''203.0.113.100'' 13 = ''203.0.113.100''" by code_simp
  ultimately show ?thesis
    unfolding get_sdn_igd_external_ip_addr_def sdn_call_def exchange_with_response [OF fe]
    by (simp add: retrieveJsonPayload_def retrieveResponseStatus_def ip_codec_def Let_def resp_def
        retrieveStringFromJsonObj_def)
qed

theorem external_address_terminated_iff_witness:
  "\<exists>ip. length ip \<le> 13 \<and> ''203.0.113.100'' = strncpy ip 13 \<and> \<not> terminated ''203.0.113.100''"
  using external_address_terminated_iff [OF sample_external_ip] by (auto simp: terminated_def)

end
