(* ===== verification/Lease_File.thy ===== *)
theory Lease_File
  imports Upnp_Prelude
begin

text \<open>
  The lease file of \<^verbatim>\<open>upnpredirect.c\<close>: the protocol names, appending the line of a mapping,
  removing the lines of a port, and parsing a line when the daemon starts. A file is its text,
  \<open>None\<close> when it does not exist; reading it goes through \<^verbatim>\<open>fgets\<close> with the code's buffer sizes.
\<close>

section \<open>Protocol names\<close>

definition IPPROTO_TCP :: int where "IPPROTO_TCP = 6"
definition IPPROTO_UDP :: int where "IPPROTO_UDP = 17"
definition IPPROTO_UDPLITE :: int where "IPPROTO_UDPLITE = 136"

definition proto_atoi :: "string \<Rightarrow> int" where
  "proto_atoi protocol =
     (if strcasecmp_eq protocol ''UDP'' then IPPROTO_UDP
      else if strcasecmp_eq protocol ''UDPLITE'' then IPPROTO_UDPLITE
      else IPPROTO_TCP)"

definition proto_itoa :: "int \<Rightarrow> string" where
  "proto_itoa proto =
     (if proto = IPPROTO_UDP then ''UDP''
      else if proto = IPPROTO_TCP then ''TCP''
      else if proto = IPPROTO_UDPLITE then ''UDPLITE''
      else ''*UNKNOWN*'')"

definition known_proto :: "int \<Rightarrow> bool" where
  "known_proto p \<longleftrightarrow> p \<in> {IPPROTO_TCP, IPPROTO_UDP, IPPROTO_UDPLITE}"

lemmas ipproto_defs = IPPROTO_TCP_def IPPROTO_UDP_def IPPROTO_UDPLITE_def

text \<open>A protocol number that a \<^verbatim>\<open>short\<close> holds, as every byte of a packet does.\<close>

definition valid_proto :: "int \<Rightarrow> bool" where
  "valid_proto p \<longleftrightarrow> 0 \<le> p \<and> p < 32768"

lemma known_valid: "known_proto p \<Longrightarrow> valid_proto p"
  by (auto simp: known_proto_def valid_proto_def ipproto_defs)

lemma known_tcp [simp]: "known_proto IPPROTO_TCP"
  by (simp add: known_proto_def)

lemma valid_tcp [simp]: "valid_proto IPPROTO_TCP"
  by (rule known_valid) simp

lemma valid_byte [simp]: "valid_proto (uint (b :: 8 word))"
  using uint_lt2p [of b] by (simp add: valid_proto_def)

lemma proto_atoi_itoa: "known_proto p \<Longrightarrow> proto_atoi (proto_itoa p) = p"
proof -
  have "\<not> strcasecmp_eq ''TCP'' ''UDP''" "\<not> strcasecmp_eq ''TCP'' ''UDPLITE''"
    "\<not> strcasecmp_eq ''UDPLITE'' ''UDP''" by code_simp+
  then show "known_proto p \<Longrightarrow> proto_atoi (proto_itoa p) = p"
    by (auto simp: known_proto_def proto_atoi_def proto_itoa_def ipproto_defs)
      (simp_all add: strcasecmp_eq_def)
qed

section \<open>Files\<close>

definition newline :: char where "newline = CHR 0x0A"

text \<open>\<^verbatim>\<open>fgets(buf, n, fd)\<close>: at most \<open>n - 1\<close> characters, up to and with the first newline.\<close>

definition fgets :: "nat \<Rightarrow> string \<Rightarrow> (string \<times> string) option" where
  "fgets n content =
     (if content = [] \<or> n < 2 then None
      else (let l = takeWhile (\<lambda>c. c \<noteq> newline) content;
                k = min (n - 1) (if length l < length content then length l + 1 else length l)
            in Some (take k content, drop k content)))"

lemma fgets_shrinks:
  assumes "fgets n content = Some (l, r)"
  shows "length r < length content \<and> content = l @ r"
proof -
  define t where "t = takeWhile (\<lambda>c. c \<noteq> newline) content"
  define k where "k = min (n - 1) (if length t < length content then length t + 1 else length t)"
  have le: "length t \<le> length content" by (simp add: t_def length_takeWhile_le)
  have ne: "content \<noteq> []" "2 \<le> n" and lr: "l = take k content" "r = drop k content"
    using assms by (auto simp: fgets_def t_def k_def Let_def split: if_splits)
  have "0 < k"
    using ne le by (cases "length t < length content") (auto simp: k_def)
  then show ?thesis using ne lr by (cases content) auto
qed

text \<open>The pieces the \<^verbatim>\<open>while(fgets(...))\<close> loop sees.\<close>

function file_lines :: "nat \<Rightarrow> string \<Rightarrow> string list" where
  "file_lines n content =
     (case fgets n content of None \<Rightarrow> [] | Some (l, r) \<Rightarrow> l # file_lines n r)"
  by pat_completeness auto
termination
  by (relation "measure (\<lambda>(n, content). length content)") (auto dest: fgets_shrinks)

declare file_lines.simps [simp del]

definition whole_line :: "nat \<Rightarrow> string \<Rightarrow> bool" where
  "whole_line n l \<longleftrightarrow> newline \<notin> set l \<and> length l + 1 < n"

lemma fgets_line:
  assumes "whole_line n l"
  shows "fgets n (l @ newline # r) = Some (l @ [newline], r)"
proof -
  have tw: "takeWhile (\<lambda>c. c \<noteq> newline) (l @ newline # r) = l"
    using assms by (induction l) (auto simp: whole_line_def)
  have "2 \<le> n" "min (n - 1) (length l + 1) = length l + 1"
    using assms by (auto simp: whole_line_def)
  then show ?thesis by (simp add: fgets_def tw Let_def)
qed

lemma file_lines_whole:
  assumes "\<forall>l \<in> set ls. whole_line n l"
  shows "file_lines n (concat (map (\<lambda>l. l @ [newline]) ls)) = map (\<lambda>l. l @ [newline]) ls"
  using assms
proof (induction ls)
  case Nil
  then show ?case by (subst file_lines.simps) (simp add: fgets_def)
next
  case (Cons l ls)
  then show ?case by (subst file_lines.simps) (simp add: fgets_line)
qed

section \<open>Adding and removing\<close>

text \<open>What the environment decides: which of the file operations succeed, and the two clocks.\<close>

record lease_env =
  lease_path :: "string option"
  fopen_ok :: bool
  mkstemp_ok :: bool
  rename_ok :: bool
  upnp_time :: u32
  unix_time :: u32

definition lease_line :: "int \<Rightarrow> port \<Rightarrow> string \<Rightarrow> port \<Rightarrow> u32 \<Rightarrow> string \<Rightarrow> string" where
  "lease_line proto eport iaddr iport timestamp desc =
     proto_itoa proto @ '':'' @ dec (unat eport) @ '':'' @ iaddr @ '':'' @ dec (unat iport) @ '':''
     @ dec (unat timestamp) @ '':'' @ desc"

text \<open>The time of the daemon's clock as a time of the wall clock; 0 stays 0.\<close>

definition to_unix :: "lease_env \<Rightarrow> u32 \<Rightarrow> u32" where
  "to_unix env timestamp =
     (if timestamp \<noteq> 0 then timestamp - upnp_time env + unix_time env else timestamp)"

definition lease_file_add ::
  "lease_env \<Rightarrow> port \<Rightarrow> string \<Rightarrow> port \<Rightarrow> int \<Rightarrow> string \<Rightarrow> u32 \<Rightarrow> string option \<Rightarrow> int \<times> string option" where
  "lease_file_add env eport iaddr iport proto desc timestamp content =
     (case lease_path env of None \<Rightarrow> (0, content)
      | Some _ \<Rightarrow>
        (if \<not> fopen_ok env then (- 1, content)
         else (0, Some ((case content of None \<Rightarrow> [] | Some f \<Rightarrow> f)
                 @ lease_line proto eport iaddr iport (to_unix env timestamp) desc @ [newline]))))"

definition lease_key :: "port \<Rightarrow> int \<Rightarrow> string" where
  "lease_key eport proto = proto_itoa proto @ '':'' @ dec (unat eport)"

definition keep_line :: "string \<Rightarrow> string \<Rightarrow> bool" where
  "keep_line str buf \<longleftrightarrow> length buf < length str \<or> take (length str) buf \<noteq> str"

definition lease_file_remove :: "lease_env \<Rightarrow> port \<Rightarrow> int \<Rightarrow> string option \<Rightarrow> int \<times> string option" where
  "lease_file_remove env eport proto content =
     (case lease_path env of None \<Rightarrow> (0, content)
      | Some path \<Rightarrow>
        (if length path + 7 > 128 then (- 1, content)
         else (case content of None \<Rightarrow> (0, content)
           | Some f \<Rightarrow>
             (if \<not> fopen_ok env then (0, content)
              else if \<not> mkstemp_ok env then (- 1, content)
              else if \<not> rename_ok env then (0, content)
              else (0, Some (concat (filter (keep_line (lease_key eport proto)) (file_lines 511 f))))))))"

section \<open>Parsing a line\<close>

definition find_char :: "char \<Rightarrow> string \<Rightarrow> (string \<times> string) option" where
  "find_char c s = (if c \<in> set s then Some (takeWhile (\<lambda>x. x \<noteq> c) s, tl (dropWhile (\<lambda>x. x \<noteq> c) s)) else None)"

text \<open>\<^verbatim>\<open>strtoul(p, NULL, 10)\<close> converted to 32 bits, for texts without a sign; it saturates at 64 bits.\<close>

definition strtoul10 :: "string \<Rightarrow> u32" where
  "strtoul10 s =
     (let t = skip_space s;
          neg = (take 1 t = ''-'');
          u = (if take 1 t = ''-'' \<or> take 1 t = ''+'' then tl t else t);
          v = dec_val (takeWhile isdigit u)
      in if v \<ge> 2 ^ 64 then word_of_nat (2 ^ 64 - 1)
         else if neg then - word_of_nat v else word_of_nat v)"

text \<open>Cutting the spaces off the description: all in front, and behind all but the first character.\<close>

fun trim_end :: "string \<Rightarrow> string" where
  "trim_end [] = []"
| "trim_end (c # cs) = c # rev (dropWhile isspace (rev cs))"

record lease =
  l_proto :: string
  l_eport :: port
  l_iaddr :: string
  l_iport :: port
  l_desc :: string
  l_duration :: u32
  l_timestamp :: u32

definition parse_lease_line :: "lease_env \<Rightarrow> string \<Rightarrow> lease option" where
  "parse_lease_line env line =
     (case find_char CHR '':'' line of None \<Rightarrow> None | Some (proto, r1) \<Rightarrow>
      (case find_char CHR '':'' r1 of None \<Rightarrow> None | Some (eport, r2) \<Rightarrow>
       (case find_char CHR '':'' r2 of None \<Rightarrow> None | Some (iaddr, r3) \<Rightarrow>
        (case find_char CHR '':'' r3 of None \<Rightarrow> None | Some (iport, r4) \<Rightarrow>
         (case find_char CHR '':'' r4 of None \<Rightarrow> None | Some (ts, desc) \<Rightarrow>
          (let timestamp = strtoul10 ts;
               mk = (\<lambda>dur t. \<lparr>l_proto = proto, l_eport = word_of_int (atoi eport), l_iaddr = iaddr,
                      l_iport = word_of_int (atoi (iport)), l_desc = trim_end (skip_space desc),
                      l_duration = dur, l_timestamp = t\<rparr>)
           in if timestamp > 0 then
                (if timestamp \<le> unix_time env then None
                 else (let dur = timestamp - unix_time env in Some (mk dur (dur + upnp_time env))))
              else Some (mk 0 timestamp)))))))"

section \<open>Lemmas\<close>

lemma find_char_sep: "c \<notin> set t \<Longrightarrow> find_char c (t @ c # r) = Some (t, r)"
proof -
  assume "c \<notin> set t"
  then have "takeWhile (\<lambda>x. x \<noteq> c) (t @ c # r) = t" "dropWhile (\<lambda>x. x \<noteq> c) (t @ c # r) = c # r"
    by (induction t) auto
  then show ?thesis by (simp add: find_char_def)
qed

lemma colon_not_digit: "\<not> isdigit CHR '':''"
  by (simp add: isdigit_def)

lemma colon_dec [simp]: "CHR '':'' \<notin> set (dec n)"
  using dec_digits [of n] colon_not_digit by auto

lemma colon_proto [simp]: "CHR '':'' \<notin> set (proto_itoa p)"
  by (simp add: proto_itoa_def)

lemma strtoul10_dec: "strtoul10 (dec (unat (t::u32))) = t"
proof -
  have "starts_nondigit []" by (simp add: starts_nondigit_def)
  from takeWhile_dec [OF this, of "unat t"] have tw: "takeWhile isdigit (dec (unat t)) = dec (unat t)" by simp
  have "skip_space (dec (unat t)) = dec (unat t)"
    using dec_digits [of "unat t"] by (cases "dec (unat t)") (auto simp: cstr)
  moreover have "take 1 (dec (unat t)) \<noteq> ''-''" "take 1 (dec (unat t)) \<noteq> ''+''"
    using dec_digits [of "unat t"] isdigit_not_sign by (cases "dec (unat t)"; auto)+
  moreover have "unat t < 2 ^ 32"
    by (rule order_less_le_trans [OF unsigned_less]) simp
  then have "unat t < 2 ^ 64" by simp
  ultimately show ?thesis by (simp add: strtoul10_def Let_def tw)
qed

definition clean_desc :: "string \<Rightarrow> bool" where
  "clean_desc d \<longleftrightarrow> d \<noteq> [] \<and> \<not> isspace (hd d) \<and> \<not> isspace (last d)"

lemma trim_clean: "clean_desc d \<Longrightarrow> trim_end (skip_space (d @ [newline])) = d"
proof -
  assume d: "clean_desc d"
  then obtain c cs where cs: "d = c # cs" "\<not> isspace c" by (cases d) (auto simp: clean_desc_def)
  have nl: "isspace newline" by (simp add: newline_def isspace_def)
  have "rev (dropWhile isspace (rev (cs @ [newline]))) = cs"
    using d nl cs by (cases cs rule: rev_cases) (auto simp: clean_desc_def)
  with cs show ?thesis by simp
qed

lemma parse_lease:
  assumes "CHR '':'' \<notin> set iaddr" and "clean_desc desc"
  shows "parse_lease_line env (lease_line proto eport iaddr iport t desc @ [newline])
    = (if t = 0 then Some \<lparr>l_proto = proto_itoa proto, l_eport = eport, l_iaddr = iaddr, l_iport = iport,
                         l_desc = desc, l_duration = 0, l_timestamp = 0\<rparr>
       else if t \<le> unix_time env then None
       else Some \<lparr>l_proto = proto_itoa proto, l_eport = eport, l_iaddr = iaddr, l_iport = iport,
                 l_desc = desc, l_duration = t - unix_time env,
                 l_timestamp = t - unix_time env + upnp_time env\<rparr>)"
proof -
  have port: "word_of_int (atoi (dec (unat p))) = (p::port)" for p
    using unat_port_less [of p] by (simp add: atoi_dec_nil)
  have zero: "strtoul10 ''0'' = 0" using strtoul10_dec [of 0] by simp
  have pos: "0 < t \<longleftrightarrow> t \<noteq> 0" by (simp add: word_neq_0_conv)
  show ?thesis
    using assms
    by (simp add: parse_lease_line_def lease_line_def find_char_sep strtoul10_dec trim_clean port pos zero Let_def)
qed

lemma keep_own_line: "\<not> keep_line (lease_key eport proto) (lease_line proto eport iaddr iport t desc @ r)"
  by (simp add: keep_line_def lease_key_def lease_line_def)

lemma dec_snoc: "0 < n \<Longrightarrow> d < 10 \<Longrightarrow> dec (10 * n + d) = dec n @ [digit_char d]"
  by (subst dec.simps) simp

lemma remove_lines:
  assumes "lease_path env = Some path" "length path + 7 \<le> 128" "fopen_ok env" "mkstemp_ok env" "rename_ok env"
    and "\<forall>l \<in> set ls. whole_line 511 l"
  shows "lease_file_remove env eport proto (Some (concat (map (\<lambda>l. l @ [newline]) ls)))
    = (0, Some (concat (map (\<lambda>l. l @ [newline]) (filter (\<lambda>l. keep_line (lease_key eport proto) (l @ [newline])) ls))))"
  using assms by (simp add: lease_file_remove_def file_lines_whole filter_map comp_def)

section \<open>Properties\<close>

text \<open>The line written for a mapping is read back as the same mapping: protocol, ports, address
  and description unchanged, an expiry time that is over drops the line, and one that lies ahead
  gives the remaining duration on the daemon's clock.\<close>

theorem lease_line_roundtrip:
  assumes "CHR '':'' \<notin> set iaddr" and "clean_desc desc"
  shows "parse_lease_line env (lease_line proto eport iaddr iport t desc @ [newline])
    = (if t = 0 then Some \<lparr>l_proto = proto_itoa proto, l_eport = eport, l_iaddr = iaddr, l_iport = iport,
                         l_desc = desc, l_duration = 0, l_timestamp = 0\<rparr>
       else if t \<le> unix_time env then None
       else Some \<lparr>l_proto = proto_itoa proto, l_eport = eport, l_iaddr = iaddr, l_iport = iport,
                 l_desc = desc, l_duration = t - unix_time env,
                 l_timestamp = t - unix_time env + upnp_time env\<rparr>)"
  using assms by (rule parse_lease)

definition sample_env :: lease_env where
  "sample_env = \<lparr>lease_path = Some ''/var/lib/upnp.leases'', fopen_ok = True, mkstemp_ok = True,
     rename_ok = True, upnp_time = 100, unix_time = 1600000000\<rparr>"

theorem lease_line_roundtrip_witness:
  "parse_lease_line sample_env (lease_line IPPROTO_TCP 8080 ''192.168.0.2'' 80 1600003600 ''web'' @ [newline])
     = Some \<lparr>l_proto = proto_itoa IPPROTO_TCP, l_eport = 8080, l_iaddr = ''192.168.0.2'', l_iport = 80,
             l_desc = ''web'', l_duration = 3600, l_timestamp = 3700\<rparr>"
proof -
  have "clean_desc ''web''" by (simp add: clean_desc_def isspace_def)
  then show ?thesis
    by (subst lease_line_roundtrip) (simp_all add: sample_env_def)
qed

text \<open>Removing the lines of an external port tests a prefix that ends in the port's digits
  without the separator: the line of every port that continues those digits, such as 80 for 8,
  goes with it.\<close>

theorem lease_remove_takes_longer_ports:
  assumes "lease_path env = Some path" "length path + 7 \<le> 128" "fopen_ok env" "mkstemp_ok env" "rename_ok env"
    and "0 < n" "d < 10" "10 * n + d < 65536"
    and "whole_line 511 (lease_line proto (word_of_nat (10 * n + d)) iaddr iport t desc)"
  shows "lease_file_remove env (word_of_nat n) proto
      (Some (lease_line proto (word_of_nat (10 * n + d)) iaddr iport t desc @ [newline])) = (0, Some [])"
proof -
  have "unat (word_of_nat (10 * n + d) :: port) = 10 * n + d" "unat (word_of_nat n :: port) = n"
    by (rule unat_port_of_nat; use assms(8) in simp)+
  then have "\<not> keep_line (lease_key (word_of_nat n) proto)
      (lease_line proto (word_of_nat (10 * n + d)) iaddr iport t desc @ [newline])"
    using assms(6,7) by (simp add: keep_line_def lease_key_def lease_line_def dec_snoc del: of_nat_add)
  then show ?thesis
    using remove_lines [OF assms(1-5), of "[lease_line proto (word_of_nat (10 * n + d)) iaddr iport t desc]"
        "word_of_nat n" proto] assms(9) by simp
qed

theorem lease_remove_takes_longer_ports_witness:
  "lease_file_remove sample_env (word_of_nat 8) IPPROTO_TCP
     (Some (lease_line IPPROTO_TCP (word_of_nat (10 * 8 + 0)) ''10.0.0.2'' 80 0 ''web'' @ [newline])) = (0, Some [])"
proof (rule lease_remove_takes_longer_ports)
  show "whole_line 511 (lease_line IPPROTO_TCP (word_of_nat (10 * 8 + 0)) ''10.0.0.2'' 80 0 ''web'')"
    by (simp add: whole_line_def lease_line_def newline_def dec.simps digit_char_def proto_itoa_def
        ipproto_defs char_of_def)
  show "length ''/var/lib/upnp.leases'' + 7 \<le> 128" by code_simp
qed (simp_all add: sample_env_def)

end
