(* ===== verification/Redirect_Interface.thy ===== *)
theory Redirect_Interface
  imports Lease_File
begin

text \<open>
  The interface between \<^verbatim>\<open>upnpredirect.c\<close> and a firewall backend (\<^verbatim>\<open>commonrdr.h\<close>): the record of the
  operations a backend offers, and the contract as a locale. A backend state denotes a table of
  port mappings, one for an external port and a protocol; each operation is described by what it
  does to that table. \<^verbatim>\<open>Netfilter_Redirect\<close> interprets the locale on the netfilter backend and
  \<^verbatim>\<open>Upnp_Redirect\<close> proves its lemmas inside it.
\<close>

definition snprintip :: "nat \<Rightarrow> ipv4 \<Rightarrow> string" where
  "snprintip n ip = take (n - 1) (dotted ip)"

text \<open>What a lookup writes through its pointers; a remote host of \<open>None\<close> is left as the caller has it.
  The description is the buffer, without a terminator when the text fills it.\<close>

record rdr_info =
  i_iaddr :: string
  i_iport :: port
  i_desc :: string
  i_rhost :: "string option"
  i_timestamp :: u32
  i_packets :: "64 word"
  i_bytes :: "64 word"

record buf_sizes =
  iaddrlen :: nat
  desclen :: nat
  rhostlen :: nat

text \<open>For a peer rule the addresses are the other way round. An internal address of \<open>None\<close> is not
  written: that branch writes the terminator into \<^verbatim>\<open>rhost\<close>.\<close>

record peer_info =
  p_proto :: int
  p_eport :: port
  p_iaddr :: "string option"
  p_iport :: port
  p_rport :: port
  p_desc :: string
  p_rhost :: string
  p_timestamp :: u32
  p_packets :: "64 word"
  p_bytes :: "64 word"

text \<open>A handle freed twice, the use of a variable without a value: the run has no defined result.\<close>

datatype fw_fault = Freed_twice | Uninitialised

record 'st fw_ops =
  op_get :: "buf_sizes \<Rightarrow> port \<Rightarrow> int \<Rightarrow> 'st \<Rightarrow> rdr_info option \<times> 'st"
  op_get_by_index :: "nat \<Rightarrow> buf_sizes \<Rightarrow> 'st \<Rightarrow> (int \<times> port \<times> rdr_info) option \<times> 'st"
  op_add :: "string option \<Rightarrow> port \<Rightarrow> string \<Rightarrow> port \<Rightarrow> int \<Rightarrow> string option \<Rightarrow> u32 \<Rightarrow> 'st \<Rightarrow> int \<times> 'st"
  op_add_filter :: "string option \<Rightarrow> string \<Rightarrow> port \<Rightarrow> port \<Rightarrow> int \<Rightarrow> 'st \<Rightarrow> int \<times> 'st"
  op_update :: "port \<Rightarrow> int \<Rightarrow> port \<Rightarrow> string option \<Rightarrow> u32 \<Rightarrow> 'st \<Rightarrow> int \<times> 'st"
  op_update_desc :: "port \<Rightarrow> int \<Rightarrow> string option \<Rightarrow> u32 \<Rightarrow> 'st \<Rightarrow> int \<times> 'st"
  op_delete :: "port \<Rightarrow> int \<Rightarrow> 'st \<Rightarrow> (fw_fault + int) \<times> 'st"
  op_in_range :: "port \<Rightarrow> port \<Rightarrow> int \<Rightarrow> 'st \<Rightarrow> port list option \<times> 'st"
  op_peer_by_index :: "nat \<Rightarrow> buf_sizes \<Rightarrow> 'st \<Rightarrow> peer_info option \<times> 'st"

section \<open>The table a backend keeps\<close>

text \<open>A remote host of 0 stands for every host.\<close>

record portmap =
  mp_iaddr :: ipv4
  mp_iport :: port
  mp_rhost :: ipv4
  mp_desc :: string
  mp_timestamp :: u32

type_synonym portmaps = "port \<times> int \<Rightarrow> portmap option"

definition INADDR_NONE :: ipv4 where "INADDR_NONE = 0xFFFFFFFF"

definition inet_addr :: "string \<Rightarrow> ipv4" where
  "inet_addr s = (case inet_aton s of None \<Rightarrow> INADDR_NONE | Some a \<Rightarrow> a)"

text \<open>An address argument that restricts a rule: present, not empty and not the wildcard.\<close>

definition host_given :: "string option \<Rightarrow> bool" where
  "host_given h = (case h of None \<Rightarrow> False | Some s \<Rightarrow> s \<noteq> [] \<and> s \<noteq> ''*'')"

definition host_addr :: "string option \<Rightarrow> ipv4" where
  "host_addr h = (if host_given h then inet_addr (the h) else 0)"

definition desc_or_default :: "string option \<Rightarrow> string" where
  "desc_or_default desc = (case desc of None \<Rightarrow> ''miniupnpd'' | Some d \<Rightarrow> d)"

definition new_portmap :: "string option \<Rightarrow> string \<Rightarrow> port \<Rightarrow> string option \<Rightarrow> u32 \<Rightarrow> portmap" where
  "new_portmap rhost iaddr iport desc timestamp =
     \<lparr>mp_iaddr = inet_addr iaddr, mp_iport = iport, mp_rhost = host_addr rhost,
      mp_desc = desc_or_default desc, mp_timestamp = timestamp\<rparr>"

definition shows_portmap :: "buf_sizes \<Rightarrow> string option \<Rightarrow> portmap \<Rightarrow> rdr_info \<Rightarrow> bool" where
  "shows_portmap b no_host m i \<longleftrightarrow>
     i_iaddr i = snprintip (iaddrlen b) (mp_iaddr m) \<and> i_iport i = mp_iport m
     \<and> i_desc i = strncpy (mp_desc m) (desclen b)
     \<and> i_rhost i = (if mp_rhost m = 0 then no_host else Some (snprintip (rhostlen b) (mp_rhost m)))
     \<and> i_timestamp i = mp_timestamp m"

text \<open>A change of the table that touches only mappings to the address \<open>a\<close>: it neither adds, rewrites nor
  removes a mapping of another client.\<close>

definition own_changes :: "ipv4 \<Rightarrow> portmaps \<Rightarrow> portmaps \<Rightarrow> bool" where
  "own_changes a T T' \<longleftrightarrow> (\<forall>k. T' k = T k
     \<or> (\<forall>m. T k = Some m \<or> T' k = Some m \<longrightarrow> mp_iaddr m = a))"

lemma own_changes_refl [simp]: "own_changes a T T"
  by (simp add: own_changes_def)

lemma own_changes_map: "own_changes a T T' \<Longrightarrow> T k = Some m \<Longrightarrow> mp_iaddr m \<noteq> a \<Longrightarrow> T' k = Some m"
  by (metis own_changes_def)

locale redirect_backend =
  fixes ops :: "'st fw_ops"
    and ok :: "'st \<Rightarrow> bool"
    and table_of :: "'st \<Rightarrow> portmaps"
    and keys_of :: "'st \<Rightarrow> (port \<times> int) list"
  assumes keys_distinct: "ok st \<Longrightarrow> distinct (keys_of st)"
    and keys_dom: "ok st \<Longrightarrow> set (keys_of st) = dom (table_of st)"
    and get_none: "\<lbrakk>ok st; table_of st (eport, proto) = None\<rbrakk> \<Longrightarrow> op_get ops b eport proto st = (None, st)"
    and get_some: "\<lbrakk>ok st; table_of st (eport, proto) = Some m\<rbrakk>
      \<Longrightarrow> \<exists>i. op_get ops b eport proto st = (Some i, st) \<and> shows_portmap b None m i"
    and index_none: "\<lbrakk>ok st; length (keys_of st) \<le> n\<rbrakk> \<Longrightarrow> op_get_by_index ops n b st = (None, st)"
    and index_some: "\<lbrakk>ok st; n < length (keys_of st); keys_of st ! n = (eport, proto)\<rbrakk>
      \<Longrightarrow> \<exists>i. op_get_by_index ops n b st = (Some (proto, eport, i), st)
              \<and> (\<exists>m. table_of st (eport, proto) = Some m \<and> shows_portmap b (Some []) m i)"
    and add_rule: "\<lbrakk>ok st; valid_proto proto; table_of st (eport, proto) = None\<rbrakk>
      \<Longrightarrow> \<exists>st1 st2. op_add ops rhost eport iaddr iport proto desc ts st = (0, st1)
            \<and> op_add_filter ops rhost iaddr eport iport proto st1 = (0, st2) \<and> ok st2
            \<and> table_of st2 = (table_of st)((eport, proto) \<mapsto> new_portmap rhost iaddr iport desc ts)"
    and update_rule: "\<lbrakk>ok st; valid_proto proto; table_of st (eport, proto) = Some m\<rbrakk>
      \<Longrightarrow> \<exists>st'. op_update ops eport proto iport desc ts st = (0, st') \<and> ok st'
            \<and> table_of st' = (table_of st)((eport, proto) \<mapsto>
                m\<lparr>mp_iport := iport, mp_desc := desc_or_default desc, mp_timestamp := ts\<rparr>)"
    and update_desc: "\<lbrakk>ok st; valid_proto proto; table_of st (eport, proto) = Some m\<rbrakk>
      \<Longrightarrow> \<exists>st'. op_update_desc ops eport proto desc ts st = (0, st') \<and> ok st'
            \<and> table_of st' = (table_of st)((eport, proto) \<mapsto>
                m\<lparr>mp_desc := desc_or_default desc, mp_timestamp := ts\<rparr>)"
    and delete_rule: "\<lbrakk>ok st; valid_proto proto; table_of st (eport, proto) = Some m\<rbrakk>
      \<Longrightarrow> \<exists>st'. op_delete ops eport proto st = (Inr 0, st') \<and> ok st'
            \<and> table_of st' = (table_of st)((eport, proto) := None)
            \<and> keys_of st' = remove1 (eport, proto) (keys_of st)"
    and delete_missing: "\<lbrakk>ok st; valid_proto proto; table_of st (eport, proto) = None\<rbrakk>
      \<Longrightarrow> \<exists>r st'. op_delete ops eport proto st = (Inr r, st') \<and> ok st' \<and> table_of st' = table_of st"

text \<open>A table for protocol numbers that a \<^verbatim>\<open>short\<close> holds.\<close>

definition valid_table :: "portmaps \<Rightarrow> bool" where
  "valid_table T \<longleftrightarrow> (\<forall>k \<in> dom T. valid_proto (snd k))"

lemma valid_table_none: "valid_table T \<Longrightarrow> \<not> valid_proto proto \<Longrightarrow> T (eport, proto) = None"
  by (cases "T (eport, proto)") (auto simp: valid_table_def dom_def)

text \<open>A backend that keeps rules of outgoing connections (peers) beside the mappings, each with external port, protocol
  and expiry time. A peer rule that shares port and protocol with a mapping shares its expiry time as well.\<close>

locale peer_backend = redirect_backend ops ok table_of keys_of
  for ops :: "'st fw_ops" and ok :: "'st \<Rightarrow> bool" and table_of :: "'st \<Rightarrow> portmaps"
    and keys_of :: "'st \<Rightarrow> (port \<times> int) list" +
  fixes peers_of :: "'st \<Rightarrow> (port \<times> int \<times> u32) list"
  assumes peer_none: "\<lbrakk>ok st; length (peers_of st) \<le> n\<rbrakk> \<Longrightarrow> op_peer_by_index ops n b st = (None, st)"
    and peer_some: "\<lbrakk>ok st; n < length (peers_of st)\<rbrakk>
      \<Longrightarrow> \<exists>i. op_peer_by_index ops n b st = (Some i, st) \<and> peers_of st ! n = (p_eport i, p_proto i, p_timestamp i)"
    and peer_range: "\<lbrakk>ok st; (eport, proto, ts) \<in> set (peers_of st)\<rbrakk> \<Longrightarrow> 0 \<le> proto \<and> proto < 65536"
    and peer_time: "\<lbrakk>ok st; (eport, proto, ts) \<in> set (peers_of st); table_of st (eport, proto) = Some m\<rbrakk>
      \<Longrightarrow> ts = mp_timestamp m"
    and delete_unknown: "\<lbrakk>ok st; valid_table (table_of st); \<not> valid_proto proto\<rbrakk>
      \<Longrightarrow> \<exists>r st'. op_delete ops eport proto st = (Inr r, st') \<and> ok st' \<and> table_of st' = table_of st"

text \<open>A backend that also lists the ports it maps.\<close>

locale listing_backend = peer_backend ops ok table_of keys_of peers_of
  for ops :: "'st fw_ops" and ok :: "'st \<Rightarrow> bool" and table_of :: "'st \<Rightarrow> portmaps"
    and keys_of :: "'st \<Rightarrow> (port \<times> int) list" and peers_of :: "'st \<Rightarrow> (port \<times> int \<times> u32) list" +
  assumes in_range: "ok st \<Longrightarrow> \<exists>l. op_in_range ops startport endport proto st = (Some l, st) \<and> distinct l
      \<and> set l = {p. startport \<le> p \<and> p \<le> endport \<and> table_of st (p, proto) \<noteq> None}"

end
