(* ===== verification/Netfilter_Redirect.thy ===== *)
theory Netfilter_Redirect
  imports Redirect_Interface "HOL-Library.Multiset"
begin

text \<open>
  The netfilter backend, \<^verbatim>\<open>netfilter/iptcrdr.c\<close>: building the entries of the nat, filter and mangle
  tables, and the operations on port mappings over them. The packet filter itself (libiptc and the
  kernel) is kept as the lists of entries of its chains; every call of libiptc that can fail
  takes its outcome from the list \<open>outcomes\<close> of the state (an empty list: it succeeds), so that each
  error path of the code is a path of the model. Memory allocation succeeds.
\<close>

section \<open>Entries of a table\<close>

record ipt_match =
  m_name :: string
  m_spts :: "port \<times> port"
  m_dpts :: "port \<times> port"

text \<open>The range of a NAT target; a DSCP target has only its value, ACCEPT has neither.\<close>

record ipt_target =
  t_name :: string
  t_min_ip :: ipv4
  t_max_ip :: ipv4
  t_min_port :: port
  t_max_port :: port
  t_flags :: nat
  t_dscp :: "8 word"

record ipt_entry =
  e_proto :: "16 word"
  e_src :: ipv4
  e_smsk :: ipv4
  e_dst :: ipv4
  e_dmsk :: ipv4
  e_match :: ipt_match
  e_target :: ipt_target
  e_pcnt :: "64 word"
  e_bcnt :: "64 word"

definition IP_NAT_RANGE_MAP_IPS :: nat where "IP_NAT_RANGE_MAP_IPS = 1"
definition IP_NAT_RANGE_PROTO_SPECIFIED :: nat where "IP_NAT_RANGE_PROTO_SPECIFIED = 2"
text \<open>The pair of ports of a match: all of them for 0, otherwise the one.\<close>

definition port_span :: "port \<Rightarrow> port \<times> port" where
  "port_span p = (if p = 0 then (0, 0xFFFF) else (p, p))"

definition get_tcp_match :: "port \<Rightarrow> port \<Rightarrow> ipt_match" where
  "get_tcp_match dport sport = \<lparr>m_name = ''tcp'', m_spts = port_span sport, m_dpts = port_span dport\<rparr>"

definition get_udp_match :: "port \<Rightarrow> port \<Rightarrow> ipt_match" where
  "get_udp_match dport sport = \<lparr>m_name = ''udp'', m_spts = port_span sport, m_dpts = port_span dport\<rparr>"

definition proto_match :: "int \<Rightarrow> port \<Rightarrow> port \<Rightarrow> ipt_match" where
  "proto_match proto dport sport =
     (if proto = IPPROTO_TCP then get_tcp_match dport sport else get_udp_match dport sport)"

definition get_dnat_target :: "string \<Rightarrow> port \<Rightarrow> ipt_target" where
  "get_dnat_target daddr dport =
     \<lparr>t_name = ''DNAT'', t_min_ip = inet_addr daddr, t_max_ip = inet_addr daddr,
      t_min_port = dport, t_max_port = dport,
      t_flags = IP_NAT_RANGE_MAP_IPS + IP_NAT_RANGE_PROTO_SPECIFIED, t_dscp = 0\<rparr>"

definition get_snat_target :: "string \<Rightarrow> port \<Rightarrow> ipt_target" where
  "get_snat_target saddr sport =
     \<lparr>t_name = ''SNAT'', t_min_ip = inet_addr saddr, t_max_ip = inet_addr saddr,
      t_min_port = sport, t_max_port = sport,
      t_flags = IP_NAT_RANGE_MAP_IPS + IP_NAT_RANGE_PROTO_SPECIFIED, t_dscp = 0\<rparr>"

definition get_masquerade_target :: "port \<Rightarrow> ipt_target" where
  "get_masquerade_target port =
     \<lparr>t_name = ''MASQUERADE'', t_min_ip = 0, t_max_ip = 0, t_min_port = port, t_max_port = port,
      t_flags = IP_NAT_RANGE_PROTO_SPECIFIED, t_dscp = 0\<rparr>"

definition get_dscp_target :: "8 word \<Rightarrow> ipt_target" where
  "get_dscp_target dscp =
     \<lparr>t_name = ''DSCP'', t_min_ip = 0, t_max_ip = 0, t_min_port = 0, t_max_port = 0,
      t_flags = 0, t_dscp = dscp\<rparr>"

definition get_accept_target :: ipt_target where
  "get_accept_target =
     \<lparr>t_name = ''ACCEPT'', t_min_ip = 0, t_max_ip = 0, t_min_port = 0, t_max_port = 0,
      t_flags = 0, t_dscp = 0\<rparr>"

definition host_mask :: "string option \<Rightarrow> ipv4" where
  "host_mask h = (if host_given h then INADDR_NONE else 0)"

section \<open>The tables, and the calls of libiptc\<close>

datatype table = Nat | Filter | Mangle

record rdr_desc =
  d_timestamp :: u32
  d_eport :: port
  d_proto :: "16 word"
  d_str :: string

record nf =
  tables :: "table \<Rightarrow> string \<Rightarrow> ipt_entry list option"
  outcomes :: "bool list"
  nat_chain :: string
  post_chain :: string
  forward_chain :: string
  rdr_desc_list :: "rdr_desc list"
  port_triggering :: bool

datatype rdr_name_type = RDR_TABLE_NAME | RDR_NAT_PREROUTING_CHAIN_NAME
  | RDR_NAT_POSTROUTING_CHAIN_NAME | RDR_FORWARD_CHAIN_NAME

definition set_rdr_name :: "rdr_name_type \<Rightarrow> string option \<Rightarrow> nf \<Rightarrow> int \<times> nf" where
  "set_rdr_name param str s =
     (case str of None \<Rightarrow> (- 1, s)
      | Some name \<Rightarrow>
        (if length name > 30 \<or> name = [] then (- 1, s)
         else (case param of
             RDR_NAT_PREROUTING_CHAIN_NAME \<Rightarrow> (0, s\<lparr>nat_chain := name\<rparr>)
           | RDR_NAT_POSTROUTING_CHAIN_NAME \<Rightarrow> (0, s\<lparr>post_chain := name\<rparr>)
           | RDR_FORWARD_CHAIN_NAME \<Rightarrow> (0, s\<lparr>forward_chain := name\<rparr>)
           | RDR_TABLE_NAME \<Rightarrow> (- 2, s))))"

definition iptc_call :: "nf \<Rightarrow> bool \<times> nf" where
  "iptc_call s = (case outcomes s of [] \<Rightarrow> (True, s) | b # bs \<Rightarrow> (b, s\<lparr>outcomes := bs\<rparr>))"

definition set_table :: "table \<Rightarrow> string \<Rightarrow> ipt_entry list \<Rightarrow> nf \<Rightarrow> nf" where
  "set_table t c es s = s\<lparr>tables := (tables s)(t := (tables s t)(c := Some es))\<rparr>"

text \<open>An edit of a chain followed by \<^verbatim>\<open>iptc_commit\<close>: the chain changes when both succeed. An edit of a
  missing chain, or at an index out of range, fails.\<close>

definition iptc_edit_commit ::
  "table \<Rightarrow> string \<Rightarrow> (ipt_entry list \<Rightarrow> ipt_entry list option) \<Rightarrow> nf \<Rightarrow> int \<times> nf" where
  "iptc_edit_commit t c f s =
     (let (edit_ok, s1) = iptc_call s in
      case (if edit_ok then Option.bind (tables s1 t c) f else None) of
        None \<Rightarrow> (- 1, s1)
      | Some es \<Rightarrow>
        (let (commit_ok, s2) = iptc_call s1
         in if commit_ok then (0, set_table t c es s2) else (- 1, s2)))"

definition init_redirect :: "nf \<Rightarrow> int \<times> nf" where
  "init_redirect s = (let (ok, s1) = iptc_call s in (if ok then 0 else - 1, s1))"

definition iptc_init_verify_and_append :: "table \<Rightarrow> string \<Rightarrow> ipt_entry \<Rightarrow> nf \<Rightarrow> int \<times> nf" where
  "iptc_init_verify_and_append t c e s =
     (let (ok, s1) = iptc_call s in
      if \<not> ok then (- 1, s1)
      else if tables s1 t c = None then (- 1, s1)
      else iptc_edit_commit t c (\<lambda>es. Some (es @ [e])) s1)"

definition delete_rule_and_commit :: "nat \<Rightarrow> table \<Rightarrow> string \<Rightarrow> nf \<Rightarrow> int \<times> nf" where
  "delete_rule_and_commit index t c s =
     iptc_edit_commit t c (\<lambda>es. if index < length es then Some (delete_nth index es) else None) s"

definition update_rule_and_commit :: "table \<Rightarrow> string \<Rightarrow> nat \<Rightarrow> ipt_entry \<Rightarrow> nf \<Rightarrow> int \<times> nf" where
  "update_rule_and_commit t c index e s =
     (let (ok, s1) = iptc_call s in
      if \<not> ok then (- 1, s1)
      else iptc_edit_commit t c (\<lambda>es. if index < length es then Some (es[index := e]) else None) s1)"

section \<open>Descriptions\<close>

text \<open>Netfilter cannot store the description and the expiry time of a mapping; a list keeps them,
  the newest first.\<close>

definition add_redirect_desc :: "port \<Rightarrow> int \<Rightarrow> string option \<Rightarrow> u32 \<Rightarrow> rdr_desc list \<Rightarrow> rdr_desc list" where
  "add_redirect_desc eport proto desc timestamp l =
     \<lparr>d_timestamp = timestamp, d_eport = eport, d_proto = word_of_int proto,
      d_str = desc_or_default desc\<rparr> # l"

definition del_redirect_desc :: "port \<Rightarrow> int \<Rightarrow> rdr_desc list \<Rightarrow> rdr_desc list" where
  "del_redirect_desc eport proto l =
     remove_first (\<lambda>p. d_eport p = eport \<and> sint (d_proto p) = proto) l"

definition get_redirect_desc :: "port \<Rightarrow> int \<Rightarrow> nat \<Rightarrow> rdr_desc list \<Rightarrow> string \<times> u32" where
  "get_redirect_desc eport proto n l =
     (case find (\<lambda>p. d_eport p = eport \<and> d_proto p = word_of_int proto) l of
        Some p \<Rightarrow> (strncpy (d_str p) n, d_timestamp p)
      | None \<Rightarrow> (strncpy ''miniupnpd'' n, 0))"

section \<open>Adding rules\<close>

definition nat_entry :: "int \<Rightarrow> port \<Rightarrow> string \<Rightarrow> port \<Rightarrow> string option \<Rightarrow> ipt_entry" where
  "nat_entry proto eport iaddr iport rhost =
     \<lparr>e_proto = word_of_int proto, e_src = host_addr rhost, e_smsk = host_mask rhost,
      e_dst = 0, e_dmsk = 0, e_match = proto_match proto eport 0,
      e_target = get_dnat_target iaddr iport, e_pcnt = 0, e_bcnt = 0\<rparr>"

definition addnatrule :: "int \<Rightarrow> port \<Rightarrow> string \<Rightarrow> port \<Rightarrow> string option \<Rightarrow> nf \<Rightarrow> int \<times> nf" where
  "addnatrule proto eport iaddr iport rhost s =
     iptc_init_verify_and_append Nat (nat_chain s) (nat_entry proto eport iaddr iport rhost) s"

definition addmasqueraderule :: "int \<Rightarrow> port \<Rightarrow> string \<Rightarrow> port \<Rightarrow> string option \<Rightarrow> nf \<Rightarrow> int \<times> nf" where
  "addmasqueraderule proto eport iaddr iport rhost s =
     iptc_init_verify_and_append Nat (post_chain s)
       \<lparr>e_proto = word_of_int proto, e_src = host_addr (Some iaddr), e_smsk = host_mask (Some iaddr),
        e_dst = host_addr rhost, e_dmsk = host_mask rhost, e_match = proto_match proto 0 iport,
        e_target = get_masquerade_target eport, e_pcnt = 0, e_bcnt = 0\<rparr> s"

definition addpeernatrule ::
  "int \<Rightarrow> string \<Rightarrow> port \<Rightarrow> string \<Rightarrow> port \<Rightarrow> string option \<Rightarrow> port \<Rightarrow> nf \<Rightarrow> int \<times> nf" where
  "addpeernatrule proto eaddr eport iaddr iport rhost rport s =
     iptc_init_verify_and_append Nat (post_chain s)
       \<lparr>e_proto = word_of_int proto, e_src = host_addr (Some iaddr), e_smsk = host_mask (Some iaddr),
        e_dst = host_addr rhost, e_dmsk = host_mask rhost, e_match = proto_match proto rport iport,
        e_target = get_snat_target eaddr eport, e_pcnt = 0, e_bcnt = 0\<rparr> s"

definition addpeerdscprule ::
  "int \<Rightarrow> 8 word \<Rightarrow> string \<Rightarrow> port \<Rightarrow> string option \<Rightarrow> port \<Rightarrow> nf \<Rightarrow> int \<times> nf" where
  "addpeerdscprule proto dscp iaddr iport rhost rport s =
     iptc_init_verify_and_append Mangle (nat_chain s)
       \<lparr>e_proto = word_of_int proto, e_src = host_addr (Some iaddr), e_smsk = host_mask (Some iaddr),
        e_dst = host_addr rhost, e_dmsk = host_mask rhost, e_match = proto_match proto rport iport,
        e_target = get_dscp_target dscp, e_pcnt = 0, e_bcnt = 0\<rparr> s"

definition filter_entry :: "int \<Rightarrow> string option \<Rightarrow> string \<Rightarrow> port \<Rightarrow> ipt_entry" where
  "filter_entry proto rhost iaddr iport =
     \<lparr>e_proto = word_of_int proto, e_src = host_addr rhost, e_smsk = host_mask rhost,
      e_dst = inet_addr iaddr, e_dmsk = INADDR_NONE, e_match = proto_match proto iport 0,
      e_target = get_accept_target, e_pcnt = 0, e_bcnt = 0\<rparr>"

definition add_filter_rule :: "int \<Rightarrow> string option \<Rightarrow> string \<Rightarrow> port \<Rightarrow> nf \<Rightarrow> int \<times> nf" where
  "add_filter_rule proto rhost iaddr iport s =
     iptc_init_verify_and_append Filter (forward_chain s) (filter_entry proto rhost iaddr iport) s"

definition add_filter_rule2 :: "string option \<Rightarrow> string \<Rightarrow> port \<Rightarrow> port \<Rightarrow> int \<Rightarrow> nf \<Rightarrow> int \<times> nf" where
  "add_filter_rule2 rhost iaddr eport iport proto s = add_filter_rule proto rhost iaddr iport s"

definition add_redirect_rule2 ::
  "string option \<Rightarrow> port \<Rightarrow> string \<Rightarrow> port \<Rightarrow> int \<Rightarrow> string option \<Rightarrow> u32 \<Rightarrow> nf \<Rightarrow> int \<times> nf" where
  "add_redirect_rule2 rhost eport iaddr iport proto desc timestamp s =
     (let (r, s1) = addnatrule proto eport iaddr iport rhost s in
      if r \<ge> 0 then
        (let s2 = s1\<lparr>rdr_desc_list := add_redirect_desc eport proto desc timestamp (rdr_desc_list s1)\<rparr>
         in if port_triggering s2 then addmasqueraderule proto eport iaddr iport rhost s2 else (r, s2))
      else (r, s1))"

definition add_peer_redirect_rule2 ::
  "string option \<Rightarrow> port \<Rightarrow> string \<Rightarrow> port \<Rightarrow> string \<Rightarrow> port \<Rightarrow> int \<Rightarrow> string option \<Rightarrow> u32 \<Rightarrow> nf \<Rightarrow> int \<times> nf"
  where
  "add_peer_redirect_rule2 rhost rport eaddr eport iaddr iport proto desc timestamp s =
     (let (r, s1) = addpeernatrule proto eaddr eport iaddr iport rhost rport s in
      if r \<ge> 0 then (r, s1\<lparr>rdr_desc_list := add_redirect_desc eport proto desc timestamp (rdr_desc_list s1)\<rparr>)
      else (r, s1))"

definition add_peer_dscp_rule2 ::
  "string option \<Rightarrow> port \<Rightarrow> 8 word \<Rightarrow> string \<Rightarrow> port \<Rightarrow> int \<Rightarrow> nf \<Rightarrow> int \<times> nf" where
  "add_peer_dscp_rule2 rhost rport dscp iaddr iport proto s =
     addpeerdscprule proto dscp iaddr iport rhost rport s"

section \<open>Looking rules up\<close>

text \<open>The protocol and the first destination port of an entry; both branches of the code read the
  port at the same place.\<close>

definition matches_dport :: "int \<Rightarrow> port \<Rightarrow> ipt_entry \<Rightarrow> bool" where
  "matches_dport proto eport e \<longleftrightarrow> proto = uint (e_proto e) \<and> eport = fst (m_dpts (e_match e))"

definition rule_of_entry :: "buf_sizes \<Rightarrow> port \<Rightarrow> int \<Rightarrow> string option \<Rightarrow> rdr_desc list \<Rightarrow> ipt_entry \<Rightarrow> rdr_info" where
  "rule_of_entry b eport proto no_host descs e =
     (let (d, ts) = get_redirect_desc eport proto (desclen b) descs in
      \<lparr>i_iaddr = snprintip (iaddrlen b) (t_min_ip (e_target e)), i_iport = t_min_port (e_target e),
       i_desc = d,
       i_rhost = (if e_src e \<noteq> 0 then Some (snprintip (rhostlen b) (e_src e)) else no_host),
       i_timestamp = ts, i_packets = e_pcnt e, i_bytes = e_bcnt e\<rparr>)"

definition get_nat_redirect_rule :: "string \<Rightarrow> buf_sizes \<Rightarrow> port \<Rightarrow> int \<Rightarrow> nf \<Rightarrow> rdr_info option \<times> nf" where
  "get_nat_redirect_rule chain b eport proto s =
     (let (ok, s1) = iptc_call s in
      if \<not> ok then (None, s1)
      else (case tables s1 Nat chain of None \<Rightarrow> (None, s1)
        | Some es \<Rightarrow>
          (map_option (rule_of_entry b eport proto None (rdr_desc_list s1)) (find (matches_dport proto eport) es), s1)))"

definition nf_get_redirect_rule :: "buf_sizes \<Rightarrow> port \<Rightarrow> int \<Rightarrow> nf \<Rightarrow> rdr_info option \<times> nf" where
  "nf_get_redirect_rule b eport proto s = get_nat_redirect_rule (nat_chain s) b eport proto s"

definition nf_get_redirect_rule_by_index ::
  "nat \<Rightarrow> buf_sizes \<Rightarrow> nf \<Rightarrow> (int \<times> port \<times> rdr_info) option \<times> nf" where
  "nf_get_redirect_rule_by_index index b s =
     (let (ok, s1) = iptc_call s in
      if \<not> ok then (None, s1)
      else (case tables s1 Nat (nat_chain s1) of None \<Rightarrow> (None, s1)
        | Some es \<Rightarrow>
          (if index < length es
           then (let e = es ! index; proto = uint (e_proto e); eport = fst (m_dpts (e_match e))
                 in (Some (proto, eport, rule_of_entry b eport proto (Some []) (rdr_desc_list s1) e), s1))
           else (None, s1))))"

definition get_peer_rule_by_index :: "nat \<Rightarrow> buf_sizes \<Rightarrow> nf \<Rightarrow> peer_info option \<times> nf" where
  "get_peer_rule_by_index index b s =
     (let (ok, s1) = iptc_call s in
      if \<not> ok then (None, s1)
      else (case tables s1 Nat (post_chain s1) of None \<Rightarrow> (None, s1)
        | Some es \<Rightarrow>
          (if index < length es
           then (let e = es ! index; proto = uint (e_proto e); eport = t_min_port (e_target e);
                     (d, ts) = get_redirect_desc eport proto (desclen b) (rdr_desc_list s1)
                 in (Some \<lparr>p_proto = proto, p_eport = eport,
                      p_iaddr = (if e_src e \<noteq> 0 then Some (snprintip (iaddrlen b) (e_src e)) else None),
                      p_iport = fst (m_spts (e_match e)), p_rport = fst (m_dpts (e_match e)), p_desc = d,
                      p_rhost = (if e_src e = 0 \<or> e_dst e = 0 then []
                                 else snprintip (rhostlen b) (e_dst e)),
                      p_timestamp = ts, p_packets = e_pcnt e, p_bytes = e_bcnt e\<rparr>, s1))
           else (None, s1))))"

definition nf_get_portmappings_in_range :: "port \<Rightarrow> port \<Rightarrow> int \<Rightarrow> nf \<Rightarrow> port list option \<times> nf" where
  "nf_get_portmappings_in_range startport endport proto s =
     (let (ok, s1) = iptc_call s in
      if \<not> ok then (None, s1)
      else (case tables s1 Nat (nat_chain s1) of None \<Rightarrow> (None, s1)
        | Some es \<Rightarrow>
          (Some (filter (\<lambda>p. startport \<le> p \<and> p \<le> endport)
             (map (\<lambda>e. fst (m_dpts (e_match e))) (filter (\<lambda>e. proto = uint (e_proto e)) es))), s1)))"

section \<open>Deleting rules\<close>

definition delete_filter_rule :: "port \<Rightarrow> int \<Rightarrow> nf \<Rightarrow> int \<times> nf" where
  "delete_filter_rule port proto s =
     (let (ok, s1) = iptc_call s in
      if \<not> ok then (- 1, s1)
      else (case Option.bind (tables s1 Filter (forward_chain s1)) (find_index (matches_dport proto port)) of
          None \<Rightarrow> (- 1, s1)
        | Some index \<Rightarrow> delete_rule_and_commit index Filter (forward_chain s1) s1))"

definition matches_filter :: "int \<Rightarrow> port \<Rightarrow> ipv4 \<Rightarrow> ipt_entry \<Rightarrow> bool" where
  "matches_filter proto iport iaddr e \<longleftrightarrow> matches_dport proto iport e \<and> iaddr = e_dst e"

text \<open>The nat rule at an index and the filter rule of its target. The result is the value of
  \<^verbatim>\<open>r\<close>; \<^verbatim>\<open>delete_rule_and_commit\<close> frees its handle, and when the nat rule could not be deleted
  the handle is freed again.\<close>

definition delete_nat_and_filter :: "int \<Rightarrow> nat \<Rightarrow> ipv4 \<Rightarrow> port \<Rightarrow> nf \<Rightarrow> (fw_fault + int) \<times> nf" where
  "delete_nat_and_filter proto index iaddr iport s =
     (let (nat_ok, s1) = iptc_call s;
          (r, s2) = (if nat_ok then delete_rule_and_commit index Nat (nat_chain s1) s1 else (0, s1))
      in if r \<noteq> 0 then (Inl Freed_twice, s2)
         else (let (filter_ok, s3) = iptc_call s2 in
           if \<not> filter_ok then (Inr r, s3)
           else (case Option.bind (tables s3 Filter (forward_chain s3))
                     (find_index (matches_filter proto iport iaddr)) of
               None \<Rightarrow> (Inr r, s3)
             | Some i \<Rightarrow>
               (let (r', s4) = delete_rule_and_commit i Filter (forward_chain s3) s3 in (Inr r', s4)))))"

definition matches_peer :: "int \<Rightarrow> port \<Rightarrow> ipt_entry \<Rightarrow> bool" where
  "matches_peer proto eport e \<longleftrightarrow> proto = uint (e_proto e) \<and> eport = t_min_port (e_target e)"

definition matches_dscp :: "int \<Rightarrow> port \<Rightarrow> ipv4 \<Rightarrow> ipt_entry \<Rightarrow> bool" where
  "matches_dscp proto iport iaddr e \<longleftrightarrow>
     proto = uint (e_proto e) \<and> iport = fst (m_spts (e_match e)) \<and> iaddr = e_src e"

text \<open>The peer rule of the external port, and the DSCP rule of its source. The result is \<^verbatim>\<open>r2\<close>.\<close>

definition delete_peer_and_dscp :: "port \<Rightarrow> int \<Rightarrow> nf \<Rightarrow> int \<times> nf" where
  "delete_peer_and_dscp eport proto s =
     (let (nat_ok, s1) = iptc_call s in
      if \<not> nat_ok then (- 1, s1)
      else (case tables s1 Nat (post_chain s1) of None \<Rightarrow> (- 1, s1)
        | Some es \<Rightarrow>
          (case find_index (matches_peer proto eport) es of None \<Rightarrow> (- 1, s1)
           | Some i \<Rightarrow>
             (let e = es ! i; iaddr = e_src e; iport = fst (m_spts (e_match e));
                  (r2, s2) = delete_rule_and_commit i Nat (post_chain s1) s1
              in if r2 \<noteq> 0 then (r2, s2)
                 else (let (mangle_ok, s3) = iptc_call s2 in
                   if \<not> mangle_ok then (r2, s3)
                   else (case Option.bind (tables s3 Mangle (nat_chain s3))
                             (find_index (matches_dscp proto iport iaddr)) of
                       None \<Rightarrow> (r2, s3)
                     | Some j \<Rightarrow> delete_rule_and_commit j Mangle (nat_chain s3) s3))))))"

definition nf_delete_redirect_and_filter_rules :: "port \<Rightarrow> int \<Rightarrow> nf \<Rightarrow> (fw_fault + int) \<times> nf" where
  "nf_delete_redirect_and_filter_rules eport proto s =
     (let (ok, s1) = iptc_call s in
      if \<not> ok then (Inr (- 1), s1)
      else (let (r, s2) =
              (case tables s1 Nat (nat_chain s1) of None \<Rightarrow> (Inr (- 1), s1)
               | Some es \<Rightarrow>
                 (case find_index (matches_dport proto eport) es of None \<Rightarrow> (Inr (- 1), s1)
                  | Some i \<Rightarrow> delete_nat_and_filter proto i (t_min_ip (e_target (es ! i)))
                                (t_min_port (e_target (es ! i))) s1))
            in case r of Inl f \<Rightarrow> (Inl f, s2)
             | Inr r1 \<Rightarrow>
               (let (r2, s3) = delete_peer_and_dscp eport proto s2
                in (Inr (r1 * r2), s3\<lparr>rdr_desc_list := del_redirect_desc eport proto (rdr_desc_list s3)\<rparr>))))"

section \<open>Updating rules\<close>

definition update_portmapping_desc_timestamp :: "port \<Rightarrow> int \<Rightarrow> string option \<Rightarrow> u32 \<Rightarrow> nf \<Rightarrow> int \<times> nf" where
  "update_portmapping_desc_timestamp eport proto desc timestamp s =
     (0, s\<lparr>rdr_desc_list := add_redirect_desc eport proto desc timestamp
                              (del_redirect_desc eport proto (rdr_desc_list s))\<rparr>)"

definition set_nat_port :: "port \<Rightarrow> ipt_entry \<Rightarrow> ipt_entry" where
  "set_nat_port iport e = e\<lparr>e_target := (e_target e)\<lparr>t_min_port := iport, t_max_port := iport\<rparr>\<rparr>"

definition set_dport :: "port \<Rightarrow> ipt_entry \<Rightarrow> ipt_entry" where
  "set_dport iport e = e\<lparr>e_match := (e_match e)\<lparr>m_dpts := (iport, iport)\<rparr>\<rparr>"

definition set_sport :: "port \<Rightarrow> ipt_entry \<Rightarrow> ipt_entry" where
  "set_sport iport e = e\<lparr>e_match := (e_match e)\<lparr>m_spts := (iport, iport)\<rparr>\<rparr>"

definition matches_snat :: "port \<Rightarrow> int \<Rightarrow> port \<Rightarrow> ipv4 \<Rightarrow> ipt_entry \<Rightarrow> bool" where
  "matches_snat eport proto old_iport iaddr e \<longleftrightarrow>
     matches_peer proto eport e \<and> old_iport = fst (m_spts (e_match e)) \<and> iaddr = e_src e"

text \<open>The entry a search finds, changed and put back at its index.\<close>

definition update_found ::
  "table \<Rightarrow> string \<Rightarrow> (ipt_entry \<Rightarrow> bool) \<Rightarrow> (ipt_entry \<Rightarrow> ipt_entry) \<Rightarrow> nf \<Rightarrow> (int \<times> ipt_entry option) \<times> nf" where
  "update_found t c P f s =
     (let (ok, s1) = iptc_call s in
      if \<not> ok then ((- 1, None), s1)
      else (case tables s1 t c of None \<Rightarrow> ((- 1, None), s1)
        | Some es \<Rightarrow>
          (case find_index P es of None \<Rightarrow> ((- 1, None), s1)
           | Some i \<Rightarrow>
             (let (r, s2) = update_rule_and_commit t c i (f (es ! i)) s1 in ((r, Some (es ! i)), s2)))))"

definition update_portmapping :: "port \<Rightarrow> int \<Rightarrow> port \<Rightarrow> string option \<Rightarrow> u32 \<Rightarrow> nf \<Rightarrow> int \<times> nf" where
  "update_portmapping eport proto iport desc timestamp s =
     (let ((r, found), s1) =
        update_found Nat (nat_chain s) (matches_dport proto eport) (set_nat_port iport) s in
      case found of None \<Rightarrow> (- 1, s1)
      | Some e \<Rightarrow>
        (if r < 0 then (r, s1)
         else (let iaddr = t_min_ip (e_target e); old_iport = t_min_port (e_target e);
                   ((r', found'), s2) = update_found Filter (forward_chain s1)
                      (matches_filter proto old_iport iaddr) (set_dport iport) s1
               in case found' of None \<Rightarrow> (- 1, s2)
               | Some _ \<Rightarrow>
                 (if r' < 0 then (r', s2)
                  else (let s3 = (if port_triggering s2
                             then snd (update_found Nat (post_chain s2)
                                    (matches_snat eport proto old_iport iaddr) (set_sport iport) s2)
                             else s2)
                        in update_portmapping_desc_timestamp eport proto desc timestamp s3)))))"

section \<open>The calls when libiptc reports no error\<close>

lemma iptc_call_ok: "outcomes s = [] \<Longrightarrow> iptc_call s = (True, s)"
  by (simp add: iptc_call_def)

lemma set_table_fields [simp]:
  "outcomes (set_table t c es s) = outcomes s" "nat_chain (set_table t c es s) = nat_chain s"
  "post_chain (set_table t c es s) = post_chain s" "forward_chain (set_table t c es s) = forward_chain s"
  "rdr_desc_list (set_table t c es s) = rdr_desc_list s"
  "port_triggering (set_table t c es s) = port_triggering s"
  "tables (set_table t c es s) t' c' = (if t' = t \<and> c' = c then Some es else tables s t' c')"
  by (auto simp: set_table_def)

lemma edit_commit_ok:
  "\<lbrakk>outcomes s = []; tables s t c = Some es; f es = Some es'\<rbrakk>
     \<Longrightarrow> iptc_edit_commit t c f s = (0, set_table t c es' s)"
  by (simp add: iptc_edit_commit_def iptc_call_ok)

lemma append_ok:
  "\<lbrakk>outcomes s = []; tables s t c = Some es\<rbrakk>
     \<Longrightarrow> iptc_init_verify_and_append t c e s = (0, set_table t c (es @ [e]) s)"
  by (simp add: iptc_init_verify_and_append_def iptc_call_ok edit_commit_ok)

lemma delete_ok:
  "\<lbrakk>outcomes s = []; tables s t c = Some es; find_index P es = Some i\<rbrakk>
     \<Longrightarrow> delete_rule_and_commit i t c s = (0, set_table t c (remove_first P es) s)"
  using find_index_Some [of P es i]
  by (simp add: delete_rule_and_commit_def edit_commit_ok delete_found)

lemma update_found_ok:
  "\<lbrakk>outcomes s = []; tables s t c = Some es; find_index P es = Some i\<rbrakk>
     \<Longrightarrow> update_found t c P f s = ((0, Some (es ! i)), set_table t c (es[i := f (es ! i)]) s)"
  using find_index_Some [of P es i]
  by (simp add: update_found_def iptc_call_ok update_rule_and_commit_def edit_commit_ok)

text \<open>The part of a state the port mappings depend on.\<close>

definition nf_same :: "nf \<Rightarrow> nf \<Rightarrow> bool" where
  "nf_same s s' \<longleftrightarrow> outcomes s' = [] \<and> nat_chain s' = nat_chain s \<and> post_chain s' = post_chain s
     \<and> forward_chain s' = forward_chain s \<and> rdr_desc_list s' = rdr_desc_list s
     \<and> port_triggering s' = port_triggering s
     \<and> tables s' Nat (nat_chain s) = tables s Nat (nat_chain s)
     \<and> tables s' Filter (forward_chain s) = tables s Filter (forward_chain s)
     \<and> (tables s Nat (post_chain s) \<noteq> None \<longrightarrow> tables s' Nat (post_chain s) \<noteq> None)"

lemma nf_same_refl [simp]: "outcomes s = [] \<Longrightarrow> nf_same s s"
  by (simp add: nf_same_def)

lemma nf_same_post [simp]:
  "\<lbrakk>outcomes s = []; nat_chain s \<noteq> post_chain s\<rbrakk> \<Longrightarrow> nf_same s (set_table Nat (post_chain s) es s)"
  by (simp add: nf_same_def)

lemma nf_same_mangle: "nf_same s s' \<Longrightarrow> nf_same s (set_table Mangle c es s')"
  by (simp add: nf_same_def)

lemma peer_deletion_same:
  assumes "outcomes s = []" and "nat_chain s \<noteq> post_chain s"
  obtains r s' where "delete_peer_and_dscp eport proto s = (r, s')" "nf_same s s'" "r = 0 \<or> r = - 1"
proof -
  consider "Option.bind (tables s Nat (post_chain s)) (find_index (matches_peer proto eport)) = None"
    | es i where "tables s Nat (post_chain s) = Some es" "find_index (matches_peer proto eport) es = Some i"
    by (cases "tables s Nat (post_chain s)"; cases "find_index (matches_peer proto eport) (the (tables s Nat (post_chain s)))") auto
  then show thesis
  proof cases
    case 1
    then have "delete_peer_and_dscp eport proto s = (- 1, s)"
      using assms(1) by (auto simp: delete_peer_and_dscp_def iptc_call_ok split: option.splits)
    then show thesis using assms(1) by (intro that) auto
  next
    case 2
    define u where "u = set_table Nat (post_chain s) (remove_first (matches_peer proto eport) es) s"
    define P where "P = matches_dscp proto (fst (m_spts (e_match (es ! i)))) (e_src (es ! i))"
    have u: "outcomes u = []" "nf_same s u" using assms by (simp_all add: u_def)
    have "delete_peer_and_dscp eport proto s =
      (case Option.bind (tables u Mangle (nat_chain u)) (find_index P) of
         None \<Rightarrow> (0, u) | Some j \<Rightarrow> delete_rule_and_commit j Mangle (nat_chain u) u)"
      using 2 assms(1) u(1)
      by (simp add: delete_peer_and_dscp_def iptc_call_ok delete_ok Let_def u_def [symmetric] P_def [symmetric])
    then show thesis
      using that u by (cases "tables u Mangle (nat_chain u)"; cases "find_index P (the (tables u Mangle (nat_chain u)))")
        (auto simp: delete_ok nf_same_mangle)
  qed
qed

section \<open>The port mappings of a state\<close>

definition nf_key :: "ipt_entry \<Rightarrow> port \<times> int" where
  "nf_key e = (fst (m_dpts (e_match e)), uint (e_proto e))"

definition nat_entries :: "nf \<Rightarrow> ipt_entry list" where
  "nat_entries s = (case tables s Nat (nat_chain s) of None \<Rightarrow> [] | Some es \<Rightarrow> es)"

definition filter_entries :: "nf \<Rightarrow> ipt_entry list" where
  "filter_entries s = (case tables s Filter (forward_chain s) of None \<Rightarrow> [] | Some es \<Rightarrow> es)"

definition desc_of :: "rdr_desc list \<Rightarrow> port \<times> int \<Rightarrow> string \<times> u32" where
  "desc_of l k = (case find (\<lambda>p. (d_eport p, d_proto p) = (fst k, word_of_int (snd k))) l of
       Some p \<Rightarrow> (d_str p, d_timestamp p) | None \<Rightarrow> (''miniupnpd'', 0))"

definition portmap_of :: "string \<times> u32 \<Rightarrow> ipt_entry \<Rightarrow> portmap" where
  "portmap_of d e = \<lparr>mp_iaddr = t_min_ip (e_target e), mp_iport = t_min_port (e_target e),
     mp_rhost = e_src e, mp_desc = fst d, mp_timestamp = snd d\<rparr>"

definition nf_table :: "nf \<Rightarrow> portmaps" where
  "nf_table s k = map_option (portmap_of (desc_of (rdr_desc_list s) k))
     (find (\<lambda>e. nf_key e = k) (nat_entries s))"

definition nf_keys :: "nf \<Rightarrow> (port \<times> int) list" where
  "nf_keys s = map nf_key (nat_entries s)"

text \<open>The target of a nat rule, and the same triple of the filter rule that lets its packets pass.\<close>

definition nat_dest :: "ipt_entry \<Rightarrow> int \<times> port \<times> ipv4" where
  "nat_dest e = (uint (e_proto e), t_min_port (e_target e), t_min_ip (e_target e))"

definition filter_dest :: "ipt_entry \<Rightarrow> int \<times> port \<times> ipv4" where
  "filter_dest e = (uint (e_proto e), fst (m_dpts (e_match e)), e_dst e)"

definition nf_ok :: "nf \<Rightarrow> bool" where
  "nf_ok s \<longleftrightarrow> outcomes s = [] \<and> tables s Nat (nat_chain s) \<noteq> None
     \<and> tables s Filter (forward_chain s) \<noteq> None \<and> nat_chain s \<noteq> post_chain s
     \<and> (port_triggering s \<longrightarrow> tables s Nat (post_chain s) \<noteq> None)
     \<and> distinct (nf_keys s)
     \<and> image_mset nat_dest (mset (nat_entries s)) \<subseteq># image_mset filter_dest (mset (filter_entries s))"

lemma nf_okD:
  assumes "nf_ok s"
  shows "outcomes s = []" "tables s Nat (nat_chain s) = Some (nat_entries s)"
    "tables s Filter (forward_chain s) = Some (filter_entries s)" "nat_chain s \<noteq> post_chain s"
    "distinct (nf_keys s)"
    "image_mset nat_dest (mset (nat_entries s)) \<subseteq># image_mset filter_dest (mset (filter_entries s))"
    "port_triggering s \<Longrightarrow> \<exists>es. tables s Nat (post_chain s) = Some es"
  using assms by (auto simp: nf_ok_def nat_entries_def filter_entries_def split: option.splits)

text \<open>For every protocol, internal port and client there are at least as many filter rules as redirect rules.\<close>

definition enough_filter_rules :: "nf \<Rightarrow> bool" where
  "enough_filter_rules s \<longleftrightarrow> (\<forall>d. length (filter (\<lambda>e. nat_dest e = d) (nat_entries s))
     \<le> length (filter (\<lambda>f. filter_dest f = d) (filter_entries s)))"

lemma count_image_mset_filter: "count (image_mset g (mset xs)) d = length (filter (\<lambda>x. g x = d) xs)"
  by (induction xs) auto

lemma nf_ok_filter_rules: "nf_ok s \<Longrightarrow> enough_filter_rules s"
  using mset_subset_eq_count [OF nf_okD(6)] by (simp add: enough_filter_rules_def count_image_mset_filter)

lemma nf_sameD:
  assumes "nf_same s s'"
  shows "nat_entries s' = nat_entries s" "filter_entries s' = filter_entries s"
    "nf_table s' = nf_table s" "nf_keys s' = nf_keys s" "outcomes s' = []" "rdr_desc_list s' = rdr_desc_list s"
    "nat_chain s' = nat_chain s" "post_chain s' = post_chain s" "forward_chain s' = forward_chain s"
    "port_triggering s' = port_triggering s"
proof -
  show e: "nat_entries s' = nat_entries s" and "filter_entries s' = filter_entries s"
    and d: "rdr_desc_list s' = rdr_desc_list s"
    using assms by (simp_all add: nf_same_def nat_entries_def filter_entries_def)
  then show "nf_table s' = nf_table s" "nf_keys s' = nf_keys s"
    by (simp_all add: fun_eq_iff nf_table_def nf_keys_def)
qed (use assms in \<open>simp_all add: nf_same_def\<close>)

lemma nf_same_ok: "nf_same s s' \<Longrightarrow> nf_ok s \<Longrightarrow> nf_ok s'"
proof -
  assume same: "nf_same s s'" and ok: "nf_ok s"
  note e = nf_sameD(1,2,4) [OF same]
  show "nf_ok s'" using ok same by (simp add: nf_ok_def e) (simp add: nf_same_def)
qed

lemma matches_key: "matches_dport proto eport = (\<lambda>e. nf_key e = (eport, proto))"
  by (auto simp: fun_eq_iff matches_dport_def nf_key_def)

lemma filter_key: "matches_filter proto iport iaddr = (\<lambda>e. filter_dest e = (proto, iport, iaddr))"
  by (auto simp: fun_eq_iff matches_filter_def matches_dport_def filter_dest_def)

lemma desc_found:
  "get_redirect_desc eport proto n l = (strncpy (fst (desc_of l (eport, proto))) n, snd (desc_of l (eport, proto)))"
  by (simp add: get_redirect_desc_def desc_of_def split: option.splits)

lemma shows_rule:
  "shows_portmap b no_host (portmap_of (desc_of l (eport, proto)) e) (rule_of_entry b eport proto no_host l e)"
  by (simp add: shows_portmap_def rule_of_entry_def portmap_of_def desc_found)

lemma find_key_nth:
  assumes "distinct (map k xs)" "n < length xs"
  shows "find (\<lambda>x. k x = k (xs ! n)) xs = Some (xs ! n)"
  using assms
proof (induction xs arbitrary: n)
  case (Cons x xs)
  then show ?case by (cases n) (auto simp: nth_mem)
qed simp

lemma nf_table_keys: "set (nf_keys s) = dom (nf_table s)"
proof -
  have "(\<exists>e. find (\<lambda>e. nf_key e = k) (nat_entries s) = Some e) \<longleftrightarrow> k \<in> nf_key ` set (nat_entries s)" for k
    using find_None_iff [of "\<lambda>e. nf_key e = k" "nat_entries s"] by (auto simp: image_iff)
  then show ?thesis by (auto simp: nf_keys_def nf_table_def dom_def)
qed

section \<open>Lookups\<close>

lemma nf_get:
  assumes "nf_ok s"
  shows "nf_get_redirect_rule b eport proto s =
    (map_option (rule_of_entry b eport proto None (rdr_desc_list s))
       (find (\<lambda>e. nf_key e = (eport, proto)) (nat_entries s)), s)"
  using nf_okD(1,2) [OF assms]
  by (simp add: nf_get_redirect_rule_def get_nat_redirect_rule_def iptc_call_ok matches_key)

lemma nf_get_none:
  "\<lbrakk>nf_ok s; nf_table s (eport, proto) = None\<rbrakk> \<Longrightarrow> nf_get_redirect_rule b eport proto s = (None, s)"
  by (simp add: nf_get nf_table_def)

lemma nf_get_some:
  "\<lbrakk>nf_ok s; nf_table s (eport, proto) = Some m\<rbrakk>
     \<Longrightarrow> \<exists>i. nf_get_redirect_rule b eport proto s = (Some i, s) \<and> shows_portmap b None m i"
  by (auto simp: nf_get nf_table_def shows_rule)

lemma nf_index_none:
  "\<lbrakk>nf_ok s; length (nf_keys s) \<le> n\<rbrakk> \<Longrightarrow> nf_get_redirect_rule_by_index n b s = (None, s)"
  using nf_okD(1,2) [of s] by (simp add: nf_get_redirect_rule_by_index_def iptc_call_ok nf_keys_def)

lemma nf_index_some:
  assumes "nf_ok s" "n < length (nf_keys s)" "nf_keys s ! n = (eport, proto)"
  shows "\<exists>i. nf_get_redirect_rule_by_index n b s = (Some (proto, eport, i), s)
          \<and> (\<exists>m. nf_table s (eport, proto) = Some m \<and> shows_portmap b (Some []) m i)"
proof -
  have n: "n < length (nat_entries s)" using assms(2) by (simp add: nf_keys_def)
  then have k: "nf_key (nat_entries s ! n) = (eport, proto)" using assms(3) by (simp add: nf_keys_def)
  have "distinct (map nf_key (nat_entries s))" using nf_okD(5) [OF assms(1)] by (simp add: nf_keys_def)
  from find_key_nth [OF this n] have "nf_table s (eport, proto)
      = Some (portmap_of (desc_of (rdr_desc_list s) (eport, proto)) (nat_entries s ! n))"
    by (simp add: nf_table_def k)
  moreover have "nf_get_redirect_rule_by_index n b s = (Some (proto, eport,
      rule_of_entry b eport proto (Some []) (rdr_desc_list s) (nat_entries s ! n)), s)"
    using n k by (simp add: nf_get_redirect_rule_by_index_def iptc_call_ok nf_okD(1,2) [OF assms(1)] Let_def nf_key_def)
  ultimately show ?thesis by (metis shows_rule)
qed

section \<open>What a change does to the table\<close>

lemma uint_proto: "0 \<le> p \<Longrightarrow> p < 65536 \<Longrightarrow> uint (word_of_int p :: 16 word) = p"
  by (simp add: unsigned_of_int take_bit_int_eq_self)

lemma uint_known [simp]: "valid_proto p \<Longrightarrow> uint (word_of_int p :: 16 word) = p"
  by (rule uint_proto) (auto simp: valid_proto_def)

lemma sint_known: "valid_proto p \<Longrightarrow> sint (w :: 16 word) = p \<longleftrightarrow> w = word_of_int p"
proof
  assume "sint w = p"
  then show "w = word_of_int p" by auto
next
  assume "valid_proto p" "w = word_of_int p"
  then show "sint w = p" by (simp add: valid_proto_def signed_of_int signed_take_bit_int_eq_self)
qed

lemma word_proto_eq:
  "\<lbrakk>valid_proto p; 0 \<le> q; q < 65536\<rbrakk> \<Longrightarrow> (word_of_int q :: 16 word) = word_of_int p \<longleftrightarrow> q = p"
  using uint_proto [of q] uint_known [of p] by metis

lemma desc_add_same [simp]:
  "desc_of (add_redirect_desc eport proto desc ts l) (eport, proto) = (desc_or_default desc, ts)"
  by (simp add: desc_of_def add_redirect_desc_def)

lemma desc_add_other:
  "\<lbrakk>valid_proto proto; k \<noteq> (eport, proto); 0 \<le> snd k; snd k < 65536\<rbrakk>
     \<Longrightarrow> desc_of (add_redirect_desc eport proto desc ts l) k = desc_of l k"
  using word_proto_eq [of proto "snd k"] by (cases k) (auto simp: desc_of_def add_redirect_desc_def)

lemma desc_del_other:
  assumes "valid_proto proto" "k \<noteq> (eport, proto)" "0 \<le> snd k" "snd k < 65536"
  shows "desc_of (del_redirect_desc eport proto l) k = desc_of l k"
proof -
  have "find (\<lambda>p. (d_eport p, d_proto p) = (fst k, word_of_int (snd k)))
          (remove_first (\<lambda>p. d_eport p = eport \<and> sint (d_proto p) = proto) l)
      = find (\<lambda>p. (d_eport p, d_proto p) = (fst k, word_of_int (snd k))) l"
    by (rule find_remove_other) (use assms word_proto_eq [of proto "snd k"] in \<open>cases k; auto simp: sint_known\<close>)
  then show ?thesis by (simp add: desc_of_def del_redirect_desc_def)
qed

lemma nf_table_upd:
  assumes nats: "\<And>k. k \<noteq> k0 \<Longrightarrow> find (\<lambda>e. nf_key e = k) (nat_entries s') = find (\<lambda>e. nf_key e = k) (nat_entries s)"
    and descs: "\<And>k. \<lbrakk>k \<noteq> k0; 0 \<le> snd k; snd k < 65536\<rbrakk>
      \<Longrightarrow> desc_of (rdr_desc_list s') k = desc_of (rdr_desc_list s) k"
    and at: "nf_table s' k0 = v"
  shows "nf_table s' = (nf_table s)(k0 := v)"
proof
  fix k
  show "nf_table s' k = ((nf_table s)(k0 := v)) k"
  proof (cases "k = k0 \<or> find (\<lambda>e. nf_key e = k) (nat_entries s) = None")
    case True
    then show ?thesis using at nats [of k] by (cases "k = k0") (simp_all add: nf_table_def)
  next
    case False
    then obtain e where e: "find (\<lambda>e. nf_key e = k) (nat_entries s) = Some e" "k \<noteq> k0" by auto
    then have "nf_key e = k" by (auto simp: find_Some_iff)
    then have "0 \<le> snd k" "snd k < 65536"
      using unsigned_less [of "e_proto e"] uint_lt2p [of "e_proto e"] by (auto simp: nf_key_def)
    with e show ?thesis by (simp add: nf_table_def nats descs)
  qed
qed

lemma fst_port_span [simp]: "fst (port_span p) = p"
  by (simp add: port_span_def)

lemma fst_dpts_match [simp]: "fst (m_dpts (proto_match proto dport sport)) = dport"
  by (simp add: proto_match_def get_tcp_match_def get_udp_match_def)

lemma nf_key_nat_entry [simp]: "valid_proto proto \<Longrightarrow> nf_key (nat_entry proto eport iaddr iport rhost) = (eport, proto)"
  by (simp add: nf_key_def nat_entry_def)

lemma dest_new [simp]:
  assumes "valid_proto proto"
  shows "nat_dest (nat_entry proto eport iaddr iport rhost) = (proto, iport, inet_addr iaddr)"
    "filter_dest (filter_entry proto rhost iaddr iport) = (proto, iport, inet_addr iaddr)"
  using assms by (simp_all add: nat_dest_def filter_dest_def nat_entry_def filter_entry_def get_dnat_target_def)

lemma portmap_new [simp]:
  "portmap_of (desc_or_default desc, ts) (nat_entry proto eport iaddr iport rhost) = new_portmap rhost iaddr iport desc ts"
  by (simp add: portmap_of_def new_portmap_def nat_entry_def get_dnat_target_def)

section \<open>Adding a mapping\<close>

text \<open>The state after the redirect rule of a mapping, and of its filter rule.\<close>

lemma nf_add_redirect:
  assumes ok: "nf_ok s"
  obtains s1 where "add_redirect_rule2 rhost eport iaddr iport proto desc ts s = (0, s1)"
    "nf_same ((set_table Nat (nat_chain s) (nat_entries s @ [nat_entry proto eport iaddr iport rhost]) s)
       \<lparr>rdr_desc_list := add_redirect_desc eport proto desc ts (rdr_desc_list s)\<rparr>) s1"
proof -
  note okd = nf_okD [OF ok]
  define u where "u = (set_table Nat (nat_chain s) (nat_entries s @ [nat_entry proto eport iaddr iport rhost]) s)
       \<lparr>rdr_desc_list := add_redirect_desc eport proto desc ts (rdr_desc_list s)\<rparr>"
  have u: "outcomes u = []" "nat_chain u \<noteq> post_chain u" using okd(1,4) by (simp_all add: u_def)
  have "addnatrule proto eport iaddr iport rhost s
      = (0, set_table Nat (nat_chain s) (nat_entries s @ [nat_entry proto eport iaddr iport rhost]) s)"
    using okd(1,2) by (simp add: addnatrule_def append_ok)
  then have r: "add_redirect_rule2 rhost eport iaddr iport proto desc ts s
      = (if port_triggering s then addmasqueraderule proto eport iaddr iport rhost u else (0, u))"
    by (simp add: add_redirect_rule2_def u_def)
  show thesis
  proof (cases "port_triggering s")
    case True
    then obtain ps where "tables u Nat (post_chain u) = Some ps"
      using okd(4,7) by (auto simp: u_def)
    then show thesis
      using that True r u
      by (simp add: addmasqueraderule_def append_ok u_def [symmetric])
  next
    case False
    then show thesis using that r u by (simp add: u_def [symmetric])
  qed
qed

lemma nf_add:
  assumes ok: "nf_ok s" and proto: "valid_proto proto" and free: "nf_table s (eport, proto) = None"
  shows "\<exists>s1 s2. add_redirect_rule2 rhost eport iaddr iport proto desc ts s = (0, s1)
    \<and> add_filter_rule2 rhost iaddr eport iport proto s1 = (0, s2) \<and> nf_ok s2
    \<and> nf_table s2 = (nf_table s)((eport, proto) \<mapsto> new_portmap rhost iaddr iport desc ts)
    \<and> nf_keys s2 = nf_keys s @ [(eport, proto)]
    \<and> filter_entries s2 = filter_entries s @ [filter_entry proto rhost iaddr iport]"
proof -
  note okd = nf_okD [OF ok]
  let ?n = "nat_entry proto eport iaddr iport rhost" and ?f = "filter_entry proto rhost iaddr iport"
  define u where "u = (set_table Nat (nat_chain s) (nat_entries s @ [?n]) s)
       \<lparr>rdr_desc_list := add_redirect_desc eport proto desc ts (rdr_desc_list s)\<rparr>"
  obtain s1 where s1: "add_redirect_rule2 rhost eport iaddr iport proto desc ts s = (0, s1)" and same: "nf_same u s1"
    unfolding u_def by (rule nf_add_redirect [OF ok])
  have f1: "tables s1 Filter (forward_chain s1) = Some (filter_entries s)"
    using same okd(3) by (simp add: nf_same_def u_def)
  define s2 where "s2 = set_table Filter (forward_chain s1) (filter_entries s @ [?f]) s1"
  have add: "add_filter_rule2 rhost iaddr eport iport proto s1 = (0, s2)"
    using same f1 by (simp add: add_filter_rule2_def add_filter_rule_def append_ok nf_same_def s2_def)
  have nats: "nat_entries s2 = nat_entries s @ [?n]" and filts: "filter_entries s2 = filter_entries s @ [?f]"
    using same by (simp_all add: s2_def u_def nat_entries_def filter_entries_def nf_same_def)
  have descs: "rdr_desc_list s2 = add_redirect_desc eport proto desc ts (rdr_desc_list s)"
    using same by (simp add: s2_def u_def nf_same_def)
  have none: "find (\<lambda>e. nf_key e = (eport, proto)) (nat_entries s) = None"
    using free by (simp add: nf_table_def)
  have keys: "nf_keys s2 = nf_keys s @ [(eport, proto)]" by (simp add: nf_keys_def nats proto)
  have "(eport, proto) \<notin> set (nf_keys s)" using free by (auto simp: nf_table_keys)
  moreover have "image_mset nat_dest (mset (nat_entries s2)) \<subseteq># image_mset filter_dest (mset (filter_entries s2))"
    using okd(6) by (simp add: nats filts proto)
  ultimately have ok2: "nf_ok s2"
    using okd keys same by (auto simp: nf_ok_def s2_def u_def nf_same_def)
  have "nf_table s2 = (nf_table s)((eport, proto) \<mapsto> new_portmap rhost iaddr iport desc ts)"
    by (rule nf_table_upd) (auto simp: nats find_append proto descs desc_add_other nf_table_def none split: option.splits)
  with s1 add ok2 keys filts show ?thesis by blast
qed

section \<open>Deleting and updating a mapping\<close>

lemma mset_remove_first: "find_index P xs = Some i \<Longrightarrow> mset xs = add_mset (xs ! i) (mset (remove_first P xs))"
  by (induction xs arbitrary: i) (auto split: if_splits)

lemma mset_replace:
  "i < length xs \<Longrightarrow> \<exists>M. mset xs = add_mset (xs ! i) M \<and> (\<forall>v. mset (xs[i := v]) = add_mset v M)"
  by (rule exI [of _ "mset xs - {#xs ! i#}"]) (simp add: mset_update)

lemma map_remove_key: "map k (remove_first (\<lambda>e. k e = a) xs) = remove1 a (map k xs)"
  by (induction xs) auto

lemma find_replace_other: "\<not> P (xs ! i) \<Longrightarrow> \<not> P y \<Longrightarrow> find P (xs[i := y]) = find P xs"
  by (induction xs arbitrary: i) (auto split: nat.splits)

lemma find_replace_same: "find_index P xs = Some i \<Longrightarrow> P y \<Longrightarrow> find P (xs[i := y]) = Some y"
  by (induction xs arbitrary: i) (auto split: if_splits)

lemma find_index_mem: "x \<in> set xs \<Longrightarrow> P x \<Longrightarrow> \<exists>i. find_index P xs = Some i"
  using find_index_None [of P xs] by (cases "find_index P xs") auto

text \<open>A mapping of the table has its entry in the nat chain, and a filter entry of its target.\<close>

lemma mapping_entries:
  assumes ok: "nf_ok s" and m: "nf_table s (eport, proto) = Some m"
  obtains e i j where "find_index (\<lambda>e. nf_key e = (eport, proto)) (nat_entries s) = Some i"
    "e = nat_entries s ! i" "i < length (nat_entries s)" "nf_key e = (eport, proto)"
    "m = portmap_of (desc_of (rdr_desc_list s) (eport, proto)) e"
    "find_index (\<lambda>f. filter_dest f = nat_dest e) (filter_entries s) = Some j"
    "j < length (filter_entries s)" "filter_dest (filter_entries s ! j) = nat_dest e"
    "nat_dest e = (proto, t_min_port (e_target e), t_min_ip (e_target e))"
proof -
  have "find_index (\<lambda>e. nf_key e = (eport, proto)) (nat_entries s) \<noteq> None"
    using m by (auto simp: nf_table_def find_None_index [symmetric])
  then obtain i where i: "find_index (\<lambda>e. nf_key e = (eport, proto)) (nat_entries s) = Some i" by auto
  define e where "e = nat_entries s ! i"
  note ei = find_index_Some [OF i, folded e_def]
  have "e \<in> set (nat_entries s)" using ei by (simp add: e_def)
  then have "nat_dest e \<in># image_mset filter_dest (mset (filter_entries s))"
    using mset_subset_eqD [OF nf_okD(6) [OF ok], of "nat_dest e"] by auto
  then have "\<exists>f \<in> set (filter_entries s). filter_dest f = nat_dest e" by auto
  then obtain j where j: "find_index (\<lambda>f. filter_dest f = nat_dest e) (filter_entries s) = Some j"
    using find_index_mem [of _ "filter_entries s" "\<lambda>f. filter_dest f = nat_dest e"] by auto
  show thesis
    using that [OF i e_def _ _ _ j] ei m find_index_Some [OF j] by (auto simp: nf_table_def nat_dest_def nf_key_def)
qed

lemma nf_delete:
  assumes ok: "nf_ok s" and proto: "valid_proto proto" and m: "nf_table s (eport, proto) = Some m"
  shows "\<exists>s'. nf_delete_redirect_and_filter_rules eport proto s = (Inr 0, s') \<and> nf_ok s'
    \<and> nf_table s' = (nf_table s)((eport, proto) := None)
    \<and> nf_keys s' = remove1 (eport, proto) (nf_keys s)
    \<and> nat_entries s' = remove_first (\<lambda>e. nf_key e = (eport, proto)) (nat_entries s)
    \<and> filter_entries s' = remove_first (\<lambda>f. filter_dest f = (proto, mp_iport m, mp_iaddr m)) (filter_entries s)
    \<and> length (filter_entries s) = Suc (length (filter_entries s'))"
proof -
  note okd = nf_okD [OF ok]
  obtain e i j where i: "find_index (\<lambda>e. nf_key e = (eport, proto)) (nat_entries s) = Some i"
    and e: "e = nat_entries s ! i" "nf_key e = (eport, proto)"
    and me: "m = portmap_of (desc_of (rdr_desc_list s) (eport, proto)) e"
    and j: "find_index (\<lambda>f. filter_dest f = nat_dest e) (filter_entries s) = Some j"
    and dest: "filter_dest (filter_entries s ! j) = nat_dest e"
      "nat_dest e = (proto, t_min_port (e_target e), t_min_ip (e_target e))"
    by (rule mapping_entries [OF ok m]) blast
  define es where "es = remove_first (\<lambda>e. nf_key e = (eport, proto)) (nat_entries s)"
  define fs where "fs = remove_first (\<lambda>f. filter_dest f = nat_dest e) (filter_entries s)"
  define u where "u = set_table Filter (forward_chain s) fs (set_table Nat (nat_chain s) es s)"
  have u: "outcomes u = []" "nat_chain u \<noteq> post_chain u" using okd(1,4) by (simp_all add: u_def)
  have "delete_nat_and_filter proto i (t_min_ip (e_target e)) (t_min_port (e_target e)) s = (Inr 0, u)"
    using okd(1,2,3) j
    by (simp add: delete_nat_and_filter_def iptc_call_ok delete_ok [OF _ _ i] filter_key delete_ok dest(2)
        u_def es_def fs_def)
  moreover obtain r s3 where peer: "delete_peer_and_dscp eport proto u = (r, s3)" "nf_same u s3"
    by (rule peer_deletion_same [OF u])
  ultimately have del: "nf_delete_redirect_and_filter_rules eport proto s
      = (Inr 0, s3\<lparr>rdr_desc_list := del_redirect_desc eport proto (rdr_desc_list s3)\<rparr>)"
    using okd(1,2) i
    by (simp add: nf_delete_redirect_and_filter_rules_def iptc_call_ok matches_key e(1) [symmetric])
  define s' where "s' = s3\<lparr>rdr_desc_list := del_redirect_desc eport proto (rdr_desc_list s3)\<rparr>"
  have nats: "nat_entries s' = es" and filts: "filter_entries s' = fs"
    and descs: "rdr_desc_list s' = del_redirect_desc eport proto (rdr_desc_list s)"
    using peer(2) by (simp_all add: s'_def u_def nat_entries_def filter_entries_def nf_same_def)
  have keys: "nf_keys s' = remove1 (eport, proto) (nf_keys s)"
    by (simp add: nf_keys_def nats es_def map_remove_key)
  have "image_mset nat_dest (mset (nat_entries s')) \<subseteq># image_mset filter_dest (mset (filter_entries s'))"
    using okd(6) mset_remove_first [OF i] mset_remove_first [OF j] dest(1)
    by (simp add: nats filts es_def fs_def e(1))
  then have ok': "nf_ok s'"
    using okd keys peer(2) by (auto simp: nf_ok_def s'_def u_def nf_same_def)
  have "(eport, proto) \<notin> set (nf_keys s')" using okd(5) by (simp add: keys)
  then have gone: "nf_table s' (eport, proto) = None" by (auto simp: nf_table_keys dom_def)
  have "k \<noteq> (eport, proto) \<Longrightarrow> find (\<lambda>e. nf_key e = k) es = find (\<lambda>e. nf_key e = k) (nat_entries s)" for k
    unfolding es_def by (rule find_remove_other) auto
  then have "nf_table s' = (nf_table s)((eport, proto) := None)"
    by (intro nf_table_upd [OF _ _ gone]) (simp_all add: nats descs desc_del_other [OF proto])
  moreover have "size (mset (filter_entries s)) = Suc (size (mset fs))"
    unfolding fs_def mset_remove_first [OF j] by simp
  then have "filter_entries s' = remove_first (\<lambda>f. filter_dest f = (proto, mp_iport m, mp_iaddr m)) (filter_entries s)"
    "length (filter_entries s) = Suc (length (filter_entries s'))"
    by (simp_all add: filts) (simp add: fs_def dest(2) me portmap_of_def)
  ultimately show ?thesis using del ok' keys nats by (auto simp: s'_def es_def)
qed

lemma nf_delete_missing:
  assumes ok: "nf_ok s" and proto: "valid_proto proto" and m: "nf_table s (eport, proto) = None"
  shows "\<exists>r s'. nf_delete_redirect_and_filter_rules eport proto s = (Inr r, s') \<and> nf_ok s'
    \<and> nf_table s' = nf_table s \<and> nf_keys s' = nf_keys s \<and> 0 \<le> r"
proof -
  note okd = nf_okD [OF ok]
  obtain r s3 where peer: "delete_peer_and_dscp eport proto s = (r, s3)" "nf_same s s3" "r = 0 \<or> r = - 1"
    by (rule peer_deletion_same [OF okd(1,4)])
  define s' where "s' = s3\<lparr>rdr_desc_list := del_redirect_desc eport proto (rdr_desc_list s3)\<rparr>"
  have none: "find_index (\<lambda>e. nf_key e = (eport, proto)) (nat_entries s) = None"
    using m by (simp add: nf_table_def find_None_index)
  have del: "nf_delete_redirect_and_filter_rules eport proto s = (Inr (- r), s')"
    using okd(1,2) none peer(1)
    by (simp add: nf_delete_redirect_and_filter_rules_def iptc_call_ok matches_key s'_def)
  have ent: "nat_entries s' = nat_entries s" "filter_entries s' = filter_entries s"
    using peer(2) by (simp_all add: s'_def nat_entries_def filter_entries_def nf_same_def)
  then have keys: "nf_keys s' = nf_keys s" by (simp add: nf_keys_def)
  have ok': "nf_ok s'" using okd ent keys peer(2) by (auto simp: nf_ok_def s'_def nf_same_def)
  have descs: "rdr_desc_list s' = del_redirect_desc eport proto (rdr_desc_list s)"
    using nf_sameD(6) [OF peer(2)] by (simp add: s'_def)
  have "nf_table s' (eport, proto) = None" using m by (simp add: nf_table_def ent)
  then have "nf_table s' = (nf_table s)((eport, proto) := None)"
    by (rule nf_table_upd [rotated 2]) (auto simp: ent descs desc_del_other [OF proto])
  then show ?thesis using del ok' keys peer(3) m by (auto simp: fun_upd_idem)
qed

lemma nf_delete_unknown:
  assumes ok: "nf_ok s" and known: "valid_table (nf_table s)" and proto: "\<not> valid_proto proto"
  shows "\<exists>r s'. nf_delete_redirect_and_filter_rules eport proto s = (Inr r, s') \<and> nf_ok s' \<and> nf_table s' = nf_table s"
proof -
  note okd = nf_okD [OF ok]
  obtain r s3 where peer: "delete_peer_and_dscp eport proto s = (r, s3)" "nf_same s s3"
    by (rule peer_deletion_same [OF okd(1,4)])
  define s' where "s' = s3\<lparr>rdr_desc_list := del_redirect_desc eport proto (rdr_desc_list s3)\<rparr>"
  have "nf_table s (eport, proto) = None" by (rule valid_table_none [OF known proto])
  then have none: "find_index (\<lambda>e. nf_key e = (eport, proto)) (nat_entries s) = None"
    by (simp add: nf_table_def find_None_index)
  have del: "nf_delete_redirect_and_filter_rules eport proto s = (Inr (- r), s')"
    using okd(1,2) none peer(1)
    by (simp add: nf_delete_redirect_and_filter_rules_def iptc_call_ok matches_key s'_def)
  have ent: "nat_entries s' = nat_entries s" "filter_entries s' = filter_entries s"
    using peer(2) by (simp_all add: s'_def nat_entries_def filter_entries_def nf_same_def)
  then have ok': "nf_ok s'" using okd peer(2) by (auto simp: nf_ok_def s'_def nf_same_def nf_keys_def)
  have descs: "rdr_desc_list s' = del_redirect_desc eport proto (rdr_desc_list s)"
    using nf_sameD(6) [OF peer(2)] by (simp add: s'_def)
  have "nf_table s' k = nf_table s k" for k
  proof (cases "nf_table s k")
    case None
    then show ?thesis by (simp add: nf_table_def ent)
  next
    case (Some m)
    then have "valid_proto (snd k)" using known by (auto simp: valid_table_def)
    then have "snd k \<noteq> proto" "sint (word_of_int (snd k) :: 16 word) = snd k" using proto by (auto simp: sint_known)
    then have "desc_of (del_redirect_desc eport proto (rdr_desc_list s)) k = desc_of (rdr_desc_list s) k"
      unfolding desc_of_def del_redirect_desc_def by (subst find_remove_other) auto
    then show ?thesis by (simp add: nf_table_def ent descs)
  qed
  then show ?thesis using del ok' by auto
qed

lemma update_post_same:
  assumes "outcomes s = []" "nat_chain s \<noteq> post_chain s"
  shows "nf_same s (snd (update_found Nat (post_chain s) P f s))"
  using assms update_found_ok [OF assms(1), of Nat "post_chain s" _ P _ f]
  by (cases "tables s Nat (post_chain s)"; cases "find_index P (the (tables s Nat (post_chain s)))")
    (auto simp: update_found_def [of Nat] iptc_call_ok)

text \<open>Two states with the same entries, keys and targets up to a change at one key.\<close>

lemma nf_update_desc:
  assumes ok: "nf_ok s" and proto: "valid_proto proto" and m: "nf_table s (eport, proto) = Some m"
  shows "\<exists>s'. update_portmapping_desc_timestamp eport proto desc ts s = (0, s') \<and> nf_ok s'
    \<and> nf_table s' = (nf_table s)((eport, proto) \<mapsto> m\<lparr>mp_desc := desc_or_default desc, mp_timestamp := ts\<rparr>)
    \<and> nf_keys s' = nf_keys s \<and> filter_entries s' = filter_entries s"
proof -
  define s' where "s' = s\<lparr>rdr_desc_list := add_redirect_desc eport proto desc ts
      (del_redirect_desc eport proto (rdr_desc_list s))\<rparr>"
  have ent: "nat_entries s' = nat_entries s" "filter_entries s' = filter_entries s"
    by (simp_all add: s'_def nat_entries_def filter_entries_def)
  then have keys: "nf_keys s' = nf_keys s" by (simp add: nf_keys_def)
  then have ok': "nf_ok s'" using ok ent by (simp add: nf_ok_def s'_def)
  have descs: "rdr_desc_list s' = add_redirect_desc eport proto desc ts
      (del_redirect_desc eport proto (rdr_desc_list s))" by (simp add: s'_def)
  have "nf_table s' (eport, proto) = Some (m\<lparr>mp_desc := desc_or_default desc, mp_timestamp := ts\<rparr>)"
    using m by (auto simp: nf_table_def ent descs portmap_of_def)
  then have "nf_table s' = (nf_table s)((eport, proto) \<mapsto> m\<lparr>mp_desc := desc_or_default desc, mp_timestamp := ts\<rparr>)"
    by (intro nf_table_upd) (simp_all add: ent descs desc_add_other [OF proto] desc_del_other [OF proto])
  with ok' keys ent show ?thesis by (auto simp: update_portmapping_desc_timestamp_def s'_def)
qed

lemma nf_update:
  assumes ok: "nf_ok s" and proto: "valid_proto proto" and m: "nf_table s (eport, proto) = Some m"
  shows "\<exists>s'. update_portmapping eport proto iport desc ts s = (0, s') \<and> nf_ok s'
    \<and> nf_table s' = (nf_table s)((eport, proto) \<mapsto>
        m\<lparr>mp_iport := iport, mp_desc := desc_or_default desc, mp_timestamp := ts\<rparr>)
    \<and> nf_keys s' = nf_keys s
    \<and> (\<exists>j f. find_index (\<lambda>f. filter_dest f = (proto, mp_iport m, mp_iaddr m)) (filter_entries s) = Some j
        \<and> f = filter_entries s ! j
        \<and> filter_entries s' = (filter_entries s)[j := f\<lparr>e_match := (e_match f)\<lparr>m_dpts := (iport, iport)\<rparr>\<rparr>])"
proof -
  note okd = nf_okD [OF ok]
  obtain e i j where i: "find_index (\<lambda>e. nf_key e = (eport, proto)) (nat_entries s) = Some i"
    and e: "e = nat_entries s ! i" "i < length (nat_entries s)" "nf_key e = (eport, proto)"
    and me: "m = portmap_of (desc_of (rdr_desc_list s) (eport, proto)) e"
    and j: "find_index (\<lambda>f. filter_dest f = nat_dest e) (filter_entries s) = Some j" "j < length (filter_entries s)"
    and dest: "filter_dest (filter_entries s ! j) = nat_dest e"
      "nat_dest e = (proto, t_min_port (e_target e), t_min_ip (e_target e))"
    by (rule mapping_entries [OF ok m]) blast
  define e' where "e' = set_nat_port iport e"
  define f' where "f' = set_dport iport (filter_entries s ! j)"
  define es where "es = (nat_entries s)[i := e']"
  define fs where "fs = (filter_entries s)[j := f']"
  define u1 where "u1 = set_table Nat (nat_chain s) es s"
  define u where "u = set_table Filter (forward_chain s) fs u1"
  have u: "outcomes u = []" "nat_chain u \<noteq> post_chain u" using okd(1,4) by (simp_all add: u_def u1_def)
  have key': "nf_key e' = (eport, proto)" using e(3) by (simp add: e'_def set_nat_port_def nf_key_def)
  have nat: "update_found Nat (nat_chain s) (matches_dport proto eport) (set_nat_port iport) s = ((0, Some e), u1)"
    using update_found_ok [OF okd(1,2) i, of "set_nat_port iport"] by (simp add: matches_key e(1) [symmetric] u1_def es_def e'_def)
  have filt: "update_found Filter (forward_chain s) (matches_filter proto (t_min_port (e_target e)) (t_min_ip (e_target e)))
      (set_dport iport) u1 = ((0, Some (filter_entries s ! j)), u)"
    using update_found_ok [of u1 Filter "forward_chain s" "filter_entries s" "\<lambda>f. filter_dest f = nat_dest e" j "set_dport iport"]
      okd(1,3) j(1) by (simp add: filter_key dest(2) u_def fs_def f'_def) (simp add: u1_def)
  define w where "w = (if port_triggering u then snd (update_found Nat (post_chain u)
      (matches_snat eport proto (t_min_port (e_target e)) (t_min_ip (e_target e))) (set_sport iport) u) else u)"
  have same: "nf_same u w" using u by (simp add: w_def update_post_same)
  have upd: "update_portmapping eport proto iport desc ts s = update_portmapping_desc_timestamp eport proto desc ts w"
    by (simp add: update_portmapping_def nat) (simp add: u1_def [symmetric] filt w_def, simp add: u1_def filt [unfolded u1_def] w_def)
  have ent: "nat_entries w = es" "filter_entries w = fs" "rdr_desc_list w = rdr_desc_list s"
    using nf_sameD(1,2,6) [OF same] by (simp_all add: u_def u1_def nat_entries_def filter_entries_def)
  have keys: "nf_keys w = nf_keys s"
    using e key' by (simp add: nf_keys_def ent es_def map_update list_update_same_conv)
  have dest': "filter_dest f' = nat_dest e'"
    using dest by (auto simp: f'_def e'_def set_dport_def set_nat_port_def nat_dest_def filter_dest_def)
  have "image_mset nat_dest (mset es) \<subseteq># image_mset filter_dest (mset fs)"
    using mset_replace [OF e(2)] mset_replace [OF j(2)] okd(6) dest(1) dest'
    by (auto simp: es_def fs_def e(1) [symmetric])
  then have okw: "nf_ok w"
    using okd keys same ent by (auto simp: nf_ok_def u_def u1_def nf_same_def)
  have at: "nf_table w (eport, proto) = Some (m\<lparr>mp_iport := iport\<rparr>)"
    using find_replace_same [OF i, of e'] key'
    by (simp add: nf_table_def ent es_def me portmap_of_def e'_def set_nat_port_def)
  have "nf_table w = (nf_table s)((eport, proto) \<mapsto> m\<lparr>mp_iport := iport\<rparr>)"
    by (rule nf_table_upd [OF _ _ at]) (use e key' in \<open>auto simp: ent es_def find_replace_other\<close>)
  moreover have "find_index (\<lambda>f. filter_dest f = (proto, mp_iport m, mp_iaddr m)) (filter_entries s) = Some j"
    using j(1) by (simp add: dest(2) me portmap_of_def)
  moreover have "fs = (filter_entries s)[j := (filter_entries s ! j)
      \<lparr>e_match := (e_match (filter_entries s ! j))\<lparr>m_dpts := (iport, iport)\<rparr>\<rparr>]"
    by (simp add: fs_def f'_def set_dport_def)
  ultimately show ?thesis using nf_update_desc [OF okw proto at, of desc ts] upd keys ent by simp
qed

section \<open>The backend contract\<close>

definition netfilter_ops :: "nf fw_ops" where
  "netfilter_ops = \<lparr>op_get = nf_get_redirect_rule, op_get_by_index = nf_get_redirect_rule_by_index,
     op_add = add_redirect_rule2, op_add_filter = add_filter_rule2, op_update = update_portmapping,
     op_update_desc = update_portmapping_desc_timestamp, op_delete = nf_delete_redirect_and_filter_rules,
     op_in_range = nf_get_portmappings_in_range, op_peer_by_index = get_peer_rule_by_index\<rparr>"

lemma netfilter_ops_simps [simp]:
  "op_get netfilter_ops = nf_get_redirect_rule"
  "op_get_by_index netfilter_ops = nf_get_redirect_rule_by_index"
  "op_add netfilter_ops = add_redirect_rule2" "op_add_filter netfilter_ops = add_filter_rule2"
  "op_update netfilter_ops = update_portmapping"
  "op_update_desc netfilter_ops = update_portmapping_desc_timestamp"
  "op_delete netfilter_ops = nf_delete_redirect_and_filter_rules"
  "op_in_range netfilter_ops = nf_get_portmappings_in_range"
  "op_peer_by_index netfilter_ops = get_peer_rule_by_index"
  by (simp_all add: netfilter_ops_def)

lemma nf_in_range:
  assumes "nf_ok s"
  shows "\<exists>l. nf_get_portmappings_in_range startport endport proto s = (Some l, s) \<and> distinct l
    \<and> set l = {p. startport \<le> p \<and> p \<le> endport \<and> nf_table s (p, proto) \<noteq> None}"
proof -
  define sel where "sel = filter (\<lambda>e. proto = uint (e_proto e)) (nat_entries s)"
  define l where "l = filter (\<lambda>p. startport \<le> p \<and> p \<le> endport) (map (\<lambda>e. fst (m_dpts (e_match e))) sel)"
  have d: "distinct (map nf_key sel)"
    using nf_okD(5) [OF assms] by (simp add: nf_keys_def sel_def distinct_map_filter)
  have "map nf_key sel = map (\<lambda>p. (p, proto)) (map (\<lambda>e. fst (m_dpts (e_match e))) sel)"
    by (simp add: nf_key_def sel_def)
  then have "distinct (map (\<lambda>e. fst (m_dpts (e_match e))) sel)"
    using d distinct_map [of "\<lambda>p. (p, proto)" "map (\<lambda>e. fst (m_dpts (e_match e))) sel"] by metis
  then have "distinct l" by (simp add: l_def)
  moreover have "nf_table s (p, proto) \<noteq> None \<longleftrightarrow> (p, proto) \<in> nf_key ` set (nat_entries s)" for p
    using nf_table_keys [of s] by (auto simp: nf_keys_def dom_def)
  then have "set l = {p. startport \<le> p \<and> p \<le> endport \<and> nf_table s (p, proto) \<noteq> None}"
    by (auto simp: l_def sel_def nf_key_def)
  moreover have "nf_get_portmappings_in_range startport endport proto s = (Some l, s)"
    using nf_okD(1,2) [OF assms] by (simp add: nf_get_portmappings_in_range_def iptc_call_ok l_def sel_def)
  ultimately show ?thesis by blast
qed

interpretation netfilter: redirect_backend netfilter_ops nf_ok nf_table nf_keys
proof
  fix s eport proto b n rhost iaddr iport desc ts and m :: portmap
  assume ok: "nf_ok s"
  show "distinct (nf_keys s)" by (rule nf_okD(5) [OF ok])
  show "set (nf_keys s) = dom (nf_table s)" by (rule nf_table_keys)
  show "nf_table s (eport, proto) = None \<Longrightarrow> op_get netfilter_ops b eport proto s = (None, s)"
    using nf_get_none [OF ok] by simp
  show "nf_table s (eport, proto) = Some m
      \<Longrightarrow> \<exists>i. op_get netfilter_ops b eport proto s = (Some i, s) \<and> shows_portmap b None m i"
    using nf_get_some [OF ok] by simp
  show "length (nf_keys s) \<le> n \<Longrightarrow> op_get_by_index netfilter_ops n b s = (None, s)"
    using nf_index_none [OF ok] by simp
  show "\<lbrakk>n < length (nf_keys s); nf_keys s ! n = (eport, proto)\<rbrakk>
      \<Longrightarrow> \<exists>i. op_get_by_index netfilter_ops n b s = (Some (proto, eport, i), s)
              \<and> (\<exists>m. nf_table s (eport, proto) = Some m \<and> shows_portmap b (Some []) m i)"
    using nf_index_some [OF ok] by simp
  assume proto: "valid_proto proto"
  show "nf_table s (eport, proto) = None
      \<Longrightarrow> \<exists>st1 st2. op_add netfilter_ops rhost eport iaddr iport proto desc ts s = (0, st1)
            \<and> op_add_filter netfilter_ops rhost iaddr eport iport proto st1 = (0, st2) \<and> nf_ok st2
            \<and> nf_table st2 = (nf_table s)((eport, proto) \<mapsto> new_portmap rhost iaddr iport desc ts)"
    using nf_add [OF ok proto, of eport rhost iaddr iport desc ts] by auto
  show "nf_table s (eport, proto) = None
      \<Longrightarrow> \<exists>r st'. op_delete netfilter_ops eport proto s = (Inr r, st') \<and> nf_ok st' \<and> nf_table st' = nf_table s"
    using nf_delete_missing [OF ok proto, of eport] by auto
  assume m: "nf_table s (eport, proto) = Some m"
  show "\<exists>st'. op_update netfilter_ops eport proto iport desc ts s = (0, st') \<and> nf_ok st'
      \<and> nf_table st' = (nf_table s)((eport, proto) \<mapsto>
          m\<lparr>mp_iport := iport, mp_desc := desc_or_default desc, mp_timestamp := ts\<rparr>)"
    using nf_update [OF ok proto m, of iport desc ts] by auto
  show "\<exists>st'. op_update_desc netfilter_ops eport proto desc ts s = (0, st') \<and> nf_ok st'
      \<and> nf_table st' = (nf_table s)((eport, proto) \<mapsto>
          m\<lparr>mp_desc := desc_or_default desc, mp_timestamp := ts\<rparr>)"
    using nf_update_desc [OF ok proto m, of desc ts] by auto
  show "\<exists>st'. op_delete netfilter_ops eport proto s = (Inr 0, st') \<and> nf_ok st'
      \<and> nf_table st' = (nf_table s)((eport, proto) := None)
      \<and> nf_keys st' = remove1 (eport, proto) (nf_keys s)"
    using nf_delete [OF ok proto m] by auto
qed

text \<open>The rules of the postrouting chain as the lookup by index shows them.\<close>

definition peer_key :: "ipt_entry \<Rightarrow> port \<times> int" where
  "peer_key e = (t_min_port (e_target e), uint (e_proto e))"

definition nf_peers :: "nf \<Rightarrow> (port \<times> int \<times> u32) list" where
  "nf_peers s = (case tables s Nat (post_chain s) of None \<Rightarrow> []
     | Some es \<Rightarrow> map (\<lambda>e. (fst (peer_key e), snd (peer_key e), snd (desc_of (rdr_desc_list s) (peer_key e)))) es)"

interpretation netfilter: peer_backend netfilter_ops nf_ok nf_table nf_keys nf_peers
proof
  fix s n b eport proto ts and m :: portmap
  assume ok: "nf_ok s"
  note calls = iptc_call_ok [OF nf_okD(1) [OF ok]]
  show "length (nf_peers s) \<le> n \<Longrightarrow> op_peer_by_index netfilter_ops n b s = (None, s)"
    by (auto simp: get_peer_rule_by_index_def calls nf_peers_def split: option.splits)
  show "n < length (nf_peers s) \<Longrightarrow> \<exists>i. op_peer_by_index netfilter_ops n b s = (Some i, s)
      \<and> nf_peers s ! n = (p_eport i, p_proto i, p_timestamp i)"
    by (auto simp: get_peer_rule_by_index_def calls nf_peers_def Let_def desc_found peer_key_def split: option.splits prod.splits)
  show "valid_table (nf_table s) \<Longrightarrow> \<not> valid_proto proto
      \<Longrightarrow> \<exists>r st'. op_delete netfilter_ops eport proto s = (Inr r, st') \<and> nf_ok st' \<and> nf_table st' = nf_table s"
    using nf_delete_unknown [OF ok] by simp
  assume peer: "(eport, proto, ts) \<in> set (nf_peers s)"
  then have "\<exists>e :: ipt_entry. proto = uint (e_proto e) \<and> ts = snd (desc_of (rdr_desc_list s) (eport, proto))"
    by (auto simp: nf_peers_def peer_key_def split: option.splits)
  then obtain e :: ipt_entry where e: "proto = uint (e_proto e)" "ts = snd (desc_of (rdr_desc_list s) (eport, proto))" by blast
  show "0 \<le> proto \<and> proto < 65536" using uint_lt2p [of "e_proto e"] by (simp add: e(1))
  show "nf_table s (eport, proto) = Some m \<Longrightarrow> ts = mp_timestamp m"
    by (auto simp: nf_table_def portmap_of_def e(2))
qed

interpretation netfilter: listing_backend netfilter_ops nf_ok nf_table nf_keys nf_peers
  by unfold_locales (use nf_in_range in simp)

section \<open>Properties\<close>

definition empty_nf :: nf where
  "empty_nf = \<lparr>tables = (\<lambda>t c. Some []), outcomes = [], nat_chain = ''MINIUPNPD'',
     post_chain = ''MINIUPNPD-POSTROUTING'', forward_chain = ''MINIUPNPD'', rdr_desc_list = [],
     port_triggering = False\<rparr>"

lemma empty_nf_ok: "nf_ok empty_nf"
  by (simp add: nf_ok_def empty_nf_def nf_keys_def nat_entries_def filter_entries_def)

lemma empty_nf_table: "nf_table empty_nf k = None"
  by (simp add: nf_table_def empty_nf_def nat_entries_def)

text \<open>A table with the mapping of one web server.\<close>

definition one_nf :: nf where
  "one_nf = snd (add_filter_rule2 None ''10.0.0.2'' 8080 80 IPPROTO_TCP
     (snd (add_redirect_rule2 None 8080 ''10.0.0.2'' 80 IPPROTO_TCP (Some ''web'') 0 empty_nf)))"

lemma one_nf_ok: "nf_ok one_nf"
  and one_nf_table: "nf_table one_nf = [(8080, IPPROTO_TCP) \<mapsto> new_portmap None ''10.0.0.2'' 80 (Some ''web'') 0]"
proof -
  obtain s1 s2 where "add_redirect_rule2 None 8080 ''10.0.0.2'' 80 IPPROTO_TCP (Some ''web'') 0 empty_nf = (0, s1)"
    "add_filter_rule2 None ''10.0.0.2'' 8080 80 IPPROTO_TCP s1 = (0, s2)" "nf_ok s2"
    "nf_table s2 = (nf_table empty_nf)((8080, IPPROTO_TCP) \<mapsto> new_portmap None ''10.0.0.2'' 80 (Some ''web'') 0)"
    using nf_add [OF empty_nf_ok valid_tcp empty_nf_table] by blast
  then show "nf_ok one_nf"
    "nf_table one_nf = [(8080, IPPROTO_TCP) \<mapsto> new_portmap None ''10.0.0.2'' 80 (Some ''web'') 0]"
    using empty_nf_table by (auto simp: one_nf_def fun_eq_iff)
qed

lemma one_nf_filter: "filter_entries one_nf = [filter_entry IPPROTO_TCP None ''10.0.0.2'' 80]"
proof -
  obtain s1 s2 where "add_redirect_rule2 None 8080 ''10.0.0.2'' 80 IPPROTO_TCP (Some ''web'') 0 empty_nf = (0, s1)"
    "add_filter_rule2 None ''10.0.0.2'' 8080 80 IPPROTO_TCP s1 = (0, s2)"
    "filter_entries s2 = filter_entries empty_nf @ [filter_entry IPPROTO_TCP None ''10.0.0.2'' 80]"
    using nf_add [OF empty_nf_ok valid_tcp empty_nf_table] by blast
  then show ?thesis by (simp add: one_nf_def) (simp add: filter_entries_def empty_nf_def)
qed

definition one_map :: portmap where
  "one_map = new_portmap None ''10.0.0.2'' 80 (Some ''web'') 0"

text \<open>C25: Adding a mapping to the netfilter tables, the redirect rule and then its filter rule, on a
  free port enters exactly that mapping into the table, with its target, remote host, description
  and expiry time, and keeps every nat rule paired with a filter rule of its target.\<close>

theorem netfilter_add_refines:
  assumes "nf_ok s" and "valid_proto proto" and "nf_table s (eport, proto) = None"
  shows "\<exists>s1 s2. add_redirect_rule2 rhost eport iaddr iport proto desc ts s = (0, s1)
    \<and> add_filter_rule2 rhost iaddr eport iport proto s1 = (0, s2) \<and> nf_ok s2
    \<and> nf_table s2 = (nf_table s)((eport, proto) \<mapsto> new_portmap rhost iaddr iport desc ts)"
  using netfilter.add_rule [OF assms] by simp

theorem netfilter_add_refines_witness:
  "\<exists>s1 s2. add_redirect_rule2 None 22 ''10.0.0.3'' 22 IPPROTO_TCP None 5 one_nf = (0, s1)
    \<and> add_filter_rule2 None ''10.0.0.3'' 22 22 IPPROTO_TCP s1 = (0, s2) \<and> nf_ok s2
    \<and> nf_table s2 = (nf_table one_nf)((22, IPPROTO_TCP) \<mapsto> new_portmap None ''10.0.0.3'' 22 None 5)"
  by (rule netfilter_add_refines [OF one_nf_ok valid_tcp]) (simp add: one_nf_table)

text \<open>C24: Deleting a mapping succeeds and takes exactly that mapping out of the table: the nat chain loses its rule, and
  the filter chain loses one rule, the first that accepts the protocol, the internal port and the client of
  the mapping. The remote host of the filter rule is not compared.\<close>

theorem netfilter_delete_refines:
  assumes "nf_ok s" and "valid_proto proto" and "nf_table s (eport, proto) = Some m"
  shows "\<exists>s'. nf_delete_redirect_and_filter_rules eport proto s = (Inr 0, s') \<and> nf_ok s'
    \<and> nf_table s' = (nf_table s)((eport, proto) := None)
    \<and> nat_entries s' = remove_first (\<lambda>e. nf_key e = (eport, proto)) (nat_entries s)
    \<and> filter_entries s' = remove_first (\<lambda>f. filter_dest f = (proto, mp_iport m, mp_iaddr m)) (filter_entries s)
    \<and> length (filter_entries s) = Suc (length (filter_entries s'))"
  using nf_delete [OF assms] by blast

theorem netfilter_delete_refines_witness:
  "\<exists>s'. nf_delete_redirect_and_filter_rules 8080 IPPROTO_TCP one_nf = (Inr 0, s') \<and> nf_ok s'
    \<and> nf_table s' = (nf_table one_nf)((8080, IPPROTO_TCP) := None)
    \<and> nat_entries s' = remove_first (\<lambda>e. nf_key e = (8080, IPPROTO_TCP)) (nat_entries one_nf)
    \<and> filter_entries s' = remove_first (\<lambda>f. filter_dest f = (IPPROTO_TCP, mp_iport one_map, mp_iaddr one_map)) (filter_entries one_nf)
    \<and> length (filter_entries one_nf) = Suc (length (filter_entries s'))"
  by (rule netfilter_delete_refines [OF one_nf_ok valid_tcp]) (simp add: one_nf_table one_map_def)

text \<open>C33: Changing the internal port of a mapping rewrites in place the first filter rule of its protocol, old internal port
  and client, whose destination port alone changes; no other filter rule is touched, and the table then has the
  mapping with the new port, description and expiry time.\<close>

theorem netfilter_update_refines:
  assumes "nf_ok s" and "valid_proto proto" and "nf_table s (eport, proto) = Some m"
  shows "\<exists>s'. update_portmapping eport proto iport desc ts s = (0, s') \<and> nf_ok s'
    \<and> nf_table s' = (nf_table s)((eport, proto) \<mapsto>
        m\<lparr>mp_iport := iport, mp_desc := desc_or_default desc, mp_timestamp := ts\<rparr>)
    \<and> (\<exists>j f. find_index (\<lambda>f. filter_dest f = (proto, mp_iport m, mp_iaddr m)) (filter_entries s) = Some j
        \<and> f = filter_entries s ! j
        \<and> filter_entries s' = (filter_entries s)[j := f\<lparr>e_match := (e_match f)\<lparr>m_dpts := (iport, iport)\<rparr>\<rparr>])"
  using nf_update [OF assms, of iport desc ts] by blast

theorem netfilter_update_refines_witness:
  "\<exists>s'. update_portmapping 8080 IPPROTO_TCP 81 (Some ''web'') 9 one_nf = (0, s') \<and> nf_ok s'
    \<and> nf_table s' = (nf_table one_nf)((8080, IPPROTO_TCP) \<mapsto>
        one_map\<lparr>mp_iport := 81, mp_desc := desc_or_default (Some ''web''), mp_timestamp := 9\<rparr>)
    \<and> (\<exists>j f. find_index (\<lambda>f. filter_dest f = (IPPROTO_TCP, mp_iport one_map, mp_iaddr one_map)) (filter_entries one_nf) = Some j
        \<and> f = filter_entries one_nf ! j
        \<and> filter_entries s' = (filter_entries one_nf)[j := f\<lparr>e_match := (e_match f)\<lparr>m_dpts := (81, 81)\<rparr>\<rparr>])"
  by (rule netfilter_update_refines [OF one_nf_ok valid_tcp]) (simp add: one_nf_table one_map_def)

text \<open>When two mappings of a client port are for different remote hosts, deleting the later one removes the filter rule of the
  earlier one, which stays in the table with the rule of the other host only.\<close>

theorem deletion_takes_other_filter_rule:
  assumes "nf_ok s" and "valid_proto proto" and "nf_table s (p1, proto) = None" and "nf_table s (p2, proto) = None"
    and "p1 \<noteq> p2" and "\<forall>f \<in> set (filter_entries s). filter_dest f \<noteq> (proto, iport, inet_addr iaddr)"
  obtains s1 s2 s3 s4 s5 where "add_redirect_rule2 h1 p1 iaddr iport proto desc ts s = (0, s1)"
    "add_filter_rule2 h1 iaddr p1 iport proto s1 = (0, s2)"
    "add_redirect_rule2 h2 p2 iaddr iport proto desc ts s2 = (0, s3)"
    "add_filter_rule2 h2 iaddr p2 iport proto s3 = (0, s4)"
    "nf_delete_redirect_and_filter_rules p2 proto s4 = (Inr 0, s5)"
    "nf_table s5 (p1, proto) = Some (new_portmap h1 iaddr iport desc ts)"
    "filter_entries s5 = filter_entries s @ [filter_entry proto h2 iaddr iport]"
proof -
  obtain s1 s2 where a: "add_redirect_rule2 h1 p1 iaddr iport proto desc ts s = (0, s1)"
    "add_filter_rule2 h1 iaddr p1 iport proto s1 = (0, s2)" "nf_ok s2"
    "nf_table s2 = (nf_table s)((p1, proto) \<mapsto> new_portmap h1 iaddr iport desc ts)"
    "filter_entries s2 = filter_entries s @ [filter_entry proto h1 iaddr iport]"
    using nf_add [OF assms(1-3), of h1 iaddr iport desc ts] by blast
  obtain s3 s4 where b: "add_redirect_rule2 h2 p2 iaddr iport proto desc ts s2 = (0, s3)"
    "add_filter_rule2 h2 iaddr p2 iport proto s3 = (0, s4)" "nf_ok s4"
    "nf_table s4 = (nf_table s2)((p2, proto) \<mapsto> new_portmap h2 iaddr iport desc ts)"
    "filter_entries s4 = filter_entries s2 @ [filter_entry proto h2 iaddr iport]"
    using nf_add [OF a(3) assms(2), of p2 h2 iaddr iport desc ts] a(4) assms(4,5) by auto
  obtain s5 where c: "nf_delete_redirect_and_filter_rules p2 proto s4 = (Inr 0, s5)"
    "nf_table s5 = (nf_table s4)((p2, proto) := None)"
    "filter_entries s5 = remove_first (\<lambda>f. filter_dest f = (proto, iport, inet_addr iaddr)) (filter_entries s4)"
    using nf_delete [OF b(3) assms(2), of p2 "new_portmap h2 iaddr iport desc ts"] b(4) by (auto simp: new_portmap_def)
  have skip: "remove_first P (xs @ ys) = xs @ remove_first P ys" if "\<forall>x \<in> set xs. \<not> P x" for P and xs ys :: "ipt_entry list"
    using that by (induction xs) auto
  have "filter_entries s5 = filter_entries s @ [filter_entry proto h2 iaddr iport]"
    using assms(6) by (simp add: c(3) b(5) a(5) skip assms(2))
  then show thesis using that a b c assms(5) by auto
qed

theorem deletion_takes_other_filter_rule_witness:
  "\<exists>s1 s2 s3 s4 s5. add_redirect_rule2 (Some ''198.51.100.1'') 22 ''10.0.0.3'' 22 IPPROTO_TCP None 5 one_nf = (0, s1)
    \<and> add_filter_rule2 (Some ''198.51.100.1'') ''10.0.0.3'' 22 22 IPPROTO_TCP s1 = (0, s2)
    \<and> add_redirect_rule2 (Some ''198.51.100.2'') 23 ''10.0.0.3'' 22 IPPROTO_TCP None 5 s2 = (0, s3)
    \<and> add_filter_rule2 (Some ''198.51.100.2'') ''10.0.0.3'' 23 22 IPPROTO_TCP s3 = (0, s4)
    \<and> nf_delete_redirect_and_filter_rules 23 IPPROTO_TCP s4 = (Inr 0, s5)
    \<and> nf_table s5 (22, IPPROTO_TCP) = Some (new_portmap (Some ''198.51.100.1'') ''10.0.0.3'' 22 None 5)
    \<and> filter_entries s5 = filter_entries one_nf @ [filter_entry IPPROTO_TCP (Some ''198.51.100.2'') ''10.0.0.3'' 22]"
  by (rule deletion_takes_other_filter_rule [OF one_nf_ok valid_tcp, of 22 23 22 "''10.0.0.3''" "Some ''198.51.100.1''" None 5 "Some ''198.51.100.2''"])
    (auto simp: one_nf_table one_nf_filter filter_dest_def filter_entry_def)

text \<open>The ports a range query lists are exactly the mapped ones of the protocol in the range, each once.\<close>

theorem portmappings_in_range_exact:
  assumes "nf_ok s"
  shows "\<exists>l. nf_get_portmappings_in_range startport endport proto s = (Some l, s) \<and> distinct l
    \<and> set l = {p. startport \<le> p \<and> p \<le> endport \<and> nf_table s (p, proto) \<noteq> None}"
  by (rule nf_in_range [OF assms])

theorem portmappings_in_range_exact_witness:
  "\<exists>l. nf_get_portmappings_in_range 8000 9000 IPPROTO_TCP one_nf = (Some l, one_nf) \<and> distinct l
    \<and> set l = {p. 8000 \<le> p \<and> p \<le> 9000 \<and> nf_table one_nf (p, IPPROTO_TCP) \<noteq> None}"
  by (rule portmappings_in_range_exact [OF one_nf_ok])

text \<open>Deleting a mapping that does not exist, when there is no peer rule of the port either,
  returns 1: the two error codes -1 are multiplied, and a caller that tests for a negative result
  takes it for success.\<close>

theorem delete_missing_mapping_not_negative:
  assumes "nf_ok s" and "nf_table s (eport, proto) = None" and "tables s Nat (post_chain s) = Some []"
  shows "fst (nf_delete_redirect_and_filter_rules eport proto s) = Inr 1"
proof -
  have "find_index (\<lambda>e. nf_key e = (eport, proto)) (nat_entries s) = None"
    using assms(2) by (simp add: nf_table_def find_None_index)
  then show ?thesis
    using nf_okD(1,2) [OF assms(1)] assms(3)
    by (simp add: nf_delete_redirect_and_filter_rules_def iptc_call_ok matches_key delete_peer_and_dscp_def)
qed

theorem delete_missing_mapping_not_negative_witness:
  "fst (nf_delete_redirect_and_filter_rules 53 IPPROTO_UDP empty_nf) = Inr 1"
  by (rule delete_missing_mapping_not_negative [OF empty_nf_ok empty_nf_table]) (simp add: empty_nf_def)

text \<open>When the kernel refuses to delete the nat rule of an existing mapping, the handle that the
  failing delete has freed is freed a second time.\<close>

theorem refused_delete_double_free:
  assumes "nf_ok s" and "nf_table s (eport, proto) = Some m"
  shows "fst (nf_delete_redirect_and_filter_rules eport proto (s\<lparr>outcomes := [True, True, False]\<rparr>)) = Inl Freed_twice"
proof -
  obtain i where i: "find_index (\<lambda>e. nf_key e = (eport, proto)) (nat_entries s) = Some i"
    by (rule mapping_entries [OF assms]) blast
  then show ?thesis
    using nf_okD(2) [OF assms(1)]
    by (simp add: nf_delete_redirect_and_filter_rules_def iptc_call_def matches_key delete_nat_and_filter_def
        delete_rule_and_commit_def iptc_edit_commit_def)
qed

theorem refused_delete_double_free_witness:
  "fst (nf_delete_redirect_and_filter_rules 8080 IPPROTO_TCP (one_nf\<lparr>outcomes := [True, True, False]\<rparr>))
     = Inl Freed_twice"
  by (rule refused_delete_double_free [OF one_nf_ok]) (simp add: one_nf_table)

end
