(* ===== verification/Upnp_Redirect.thy ===== *)
theory Upnp_Redirect
  imports Netfilter_Redirect Permissions
begin

text \<open>
  The port mapping operations of \<^verbatim>\<open>upnpredirect.c\<close> (the build without the SDN controller), over a
  firewall backend: adding with the permission check and the rules for an existing mapping,
  lookups, deletion, removal of expired and unused mappings, and reloading the lease file. The
  backend is the record of its operations; the lemmas are proved from its contract and used on the
  netfilter backend.
\<close>

section \<open>Configuration and state\<close>

text \<open>\<open>rc_port_in_use\<close> is the test of \<^verbatim>\<open>CHECK_PORTINUSE\<close> on the sockets of the machine, when compiled in.\<close>

record rdr_conf =
  rc_perms :: "upnpperm list"
  rc_env :: lease_env
  rc_disabled :: bool
  rc_port_in_use :: "(port \<Rightarrow> int \<Rightarrow> string \<Rightarrow> port \<Rightarrow> int) option"

text \<open>The backend, the text of the lease file, the time of the next cleanup (0: none), and how often
  the subscribers were told of a change.\<close>

record 'st rdr_state =
  fw :: 'st
  lease_text :: "string option"
  nextruletoclean_timestamp :: u32
  notified :: nat

section \<open>Adding a mapping\<close>

definition expiry :: "rdr_conf \<Rightarrow> u32 \<Rightarrow> u32" where
  "expiry cf leaseduration = (if leaseduration > 0 then upnp_time (rc_env cf) + leaseduration else 0)"

definition upnp_redirect_internal ::
  "'st fw_ops \<Rightarrow> rdr_conf \<Rightarrow> string option \<Rightarrow> port \<Rightarrow> string \<Rightarrow> port \<Rightarrow> int \<Rightarrow> string \<Rightarrow> u32
    \<Rightarrow> 'st rdr_state \<Rightarrow> int \<times> 'st rdr_state" where
  "upnp_redirect_internal ops cf rhost eport iaddr iport proto desc timestamp st =
     (if rc_disabled cf then (- 1, st)
      else (let (r, fw1) = op_add ops rhost eport iaddr iport proto (Some desc) timestamp (fw st);
                st1 = st\<lparr>fw := fw1\<rparr>
        in if r < 0 then (- 1, st1)
           else (let st2 = st1\<lparr>lease_text :=
                       snd (lease_file_add (rc_env cf) eport iaddr iport proto desc timestamp (lease_text st1))\<rparr>;
                     (r2, fw2) = op_add_filter ops rhost iaddr eport iport proto (fw st2);
                     st3 = st2\<lparr>fw := fw2\<rparr>
             in if r2 < 0 then (- 1, st3)
                else (0, st3\<lparr>nextruletoclean_timestamp :=
                           (if timestamp > 0 \<and> (nextruletoclean_timestamp st3 = 0
                                                 \<or> timestamp < nextruletoclean_timestamp st3)
                            then timestamp else nextruletoclean_timestamp st3),
                         notified := notified st3 + 1\<rparr>))))"

text \<open>Whether the request names the remote host of the existing mapping.\<close>

definition same_rhost :: "string option \<Rightarrow> string \<Rightarrow> bool" where
  "same_rhost rhost rhost_old \<longleftrightarrow>
     (rhost = None \<and> rhost_old = []) \<or> (rhost = Some ''*'' \<and> rhost_old = []) \<or> rhost = Some rhost_old"

definition redirect_sizes :: buf_sizes where
  "redirect_sizes = \<lparr>iaddrlen = 32, desclen = 0, rhostlen = 32\<rparr>"

definition update_existing ::
  "'st fw_ops \<Rightarrow> port \<Rightarrow> int \<Rightarrow> port \<Rightarrow> port \<Rightarrow> string \<Rightarrow> u32 \<Rightarrow> 'st \<Rightarrow> int \<times> 'st" where
  "update_existing ops eport proto iport iport_old desc timestamp f =
     (if iport \<noteq> iport_old then op_update ops eport proto iport (Some desc) timestamp f
      else op_update_desc ops eport proto (Some desc) timestamp f)"

definition upnp_redirect ::
  "'st fw_ops \<Rightarrow> rdr_conf \<Rightarrow> string option \<Rightarrow> port \<Rightarrow> string \<Rightarrow> port \<Rightarrow> string \<Rightarrow> string option \<Rightarrow> u32
    \<Rightarrow> 'st rdr_state \<Rightarrow> int \<times> 'st rdr_state" where
  "upnp_redirect ops cf rhost eport iaddr iport protocol desc0 leaseduration st =
     (let proto = proto_atoi protocol in
      case inet_aton iaddr of None \<Rightarrow> (- 1, st)
      | Some addr \<Rightarrow>
        (if \<not> check_upnp_rule_against_permissions (rc_perms cf) eport addr iport then (- 3, st)
         else (let desc = (case desc0 of None \<Rightarrow> [] | Some d \<Rightarrow> d);
                   (found, fw1) = op_get ops redirect_sizes eport proto (fw st);
                   st1 = st\<lparr>fw := fw1\<rparr>
           in case found of
             Some i \<Rightarrow>
               (if iaddr = i_iaddr i \<and> same_rhost rhost (case i_rhost i of None \<Rightarrow> [] | Some h \<Rightarrow> h)
                then (let timestamp = expiry cf leaseduration;
                          (r1, fw2) = update_existing ops eport proto iport (i_iport i) desc timestamp (fw st1);
                          (r, fw3) = update_existing ops eport proto iport (i_iport i) desc timestamp fw2;
                          st2 = st1\<lparr>fw := fw3\<rparr>
                      in (r, if r = 0
                             then st2\<lparr>lease_text := snd (lease_file_add (rc_env cf) eport iaddr iport proto desc timestamp
                                        (snd (lease_file_remove (rc_env cf) eport proto (lease_text st2))))\<rparr>
                             else st2))
                else (- 2, st1))
           | None \<Rightarrow>
               (if (case rc_port_in_use cf of None \<Rightarrow> False | Some test \<Rightarrow> test eport proto iaddr iport > 0)
                then (- 4, st1)
                else upnp_redirect_internal ops cf rhost eport iaddr iport proto desc (expiry cf leaseduration) st1))))"

section \<open>Lookups\<close>

definition remaining :: "rdr_conf \<Rightarrow> u32 \<Rightarrow> u32" where
  "remaining cf timestamp =
     (if timestamp > upnp_time (rc_env cf) then timestamp - upnp_time (rc_env cf) else 0)"

text \<open>The rule, the remote host (empty when there is none) and the remaining lease.\<close>

definition upnp_get_redirection_infos ::
  "'st fw_ops \<Rightarrow> rdr_conf \<Rightarrow> buf_sizes \<Rightarrow> port \<Rightarrow> string \<Rightarrow> 'st rdr_state
    \<Rightarrow> (rdr_info \<times> string \<times> u32) option \<times> 'st rdr_state" where
  "upnp_get_redirection_infos ops cf b eport protocol st =
     (let (found, fw1) = op_get ops b eport (proto_atoi protocol) (fw st)
      in (map_option (\<lambda>i. (i, case i_rhost i of None \<Rightarrow> [] | Some h \<Rightarrow> h,
            if i_timestamp i > 0 then remaining cf (i_timestamp i) else 0)) found, st\<lparr>fw := fw1\<rparr>))"

definition protocol_name :: "int \<Rightarrow> string" where
  "protocol_name proto =
     (if proto = IPPROTO_TCP then ''TCP'' else if proto = IPPROTO_UDPLITE then ''UDPLITE'' else ''UDP'')"

definition upnp_get_redirection_infos_by_index ::
  "'st fw_ops \<Rightarrow> rdr_conf \<Rightarrow> buf_sizes \<Rightarrow> nat \<Rightarrow> 'st rdr_state
    \<Rightarrow> (port \<times> string \<times> rdr_info \<times> u32) option \<times> 'st rdr_state" where
  "upnp_get_redirection_infos_by_index ops cf b index st =
     (let (found, fw1) = op_get_by_index ops index b (fw st)
      in (map_option (\<lambda>(proto, eport, i). (eport, protocol_name proto, i, remaining cf (i_timestamp i))) found,
          st\<lparr>fw := fw1\<rparr>))"

definition count_sizes :: buf_sizes where
  "count_sizes = \<lparr>iaddrlen = 32, desclen = 64, rhostlen = 32\<rparr>"

text \<open>The \<^verbatim>\<open>do ... while(r==0)\<close> loop; \<open>None\<close> when it does not end.\<close>

partial_function (option) count_entries ::
  "'st fw_ops \<Rightarrow> rdr_conf \<Rightarrow> nat \<Rightarrow> 'st rdr_state \<Rightarrow> (nat \<times> 'st rdr_state) option" where
  "count_entries ops cf n st =
     (let (r, st1) = upnp_get_redirection_infos_by_index ops cf count_sizes n st
      in if r = None then Some (n, st1) else count_entries ops cf (n + 1) st1)"

definition upnp_get_portmapping_number_of_entries ::
  "'st fw_ops \<Rightarrow> rdr_conf \<Rightarrow> 'st rdr_state \<Rightarrow> (nat \<times> 'st rdr_state) option" where
  "upnp_get_portmapping_number_of_entries ops cf st = count_entries ops cf 0 st"

definition upnp_get_portmappings_in_range ::
  "'st fw_ops \<Rightarrow> port \<Rightarrow> port \<Rightarrow> string \<Rightarrow> 'st rdr_state \<Rightarrow> port list option \<times> 'st rdr_state" where
  "upnp_get_portmappings_in_range ops startport endport protocol st =
     (let (l, fw1) = op_in_range ops startport endport (proto_atoi protocol) (fw st) in (l, st\<lparr>fw := fw1\<rparr>))"

section \<open>Deleting\<close>

definition upnp_delete_redir ::
  "'st fw_ops \<Rightarrow> rdr_conf \<Rightarrow> port \<Rightarrow> int \<Rightarrow> 'st rdr_state \<Rightarrow> (fw_fault + int) \<times> 'st rdr_state" where
  "upnp_delete_redir ops cf eport proto st =
     (let (r, fw1) = op_delete ops eport proto (fw st) in
      case r of Inl f \<Rightarrow> (Inl f, st\<lparr>fw := fw1\<rparr>)
      | Inr v \<Rightarrow>
        (Inr v, st\<lparr>fw := fw1,
                  lease_text := snd (lease_file_remove (rc_env cf) eport proto (lease_text st)),
                  notified := notified st + 1\<rparr>))"

definition upnp_delete_redirection ::
  "'st fw_ops \<Rightarrow> rdr_conf \<Rightarrow> port \<Rightarrow> string \<Rightarrow> 'st rdr_state \<Rightarrow> (fw_fault + int) \<times> 'st rdr_state" where
  "upnp_delete_redirection ops cf eport protocol st = upnp_delete_redir ops cf eport (proto_atoi protocol) st"

section \<open>Expired and unused mappings\<close>

record rule_state =
  rs_packets :: "64 word"
  rs_bytes :: "64 word"
  rs_eport :: port
  rs_proto :: "16 word"
  rs_to_remove :: bool

definition no_sizes :: buf_sizes where
  "no_sizes = \<lparr>iaddrlen = 0, desclen = 0, rhostlen = 0\<rparr>"

text \<open>One rule of a loop: whether it has expired, and the next cleanup time. The list is built
  from its end.\<close>

definition note_rule ::
  "u32 \<Rightarrow> port \<times> int \<times> u32 \<times> 64 word \<times> 64 word \<Rightarrow> u32 \<Rightarrow> rule_state \<times> u32" where
  "note_rule now rule next_clean =
     (case rule of (eport, proto, ts, packets, bytes) \<Rightarrow>
       (let expired = (ts > 0 \<and> ts \<le> now) in
        (\<lparr>rs_packets = packets, rs_bytes = bytes, rs_eport = eport, rs_proto = word_of_int proto,
          rs_to_remove = expired\<rparr>,
         if ts > 0 \<and> \<not> expired \<and> (next_clean \<le> now \<or> ts < next_clean) then ts else next_clean)))"

partial_function (option) collect_rules ::
  "'st fw_ops \<Rightarrow> u32 \<Rightarrow> nat \<Rightarrow> rule_state list \<Rightarrow> 'st rdr_state \<Rightarrow> (rule_state list \<times> 'st rdr_state) option" where
  "collect_rules ops now i acc st =
     (let (found, fw1) = op_get_by_index ops i no_sizes (fw st); st1 = st\<lparr>fw := fw1\<rparr> in
      case found of None \<Rightarrow> Some (acc, st1)
      | Some (proto, eport, r) \<Rightarrow>
        (let (rs, next_clean) = note_rule now (eport, proto, i_timestamp r, i_packets r, i_bytes r)
               (nextruletoclean_timestamp st1)
         in collect_rules ops now (i + 1) (rs # acc) (st1\<lparr>nextruletoclean_timestamp := next_clean\<rparr>)))"

text \<open>The second loop, over the peer rules, counts from 0 again; the count is part of the result.\<close>

partial_function (option) collect_peers ::
  "'st fw_ops \<Rightarrow> u32 \<Rightarrow> nat \<Rightarrow> rule_state list \<Rightarrow> 'st rdr_state \<Rightarrow> (nat \<times> rule_state list \<times> 'st rdr_state) option" where
  "collect_peers ops now i acc st =
     (let (found, fw1) = op_peer_by_index ops i no_sizes (fw st); st1 = st\<lparr>fw := fw1\<rparr> in
      case found of None \<Rightarrow> Some (i, acc, st1)
      | Some r \<Rightarrow>
        (let (rs, next_clean) = note_rule now (p_eport r, p_proto r, p_timestamp r, p_packets r, p_bytes r)
               (nextruletoclean_timestamp st1)
         in collect_peers ops now (i + 1) (rs # acc) (st1\<lparr>nextruletoclean_timestamp := next_clean\<rparr>)))"

fun remove_expired ::
  "'st fw_ops \<Rightarrow> rdr_conf \<Rightarrow> rule_state list \<Rightarrow> 'st rdr_state
    \<Rightarrow> (fw_fault + rule_state list) \<times> 'st rdr_state" where
  "remove_expired ops cf [] st = (Inr [], st)"
| "remove_expired ops cf (rs # l) st =
     (if rs_to_remove rs then
        (case upnp_delete_redir ops cf (rs_eport rs) (sint (rs_proto rs)) st of
           (Inl f, st1) \<Rightarrow> (Inl f, st1)
         | (Inr _, st1) \<Rightarrow> remove_expired ops cf l st1)
      else (case remove_expired ops cf l st of
              (Inl f, st1) \<Rightarrow> (Inl f, st1) | (Inr l', st1) \<Rightarrow> (Inr (rs # l'), st1)))"

text \<open>The number that is compared with the target is that of the peer rules less the removed rules of both loops.\<close>

definition get_upnp_rules_state_list ::
  "'st fw_ops \<Rightarrow> rdr_conf \<Rightarrow> nat \<Rightarrow> 'st rdr_state
    \<Rightarrow> ((fw_fault + rule_state list) \<times> 'st rdr_state) option" where
  "get_upnp_rules_state_list ops cf max_rules_number_target st =
     (let now = upnp_time (rc_env cf) in
      Option.bind (collect_rules ops now 0 [] (st\<lparr>nextruletoclean_timestamp := 0\<rparr>)) (\<lambda>(l1, st1).
        map_option (\<lambda>(i, l, st2). (case remove_expired ops cf l st2 of
            (Inl f, st3) \<Rightarrow> (Inl f, st3)
          | (Inr l', st3) \<Rightarrow>
            (Inr (if int i - int (length l - length l') \<le> int max_rules_number_target then [] else l'), st3)))
          (collect_peers ops now 0 l1 st1)))"

text \<open>The port of an unused rule is read through \<^verbatim>\<open>tmp\<close>, which has no value in the first round and
  points to freed memory in a later one.\<close>

fun remove_unused_rules ::
  "'st fw_ops \<Rightarrow> rule_state list \<Rightarrow> 'st rdr_state \<Rightarrow> (fw_fault + unit) \<times> 'st rdr_state" where
  "remove_unused_rules ops [] st = (Inr (), st)"
| "remove_unused_rules ops (rs # l) st =
     (let (found, fw1) = op_get ops no_sizes (rs_eport rs) (sint (rs_proto rs)) (fw st); st1 = st\<lparr>fw := fw1\<rparr> in
      case found of
        Some i \<Rightarrow> (if i_packets i = rs_packets rs \<and> i_bytes i = rs_bytes rs then (Inl Uninitialised, st1)
                   else remove_unused_rules ops l st1)
      | None \<Rightarrow> remove_unused_rules ops l st1)"

section \<open>Reloading the lease file\<close>

text \<open>The file is unlinked before its lines are read, which is taken to succeed; the mappings that are
  added write the new one.\<close>

definition reload_line ::
  "'st fw_ops \<Rightarrow> rdr_conf \<Rightarrow> string \<Rightarrow> 'st rdr_state \<Rightarrow> 'st rdr_state" where
  "reload_line ops cf line st =
     (case parse_lease_line (rc_env cf) line of None \<Rightarrow> st
      | Some l \<Rightarrow>
        (let (r, st1) = upnp_redirect ops cf None (l_eport l) (l_iaddr l) (l_iport l) (l_proto l)
                          (Some (l_desc l)) (l_duration l) st
         in if r = - 2
            then st1\<lparr>lease_text := snd (lease_file_add (rc_env cf) (l_eport l) (l_iaddr l) (l_iport l)
                       (proto_atoi (l_proto l)) (l_desc l) (l_timestamp l) (lease_text st1))\<rparr>
            else st1))"

definition reload_from_lease_file ::
  "'st fw_ops \<Rightarrow> rdr_conf \<Rightarrow> 'st rdr_state \<Rightarrow> int \<times> 'st rdr_state" where
  "reload_from_lease_file ops cf st =
     (case lease_path (rc_env cf) of None \<Rightarrow> (- 1, st)
      | Some _ \<Rightarrow>
        (case (if fopen_ok (rc_env cf) then lease_text st else None) of None \<Rightarrow> (- 1, st)
         | Some content \<Rightarrow> (0, fold (reload_line ops cf) (file_lines 128 content) (st\<lparr>lease_text := None\<rparr>))))"

section \<open>What the operations promise\<close>

text \<open>The abstract table and result of adding a mapping: every branch of the code, without the backend.\<close>

definition rhost_text :: "portmap \<Rightarrow> string" where
  "rhost_text m = (if mp_rhost m = 0 then [] else dotted (mp_rhost m))"

definition same_client :: "string option \<Rightarrow> string \<Rightarrow> portmap \<Rightarrow> bool" where
  "same_client rhost iaddr m \<longleftrightarrow> iaddr = dotted (mp_iaddr m)
     \<and> (if mp_rhost m = 0 then rhost = None \<or> rhost = Some [] \<or> rhost = Some ''*''
        else rhost = Some (dotted (mp_rhost m)))"

lemma same_rhost_text:
  "same_rhost rhost (rhost_text m) \<longleftrightarrow>
     (if mp_rhost m = 0 then rhost = None \<or> rhost = Some [] \<or> rhost = Some ''*'' else rhost = Some (dotted (mp_rhost m)))"
  by (auto simp: same_rhost_def rhost_text_def dotted_def)

definition spec_redirect ::
  "rdr_conf \<Rightarrow> string option \<Rightarrow> port \<Rightarrow> string \<Rightarrow> port \<Rightarrow> string \<Rightarrow> string option \<Rightarrow> u32
    \<Rightarrow> portmaps \<Rightarrow> int \<times> portmaps" where
  "spec_redirect cf rhost eport iaddr iport protocol desc leaseduration T =
     (let k = (eport, proto_atoi protocol); d = (case desc of None \<Rightarrow> [] | Some d \<Rightarrow> d) in
      case inet_aton iaddr of None \<Rightarrow> (- 1, T)
      | Some addr \<Rightarrow>
        (if \<not> check_upnp_rule_against_permissions (rc_perms cf) eport addr iport then (- 3, T)
         else (case T k of
             Some m \<Rightarrow>
               (if same_client rhost iaddr m
                then (0, T(k \<mapsto> m\<lparr>mp_iport := iport, mp_desc := d, mp_timestamp := expiry cf leaseduration\<rparr>))
                else (- 2, T))
           | None \<Rightarrow>
               (if (case rc_port_in_use cf of None \<Rightarrow> False | Some test \<Rightarrow> test eport (proto_atoi protocol) iaddr iport > 0)
                then (- 4, T)
                else if rc_disabled cf then (- 1, T)
                else (0, T(k \<mapsto> new_portmap rhost iaddr iport (Some d) (expiry cf leaseduration)))))))"

lemma snprintip_whole: "16 \<le> n \<Longrightarrow> snprintip n ip = dotted ip"
  using length_dotted [of ip] by (simp add: snprintip_def)

lemma valid_proto_atoi [simp]: "valid_proto (proto_atoi protocol)"
  by (rule known_valid) (simp add: proto_atoi_def known_proto_def)

lemma desc_or_default_Some [simp]: "desc_or_default (Some d) = d"
  by (simp add: desc_or_default_def)

definition expired :: "u32 \<Rightarrow> portmap \<Rightarrow> bool" where
  "expired now m \<longleftrightarrow> mp_timestamp m > 0 \<and> mp_timestamp m \<le> now"

text \<open>The table without the mappings that have expired.\<close>

definition live :: "u32 \<Rightarrow> portmaps \<Rightarrow> portmaps" where
  "live now T k = (case T k of None \<Rightarrow> None | Some m \<Rightarrow> if expired now m then None else Some m)"

definition rule_key :: "rule_state \<Rightarrow> port \<times> int" where
  "rule_key r = (rs_eport r, sint (rs_proto r))"

text \<open>\<open>t\<close> is the first of a set of times, or 0 when there is none.\<close>

definition first_of :: "u32 set \<Rightarrow> u32 \<Rightarrow> bool" where
  "first_of S t \<longleftrightarrow> (S = {} \<and> t = 0) \<or> (t \<in> S \<and> (\<forall>x \<in> S. t \<le> x))"

definition live_times :: "u32 \<Rightarrow> portmaps \<Rightarrow> (port \<times> int) set \<Rightarrow> u32 set" where
  "live_times now T K = mp_timestamp ` {m. \<exists>k \<in> K. T k = Some m \<and> now < mp_timestamp m}"

definition peer_times :: "u32 \<Rightarrow> (port \<times> int \<times> u32) set \<Rightarrow> u32 set" where
  "peer_times now P = {t. now < t \<and> (\<exists>eport proto. (eport, proto, t) \<in> P)}"

lemma peer_times_insert:
  "peer_times now (insert (eport, proto, t) P) = (if now < t then insert t (peer_times now P) else peer_times now P)"
  by (auto simp: peer_times_def)

lemma sint_word_known: "valid_proto p \<Longrightarrow> sint (word_of_int p :: 16 word) = p"
  by (simp add: sint_known)

lemma first_of_insert:
  assumes "first_of S t" "\<forall>x \<in> S. now < x"
  shows "now < ts \<Longrightarrow> first_of (insert ts S) (if t \<le> now \<or> ts < t then ts else t)"
  using assms by (cases "S = {}") (auto simp: first_of_def)

lemma live_times_insert:
  "T k = Some m \<Longrightarrow> live_times now T (insert k K)
     = (if now < mp_timestamp m then insert (mp_timestamp m) (live_times now T K) else live_times now T K)"
  by (auto simp: live_times_def)

text \<open>The changes of the table: requests to add and to delete, and the cleanup, at any time.\<close>

inductive rdr_step :: "'st fw_ops \<Rightarrow> upnpperm list \<Rightarrow> 'st rdr_state \<Rightarrow> 'st rdr_state \<Rightarrow> bool"
  for ops :: "'st fw_ops" and perms :: "upnpperm list" where
  Add: "\<lbrakk>rc_perms cf = perms; upnp_redirect ops cf rhost eport iaddr iport protocol desc dur st = (r, st')\<rbrakk>
    \<Longrightarrow> rdr_step ops perms st st'"
| Delete: "upnp_delete_redirection ops cf eport protocol st = (Inr r, st') \<Longrightarrow> rdr_step ops perms st st'"
| Clean: "get_upnp_rules_state_list ops cf n st = Some (Inr l, st') \<Longrightarrow> rdr_step ops perms st st'"

inductive_cases rdr_stepE: "rdr_step ops perms st st'"

inductive rdr_reach :: "'st fw_ops \<Rightarrow> upnpperm list \<Rightarrow> 'st rdr_state \<Rightarrow> 'st rdr_state \<Rightarrow> bool"
  for ops :: "'st fw_ops" and perms :: "upnpperm list" and st0 :: "'st rdr_state" where
  Start: "rdr_reach ops perms st0 st0"
| Step: "\<lbrakk>rdr_reach ops perms st0 st; rdr_step ops perms st st'\<rbrakk> \<Longrightarrow> rdr_reach ops perms st0 st'"

inductive_simps rdr_step_simps: "rdr_step ops perms st st'"

definition permitted :: "upnpperm list \<Rightarrow> portmaps \<Rightarrow> bool" where
  "permitted perms T \<longleftrightarrow> (\<forall>k m. T k = Some m \<longrightarrow>
     check_upnp_rule_against_permissions perms (fst k) (mp_iaddr m) (mp_iport m))"

lemma spec_redirect_permitted:
  assumes "permitted (rc_perms cf) T"
  shows "permitted (rc_perms cf) (snd (spec_redirect cf rhost eport iaddr iport protocol desc dur T))"
  using assms
  by (auto simp: spec_redirect_def Let_def permitted_def same_client_def new_portmap_def inet_addr_def cstr
      split: option.splits)

lemma spec_redirect_known:
  "valid_table T \<Longrightarrow> valid_table (snd (spec_redirect cf rhost eport iaddr iport protocol desc dur T))"
  by (auto simp: spec_redirect_def Let_def valid_table_def split: option.splits)

lemma live_permitted: "permitted perms T \<Longrightarrow> permitted perms (live now T)"
  by (auto simp: permitted_def live_def split: option.splits if_splits)

lemma live_known: "valid_table T \<Longrightarrow> valid_table (live now T)"
  by (auto simp: valid_table_def live_def split: option.splits if_splits)

lemma delete_permitted: "permitted perms T \<Longrightarrow> permitted perms (T(k := None))"
  by (auto simp: permitted_def)

lemma delete_known: "valid_table T \<Longrightarrow> valid_table (T(k := None))"
  by (auto simp: valid_table_def)

text \<open>The entries of a lease file that restores its mappings.\<close>

record lease_item =
  li_proto :: int
  li_eport :: port
  li_ip :: ipv4
  li_iport :: port
  li_time :: u32
  li_desc :: string

definition item_line :: "lease_item \<Rightarrow> string" where
  "item_line it = lease_line (li_proto it) (li_eport it) (dotted (li_ip it)) (li_iport it) (li_time it) (li_desc it)"

definition item_key :: "lease_item \<Rightarrow> port \<times> int" where
  "item_key it = (li_eport it, li_proto it)"

definition item_expiry :: "rdr_conf \<Rightarrow> lease_item \<Rightarrow> u32" where
  "item_expiry cf it = (if li_time it = 0 then 0
     else upnp_time (rc_env cf) + (li_time it - unix_time (rc_env cf)))"

definition item_map :: "rdr_conf \<Rightarrow> lease_item \<Rightarrow> portmap" where
  "item_map cf it = \<lparr>mp_iaddr = li_ip it, mp_iport = li_iport it, mp_rhost = 0, mp_desc = li_desc it,
     mp_timestamp = item_expiry cf it\<rparr>"

definition item_ok :: "rdr_conf \<Rightarrow> lease_item \<Rightarrow> bool" where
  "item_ok cf it \<longleftrightarrow> known_proto (li_proto it) \<and> clean_desc (li_desc it) \<and> whole_line 128 (item_line it)
     \<and> check_upnp_rule_against_permissions (rc_perms cf) (li_eport it) (li_ip it) (li_iport it)
     \<and> (li_time it = 0 \<or> unix_time (rc_env cf) < li_time it \<and> item_expiry cf it \<noteq> 0)"

lemma colon_dotted [simp]: "CHR '':'' \<notin> set (dotted a)"
  by (simp add: dotted_def)

lemma item_parsed:
  assumes "item_ok cf it"
  shows "parse_lease_line (rc_env cf) (item_line it @ [newline]) = Some
    \<lparr>l_proto = proto_itoa (li_proto it), l_eport = li_eport it, l_iaddr = dotted (li_ip it), l_iport = li_iport it,
     l_desc = li_desc it, l_duration = (if li_time it = 0 then 0 else li_time it - unix_time (rc_env cf)),
     l_timestamp = (if li_time it = 0 then 0 else li_time it - unix_time (rc_env cf) + upnp_time (rc_env cf))\<rparr>"
  using assms parse_lease [of "dotted (li_ip it)" "li_desc it" "rc_env cf" "li_proto it" "li_eport it" "li_iport it" "li_time it"]
  by (auto simp: item_ok_def item_line_def)

context redirect_backend begin

lemma update_existing_ok:
  assumes "ok f" "valid_proto proto" "table_of f (eport, proto) = Some m" "iport_old = mp_iport m \<or> iport \<noteq> iport_old"
  shows "\<exists>f'. update_existing ops eport proto iport iport_old desc ts f = (0, f') \<and> ok f'
    \<and> table_of f' = (table_of f)((eport, proto) \<mapsto> m\<lparr>mp_iport := iport, mp_desc := desc, mp_timestamp := ts\<rparr>)"
proof (cases "iport = iport_old")
  case True
  then have "m\<lparr>mp_iport := iport, mp_desc := desc, mp_timestamp := ts\<rparr> = m\<lparr>mp_desc := desc, mp_timestamp := ts\<rparr>"
    using assms(4) by simp
  then show ?thesis
    using update_desc [OF assms(1-3), of "Some desc" ts] True by (simp add: update_existing_def)
next
  case False
  then show ?thesis
    using update_rule [OF assms(1-3), of iport "Some desc" ts] by (simp add: update_existing_def)
qed

lemma update_twice:
  assumes ok: "ok f" and proto: "valid_proto proto" and m: "table_of f (eport, proto) = Some m"
  obtains f1 f2 where "update_existing ops eport proto iport (mp_iport m) desc ts f = (0, f1)"
    "update_existing ops eport proto iport (mp_iport m) desc ts f1 = (0, f2)" "ok f2"
    "table_of f2 = (table_of f)((eport, proto) \<mapsto> m\<lparr>mp_iport := iport, mp_desc := desc, mp_timestamp := ts\<rparr>)"
proof -
  obtain f1 where f1: "update_existing ops eport proto iport (mp_iport m) desc ts f = (0, f1)" "ok f1"
    "table_of f1 = (table_of f)((eport, proto) \<mapsto> m\<lparr>mp_iport := iport, mp_desc := desc, mp_timestamp := ts\<rparr>)"
    using update_existing_ok [OF ok proto m, of "mp_iport m" iport desc ts] by blast
  then have at: "table_of f1 (eport, proto) = Some (m\<lparr>mp_iport := iport, mp_desc := desc, mp_timestamp := ts\<rparr>)"
    by simp
  obtain f2 where "update_existing ops eport proto iport (mp_iport m) desc ts f1 = (0, f2)" "ok f2"
    "table_of f2 = (table_of f1)((eport, proto) \<mapsto> m\<lparr>mp_iport := iport, mp_desc := desc, mp_timestamp := ts\<rparr>)"
    using update_existing_ok [OF f1(2) proto at, of "mp_iport m" iport desc ts] by auto
  with f1 that show thesis by simp
qed

lemma internal_ok:
  assumes ok: "ok (fw st)" and proto: "valid_proto proto" and free: "table_of (fw st) (eport, proto) = None"
    and on: "\<not> rc_disabled cf"
  shows "\<exists>f'. upnp_redirect_internal ops cf rhost eport iaddr iport proto desc ts st
      = (0, st\<lparr>fw := f', lease_text := snd (lease_file_add (rc_env cf) eport iaddr iport proto desc ts (lease_text st)),
              nextruletoclean_timestamp := (if ts > 0 \<and> (nextruletoclean_timestamp st = 0
                \<or> ts < nextruletoclean_timestamp st) then ts else nextruletoclean_timestamp st),
              notified := notified st + 1\<rparr>)
    \<and> ok f' \<and> table_of f' = (table_of (fw st))((eport, proto) \<mapsto> new_portmap rhost iaddr iport (Some desc) ts)"
proof -
  obtain f1 f2 where "op_add ops rhost eport iaddr iport proto (Some desc) ts (fw st) = (0, f1)"
    "op_add_filter ops rhost iaddr eport iport proto f1 = (0, f2)" "ok f2"
    "table_of f2 = (table_of (fw st))((eport, proto) \<mapsto> new_portmap rhost iaddr iport (Some desc) ts)"
    using add_rule [OF ok proto free, of rhost iaddr iport "Some desc" ts] by blast
  then show ?thesis
    using on by (intro exI [of _ f2]) (cases st, auto simp: upnp_redirect_internal_def Let_def)
qed

text \<open>Adding a mapping refines the abstract operation on the table.\<close>

lemma redirect_refines:
  assumes ok: "ok (fw st)"
  shows "\<exists>st'. upnp_redirect ops cf rhost eport iaddr iport protocol desc leaseduration st
      = (fst (spec_redirect cf rhost eport iaddr iport protocol desc leaseduration (table_of (fw st))), st')
    \<and> ok (fw st')
    \<and> table_of (fw st') = snd (spec_redirect cf rhost eport iaddr iport protocol desc leaseduration (table_of (fw st)))"
proof (cases "inet_aton iaddr")
  case None
  then show ?thesis using ok by (simp add: upnp_redirect_def spec_redirect_def)
next
  case (Some a)
  note addr = Some
  let ?p = "proto_atoi protocol" and ?d = "case desc of None \<Rightarrow> [] | Some d \<Rightarrow> d"
  show ?thesis
  proof (cases "check_upnp_rule_against_permissions (rc_perms cf) eport a iport")
    case False
    then show ?thesis using ok addr by (simp add: upnp_redirect_def spec_redirect_def)
  next
    case True
    show ?thesis
    proof (cases "table_of (fw st) (eport, ?p)")
      case None
      then have get: "op_get ops redirect_sizes eport ?p (fw st) = (None, fw st)" by (rule get_none [OF ok])
      show ?thesis
        using ok True addr None internal_ok [OF ok valid_proto_atoi None, of cf rhost iaddr iport ?d "expiry cf leaseduration"]
        by (auto simp: upnp_redirect_def spec_redirect_def get Let_def upnp_redirect_internal_def split: option.splits)
    next
      case (Some m)
      obtain i where get: "op_get ops redirect_sizes eport ?p (fw st) = (Some i, fw st)"
        and i: "shows_portmap redirect_sizes None m i" using get_some [OF ok Some] by blast
      obtain f1 f2 where upd: "update_existing ops eport ?p iport (mp_iport m) ?d (expiry cf leaseduration) (fw st) = (0, f1)"
        "update_existing ops eport ?p iport (mp_iport m) ?d (expiry cf leaseduration) f1 = (0, f2)" "ok f2"
        "table_of f2 = (table_of (fw st))((eport, ?p) \<mapsto>
            m\<lparr>mp_iport := iport, mp_desc := ?d, mp_timestamp := expiry cf leaseduration\<rparr>)"
        by (rule update_twice [OF ok valid_proto_atoi Some])
      have "i_iaddr i = dotted (mp_iaddr m)" "i_iport i = mp_iport m"
        "(case i_rhost i of None \<Rightarrow> [] | Some h \<Rightarrow> h) = rhost_text m"
        using i by (simp_all add: shows_portmap_def redirect_sizes_def snprintip_whole rhost_text_def)
      then show ?thesis
        using ok True addr Some upd
        by (simp add: upnp_redirect_def spec_redirect_def get Let_def same_client_def same_rhost_text)
    qed
  qed
qed

lemma delete_refines:
  assumes ok: "ok (fw st)" and proto: "valid_proto proto"
  shows "\<exists>r st'. upnp_delete_redir ops cf eport proto st = (Inr r, st') \<and> ok (fw st')
    \<and> table_of (fw st') = (table_of (fw st))((eport, proto) := None)
    \<and> (table_of (fw st) (eport, proto) \<noteq> None \<longrightarrow> r = 0)
    \<and> nextruletoclean_timestamp st' = nextruletoclean_timestamp st
    \<and> lease_text st' = snd (lease_file_remove (rc_env cf) eport proto (lease_text st))
    \<and> (table_of (fw st) (eport, proto) \<noteq> None \<longrightarrow> keys_of (fw st') = remove1 (eport, proto) (keys_of (fw st)))"
proof (cases "table_of (fw st) (eport, proto)")
  case None
  from delete_missing [OF ok proto None] None show ?thesis
    by (auto simp: upnp_delete_redir_def fun_upd_idem)
next
  case (Some m)
  from delete_rule [OF ok proto Some] show ?thesis by (auto simp: upnp_delete_redir_def)
qed

lemma count_entries_ok:
  assumes ok: "ok (fw st)"
  shows "n \<le> length (keys_of (fw st)) \<Longrightarrow> count_entries ops cf n st = Some (length (keys_of (fw st)), st)"
proof (induction "length (keys_of (fw st)) - n" arbitrary: n)
  case 0
  then have "n = length (keys_of (fw st))" by simp
  with index_none [OF ok, of n] show ?case
    by (subst count_entries.simps) (simp add: upnp_get_redirection_infos_by_index_def)
next
  case (Suc d)
  then have "n < length (keys_of (fw st))" by simp
  moreover obtain eport proto where "keys_of (fw st) ! n = (eport, proto)" by fastforce
  ultimately obtain i where "op_get_by_index ops n count_sizes (fw st) = (Some (proto, eport, i), fw st)"
    using index_some [OF ok] by blast
  with Suc show ?case
    by (subst count_entries.simps) (simp add: upnp_get_redirection_infos_by_index_def)
qed

text \<open>Any rule of the list that carried no packet since stops the removal of unused rules at the
  variable without a value.\<close>

lemma unused_rule_faults:
  assumes "ok (fw st)" "table_of (fw st) (rule_key rs) = Some m"
    and "\<exists>i. op_get ops no_sizes (rs_eport rs) (sint (rs_proto rs)) (fw st) = (Some i, fw st)
           \<and> i_packets i = rs_packets rs \<and> i_bytes i = rs_bytes rs"
  shows "fst (remove_unused_rules ops (rs # l) st) = Inl Uninitialised"
  using assms(3) by auto

lemma infos_ok:
  assumes ok: "ok (fw st)"
  shows "case table_of (fw st) (eport, proto_atoi protocol) of
      None \<Rightarrow> upnp_get_redirection_infos ops cf b eport protocol st = (None, st)
    | Some m \<Rightarrow> \<exists>i. upnp_get_redirection_infos ops cf b eport protocol st
          = (Some (i, if mp_rhost m = 0 then [] else snprintip (rhostlen b) (mp_rhost m),
                   if mp_timestamp m = 0 then 0 else remaining cf (mp_timestamp m)), st)
        \<and> shows_portmap b None m i"
proof (cases "table_of (fw st) (eport, proto_atoi protocol)")
  case None
  with get_none [OF ok None, of b] show ?thesis by (simp add: upnp_get_redirection_infos_def)
next
  case (Some m)
  from get_some [OF ok Some, of b] obtain i where
    "op_get ops b eport (proto_atoi protocol) (fw st) = (Some i, fw st)" "shows_portmap b None m i" by blast
  with Some show ?thesis
    by (auto simp: upnp_get_redirection_infos_def shows_portmap_def word_neq_0_conv)
qed

lemma redirect_new:
  assumes ok: "ok (fw st)" and free: "table_of (fw st) (eport, proto_atoi protocol) = None"
    and addr: "inet_aton iaddr = Some a" "check_upnp_rule_against_permissions (rc_perms cf) eport a iport"
    and on: "\<not> rc_disabled cf" "rc_port_in_use cf = None"
  shows "\<exists>st'. upnp_redirect ops cf rhost eport iaddr iport protocol (Some desc) dur st = (0, st') \<and> ok (fw st')
    \<and> table_of (fw st') = (table_of (fw st))((eport, proto_atoi protocol) \<mapsto>
        new_portmap rhost iaddr iport (Some desc) (expiry cf dur))
    \<and> lease_text st' = snd (lease_file_add (rc_env cf) eport iaddr iport (proto_atoi protocol) desc (expiry cf dur) (lease_text st))"
  using internal_ok [OF ok valid_proto_atoi free on(1), of rhost iaddr iport desc "expiry cf dur"]
    get_none [OF ok free, of redirect_sizes] addr on
  by (auto simp: upnp_redirect_def Let_def)

lemma reload_line_ok:
  assumes ok: "ok (fw st)" and it: "item_ok cf it" and free: "table_of (fw st) (item_key it) = None"
    and on: "\<not> rc_disabled cf" "rc_port_in_use cf = None"
    and env: "lease_path (rc_env cf) \<noteq> None" "fopen_ok (rc_env cf)"
  shows "ok (fw (reload_line ops cf (item_line it @ [newline]) st))
    \<and> table_of (fw (reload_line ops cf (item_line it @ [newline]) st)) = (table_of (fw st))(item_key it \<mapsto> item_map cf it)
    \<and> lease_text (reload_line ops cf (item_line it @ [newline]) st)
        = Some ((case lease_text st of None \<Rightarrow> [] | Some f \<Rightarrow> f) @ item_line it @ [newline])"
proof -
  let ?dur = "if li_time it = 0 then 0 else li_time it - unix_time (rc_env cf)"
  have proto: "proto_atoi (proto_itoa (li_proto it)) = li_proto it"
    using it by (simp add: proto_atoi_itoa item_ok_def)
  have "unix_time (rc_env cf) < li_time it \<Longrightarrow> 0 < li_time it - unix_time (rc_env cf)"
    by (simp add: word_neq_0_conv [symmetric])
  then have ex: "expiry cf ?dur = item_expiry cf it"
    using it by (auto simp: expiry_def item_expiry_def item_ok_def)
  have unix: "to_unix (rc_env cf) (item_expiry cf it) = li_time it"
    using it by (auto simp: to_unix_def item_expiry_def item_ok_def)
  have new: "new_portmap None (dotted (li_ip it)) (li_iport it) (Some (li_desc it)) (item_expiry cf it) = item_map cf it"
    by (simp add: new_portmap_def item_map_def inet_addr_def cstr host_addr_def host_given_def)
  have "table_of (fw st) (li_eport it, proto_atoi (proto_itoa (li_proto it))) = None"
    "check_upnp_rule_against_permissions (rc_perms cf) (li_eport it) (li_ip it) (li_iport it)"
    using free it by (simp_all add: proto item_key_def item_ok_def)
  note redirect_new [OF ok this(1) inet_aton_dotted this(2) on, of None "li_desc it" ?dur, unfolded proto ex new]
  then obtain st' where st': "upnp_redirect ops cf None (li_eport it) (dotted (li_ip it)) (li_iport it)
        (proto_itoa (li_proto it)) (Some (li_desc it)) ?dur st = (0, st')" "ok (fw st')"
    "table_of (fw st') = (table_of (fw st))(item_key it \<mapsto> item_map cf it)"
    "lease_text st' = snd (lease_file_add (rc_env cf) (li_eport it) (dotted (li_ip it)) (li_iport it) (li_proto it)
        (li_desc it) (item_expiry cf it) (lease_text st))"
    unfolding item_key_def by blast
  then have "reload_line ops cf (item_line it @ [newline]) st = st'"
    by (simp add: reload_line_def item_parsed [OF it])
  moreover have "lease_text st' = Some ((case lease_text st of None \<Rightarrow> [] | Some f \<Rightarrow> f) @ item_line it @ [newline])"
    using st'(4) env by (auto simp: lease_file_add_def unix item_line_def)
  ultimately show ?thesis using st' by simp
qed

lemma reload_lines_ok:
  assumes on: "\<not> rc_disabled cf" "rc_port_in_use cf = None"
    and env: "lease_path (rc_env cf) \<noteq> None" "fopen_ok (rc_env cf)"
  shows "\<lbrakk>ok (fw st); \<forall>it \<in> set items. item_ok cf it; distinct (map item_key items);
      \<forall>it \<in> set items. table_of (fw st) (item_key it) = None; lease_text st = Some content\<rbrakk>
    \<Longrightarrow> (let st' = fold (reload_line ops cf) (map (\<lambda>it. item_line it @ [newline]) items) st in
         ok (fw st') \<and> table_of (fw st') = table_of (fw st) ++ map_of (map (\<lambda>it. (item_key it, item_map cf it)) items)
         \<and> lease_text st' = Some (content @ concat (map (\<lambda>it. item_line it @ [newline]) items)))"
proof (induction items arbitrary: st content)
  case (Cons it items)
  let ?st = "reload_line ops cf (item_line it @ [newline]) st"
  have st1: "ok (fw ?st)" "table_of (fw ?st) = (table_of (fw st))(item_key it \<mapsto> item_map cf it)"
    "lease_text ?st = Some (content @ item_line it @ [newline])"
    using reload_line_ok [OF Cons.prems(1) _ _ on env, of it] Cons.prems by auto
  have "\<forall>it \<in> set items. table_of (fw ?st) (item_key it) = None"
    using Cons.prems(3,4) st1(2) by (auto simp: image_iff)
  note ih = Cons.IH [OF st1(1) _ _ this st1(3)]
  have "item_key it \<notin> dom (map_of (map (\<lambda>it. (item_key it, item_map cf it)) items))"
    using Cons.prems(3) by (simp add: dom_map_of_conv_image_fst image_comp comp_def)
  note left = map_add_upd_left [OF this, of "table_of (fw st)" "item_map cf it"]
  have "\<forall>it \<in> set items. item_ok cf it" "distinct (map item_key items)" using Cons.prems(2,3) by simp_all
  note ih = ih [OF this, unfolded Let_def st1(2) left]
  show ?case
    unfolding Let_def list.map fold_simps concat.simps map_of.simps fst_conv snd_conv map_add_upd
    using ih by simp
qed simp

lemma redirect_existing:
  assumes ok: "ok (fw st)" and m: "table_of (fw st) (eport, proto_atoi protocol) = Some m"
    and client: "same_rhost rhost (rhost_text m)"
    and perm: "check_upnp_rule_against_permissions (rc_perms cf) eport (mp_iaddr m) iport"
  shows "\<exists>st'. upnp_redirect ops cf rhost eport (dotted (mp_iaddr m)) iport protocol desc dur st = (0, st')
    \<and> table_of (fw st') = (table_of (fw st))((eport, proto_atoi protocol) \<mapsto>
        m\<lparr>mp_iport := iport, mp_desc := (case desc of None \<Rightarrow> [] | Some d \<Rightarrow> d), mp_timestamp := expiry cf dur\<rparr>)
    \<and> nextruletoclean_timestamp st' = nextruletoclean_timestamp st"
proof -
  let ?p = "proto_atoi protocol" and ?d = "case desc of None \<Rightarrow> [] | Some d \<Rightarrow> d"
  obtain i where get: "op_get ops redirect_sizes eport ?p (fw st) = (Some i, fw st)"
    and i: "shows_portmap redirect_sizes None m i" using get_some [OF ok m] by blast
  obtain f1 f2 where upd: "update_existing ops eport ?p iport (mp_iport m) ?d (expiry cf dur) (fw st) = (0, f1)"
    "update_existing ops eport ?p iport (mp_iport m) ?d (expiry cf dur) f1 = (0, f2)"
    "table_of f2 = (table_of (fw st))((eport, ?p) \<mapsto> m\<lparr>mp_iport := iport, mp_desc := ?d, mp_timestamp := expiry cf dur\<rparr>)"
    by (rule update_twice [OF ok valid_proto_atoi m])
  have "i_iaddr i = dotted (mp_iaddr m)" "i_iport i = mp_iport m"
    "(case i_rhost i of None \<Rightarrow> [] | Some h \<Rightarrow> h) = rhost_text m"
    using i by (simp_all add: shows_portmap_def redirect_sizes_def snprintip_whole rhost_text_def)
  then show ?thesis
    using client perm upd by (simp add: upnp_redirect_def get Let_def cstr)
qed

end

context peer_backend begin

lemma collect_rules_ok:
  assumes ok: "ok f"
  shows "\<lbrakk>fw st = f; n \<le> length (keys_of f); first_of (live_times now (table_of f) (set (take n (keys_of f)))) (nextruletoclean_timestamp st)\<rbrakk>
    \<Longrightarrow> \<exists>l nx. collect_rules ops now n acc st = Some (l @ acc, st\<lparr>nextruletoclean_timestamp := nx\<rparr>)
      \<and> map (\<lambda>r. (rs_eport r, rs_proto r, rs_to_remove r)) l
          = rev (map (\<lambda>k. (fst k, word_of_int (snd k), expired now (the (table_of f k)))) (drop n (keys_of f)))
      \<and> first_of (live_times now (table_of f) (set (keys_of f))) nx"
proof (induction "length (keys_of f) - n" arbitrary: n acc st)
  case 0
  then have n: "n = length (keys_of f)" by simp
  have "collect_rules ops now n acc st = Some ([] @ acc, st\<lparr>nextruletoclean_timestamp := nextruletoclean_timestamp st\<rparr>)"
    using index_none [OF ok, of n] n 0(2) by (subst collect_rules.simps) simp
  then show ?case using 0(4) n by (intro exI [of _ "[]"] exI [of _ "nextruletoclean_timestamp st"]) simp
next
  case (Suc d)
  then have n: "n < length (keys_of f)" by simp
  obtain eport proto where k: "keys_of f ! n = (eport, proto)" by fastforce
  obtain i m where i: "op_get_by_index ops n no_sizes f = (Some (proto, eport, i), f)"
    and m: "table_of f (eport, proto) = Some m" "shows_portmap no_sizes (Some []) m i"
    using index_some [OF ok n k] by blast
  then have ts: "i_timestamp i = mp_timestamp m" by (simp add: shows_portmap_def)
  obtain rs nx where rs: "note_rule now (eport, proto, i_timestamp i, i_packets i, i_bytes i) (nextruletoclean_timestamp st) = (rs, nx)" by fastforce
  have d: "d = length (keys_of f) - (n + 1)" using Suc(2) by simp
  have "first_of (live_times now (table_of f) (set (take (n + 1) (keys_of f)))) nx"
  proof -
    have S: "\<forall>x \<in> live_times now (table_of f) (set (take n (keys_of f))). now < x" by (auto simp: live_times_def)
    have "now < mp_timestamp m \<Longrightarrow> 0 < mp_timestamp m" by (rule le_less_trans [OF word_zero_le])
    then have "nx = (if now < mp_timestamp m then if nextruletoclean_timestamp st \<le> now
        \<or> mp_timestamp m < nextruletoclean_timestamp st then mp_timestamp m else nextruletoclean_timestamp st
        else nextruletoclean_timestamp st)"
      using rs by (auto simp: note_rule_def ts Let_def not_le)
    then show ?thesis
      using Suc(5) first_of_insert [OF Suc(5) S, of "mp_timestamp m"]
        live_times_insert [of "table_of f" "(eport, proto)" m now "set (take n (keys_of f))"] m(1)
      by (simp add: take_Suc_conv_app_nth [OF n] k)
  qed
  then obtain l nx' where l: "collect_rules ops now (n + 1) (rs # acc) (st\<lparr>nextruletoclean_timestamp := nx\<rparr>)
        = Some (l @ rs # acc, st\<lparr>nextruletoclean_timestamp := nx'\<rparr>)"
    "map (\<lambda>r. (rs_eport r, rs_proto r, rs_to_remove r)) l
        = rev (map (\<lambda>k. (fst k, word_of_int (snd k), expired now (the (table_of f k)))) (drop (n + 1) (keys_of f)))"
    "first_of (live_times now (table_of f) (set (keys_of f))) nx'"
    using Suc(1) [OF d, of "st\<lparr>nextruletoclean_timestamp := nx\<rparr>" "rs # acc"] Suc(3) n by fastforce
  have same: "st\<lparr>fw := f\<rparr> = st" using Suc(3) by (cases st) simp
  have "collect_rules ops now n acc st = Some ((l @ [rs]) @ acc, st\<lparr>nextruletoclean_timestamp := nx'\<rparr>)"
    using l(1) i Suc(3) rs by (subst collect_rules.simps) (simp add: Let_def same)
  moreover have "(rs_eport rs, rs_proto rs, rs_to_remove rs) = (eport, word_of_int proto, expired now m)"
    using rs by (auto simp: note_rule_def Let_def ts expired_def)
  ultimately show ?case
    using l(2,3) by (intro exI [of _ "l @ [rs]"] exI [of _ nx']) (simp add: Cons_nth_drop_Suc [OF n, symmetric] k m(1))
qed

lemma collect_peers_ok:
  assumes ok: "ok f" and S: "\<forall>x \<in> S. now < x"
  shows "\<lbrakk>fw st = f; n \<le> length (peers_of f); first_of (S \<union> peer_times now (set (take n (peers_of f)))) (nextruletoclean_timestamp st)\<rbrakk>
    \<Longrightarrow> \<exists>l nx. collect_peers ops now n acc st = Some (length (peers_of f), l @ acc, st\<lparr>nextruletoclean_timestamp := nx\<rparr>)
      \<and> map (\<lambda>r. (rs_eport r, rs_proto r, rs_to_remove r)) l
          = rev (map (\<lambda>(e, p, t). (e, word_of_int p, 0 < t \<and> t \<le> now)) (drop n (peers_of f)))
      \<and> first_of (S \<union> peer_times now (set (peers_of f))) nx"
proof (induction "length (peers_of f) - n" arbitrary: n acc st)
  case 0
  then have n: "n = length (peers_of f)" by simp
  have "collect_peers ops now n acc st
      = Some (length (peers_of f), [] @ acc, st\<lparr>nextruletoclean_timestamp := nextruletoclean_timestamp st\<rparr>)"
    using peer_none [OF ok, of n] n 0(2) by (subst collect_peers.simps) simp
  then show ?case using 0(4) n by (intro exI [of _ "[]"] exI [of _ "nextruletoclean_timestamp st"]) simp
next
  case (Suc d)
  then have n: "n < length (peers_of f)" by simp
  obtain i where i: "op_peer_by_index ops n no_sizes f = (Some i, f)"
    and k: "peers_of f ! n = (p_eport i, p_proto i, p_timestamp i)" using peer_some [OF ok n] by blast
  let ?t = "p_timestamp i" and ?S = "S \<union> peer_times now (set (take n (peers_of f)))"
  obtain rs nx where rs: "note_rule now (p_eport i, p_proto i, ?t, p_packets i, p_bytes i) (nextruletoclean_timestamp st) = (rs, nx)"
    by fastforce
  have d: "d = length (peers_of f) - (n + 1)" using Suc(2) by simp
  have "first_of (S \<union> peer_times now (set (take (n + 1) (peers_of f)))) nx"
  proof -
    have "\<forall>x \<in> ?S. now < x" using S by (auto simp: peer_times_def)
    note ins = first_of_insert [OF Suc(5) this, of ?t]
    have "now < ?t \<Longrightarrow> 0 < ?t" by (rule le_less_trans [OF word_zero_le])
    then have "nx = (if now < ?t then if nextruletoclean_timestamp st \<le> now
        \<or> ?t < nextruletoclean_timestamp st then ?t else nextruletoclean_timestamp st else nextruletoclean_timestamp st)"
      using rs by (auto simp: note_rule_def Let_def not_le)
    then show ?thesis using Suc(5) ins by (simp add: take_Suc_conv_app_nth [OF n] k peer_times_insert)
  qed
  then obtain l nx' where l: "collect_peers ops now (n + 1) (rs # acc) (st\<lparr>nextruletoclean_timestamp := nx\<rparr>)
        = Some (length (peers_of f), l @ rs # acc, st\<lparr>nextruletoclean_timestamp := nx'\<rparr>)"
    "map (\<lambda>r. (rs_eport r, rs_proto r, rs_to_remove r)) l
        = rev (map (\<lambda>(e, p, t). (e, word_of_int p, 0 < t \<and> t \<le> now)) (drop (n + 1) (peers_of f)))"
    "first_of (S \<union> peer_times now (set (peers_of f))) nx'"
    using Suc(1) [OF d, of "st\<lparr>nextruletoclean_timestamp := nx\<rparr>" "rs # acc"] Suc(3) n by fastforce
  have same: "st\<lparr>fw := f\<rparr> = st" using Suc(3) by (cases st) simp
  have "collect_peers ops now n acc st = Some (length (peers_of f), (l @ [rs]) @ acc, st\<lparr>nextruletoclean_timestamp := nx'\<rparr>)"
    using l(1) i Suc(3) rs by (subst collect_peers.simps) (simp add: Let_def same)
  moreover have "(rs_eport rs, rs_proto rs, rs_to_remove rs) = (p_eport i, word_of_int (p_proto i), 0 < ?t \<and> ?t \<le> now)"
    using rs by (auto simp: note_rule_def Let_def)
  ultimately show ?case
    using l(2,3) by (intro exI [of _ "l @ [rs]"] exI [of _ nx']) (simp add: Cons_nth_drop_Suc [OF n, symmetric] k)
qed

lemma delete_any:
  assumes ok: "ok (fw st)" and known: "valid_table (table_of (fw st))"
  shows "\<exists>r st'. upnp_delete_redir ops cf eport proto st = (Inr r, st') \<and> ok (fw st')
    \<and> table_of (fw st') = (table_of (fw st))((eport, proto) := None)
    \<and> nextruletoclean_timestamp st' = nextruletoclean_timestamp st"
proof (cases "valid_proto proto")
  case True
  then show ?thesis using delete_refines [OF ok True, of cf eport] by blast
next
  case False
  then have "(table_of (fw st))((eport, proto) := None) = table_of (fw st)"
    using valid_table_none [OF known, of proto eport] by (simp add: fun_upd_idem)
  then show ?thesis using delete_unknown [OF ok known False, of eport] by (auto simp: upnp_delete_redir_def)
qed

lemma remove_expired_ok:
  assumes "ok (fw st)" "valid_table (table_of (fw st))"
  shows "\<exists>st'. remove_expired ops cf l st = (Inr (filter (\<lambda>r. \<not> rs_to_remove r) l), st') \<and> ok (fw st')
    \<and> nextruletoclean_timestamp st' = nextruletoclean_timestamp st
    \<and> table_of (fw st') = (\<lambda>k. if k \<in> rule_key ` {r \<in> set l. rs_to_remove r} then None else table_of (fw st) k)"
  using assms
proof (induction l arbitrary: st)
  case (Cons r l)
  show ?case
  proof (cases "rs_to_remove r")
    case True
    from delete_any [OF Cons.prems, of cf "rs_eport r" "sint (rs_proto r)"]
    obtain v st1 where st1: "upnp_delete_redir ops cf (rs_eport r) (sint (rs_proto r)) st = (Inr v, st1)" "ok (fw st1)"
      "table_of (fw st1) = (table_of (fw st))(rule_key r := None)"
      "nextruletoclean_timestamp st1 = nextruletoclean_timestamp st" by (auto simp: rule_key_def)
    have "valid_table (table_of (fw st1))" using Cons.prems(2) by (simp add: st1(3) delete_known)
    from Cons.IH [OF st1(2) this]
    obtain st' where "remove_expired ops cf l st1 = (Inr (filter (\<lambda>r. \<not> rs_to_remove r) l), st')" "ok (fw st')"
      "nextruletoclean_timestamp st' = nextruletoclean_timestamp st1"
      "table_of (fw st') = (\<lambda>k. if k \<in> rule_key ` {r \<in> set l. rs_to_remove r} then None else table_of (fw st1) k)"
      by auto
    with st1 True show ?thesis by (intro exI [of _ st']) (auto simp: fun_eq_iff)
  next
    case False
    then have "{x. (x = r \<or> x \<in> set l) \<and> rs_to_remove x} = {x \<in> set l. rs_to_remove x}" by auto
    moreover from Cons.IH [OF Cons.prems]
    obtain st' where "remove_expired ops cf l st = (Inr (filter (\<lambda>r. \<not> rs_to_remove r) l), st')" "ok (fw st')"
      "nextruletoclean_timestamp st' = nextruletoclean_timestamp st"
      "table_of (fw st') = (\<lambda>k. if k \<in> rule_key ` {r \<in> set l. rs_to_remove r} then None else table_of (fw st) k)"
      by auto
    ultimately show ?thesis using False by (intro exI [of _ st']) simp
  qed
qed simp

text \<open>A rule of the list that is to be removed belongs to a mapping or a peer rule that has expired, and no
  mapping is lost but the expired ones.\<close>

lemma expired_keys:
  assumes ok: "ok f" and known: "valid_table (table_of f)"
    and l: "(\<lambda>r. (rs_eport r, rs_proto r, rs_to_remove r)) ` set l
      = (\<lambda>(e, p, t). (e, word_of_int p, 0 < t \<and> t \<le> now)) ` set (peers_of f)
        \<union> (\<lambda>k. (fst k, word_of_int (snd k), expired now (the (table_of f k)))) ` set (keys_of f)"
  shows "(\<lambda>k. if k \<in> rule_key ` {r \<in> set l. rs_to_remove r} then None else table_of f k) = live now (table_of f)"
proof
  fix k
  show "(if k \<in> rule_key ` {r \<in> set l. rs_to_remove r} then None else table_of f k) = live now (table_of f) k"
  proof (cases "table_of f k")
    case None
    then show ?thesis by (simp add: live_def)
  next
    case (Some m)
    then have kp: "valid_proto (snd k)" and kk: "k \<in> set (keys_of f)"
      using known keys_dom [OF ok] by (auto simp: valid_table_def)
    have "k \<in> rule_key ` {r \<in> set l. rs_to_remove r} \<longleftrightarrow> expired now m"
    proof
      assume "expired now m"
      then have "(fst k, word_of_int (snd k), True) \<in> (\<lambda>r. (rs_eport r, rs_proto r, rs_to_remove r)) ` set l"
        unfolding l using kk Some by (auto simp: image_iff intro!: bexI [of _ k])
      then obtain r where "r \<in> set l" "rs_to_remove r" "rs_eport r = fst k" "rs_proto r = word_of_int (snd k)" by auto
      then show "k \<in> rule_key ` {r \<in> set l. rs_to_remove r}"
        by (intro image_eqI [of _ _ r]) (auto simp: rule_key_def sint_word_known [OF kp])
    next
      assume "k \<in> rule_key ` {r \<in> set l. rs_to_remove r}"
      then obtain r where r: "r \<in> set l" "rs_to_remove r" "rs_eport r = fst k" "sint (rs_proto r) = snd k"
        by (auto simp: rule_key_def)
      then have w: "rs_proto r = word_of_int (snd k)" using sint_known [OF kp] by blast
      have "(rs_eport r, rs_proto r, True) \<in> (\<lambda>r. (rs_eport r, rs_proto r, rs_to_remove r)) ` set l"
        using r by (auto simp: image_iff intro!: bexI [of _ r])
      then consider p t where "(fst k, p, t) \<in> set (peers_of f)" "word_of_int p = (word_of_int (snd k) :: 16 word)" "0 < t" "t \<le> now"
        | k' where "k' \<in> set (keys_of f)" "fst k' = fst k" "word_of_int (snd k') = (word_of_int (snd k) :: 16 word)"
          "expired now (the (table_of f k'))"
        unfolding l using r(3) w by auto
      then show "expired now m"
      proof cases
        case 1
        then have "p = snd k" using peer_range [OF ok 1(1)] word_proto_eq [OF kp, of p] by auto
        then have "t = mp_timestamp m" using peer_time [OF ok, of "fst k" p t] 1(1) Some by simp
        then show ?thesis using 1 by (simp add: expired_def)
      next
        case 2
        then have "valid_proto (snd k')" using known keys_dom [OF ok] by (auto simp: valid_table_def)
        then have "snd k' = snd k" using 2(3) sint_word_known kp by metis
        then have "k' = k" using 2(2) by (simp add: prod_eq_iff)
        then show ?thesis using 2(4) Some by simp
      qed
    qed
    then show ?thesis using Some by (simp add: live_def)
  qed
qed

text \<open>The cleanup takes the expired mappings out of the table, no other, and schedules the next one
  for the first time at which a mapping or a peer rule expires.\<close>

lemma cleanup_refines:
  assumes ok: "ok (fw st)" and known: "valid_table (table_of (fw st))"
  shows "\<exists>l st'. get_upnp_rules_state_list ops cf n st = Some (Inr l, st') \<and> ok (fw st')
    \<and> table_of (fw st') = live (upnp_time (rc_env cf)) (table_of (fw st))
    \<and> first_of ({mp_timestamp m | m. m \<in> ran (table_of (fw st)) \<and> upnp_time (rc_env cf) < mp_timestamp m}
          \<union> peer_times (upnp_time (rc_env cf)) (set (peers_of (fw st))))
        (nextruletoclean_timestamp st')
    \<and> (peers_of (fw st) = [] \<longrightarrow> l = [])"
proof -
  let ?now = "upnp_time (rc_env cf)" and ?f = "fw st" and ?K = "keys_of (fw st)"
  let ?S = "live_times ?now (table_of ?f) (set ?K)"
  have "first_of (live_times ?now (table_of ?f) (set (take 0 ?K))) 0" by (simp add: live_times_def first_of_def)
  then obtain l1 nx1 where l1: "collect_rules ops ?now 0 [] (st\<lparr>nextruletoclean_timestamp := 0\<rparr>)
        = Some (l1, st\<lparr>nextruletoclean_timestamp := nx1\<rparr>)"
    and rules1: "map (\<lambda>r. (rs_eport r, rs_proto r, rs_to_remove r)) l1
        = rev (map (\<lambda>k. (fst k, word_of_int (snd k), expired ?now (the (table_of ?f k)))) ?K)"
    and nx1: "first_of ?S nx1"
    using collect_rules_ok [OF ok, of "st\<lparr>nextruletoclean_timestamp := 0\<rparr>" 0 ?now "[]"] by auto
  have S: "\<forall>x \<in> ?S. ?now < x" by (auto simp: live_times_def)
  have "first_of (?S \<union> peer_times ?now (set (take 0 (peers_of ?f)))) nx1" using nx1 by (simp add: peer_times_def)
  then obtain l2 nx where l2: "collect_peers ops ?now 0 l1 (st\<lparr>nextruletoclean_timestamp := nx1\<rparr>)
        = Some (length (peers_of ?f), l2 @ l1, st\<lparr>nextruletoclean_timestamp := nx\<rparr>)"
    and rules2: "map (\<lambda>r. (rs_eport r, rs_proto r, rs_to_remove r)) l2
        = rev (map (\<lambda>(e, p, t). (e, word_of_int p, 0 < t \<and> t \<le> ?now)) (peers_of ?f))"
    and nx: "first_of (?S \<union> peer_times ?now (set (peers_of ?f))) nx"
    using collect_peers_ok [OF ok S, of "st\<lparr>nextruletoclean_timestamp := nx1\<rparr>" 0 l1] by auto
  obtain st' where st': "remove_expired ops cf (l2 @ l1) (st\<lparr>nextruletoclean_timestamp := nx\<rparr>)
        = (Inr (filter (\<lambda>r. \<not> rs_to_remove r) (l2 @ l1)), st')" "ok (fw st')" "nextruletoclean_timestamp st' = nx"
    "table_of (fw st') = (\<lambda>k. if k \<in> rule_key ` {r \<in> set (l2 @ l1). rs_to_remove r} then None else table_of ?f k)"
    using remove_expired_ok [of "st\<lparr>nextruletoclean_timestamp := nx\<rparr>" cf "l2 @ l1"] ok known by (auto cong: if_cong)
  have "(\<lambda>r. (rs_eport r, rs_proto r, rs_to_remove r)) ` set (l2 @ l1)
      = (\<lambda>(e, p, t). (e, word_of_int p, 0 < t \<and> t \<le> ?now)) ` set (peers_of ?f)
        \<union> (\<lambda>k. (fst k, word_of_int (snd k), expired ?now (the (table_of ?f k)))) ` set ?K"
    using arg_cong [OF rules1, of set] arg_cong [OF rules2, of set] by (simp add: image_Un)
  from expired_keys [OF ok known this] have tab: "table_of (fw st') = live ?now (table_of ?f)" using st'(4) by simp
  have "?S = {mp_timestamp m | m. m \<in> ran (table_of ?f) \<and> ?now < mp_timestamp m}"
    unfolding keys_dom [OF ok] by (auto simp: live_times_def ran_def dom_def)
  then show ?thesis using l1 l2 st' nx tab by (simp add: get_upnp_rules_state_list_def Let_def)
qed

lemma reach_inv:
  assumes "rdr_reach ops perms st0 st" "ok (fw st0)" "valid_table (table_of (fw st0))" "permitted perms (table_of (fw st0))"
  shows "ok (fw st) \<and> valid_table (table_of (fw st)) \<and> permitted perms (table_of (fw st))"
  using assms(1)
proof induction
  case (Step st st')
  then have inv: "ok (fw st)" "valid_table (table_of (fw st))" "permitted perms (table_of (fw st))" by auto
  from Step(2) show ?case
  proof (cases rule: rdr_step.cases)
    case (Add cf rhost eport iaddr iport protocol desc dur r)
    with redirect_refines [OF inv(1), of cf rhost eport iaddr iport protocol desc dur] inv spec_redirect_permitted
      spec_redirect_known show ?thesis by fastforce
  next
    case (Delete cf eport protocol r)
    with delete_refines [OF inv(1) valid_proto_atoi, of cf eport protocol]
    have "ok (fw st')" "table_of (fw st') = (table_of (fw st))((eport, proto_atoi protocol) := None)"
      by (fastforce simp: upnp_delete_redirection_def)+
    then show ?thesis using delete_permitted [OF inv(3)] delete_known [OF inv(2)] by metis
  next
    case (Clean cf n l)
    with cleanup_refines [OF inv(1,2), of cf n] inv live_permitted live_known show ?thesis by fastforce
  qed
qed (use assms in auto)

end

lemma remaining_expiry:
  assumes "unat (upnp_time (rc_env cf)) + unat dur < 2 ^ 32"
  shows "(if expiry cf dur = 0 then 0 else remaining cf (expiry cf dur)) = dur"
proof (cases "dur = 0")
  case False
  then have d: "0 < unat dur" by (simp add: unat_gt_0)
  have u: "unat (upnp_time (rc_env cf) + dur) = unat (upnp_time (rc_env cf)) + unat dur"
    using assms by (simp add: unat_word_ariths)
  then have "upnp_time (rc_env cf) < upnp_time (rc_env cf) + dur"
    using d by (simp add: word_less_nat_alt)
  moreover have "upnp_time (rc_env cf) + dur \<noteq> 0" using u d by (metis add_is_0 neq0_conv unat_0)
  ultimately show ?thesis using False by (auto simp: expiry_def remaining_def word_neq_0_conv)
qed (simp add: expiry_def)

section \<open>Properties\<close>

definition start_state :: "nf \<Rightarrow> nf rdr_state" where
  "start_state f = \<lparr>fw = f, lease_text = None, nextruletoclean_timestamp = 0, notified = 0\<rparr>"

definition sample_conf :: rdr_conf where
  "sample_conf = \<lparr>rc_perms = [], rc_env = sample_env, rc_disabled = False, rc_port_in_use = None\<rparr>"

lemma start_state_fw [simp]: "fw (start_state f) = f"
  by (simp add: start_state_def)

text \<open>C2: A request to add a mapping, over the netfilter tables, does exactly what the abstract
  operation on the table of mappings says, on every branch: malformed address, permission,
  existing mapping of the same or another client, port in use, forwarding disabled, new mapping.
  In particular the update the code makes twice has the effect of one.\<close>

theorem upnp_redirect_refines:
  assumes "nf_ok (fw st)"
  shows "\<exists>st'. upnp_redirect netfilter_ops cf rhost eport iaddr iport protocol desc dur st
      = (fst (spec_redirect cf rhost eport iaddr iport protocol desc dur (nf_table (fw st))), st')
    \<and> nf_ok (fw st')
    \<and> nf_table (fw st') = snd (spec_redirect cf rhost eport iaddr iport protocol desc dur (nf_table (fw st)))"
  by (rule netfilter.redirect_refines [OF assms])

theorem upnp_redirect_refines_witness:
  "\<exists>st'. upnp_redirect netfilter_ops sample_conf None 8080 ''10.0.0.9'' 80 ''TCP'' None 60 (start_state one_nf)
      = (fst (spec_redirect sample_conf None 8080 ''10.0.0.9'' 80 ''TCP'' None 60 (nf_table one_nf)), st')
    \<and> nf_ok (fw st')
    \<and> nf_table (fw st') = snd (spec_redirect sample_conf None 8080 ''10.0.0.9'' 80 ''TCP'' None 60 (nf_table one_nf))"
  using upnp_redirect_refines [of "start_state one_nf"] one_nf_ok by simp

text \<open>C1: Whatever sequence of requests to add and delete mappings and of cleanups is served, from tables without a
  mapping on and at any times, while libiptc reports no error, every mapping in the netfilter tables is one the permission list allows, and for
  every protocol, client and internal port there are at least as many filter rules as mappings. The remote
  host of a filter rule is no part of the second claim: when two mappings of a client port are for
  different hosts, the deletion of one may take the filter rule of the other
  (\<open>deletion_takes_other_filter_rule\<close>).\<close>

theorem mappings_always_permitted:
  assumes "rdr_reach netfilter_ops perms st0 st" and "nf_ok (fw st0)" and "nf_table (fw st0) = Map.empty"
  shows "permitted perms (nf_table (fw st)) \<and> enough_filter_rules (fw st) \<and> nf_ok (fw st)"
proof -
  have "valid_table (nf_table (fw st0))" "permitted perms (nf_table (fw st0))"
    using assms(3) by (simp_all add: valid_table_def permitted_def)
  from netfilter.reach_inv [OF assms(1,2) this] have inv: "permitted perms (nf_table (fw st))" "nf_ok (fw st)" by blast+
  then show ?thesis using nf_ok_filter_rules by blast
qed

theorem mappings_always_permitted_witness:
  "\<exists>st. rdr_reach netfilter_ops [] (start_state empty_nf) st \<and> st \<noteq> start_state empty_nf
     \<and> permitted [] (nf_table (fw st)) \<and> enough_filter_rules (fw st) \<and> nf_ok (fw st)"
proof -
  define st where "st = snd (upnp_delete_redir netfilter_ops sample_conf 8080 IPPROTO_TCP (start_state empty_nf))"
  have tcp: "proto_atoi ''TCP'' = IPPROTO_TCP"
    using proto_atoi_itoa [OF known_tcp] by (simp add: proto_itoa_def ipproto_defs)
  obtain r f where d: "nf_delete_redirect_and_filter_rules 8080 IPPROTO_TCP empty_nf = (Inr r, f)"
    using nf_delete_missing [OF empty_nf_ok valid_tcp empty_nf_table] by blast
  then have del: "upnp_delete_redirection netfilter_ops sample_conf 8080 ''TCP'' (start_state empty_nf) = (Inr r, st)"
    by (simp add: upnp_delete_redirection_def tcp st_def upnp_delete_redir_def)
  then have "rdr_step netfilter_ops [] (start_state empty_nf) st" by (rule rdr_step.Delete)
  then have reach: "rdr_reach netfilter_ops [] (start_state empty_nf) st" by (rule rdr_reach.Step [OF rdr_reach.Start])
  have "notified st = 1" using d by (simp add: st_def upnp_delete_redir_def start_state_def)
  then have "st \<noteq> start_state empty_nf" by (auto simp: start_state_def)
  moreover have "nf_table (fw (start_state empty_nf)) = Map.empty" by (simp add: fun_eq_iff empty_nf_table)
  ultimately show ?thesis
    using mappings_always_permitted [OF reach] reach empty_nf_ok by auto
qed

text \<open>C26: The cleanup, over the mappings and the peer rules, removes exactly the mappings whose expiry time has passed
  and schedules the next cleanup for the first expiry time of a mapping or a peer rule that is still to come, or
  none when there is none. Without a peer rule it offers no rule for the removal of unused ones, however many
  mappings there are, because the counter has been set to 0 for the second loop.\<close>

theorem cleanup_removes_expired:
  assumes "nf_ok (fw st)" and "valid_table (nf_table (fw st))"
  shows "\<exists>l st'. get_upnp_rules_state_list netfilter_ops cf n st = Some (Inr l, st') \<and> nf_ok (fw st')
    \<and> nf_table (fw st') = live (upnp_time (rc_env cf)) (nf_table (fw st))
    \<and> first_of ({mp_timestamp m | m. m \<in> ran (nf_table (fw st)) \<and> upnp_time (rc_env cf) < mp_timestamp m}
          \<union> peer_times (upnp_time (rc_env cf)) (set (nf_peers (fw st))))
        (nextruletoclean_timestamp st')
    \<and> (nf_peers (fw st) = [] \<longrightarrow> l = [])"
  by (rule netfilter.cleanup_refines [OF assms])

lemma one_nf_valid: "valid_table (nf_table one_nf)"
  by (simp add: valid_table_def one_nf_table)

theorem cleanup_removes_expired_witness:
  "\<exists>l st'. get_upnp_rules_state_list netfilter_ops sample_conf 0 (start_state one_nf) = Some (Inr l, st') \<and> nf_ok (fw st')
    \<and> nf_table (fw st') = live 100 (nf_table one_nf)
    \<and> first_of ({mp_timestamp m | m. m \<in> ran (nf_table one_nf) \<and> 100 < mp_timestamp m} \<union> peer_times 100 (set (nf_peers one_nf)))
        (nextruletoclean_timestamp st')
    \<and> (nf_peers one_nf = [] \<longrightarrow> l = [])"
proof -
  have "upnp_time (rc_env sample_conf) = 100" by (simp add: sample_conf_def sample_env_def)
  then show ?thesis
    using cleanup_removes_expired [of "start_state one_nf" sample_conf 0] one_nf_ok one_nf_valid by simp
qed

text \<open>C31: Restarting the daemon restores its mappings: a lease file of well-formed lines for different
  ports whose leases have not run out is read back into an empty table as exactly these mappings,
  with the expiry times on the clock of the new run, and is written again byte for byte.\<close>

theorem lease_reload_restores:
  assumes "nf_ok (fw st)" and "nf_table (fw st) = Map.empty"
    and "\<forall>it \<in> set items. item_ok cf it" and "distinct (map item_key items)" and "items \<noteq> []"
    and "\<not> rc_disabled cf" and "rc_port_in_use cf = None"
    and "lease_path (rc_env cf) \<noteq> None" and "fopen_ok (rc_env cf)"
    and "lease_text st = Some (concat (map (\<lambda>it. item_line it @ [newline]) items))"
  shows "\<exists>st'. reload_from_lease_file netfilter_ops cf st = (0, st') \<and> nf_ok (fw st')
    \<and> nf_table (fw st') = map_of (map (\<lambda>it. (item_key it, item_map cf it)) items)
    \<and> lease_text st' = lease_text st"
proof -
  obtain it items' where items: "items = it # items'" using assms(5) by (cases items) auto
  let ?st = "st\<lparr>lease_text := None\<rparr>" and ?load = "reload_line netfilter_ops cf"
  have it: "nf_ok (fw (?load (item_line it @ [newline]) ?st))"
    "nf_table (fw (?load (item_line it @ [newline]) ?st)) = [item_key it \<mapsto> item_map cf it]"
    "lease_text (?load (item_line it @ [newline]) ?st) = Some (item_line it @ [newline])"
    using netfilter.reload_line_ok [of ?st cf it, OF _ _ _ assms(6-9)] assms(1-3) items by auto
  have rest: "\<forall>i \<in> set items'. item_ok cf i" "distinct (map item_key items')"
    "\<forall>i \<in> set items'. nf_table (fw (?load (item_line it @ [newline]) ?st)) (item_key i) = None"
    using assms(3,4) items it(2) by (auto simp: image_iff)
  have "\<forall>l \<in> set (map item_line items). whole_line 128 l" using assms(3) by (auto simp: item_ok_def)
  from file_lines_whole [OF this] have "file_lines 128 (concat (map (\<lambda>it. item_line it @ [newline]) items))
      = map (\<lambda>it. item_line it @ [newline]) items" by (simp add: comp_def)
  then have load: "reload_from_lease_file netfilter_ops cf st
      = (0, fold ?load (map (\<lambda>it. item_line it @ [newline]) items') (?load (item_line it @ [newline]) ?st))"
    using assms(8-10) items by (auto simp: reload_from_lease_file_def)
  have "item_key it \<notin> dom (map_of (map (\<lambda>it. (item_key it, item_map cf it)) items'))"
    using assms(4) items by (simp add: dom_map_of_conv_image_fst image_comp comp_def)
  from map_add_upd_left [OF this, of Map.empty "item_map cf it"]
  have m: "[item_key it \<mapsto> item_map cf it] ++ map_of (map (\<lambda>it. (item_key it, item_map cf it)) items')
      = map_of (map (\<lambda>it. (item_key it, item_map cf it)) items)" by (simp add: items)
  from netfilter.reload_lines_ok [OF assms(6-9) it(1) rest it(3)] show ?thesis
    unfolding Let_def it(2) m using load assms(10) items by simp
qed

definition sample_item :: lease_item where
  "sample_item = \<lparr>li_proto = IPPROTO_TCP, li_eport = 80, li_ip = 1, li_iport = 8, li_time = 0, li_desc = ''w''\<rparr>"

lemma sample_item_ok: "item_ok sample_conf sample_item"
proof -
  have "octet 0 1 = 1" "octet 1 1 = 0" "octet 2 1 = 0" "octet 3 1 = 0" by (simp_all add: octet_def)
  moreover have "dec 1 = ''1''" by code_simp
  ultimately have "dotted 1 = ''0.0.0.1''" by (simp only: dotted_def dec_zero append.simps)
  moreover have "clean_desc ''w''" by (simp add: clean_desc_def isspace_def)
  ultimately show ?thesis
    by (simp add: item_ok_def sample_item_def sample_conf_def item_line_def lease_line_def whole_line_def
        newline_def proto_itoa_def ipproto_defs known_proto_def dec.simps digit_char_def char_of_def)
qed

theorem lease_reload_restores_witness:
  "\<exists>st'. reload_from_lease_file netfilter_ops sample_conf ((start_state empty_nf)\<lparr>lease_text :=
        Some (concat (map (\<lambda>it. item_line it @ [newline]) [sample_item]))\<rparr>) = (0, st') \<and> nf_ok (fw st')
    \<and> nf_table (fw st') = map_of (map (\<lambda>it. (item_key it, item_map sample_conf it)) [sample_item])
    \<and> lease_text st' = Some (concat (map (\<lambda>it. item_line it @ [newline]) [sample_item]))"
proof -
  let ?st = "(start_state empty_nf)\<lparr>lease_text := Some (concat (map (\<lambda>it. item_line it @ [newline]) [sample_item]))\<rparr>"
  have "nf_table (fw ?st) = Map.empty" by (simp add: fun_eq_iff empty_nf_table)
  moreover have "nf_ok (fw ?st)" by (simp add: empty_nf_ok)
  ultimately show ?thesis
    using lease_reload_restores [of ?st "[sample_item]" sample_conf] sample_item_ok
    by (simp add: sample_conf_def sample_env_def)
qed

text \<open>Counting the mappings ends, and gives the number of mappings in the netfilter tables.\<close>

theorem number_of_entries_counts:
  assumes "nf_ok (fw st)"
  shows "upnp_get_portmapping_number_of_entries netfilter_ops cf st = Some (card (dom (nf_table (fw st))), st)"
proof -
  have "card (dom (nf_table (fw st))) = length (nf_keys (fw st))"
    using distinct_card [OF nf_okD(5) [OF assms]] by (simp add: nf_table_keys)
  then show ?thesis
    using netfilter.count_entries_ok [OF assms, of 0 cf] by (simp add: upnp_get_portmapping_number_of_entries_def)
qed

theorem number_of_entries_counts_witness:
  "upnp_get_portmapping_number_of_entries netfilter_ops sample_conf (start_state one_nf) = Some (1, start_state one_nf)"
  using number_of_entries_counts [of "start_state one_nf" sample_conf] one_nf_ok by (simp add: one_nf_table)

text \<open>A mapping that was added is reported with its client, port and description, and with the lease
  that was asked for, as long as the daemon's clock and the lease do not exceed 32 bits.\<close>

theorem added_mapping_is_reported:
  assumes "nf_ok (fw st)" and "nf_table (fw st) (eport, proto_atoi protocol) = None"
    and "inet_aton iaddr = Some a" and "check_upnp_rule_against_permissions (rc_perms cf) eport a iport"
    and "\<not> rc_disabled cf" and "rc_port_in_use cf = None"
    and "unat (upnp_time (rc_env cf)) + unat dur < 2 ^ 32"
    and "16 \<le> iaddrlen b" and "CHR 0x00 \<notin> set desc" and "length desc < desclen b"
  shows "\<exists>st' i. upnp_redirect netfilter_ops cf rhost eport iaddr iport protocol (Some desc) dur st = (0, st')
    \<and> upnp_get_redirection_infos netfilter_ops cf b eport protocol st'
        = (Some (i, if host_addr rhost = 0 then [] else snprintip (rhostlen b) (host_addr rhost), dur), st')
    \<and> i_iaddr i = dotted a \<and> i_iport i = iport \<and> cstring (i_desc i) = desc"
proof -
  obtain st' where st': "upnp_redirect netfilter_ops cf rhost eport iaddr iport protocol (Some desc) dur st = (0, st')"
    "nf_ok (fw st')" "nf_table (fw st') = (nf_table (fw st))((eport, proto_atoi protocol) \<mapsto>
        new_portmap rhost iaddr iport (Some desc) (expiry cf dur))"
    using netfilter.redirect_new [OF assms(1-6), of rhost desc dur] by blast
  have "inet_addr iaddr = a" using assms(3) by (simp add: inet_addr_def)
  then show ?thesis
    using netfilter.infos_ok [OF st'(2), where eport = eport and protocol = protocol and cf = cf and b = b] st' assms(8-10) remaining_expiry [OF assms(7)]
    by (auto simp: new_portmap_def shows_portmap_def snprintip_whole cstring_strncpy)
qed

theorem added_mapping_is_reported_witness:
  "\<exists>st' i. upnp_redirect netfilter_ops sample_conf None 22 (dotted 167772162) 22 ''TCP'' (Some ''ssh'') 60 (start_state empty_nf) = (0, st')
    \<and> upnp_get_redirection_infos netfilter_ops sample_conf count_sizes 22 ''TCP'' st'
        = (Some (i, if host_addr None = 0 then [] else snprintip (rhostlen count_sizes) (host_addr None), 60), st')
    \<and> i_iaddr i = dotted 167772162 \<and> i_iport i = 22 \<and> cstring (i_desc i) = ''ssh''"
  by (rule added_mapping_is_reported)
    (simp_all add: empty_nf_ok empty_nf_table inet_aton_dotted sample_conf_def sample_env_def count_sizes_def)

text \<open>Renewing a mapping of the same client stores the new expiry time but leaves the time of the
  next cleanup as it is: when none was scheduled, or a later one, the mapping outlives its lease.\<close>

theorem renewal_not_scheduled:
  assumes "nf_ok (fw st)" and "nf_table (fw st) (eport, proto_atoi protocol) = Some m"
    and "same_rhost rhost (rhost_text m)"
    and "check_upnp_rule_against_permissions (rc_perms cf) eport (mp_iaddr m) iport"
  shows "\<exists>st'. upnp_redirect netfilter_ops cf rhost eport (dotted (mp_iaddr m)) iport protocol desc dur st = (0, st')
    \<and> (\<exists>m'. nf_table (fw st') (eport, proto_atoi protocol) = Some m' \<and> mp_timestamp m' = expiry cf dur)
    \<and> nextruletoclean_timestamp st' = nextruletoclean_timestamp st"
  using netfilter.redirect_existing [OF assms, of desc dur] by auto

lemma tcp_atoi [simp]: "proto_atoi ''TCP'' = IPPROTO_TCP"
  using proto_atoi_itoa [OF known_tcp] by (simp add: proto_itoa_def ipproto_defs)

theorem renewal_not_scheduled_witness:
  "\<exists>st'. upnp_redirect netfilter_ops sample_conf None 8080 (dotted (inet_addr ''10.0.0.2'')) 80 ''TCP'' None 60
      (start_state one_nf) = (0, st')
    \<and> (\<exists>m'. nf_table (fw st') (8080, IPPROTO_TCP) = Some m' \<and> mp_timestamp m' = 160)
    \<and> nextruletoclean_timestamp st' = 0"
proof -
  let ?m = "new_portmap None ''10.0.0.2'' 80 (Some ''web'') 0"
  have m: "mp_iaddr ?m = inet_addr ''10.0.0.2''" by (simp add: new_portmap_def)
  have "expiry sample_conf 60 = 160" by (simp add: expiry_def sample_conf_def sample_env_def)
  moreover have "same_rhost None (rhost_text ?m)"
    by (simp add: same_rhost_def rhost_text_def new_portmap_def host_addr_def host_given_def)
  ultimately show ?thesis
    using renewal_not_scheduled [of "start_state one_nf" 8080 "''TCP''" ?m None sample_conf 80 None 60] one_nf_ok
    by (simp add: m one_nf_table) (simp add: start_state_def sample_conf_def)
qed

text \<open>When the filter rule of a new mapping cannot be added, the request fails but the redirect
  rule stays in the nat table and the mapping in the lease file, without a filter rule.\<close>

theorem failed_filter_rule_leaves_redirect:
  assumes "nf_ok (fw st)" and "nf_table (fw st) (eport, proto_atoi protocol) = None"
    and "inet_aton iaddr = Some a" and "check_upnp_rule_against_permissions (rc_perms cf) eport a iport"
    and "\<not> rc_disabled cf" and "rc_port_in_use cf = None" and "\<not> port_triggering (fw st)"
    and "upnp_redirect netfilter_ops cf rhost eport iaddr iport protocol (Some desc) dur
          (st\<lparr>fw := (fw st)\<lparr>outcomes := [True, True, True, True, False]\<rparr>\<rparr>) = (r, st')"
  shows "r = - 1 \<and> nat_entries (fw st') = nat_entries (fw st) @ [nat_entry (proto_atoi protocol) eport iaddr iport rhost]
    \<and> filter_entries (fw st') = filter_entries (fw st)
    \<and> lease_text st' = snd (lease_file_add (rc_env cf) eport iaddr iport (proto_atoi protocol) desc (expiry cf dur) (lease_text st))"
proof -
  note okd = nf_okD [OF assms(1)]
  have none: "find (matches_dport (proto_atoi protocol) eport) (nat_entries (fw st)) = None"
    using assms(2) by (simp add: nf_table_def matches_key)
  have get: "nf_get_redirect_rule redirect_sizes eport (proto_atoi protocol) ((fw st)\<lparr>outcomes := [True, True, True, True, False]\<rparr>)
      = (None, (fw st)\<lparr>outcomes := [True, True, True, False]\<rparr>)"
    using okd(2) none by (simp add: nf_get_redirect_rule_def get_nat_redirect_rule_def iptc_call_def)
  have add: "add_redirect_rule2 rhost eport iaddr iport (proto_atoi protocol) (Some desc) (expiry cf dur)
        ((fw st)\<lparr>outcomes := [True, True, True, False]\<rparr>)
      = (0, (set_table Nat (nat_chain (fw st)) (nat_entries (fw st) @ [nat_entry (proto_atoi protocol) eport iaddr iport rhost]) (fw st))
          \<lparr>outcomes := [False], rdr_desc_list := add_redirect_desc eport (proto_atoi protocol) (Some desc) (expiry cf dur)
             (rdr_desc_list (fw st))\<rparr>)"
    using okd(2) assms(7) by (simp add: add_redirect_rule2_def addnatrule_def iptc_init_verify_and_append_def
        iptc_edit_commit_def iptc_call_def set_table_def)
  have "r = - 1 \<and> fw st' = (set_table Nat (nat_chain (fw st)) (nat_entries (fw st) @ [nat_entry (proto_atoi protocol) eport iaddr iport rhost]) (fw st))
          \<lparr>outcomes := [], rdr_desc_list := add_redirect_desc eport (proto_atoi protocol) (Some desc) (expiry cf dur)
             (rdr_desc_list (fw st))\<rparr>
     \<and> lease_text st' = snd (lease_file_add (rc_env cf) eport iaddr iport (proto_atoi protocol) desc (expiry cf dur) (lease_text st))"
    using assms(3-6,8) get add
    by (auto simp: upnp_redirect_def upnp_redirect_internal_def Let_def add_filter_rule2_def add_filter_rule_def
        iptc_init_verify_and_append_def iptc_call_def)
  then show ?thesis by (simp add: nat_entries_def filter_entries_def)
qed

theorem failed_filter_rule_leaves_redirect_witness:
  "let (r, st') = upnp_redirect netfilter_ops sample_conf None 22 (dotted 167772162) 22 ''TCP'' (Some ''ssh'') 60
       ((start_state empty_nf)\<lparr>fw := (fw (start_state empty_nf))\<lparr>outcomes := [True, True, True, True, False]\<rparr>\<rparr>)
   in r = - 1 \<and> nat_entries (fw st') = [nat_entry IPPROTO_TCP 22 (dotted 167772162) 22 None] \<and> filter_entries (fw st') = []"
proof -
  obtain r st' where run: "upnp_redirect netfilter_ops sample_conf None 22 (dotted 167772162) 22 ''TCP'' (Some ''ssh'') 60
       ((start_state empty_nf)\<lparr>fw := (fw (start_state empty_nf))\<lparr>outcomes := [True, True, True, True, False]\<rparr>\<rparr>) = (r, st')"
    by fastforce
  from failed_filter_rule_leaves_redirect [OF _ _ inet_aton_dotted _ _ _ _ run] show ?thesis
    unfolding run by (simp add: empty_nf_ok empty_nf_table sample_conf_def)
      (simp add: empty_nf_def nat_entries_def filter_entries_def)
qed

text \<open>Removing unused rules never removes one: at the first rule that carried no packet since the
  last check, the port to delete is read through a pointer without a value.\<close>

lemma unused_rules_read_uninitialised:
  assumes "nf_get_redirect_rule no_sizes (rs_eport rs) (sint (rs_proto rs)) (fw st) = (Some i, f)"
    and "i_packets i = rs_packets rs" and "i_bytes i = rs_bytes rs"
  shows "fst (remove_unused_rules netfilter_ops (rs # l) st) = Inl Uninitialised"
  using assms by simp

lemma unused_rules_read_uninitialised_witness:
  "\<exists>p b. fst (remove_unused_rules netfilter_ops
      [\<lparr>rs_packets = p, rs_bytes = b, rs_eport = 8080, rs_proto = word_of_int IPPROTO_TCP, rs_to_remove = False\<rparr>]
      (start_state one_nf)) = Inl Uninitialised"
proof -
  have "nf_table one_nf (8080, IPPROTO_TCP) = Some (new_portmap None ''10.0.0.2'' 80 (Some ''web'') 0)"
    by (simp add: one_nf_table)
  then obtain i where "nf_get_redirect_rule no_sizes 8080 IPPROTO_TCP one_nf = (Some i, one_nf)"
    using nf_get_some [OF one_nf_ok] by blast
  then show ?thesis
    using unused_rules_read_uninitialised [of "\<lparr>rs_packets = i_packets i, rs_bytes = i_bytes i, rs_eport = 8080,
        rs_proto = word_of_int IPPROTO_TCP, rs_to_remove = False\<rparr>" "start_state one_nf" i one_nf "[]"]
    by (intro exI [of _ "i_packets i"] exI [of _ "i_bytes i"]) (simp add: sint_word_known)
qed

text \<open>The client of the sample mapping.\<close>

lemma one_nf_client [simp]: "mp_iaddr (new_portmap None ''10.0.0.2'' 80 (Some ''web'') 0) = 167772162"
proof -
  have "octet 0 167772162 = 2" "octet 1 167772162 = 0" "octet 2 167772162 = 0" "octet 3 167772162 = 10"
    by (simp_all add: octet_def)
  moreover have "dec 10 = ''10''" "dec 2 = ''2''" by code_simp+
  ultimately have "dotted 167772162 = ''10.0.0.2''" by (simp only: dotted_def dec_zero append.simps)
  then show ?thesis using inet_aton_dotted [of 167772162] by (simp add: new_portmap_def inet_addr_def)
qed

end
