(* ===== verification/Net_Bytes.thy ===== *)
theory Net_Bytes
  imports Lease_File
begin

text \<open>
  Packets as lists of bytes with the network order accessors of \<^verbatim>\<open>macros.h\<close>, and addresses: the
  test for reserved addresses of \<^verbatim>\<open>getifaddr.c\<close> and the parser \<^verbatim>\<open>inet_pton\<close> of the C library.
\<close>

section \<open>Numbers in packets\<close>

type_synonym byte = "8 word"

definition readnu16 :: "byte list \<Rightarrow> nat \<Rightarrow> port" where
  "readnu16 p i = push_bit 8 (ucast (p ! i)) OR ucast (p ! (i + 1))"

definition readnu32 :: "byte list \<Rightarrow> nat \<Rightarrow> u32" where
  "readnu32 p i = push_bit 24 (ucast (p ! i)) OR push_bit 16 (ucast (p ! (i + 1)))
     OR push_bit 8 (ucast (p ! (i + 2))) OR ucast (p ! (i + 3))"

definition writenu16 :: "port \<Rightarrow> byte list" where
  "writenu16 n = [ucast (drop_bit 8 (n AND 0xff00)), ucast (n AND 0xff)]"

definition writenu32 :: "u32 \<Rightarrow> byte list" where
  "writenu32 n = [ucast (drop_bit 24 (n AND 0xff000000)), ucast (drop_bit 16 (n AND 0xff0000)),
     ucast (drop_bit 8 (n AND 0xff00)), ucast (n AND 0xff)]"

lemma length_writenu [simp]: "length (writenu16 n) = 2" "length (writenu32 m) = 4"
  by (simp_all add: writenu16_def writenu32_def)

lemma port_masks: "(0xff :: port) = mask 8" "(0xff00 :: port) = push_bit 8 (mask 8)"
  by (simp_all add: mask_eq_exp_minus_1 push_bit_eq_mult)

lemma u32_masks: "(0xff :: u32) = mask 8" "(0xff00 :: u32) = push_bit 8 (mask 8)"
  "(0xff0000 :: u32) = push_bit 16 (mask 8)" "(0xff000000 :: u32) = push_bit 24 (mask 8)"
  by (simp_all add: mask_eq_exp_minus_1 push_bit_eq_mult)

lemma read_write_16: "readnu16 (pre @ writenu16 n @ post) (length pre) = n"
proof (rule bit_word_eqI)
  fix k assume "k < LENGTH(16)"
  then show "bit (readnu16 (pre @ writenu16 n @ post) (length pre)) k = bit n k"
    unfolding readnu16_def writenu16_def port_masks
    by (cases "k < 8") (auto simp: nth_append bit_simps)
qed

lemma read_write_32: "readnu32 (pre @ writenu32 n @ post) (length pre) = n"
proof (rule bit_word_eqI)
  fix k assume "k < LENGTH(32)"
  then consider "k < 8" | "8 \<le> k" "k < 16" | "16 \<le> k" "k < 24" | "24 \<le> k" "k < 32" by fastforce
  then show "bit (readnu32 (pre @ writenu32 n @ post) (length pre)) k = bit n k"
    unfolding readnu32_def writenu32_def u32_masks
    by cases (auto simp: nth_append bit_simps)
qed

section \<open>Addresses\<close>

definition reserved :: "(ipv4 \<times> nat) list" where
  "reserved =
     (let IP = (\<lambda>a b c d. push_bit 24 a + push_bit 16 b + push_bit 8 c + d :: ipv4) in
      [(IP 0 0 0 0, 32 - 8), (IP 10 0 0 0, 32 - 8), (IP 100 64 0 0, 32 - 10), (IP 127 0 0 0, 32 - 8),
       (IP 169 254 0 0, 32 - 16), (IP 192 0 0 0, 32 - 24), (IP 192 0 2 0, 32 - 24),
       (IP 192 31 196 0, 32 - 24), (IP 192 52 193 0, 32 - 24), (IP 192 88 99 0, 32 - 24),
       (IP 192 168 0 0, 32 - 16), (IP 192 175 48 0, 32 - 24), (IP 198 18 0 0, 32 - 15),
       (IP 198 51 100 0, 32 - 24), (IP 203 0 113 0, 32 - 24), (IP 224 0 0 0, 32 - 4),
       (IP 240 0 0 0, 32 - 4)])"

definition addr_is_reserved :: "ipv4 \<Rightarrow> bool" where
  "addr_is_reserved a \<longleftrightarrow> (\<exists>(r, rmask) \<in> set reserved. drop_bit rmask a = drop_bit rmask r)"

text \<open>\<^verbatim>\<open>inet_pton(AF_INET, ...)\<close>: four decimal octets, without leading zeros.\<close>

definition pton_octet :: "string \<Rightarrow> nat option" where
  "pton_octet s = (if s \<noteq> [] \<and> list_all isdigit s \<and> (length s = 1 \<or> hd s \<noteq> CHR ''0'') \<and> dec_val s \<le> 255
     then Some (dec_val s) else None)"

definition inet_pton4 :: "string \<Rightarrow> byte list option" where
  "inet_pton4 s =
     (case find_char CHR ''.'' s of None \<Rightarrow> None | Some (a, r1) \<Rightarrow>
      (case find_char CHR ''.'' r1 of None \<Rightarrow> None | Some (b, r2) \<Rightarrow>
       (case find_char CHR ''.'' r2 of None \<Rightarrow> None | Some (c, d) \<Rightarrow>
        (case (pton_octet a, pton_octet b, pton_octet c, pton_octet d) of
           (Some w, Some x, Some y, Some z) \<Rightarrow> Some (map word_of_nat [w, x, y, z])
         | _ \<Rightarrow> None))))"

lemma pton_octet_dec: "n < 256 \<Longrightarrow> pton_octet (dec n) = Some n"
proof -
  assume n: "n < 256"
  have "length (dec n) = 1 \<or> hd (dec n) \<noteq> CHR ''0''"
    using hd_dec_zero [of n] by (cases "n = 0") auto
  then show ?thesis
    using n dec_digits [of n] by (auto simp: pton_octet_def list_all_iff)
qed

lemma dot_dec [simp]: "CHR ''.'' \<notin> set (dec n)"
  using dec_digits [of n] by (auto simp: isdigit_def)

lemma inet_pton4_dotted:
  "inet_pton4 (dotted a) = Some (map word_of_nat [octet 3 a, octet 2 a, octet 1 a, octet 0 a])"
  by (simp add: inet_pton4_def dotted_def find_char_sep pton_octet_dec)

lemma octet_bits: "octet k a = take_bit 8 (drop_bit (8 * k) (unat a))"
  by (simp add: octet_def take_bit_eq_mod drop_bit_eq_div power_mult)

lemma octets_bytes:
  "map word_of_nat [octet 3 a, octet 2 a, octet 1 a, octet 0 a] = writenu32 a"
proof -
  have "word_of_nat (octet k a) = (ucast (drop_bit (8 * k) (a AND push_bit (8 * k) (mask 8))) :: byte)" if "k \<le> 3" for k
    using that by (intro bit_word_eqI) (auto simp: octet_bits bit_simps)
  from this [of 0] this [of 1] this [of 2] this [of 3] show ?thesis
    by (simp add: writenu32_def u32_masks)
qed

lemma inet_pton4_bytes: "inet_pton4 (dotted a) = Some (writenu32 a)"
  by (simp only: inet_pton4_dotted octets_bytes)

lemma pton_octet_Some: "pton_octet s = Some n \<Longrightarrow> s = dec n \<and> n < 256"
  using dec_dec_val [of s] by (auto simp: pton_octet_def split: if_splits)

lemma find_char_Some: "find_char c s = Some (a, r) \<Longrightarrow> s = a @ c # r"
proof (induction s arbitrary: a)
  case (Cons x s)
  then show ?case
  proof (cases "x = c")
    case False
    then have "find_char c s = Some (tl a, r)" "a = x # tl a"
      using Cons.prems by (auto simp: find_char_def split: if_splits)
    then show ?thesis using Cons.IH [of "tl a"] by (metis append_Cons)
  qed (auto simp: find_char_def)
qed (simp add: find_char_def)

lemma write_read_32: "length b = 4 \<Longrightarrow> writenu32 (readnu32 b 0) = b"
proof -
  assume "length b = 4"
  then obtain w x y z where b: "b = [w, x, y, z]"
    by (auto simp: numeral_eq_Suc length_Suc_conv)
  show ?thesis
    unfolding b writenu32_def readnu32_def u32_masks
    by (simp; intro conjI bit_word_eqI) (auto simp: bit_simps dest: bit_imp_le_length)
qed

lemma bytes_below: "m < 256 \<Longrightarrow> n < 256 \<Longrightarrow> word_of_nat m = (word_of_nat n :: byte) \<Longrightarrow> m = n"
  by (drule arg_cong [of _ _ unat]) (simp add: unat_of_nat take_bit_nat_eq_self)

lemma inet_pton4_text:
  assumes "inet_pton4 s = Some b"
  shows "s = dotted (readnu32 b 0)"
proof -
  obtain t1 r1 t2 r2 t3 t4 w x y z where
    f: "find_char CHR ''.'' s = Some (t1, r1)" "find_char CHR ''.'' r1 = Some (t2, r2)"
      "find_char CHR ''.'' r2 = Some (t3, t4)"
    and o: "pton_octet t1 = Some w" "pton_octet t2 = Some x" "pton_octet t3 = Some y" "pton_octet t4 = Some z"
    and b: "b = map word_of_nat [w, x, y, z]"
    using assms by (auto simp: inet_pton4_def split: option.splits)
  let ?a = "readnu32 b 0"
  have s: "s = dec w @ ''.'' @ dec x @ ''.'' @ dec y @ ''.'' @ dec z" and l: "w < 256" "x < 256" "y < 256" "z < 256"
    using f [THEN find_char_Some] o [THEN pton_octet_Some] by auto
  have "map word_of_nat [octet 3 ?a, octet 2 ?a, octet 1 ?a, octet 0 ?a] = (map word_of_nat [w, x, y, z] :: byte list)"
    unfolding octets_bytes using write_read_32 [of b] b by simp
  then have "octet 3 ?a = w" "octet 2 ?a = x" "octet 1 ?a = y" "octet 0 ?a = z"
    using l by (auto intro!: bytes_below)
  then show ?thesis by (simp add: s dotted_def)
qed

lemma inet_pton4_aton: "inet_pton4 s = Some b \<Longrightarrow> inet_aton s = Some (readnu32 b 0)"
  using inet_pton4_text [of s b] inet_aton_dotted by metis

text \<open>\<^verbatim>\<open>sockaddr_to_string\<close> of \<^verbatim>\<open>upnputils.c\<close> for an IPv4 address: the text in a buffer of \<open>n\<close> bytes.\<close>

definition sockaddr_to_string :: "nat \<Rightarrow> ipv4 \<Rightarrow> port \<Rightarrow> string" where
  "sockaddr_to_string n addr port = take (n - 1) (dotted addr @ '':'' @ dec (unat port))"

lemma sockaddr_not_an_address:
  assumes "32 \<le> n"
  shows "inet_aton (sockaddr_to_string n addr port) = None"
proof -
  have "length (dec (unat port)) \<le> 5" using unat_port_less [of port] by (intro length_dec) auto
  then have "sockaddr_to_string n addr port = dotted addr @ CHR '':'' # dec (unat port)"
    using assms length_dotted [of addr] by (simp add: sockaddr_to_string_def)
  then show ?thesis by (simp add: inet_aton_dotted_rest isdigit_def isspace_def)
qed

end
