(* ===== verification/Natpmp.thy ===== *)
theory Natpmp
  imports Upnp_Redirect Net_Bytes
begin

text \<open>
  The NAT-PMP server of \<^verbatim>\<open>natpmp.c\<close>: a request packet in, the response packet and the changed
  mappings out. Packets are lists of bytes.
\<close>

section \<open>The public address\<close>

text \<open>\<open>np_ifaddr\<close> is what \<^verbatim>\<open>getifaddr\<close> finds for the external interface: its address.\<close>

record natpmp_conf =
  np_rdr :: rdr_conf
  np_use_ext_ip_addr :: "string option"
  np_ext_if_name :: "string option"
  np_ifaddr :: "ipv4 option"
  np_startup_time :: u32

text \<open>The result code and the four bytes of the address; an address that is not set leaves zeros.\<close>

definition fill_public_address :: "natpmp_conf \<Rightarrow> byte \<times> byte list" where
  "fill_public_address np =
     (case np_use_ext_ip_addr np of
        Some ip \<Rightarrow> (0, case inet_pton4 ip of None \<Rightarrow> replicate 4 0 | Some a \<Rightarrow> a)
      | None \<Rightarrow>
        (if np_ext_if_name np = None \<or> np_ext_if_name np = Some [] then (3, replicate 4 0)
         else (case np_ifaddr np of None \<Rightarrow> (3, replicate 4 0)
           | Some addr \<Rightarrow>
             (if addr_is_reserved addr then (3, replicate 4 0)
              else (0, case inet_pton4 (dotted addr) of None \<Rightarrow> replicate 4 0 | Some a \<Rightarrow> a)))))"

section \<open>Mapping requests\<close>

definition natpmp_sizes :: buf_sizes where
  "natpmp_sizes = \<lparr>iaddrlen = 16, desclen = 64, rhostlen = 0\<rparr>"

text \<open>Deleting: the loop over the mappings by index, which stays at the index after a deletion. \<open>None\<close>
  when it does not end; otherwise the result code.\<close>

partial_function (option) natpmp_delete_loop ::
  "'st fw_ops \<Rightarrow> rdr_conf \<Rightarrow> string \<Rightarrow> port \<Rightarrow> int \<Rightarrow> nat \<Rightarrow> 'st rdr_state
    \<Rightarrow> ((fw_fault + byte) \<times> 'st rdr_state) option" where
  "natpmp_delete_loop ops cf sender iport proto index st =
     (let (found, fw1) = op_get_by_index ops index natpmp_sizes (fw st); st1 = st\<lparr>fw := fw1\<rparr> in
      case found of None \<Rightarrow> Some (Inr 0, st1)
      | Some (proto2, eport2, i) \<Rightarrow>
        (if sender = i_iaddr i \<and> take 7 (i_desc i) = ''NAT-PMP''
            \<and> (iport = 0 \<or> (iport = i_iport i \<and> proto = proto2))
         then (case upnp_delete_redir ops cf eport2 proto2 st1 of
                 (Inl f, st2) \<Rightarrow> Some (Inl f, st2)
               | (Inr r, st2) \<Rightarrow>
                 (if r < 0 then Some (Inr 2, st2)
                  else natpmp_delete_loop ops cf sender iport proto index st2))
         else natpmp_delete_loop ops cf sender iport proto (index + 1) st1))"

definition next_eport :: "port \<Rightarrow> port" where
  "next_eport eport = (if eport + 1 = 0 then eport + 2 else eport + 1)"

definition natpmp_lookup_sizes :: buf_sizes where
  "natpmp_lookup_sizes = \<lparr>iaddrlen = 16, desclen = 0, rhostlen = 0\<rparr>"

definition natpmp_desc :: "port \<Rightarrow> int \<Rightarrow> string" where
  "natpmp_desc eport proto =
     take 63 (''NAT-PMP '' @ dec (unat eport) @ (if proto = IPPROTO_TCP then '' tcp'' else '' udp''))"

text \<open>Redirecting an external port that was found, after the same mapping was removed when it existed.\<close>

definition natpmp_redirect ::
  "'st fw_ops \<Rightarrow> rdr_conf \<Rightarrow> string \<Rightarrow> port \<Rightarrow> int \<Rightarrow> u32 \<Rightarrow> bool \<Rightarrow> port \<Rightarrow> 'st rdr_state
    \<Rightarrow> (fw_fault + byte) \<times> 'st rdr_state" where
  "natpmp_redirect ops cf sender iport proto lifetime replace eport st =
     (let (r, st1) = (if replace then upnp_delete_redir ops cf eport proto st else (Inr 0, st)) in
      case r of Inl f \<Rightarrow> (Inl f, st1)
      | Inr v \<Rightarrow>
        (if v < 0 then (Inr 0, st1)
         else (let (r2, st2) = upnp_redirect_internal ops cf None eport sender iport proto (natpmp_desc eport proto)
                                 (upnp_time (rc_env cf) + lifetime) st1
               in (Inr (if r2 < 0 then 3 else 0), st2))))"

text \<open>The search for an external port: \<open>eport_first\<close> is 0 in the first round. The search goes round
  all ports but 0 and ends at the port it began with.\<close>

function natpmp_search ::
  "'st fw_ops \<Rightarrow> rdr_conf \<Rightarrow> ipv4 \<Rightarrow> port \<Rightarrow> int \<Rightarrow> u32 \<Rightarrow> port \<Rightarrow> bool \<Rightarrow> port \<Rightarrow> 'st rdr_state
    \<Rightarrow> (fw_fault + byte \<times> port) \<times> 'st rdr_state" where
  "natpmp_search ops cf sender iport proto lifetime eport_first any_eport_allowed eport st =
     (if eport_first \<noteq> 0 \<and> eport = eport_first then (Inr (if any_eport_allowed then 4 else 2, eport), st)
      else (let first = (if eport_first = 0 then eport else eport_first) in
        if \<not> check_upnp_rule_against_permissions (rc_perms cf) eport sender iport
        then natpmp_search ops cf sender iport proto lifetime first any_eport_allowed (next_eport eport) st
        else if (case rc_port_in_use cf of None \<Rightarrow> False | Some test \<Rightarrow> test eport proto (dotted sender) iport > 0)
        then natpmp_search ops cf sender iport proto lifetime first True (next_eport eport) st
        else (let (found, fw1) = op_get ops natpmp_lookup_sizes eport proto (fw st); st1 = st\<lparr>fw := fw1\<rparr>;
                  mine = (case found of None \<Rightarrow> False
                          | Some i \<Rightarrow> dotted sender = i_iaddr i \<and> iport = i_iport i)
          in if found \<noteq> None \<and> \<not> mine
             then natpmp_search ops cf sender iport proto lifetime first True (next_eport eport) st1
             else (let (r, st2) = natpmp_redirect ops cf (dotted sender) iport proto lifetime mine eport st1
                   in (map_sum id (\<lambda>c. (c, eport)) r, st2)))))"
  by pat_completeness auto

text \<open>How far the search is from the port it began with.\<close>

definition natpmp_dist :: "port \<Rightarrow> port \<Rightarrow> nat" where
  "natpmp_dist first eport =
     (if first = 0 then if eport = 0 then 65538 else 65537 else unat (first - eport))"

lemma unat_minus_one_port: "x \<noteq> 0 \<Longrightarrow> unat (x - 1 :: port) = unat x - 1"
  by (metis unat_minus_one)

lemma next_eport_closer:
  assumes "first \<noteq> 0" "eport \<noteq> first"
  shows "unat (first - next_eport eport) < unat (first - eport)"
proof (cases "eport + 1 = 0")
  case True
  then have e: "eport = - 1" by (metis add_eq_0_iff add.commute)
  have "first + 1 \<noteq> 0" using e assms(2) by (metis add_eq_0_iff add.commute)
  then have "unat (first + 1) = unat first + 1" by (metis unat_plus_simple Suc_eq_plus1 unatSuc add.commute)
  moreover have "first - next_eport eport = first - 1" "first - eport = first + 1"
    using e by (simp_all add: next_eport_def)
  ultimately have "unat (first - eport) = unat first + 1" "unat (first - next_eport eport) = unat first - 1"
    using unat_minus_one_port [OF assms(1)] by (simp_all only:)
  then show ?thesis by linarith
next
  case False
  then have "first - next_eport eport = first - eport - 1" by (simp add: next_eport_def)
  moreover have "first - eport \<noteq> 0" "0 < unat (first - eport)" using assms(2) by (simp_all add: unat_gt_0)
  ultimately have "unat (first - next_eport eport) = unat (first - eport) - 1" "0 < unat (first - eport)"
    by (simp_all only: unat_minus_one_port not_False_eq_True)
  then show ?thesis by linarith
qed

lemma natpmp_dist_first: "natpmp_dist eport (next_eport eport) < natpmp_dist 0 eport"
proof (cases "eport = 0")
  case True
  then show ?thesis by (simp add: natpmp_dist_def next_eport_def)
next
  case False
  then show ?thesis using unat_port_less [of "eport - next_eport eport"] by (simp add: natpmp_dist_def)
qed

lemma natpmp_dist_next:
  "first \<noteq> 0 \<Longrightarrow> eport \<noteq> first \<Longrightarrow> natpmp_dist first (next_eport eport) < natpmp_dist first eport"
  using next_eport_closer [of first eport] by (simp add: natpmp_dist_def)

termination natpmp_search
  by (relation "measure (\<lambda>(ops, cf, sender, iport, proto, lifetime, first, any, eport, st). natpmp_dist first eport)")
    (auto simp: natpmp_dist_first natpmp_dist_next split: if_splits)

declare natpmp_search.simps [simp del]

section \<open>Processing a packet\<close>

record 'st natpmp_state =
  np_maps :: "'st rdr_state"
  epoch_origin :: u32

definition natpmp_mapping_request ::
  "'st fw_ops \<Rightarrow> rdr_conf \<Rightarrow> byte list \<Rightarrow> ipv4 \<Rightarrow> 'st rdr_state
    \<Rightarrow> ((fw_fault + byte \<times> byte list) \<times> 'st rdr_state) option" where
  "natpmp_mapping_request ops cf req sender st =
     (let iport = readnu16 req 4; eport = readnu16 req 6; lifetime = readnu32 req 8;
          proto = (if req ! 1 = 1 then IPPROTO_UDP else IPPROTO_TCP);
          reply = (\<lambda>(c, e). (c, writenu16 iport @ writenu16 e @ writenu32 lifetime))
      in if lifetime = 0
         then map_option (\<lambda>(r, st1). (map_sum id (\<lambda>c. reply (c, 0)) r, st1))
                (natpmp_delete_loop ops cf (dotted sender) iport proto 0 st)
         else if iport = 0 then Some (Inr (reply (2, eport)), st)
         else (let (r, st1) = natpmp_search ops cf sender iport proto lifetime 0 False
                                (if eport = 0 then iport else eport) st
               in Some (map_sum id reply r, st1)))"

definition too_short :: "byte list \<Rightarrow> bool" where
  "too_short req \<longleftrightarrow> length req < 2 \<or> ((req ! 1 - 1) AND NOT 1 = 0 \<and> length req < 12)"

text \<open>The reply to a packet, if any: \<open>Inr None\<close> is no reply, the outer \<open>None\<close> would be a request
  that is never answered.\<close>

definition ProcessIncomingNATPMPPacket ::
  "'st fw_ops \<Rightarrow> natpmp_conf \<Rightarrow> byte list \<Rightarrow> ipv4 \<Rightarrow> 'st natpmp_state
    \<Rightarrow> ((fw_fault + byte list option) \<times> 'st natpmp_state) option" where
  "ProcessIncomingNATPMPPacket ops np req sender st =
     (if too_short req then Some (Inr None, st)
      else if req ! 1 AND 128 \<noteq> 0 then Some (Inr None, st)
      else (let epoch = (if epoch_origin st = 0 then np_startup_time np else epoch_origin st);
                st1 = st\<lparr>epoch_origin := epoch\<rparr>;
                packet = (\<lambda>code rest. [0, 128 + req ! 1, 0, code]
                            @ writenu32 (upnp_time (rc_env (np_rdr np)) - epoch) @ rest)
        in if req ! 0 > 0 then Some (Inr (Some (packet 1 [])), st1)
           else if req ! 1 = 0
           then (let (code, addr) = fill_public_address np in Some (Inr (Some (packet code addr)), st1))
           else if req ! 1 = 1 \<or> req ! 1 = 2
           then map_option (\<lambda>(r, m). (map_sum id (\<lambda>(code, rest). Some (packet code rest)) r, st1\<lparr>np_maps := m\<rparr>))
                  (natpmp_mapping_request ops (np_rdr np) req sender (np_maps st1))
           else Some (Inr (Some (packet 5 [])), st1)))"

text \<open>The notification of a changed address, to both ports on every open socket, up to the first send
  that fails (\<open>send_ok\<close>); none is sent when the address is not known. The state is the epoch.\<close>

fun notify_sockets :: "(int \<times> port \<Rightarrow> bool) \<Rightarrow> byte list \<Rightarrow> int list \<Rightarrow> (int \<times> port \<times> byte list) list" where
  "notify_sockets send_ok notif [] = []"
| "notify_sockets send_ok notif (s # ss) =
     (if s < 0 then notify_sockets send_ok notif ss
      else (s, 5351, notif) #
        (if \<not> send_ok (s, 5351) then []
         else (s, 5350, notif) # (if \<not> send_ok (s, 5350) then [] else notify_sockets send_ok notif ss)))"

definition SendNATPMPPublicAddressChangeNotification ::
  "natpmp_conf \<Rightarrow> (int \<times> port \<Rightarrow> bool) \<Rightarrow> int list \<Rightarrow> u32 \<Rightarrow> (int \<times> port \<times> byte list) list \<times> u32" where
  "SendNATPMPPublicAddressChangeNotification np send_ok sockets epoch0 =
     (let epoch = (if epoch0 = 0 then np_startup_time np else epoch0);
          (code, addr) = fill_public_address np;
          notif = [0, 128, 0, code] @ writenu32 (upnp_time (rc_env (np_rdr np)) - epoch) @ addr
      in (if code \<noteq> 0 then [] else notify_sockets send_ok notif sockets, epoch))"

section \<open>Deleting the mappings of a client\<close>

lemma dotted_eq_iff [simp]: "dotted a = dotted b \<longleftrightarrow> a = b"
  by (metis inet_aton_dotted option.inject)

definition natpmp_own :: "ipv4 \<Rightarrow> port \<Rightarrow> int \<Rightarrow> port \<times> int \<Rightarrow> portmap \<Rightarrow> bool" where
  "natpmp_own sender iport proto k m \<longleftrightarrow> mp_iaddr m = sender \<and> take 7 (mp_desc m) = ''NAT-PMP''
     \<and> (iport = 0 \<or> (mp_iport m = iport \<and> snd k = proto))"

lemma take_strncpy: "k \<le> n \<Longrightarrow> length t = k \<Longrightarrow> CHR 0x00 \<notin> set t \<Longrightarrow> take k (strncpy s n) = t \<longleftrightarrow> take k s = t"
proof -
  assume k: "k \<le> n" "length t = k" "CHR 0x00 \<notin> set t"
  have cut: "take k (strncpy s n) = take k (s @ replicate n (CHR 0x00))"
    using k(1) by (simp only: strncpy_def take_take min.absorb1)
  show ?thesis
  proof (cases "k \<le> length s")
    case True
    then show ?thesis by (simp add: cut)
  next
    case False
    then have "CHR 0x00 \<in> set (take k (s @ replicate n (CHR 0x00)))" using k by auto
    then have "take k (s @ replicate n (CHR 0x00)) \<noteq> t" using k(3) by metis
    moreover have "take k s \<noteq> t" using False k(2) by auto
    ultimately show ?thesis by (simp add: cut)
  qed
qed

lemma remove1_nth: "distinct xs \<Longrightarrow> n < length xs \<Longrightarrow> remove1 (xs ! n) xs = take n xs @ drop (Suc n) xs"
proof (induction xs arbitrary: n)
  case (Cons x xs)
  then show ?case by (cases n) (auto simp: nth_mem)
qed simp

section \<open>The port a client is granted\<close>

definition port_busy :: "rdr_conf \<Rightarrow> ipv4 \<Rightarrow> port \<Rightarrow> int \<Rightarrow> port \<Rightarrow> bool" where
  "port_busy cf sender iport proto e \<longleftrightarrow>
     (case rc_port_in_use cf of None \<Rightarrow> False | Some test \<Rightarrow> test e proto (dotted sender) iport > 0)"

definition port_allowed :: "rdr_conf \<Rightarrow> ipv4 \<Rightarrow> port \<Rightarrow> port \<Rightarrow> bool" where
  "port_allowed cf sender iport e \<longleftrightarrow> check_upnp_rule_against_permissions (rc_perms cf) e sender iport"

text \<open>A port the client can have: allowed, not used on the router, and free or mapped to this very
  client and port.\<close>

definition port_avail :: "rdr_conf \<Rightarrow> portmaps \<Rightarrow> ipv4 \<Rightarrow> port \<Rightarrow> int \<Rightarrow> port \<Rightarrow> bool" where
  "port_avail cf T sender iport proto e \<longleftrightarrow> port_allowed cf sender iport e \<and> \<not> port_busy cf sender iport proto e
     \<and> (case T (e, proto) of None \<Rightarrow> True | Some m \<Rightarrow> mp_iaddr m = sender \<and> mp_iport m = iport)"

definition natpmp_portmap :: "rdr_conf \<Rightarrow> ipv4 \<Rightarrow> port \<Rightarrow> int \<Rightarrow> u32 \<Rightarrow> port \<Rightarrow> portmap" where
  "natpmp_portmap cf sender iport proto lifetime e =
     \<lparr>mp_iaddr = sender, mp_iport = iport, mp_rhost = 0, mp_desc = natpmp_desc e proto,
      mp_timestamp = upnp_time (rc_env cf) + lifetime\<rparr>"

lemma natpmp_portmap_new:
  "new_portmap None (dotted sender) iport (Some (natpmp_desc e proto)) (upnp_time (rc_env cf) + lifetime)
     = natpmp_portmap cf sender iport proto lifetime e"
  by (simp add: new_portmap_def natpmp_portmap_def inet_addr_def cstr host_addr_def host_given_def)

text \<open>The ports from one on that are still ahead of the search.\<close>

definition ahead :: "port \<Rightarrow> port \<Rightarrow> port set" where
  "ahead first cur = {e. e \<noteq> 0 \<and> 0 < unat (first - e) \<and> unat (first - e) \<le> unat (first - cur)}"

lemma ahead_step:
  assumes "first \<noteq> 0" "cur \<noteq> 0" "cur \<noteq> first"
  shows "ahead first cur = insert cur (ahead first (next_eport cur))"
proof -
  have inj: "e = cur" if "unat (first - e) = unat (first - cur)" for e
  proof -
    have "first - e = first - cur" by (rule word_unat_eq_iff [THEN iffD2, OF that])
    then show ?thesis by simp
  qed
  have zero: "cur + 1 = 0 \<Longrightarrow> unat (first - 0) = unat (first - cur) - 1"
  proof -
    assume "cur + 1 = 0"
    then have "first - 0 = first - cur - 1" by (simp add: algebra_simps)
    moreover have "first - cur \<noteq> 0" using assms(3) by simp
    ultimately show ?thesis using unat_minus_one_port [of "first - cur"] by metis
  qed
  have step: "unat (first - next_eport cur) = unat (first - cur) - (if cur + 1 = 0 then 2 else 1)"
  proof (cases "cur + 1 = 0")
    case True
    then have "first - next_eport cur = first - 0 - 1" by (simp add: next_eport_def algebra_simps)
    then show ?thesis using unat_minus_one_port [OF assms(1)] zero [OF True] True by simp
  next
    case False
    then have "first - next_eport cur = first - cur - 1" by (simp add: next_eport_def)
    moreover have "unat (first - cur - 1) = unat (first - cur) - 1"
      using unat_minus_one_port [of "first - cur"] assms(3) by simp
    ultimately have "unat (first - next_eport cur) = unat (first - cur) - 1" by (simp only:)
    then show ?thesis using False by (simp only: if_False)
  qed
  have pos: "0 < unat (first - cur)" using assms(3) by (simp add: unat_gt_0)
  have "e \<in> ahead first cur \<longleftrightarrow> e = cur \<or> e \<in> ahead first (next_eport cur)" for e
  proof
    assume e: "e \<in> ahead first cur"
    show "e = cur \<or> e \<in> ahead first (next_eport cur)"
    proof (cases "e = cur")
      case False
      then have "unat (first - e) < unat (first - cur)" using e inj [of e] by (force simp: ahead_def)
      moreover have "unat (first - e) \<noteq> unat (first - cur) - 1" if "cur + 1 = 0"
      proof
        assume "unat (first - e) = unat (first - cur) - 1"
        then have "unat (first - e) = unat (first - 0)" using zero [OF that] by simp
        then have "first - e = first - 0" by (simp only: word_unat_eq_iff)
        then show False using e by (simp add: ahead_def)
      qed
      ultimately show ?thesis using e by (auto simp: ahead_def step)
    qed simp
  next
    assume "e = cur \<or> e \<in> ahead first (next_eport cur)"
    then show "e \<in> ahead first cur" using assms(2) pos by (auto simp: ahead_def step split: if_splits)
  qed
  then show ?thesis by auto
qed

lemma ahead_end [simp]: "ahead first first = {}"
  by (auto simp: ahead_def)

lemma ahead_all:
  assumes "first \<noteq> 0"
  shows "insert first (ahead first (next_eport first)) = {e. e \<noteq> 0}"
proof -
  have "e \<in> ahead first (next_eport first)" if "e \<noteq> 0" "e \<noteq> first" for e
  proof (cases "first + 1 = 0")
    case True
    then have "first = - 1" by (metis add_eq_0_iff add.commute)
    then have "next_eport first = 1" by (simp add: next_eport_def)
    then have "unat (first - next_eport first) = 65534" using \<open>first = - 1\<close> by simp
    moreover have "first - e \<noteq> 65535"
    proof
      assume "first - e = 65535"
      then have "e = first - 65535" by (metis diff_diff_eq2 add_diff_cancel_left' diff_add_cancel)
      then show False using that(1) \<open>first = - 1\<close> by simp
    qed
    then have "unat (first - e) \<noteq> unat (65535 :: port)" by (simp only: word_unat_eq_iff [symmetric] not_False_eq_True)
    then have "unat (first - e) \<noteq> 65535" by simp
    ultimately show ?thesis using that unat_port_less [of "first - e"] by (auto simp: ahead_def unat_gt_0)
  next
    case False
    then have "unat (first - next_eport first) = 65535"
      by (simp add: next_eport_def unsigned_minus_1_eq_mask mask_eq_exp_minus_1)
    then show ?thesis using that unat_port_less [of "first - e"] by (auto simp: ahead_def unat_gt_0)
  qed
  then show ?thesis using assms by (auto simp: ahead_def)
qed

text \<open>What a search over a set of ports ends with.\<close>

definition search_result ::
  "rdr_conf \<Rightarrow> ('st \<Rightarrow> portmaps) \<Rightarrow> ('st \<Rightarrow> bool) \<Rightarrow> ipv4 \<Rightarrow> port \<Rightarrow> int \<Rightarrow> u32 \<Rightarrow> port set \<Rightarrow> bool \<Rightarrow> port
    \<Rightarrow> 'st rdr_state \<Rightarrow> (fw_fault + byte \<times> port) \<times> 'st rdr_state \<Rightarrow> bool" where
  "search_result cf table_of ok sender iport proto lifetime S any first st res \<longleftrightarrow>
     (if \<exists>e \<in> S. port_avail cf (table_of (fw st)) sender iport proto e
      then \<exists>e \<in> S. port_avail cf (table_of (fw st)) sender iport proto e \<and> fst res = Inr (0, e) \<and> ok (fw (snd res))
             \<and> table_of (fw (snd res)) = (table_of (fw st))((e, proto) \<mapsto> natpmp_portmap cf sender iport proto lifetime e)
      else res = (Inr (if any \<or> (\<exists>e \<in> S. port_allowed cf sender iport e) then 4 else 2, first), st))"

lemma search_result_skip:
  assumes "search_result cf table_of ok sender iport proto lifetime S any' first st res"
    and "\<not> port_avail cf (table_of (fw st)) sender iport proto e"
    and "any' \<longleftrightarrow> any \<or> port_allowed cf sender iport e"
  shows "search_result cf table_of ok sender iport proto lifetime (insert e S) any first st res"
  using assms unfolding search_result_def by (simp split: if_splits)

lemma next_eport_nonzero: "next_eport eport \<noteq> 0"
proof (cases "eport + 1 = 0")
  case True
  then have "eport = - 1" by (metis add_eq_0_iff add.commute)
  then show ?thesis by (simp add: next_eport_def)
qed (simp add: next_eport_def)

context redirect_backend begin

lemma delete_loop_ok:
  "\<lbrakk>ok (fw st); valid_table (table_of (fw st)); n \<le> length (keys_of (fw st));
    \<forall>k \<in> set (take n (keys_of (fw st))). \<not> natpmp_own sender iport proto k (the (table_of (fw st) k))\<rbrakk>
   \<Longrightarrow> \<exists>st'. natpmp_delete_loop ops cf (dotted sender) iport proto n st = Some (Inr 0, st') \<and> ok (fw st')
     \<and> table_of (fw st') = (\<lambda>k. case table_of (fw st) k of None \<Rightarrow> None
         | Some m \<Rightarrow> if natpmp_own sender iport proto k m then None else Some m)"
proof (induction "length (keys_of (fw st)) - n" arbitrary: n st)
  case 0
  then have n: "length (keys_of (fw st)) \<le> n" and ok: "ok (fw st)" by auto
  have "natpmp_delete_loop ops cf (dotted sender) iport proto n st = Some (Inr 0, st)"
    using index_none [OF ok n] by (subst natpmp_delete_loop.simps) simp
  moreover have "table_of (fw st) = (\<lambda>k. case table_of (fw st) k of None \<Rightarrow> None
         | Some m \<Rightarrow> if natpmp_own sender iport proto k m then None else Some m)"
  proof
    fix k
    show "table_of (fw st) k = (case table_of (fw st) k of None \<Rightarrow> None
         | Some m \<Rightarrow> if natpmp_own sender iport proto k m then None else Some m)"
    proof (cases "table_of (fw st) k")
      case (Some m)
      then have "k \<in> set (keys_of (fw st))" using keys_dom [OF ok] by auto
      then have "\<not> natpmp_own sender iport proto k m" using 0(5) n Some by auto
      then show ?thesis using Some by simp
    qed simp
  qed
  ultimately show ?case using ok by blast
next
  case (Suc d)
  let ?K = "keys_of (fw st)" and ?T = "table_of (fw st)"
  have n: "n < length ?K" and ok: "ok (fw st)" using Suc(2,3) by auto
  obtain eport proto2 where k: "?K ! n = (eport, proto2)" by fastforce
  obtain i m where i: "op_get_by_index ops n natpmp_sizes (fw st) = (Some (proto2, eport, i), fw st)"
    and m: "?T (eport, proto2) = Some m" "shows_portmap natpmp_sizes (Some []) m i"
    using index_some [OF ok n k] by blast
  have own: "(dotted sender = i_iaddr i \<and> take 7 (i_desc i) = ''NAT-PMP'' \<and> (iport = 0 \<or> iport = i_iport i \<and> proto = proto2))
      \<longleftrightarrow> natpmp_own sender iport proto (eport, proto2) m"
    using m(2) by (auto simp: shows_portmap_def natpmp_sizes_def snprintip_whole natpmp_own_def take_strncpy)
  show ?case
  proof (cases "natpmp_own sender iport proto (eport, proto2) m")
    case True
    have "valid_proto proto2" using Suc(4) m(1) by (force simp: valid_table_def)
    from delete_refines [OF ok this, of cf eport] m(1)
    obtain st1 where st1: "upnp_delete_redir ops cf eport proto2 st = (Inr 0, st1)" "ok (fw st1)"
      "table_of (fw st1) = ?T((eport, proto2) := None)" "keys_of (fw st1) = remove1 (eport, proto2) ?K" by auto
    have keys: "keys_of (fw st1) = take n ?K @ drop (Suc n) ?K"
      using remove1_nth [OF keys_distinct [OF ok] n] st1(4) k by simp
    have run: "natpmp_delete_loop ops cf (dotted sender) iport proto n st = natpmp_delete_loop ops cf (dotted sender) iport proto n st1"
      using i own True st1(1) by (subst natpmp_delete_loop.simps) simp
    have new: "k' \<noteq> (eport, proto2)" if "k' \<in> set (take n ?K)" for k'
      using that keys_distinct [OF ok] n k by (metis in_set_conv_nth distinct_conv_nth length_take min_less_iff_conj
          nth_take order_less_irrefl)
    have d: "d = length (keys_of (fw st1)) - n" and n1: "n \<le> length (keys_of (fw st1))"
      using Suc(2) n by (simp_all add: keys)
    have none: "\<forall>k \<in> set (take n (keys_of (fw st1))). \<not> natpmp_own sender iport proto k (the (table_of (fw st1) k))"
      using Suc(6) n new by (auto simp: keys st1(3))
    have known: "valid_table (table_of (fw st1))" unfolding st1(3) by (rule delete_known [OF Suc(4)])
    obtain st' where st': "natpmp_delete_loop ops cf (dotted sender) iport proto n st1 = Some (Inr 0, st')" "ok (fw st')"
      "table_of (fw st') = (\<lambda>k. case table_of (fw st1) k of None \<Rightarrow> None
         | Some m \<Rightarrow> if natpmp_own sender iport proto k m then None else Some m)"
      using Suc(1) [OF d st1(2) known n1 none] by blast
    have "table_of (fw st') = (\<lambda>k. case ?T k of None \<Rightarrow> None
         | Some m \<Rightarrow> if natpmp_own sender iport proto k m then None else Some m)"
      unfolding st'(3) st1(3) using True m(1) by (auto simp: fun_eq_iff)
    then show ?thesis using run st'(1,2) by auto
  next
    case False
    have run: "natpmp_delete_loop ops cf (dotted sender) iport proto n st = natpmp_delete_loop ops cf (dotted sender) iport proto (n + 1) st"
      using i own False by (subst natpmp_delete_loop.simps) (auto split: if_splits)
    have "\<forall>k \<in> set (take (n + 1) ?K). \<not> natpmp_own sender iport proto k (the (?T k))"
      using Suc(6) False m(1) by (auto simp: take_Suc_conv_app_nth [OF n] k)
    then show ?thesis using Suc(1) [of st "n + 1"] Suc(2-4) n run by simp
  qed
qed

lemma natpmp_redirect_ok:
  assumes ok: "ok (fw st)" and proto: "valid_proto proto" and on: "\<not> rc_disabled cf"
    and replace: "replace = (table_of (fw st) (e, proto) \<noteq> None)"
  shows "\<exists>st'. natpmp_redirect ops cf (dotted sender) iport proto lifetime replace e st = (Inr 0, st') \<and> ok (fw st')
    \<and> table_of (fw st') = (table_of (fw st))((e, proto) \<mapsto> natpmp_portmap cf sender iport proto lifetime e)"
proof -
  have "\<exists>st1. (if replace then upnp_delete_redir ops cf e proto st else (Inr 0, st)) = (Inr 0, st1) \<and> ok (fw st1)
      \<and> table_of (fw st1) = (table_of (fw st))((e, proto) := None)"
    using delete_refines [OF ok proto, of cf e] ok replace by (cases replace) (auto simp: fun_upd_idem)
  then obtain st1 where st1: "(if replace then upnp_delete_redir ops cf e proto st else (Inr 0, st)) = (Inr 0, st1)"
    "ok (fw st1)" "table_of (fw st1) = (table_of (fw st))((e, proto) := None)" by auto
  then have "table_of (fw st1) (e, proto) = None" by simp
  from internal_ok [OF st1(2) proto this on, of None "dotted sender" iport "natpmp_desc e proto" "upnp_time (rc_env cf) + lifetime"]
  obtain st2 where "upnp_redirect_internal ops cf None e (dotted sender) iport proto (natpmp_desc e proto)
        (upnp_time (rc_env cf) + lifetime) st1 = (0, st2)" "ok (fw st2)"
    "table_of (fw st2) = (table_of (fw st1))((e, proto) \<mapsto> natpmp_portmap cf sender iport proto lifetime e)"
    unfolding natpmp_portmap_new by fastforce
  with st1 show ?thesis unfolding natpmp_redirect_def by simp
qed

text \<open>One round at a port: granted, or on to the next one.\<close>

lemma search_round:
  assumes ok: "ok (fw st)" and proto: "valid_proto proto" and on: "\<not> rc_disabled cf"
    and go: "\<not> (f \<noteq> 0 \<and> cur = f)" and first: "first = (if f = 0 then cur else f)"
    and rest: "\<And>any'. search_result cf table_of ok sender iport proto lifetime S any' first st
        (natpmp_search ops cf sender iport proto lifetime first any' (next_eport cur) st)"
  shows "search_result cf table_of ok sender iport proto lifetime (insert cur S) any first st
      (natpmp_search ops cf sender iport proto lifetime f any cur st)"
proof (cases "port_avail cf (table_of (fw st)) sender iport proto cur")
  case True
  define mine where "mine = (table_of (fw st) (cur, proto) \<noteq> None)"
  have get: "\<exists>found. op_get ops natpmp_lookup_sizes cur proto (fw st) = (found, fw st)
      \<and> (found \<noteq> None \<longleftrightarrow> mine)
      \<and> (case found of None \<Rightarrow> False | Some i \<Rightarrow> dotted sender = i_iaddr i \<and> iport = i_iport i) = mine"
  proof (cases "table_of (fw st) (cur, proto)")
    case None
    then show ?thesis using get_none [OF ok None] by (simp add: mine_def)
  next
    case (Some m)
    then show ?thesis using get_some [OF ok Some, of natpmp_lookup_sizes] True
      by (auto simp: mine_def port_avail_def shows_portmap_def natpmp_lookup_sizes_def snprintip_whole)
  qed
  obtain st' where st': "natpmp_redirect ops cf (dotted sender) iport proto lifetime mine cur st = (Inr 0, st')" "ok (fw st')"
    "table_of (fw st') = (table_of (fw st))((cur, proto) \<mapsto> natpmp_portmap cf sender iport proto lifetime cur)"
    using natpmp_redirect_ok [OF ok proto on mine_def] by blast
  have "natpmp_search ops cf sender iport proto lifetime f any cur st = (Inr (0, cur), st')"
    using get go True st'(1) by (subst natpmp_search.simps)
      (auto simp: port_avail_def port_allowed_def port_busy_def Let_def)
  then show ?thesis using True st' by (auto simp: search_result_def)
next
  case False
  have "\<exists>any'. natpmp_search ops cf sender iport proto lifetime f any cur st
          = natpmp_search ops cf sender iport proto lifetime first any' (next_eport cur) st
        \<and> (any' \<longleftrightarrow> any \<or> port_allowed cf sender iport cur)"
  proof (cases "port_allowed cf sender iport cur \<and> \<not> port_busy cf sender iport proto cur")
    case True
    then obtain m where m: "table_of (fw st) (cur, proto) = Some m" "\<not> (mp_iaddr m = sender \<and> mp_iport m = iport)"
      using False by (auto simp: port_avail_def split: option.splits)
    then obtain i where "op_get ops natpmp_lookup_sizes cur proto (fw st) = (Some i, fw st)"
      "\<not> (dotted sender = i_iaddr i \<and> iport = i_iport i)"
      using get_some [OF ok m(1), of natpmp_lookup_sizes]
      by (auto simp: shows_portmap_def natpmp_lookup_sizes_def snprintip_whole)
    then show ?thesis using True go first by (subst natpmp_search.simps)
      (auto simp: port_allowed_def port_busy_def Let_def intro!: exI [of _ True])
  next
    case False
    then show ?thesis using go first by (subst natpmp_search.simps)
      (auto simp: port_allowed_def port_busy_def Let_def)
  qed
  then show ?thesis using search_result_skip [OF rest False] by metis
qed

lemma search_ahead:
  assumes ok: "ok (fw st)" and proto: "valid_proto proto" and on: "\<not> rc_disabled cf" and first: "first \<noteq> 0"
  shows "cur \<noteq> 0 \<Longrightarrow> search_result cf table_of ok sender iport proto lifetime (ahead first cur) any first st
      (natpmp_search ops cf sender iport proto lifetime first any cur st)"
proof (induction "unat (first - cur)" arbitrary: cur any rule: less_induct)
  case less
  show ?case
  proof (cases "cur = first")
    case True
    then show ?thesis using first by (subst natpmp_search.simps) (simp add: search_result_def)
  next
    case False
    from less(1) [OF next_eport_closer [OF first False] next_eport_nonzero]
    have "\<And>any'. search_result cf table_of ok sender iport proto lifetime (ahead first (next_eport cur)) any' first st
        (natpmp_search ops cf sender iport proto lifetime first any' (next_eport cur) st)" .
    from search_round [OF ok proto on _ _ this, of first] False first show ?thesis
      by (simp add: ahead_step [OF first less(2) False])
  qed
qed

lemma search_all:
  assumes ok: "ok (fw st)" and proto: "valid_proto proto" and on: "\<not> rc_disabled cf" and "eport \<noteq> 0"
  shows "search_result cf table_of ok sender iport proto lifetime {e. e \<noteq> 0} False eport st
      (natpmp_search ops cf sender iport proto lifetime 0 False eport st)"
proof -
  have "search_result cf table_of ok sender iport proto lifetime (insert eport (ahead eport (next_eport eport))) False eport st
      (natpmp_search ops cf sender iport proto lifetime 0 False eport st)"
    by (rule search_round [OF ok proto on _ _ search_ahead [OF ok proto on assms(4) next_eport_nonzero]]) simp_all
  then show ?thesis by (simp only: ahead_all [OF assms(4)])
qed

end

section \<open>Packets\<close>

definition mapping_packet :: "bool \<Rightarrow> port \<Rightarrow> port \<Rightarrow> u32 \<Rightarrow> byte list" where
  "mapping_packet udp iport eport lifetime =
     [0, if udp then 1 else 2, 0, 0] @ writenu16 iport @ writenu16 eport @ writenu32 lifetime"

definition packet_proto :: "bool \<Rightarrow> int" where
  "packet_proto udp = (if udp then IPPROTO_UDP else IPPROTO_TCP)"

lemma packet_fields:
  "readnu16 (mapping_packet udp iport eport lifetime) 4 = iport"
  "readnu16 (mapping_packet udp iport eport lifetime) 6 = eport"
  "readnu32 (mapping_packet udp iport eport lifetime) 8 = lifetime"
  "mapping_packet udp iport eport lifetime ! Suc 0 = (if udp then 1 else 2)"
proof -
  define h :: "byte list" where "h = [0, if udp then 1 else 2, 0, 0]"
  have h: "length h = 4" "length (h @ writenu16 iport) = 6" "length (h @ writenu16 iport @ writenu16 eport) = 8"
    by (simp_all add: h_def)
  have p: "mapping_packet udp iport eport lifetime = h @ writenu16 iport @ writenu16 eport @ writenu32 lifetime"
    by (simp only: mapping_packet_def h_def)
  show "readnu16 (mapping_packet udp iport eport lifetime) 4 = iport"
    using read_write_16 [of h iport "writenu16 eport @ writenu32 lifetime"] by (simp only: p h)
  show "readnu16 (mapping_packet udp iport eport lifetime) 6 = eport"
    using read_write_16 [of "h @ writenu16 iport" eport "writenu32 lifetime"] by (simp only: p h append_assoc)
  show "readnu32 (mapping_packet udp iport eport lifetime) 8 = lifetime"
    using read_write_32 [of "h @ writenu16 iport @ writenu16 eport" lifetime "[]"]
    by (simp only: p h append_assoc append_Nil2)
qed (simp add: mapping_packet_def)

lemma known_packet_proto [simp]: "valid_proto (packet_proto udp)"
  by (rule known_valid) (simp add: packet_proto_def known_proto_def)

lemma request_search:
  assumes "iport \<noteq> 0" "lifetime \<noteq> 0"
  shows "natpmp_mapping_request ops cf (mapping_packet udp iport eport lifetime) sender st
    = (let (r, st1) = natpmp_search ops cf sender iport (packet_proto udp) lifetime 0 False
                        (if eport = 0 then iport else eport) st
       in Some (map_sum id (\<lambda>(c, e). (c, writenu16 iport @ writenu16 e @ writenu32 lifetime)) r, st1))"
  using assms by (cases udp) (simp_all add: natpmp_mapping_request_def packet_fields packet_proto_def Let_def)

lemma mapping_outcome:
  assumes "nf_ok (fw st)" "\<not> rc_disabled cf" "iport \<noteq> 0" "lifetime \<noteq> 0"
  shows "\<exists>code e st'. natpmp_mapping_request netfilter_ops cf (mapping_packet udp iport eport lifetime) sender st
      = Some (Inr (code, writenu16 iport @ writenu16 e @ writenu32 lifetime), st') \<and> nf_ok (fw st')
    \<and> (if \<exists>p. p \<noteq> 0 \<and> port_avail cf (nf_table (fw st)) sender iport (packet_proto udp) p
       then code = 0 \<and> e \<noteq> 0 \<and> port_avail cf (nf_table (fw st)) sender iport (packet_proto udp) e
            \<and> nf_table (fw st') = (nf_table (fw st))((e, packet_proto udp) \<mapsto>
                natpmp_portmap cf sender iport (packet_proto udp) lifetime e)
       else code = (if \<exists>p. p \<noteq> 0 \<and> port_allowed cf sender iport p then 4 else 2) \<and> st' = st)"
proof -
  define start where "start = (if eport = 0 then iport else eport)"
  have "start \<noteq> 0" using assms(3) by (simp add: start_def)
  note res = netfilter.search_all [OF assms(1) known_packet_proto assms(2) this, of sender iport udp lifetime]
  show ?thesis
  proof (cases "\<exists>p. p \<noteq> 0 \<and> port_avail cf (nf_table (fw st)) sender iport (packet_proto udp) p")
    case True
    then have "\<exists>p \<in> {e. e \<noteq> 0}. port_avail cf (nf_table (fw st)) sender iport (packet_proto udp) p" by simp
    with res obtain e st' where e: "e \<noteq> 0" "port_avail cf (nf_table (fw st)) sender iport (packet_proto udp) e"
      "natpmp_search netfilter_ops cf sender iport (packet_proto udp) lifetime 0 False start st = (Inr (0, e), st')"
      "nf_ok (fw st')" "nf_table (fw st') = (nf_table (fw st))((e, packet_proto udp) \<mapsto>
                natpmp_portmap cf sender iport (packet_proto udp) lifetime e)"
      unfolding search_result_def
      by (cases "natpmp_search netfilter_ops cf sender iport (packet_proto udp) lifetime 0 False start st") auto
    then show ?thesis
      using True by (intro exI [of _ 0] exI [of _ e] exI [of _ st']) (simp add: request_search assms(3,4) start_def)
  next
    case False
    then have "natpmp_search netfilter_ops cf sender iport (packet_proto udp) lifetime 0 False start st
        = (Inr (if \<exists>p. p \<noteq> 0 \<and> port_allowed cf sender iport p then 4 else 2, start), st)"
      using res unfolding search_result_def by (simp split: if_splits)
    then show ?thesis
      using False assms(1)
      by (intro exI [of _ "if \<exists>p. p \<noteq> 0 \<and> port_allowed cf sender iport p then 4 else 2"] exI [of _ start] exI [of _ st])
        (simp add: request_search assms(3,4) start_def)
  qed
qed

lemma response_bit:
  assumes "(x :: byte) AND 128 = 0"
  shows "(128 + x) AND 128 = 128"
proof -
  have "128 + x = 128 OR x"
    using assms by (intro disjunctive_add_eq_or) (simp add: and.commute)
  then show ?thesis using assms by (simp add: and.commute bit.conj_disj_distrib)
qed

lemma length_public_address [simp]: "length (snd (fill_public_address np)) = 4"
  by (auto simp: fill_public_address_def inet_pton4_def split: option.splits)

lemma map_sum_Inr: "map_sum f g r = Inr y \<longleftrightarrow> (\<exists>x. r = Inr x \<and> g x = y)"
  by (cases r) auto

lemma length_mapping_reply:
  "natpmp_mapping_request ops cf req sender st = Some (Inr (code, rest), st') \<Longrightarrow> length rest = 8"
  by (auto simp: natpmp_mapping_request_def Let_def map_sum_Inr split: if_splits prod.splits)

section \<open>Properties\<close>

text \<open>C7: A NAT-PMP mapping request is always answered. The client gets a mapping, with the answer 0 and
  the granted port, exactly when some port other than 0 is allowed to it, not used on the router,
  and free or already mapped to its address and port; no mapping of another client is touched.
  Otherwise the answer is 4 when ports are allowed but none is available and 2 when none is allowed,
  and nothing changes.\<close>

theorem natpmp_mapping_outcome:
  assumes "nf_ok (fw st)" and "\<not> rc_disabled cf" and "iport \<noteq> 0" and "lifetime \<noteq> 0"
  shows "\<exists>code e st'. natpmp_mapping_request netfilter_ops cf (mapping_packet udp iport eport lifetime) sender st
      = Some (Inr (code, writenu16 iport @ writenu16 e @ writenu32 lifetime), st') \<and> nf_ok (fw st')
    \<and> (if \<exists>p. p \<noteq> 0 \<and> port_avail cf (nf_table (fw st)) sender iport (packet_proto udp) p
       then code = 0 \<and> e \<noteq> 0 \<and> port_avail cf (nf_table (fw st)) sender iport (packet_proto udp) e
            \<and> nf_table (fw st') = (nf_table (fw st))((e, packet_proto udp) \<mapsto>
                natpmp_portmap cf sender iport (packet_proto udp) lifetime e)
       else code = (if \<exists>p. p \<noteq> 0 \<and> port_allowed cf sender iport p then 4 else 2) \<and> st' = st)"
  by (rule mapping_outcome [OF assms])

lemma sample_on: "\<not> rc_disabled sample_conf"
  by (simp add: sample_conf_def)

lemma sample_avail:
  "\<exists>p. p \<noteq> 0 \<and> port_avail sample_conf (nf_table one_nf) sender iport IPPROTO_TCP p"
  by (intro exI [of _ 22]) (simp add: port_avail_def port_allowed_def port_busy_def sample_conf_def one_nf_table)

theorem natpmp_mapping_outcome_witness:
  "\<exists>e st'. natpmp_mapping_request netfilter_ops sample_conf (mapping_packet False 22 0 3600) 167772163 (start_state one_nf)
      = Some (Inr (0, writenu16 22 @ writenu16 e @ writenu32 3600), st') \<and> nf_ok (fw st') \<and> e \<noteq> 0
    \<and> nf_table (fw st') = (nf_table one_nf)((e, IPPROTO_TCP) \<mapsto>
        natpmp_portmap sample_conf 167772163 22 IPPROTO_TCP 3600 e)"
  using natpmp_mapping_outcome [of "start_state one_nf" sample_conf 22 3600 False 0 167772163]
    one_nf_ok sample_on sample_avail by (auto simp: packet_proto_def)

text \<open>C30: A request with lifetime 0 is always answered with success, and removes exactly the mappings
  of the client that NAT-PMP made: the one of the internal port and protocol, or all of them for
  internal port 0.\<close>

theorem natpmp_delete_outcome:
  assumes "nf_ok (fw st)" and "valid_table (nf_table (fw st))"
  shows "\<exists>st'. natpmp_mapping_request netfilter_ops cf (mapping_packet udp iport eport 0) sender st
      = Some (Inr (0, writenu16 iport @ writenu16 0 @ writenu32 0), st') \<and> nf_ok (fw st')
    \<and> nf_table (fw st') = (\<lambda>k. case nf_table (fw st) k of None \<Rightarrow> None
        | Some m \<Rightarrow> if natpmp_own sender iport (packet_proto udp) k m then None else Some m)"
proof -
  obtain st' where "natpmp_delete_loop netfilter_ops cf (dotted sender) iport (packet_proto udp) 0 st = Some (Inr 0, st')"
    "nf_ok (fw st')" "nf_table (fw st') = (\<lambda>k. case nf_table (fw st) k of None \<Rightarrow> None
        | Some m \<Rightarrow> if natpmp_own sender iport (packet_proto udp) k m then None else Some m)"
    using netfilter.delete_loop_ok [OF assms, of 0 sender iport "packet_proto udp" cf] by auto
  then show ?thesis
    by (intro exI [of _ st'], cases udp) (simp_all add: natpmp_mapping_request_def packet_fields packet_proto_def)
qed

theorem natpmp_delete_outcome_witness:
  "\<exists>st'. natpmp_mapping_request netfilter_ops sample_conf (mapping_packet True 0 0 0) 167772162 (start_state one_nf)
      = Some (Inr (0, writenu16 0 @ writenu16 0 @ writenu32 0), st') \<and> nf_ok (fw st')
    \<and> nf_table (fw st') = (\<lambda>k. case nf_table one_nf k of None \<Rightarrow> None
        | Some m \<Rightarrow> if natpmp_own 167772162 0 IPPROTO_UDP k m then None else Some m)"
proof -
  have "packet_proto True = IPPROTO_UDP" by (simp add: packet_proto_def)
  then show ?thesis
    using natpmp_delete_outcome [of "start_state one_nf" sample_conf True 0 0 167772162, unfolded start_state_fw]
      one_nf_ok one_nf_valid by (simp only:)
qed

text \<open>A granted lifetime that exceeds the 32 bits of the daemon's clock wraps around: the client is
  told the lifetime it asked for, but the mapping is expired at once, or never expires.\<close>

theorem natpmp_long_lifetime:
  assumes "nf_ok (fw st)" and "\<not> rc_disabled cf" and "iport \<noteq> 0" and "lifetime \<noteq> 0"
    and "p \<noteq> 0" and "port_avail cf (nf_table (fw st)) sender iport (packet_proto udp) p"
    and "2 ^ 32 \<le> unat (upnp_time (rc_env cf)) + unat lifetime"
  shows "\<exists>e st' m. natpmp_mapping_request netfilter_ops cf (mapping_packet udp iport eport lifetime) sender st
      = Some (Inr (0, writenu16 iport @ writenu16 e @ writenu32 lifetime), st')
    \<and> nf_table (fw st') (e, packet_proto udp) = Some m
    \<and> (mp_timestamp m = 0 \<or> expired (upnp_time (rc_env cf)) m)"
proof -
  let ?t = "upnp_time (rc_env cf)"
  have b: "unat x < 2 ^ 32" for x :: u32 by (rule order_less_le_trans [OF unsigned_less]) simp
  have "unat (?t + lifetime) = (unat ?t + unat lifetime) mod 2 ^ 32" by (simp add: unat_word_ariths)
  also have "\<dots> = unat ?t + unat lifetime - 2 ^ 32"
    using assms(7) b [of ?t] b [of lifetime] by (simp add: mod_if)
  finally have "unat (?t + lifetime) \<le> unat ?t" using b [of lifetime] by linarith
  then have le: "?t + lifetime \<le> ?t" by (simp add: word_le_nat_alt)
  have "\<exists>p. p \<noteq> 0 \<and> port_avail cf (nf_table (fw st)) sender iport (packet_proto udp) p" using assms(5,6) by blast
  with mapping_outcome [OF assms(1-4), of udp eport sender] obtain e st' where
    "natpmp_mapping_request netfilter_ops cf (mapping_packet udp iport eport lifetime) sender st
      = Some (Inr (0, writenu16 iport @ writenu16 e @ writenu32 lifetime), st')"
    "nf_table (fw st') = (nf_table (fw st))((e, packet_proto udp) \<mapsto>
       natpmp_portmap cf sender iport (packet_proto udp) lifetime e)" by auto
  then show ?thesis
    using le by (intro exI [of _ e] exI [of _ st'])
      (auto simp: natpmp_portmap_def expired_def word_neq_0_conv [symmetric])
qed

theorem natpmp_long_lifetime_witness:
  "\<exists>e st' m. natpmp_mapping_request netfilter_ops sample_conf (mapping_packet False 22 0 0xFFFFFFFF) 167772163 (start_state empty_nf)
      = Some (Inr (0, writenu16 22 @ writenu16 e @ writenu32 0xFFFFFFFF), st')
    \<and> nf_table (fw st') (e, IPPROTO_TCP) = Some m
    \<and> (mp_timestamp m = 0 \<or> expired (upnp_time (rc_env sample_conf)) m)"
proof -
  have "port_avail sample_conf (nf_table (fw (start_state empty_nf))) 167772163 22 (packet_proto False) 22"
    by (simp add: port_avail_def port_allowed_def port_busy_def sample_conf_def empty_nf_table)
  from natpmp_long_lifetime [OF _ sample_on _ _ _ this, where lifetime = "0xFFFFFFFF" and eport = "0"] show ?thesis
    using empty_nf_ok by (simp add: packet_proto_def sample_conf_def sample_env_def)
qed

text \<open>A reply is a NAT-PMP response, with version 0, the response opcode of the request and 8, 12
  or 16 bytes, is sent only for a request that is long enough, and is never answered itself when it
  is sent to a server: two servers cannot keep each other busy.\<close>

theorem natpmp_reply_not_answered:
  assumes "ProcessIncomingNATPMPPacket ops np req sender st = Some (Inr (Some reply), st')"
  shows "2 \<le> length req \<and> length reply \<in> {8, 12, 16} \<and> reply ! 0 = 0 \<and> reply ! 1 = 128 + req ! 1
    \<and> ProcessIncomingNATPMPPacket ops np' reply sender' st'' = Some (Inr None, st'')"
proof -
  have req: "2 \<le> length req" "(req ! 1) AND 128 = 0"
    using assms by (auto simp: ProcessIncomingNATPMPPacket_def too_short_def split: if_splits)
  have "\<exists>code rest epoch. reply = [0, 128 + req ! 1, 0, code] @ writenu32 epoch @ rest \<and> length rest \<in> {0, 4, 8}"
  proof (cases "req ! 0 > 0 \<or> (req ! 1 \<noteq> 0 \<and> req ! 1 \<noteq> 1 \<and> req ! 1 \<noteq> 2)")
    case True
    then have "\<exists>code epoch. reply = [0, 128 + req ! 1, 0, code] @ writenu32 epoch"
      using assms by (auto simp: ProcessIncomingNATPMPPacket_def Let_def split: if_splits)
    then show ?thesis by fastforce
  next
    case False
    show ?thesis
    proof (cases "req ! 1 = 0")
      case True
      then have "\<exists>epoch. reply = [0, 128 + req ! 1, 0, fst (fill_public_address np)] @ writenu32 epoch @ snd (fill_public_address np)"
        using assms False by (auto simp: ProcessIncomingNATPMPPacket_def Let_def split: if_splits prod.splits)
      then show ?thesis by fastforce
    next
      case op: False
      then obtain code rest m epoch where
        "natpmp_mapping_request ops (np_rdr np) req sender (np_maps st) = Some (Inr (code, rest), m)"
        "reply = [0, 128 + req ! 1, 0, code] @ writenu32 epoch @ rest"
        using assms False
        by (auto simp: ProcessIncomingNATPMPPacket_def Let_def map_sum_Inr split: if_splits prod.splits)
      with length_mapping_reply show ?thesis by blast
    qed
  qed
  then obtain code rest epoch where reply: "reply = [0, 128 + req ! 1, 0, code] @ writenu32 epoch @ rest"
    "length rest \<in> {0, 4, 8}" by blast
  have "reply ! 1 AND 128 \<noteq> 0" using response_bit [OF req(2)] by (simp add: reply(1))
  then have "ProcessIncomingNATPMPPacket ops np' reply sender' st'' = Some (Inr None, st'')"
    by (simp add: ProcessIncomingNATPMPPacket_def)
  then show ?thesis using req reply by auto
qed

text \<open>A router with the public address 8.8.8.8.\<close>

definition sample_natpmp :: natpmp_conf where
  "sample_natpmp = \<lparr>np_rdr = sample_conf, np_use_ext_ip_addr = None, np_ext_if_name = Some ''eth0'',
     np_ifaddr = Some 0x08080808, np_startup_time = 40\<rparr>"

definition sample_natpmp_state :: "nf natpmp_state" where
  "sample_natpmp_state = \<lparr>np_maps = start_state empty_nf, epoch_origin = 0\<rparr>"

theorem natpmp_reply_not_answered_witness:
  "\<exists>reply st'. ProcessIncomingNATPMPPacket netfilter_ops sample_natpmp [0, 7] 167772162 sample_natpmp_state
       = Some (Inr (Some reply), st')
     \<and> ProcessIncomingNATPMPPacket netfilter_ops sample_natpmp reply 167772162 sample_natpmp_state
       = Some (Inr None, sample_natpmp_state)"
proof -
  have "(7 :: byte) AND 128 = 0" by simp
  then obtain reply st' where "ProcessIncomingNATPMPPacket netfilter_ops sample_natpmp [0, 7] 167772162 sample_natpmp_state
       = Some (Inr (Some reply), st')"
    by (auto simp: ProcessIncomingNATPMPPacket_def too_short_def Let_def)
  with natpmp_reply_not_answered [OF this] show ?thesis by blast
qed

text \<open>A request for the public address is answered with the address of the external interface, which
  the client reads back, unless that address is reserved: then the answer is network failure.\<close>

theorem natpmp_public_address:
  assumes "np_use_ext_ip_addr np = None" and "np_ext_if_name np = Some name" and "name \<noteq> []"
    and "np_ifaddr np = Some addr"
  shows "\<exists>reply st'. ProcessIncomingNATPMPPacket ops np [0, 0] sender st = Some (Inr (Some reply), st')
    \<and> length reply = 12 \<and> reply ! 3 = (if addr_is_reserved addr then 3 else 0)
    \<and> (\<not> addr_is_reserved addr \<longrightarrow> readnu32 reply 8 = addr)"
proof -
  define head :: "byte list" where "head = [0, 128, 0, 0] @ writenu32 (upnp_time (rc_env (np_rdr np))
      - (if epoch_origin st = 0 then np_startup_time np else epoch_origin st))"
  have "length head = 8" by (simp add: head_def)
  then have read: "readnu32 (head @ writenu32 addr) 8 = addr"
    using read_write_32 [of head addr "[]"] by simp
  show ?thesis
    using assms read
    by (simp add: ProcessIncomingNATPMPPacket_def too_short_def Let_def fill_public_address_def
        inet_pton4_bytes head_def)
qed

theorem natpmp_public_address_witness:
  "\<exists>reply st'. ProcessIncomingNATPMPPacket netfilter_ops sample_natpmp [0, 0] 167772162 sample_natpmp_state
       = Some (Inr (Some reply), st')
    \<and> length reply = 12 \<and> reply ! 3 = (if addr_is_reserved 0x08080808 then 3 else 0)
    \<and> (\<not> addr_is_reserved 0x08080808 \<longrightarrow> readnu32 reply 8 = 0x08080808)"
  by (rule natpmp_public_address [of _ "''eth0''"]) (simp_all add: sample_natpmp_def)

end
