(* ===== verification/Inet6.thy ===== *)
theory Inet6
  imports Net_Bytes
begin

text \<open>
  IPv6 addresses and their text, as \<^verbatim>\<open>inet_ntop\<close> and \<^verbatim>\<open>inet_pton\<close> of the C library convert them for the
  pinholes: eight groups in hexadecimal, the longest run of zeros as \<^verbatim>\<open>::\<close>, and the embedded IPv4
  forms. The text of an address is read back as that address, so that equal texts are equal addresses.
\<close>

type_synonym in6_addr = "128 word"

section \<open>Groups\<close>

fun base65536 :: "nat \<Rightarrow> nat \<Rightarrow> nat list" where
  "base65536 0 n = []"
| "base65536 (Suc k) n = base65536 k (n div 65536) @ [n mod 65536]"

definition groups :: "in6_addr \<Rightarrow> nat list" where
  "groups a = base65536 8 (unat a)"

definition of_groups :: "nat list \<Rightarrow> in6_addr" where
  "of_groups gs = word_of_nat (foldl (\<lambda>v g. v * 65536 + g) 0 gs)"

lemma length_base65536 [simp]: "length (base65536 k n) = k"
  by (induction k n rule: base65536.induct) simp_all

lemma base65536_less: "g \<in> set (base65536 k n) \<Longrightarrow> g < 65536"
  by (induction k n rule: base65536.induct) auto

lemma base65536_value: "n < 65536 ^ k \<Longrightarrow> foldl (\<lambda>v g. v * 65536 + g) 0 (base65536 k n) = n"
  by (induction k n rule: base65536.induct) (simp_all add: less_mult_imp_div_less mult.commute)

lemma length_groups [simp]: "length (groups a) = 8"
  by (simp add: groups_def)

lemma groups_less: "g \<in> set (groups a) \<Longrightarrow> g < 65536"
  unfolding groups_def by (rule base65536_less)

lemma of_groups_groups [simp]: "of_groups (groups a) = a"
proof -
  have "unat a < 2 ^ 128" using unsigned_less [of a] by simp
  then have "unat a < 65536 ^ 8" by simp
  then show ?thesis by (simp add: of_groups_def groups_def base65536_value)
qed

section \<open>Printing\<close>

definition hex_char :: "nat \<Rightarrow> char" where
  "hex_char n = char_of (if n < 10 then 48 + n else 87 + n)"

fun hex :: "nat \<Rightarrow> string" where
  "hex n = (if n < 16 then [hex_char n] else hex (n div 16) @ [hex_char (n mod 16)])"

declare hex.simps [simp del]

definition keep_run :: "(nat \<times> nat) option \<Rightarrow> (nat \<times> nat) option \<Rightarrow> (nat \<times> nat) option" where
  "keep_run cur best =
     (case cur of None \<Rightarrow> best
      | Some (b, n) \<Rightarrow> (case best of None \<Rightarrow> cur | Some (b', n') \<Rightarrow> if n' < n then cur else best))"

fun best_run :: "nat \<Rightarrow> (nat \<times> nat) option \<Rightarrow> (nat \<times> nat) option \<Rightarrow> nat list \<Rightarrow> (nat \<times> nat) option" where
  "best_run i best cur [] = keep_run cur best"
| "best_run i best cur (w # ws) =
     (if w = 0 then best_run (i + 1) best (case cur of None \<Rightarrow> Some (i, 1) | Some (b, n) \<Rightarrow> Some (b, n + 1)) ws
      else best_run (i + 1) (keep_run cur best) None ws)"

definition zero_run :: "nat list \<Rightarrow> (nat \<times> nat) option" where
  "zero_run ws = (case best_run 0 None None ws of None \<Rightarrow> None | Some (b, n) \<Rightarrow> if n < 2 then None else Some (b, n))"

text \<open>The loop that prints: inside the run of zeros only its first group prints a colon; a run at the
  start that leaves the last two groups is followed by an IPv4 address.\<close>

fun print6 :: "(nat \<times> nat) option \<Rightarrow> (string option) \<Rightarrow> nat \<Rightarrow> nat list \<Rightarrow> string" where
  "print6 best v4 i [] = (case best of None \<Rightarrow> [] | Some (b, n) \<Rightarrow> if b + n = 8 then '':'' else [])"
| "print6 best v4 i (w # ws) =
     (if (case best of None \<Rightarrow> False | Some (b, n) \<Rightarrow> b \<le> i \<and> i < b + n)
      then (if i = fst (the best) then '':'' else []) @ print6 best v4 (i + 1) ws
      else (if i \<noteq> 0 then '':'' else [])
        @ (case v4 of Some t \<Rightarrow> if i = 6 then t else hex w @ print6 best v4 (i + 1) ws
           | None \<Rightarrow> hex w @ print6 best v4 (i + 1) ws))"

definition inet_ntop6 :: "in6_addr \<Rightarrow> string" where
  "inet_ntop6 a =
     (let ws = groups a; best = zero_run ws in
      print6 best (if best = Some (0, 6) \<or> (best = Some (0, 5) \<and> ws ! 5 = 65535)
        then Some (dotted (ucast a)) else None) 0 ws)"

section \<open>Parsing\<close>

definition hex_digit_value :: "char \<Rightarrow> nat option" where
  "hex_digit_value c =
     (let n = of_char c in
      if 48 \<le> n \<and> n \<le> 57 then Some (n - 48)
      else if 97 \<le> n \<and> n \<le> 102 then Some (n - 87)
      else if 65 \<le> n \<and> n \<le> 70 then Some (n - 55) else None)"

definition v4_groups :: "byte list \<Rightarrow> nat list" where
  "v4_groups bs = (case map unat bs of [a, b, c, d] \<Rightarrow> [a * 256 + b, c * 256 + d] | _ \<Rightarrow> [])"

fun pton6_loop ::
  "string \<Rightarrow> nat list \<Rightarrow> nat option \<Rightarrow> nat \<Rightarrow> nat \<Rightarrow> string \<Rightarrow> (nat list \<times> nat option) option" where
  "pton6_loop curtok gs colonp seen v [] =
     (if 0 < seen then (if 8 \<le> length gs then None else Some (gs @ [v], colonp)) else Some (gs, colonp))"
| "pton6_loop curtok gs colonp seen v (c # r) =
     (case hex_digit_value c of
        Some d \<Rightarrow> (if seen = 4 \<or> 65535 < v * 16 + d then None else pton6_loop curtok gs colonp (seen + 1) (v * 16 + d) r)
      | None \<Rightarrow>
        (if c = CHR '':''
         then (if seen = 0 then (if colonp \<noteq> None then None else pton6_loop r gs (Some (length gs)) 0 v r)
               else if r = [] then None
               else if 8 \<le> length gs then None
               else pton6_loop r (gs @ [v]) colonp 0 0 r)
         else if c = CHR ''.'' \<and> length gs + 2 \<le> 8
         then map_option (\<lambda>bs. (gs @ v4_groups bs, colonp)) (inet_pton4 curtok)
         else None))"

definition expand_groups :: "nat list \<times> nat option \<Rightarrow> in6_addr option" where
  "expand_groups p =
     (case p of (gs, None) \<Rightarrow> (if length gs = 8 then Some (of_groups gs) else None)
      | (gs, Some k) \<Rightarrow>
        (if 8 \<le> length gs then None
         else Some (of_groups (take k gs @ replicate (8 - length gs) 0 @ drop k gs))))"

definition inet_pton6 :: "string \<Rightarrow> in6_addr option" where
  "inet_pton6 s =
     (if s = [] then None
      else if hd s = CHR '':''
      then (if take 1 (tl s) = '':'' then Option.bind (pton6_loop (tl s) [] None 0 0 (tl s)) expand_groups else None)
      else Option.bind (pton6_loop s [] None 0 0 s) expand_groups)"

section \<open>The text of an address is read back\<close>

subsection \<open>Runs of zeros\<close>

definition run_of :: "nat list \<Rightarrow> (nat \<times> nat) option \<Rightarrow> bool" where
  "run_of ws r \<longleftrightarrow> (case r of None \<Rightarrow> True | Some (b, n) \<Rightarrow> b + n \<le> length ws \<and> take n (drop b ws) = replicate n 0)"

lemma run_of_keep: "run_of ws cur \<Longrightarrow> run_of ws best \<Longrightarrow> run_of ws (keep_run cur best)"
  by (auto simp: keep_run_def split: option.splits)

lemma run_of_append: "run_of ws r \<Longrightarrow> run_of (ws @ ws') r"
  by (auto simp: run_of_def split: option.splits)

lemma best_run_of:
  "run_of pre best \<Longrightarrow> run_of pre cur \<Longrightarrow> (\<forall>b n. cur = Some (b, n) \<longrightarrow> b + n = length pre) \<Longrightarrow>
     run_of (pre @ ws) (best_run (length pre) best cur ws)"
proof (induction ws arbitrary: pre best cur)
  case Nil
  then show ?case by (simp add: run_of_keep)
next
  case (Cons w ws)
  let ?cur = "case cur of None \<Rightarrow> Some (length pre, 1) | Some (b, n) \<Rightarrow> Some (b, n + 1)"
  show ?case
  proof (cases "w = 0")
    case True
    have "run_of (pre @ [0]) ?cur"
      using Cons.prems(2,3) by (auto simp: run_of_def replicate_append_same split: option.splits)
    moreover have "\<forall>b n. ?cur = Some (b, n) \<longrightarrow> b + n = length (pre @ [0])"
      using Cons.prems(3) by (auto split: option.splits)
    ultimately show ?thesis
      using Cons.IH [of "pre @ [0]" best ?cur] run_of_append [OF Cons.prems(1)] True by simp
  next
    case False
    then show ?thesis
      using Cons.IH [of "pre @ [w]" "keep_run cur best" None] run_of_append [OF run_of_keep [OF Cons.prems(2,1)]]
      by (simp add: run_of_def)
  qed
qed

lemma zero_run_split:
  assumes "zero_run ws = Some (b, n)"
  shows "2 \<le> n \<and> b + n \<le> length ws \<and> ws = take b ws @ replicate n 0 @ drop (b + n) ws"
proof -
  have "best_run 0 None None ws = Some (b, n)" "2 \<le> n"
    using assms by (auto simp: zero_run_def split: option.splits if_splits)
  moreover have "run_of ws (best_run 0 None None ws)"
    using best_run_of [of "[]" None None ws] by (simp add: run_of_def)
  ultimately have r: "2 \<le> n" "b + n \<le> length ws" "take n (drop b ws) = replicate n 0" by (simp_all add: run_of_def)
  then show ?thesis by (metis append_take_drop_id add.commute drop_drop)
qed

subsection \<open>The printed text\<close>

text \<open>Groups, each after a colon.\<close>

definition colons :: "nat list \<Rightarrow> string" where
  "colons ws = concat (map (\<lambda>w. CHR '':'' # hex w) ws)"

lemma colons_simps [simp]: "colons [] = []" "colons (w # ws) = CHR '':'' # hex w @ colons ws"
  by (simp_all add: colons_def)

lemma print6_no_run: "0 < i \<Longrightarrow> print6 None None i ws = colons ws"
  by (induction ws arbitrary: i) simp_all

lemma print6_after: "b + n \<le> i \<Longrightarrow> 0 < i \<Longrightarrow>
    print6 (Some (b, n)) None i ws = colons ws @ (if b + n = 8 then '':'' else [])"
  by (induction ws arbitrary: i) simp_all

lemma print6_run: "b < i \<Longrightarrow> i + k = b + n \<Longrightarrow>
    print6 (Some (b, n)) v4 i (replicate k 0 @ ws) = print6 (Some (b, n)) v4 (b + n) ws"
  by (induction k arbitrary: i) simp_all

lemma print6_before: "0 < i \<Longrightarrow> i + length pre = b \<Longrightarrow> 2 \<le> n \<Longrightarrow>
    print6 (Some (b, n)) None i (pre @ replicate n 0 @ ws) = colons pre @ CHR '':'' # print6 (Some (b, n)) None (b + n) ws"
proof (induction pre arbitrary: i)
  case Nil
  then obtain k where "n = Suc k" by (cases n) auto
  with Nil show ?case by (simp add: print6_run)
qed simp

lemma print6_start: "2 \<le> n \<Longrightarrow> print6 (Some (0, n)) v4 0 (replicate n 0 @ ws) = CHR '':'' # print6 (Some (0, n)) v4 n ws"
  by (cases n) (simp_all add: print6_run)

subsection \<open>Reading groups\<close>

lemma hex_char_value: "n < 16 \<Longrightarrow> hex_digit_value (hex_char n) = Some n"
  by (auto simp: hex_char_def hex_digit_value_def)

lemma length_hex: "n < 65536 \<Longrightarrow> 1 \<le> length (hex n) \<and> length (hex n) \<le> 4"
proof -
  have 1: "length (hex m) = 1" if "m < 16" for m using that by (simp add: hex.simps)
  have 2: "length (hex m) \<le> 2" if "m < 256" for m using that 1 [of "m div 16"] by (subst hex.simps) simp
  have 3: "length (hex m) \<le> 3" if "m < 4096" for m using that 2 [of "m div 16"] by (subst hex.simps) simp
  assume "n < 65536"
  then show ?thesis using 3 [of "n div 16"] by (subst (1 2) hex.simps) simp
qed

lemma loop_hex:
  "n < 65536 \<Longrightarrow> seen + length (hex n) \<le> 4 \<Longrightarrow> v * 16 ^ length (hex n) + n < 65536 \<Longrightarrow>
    pton6_loop cur gs colonp seen v (hex n @ r)
      = pton6_loop cur gs colonp (seen + length (hex n)) (v * 16 ^ length (hex n) + n) r"
proof (induction n arbitrary: seen v r rule: hex.induct)
  case (1 n)
  show ?case
  proof (cases "n < 16")
    case True
    then show ?thesis using 1(4) "1.prems" by (simp add: hex.simps hex_char_value)
  next
    case False
    let ?q = "n div 16"
    have hex: "hex n = hex ?q @ [hex_char (n mod 16)]" using False by (subst hex.simps) simp
    have n: "n = ?q * 16 + n mod 16" by simp
    have sum: "(v * 16 ^ length (hex ?q) + ?q) * 16 + n mod 16 = v * 16 ^ length (hex n) + n"
      unfolding hex by (subst (3) n) (simp add: algebra_simps)
    have times16: "a * 16 + m < 65536 \<Longrightarrow> a < (65536 :: nat)" for a m by simp
    have small: "v * 16 ^ length (hex ?q) + ?q < 65536"
      by (rule times16 [of _ "n mod 16"]) (simp only: sum "1.prems"(3))
    have len: "seen + length (hex ?q) \<le> 4" "seen + length (hex ?q) \<noteq> 4" using "1.prems"(2) hex by simp_all
    have "pton6_loop cur gs colonp seen v (hex ?q @ hex_char (n mod 16) # r)
      = pton6_loop cur gs colonp (seen + length (hex ?q)) (v * 16 ^ length (hex ?q) + ?q) (hex_char (n mod 16) # r)"
      using "1.IH" [OF False _ len(1) small] "1.prems"(1) by simp
    also have "\<dots> = pton6_loop cur gs colonp (seen + length (hex n)) (v * 16 ^ length (hex n) + n) r"
      using len(2) sum "1.prems"(3) by (simp add: hex_char_value hex algebra_simps)
    finally show ?thesis by (simp add: hex)
  qed
qed

lemma loop_group:
  assumes "w < 65536"
  shows "pton6_loop cur gs colonp 0 0 (hex w @ r) = pton6_loop cur gs colonp (length (hex w)) w r" "0 < length (hex w)"
proof -
  show "pton6_loop cur gs colonp 0 0 (hex w @ r) = pton6_loop cur gs colonp (length (hex w)) w r"
    using loop_hex [of w 0 0 cur gs colonp r] length_hex [OF assms] assms by simp
  show "0 < length (hex w)" using length_hex [OF assms] by linarith
qed

lemma colon_not_hex [simp]: "hex_digit_value CHR '':'' = None" "hex_digit_value CHR ''.'' = None"
  by (simp_all add: hex_digit_value_def)

text \<open>After a group, further groups up to a rest that is read at a group's end.\<close>

lemma loop_colons:
  assumes "\<forall>w\<in>set ws. w < 65536" "0 < seen" "length gs + length ws < 8"
  shows "\<exists>cur' seen'. 0 < seen' \<and> pton6_loop cur gs colonp seen v (colons ws @ r)
    = pton6_loop cur' (gs @ butlast (v # ws)) colonp seen' (last (v # ws)) r"
  using assms
proof (induction ws arbitrary: cur gs seen v)
  case Nil
  then show ?case by auto
next
  case (Cons w ws)
  let ?cur = "hex w @ colons ws @ r"
  have w: "w < 65536" using Cons.prems(1) by simp
  have "?cur \<noteq> []" using loop_group(2) [OF w] by auto
  then have "pton6_loop cur gs colonp seen v (colons (w # ws) @ r) = pton6_loop ?cur (gs @ [v]) colonp 0 0 ?cur"
    using Cons.prems by simp
  also have "\<dots> = pton6_loop ?cur (gs @ [v]) colonp (length (hex w)) w (colons ws @ r)" by (rule loop_group(1) [OF w])
  finally show ?case using Cons.IH [of "length (hex w)" "gs @ [v]" ?cur w] Cons.prems loop_group(2) [OF w] by auto
qed

text \<open>Groups from the start of a group to the end of the text.\<close>

lemma loop_last:
  assumes "\<forall>w\<in>set ws. w < 65536" "0 < seen" "length gs + length ws < 8"
  shows "pton6_loop cur gs colonp seen v (colons ws) = Some (gs @ v # ws, colonp)"
proof -
  obtain cur' seen' where "0 < seen'"
    "pton6_loop cur gs colonp seen v (colons ws @ []) = pton6_loop cur' (gs @ butlast (v # ws)) colonp seen' (last (v # ws)) []"
    using loop_colons [OF assms, of cur colonp v "[]"] by blast
  moreover have "pton6_loop cur' (gs @ butlast (v # ws)) colonp seen' (last (v # ws)) []
      = Some ((gs @ butlast (v # ws)) @ [last (v # ws)], colonp)" using \<open>0 < seen'\<close> assms(3) by simp
  moreover have "butlast (v # ws) @ [last (v # ws)] = v # ws" by (rule append_butlast_last_id) simp
  ultimately show ?thesis by (simp only: append.assoc append_Nil2)
qed

text \<open>The digits of an octet, up to the dot that starts the IPv4 form.\<close>

lemma digit_value: "isdigit c \<Longrightarrow> \<exists>d. hex_digit_value c = Some d \<and> d < 10"
  by (auto simp: isdigit_def hex_digit_value_def)

lemma loop_octet:
  assumes "length gs + 2 \<le> 8"
  shows "\<forall>c\<in>set ds. isdigit c \<Longrightarrow> seen + length ds \<le> 3 \<Longrightarrow> v < 16 ^ seen \<Longrightarrow>
    pton6_loop cur gs colonp seen v (ds @ CHR ''.'' # r) = map_option (\<lambda>bs. (gs @ v4_groups bs, colonp)) (inet_pton4 cur)"
proof (induction ds arbitrary: seen v)
  case Nil
  then show ?case using assms by simp
next
  case (Cons c ds)
  obtain d where d: "hex_digit_value c = Some d" "d < 10" using digit_value [of c] Cons.prems(1) by auto
  have v: "v * 16 + d < 16 ^ (seen + 1)" using Cons.prems(3) d(2) by simp
  have "(16 :: nat) ^ (seen + 1) \<le> 16 ^ 3" using Cons.prems(2) by (intro power_increasing) auto
  then have "v * 16 + d < 65536" using v by simp
  then show ?case using Cons.IH [OF _ _ v] Cons.prems d(1) by simp
qed

lemma octet_groups: "v4_groups (writenu32 x) = [unat x div 65536, unat x mod 65536]"
proof -
  have "map unat (writenu32 x) = [octet 3 x, octet 2 x, octet 1 x, octet 0 x]"
    unfolding octets_bytes [symmetric] by (simp add: unat_of_nat)
  then have "v4_groups (writenu32 x) = [octet 3 x * 256 + octet 2 x, octet 1 x * 256 + octet 0 x]"
    by (simp add: v4_groups_def)
  moreover have "unat x = (octet 3 x * 256 + octet 2 x) * 65536 + (octet 1 x * 256 + octet 0 x)"
    using octets_sum [of x] by (simp add: algebra_simps)
  moreover have "octet 1 x * 256 + octet 0 x < 65536" using octet_less [of 1 x] octet_less [of 0 x] by linarith
  moreover have "l < 65536 \<Longrightarrow> (h * 65536 + l) div 65536 = h \<and> (h * 65536 + l) mod 65536 = l" for h l :: nat by simp
  ultimately show ?thesis by metis
qed

lemma loop_dotted:
  assumes "length gs + 2 \<le> 8"
  shows "pton6_loop (dotted x) gs colonp 0 0 (dotted x) = Some (gs @ [unat x div 65536, unat x mod 65536], colonp)"
proof -
  have "length (dec (octet 3 x)) \<le> 3" by (intro length_dec order_less_trans [OF octet_less]) simp_all
  then have "pton6_loop (dotted x) gs colonp 0 0 (dec (octet 3 x) @ CHR ''.'' # dec (octet 2 x) @ ''.'' @ dec (octet 1 x)
      @ ''.'' @ dec (octet 0 x)) = map_option (\<lambda>bs. (gs @ v4_groups bs, colonp)) (inet_pton4 (dotted x))"
    by (intro loop_octet assms dec_digits) simp_all
  then show ?thesis unfolding inet_pton4_bytes by (simp add: octet_groups dotted_def)
qed

lemma last_groups: "drop 6 (groups a) = [unat (ucast a :: ipv4) div 65536, unat (ucast a :: ipv4) mod 65536]"
proof -
  have "unat (ucast a :: ipv4) = unat a mod 2 ^ 32" by (simp add: unsigned_ucast_eq take_bit_eq_mod)
  moreover have "unat a mod 2 ^ 32 = (unat a div 65536 mod 65536) * 65536 + unat a mod 65536"
    using mod_mult2_eq [of "unat a" 65536 65536] by simp
  ultimately have low: "unat (ucast a :: ipv4) = (unat a div 65536 mod 65536) * 65536 + unat a mod 65536" by simp
  have eight: "8 = Suc (Suc 6)" by simp
  have "groups a = base65536 6 (unat a div 65536 div 65536) @ [unat a div 65536 mod 65536, unat a mod 65536]"
    by (simp only: groups_def eight base65536.simps append.assoc append.simps)
  then have "drop 6 (groups a) = [unat a div 65536 mod 65536, unat a mod 65536]" by simp
  then show ?thesis using low by simp
qed

subsection \<open>Round trip\<close>

lemma hex_nonempty [simp]: "hex w \<noteq> []"
  by (subst hex.simps) simp

lemma hd_hex: "hd (hex w) \<noteq> CHR '':''"
proof (induction w rule: hex.induct)
  case (1 w)
  show ?case
  proof (cases "w < 16")
    case True
    then have "hex_digit_value (hd (hex w)) = Some w" by (simp add: hex.simps hex_char_value)
    then show ?thesis by (metis colon_not_hex(1) option.distinct(1))
  next
    case False
    then show ?thesis using "1.IH" [OF False] by (subst hex.simps) simp
  qed
qed

lemma colons_nil_iff [simp]: "colons ws = [] \<longleftrightarrow> ws = []"
  by (cases ws) simp_all

text \<open>The rest after a double colon: nothing, or groups.\<close>

lemma loop_rest:
  assumes "\<forall>w\<in>set ws. w < 65536" "length gs + length ws \<le> 8"
  shows "pton6_loop cur gs colonp 0 0 (case ws of [] \<Rightarrow> [] | w # r \<Rightarrow> hex w @ colons r) = Some (gs @ ws, colonp)"
proof (cases ws)
  case (Cons w r)
  then show ?thesis using assms loop_group(1) [of w cur gs colonp "colons r"] loop_group(2) [of w] loop_last [of r "length (hex w)" gs cur colonp w] by simp
qed simp

lemma colons_rest: "ws \<noteq> [] \<Longrightarrow> colons ws = CHR '':'' # (case ws of [] \<Rightarrow> [] | w # r \<Rightarrow> hex w @ colons r)"
  by (cases ws) simp_all

lemma read_plain:
  assumes "\<forall>w\<in>set ws. w < 65536" "length ws = 8"
  shows "inet_pton6 (print6 None None 0 ws) = Some (of_groups ws)"
proof -
  obtain w r where ws: "ws = w # r" using assms(2) by (cases ws) auto
  have printed: "print6 None None 0 ws = hex w @ colons r" using print6_no_run [of 1 r] by (simp add: ws)
  have "pton6_loop (hex w @ colons r) [] None 0 0 (hex w @ colons r) = Some (ws, None)"
    using loop_rest [of ws "[]" "hex w @ colons r" None] assms by (simp add: ws)
  then show ?thesis using hd_hex [of w] assms(2) by (simp add: inet_pton6_def printed expand_groups_def)
qed

lemma read_zeros_first:
  assumes "\<forall>w\<in>set post. w < 65536" "n + length post = 8" "2 \<le> n"
  shows "inet_pton6 (print6 (Some (0, n)) None 0 (replicate n 0 @ post)) = Some (of_groups (replicate n 0 @ post))"
proof -
  define q where "q = (case post of [] \<Rightarrow> [] | w # r \<Rightarrow> hex w @ colons r)"
  have printed: "print6 (Some (0, n)) None 0 (replicate n 0 @ post) = CHR '':'' # CHR '':'' # q"
    using assms print6_start [OF assms(3), of None post] print6_after [of 0 n n post]
    by (cases post) (auto simp: q_def)
  have "pton6_loop q [] (Some 0) 0 0 q = Some (post, Some 0)"
    using loop_rest [of post "[]" q "Some 0"] assms by (simp add: q_def)
  moreover have "8 - length post = n" using assms by simp
  ultimately show ?thesis using assms by (auto simp: inet_pton6_def printed expand_groups_def)
qed

lemma read_zeros_later:
  assumes "\<forall>w\<in>set (pre @ post). w < 65536" "pre \<noteq> []" "length pre + n + length post = 8" "2 \<le> n"
  shows "inet_pton6 (print6 (Some (length pre, n)) None 0 (pre @ replicate n 0 @ post)) = Some (of_groups (pre @ replicate n 0 @ post))"
proof -
  obtain w r where pre: "pre = w # r" using assms(2) by (cases pre) auto
  define q where "q = (case post of [] \<Rightarrow> [] | w # r \<Rightarrow> hex w @ colons r)"
  have "print6 (Some (length pre, n)) None (length pre + n) post = CHR '':'' # q"
    using assms print6_after [of "length pre" n "length pre + n" post] by (cases post) (auto simp: q_def)
  moreover have "print6 (Some (length pre, n)) None 1 (r @ replicate n 0 @ post)
      = colons r @ CHR '':'' # print6 (Some (length pre, n)) None (length pre + n) post"
    by (rule print6_before) (use assms(4) pre in auto)
  ultimately have printed: "print6 (Some (length pre, n)) None 0 (pre @ replicate n 0 @ post) = hex w @ colons r @ CHR '':'' # CHR '':'' # q"
    by (simp add: pre)
  let ?s = "hex w @ colons r @ CHR '':'' # CHR '':'' # q"
  have w: "w < 65536" "\<forall>w\<in>set r. w < 65536" using assms(1) pre by auto
  obtain cur seen where run: "0 < seen" "pton6_loop ?s [] None (length (hex w)) w (colons r @ CHR '':'' # CHR '':'' # q)
      = pton6_loop cur ([] @ butlast (w # r)) None seen (last (w # r)) (CHR '':'' # CHR '':'' # q)"
    using loop_colons [OF w(2), of "length (hex w)" "[]" ?s None w "CHR '':'' # CHR '':'' # q"] loop_group(2) [OF w(1)] assms pre by auto
  have room: "\<not> 8 \<le> length (butlast (w # r))" using assms(3) pre by simp
  have "butlast (w # r) @ [last (w # r)] = w # r" by (rule append_butlast_last_id) simp
  then have "pton6_loop cur (butlast (w # r)) None seen (last (w # r)) (CHR '':'' # CHR '':'' # q)
      = pton6_loop (CHR '':'' # q) pre None 0 0 (CHR '':'' # q)"
    using run(1) room unfolding pre by simp
  also have "\<dots> = Some (pre @ post, Some (length pre))"
    using loop_rest [of post pre q "Some (length pre)"] assms by (simp add: q_def)
  finally have "pton6_loop ?s [] None 0 0 ?s = Some (pre @ post, Some (length pre))"
    using run(2) loop_group(1) [OF w(1), of ?s "[]" None] by simp
  moreover have "8 - (length pre + length post) = n" using assms by simp
  ultimately show ?thesis using assms hd_hex [of w] unfolding printed by (auto simp: inet_pton6_def expand_groups_def)
qed

lemma read_embedded:
  assumes "n + length mid = 6" "\<forall>w\<in>set mid. w < 65536" "2 \<le> n"
  shows "inet_pton6 (print6 (Some (0, n)) (Some (dotted x)) 0 (replicate n 0 @ mid @ [g, h]))
    = Some (of_groups (replicate n 0 @ mid @ [unat x div 65536, unat x mod 65536]))"
proof -
  have tail: "0 < i \<Longrightarrow> n \<le> i \<Longrightarrow> i + length ws = 6 \<Longrightarrow>
      print6 (Some (0, n)) (Some (dotted x)) i (ws @ [g, h]) = colons ws @ CHR '':'' # dotted x" for i ws
    by (induction ws arbitrary: i) auto
  have printed: "print6 (Some (0, n)) (Some (dotted x)) 0 (replicate n 0 @ mid @ [g, h]) = CHR '':'' # colons mid @ CHR '':'' # dotted x"
    using print6_start [OF assms(3), of "Some (dotted x)" "mid @ [g, h]"] tail [of n mid] assms by simp
  let ?low = "[unat x div 65536, unat x mod 65536]"
  have "\<exists>s. colons mid @ CHR '':'' # dotted x = CHR '':'' # s \<and> pton6_loop s [] (Some 0) 0 0 s = Some (mid @ ?low, Some 0)"
  proof (cases mid)
    case Nil
    then show ?thesis using loop_dotted [of "[]" x "Some 0"] by simp
  next
    case (Cons w r)
    let ?s = "hex w @ colons r @ CHR '':'' # dotted x"
    have w: "w < 65536" "\<forall>w\<in>set r. w < 65536" "length ([] :: nat list) + length r < 8" using assms(1,2) Cons by auto
    obtain cur seen where run: "0 < seen" "pton6_loop ?s [] (Some 0) (length (hex w)) w (colons r @ CHR '':'' # dotted x)
        = pton6_loop cur ([] @ butlast (w # r)) (Some 0) seen (last (w # r)) (CHR '':'' # dotted x)"
      using loop_colons [OF w(2) loop_group(2) [OF w(1)] w(3), of ?s "Some 0" w "CHR '':'' # dotted x"] by blast
    have "butlast (w # r) @ [last (w # r)] = w # r" by (rule append_butlast_last_id) simp
    moreover have "length (butlast (w # r)) < 8" "dotted x \<noteq> []" "length mid + 2 \<le> 8" using assms Cons by (auto simp: dotted_def)
    ultimately have "pton6_loop cur (butlast (w # r)) (Some 0) seen (last (w # r)) (CHR '':'' # dotted x)
        = pton6_loop (dotted x) mid (Some 0) 0 0 (dotted x)" using run(1) unfolding Cons by simp
    also have "\<dots> = Some (mid @ ?low, Some 0)" using loop_dotted [OF \<open>length mid + 2 \<le> 8\<close>] .
    finally show ?thesis using run(2) loop_group(1) [OF w(1), of ?s "[]" "Some 0"] Cons by simp
  qed
  then obtain s where s: "colons mid @ CHR '':'' # dotted x = CHR '':'' # s" "pton6_loop s [] (Some 0) 0 0 s = Some (mid @ ?low, Some 0)"
    by blast
  moreover have "8 - length (mid @ ?low) = n" "\<not> 8 \<le> length (mid @ ?low)" using assms by auto
  ultimately show ?thesis unfolding printed by (simp add: inet_pton6_def expand_groups_def)
qed

theorem inet_pton6_ntop6 [simp]: "inet_pton6 (inet_ntop6 a) = Some a"
proof (cases "zero_run (groups a)")
  case None
  then show ?thesis
    using read_plain [of "groups a"] groups_less [of _ a] by (simp add: inet_ntop6_def)
next
  case (Some r)
  obtain b n where r: "r = (b, n)" by force
  let ?ws = "groups a"
  have split: "2 \<le> n" "b + n \<le> 8" "?ws = take b ?ws @ replicate n 0 @ drop (b + n) ?ws"
    using zero_run_split [of ?ws b n] Some r by simp_all
  have less: "\<forall>w\<in>set (take k ?ws @ drop l ?ws). w < 65536" for k l
    using groups_less [of _ a] by (auto dest: in_set_takeD in_set_dropD)
  show ?thesis
  proof (cases "r = (0, 6) \<or> (r = (0, 5) \<and> ?ws ! 5 = 65535)")
    case True
    then have b: "b = 0" "n \<le> 6" using r by auto
    define mid where "mid = take (6 - n) (drop n ?ws)"
    have "drop n ?ws = mid @ drop 6 ?ws" using b by (metis mid_def append_take_drop_id add.commute drop_drop le_add_diff_inverse2)
    moreover have "\<forall>w\<in>set mid. w < 65536" using groups_less [of _ a] unfolding mid_def by (meson in_set_takeD in_set_dropD)
    moreover have "n + length mid = 6" using b by (simp add: mid_def)
    ultimately have "inet_pton6 (print6 (Some (0, n)) (Some (dotted (ucast a))) 0 ?ws) = Some (of_groups ?ws)"
      using read_embedded [of n mid "ucast a"] split b last_groups [of a] by (metis append_Nil take_0 plus_nat.add_0)
    then show ?thesis using True Some r b(1) by (simp add: inet_ntop6_def)
  next
    case False
    then have "inet_ntop6 a = print6 (Some (b, n)) None 0 ?ws"
      using Some unfolding r inet_ntop6_def Let_def by (auto simp: r)
    moreover have "inet_pton6 (print6 (Some (b, n)) None 0 ?ws) = Some (of_groups ?ws)"
    proof (cases "b = 0")
      case True
      have "inet_pton6 (print6 (Some (0, n)) None 0 (replicate n 0 @ drop n ?ws)) = Some (of_groups (replicate n 0 @ drop n ?ws))"
        by (rule read_zeros_first) (use less [of 0 n] split(1,2) True in auto)
      moreover have "replicate n 0 @ drop n ?ws = ?ws" using split(3) True by simp
      ultimately show ?thesis using True by simp
    next
      case False
      have "inet_pton6 (print6 (Some (length (take b ?ws), n)) None 0 (take b ?ws @ replicate n 0 @ drop (b + n) ?ws))
          = Some (of_groups (take b ?ws @ replicate n 0 @ drop (b + n) ?ws))"
        by (rule read_zeros_later) (use less [of b "b + n"] split(1,2) False length_groups [of a] in \<open>auto simp del: length_groups\<close>)
      moreover have "length (take b ?ws) = b" using split(2) by simp
      ultimately show ?thesis by (simp only: split(3) [symmetric])
    qed
    ultimately show ?thesis by simp
  qed
qed

lemma inet_ntop6_inject: "inet_ntop6 a = inet_ntop6 b \<Longrightarrow> a = b"
  by (metis inet_pton6_ntop6 option.inject)

section \<open>The length of a text\<close>

lemma inet_pton4_result:
  assumes "inet_pton4 s = Some b"
  shows "length s \<le> 15" and "length b = 4"
proof -
  have "length (dec (octet k a)) \<le> 3" for k a by (intro length_dec order_less_trans [OF octet_less]) simp_all
  from this [of 3 "readnu32 b 0"] this [of 2 "readnu32 b 0"] this [of 1 "readnu32 b 0"] this [of 0 "readnu32 b 0"]
  have "length (dotted (readnu32 b 0)) \<le> 15" by (simp add: dotted_def)
  then show "length s \<le> 15" using inet_pton4_text [OF assms] by simp
  show "length b = 4" using assms by (auto simp: inet_pton4_def split: option.splits)
qed

lemma length_v4_groups: "length b = 4 \<Longrightarrow> length (v4_groups b) = 2"
  by (auto simp: v4_groups_def numeral_eq_Suc length_Suc_conv)

lemma loop_length:
  assumes "pton6_loop tok gs cp seen v s = Some (gs', cp')" and "length tok = seen + length s" and "seen \<le> 4"
  shows "(cp \<noteq> None \<longrightarrow> cp' = cp)
    \<and> length s + seen + 5 * length gs \<le> 5 * length gs' + 5 + (if cp = None \<and> cp' \<noteq> None then 1 else 0)"
  using assms
proof (induction tok gs cp seen v s rule: pton6_loop.induct)
  case (1 tok gs cp seen v)
  then show ?case by (auto split: if_splits)
next
  case (2 tok gs cp seen v c r)
  show ?case
  proof (cases "hex_digit_value c")
    case (Some d)
    have "pton6_loop tok gs cp (seen + 1) (v * 16 + d) r = Some (gs', cp')" "\<not> (seen = 4 \<or> 65535 < v * 16 + d)"
      using Some "2.prems"(1) by (auto split: if_splits)
    moreover note "2.IH"(3) [OF Some]
    ultimately show ?thesis using "2.prems"(2,3) by auto
  next
    case None
    show ?thesis
    proof (cases "c = CHR '':''")
      case colon: True
      show ?thesis
      proof (cases "seen = 0")
        case True
        then have "pton6_loop r gs (Some (length gs)) 0 v r = Some (gs', cp')" "cp = None"
          using "2.prems"(1) None colon by (auto split: if_splits)
        then show ?thesis using "2.IH"(1) [OF None colon True] True by auto
      next
        case False
        then have "pton6_loop r (gs @ [v]) cp 0 0 r = Some (gs', cp')" "r \<noteq> []" "\<not> 8 \<le> length gs"
          using "2.prems"(1) None colon by (auto split: if_splits)
        then show ?thesis using "2.IH"(2) [OF None colon False] "2.prems"(3) by auto
      qed
    next
      case False
      then obtain b where b: "inet_pton4 tok = Some b" "gs' = gs @ v4_groups b" "cp' = cp"
        using "2.prems"(1) None by (auto split: if_splits)
      then show ?thesis using inet_pton4_result [OF b(1)] length_v4_groups [of b] "2.prems"(2) by auto
    qed
  qed
qed

lemma inet_pton6_length:
  assumes "inet_pton6 s = Some a"
  shows "length s \<le> 45"
proof -
  have bound: "length t \<le> (if cp = None then 45 else 41)"
    if "pton6_loop t [] None 0 0 t = Some (gs, cp)" "expand_groups (gs, cp) \<noteq> None" for t gs cp
    using loop_length [OF that(1)] that(2) by (cases cp) (auto simp: expand_groups_def split: if_splits)
  show ?thesis
  proof (cases "hd s = CHR '':''")
    case True
    then obtain r gs cp where r: "tl s = CHR '':'' # r" "pton6_loop (tl s) [] None 0 0 (tl s) = Some (gs, cp)" "expand_groups (gs, cp) \<noteq> None"
      using assms by (cases "tl s") (auto simp: inet_pton6_def bind_eq_Some_conv split: if_splits)
    then have "pton6_loop r [] (Some 0) 0 0 r = Some (gs, cp)" by simp
    then have "cp \<noteq> None" using loop_length [of r "[]" "Some 0" 0 0 r gs cp] by simp
    then have "length (tl s) \<le> 41" using bound [OF r(2,3)] by (cases cp) auto
    then show ?thesis by (cases s) auto
  next
    case False
    then obtain gs cp where "pton6_loop s [] None 0 0 s = Some (gs, cp)" "expand_groups (gs, cp) \<noteq> None"
      using assms by (auto simp: inet_pton6_def bind_eq_Some_conv split: if_splits)
    then show ?thesis using bound [of s gs cp] by (cases cp) auto
  qed
qed

end
