(* ===== verification/Pinhole.thy ===== *)
theory Pinhole
  imports Inet6 Redirect_Interface "HOL-Library.Multiset"
begin

text \<open>
  IPv6 pinholes: the list of pinholes and the rules of the \<^verbatim>\<open>MINIUPNPD\<close> chain that
  \<^verbatim>\<open>netfilter/iptpinhole.c\<close> keeps, and the functions of \<^verbatim>\<open>upnppinhole.c\<close> over them. A table from
  identifiers to pinholes is the abstract state; adding, updating, deleting and cleaning are proved
  to do to that table what they promise.
\<close>

section \<open>State\<close>

text \<open>\<open>r6_check_proto\<close> is the flag \<^verbatim>\<open>IP6T_F_PROTO\<close>; the target of every rule is \<^verbatim>\<open>ACCEPT\<close>.\<close>

record pinhole =
  ph_saddr :: in6_addr
  ph_daddr :: in6_addr
  ph_timestamp :: u32
  ph_sport :: port
  ph_dport :: port
  ph_uid :: port
  ph_proto :: "8 word"
  ph_desc :: string

record ip6_rule =
  r6_proto :: "16 word"
  r6_check_proto :: bool
  r6_iniface :: string
  r6_src :: in6_addr
  r6_smsk :: in6_addr
  r6_dst :: in6_addr
  r6_dmsk :: in6_addr
  r6_match :: string
  r6_spts :: "port \<times> port"
  r6_dpts :: "port \<times> port"
  r6_pcnt :: "64 word"
  r6_bcnt :: "64 word"

text \<open>\<open>v6_chain\<close>: the rules of the chain \<^verbatim>\<open>MINIUPNPD\<close> of the filter table, when it exists.
  \<open>v6_outcomes\<close>: whether the next calls of the ip6tables library succeed; all others do.\<close>

record ip6_state =
  pinhole_list :: "pinhole list"
  next_uid :: int
  v6_chain :: "ip6_rule list option"
  v6_outcomes :: "bool list"

definition ip6tc_call :: "ip6_state \<Rightarrow> bool \<times> ip6_state" where
  "ip6tc_call s = (case v6_outcomes s of [] \<Rightarrow> (True, s) | b # bs \<Rightarrow> (b, s\<lparr>v6_outcomes := bs\<rparr>))"

section \<open>The list of pinholes\<close>

definition init_iptpinhole :: "ip6_state \<Rightarrow> ip6_state" where
  "init_iptpinhole s = s\<lparr>pinhole_list := []\<rparr>"

definition shutdown_iptpinhole :: "ip6_state \<Rightarrow> ip6_state" where
  "shutdown_iptpinhole s = s\<lparr>pinhole_list := []\<rparr>"

definition get_pinhole :: "port \<Rightarrow> pinhole list \<Rightarrow> pinhole option" where
  "get_pinhole uid l = find (\<lambda>p. ph_uid p = uid) l"

definition uid_after :: "int \<Rightarrow> int" where
  "uid_after n = (if n + 1 > 65535 then 1 else n + 1)"

text \<open>The search for an identifier that is not in use; without one it does not end.\<close>

partial_function (option) free_uid :: "(port \<Rightarrow> bool) \<Rightarrow> int \<Rightarrow> int option" where
  "free_uid used n = (if used (word_of_int n) then free_uid used (uid_after n) else Some n)"

text \<open>The new pinhole is in the list, with the identifier 0, while its identifier is searched.\<close>

definition add_to_pinhole_list ::
  "in6_addr \<Rightarrow> port \<Rightarrow> in6_addr \<Rightarrow> port \<Rightarrow> int \<Rightarrow> string \<Rightarrow> u32 \<Rightarrow> ip6_state \<Rightarrow> (int \<times> ip6_state) option" where
  "add_to_pinhole_list saddr sport daddr dport proto desc timestamp s =
     (let p = \<lparr>ph_saddr = saddr, ph_daddr = daddr, ph_timestamp = timestamp, ph_sport = sport, ph_dport = dport,
               ph_uid = 0, ph_proto = word_of_int proto, ph_desc = desc\<rparr>
      in map_option (\<lambda>n. let u = word_of_int n :: port in
           (uint u, s\<lparr>pinhole_list := p\<lparr>ph_uid := u\<rparr> # pinhole_list s, next_uid := uid_after n\<rparr>))
         (free_uid (\<lambda>u. get_pinhole u (p # pinhole_list s) \<noteq> None) (next_uid s)))"

section \<open>Rules\<close>

definition all_ones :: in6_addr where
  "all_ones = - 1"

definition match_name :: "int \<Rightarrow> string" where
  "match_name proto = (if proto = 6 then ''tcp'' else if proto = 17 then ''udp'' else if proto = 136 then ''udplite'' else [])"

text \<open>A host argument that is present and not empty; one that is no address leaves the address as it was.\<close>

definition some_host :: "string option \<Rightarrow> bool" where
  "some_host h \<longleftrightarrow> (case h of None \<Rightarrow> False | Some t \<Rightarrow> t \<noteq> [])"

definition pton6_or :: "in6_addr \<Rightarrow> string \<Rightarrow> in6_addr" where
  "pton6_or a s = (case inet_pton6 s of None \<Rightarrow> a | Some b \<Rightarrow> b)"

definition new_rule :: "string option \<Rightarrow> string option \<Rightarrow> port \<Rightarrow> string \<Rightarrow> port \<Rightarrow> int \<Rightarrow> ip6_rule" where
  "new_rule ifname rem_host rem_port int_client int_port proto =
     \<lparr>r6_proto = word_of_int proto, r6_check_proto = (proto \<noteq> 0),
      r6_iniface = (case ifname of None \<Rightarrow> [] | Some t \<Rightarrow> take 16 t),
      r6_src = (if some_host rem_host then pton6_or 0 (the rem_host) else 0),
      r6_smsk = (if some_host rem_host then all_ones else 0),
      r6_dst = pton6_or 0 int_client, r6_dmsk = all_ones, r6_match = match_name proto,
      r6_spts = (if rem_port \<noteq> 0 then (rem_port, rem_port) else (0, 0xFFFF)), r6_dpts = (int_port, int_port),
      r6_pcnt = 0, r6_bcnt = 0\<rparr>"

definition ip6tc_init_verify_append :: "ip6_rule \<Rightarrow> ip6_state \<Rightarrow> int \<times> ip6_state" where
  "ip6tc_init_verify_append e s =
     (let (init, s1) = ip6tc_call s in
      if \<not> init then (- 1, s1)
      else (case v6_chain s1 of None \<Rightarrow> (- 1, s1)
        | Some es \<Rightarrow>
          (let (append_ok, s2) = ip6tc_call s1 in
           if \<not> append_ok then (- 1, s2)
           else (let (commit_ok, s3) = ip6tc_call s2 in
             if \<not> commit_ok then (- 1, s3) else (0, s3\<lparr>v6_chain := Some (es @ [e])\<rparr>)))))"

definition add_pinhole ::
  "string option \<Rightarrow> string option \<Rightarrow> port \<Rightarrow> string \<Rightarrow> port \<Rightarrow> int \<Rightarrow> string \<Rightarrow> u32 \<Rightarrow> ip6_state \<Rightarrow> (int \<times> ip6_state) option" where
  "add_pinhole ifname rem_host rem_port int_client int_port proto desc timestamp s =
     (let e = new_rule ifname rem_host rem_port int_client int_port proto;
          (r, s1) = ip6tc_init_verify_append e s
      in if r < 0 then Some (- 1, s1)
         else add_to_pinhole_list (r6_src e) rem_port (r6_dst e) int_port proto desc timestamp s1)"

text \<open>Looking for a pinhole compares with an address that has no value when a host argument is no address.\<close>

fun find_in ::
  "in6_addr option \<Rightarrow> port \<Rightarrow> in6_addr option \<Rightarrow> port \<Rightarrow> int \<Rightarrow> pinhole list \<Rightarrow> fw_fault + pinhole option" where
  "find_in saddr rem_port daddr int_port proto [] = Inr None"
| "find_in saddr rem_port daddr int_port proto (p # l) =
     (if proto \<noteq> uint (ph_proto p) \<or> rem_port \<noteq> ph_sport p then find_in saddr rem_port daddr int_port proto l
      else (case saddr of None \<Rightarrow> Inl Uninitialised
        | Some a \<Rightarrow>
          (if a \<noteq> ph_saddr p \<or> int_port \<noteq> ph_dport p then find_in saddr rem_port daddr int_port proto l
           else (case daddr of None \<Rightarrow> Inl Uninitialised
             | Some d \<Rightarrow> if d \<noteq> ph_daddr p then find_in saddr rem_port daddr int_port proto l else Inr (Some p)))))"

definition find_pinhole ::
  "string option \<Rightarrow> port \<Rightarrow> string \<Rightarrow> port \<Rightarrow> int \<Rightarrow> ip6_state \<Rightarrow> fw_fault + pinhole option" where
  "find_pinhole rem_host rem_port int_client int_port proto s =
     find_in (if some_host rem_host then inet_pton6 (the rem_host) else Some 0) rem_port (inet_pton6 int_client) int_port proto
       (pinhole_list s)"

definition rule_of_pinhole :: "pinhole \<Rightarrow> ip6_rule \<Rightarrow> bool" where
  "rule_of_pinhole p e \<longleftrightarrow> r6_proto e = ucast (ph_proto p) \<and> r6_src e = ph_saddr p \<and> r6_dst e = ph_daddr p
     \<and> fst (r6_spts e) = ph_sport p \<and> fst (r6_dpts e) = ph_dport p"

definition delete_pinhole :: "port \<Rightarrow> ip6_state \<Rightarrow> int \<times> ip6_state" where
  "delete_pinhole uid s =
     (case get_pinhole uid (pinhole_list s) of None \<Rightarrow> (- 2, s)
      | Some p \<Rightarrow>
        (let (init, s1) = ip6tc_call s in
         if \<not> init then (- 1, s1)
         else (case v6_chain s1 of None \<Rightarrow> (- 1, s1)
           | Some es \<Rightarrow>
             (case find_index (rule_of_pinhole p) es of
                None \<Rightarrow> (- 2, s1\<lparr>pinhole_list := remove_first (\<lambda>p. ph_uid p = uid) (pinhole_list s1)\<rparr>)
              | Some i \<Rightarrow>
                (let (delete_ok, s2) = ip6tc_call s1 in
                 if \<not> delete_ok then (- 1, s2)
                 else (let (commit_ok, s3) = ip6tc_call s2 in
                   if \<not> commit_ok then (- 1, s3)
                   else (0, s3\<lparr>v6_chain := Some (delete_nth i es),
                              pinhole_list := remove_first (\<lambda>p. ph_uid p = uid) (pinhole_list s3)\<rparr>)))))))"

definition update_pinhole :: "port \<Rightarrow> u32 \<Rightarrow> ip6_state \<Rightarrow> int \<times> ip6_state" where
  "update_pinhole uid timestamp s =
     (case find_index (\<lambda>p. ph_uid p = uid) (pinhole_list s) of None \<Rightarrow> (- 2, s)
      | Some i \<Rightarrow> (0, s\<lparr>pinhole_list := (pinhole_list s)[i := (pinhole_list s ! i)\<lparr>ph_timestamp := timestamp\<rparr>]\<rparr>))"

text \<open>The pinhole, and the packets and bytes its rule has seen when they are asked for and the rule is found.\<close>

definition get_pinhole_info :: "bool \<Rightarrow> port \<Rightarrow> ip6_state \<Rightarrow> (int + pinhole \<times> (64 word \<times> 64 word) option) \<times> ip6_state" where
  "get_pinhole_info counters uid s =
     (case get_pinhole uid (pinhole_list s) of None \<Rightarrow> (Inl (- 2), s)
      | Some p \<Rightarrow>
        (if \<not> counters then (Inr (p, None), s)
         else (let (init, s1) = ip6tc_call s in
           if \<not> init then (Inl (- 1), s1)
           else (Inr (p, map_option (\<lambda>e. (r6_pcnt e, r6_bcnt e))
                    (find (rule_of_pinhole p) (case v6_chain s1 of None \<Rightarrow> [] | Some es \<Rightarrow> es))), s1))))"

definition get_pinhole_uid_by_index :: "nat \<Rightarrow> ip6_state \<Rightarrow> int" where
  "get_pinhole_uid_by_index index s =
     (if index < length (pinhole_list s) then uint (ph_uid (pinhole_list s ! index)) else - 1)"

fun clean_loop :: "u32 \<Rightarrow> pinhole list \<Rightarrow> nat \<Rightarrow> u32 \<Rightarrow> ip6_state \<Rightarrow> nat \<times> u32 \<times> ip6_state" where
  "clean_loop now [] n min_ts s = (n, min_ts, s)"
| "clean_loop now (p # l) n min_ts s =
     (if ph_timestamp p \<le> now
      then (let (r, s1) = delete_pinhole (ph_uid p) s in
        if r = 0 then clean_loop now l (n + 1) min_ts s1 else (n, min_ts, s1))
      else clean_loop now l n (if ph_timestamp p < min_ts then ph_timestamp p else min_ts) s)"

text \<open>The number of pinholes removed, and the time of the next to expire when it is written.\<close>

definition clean_pinhole_list :: "u32 \<Rightarrow> ip6_state \<Rightarrow> nat \<times> u32 option \<times> ip6_state" where
  "clean_pinhole_list now s =
     (let (n, min_ts, s1) = clean_loop now (pinhole_list s) 0 0xFFFFFFFF s
      in (n, if min_ts \<noteq> 0xFFFFFFFF then Some min_ts else None, s1))"

section \<open>upnppinhole.c\<close>

text \<open>\<open>now\<close> is what \<^verbatim>\<open>upnp_time\<close> returns.\<close>

definition upnp_find_inboundpinhole ::
  "string option \<Rightarrow> port \<Rightarrow> string \<Rightarrow> port \<Rightarrow> int \<Rightarrow> ip6_state \<Rightarrow> fw_fault + int" where
  "upnp_find_inboundpinhole raddr rport iaddr iport proto s =
     (case find_pinhole raddr rport iaddr iport proto s of Inl f \<Rightarrow> Inl f
      | Inr None \<Rightarrow> Inr (- 2) | Inr (Some p) \<Rightarrow> Inr (uint (ph_uid p)))"

definition upnp_update_inboundpinhole :: "u32 \<Rightarrow> port \<Rightarrow> u32 \<Rightarrow> ip6_state \<Rightarrow> int \<times> ip6_state" where
  "upnp_update_inboundpinhole now uid leasetime s = update_pinhole uid (now + leasetime) s"

text \<open>The result and the identifier. \<open>None\<close>: the search for an identifier does not end.\<close>

definition upnp_add_inboundpinhole ::
  "string option \<Rightarrow> u32 \<Rightarrow> string option \<Rightarrow> port \<Rightarrow> string \<Rightarrow> port \<Rightarrow> int \<Rightarrow> string \<Rightarrow> u32 \<Rightarrow> ip6_state
    \<Rightarrow> ((fw_fault + int \<times> int) \<times> ip6_state) option" where
  "upnp_add_inboundpinhole ifname6 now raddr rport iaddr iport proto desc leasetime s =
     (if inet_pton6 iaddr = None then Some (Inr (- 4, 0), s)
      else (let timestamp = now + leasetime in
        case upnp_find_inboundpinhole raddr rport iaddr iport proto s of Inl f \<Rightarrow> Some (Inl f, s)
        | Inr uid \<Rightarrow>
          (if 0 \<le> uid
           then (let (r, s1) = upnp_update_inboundpinhole now (word_of_int uid) timestamp s
                 in Some (Inr (if 0 \<le> r then 1 else r, uid), s1))
           else map_option (\<lambda>(u, s1). (Inr (if 0 \<le> u then 1 else - 1, u), s1))
                  (add_pinhole ifname6 raddr rport iaddr iport proto desc timestamp s))))"

text \<open>The pinhole, the seconds it lives and its packets; the packets are read without a value when the
  rule is not found.\<close>

definition upnp_get_pinhole_info ::
  "u32 \<Rightarrow> bool \<Rightarrow> port \<Rightarrow> ip6_state \<Rightarrow> (fw_fault + (int + pinhole \<times> u32 \<times> u32)) \<times> ip6_state" where
  "upnp_get_pinhole_info now packets uid s =
     (case get_pinhole_info packets uid s of
        (Inl r, s1) \<Rightarrow> (Inr (Inl r), s1)
      | (Inr (p, c), s1) \<Rightarrow>
        (let leasetime = (if now < ph_timestamp p then ph_timestamp p - now else 0) in
         if packets
         then (case c of None \<Rightarrow> (Inl Uninitialised, s1) | Some (n, _) \<Rightarrow> (Inr (Inr (p, leasetime, ucast n)), s1))
         else (Inr (Inr (p, leasetime, 0)), s1)))"

definition upnp_get_pinhole_uid_by_index :: "nat \<Rightarrow> ip6_state \<Rightarrow> int" where
  "upnp_get_pinhole_uid_by_index index s = get_pinhole_uid_by_index index s"

definition upnp_delete_inboundpinhole :: "port \<Rightarrow> ip6_state \<Rightarrow> int \<times> ip6_state" where
  "upnp_delete_inboundpinhole uid s = delete_pinhole uid s"

definition upnp_clean_expired_pinholes :: "u32 \<Rightarrow> ip6_state \<Rightarrow> nat \<times> u32 option \<times> ip6_state" where
  "upnp_clean_expired_pinholes now s = clean_pinhole_list now s"

section \<open>Identifiers\<close>

lemma free_uid_result:
  "free_uid used n = Some u \<Longrightarrow> 1 \<le> n \<and> n \<le> 65535 \<longrightarrow> 1 \<le> u \<and> u \<le> 65535 \<and> \<not> used (word_of_int u)"
proof (erule free_uid.raw_induct [where P = "\<lambda>used n u. 1 \<le> n \<and> n \<le> 65535 \<longrightarrow> 1 \<le> u \<and> u \<le> 65535 \<and> \<not> used (word_of_int u)",
      rotated])
  fix f and used :: "port \<Rightarrow> bool" and n u :: int
  assume IH: "\<And>used n u. f used n = Some u \<Longrightarrow> 1 \<le> n \<and> n \<le> 65535 \<longrightarrow> 1 \<le> u \<and> u \<le> 65535 \<and> \<not> used (word_of_int u)"
    and run: "(if used (word_of_int n) then f used (uid_after n) else Some n) = Some u"
  have "1 \<le> n \<and> n \<le> 65535 \<Longrightarrow> 1 \<le> uid_after n \<and> uid_after n \<le> 65535" by (simp add: uid_after_def)
  then show "1 \<le> n \<and> n \<le> 65535 \<longrightarrow> 1 \<le> u \<and> u \<le> 65535 \<and> \<not> used (word_of_int u)"
    using run IH [of used "uid_after n" u] by (auto split: if_splits)
qed

text \<open>How many steps the search takes from one identifier to another.\<close>

definition uid_steps :: "int \<Rightarrow> int \<Rightarrow> nat" where
  "uid_steps n t = nat (if n \<le> t then t - n else t - n + 65535)"

lemma uid_steps_less:
  "\<lbrakk>1 \<le> n; n \<le> 65535; 1 \<le> t; t \<le> 65535; n \<noteq> t\<rbrakk> \<Longrightarrow> uid_steps (uid_after n) t < uid_steps n t"
  by (auto simp: uid_steps_def uid_after_def)

lemma free_uid_found:
  assumes "1 \<le> t" "t \<le> 65535" "\<not> used (word_of_int t)"
  shows "1 \<le> n \<Longrightarrow> n \<le> 65535 \<Longrightarrow> \<exists>u. free_uid used n = Some u \<and> 1 \<le> u \<and> u \<le> 65535 \<and> \<not> used (word_of_int u)"
proof (induction "uid_steps n t" arbitrary: n rule: less_induct)
  case less
  show ?case
  proof (cases "used (word_of_int n)")
    case True
    then have "n \<noteq> t" using assms(3) by auto
    moreover have "1 \<le> uid_after n" "uid_after n \<le> 65535" using less.prems by (simp_all add: uid_after_def)
    ultimately show ?thesis using less.hyps [of "uid_after n"] uid_steps_less [OF less.prems assms(1,2)] True
      by (subst free_uid.simps) simp
  next
    case False
    then show ?thesis using less.prems by (subst free_uid.simps) simp
  qed
qed

lemma free_uid_none:
  assumes "\<And>u. 1 \<le> u \<Longrightarrow> u \<le> 65535 \<Longrightarrow> used (word_of_int u)" "1 \<le> n" "n \<le> 65535"
  shows "free_uid used n = None"
  using free_uid_result [of used n] assms by (cases "free_uid used n") auto

section \<open>The table of pinholes\<close>

definition pin_key :: "pinhole \<Rightarrow> 16 word \<times> port \<times> in6_addr \<times> port \<times> in6_addr" where
  "pin_key p = (ucast (ph_proto p), ph_sport p, ph_saddr p, ph_dport p, ph_daddr p)"

definition rule_key6 :: "ip6_rule \<Rightarrow> 16 word \<times> port \<times> in6_addr \<times> port \<times> in6_addr" where
  "rule_key6 e = (r6_proto e, fst (r6_spts e), r6_src e, fst (r6_dpts e), r6_dst e)"

lemma rule_of_pinhole_key: "rule_of_pinhole p e \<longleftrightarrow> rule_key6 e = pin_key p"
  by (auto simp: rule_of_pinhole_def rule_key6_def pin_key_def)

text \<open>The state between requests: the identifiers are distinct and not 0, no two pinholes are alike, and
  the chain has exactly one rule for each.\<close>

definition pin_ok :: "ip6_state \<Rightarrow> bool" where
  "pin_ok s \<longleftrightarrow> v6_outcomes s = [] \<and> 1 \<le> next_uid s \<and> next_uid s \<le> 65535
     \<and> distinct (map ph_uid (pinhole_list s)) \<and> 0 \<notin> ph_uid ` set (pinhole_list s)
     \<and> distinct (map pin_key (pinhole_list s))
     \<and> (\<exists>es. v6_chain s = Some es \<and> mset (map rule_key6 es) = mset (map pin_key (pinhole_list s)))"

definition holes :: "ip6_state \<Rightarrow> port \<Rightarrow> pinhole option" where
  "holes s uid = get_pinhole uid (pinhole_list s)"

lemma pin_okD:
  assumes "pin_ok s"
  shows "v6_outcomes s = []" "1 \<le> next_uid s" "next_uid s \<le> 65535" "distinct (map ph_uid (pinhole_list s))"
    "0 \<notin> ph_uid ` set (pinhole_list s)" "distinct (map pin_key (pinhole_list s))"
  using assms by (simp_all add: pin_ok_def)

lemma pin_chain:
  assumes "pin_ok s"
  obtains es where "v6_chain s = Some es" "mset (map rule_key6 es) = mset (map pin_key (pinhole_list s))"
  using assms by (auto simp: pin_ok_def)

lemma ip6tc_call_ok [simp]: "v6_outcomes s = [] \<Longrightarrow> ip6tc_call s = (True, s)"
  by (simp add: ip6tc_call_def)

lemma get_pinhole_iff:
  "distinct (map ph_uid l) \<Longrightarrow> get_pinhole uid l = Some p \<longleftrightarrow> p \<in> set l \<and> ph_uid p = uid"
  unfolding get_pinhole_def by (induction l) auto

lemma get_pinhole_None: "get_pinhole uid l = None \<longleftrightarrow> uid \<notin> ph_uid ` set l"
  by (auto simp: get_pinhole_def find_None_iff)

lemma mset_map_remove_first:
  "(\<And>x. P x \<longleftrightarrow> f x = k) \<Longrightarrow> \<exists>x\<in>set xs. P x \<Longrightarrow> mset (map f (remove_first P xs)) = mset (map f xs) - {#k#}"
  by (induction xs) (auto simp: diff_add_mset_swap)

lemma remove_first_distinct: "distinct (map f xs) \<Longrightarrow> remove_first (\<lambda>x. f x = k) xs = filter (\<lambda>x. f x \<noteq> k) xs"
  by (induction xs) (auto simp: filter_id_conv image_iff intro!: sym [OF filter_True])

lemma option_eqI: "(\<And>q. x = Some q \<longleftrightarrow> y = Some q) \<Longrightarrow> x = y"
  by (cases x; cases y) auto

text \<open>Deleting.\<close>

lemma delete_pinhole_ok:
  assumes ok: "pin_ok s" and p: "p \<in> set (pinhole_list s)"
  shows "\<exists>s'. delete_pinhole (ph_uid p) s = (0, s') \<and> pin_ok s'
    \<and> pinhole_list s' = filter (\<lambda>q. ph_uid q \<noteq> ph_uid p) (pinhole_list s)"
proof -
  note okd = pin_okD [OF ok]
  obtain es where es: "v6_chain s = Some es" "mset (map rule_key6 es) = mset (map pin_key (pinhole_list s))"
    using pin_chain [OF ok] by blast
  have get: "get_pinhole (ph_uid p) (pinhole_list s) = Some p" using p okd(4) by (simp add: get_pinhole_iff)
  have "pin_key p \<in> rule_key6 ` set es" using mset_eq_setD [OF es(2)] p by auto
  then have hit: "\<exists>e\<in>set es. rule_of_pinhole p e" by (auto simp: rule_of_pinhole_key)
  then obtain i where i: "find_index (rule_of_pinhole p) es = Some i"
    using find_index_None [of "rule_of_pinhole p" es] by (cases "find_index (rule_of_pinhole p) es") auto
  define l where "l = filter (\<lambda>q. ph_uid q \<noteq> ph_uid p) (pinhole_list s)"
  define s' where "s' = s\<lparr>v6_chain := Some (remove_first (rule_of_pinhole p) es), pinhole_list := l\<rparr>"
  have l: "remove_first (\<lambda>q. ph_uid q = ph_uid p) (pinhole_list s) = l"
    unfolding l_def by (rule remove_first_distinct [OF okd(4)])
  have run: "delete_pinhole (ph_uid p) s = (0, s')"
    by (simp add: delete_pinhole_def get okd(1) es(1) i delete_found [OF i] l s'_def)
  have "mset (map rule_key6 (remove_first (rule_of_pinhole p) es)) = mset (map rule_key6 es) - {#pin_key p#}"
    by (rule mset_map_remove_first) (use rule_of_pinhole_key hit in auto)
  moreover have "mset (map pin_key l) = mset (map pin_key (pinhole_list s)) - {#pin_key p#}"
  proof -
    have "l = filter (\<lambda>q. pin_key q \<noteq> pin_key p) (pinhole_list s)"
      unfolding l_def using p okd(4,6) by (intro filter_cong) (auto simp: distinct_map inj_on_def)
    then have "l = remove_first (\<lambda>q. pin_key q = pin_key p) (pinhole_list s)"
      using remove_first_distinct [OF okd(6), of "pin_key p"] by simp
    moreover have "mset (map pin_key (remove_first (\<lambda>q. pin_key q = pin_key p) (pinhole_list s)))
        = mset (map pin_key (pinhole_list s)) - {#pin_key p#}" by (rule mset_map_remove_first) (use p in auto)
    ultimately show ?thesis by simp
  qed
  ultimately have "pin_ok s'"
    using okd es unfolding pin_ok_def s'_def l_def by (auto simp: distinct_map inj_on_def)
  then show ?thesis using run by (auto simp: s'_def l_def)
qed

lemma holes_filter:
  assumes "pin_ok s" "pinhole_list s' = filter P (pinhole_list s)"
  shows "holes s' u = (case holes s u of None \<Rightarrow> None | Some p \<Rightarrow> if P p then Some p else None)"
proof -
  have d: "distinct (map ph_uid (pinhole_list s))" "distinct (map ph_uid (pinhole_list s'))"
    using pin_okD(4) [OF assms(1)] by (simp_all add: assms(2) distinct_map_filter)
  have iff: "holes s' u = Some p \<longleftrightarrow> holes s u = Some p \<and> P p" for p
    using d by (auto simp: holes_def get_pinhole_iff assms(2))
  show ?thesis
  proof (cases "holes s' u")
    case None
    then show ?thesis using iff by (auto split: option.splits)
  next
    case (Some p)
    then show ?thesis using iff [of p] by simp
  qed
qed

text \<open>Updating.\<close>

lemma update_ok:
  assumes ok: "pin_ok s" and p: "holes s u = Some p"
  shows "\<exists>s'. update_pinhole u t s = (0, s') \<and> pin_ok s' \<and> holes s' = (holes s)(u \<mapsto> p\<lparr>ph_timestamp := t\<rparr>)
    \<and> v6_chain s' = v6_chain s"
proof -
  note okd = pin_okD [OF ok]
  let ?l = "pinhole_list s"
  have mem: "p \<in> set ?l" "ph_uid p = u" using p okd(4) by (simp_all add: holes_def get_pinhole_iff)
  then obtain i where i: "find_index (\<lambda>q. ph_uid q = u) ?l = Some i"
    using find_index_None [of "\<lambda>q. ph_uid q = u" ?l] by (cases "find_index (\<lambda>q. ph_uid q = u) ?l") auto
  then have at: "i < length ?l" "?l ! i = p"
    using find_index_Some [OF i] p by (auto simp: holes_def get_pinhole_def)
  let ?q = "p\<lparr>ph_timestamp := t\<rparr>"
  define s' where "s' = s\<lparr>pinhole_list := ?l[i := ?q]\<rparr>"
  have run: "update_pinhole u t s = (0, s')" by (simp add: update_pinhole_def i at s'_def)
  have same: "map ph_uid (?l[i := ?q]) = map ph_uid ?l" "map pin_key (?l[i := ?q]) = map pin_key ?l"
    using at by (simp_all add: map_update pin_key_def list_update_same_conv)
  have uids: "ph_uid ` set (?l[i := ?q]) = ph_uid ` set ?l" by (metis same(1) list.set_map)
  have "pin_ok s'" using ok unfolding pin_ok_def s'_def by (simp add: same uids)
  moreover have "holes s' w = ((holes s)(u \<mapsto> ?q)) w" for w
  proof -
    have d: "distinct (map ph_uid (?l[i := ?q]))" using okd(4) same by simp
    have "q \<in> set (?l[i := ?q]) \<longleftrightarrow> q = ?q \<or> (q \<in> set ?l \<and> ph_uid q \<noteq> u)" for q
    proof -
      have "set (?l[i := ?q]) = insert ?q (set ?l - {p})"
        using set_update_distinct [of ?l i ?q] okd(4) at by (simp add: distinct_map)
      moreover have "q \<in> set ?l \<Longrightarrow> q = p \<longleftrightarrow> ph_uid q = u" using okd(4) mem by (auto simp: distinct_map inj_on_def)
      ultimately show ?thesis by auto
    qed
    then have "get_pinhole w (?l[i := ?q]) = Some q \<longleftrightarrow> ((holes s)(u \<mapsto> ?q)) w = Some q" for q
      using d okd(4) mem by (auto simp: holes_def get_pinhole_iff)
    then show ?thesis by (intro option_eqI) (simp add: holes_def s'_def)
  qed
  ultimately show ?thesis using run by (auto simp: s'_def fun_eq_iff)
qed

text \<open>Adding.\<close>

lemma find_in_find:
  "find_in (Some a) sp (Some d) dp proto l
    = Inr (find (\<lambda>p. uint (ph_proto p) = proto \<and> ph_sport p = sp \<and> ph_saddr p = a \<and> ph_dport p = dp \<and> ph_daddr p = d) l)"
  by (induction l) auto

text \<open>The remote host of a request: none, or the text of an address.\<close>

definition remote_host :: "string option \<Rightarrow> in6_addr \<Rightarrow> bool" where
  "remote_host h a \<longleftrightarrow> (if some_host h then inet_pton6 (the h) = Some a else a = 0)"

definition new_pinhole :: "in6_addr \<Rightarrow> port \<Rightarrow> in6_addr \<Rightarrow> port \<Rightarrow> int \<Rightarrow> string \<Rightarrow> u32 \<Rightarrow> port \<Rightarrow> pinhole" where
  "new_pinhole a sp d dp proto desc ts u =
     \<lparr>ph_saddr = a, ph_daddr = d, ph_timestamp = ts, ph_sport = sp, ph_dport = dp, ph_uid = u,
      ph_proto = word_of_int proto, ph_desc = desc\<rparr>"

lemma small_proto:
  assumes "0 \<le> proto" "proto < 256"
  shows "uint (word_of_int proto :: 8 word) = proto" "ucast (word_of_int proto :: 8 word) = (word_of_int proto :: 16 word)"
proof -
  show "uint (word_of_int proto :: 8 word) = proto" using assms by (simp add: uint_word_of_int)
  then have "word_of_int (uint (word_of_int proto :: 8 word)) = (word_of_int proto :: 16 word)" by simp
  then show "ucast (word_of_int proto :: 8 word) = (word_of_int proto :: 16 word)" by simp
qed

lemma same_key_iff:
  assumes "0 \<le> proto" "proto < 256"
  shows "pin_key p = (word_of_int proto, sp, a, dp, d)
    \<longleftrightarrow> uint (ph_proto p) = proto \<and> ph_sport p = sp \<and> ph_saddr p = a \<and> ph_dport p = dp \<and> ph_daddr p = d"
proof -
  have narrow: "(ucast (ucast w :: 16 word) :: 8 word) = w" for w :: "8 word"
    by (rule bit_word_eqI) (simp add: bit_simps)
  have "ucast (ph_proto p) = (word_of_int proto :: 16 word) \<longleftrightarrow> ph_proto p = word_of_int proto"
    unfolding small_proto(2) [OF assms, symmetric] by (metis narrow)
  moreover have "ph_proto p = word_of_int proto \<longleftrightarrow> uint (ph_proto p) = proto"
    using small_proto(1) [OF assms] by (metis word_of_int_uint)
  ultimately show ?thesis by (auto simp: pin_key_def)
qed

lemma free_port:
  assumes "length l < 65535"
  shows "\<exists>t. 1 \<le> t \<and> t \<le> (65535 :: int) \<and> (word_of_int t :: port) \<notin> ph_uid ` set l"
proof (rule ccontr)
  assume none: "\<not> ?thesis"
  let ?f = "\<lambda>t. word_of_int t :: port"
  have "inj_on ?f {1 .. 65535}"
    by (rule inj_onI) (auto simp: word_of_int_eq_iff take_bit_eq_mod)
  then have "card (?f ` {1 .. 65535}) = 65535" by (simp add: card_image)
  moreover have "?f ` {1 .. 65535} \<subseteq> ph_uid ` set l" using none by auto
  ultimately have "65535 \<le> card (ph_uid ` set l)" using card_mono [of "ph_uid ` set l" "?f ` {1 .. 65535}"] by simp
  also have "\<dots> \<le> length l" using card_image_le [of "set l" ph_uid] card_length [of l] by (meson List.finite_set le_trans)
  finally show False using assms by simp
qed

text \<open>The address that a rule gets for a remote host.\<close>

definition host6 :: "string option \<Rightarrow> in6_addr" where
  "host6 h = (if some_host h then pton6_or 0 (the h) else 0)"

lemma remote_host6: "remote_host h a \<Longrightarrow> host6 h = a"
  by (auto simp: remote_host_def host6_def pton6_or_def split: if_splits)

lemma add_pinhole_result:
  assumes ok: "pin_ok s" and client: "inet_pton6 int_client = Some d" and proto: "0 \<le> proto" "proto < 256"
    and fresh: "(word_of_int proto, sp, host6 rem_host, dp, d) \<notin> pin_key ` set (pinhole_list s)"
    and run: "add_pinhole ifname rem_host sp int_client dp proto desc ts s = Some (r, s')"
  shows "\<exists>u es. r = uint u \<and> pin_ok s' \<and> u \<noteq> 0 \<and> holes s u = None
    \<and> holes s' = (holes s)(u \<mapsto> new_pinhole (host6 rem_host) sp d dp proto desc ts u)
    \<and> v6_chain s = Some es \<and> v6_chain s' = Some (es @ [new_rule ifname rem_host sp int_client dp proto])"
proof -
  note okd = pin_okD [OF ok]
  obtain es where es: "v6_chain s = Some es" "mset (map rule_key6 es) = mset (map pin_key (pinhole_list s))"
    using pin_chain [OF ok] by blast
  define a where "a = host6 rem_host"
  let ?e = "new_rule ifname rem_host sp int_client dp proto"
  define s1 where "s1 = s\<lparr>v6_chain := Some (es @ [?e])\<rparr>"
  have append: "ip6tc_init_verify_append ?e s = (0, s1)"
    by (simp add: ip6tc_init_verify_append_def okd(1) es(1) s1_def)
  have src: "r6_src ?e = a" "r6_dst ?e = d"
    using client by (auto simp: new_rule_def a_def host6_def pton6_or_def)
  define p where "p = new_pinhole a sp d dp proto desc ts 0"
  define used where "used = (\<lambda>u. get_pinhole u (p # pinhole_list s) \<noteq> None)"
  have used: "used u \<longleftrightarrow> u = 0 \<or> u \<in> ph_uid ` set (pinhole_list s)" for u
    unfolding used_def get_pinhole_None by (auto simp: p_def new_pinhole_def)
  have add: "add_to_pinhole_list a sp d dp proto desc ts s1 = Some (r, s')"
    using run by (simp add: add_pinhole_def append src Let_def)
  then obtain n where n: "free_uid used (next_uid s) = Some n"
    by (auto simp: add_to_pinhole_list_def Let_def s1_def used_def p_def new_pinhole_def)
  have bounds: "1 \<le> n" "n \<le> 65535" "\<not> used (word_of_int n)" using free_uid_result [OF n] okd(2,3) by auto
  define u :: port where "u = word_of_int n"
  let ?q = "new_pinhole a sp d dp proto desc ts u"
  have u: "u \<noteq> 0" "u \<notin> ph_uid ` set (pinhole_list s)" using bounds(3) used by (simp_all add: u_def)
  have s': "r = uint u" "s' = s1\<lparr>pinhole_list := ?q # pinhole_list s, next_uid := uid_after n\<rparr>"
    using n add by (simp_all add: add_to_pinhole_list_def Let_def s1_def used_def p_def new_pinhole_def u_def)
  have key: "pin_key ?q = (word_of_int proto, sp, a, dp, d)" "rule_key6 ?e = (word_of_int proto, sp, a, dp, d)"
    using src small_proto [OF proto] by (auto simp: pin_key_def rule_key6_def new_pinhole_def new_rule_def)
  have "pin_ok s'"
    using okd es(2) u fresh bounds key unfolding pin_ok_def s'(2) s1_def a_def
    by (simp add: uid_after_def new_pinhole_def)
  moreover have "holes s' = (holes s)(u \<mapsto> ?q)"
    by (auto simp: fun_eq_iff holes_def s'(2) get_pinhole_def new_pinhole_def)
  moreover have "holes s u = None" using u(2) by (simp add: holes_def get_pinhole_None)
  ultimately show ?thesis using s' u(1) es(1) by (auto simp: s1_def a_def)
qed

lemma add_pinhole_ok:
  assumes ok: "pin_ok s" and room: "length (pinhole_list s) < 65535" and client: "inet_pton6 int_client = Some d"
    and proto: "0 \<le> proto" "proto < 256"
    and fresh: "(word_of_int proto, sp, host6 rem_host, dp, d) \<notin> pin_key ` set (pinhole_list s)"
  shows "\<exists>u s' es. add_pinhole ifname rem_host sp int_client dp proto desc ts s = Some (uint u, s') \<and> pin_ok s'
    \<and> u \<noteq> 0 \<and> holes s u = None \<and> holes s' = (holes s)(u \<mapsto> new_pinhole (host6 rem_host) sp d dp proto desc ts u)
    \<and> v6_chain s = Some es \<and> v6_chain s' = Some (es @ [new_rule ifname rem_host sp int_client dp proto])"
proof -
  note okd = pin_okD [OF ok]
  obtain es where es: "v6_chain s = Some es" using pin_chain [OF ok] by blast
  let ?e = "new_rule ifname rem_host sp int_client dp proto"
  have append: "ip6tc_init_verify_append ?e s = (0, s\<lparr>v6_chain := Some (es @ [?e])\<rparr>)"
    by (simp add: ip6tc_init_verify_append_def okd(1) es)
  have nz: "(word_of_int t :: port) \<noteq> 0" if "1 \<le> t" "t \<le> 65535" for t
    using that by (simp add: word_of_int_eq_0_iff zdvd_not_zless)
  obtain t :: int where t: "1 \<le> t" "t \<le> 65535" "(word_of_int t :: port) \<notin> ph_uid ` set (pinhole_list s)"
    using free_port [OF room] by blast
  have "\<exists>n. free_uid (\<lambda>u. get_pinhole u (p # pinhole_list s) \<noteq> None) (next_uid s) = Some n" if "ph_uid p = 0" for p
  proof -
    have "\<not> get_pinhole (word_of_int t) (p # pinhole_list s) \<noteq> None"
      using t nz that by (simp add: get_pinhole_None)
    from free_uid_found [of t "\<lambda>u. get_pinhole u (p # pinhole_list s) \<noteq> None", OF t(1,2) this okd(2,3)] show ?thesis by blast
  qed
  then have "\<exists>r s'. add_pinhole ifname rem_host sp int_client dp proto desc ts s = Some (r, s')"
    by (simp add: add_pinhole_def append add_to_pinhole_list_def Let_def)
  then show ?thesis using add_pinhole_result [OF ok client proto fresh] by blast
qed

lemma word_of_uint_port [simp]: "(word_of_int (uint u) :: port) = u"
  by simp

lemma list_holes: "pin_ok s \<Longrightarrow> p \<in> set (pinhole_list s) \<longleftrightarrow> holes s (ph_uid p) = Some p"
  by (auto simp: holes_def get_pinhole_iff pin_okD(4))

lemma holes_uid: "holes s u = Some p \<Longrightarrow> ph_uid p = u"
  unfolding holes_def get_pinhole_def by (induction "pinhole_list s" arbitrary: s) (auto simp: find_Some_iff)

lemma keys_holes: "pin_ok s \<Longrightarrow> k \<in> pin_key ` set (pinhole_list s) \<longleftrightarrow> (\<exists>u p. holes s u = Some p \<and> pin_key p = k)"
  using list_holes holes_uid by (force simp: image_iff)

lemma find_key:
  assumes "pin_ok s" "remote_host h a" "inet_pton6 client = Some d" "0 \<le> proto" "proto < 256"
  shows "find_pinhole h sp client dp proto s = Inr (find (\<lambda>p. pin_key p = (word_of_int proto, sp, a, dp, d)) (pinhole_list s))"
proof -
  have "(if some_host h then inet_pton6 (the h) else Some 0) = Some a" using assms(2) by (auto simp: remote_host_def)
  then show ?thesis by (simp add: find_pinhole_def assms(3) find_in_find same_key_iff [OF assms(4,5)])
qed

text \<open>The table after a request for a pinhole.\<close>

lemma upnp_add_existing:
  assumes ok: "pin_ok s" and args: "remote_host raddr a" "inet_pton6 iaddr = Some d" "0 \<le> proto" "proto < 256"
    and p: "holes s u = Some p" "pin_key p = (word_of_int proto, rport, a, iport, d)"
  shows "\<exists>s'. upnp_add_inboundpinhole ifname6 now raddr rport iaddr iport proto desc leasetime s = Some (Inr (1, uint u), s')
    \<and> pin_ok s' \<and> holes s' = (holes s)(u \<mapsto> p\<lparr>ph_timestamp := now + (now + leasetime)\<rparr>)"
proof -
  have uid: "ph_uid p = u" using holes_uid [OF p(1)] .
  then have mem: "p \<in> set (pinhole_list s)" using p(1) list_holes [OF ok, of p] by simp
  obtain q where q: "find (\<lambda>q. pin_key q = (word_of_int proto, rport, a, iport, d)) (pinhole_list s) = Some q"
    using mem p(2) by (cases "find (\<lambda>q. pin_key q = (word_of_int proto, rport, a, iport, d)) (pinhole_list s)") (auto simp: find_None_iff)
  then have "q \<in> set (pinhole_list s)" "pin_key q = (word_of_int proto, rport, a, iport, d)" by (auto simp: find_Some_iff)
  then have "q = p" using mem p(2) pin_okD(6) [OF ok] by (auto simp: distinct_map inj_on_def)
  then have find: "upnp_find_inboundpinhole raddr rport iaddr iport proto s = Inr (uint u)"
    using q uid by (simp add: upnp_find_inboundpinhole_def find_key [OF ok args])
  obtain s' where "update_pinhole u (now + (now + leasetime)) s = (0, s')" "pin_ok s'"
    "holes s' = (holes s)(u \<mapsto> p\<lparr>ph_timestamp := now + (now + leasetime)\<rparr>)"
    using update_ok [OF ok p(1)] by blast
  then show ?thesis
    by (intro exI [of _ s']) (simp add: upnp_add_inboundpinhole_def args(2) find upnp_update_inboundpinhole_def Let_def)
qed

lemma upnp_add_new:
  assumes ok: "pin_ok s" and args: "remote_host raddr a" "inet_pton6 iaddr = Some d" "0 \<le> proto" "proto < 256"
    and room: "length (pinhole_list s) < 65535"
    and new: "\<forall>u p. holes s u = Some p \<longrightarrow> pin_key p \<noteq> (word_of_int proto, rport, a, iport, d)"
  shows "\<exists>u s'. upnp_add_inboundpinhole ifname6 now raddr rport iaddr iport proto desc leasetime s = Some (Inr (1, uint u), s')
    \<and> pin_ok s' \<and> u \<noteq> 0 \<and> holes s u = None
    \<and> holes s' = (holes s)(u \<mapsto> new_pinhole a rport d iport proto desc (now + leasetime) u)"
proof -
  let ?k = "(word_of_int proto, rport, a, iport, d)"
  have fresh: "?k \<notin> pin_key ` set (pinhole_list s)" using new keys_holes [OF ok] by blast
  have "pin_key q \<noteq> ?k" if "q \<in> set (pinhole_list s)" for q
  proof
    assume "pin_key q = ?k"
    then have "?k \<in> pin_key ` set (pinhole_list s)" using imageI [OF that, of pin_key] by (simp only:)
    then show False using fresh by (rule notE [rotated])
  qed
  then have "find (\<lambda>q. pin_key q = ?k) (pinhole_list s) = None" by (simp add: find_None_iff)
  then have find: "upnp_find_inboundpinhole raddr rport iaddr iport proto s = Inr (- 2)"
    by (simp add: upnp_find_inboundpinhole_def find_key [OF ok args])
  obtain u s' where "add_pinhole ifname6 raddr rport iaddr iport proto desc (now + leasetime) s = Some (uint u, s')" "pin_ok s'"
    "u \<noteq> 0" "holes s u = None" "holes s' = (holes s)(u \<mapsto> new_pinhole a rport d iport proto desc (now + leasetime) u)"
    using add_pinhole_ok [OF ok room args(2-4), of rport raddr iport ifname6 desc "now + leasetime"] fresh
    unfolding remote_host6 [OF args(1)] by blast
  then show ?thesis
    by (intro exI [of _ u] exI [of _ s']) (simp add: upnp_add_inboundpinhole_def args(2) find Let_def)
qed

text \<open>Changes of the table that touch only pinholes to one address and ports with a property.\<close>

definition own_holes :: "in6_addr \<Rightarrow> (port \<Rightarrow> bool) \<Rightarrow> (port \<Rightarrow> pinhole option) \<Rightarrow> (port \<Rightarrow> pinhole option) \<Rightarrow> bool" where
  "own_holes d P T T' \<longleftrightarrow> (\<forall>u. T' u = T u
     \<or> (\<forall>p. T u = Some p \<or> T' u = Some p \<longrightarrow> ph_daddr p = d \<and> P (ph_dport p)))"

lemma own_holes_refl [simp]: "own_holes d P T T"
  by (simp add: own_holes_def)

lemma own_holes_upd: "ph_daddr p = d \<Longrightarrow> P (ph_dport p) \<Longrightarrow> (\<And>q. T u = Some q \<Longrightarrow> ph_daddr q = d \<and> P (ph_dport q))
    \<Longrightarrow> own_holes d P T (T(u \<mapsto> p))"
  by (simp add: own_holes_def)

lemma find_in_no_source:
  "find_in None sp daddr dp proto l = Inr r \<Longrightarrow> r = None \<and> (\<forall>p\<in>set l. \<not> (uint (ph_proto p) = proto \<and> ph_sport p = sp))"
  by (induction l) (auto split: if_splits)

lemma upnp_add_own:
  assumes ok: "pin_ok s" and client: "inet_pton6 iaddr = Some d" and proto: "0 \<le> proto" "proto < 256" and P: "P iport"
    and run: "upnp_add_inboundpinhole ifname6 now raddr rport iaddr iport proto desc leasetime s = Some (r, s')"
  shows "pin_ok s' \<and> own_holes d P (holes s) (holes s')"
proof (cases "find_pinhole raddr rport iaddr iport proto s")
  case (Inl f)
  then show ?thesis using run ok client by (simp add: upnp_add_inboundpinhole_def upnp_find_inboundpinhole_def)
next
  case (Inr found)
  define saddr where "saddr = (if some_host raddr then inet_pton6 (the raddr) else Some 0)"
  have find: "find_in saddr rport (Some d) iport proto (pinhole_list s) = Inr found"
    using Inr client by (simp add: find_pinhole_def saddr_def)
  show ?thesis
  proof (cases found)
    case (Some p)
    then obtain a where a: "saddr = Some a" using find find_in_no_source [of rport "Some d" iport proto "pinhole_list s" found]
      by (cases saddr) auto
    then have p: "p \<in> set (pinhole_list s)" "ph_dport p = iport" "ph_daddr p = d"
      using find Some by (auto simp: find_in_find find_Some_iff)
    obtain s1 where s1: "update_pinhole (ph_uid p) (now + (now + leasetime)) s = (0, s1)" "pin_ok s1"
      "holes s1 = (holes s)(ph_uid p \<mapsto> p\<lparr>ph_timestamp := now + (now + leasetime)\<rparr>)"
      using update_ok [OF ok] p(1) list_holes [OF ok] by blast
    then have "s' = s1" using run client Inr Some
      by (simp add: upnp_add_inboundpinhole_def upnp_find_inboundpinhole_def upnp_update_inboundpinhole_def Let_def)
    moreover have "holes s (ph_uid p) = Some p" using p(1) list_holes [OF ok] by blast
    ultimately show ?thesis using s1(2,3) p P by (auto intro!: own_holes_upd)
  next
    case None
    have "pin_key q \<noteq> (word_of_int proto, rport, host6 raddr, iport, d)" if "q \<in> set (pinhole_list s)" for q
    proof (cases saddr)
      case None
      then show ?thesis using find find_in_no_source that same_key_iff [OF proto] by blast
    next
      case (Some a)
      then have "a = host6 raddr" by (auto simp: saddr_def host6_def pton6_or_def split: if_splits)
      then show ?thesis using find Some \<open>found = None\<close> that by (auto simp: find_in_find find_None_iff same_key_iff [OF proto])
    qed
    then have fresh: "(word_of_int proto, rport, host6 raddr, iport, d) \<notin> pin_key ` set (pinhole_list s)" by (metis imageE)
    from run client Inr None obtain u where add: "add_pinhole ifname6 raddr rport iaddr iport proto desc (now + leasetime) s = Some (u, s')"
      by (auto simp: upnp_add_inboundpinhole_def upnp_find_inboundpinhole_def Let_def)
    from add_pinhole_result [OF ok client proto fresh add] show ?thesis
      using P by (auto intro!: own_holes_upd simp: new_pinhole_def)
  qed
qed

text \<open>Cleaning.\<close>

lemma clean_loop_ok:
  assumes "pin_ok s" "set l \<subseteq> set (pinhole_list s)" "distinct (map ph_uid l)"
  shows "\<exists>m s'. clean_loop now l n min_ts s = (n + length (filter (\<lambda>p. ph_timestamp p \<le> now) l), m, s') \<and> pin_ok s'
    \<and> pinhole_list s' = filter (\<lambda>p. \<not> (p \<in> set l \<and> ph_timestamp p \<le> now)) (pinhole_list s)
    \<and> m \<le> min_ts \<and> (\<forall>p\<in>set l. now < ph_timestamp p \<longrightarrow> m \<le> ph_timestamp p)
    \<and> (m = min_ts \<or> (\<exists>p\<in>set l. now < ph_timestamp p \<and> ph_timestamp p = m))"
  using assms
proof (induction l arbitrary: n min_ts s)
  case (Cons p l)
  have p: "p \<in> set (pinhole_list s)" using Cons.prems(2) by simp
  have inj: "q \<in> set (pinhole_list s) \<Longrightarrow> ph_uid q = ph_uid p \<longleftrightarrow> q = p" for q
    using pin_okD(4) [OF Cons.prems(1)] p by (auto simp: distinct_map inj_on_def)
  show ?case
  proof (cases "ph_timestamp p \<le> now")
    case True
    obtain s1 where s1: "delete_pinhole (ph_uid p) s = (0, s1)" "pin_ok s1"
      "pinhole_list s1 = filter (\<lambda>q. ph_uid q \<noteq> ph_uid p) (pinhole_list s)"
      using delete_pinhole_ok [OF Cons.prems(1) p] by blast
    have "set l \<subseteq> set (pinhole_list s1)" using Cons.prems(2,3) s1(3) by (auto simp: image_iff)
    from Cons.IH [OF s1(2) this, of "n + 1" min_ts] Cons.prems(3)
    obtain m s' where *: "clean_loop now l (n + 1) min_ts s1
        = (n + 1 + length (filter (\<lambda>p. ph_timestamp p \<le> now) l), m, s')" "pin_ok s'"
      "pinhole_list s' = filter (\<lambda>p. \<not> (p \<in> set l \<and> ph_timestamp p \<le> now)) (pinhole_list s1)"
      "m \<le> min_ts" "\<forall>p\<in>set l. now < ph_timestamp p \<longrightarrow> m \<le> ph_timestamp p"
      "m = min_ts \<or> (\<exists>p\<in>set l. now < ph_timestamp p \<and> ph_timestamp p = m)" by auto
    have "pinhole_list s' = filter (\<lambda>q. \<not> (q \<in> set (p # l) \<and> ph_timestamp q \<le> now)) (pinhole_list s)"
      unfolding *(3) s1(3) filter_filter using True inj by (intro filter_cong) auto
    then show ?thesis using *(1,2,4-6) True s1(1) by auto
  next
    case False
    define t where "t = (if ph_timestamp p < min_ts then ph_timestamp p else min_ts)"
    have "set l \<subseteq> set (pinhole_list s)" "distinct (map ph_uid l)" using Cons.prems(2,3) by auto
    from Cons.IH [OF Cons.prems(1) this, of n t]
    obtain m s' where *: "clean_loop now l n t s = (n + length (filter (\<lambda>p. ph_timestamp p \<le> now) l), m, s')" "pin_ok s'"
      "pinhole_list s' = filter (\<lambda>p. \<not> (p \<in> set l \<and> ph_timestamp p \<le> now)) (pinhole_list s)"
      "m \<le> t" "\<forall>p\<in>set l. now < ph_timestamp p \<longrightarrow> m \<le> ph_timestamp p"
      "m = t \<or> (\<exists>p\<in>set l. now < ph_timestamp p \<and> ph_timestamp p = m)" by auto
    have "clean_loop now (p # l) n min_ts s = (n + length (filter (\<lambda>p. ph_timestamp p \<le> now) (p # l)), m, s')"
      using *(1) False by (simp add: t_def)
    moreover have "pinhole_list s' = filter (\<lambda>q. \<not> (q \<in> set (p # l) \<and> ph_timestamp q \<le> now)) (pinhole_list s)"
      unfolding *(3) using False by (intro filter_cong) auto
    moreover have "m \<le> min_ts" "m \<le> ph_timestamp p" using *(4) by (auto simp: t_def split: if_splits)
    moreover have "m = min_ts \<or> (\<exists>q\<in>set (p # l). now < ph_timestamp q \<and> ph_timestamp q = m)"
      using *(6) False by (auto simp: t_def split: if_splits)
    ultimately show ?thesis using *(2,5) by auto
  qed
qed auto

section \<open>Properties\<close>

text \<open>The table after a cleanup, and the states a new daemon and a sample pinhole give.\<close>

definition pin_start :: ip6_state where
  "pin_start = \<lparr>pinhole_list = [], next_uid = 1, v6_chain = Some [], v6_outcomes = []\<rparr>"

lemma pin_start_ok: "pin_ok pin_start" "holes pin_start u = None"
  by (simp_all add: pin_ok_def pin_start_def holes_def get_pinhole_def)

text \<open>C22: A request for a pinhole that is not there yet adds exactly that pinhole, under an identifier that
  was free and is not 0, with the lease that was asked for; the chain keeps one rule for each pinhole.\<close>

theorem pinhole_added:
  assumes "pin_ok s" and "remote_host raddr a" and "inet_pton6 iaddr = Some d" and "0 \<le> proto" and "proto < 256"
    and "length (pinhole_list s) < 65535"
    and "\<forall>u p. holes s u = Some p \<longrightarrow> pin_key p \<noteq> (word_of_int proto, rport, a, iport, d)"
  shows "\<exists>u s'. upnp_add_inboundpinhole ifname6 now raddr rport iaddr iport proto desc leasetime s = Some (Inr (1, uint u), s')
    \<and> pin_ok s' \<and> u \<noteq> 0 \<and> holes s u = None
    \<and> holes s' = (holes s)(u \<mapsto> new_pinhole a rport d iport proto desc (now + leasetime) u)"
  by (rule upnp_add_new [OF assms])

lemma sample_host: "remote_host (Some []) 0" "remote_host None 0"
  by (simp_all add: remote_host_def some_host_def)

theorem pinhole_added_witness:
  "\<exists>u s'. upnp_add_inboundpinhole None 100 None 0 (inet_ntop6 1) 5000 6 ''IGD2 pinhole'' 60 pin_start = Some (Inr (1, uint u), s')
    \<and> pin_ok s' \<and> u \<noteq> 0 \<and> holes pin_start u = None
    \<and> holes s' = (holes pin_start)(u \<mapsto> new_pinhole 0 0 1 5000 6 ''IGD2 pinhole'' (100 + 60) u)"
  by (rule pinhole_added) (simp_all add: pin_start_ok sample_host, simp add: pin_start_def)

text \<open>A request for a pinhole that is there already gives its identifier and moves its end to twice the
  daemon's clock plus the lease, instead of the clock plus the lease: the clock is added once by
  \<^verbatim>\<open>upnp_add_inboundpinhole\<close> and once more by \<^verbatim>\<open>upnp_update_inboundpinhole\<close>.\<close>

theorem readded_pinhole_end:
  assumes "pin_ok s" and "remote_host raddr a" and "inet_pton6 iaddr = Some d" and "0 \<le> proto" and "proto < 256"
    and "holes s u = Some p" and "pin_key p = (word_of_int proto, rport, a, iport, d)"
  shows "\<exists>s'. upnp_add_inboundpinhole ifname6 now raddr rport iaddr iport proto desc leasetime s = Some (Inr (1, uint u), s')
    \<and> pin_ok s' \<and> holes s' = (holes s)(u \<mapsto> p\<lparr>ph_timestamp := now + (now + leasetime)\<rparr>)"
  by (rule upnp_add_existing [OF assms])

theorem readded_pinhole_end_witness:
  "\<exists>u s s'. upnp_add_inboundpinhole None 100 None 0 (inet_ntop6 1) 5000 6 ''IGD2 pinhole'' 60 s = Some (Inr (1, uint u), s')
    \<and> holes s' = (holes s)(u \<mapsto> new_pinhole 0 0 1 5000 6 ''IGD2 pinhole'' 260 u)"
proof -
  have room: "length (pinhole_list pin_start) < 65535" by (simp add: pin_start_def)
  obtain u s where s: "pin_ok s" "holes s = (holes pin_start)(u \<mapsto> new_pinhole 0 0 1 5000 6 ''IGD2 pinhole'' 160 u)"
    using upnp_add_new [OF pin_start_ok(1) sample_host(2) inet_pton6_ntop6 [of 1] _ _ room, of 6 0 5000 None 100 "''IGD2 pinhole''" 60]
    by (auto simp: pin_start_ok)
  have "pin_key (new_pinhole 0 0 1 5000 6 ''IGD2 pinhole'' 160 u) = (word_of_int 6, 0, 0, 5000, 1)"
    by (simp add: pin_key_def new_pinhole_def)
  then obtain s' where "upnp_add_inboundpinhole None 100 None 0 (inet_ntop6 1) 5000 6 ''IGD2 pinhole'' 60 s = Some (Inr (1, uint u), s')"
    "holes s' = (holes s)(u \<mapsto> (new_pinhole 0 0 1 5000 6 ''IGD2 pinhole'' 160 u)\<lparr>ph_timestamp := 100 + (100 + 60)\<rparr>)"
    using readded_pinhole_end [OF s(1) sample_host(2) inet_pton6_ntop6 [of 1], of 6 u "new_pinhole 0 0 1 5000 6 ''IGD2 pinhole'' 160 u" 0 5000
        None 100 "''IGD2 pinhole''" 60] by (auto simp: s(2))
  then show ?thesis by (intro exI [of _ u] exI [of _ s] exI [of _ s']) (simp add: new_pinhole_def)
qed

text \<open>C27: The cleanup removes exactly the pinholes whose time has come, with their rules, counts them, and
  gives as next time the earliest end of a pinhole that is left.\<close>

theorem expired_pinholes_removed:
  assumes "pin_ok s"
  shows "\<exists>n m s'. upnp_clean_expired_pinholes now s = (n, m, s') \<and> pin_ok s'
    \<and> holes s' = (\<lambda>u. case holes s u of None \<Rightarrow> None | Some p \<Rightarrow> if ph_timestamp p \<le> now then None else Some p)
    \<and> n = length (filter (\<lambda>p. ph_timestamp p \<le> now) (pinhole_list s))
    \<and> (\<forall>t. m = Some t \<longrightarrow> (\<exists>u p. holes s' u = Some p \<and> ph_timestamp p = t)
          \<and> (\<forall>u p. holes s' u = Some p \<longrightarrow> t \<le> ph_timestamp p))
    \<and> (m = None \<longrightarrow> (\<forall>u p. holes s' u = Some p \<longrightarrow> ph_timestamp p = 0xFFFFFFFF))"
proof -
  obtain m s' where run: "clean_loop now (pinhole_list s) 0 0xFFFFFFFF s
      = (0 + length (filter (\<lambda>p. ph_timestamp p \<le> now) (pinhole_list s)), m, s')" and ok: "pin_ok s'"
    and list: "pinhole_list s' = filter (\<lambda>p. \<not> (p \<in> set (pinhole_list s) \<and> ph_timestamp p \<le> now)) (pinhole_list s)"
    and min: "\<forall>p\<in>set (pinhole_list s). now < ph_timestamp p \<longrightarrow> m \<le> ph_timestamp p"
      "m = 0xFFFFFFFF \<or> (\<exists>p\<in>set (pinhole_list s). now < ph_timestamp p \<and> ph_timestamp p = m)"
    using clean_loop_ok [OF assms subset_refl pin_okD(4) [OF assms], where now = now and n = 0 and min_ts = "0xFFFFFFFF"] by blast
  have list': "pinhole_list s' = filter (\<lambda>p. \<not> ph_timestamp p \<le> now) (pinhole_list s)"
    unfolding list by (intro filter_cong) auto
  have live: "holes s' u = Some p \<longrightarrow> p \<in> set (pinhole_list s) \<and> now < ph_timestamp p" for u p
    using pin_okD(4) [OF ok] by (auto simp: holes_def get_pinhole_iff list')
  have live': "\<exists>u. holes s' u = Some p" if "p \<in> set (pinhole_list s)" "now < ph_timestamp p" for p
    using list_holes [OF ok, of p] that by (auto simp: list')
  have "holes s' = (\<lambda>u. case holes s u of None \<Rightarrow> None | Some p \<Rightarrow> if ph_timestamp p \<le> now then None else Some p)"
    using holes_filter [OF assms list'] by (auto simp: fun_eq_iff split: option.splits)
  moreover have "ph_timestamp p = 0xFFFFFFFF" if "m = 0xFFFFFFFF" "holes s' u = Some p" for u p
  proof -
    have "m \<le> ph_timestamp p" using min(1) live that(2) by blast
    then have "4294967295 \<le> unat (ph_timestamp p)" using that(1) by (simp add: word_le_nat_alt)
    moreover have "unat (ph_timestamp p) < 2 ^ 32" using unsigned_less [of "ph_timestamp p"] by simp
    ultimately have "unat (ph_timestamp p) = unat (0xFFFFFFFF :: u32)" by simp
    then show ?thesis by (simp only: word_unat_eq_iff)
  qed
  moreover have "(\<exists>u p. holes s' u = Some p \<and> ph_timestamp p = m)" if "m \<noteq> 0xFFFFFFFF"
    using min(2) live' that by blast
  moreover have "m \<le> ph_timestamp p" if "holes s' u = Some p" for u p using min(1) live that by blast
  ultimately show ?thesis
    by (auto simp: upnp_clean_expired_pinholes_def clean_pinhole_list_def run ok)
qed

theorem expired_pinholes_removed_witness:
  "\<exists>n m s'. upnp_clean_expired_pinholes 100 pin_start = (n, m, s') \<and> pin_ok s' \<and> n = 0"
  using expired_pinholes_removed [OF pin_start_ok(1), of 100] by (auto simp: pin_start_def)

lemma delete_hole_ok:
  assumes "pin_ok s"
  shows "\<exists>s'. upnp_delete_inboundpinhole u s = (if holes s u = None then - 2 else 0, s') \<and> pin_ok s'
    \<and> holes s' = (holes s)(u := None)"
proof (cases "holes s u")
  case None
  then have "holes s = (holes s)(u := None)" by auto
  then show ?thesis using None assms by (simp add: upnp_delete_inboundpinhole_def delete_pinhole_def holes_def)
next
  case (Some p)
  have u: "ph_uid p = u" using holes_uid [OF Some] .
  then have "p \<in> set (pinhole_list s)" using Some list_holes [OF assms, of p] by simp
  then obtain s' where s': "delete_pinhole u s = (0, s')" "pin_ok s'"
    "pinhole_list s' = filter (\<lambda>q. ph_uid q \<noteq> u) (pinhole_list s)" using delete_pinhole_ok [OF assms] u by blast
  have "holes s' w = ((holes s)(u := None)) w" for w
    using holes_filter [OF assms s'(3), of w] holes_uid [of s w] by (auto split: option.splits)
  then show ?thesis using s'(1,2) Some by (auto simp: upnp_delete_inboundpinhole_def fun_eq_iff)
qed

text \<open>Deleting a pinhole removes it and its rule and leaves all others; an identifier that is not in use
  gives -2 and changes nothing.\<close>

theorem pinhole_deleted:
  assumes "pin_ok s"
  shows "\<exists>s'. upnp_delete_inboundpinhole u s = (if holes s u = None then - 2 else 0, s') \<and> pin_ok s'
    \<and> holes s' = (holes s)(u := None)"
  using assms by (rule delete_hole_ok)

theorem pinhole_deleted_witness:
  "\<exists>s'. upnp_delete_inboundpinhole 7 pin_start = (- 2, s') \<and> pin_ok s'"
  using pinhole_deleted [OF pin_start_ok(1), of 7] by (auto simp: pin_start_ok)

text \<open>When all 65535 identifiers are in use, a request for one more pinhole never returns: the rule is
  in the chain, and the search for an identifier goes round for ever. With one identifier left it ends.\<close>

theorem pinhole_identifiers_exhausted:
  assumes "pin_ok s" and "remote_host raddr a" and "inet_pton6 iaddr = Some d" and "0 \<le> proto" and "proto < 256"
    and "\<forall>u p. holes s u = Some p \<longrightarrow> pin_key p \<noteq> (word_of_int proto, rport, a, iport, d)"
  shows "upnp_add_inboundpinhole ifname6 now raddr rport iaddr iport proto desc leasetime s = None
    \<longleftrightarrow> (\<forall>u. u \<noteq> 0 \<longrightarrow> holes s u \<noteq> None)"
proof
  assume none: "upnp_add_inboundpinhole ifname6 now raddr rport iaddr iport proto desc leasetime s = None"
  have full: "\<not> length (pinhole_list s) < 65535"
  proof
    assume "length (pinhole_list s) < 65535"
    from upnp_add_new [OF assms(1-5) this assms(6), of ifname6 now desc leasetime]
    show False using none by auto
  qed
  have d: "distinct (map ph_uid (pinhole_list s))" using pin_okD(4) [OF assms(1)] .
  have "card (ph_uid ` set (pinhole_list s)) = length (pinhole_list s)" using distinct_card [OF d] by simp
  moreover have "ph_uid ` set (pinhole_list s) \<subseteq> UNIV - {0}" using pin_okD(5) [OF assms(1)] by auto
  moreover have "card (UNIV - {0 :: port}) = 65535" by (simp add: card_word)
  moreover have "card (ph_uid ` set (pinhole_list s)) \<le> card (UNIV - {0 :: port})"
    by (rule card_mono) (use pin_okD(5) [OF assms(1)] in auto)
  ultimately have "ph_uid ` set (pinhole_list s) = UNIV - {0}"
    using full by (intro card_subset_eq) auto
  then show "\<forall>u. u \<noteq> 0 \<longrightarrow> holes s u \<noteq> None" by (auto simp: holes_def get_pinhole_None)
next
  assume all: "\<forall>u. u \<noteq> 0 \<longrightarrow> holes s u \<noteq> None"
  let ?k = "(word_of_int proto, rport, a, iport, d)"
  have "find (\<lambda>q. pin_key q = ?k) (pinhole_list s) = None"
    using assms(6) list_holes [OF assms(1)] by (auto simp: find_None_iff)
  then have find: "upnp_find_inboundpinhole raddr rport iaddr iport proto s = Inr (- 2)"
    by (simp add: upnp_find_inboundpinhole_def find_key [OF assms(1-5)])
  obtain es where es: "v6_chain s = Some es" using pin_chain [OF assms(1)] by blast
  have "free_uid (\<lambda>u. get_pinhole u (p # pinhole_list s) \<noteq> None) (next_uid s) = None" if "ph_uid p = 0" for p
  proof (rule free_uid_none)
    fix u :: int
    assume "1 \<le> u" "u \<le> 65535"
    then have "(word_of_int u :: port) \<noteq> 0" by (simp add: word_of_int_eq_0_iff zdvd_not_zless)
    then show "get_pinhole (word_of_int u) (p # pinhole_list s) \<noteq> None"
      using all by (simp add: holes_def get_pinhole_None)
  qed (use pin_okD [OF assms(1)] in auto)
  then have "add_pinhole ifname6 raddr rport iaddr iport proto desc (now + leasetime) s = None"
    by (simp add: add_pinhole_def ip6tc_init_verify_append_def pin_okD(1) [OF assms(1)] es add_to_pinhole_list_def Let_def)
  then show "upnp_add_inboundpinhole ifname6 now raddr rport iaddr iport proto desc leasetime s = None"
    by (simp add: upnp_add_inboundpinhole_def assms(3) find Let_def)
qed

theorem pinhole_identifiers_exhausted_witness:
  "upnp_add_inboundpinhole None 100 None 0 (inet_ntop6 1) 5000 6 ''IGD2 pinhole'' 60 pin_start \<noteq> None"
proof -
  have "upnp_add_inboundpinhole None 100 None 0 (inet_ntop6 1) 5000 6 ''IGD2 pinhole'' 60 pin_start = None
      \<longleftrightarrow> (\<forall>u. u \<noteq> 0 \<longrightarrow> holes pin_start u \<noteq> None)"
    by (rule pinhole_identifiers_exhausted [where a = 0 and d = 1]) (simp_all add: pin_start_ok sample_host)
  then show ?thesis using pin_start_ok(2) [of 1] by (metis zero_neq_one)
qed

text \<open>A remote host that is no address, such as the wildcard \<open>*\<close> or a name that is not found, is entered
  as the address 0 with a mask of all ones: the rule is for packets from \<open>::\<close> only, not for all senders.\<close>

theorem wildcard_host_rule:
  assumes "pin_ok s" and "pinhole_list s = []" and "inet_pton6 iaddr = Some d" and "some_host (Some h)" and "inet_pton6 h = None"
  shows "\<exists>(u :: port) s' e. upnp_add_inboundpinhole ifname6 now (Some h) rport iaddr iport proto desc leasetime s = Some (Inr (1, uint u), s')
    \<and> v6_chain s' = Some [e] \<and> r6_src e = 0 \<and> r6_smsk e = all_ones"
proof -
  have es: "v6_chain s = Some []" using pin_chain [OF assms(1)] assms(2) by (metis list.map(1) mset_zero_iff_right Nil_is_map_conv)
  have find: "upnp_find_inboundpinhole (Some h) rport iaddr iport proto s = Inr (- 2)"
    using assms(2,4,5) by (simp add: upnp_find_inboundpinhole_def find_pinhole_def)
  have free: "free_uid (\<lambda>u. get_pinhole u [p] \<noteq> None) (next_uid s) = Some (next_uid s)" if "ph_uid p = 0" for p
  proof -
    have "(word_of_int (next_uid s) :: port) \<noteq> 0"
      using pin_okD(2,3) [OF assms(1)] by (simp add: word_of_int_eq_0_iff zdvd_not_zless)
    then show ?thesis using that by (subst free_uid.simps) (simp add: get_pinhole_def)
  qed
  let ?e = "new_rule ifname6 (Some h) rport iaddr iport proto"
  have "\<exists>s'. add_pinhole ifname6 (Some h) rport iaddr iport proto desc (now + leasetime) s
      = Some (uint (word_of_int (next_uid s) :: port), s') \<and> v6_chain s' = Some [?e]"
    using free by (simp add: add_pinhole_def ip6tc_init_verify_append_def pin_okD(1) [OF assms(1)] es add_to_pinhole_list_def Let_def assms(2))
  then obtain s' where s': "add_pinhole ifname6 (Some h) rport iaddr iport proto desc (now + leasetime) s
      = Some (uint (word_of_int (next_uid s) :: port), s')" "v6_chain s' = Some [?e]" by blast
  have "r6_src ?e = 0" "r6_smsk ?e = all_ones" using assms(4,5) by (simp_all add: new_rule_def pton6_or_def)
  then show ?thesis using s'
    by (intro exI [of _ "word_of_int (next_uid s) :: port"] exI [of _ s'] exI [of _ ?e])
      (simp add: upnp_add_inboundpinhole_def assms(3) find Let_def)
qed

theorem wildcard_host_rule_witness:
  "\<exists>(u :: port) s' e. upnp_add_inboundpinhole None 100 (Some ''*'') 0 (inet_ntop6 1) 5000 6 ''IGD2 pinhole'' 60 pin_start
      = Some (Inr (1, uint u), s') \<and> v6_chain s' = Some [e] \<and> r6_src e = 0 \<and> r6_smsk e = all_ones"
  by (rule wildcard_host_rule [OF pin_start_ok(1) _ inet_pton6_ntop6])
    (simp_all add: pin_start_def some_host_def inet_pton6_def hex_digit_value_def)

end
