(* ===== verification/Minixml.thy ===== *)
theory Minixml
  imports Upnp_Prelude
begin

text \<open>
  The XML scanner of \<^verbatim>\<open>minixml.c\<close>. The buffer is the list of its characters and the current
  pointer a position in it; \<^verbatim>\<open>xmlend\<close> is its length. A read at or behind the end is the fault
  \<open>Overread\<close>, so that the lemmas show which inputs stay inside the buffer. The callbacks are a
  record of functions on the caller's data; a NULL callback is the identity.
\<close>

section \<open>Scanning\<close>

definition is_white :: "char \<Rightarrow> bool" where
  "is_white c \<longleftrightarrow> c = CHR '' '' \<or> c = CHR 0x09 \<or> c = CHR 0x0D \<or> c = CHR 0x0A"

datatype xml_fault = Overread

text \<open>Where a loop stops: at a position, at the end of the buffer (the code returns), or at a read
  behind the end.\<close>

datatype 'a stop = At 'a | End | Past

text \<open>\<^verbatim>\<open>while(P(*p->xml)) { p->xml++; if(p->xml >= p->xmlend) return; }\<close>\<close>

function scan :: "(char \<Rightarrow> bool) \<Rightarrow> string \<Rightarrow> nat \<Rightarrow> nat stop" where
  "scan P buf pos =
     (if pos \<ge> length buf then Past
      else if P (buf ! pos) then (if pos + 1 \<ge> length buf then End else scan P buf (pos + 1))
      else At pos)"
  by pat_completeness auto
termination by (relation "measure (\<lambda>(P, buf, pos). length buf - pos)") auto

declare scan.simps [simp del]

text \<open>The characters from a position, as the code hands them to a callback.\<close>

definition piece :: "string \<Rightarrow> nat \<Rightarrow> nat \<Rightarrow> string" where
  "piece buf start stop = take (stop - start) (drop start buf)"

text \<open>Whether a text stands at a position: \<^verbatim>\<open>memcmp\<close>, where the code knows it is inside the buffer.\<close>

definition at_text :: "string \<Rightarrow> nat \<Rightarrow> string \<Rightarrow> bool" where
  "at_text buf pos t \<longleftrightarrow> take (length t) (drop pos buf) = t"

text \<open>The element name: where it starts, behind the last namespace separator, and where it stops.\<close>

function scan_name :: "string \<Rightarrow> nat \<Rightarrow> nat \<Rightarrow> (nat \<times> nat) stop" where
  "scan_name buf start pos =
     (if pos \<ge> length buf then Past
      else if is_white (buf ! pos) \<or> buf ! pos = CHR ''>'' \<or> buf ! pos = CHR ''/'' then At (start, pos)
      else if pos + 1 \<ge> length buf then End
      else if buf ! (pos + 1) = CHR '':'' then scan_name buf (pos + 2) (pos + 2)
      else scan_name buf start (pos + 1))"
  by pat_completeness auto
termination by (relation "measure (\<lambda>(buf, start, pos). length buf - pos)") auto

declare scan_name.simps [simp del]

section \<open>Attributes\<close>

record 'd xml_handlers =
  starteltfunc :: "string \<Rightarrow> 'd \<Rightarrow> 'd"
  endeltfunc :: "string \<Rightarrow> 'd \<Rightarrow> 'd"
  datafunc :: "string \<Rightarrow> 'd \<Rightarrow> 'd"
  attfunc :: "string \<Rightarrow> string \<Rightarrow> 'd \<Rightarrow> 'd"

text \<open>The value of an attribute whose text starts at a position: where it starts and stops.\<close>

definition scan_value :: "string \<Rightarrow> nat \<Rightarrow> (nat \<times> nat) stop" where
  "scan_value buf pos =
     (if pos \<ge> length buf then Past
      else (let sep = buf ! pos in
        if sep = CHR 0x27 \<or> sep = CHR 0x22
        then (if pos + 1 \<ge> length buf then End
              else (case scan (\<lambda>c. c \<noteq> sep) buf (pos + 1) of
                      At v \<Rightarrow> At (pos + 1, v) | End \<Rightarrow> End | Past \<Rightarrow> Past))
        else (case scan (\<lambda>c. \<not> is_white c \<and> c \<noteq> CHR ''>'' \<and> c \<noteq> CHR ''/'') buf pos of
                At v \<Rightarrow> At (pos, v) | End \<Rightarrow> End | Past \<Rightarrow> Past)))"

text \<open>One attribute: the end of its name, and its value.\<close>

definition scan_att :: "string \<Rightarrow> nat \<Rightarrow> (nat \<times> nat \<times> nat) stop" where
  "scan_att buf pos =
     (case scan (\<lambda>c. c \<noteq> CHR ''='' \<and> \<not> is_white c) buf pos of Past \<Rightarrow> Past | End \<Rightarrow> End
      | At n \<Rightarrow>
        (case scan (\<lambda>c. c \<noteq> CHR ''='') buf n of Past \<Rightarrow> Past | End \<Rightarrow> End
         | At eq \<Rightarrow>
           (case scan is_white buf (eq + 1) of Past \<Rightarrow> Past | End \<Rightarrow> End
            | At s \<Rightarrow>
              (case scan_value buf s of Past \<Rightarrow> Past | End \<Rightarrow> End
               | At (v1, v2) \<Rightarrow> At (n, v1, v2)))))"

lemma scan_At: "scan P buf pos = At q \<Longrightarrow> pos \<le> q \<and> q < length buf \<and> \<not> P (buf ! q)"
proof (induction P buf pos rule: scan.induct)
  case (1 P buf pos)
  then show ?case by (subst (asm) (2) scan.simps) (auto split: if_splits)
qed

lemma scan_value_At: "scan_value buf pos = At (v1, v2) \<Longrightarrow> pos \<le> v2 \<and> v2 < length buf"
  by (auto simp: scan_value_def Let_def split: if_splits stop.splits dest: scan_At)

lemma scan_att_At: "scan_att buf pos = At (n, v1, v2) \<Longrightarrow> pos \<le> v2 \<and> v2 < length buf"
  by (fastforce simp: scan_att_def split: stop.splits prod.splits dest!: scan_At scan_value_At)

text \<open>The result is the position of the \<^verbatim>\<open>/\<close> or \<^verbatim>\<open>>\<close> behind the attributes.\<close>

function parseatt :: "'d xml_handlers \<Rightarrow> string \<Rightarrow> nat \<Rightarrow> 'd \<Rightarrow> nat stop \<times> 'd" where
  "parseatt h buf pos d =
     (if pos \<ge> length buf then (End, d)
      else if buf ! pos = CHR ''/'' \<or> buf ! pos = CHR ''>'' then (At pos, d)
      else if is_white (buf ! pos) then parseatt h buf (pos + 1) d
      else (case scan_att buf pos of
              Past \<Rightarrow> (Past, d) | End \<Rightarrow> (End, d)
            | At (n, v1, v2) \<Rightarrow>
                parseatt h buf (v2 + 1) (attfunc h (piece buf pos n) (piece buf v1 v2) d)))"
  by pat_completeness auto
termination
  by (relation "measure (\<lambda>(h, buf, pos, d). length buf - pos)") (auto dest!: scan_att_At)

declare parseatt.simps [simp del]

lemma parseatt_At: "parseatt h buf pos d = (At q, d') \<Longrightarrow> pos \<le> q \<and> q < length buf"
proof (induction h buf pos d rule: parseatt.induct)
  case (1 h buf pos d)
  show ?case
    using 1(3) 1(1,2) by (subst (asm) parseatt.simps)
      (fastforce split: if_splits stop.splits prod.splits dest: scan_att_At)
qed

section \<open>Elements\<close>

function comment_end :: "string \<Rightarrow> nat \<Rightarrow> nat stop" where
  "comment_end buf pos =
     (if pos + 1 + 3 \<ge> length buf then End
      else if at_text buf (pos + 1) ''-->'' then At (pos + 1) else comment_end buf (pos + 1))"
  by pat_completeness auto
termination by (relation "measure (\<lambda>(buf, pos). length buf - pos)") auto

function cdata_end :: "string \<Rightarrow> nat \<Rightarrow> nat stop" where
  "cdata_end buf pos =
     (if at_text buf pos '']]>'' then At pos
      else if pos + 1 + 3 \<ge> length buf then End else cdata_end buf (pos + 1))"
  by pat_completeness auto
termination by (relation "measure (\<lambda>(buf, pos). length buf - pos)") auto

text \<open>The loop over the text of an element, which stops one character earlier.\<close>

function scan_text :: "string \<Rightarrow> nat \<Rightarrow> nat stop" where
  "scan_text buf pos =
     (if pos \<ge> length buf then Past
      else if buf ! pos \<noteq> CHR ''<'' then (if pos + 1 + 1 \<ge> length buf then End else scan_text buf (pos + 1))
      else At pos)"
  by pat_completeness auto
termination by (relation "measure (\<lambda>(buf, pos). length buf - pos)") auto

declare comment_end.simps [simp del] cdata_end.simps [simp del] scan_text.simps [simp del]

text \<open>What follows the start tag: a CDATA section, or text up to the next tag.\<close>

definition element_data :: "'d xml_handlers \<Rightarrow> string \<Rightarrow> nat \<Rightarrow> 'd \<Rightarrow> nat stop \<times> 'd" where
  "element_data h buf pos d =
     (if pos \<ge> length buf then (End, d)
      else (case scan is_white buf pos of Past \<Rightarrow> (Past, d) | End \<Rightarrow> (End, d)
        | At w \<Rightarrow>
          (if w + (9 + 3) \<le> length buf \<and> at_text buf w ''<![CDATA[''
           then (case cdata_end buf (w + 9) of Past \<Rightarrow> (Past, d) | End \<Rightarrow> (End, d)
             | At e \<Rightarrow>
               (let d1 = (if w + 9 < e then datafunc h (piece buf (w + 9) e) d else d)
                in (scan (\<lambda>c. c \<noteq> CHR ''<'') buf e, d1)))
           else (case scan_text buf w of Past \<Rightarrow> (Past, d) | End \<Rightarrow> (End, d)
             | At r \<Rightarrow>
               (if pos < r
                then (if r + 1 \<ge> length buf then (Past, d)
                      else (At r, if buf ! (r + 1) = CHR ''/'' then datafunc h (piece buf pos r) d else d))
                else (At r, d))))))"

lemma comment_end_At: "comment_end buf pos = At q \<Longrightarrow> pos < q"
proof (induction buf pos rule: comment_end.induct)
  case (1 buf pos)
  then show ?case by (subst (asm) (2) comment_end.simps) (fastforce split: if_splits)
qed

lemma cdata_end_At: "cdata_end buf pos = At q \<Longrightarrow> pos \<le> q"
proof (induction buf pos rule: cdata_end.induct)
  case (1 buf pos)
  then show ?case by (subst (asm) (2) cdata_end.simps) (fastforce split: if_splits)
qed

lemma cdata_end_inside: "cdata_end buf pos = At q \<Longrightarrow> q < length buf"
proof (induction buf pos rule: cdata_end.induct)
  case (1 buf pos)
  have "q < length buf" if "at_text buf q '']]>''"
  proof (rule ccontr)
    assume "\<not> q < length buf"
    then show False using that by (simp add: at_text_def)
  qed
  then show ?case using 1 by (subst (asm) (2) cdata_end.simps) (fastforce split: if_splits)
qed

lemma scan_text_At: "scan_text buf pos = At q \<Longrightarrow> pos \<le> q \<and> q < length buf \<and> buf ! q = CHR ''<''"
proof (induction buf pos rule: scan_text.induct)
  case (1 buf pos)
  then show ?case by (subst (asm) (2) scan_text.simps) (fastforce split: if_splits)
qed

lemma scan_name_At:
  "scan_name buf start pos = At (s, q) \<Longrightarrow> pos \<le> q \<and> q < length buf
     \<and> (is_white (buf ! q) \<or> buf ! q = CHR ''>'' \<or> buf ! q = CHR ''/'')"
proof (induction buf start pos rule: scan_name.induct)
  case (1 buf start pos)
  then show ?case by (subst (asm) (3) scan_name.simps) (fastforce split: if_splits)
qed

lemma element_data_At: "element_data h buf pos d = (At q, d') \<Longrightarrow> pos \<le> q"
  by (fastforce simp: element_data_def Let_def split: if_splits stop.splits
      dest: scan_At cdata_end_At scan_text_At)

text \<open>An element whose name is not empty: its attributes, then what follows the tag.\<close>

definition start_tag :: "'d xml_handlers \<Rightarrow> string \<Rightarrow> nat \<Rightarrow> nat \<Rightarrow> 'd \<Rightarrow> nat stop \<times> 'd" where
  "start_tag h buf s q d =
     (case parseatt h buf q (starteltfunc h (piece buf s q) d) of
        (At a, d2) \<Rightarrow> (if buf ! a = CHR ''/'' then (At a, d2) else element_data h buf (a + 1) d2)
      | (End, d2) \<Rightarrow> (End, d2)
      | (Past, d2) \<Rightarrow> (Past, d2))"

definition end_tag :: "'d xml_handlers \<Rightarrow> string \<Rightarrow> nat \<Rightarrow> 'd \<Rightarrow> nat stop \<times> 'd" where
  "end_tag h buf q d =
     (if q + 1 \<ge> length buf then (End, d)
      else (case scan (\<lambda>c. c \<noteq> CHR ''>'') buf (q + 1) of Past \<Rightarrow> (Past, d) | End \<Rightarrow> (End, d)
        | At e \<Rightarrow> (At (e + 1), endeltfunc h (piece buf (q + 1) e) d)))"

text \<open>One round of the loop in \<^verbatim>\<open>parseelt\<close>, at least two characters before the end.\<close>

definition markup :: "'d xml_handlers \<Rightarrow> string \<Rightarrow> nat \<Rightarrow> 'd \<Rightarrow> nat stop \<times> 'd" where
  "markup h buf pos d =
     (if at_text buf pos ''<!--''
      then (case comment_end buf (pos + 3) of
              At q \<Rightarrow> (At (q + 3), d) | End \<Rightarrow> (End, d) | Past \<Rightarrow> (Past, d))
      else if buf ! pos = CHR ''<'' \<and> buf ! (pos + 1) \<noteq> CHR ''?''
      then (case scan_name buf (pos + 1) (pos + 1) of Past \<Rightarrow> (Past, d) | End \<Rightarrow> (End, d)
        | At (s, q) \<Rightarrow>
          (if s < q then start_tag h buf s q d
           else if buf ! q = CHR ''/'' then end_tag h buf q d
           else (At q, d)))
      else (At (pos + 1), d))"

lemma start_tag_At: "start_tag h buf s q d = (At r, d') \<Longrightarrow> q \<le> r"
  by (fastforce simp: start_tag_def split: prod.splits stop.splits if_splits
      dest: parseatt_At element_data_At)

lemma end_tag_At: "end_tag h buf q d = (At r, d') \<Longrightarrow> q < r"
  by (auto simp: end_tag_def split: stop.splits if_splits dest: scan_At)

lemma markup_At: "markup h buf pos d = (At r, d') \<Longrightarrow> pos < r"
  by (fastforce simp: markup_def split: stop.splits if_splits prod.splits
      dest: comment_end_At scan_name_At start_tag_At end_tag_At)

function parseelt :: "'d xml_handlers \<Rightarrow> string \<Rightarrow> nat \<Rightarrow> 'd \<Rightarrow> xml_fault + 'd" where
  "parseelt h buf pos d =
     (if pos + 1 \<ge> length buf then Inr d
      else (case markup h buf pos d of
              (At q, d2) \<Rightarrow> parseelt h buf q d2 | (End, d2) \<Rightarrow> Inr d2 | (Past, d2) \<Rightarrow> Inl Overread))"
  by pat_completeness auto
termination
proof (relation "measure (\<lambda>(h, buf, pos, d). length buf - pos)", goal_cases)
  case (2 h buf pos d s e q)
  then show ?case using markup_At [of h buf pos d q e] by auto
qed simp

declare parseelt.simps [simp del]

definition parsexml :: "'d xml_handlers \<Rightarrow> string \<Rightarrow> 'd \<Rightarrow> xml_fault + 'd" where
  "parsexml h buf d = parseelt h buf 0 d"

section \<open>Reads stay inside the buffer\<close>

lemma scan_Past: "pos < length buf \<Longrightarrow> scan P buf pos \<noteq> Past"
proof (induction P buf pos rule: scan.induct)
  case (1 P buf pos)
  then show ?case by (subst scan.simps) auto
qed

lemma scan_PastD: "scan P buf pos = Past \<Longrightarrow> length buf \<le> pos"
  using scan_Past by (metis not_le)

lemma scan_text_Past: "pos < length buf \<Longrightarrow> scan_text buf pos \<noteq> Past"
proof (induction buf pos rule: scan_text.induct)
  case (1 buf pos)
  then show ?case by (subst scan_text.simps) auto
qed

lemma comment_end_Past: "comment_end buf pos \<noteq> Past"
proof (induction buf pos rule: comment_end.induct)
  case (1 buf pos)
  then show ?case by (subst comment_end.simps) auto
qed

lemma cdata_end_Past: "cdata_end buf pos \<noteq> Past"
proof (induction buf pos rule: cdata_end.induct)
  case (1 buf pos)
  then show ?case by (subst cdata_end.simps) auto
qed

text \<open>A buffer whose last character is none of the three that make the code look one further.\<close>

definition closed_buffer :: "string \<Rightarrow> bool" where
  "closed_buffer buf \<longleftrightarrow> buf \<noteq> [] \<and> last buf \<notin> {CHR '':'', CHR ''='', CHR ''<''}"

lemma last_char:
  assumes "closed_buffer buf" "buf ! q \<in> {CHR '':'', CHR ''='', CHR ''<''}" "q < length buf"
  shows "q + 1 < length buf"
proof (rule ccontr)
  assume "\<not> q + 1 < length buf"
  then have "q = length buf - 1" using assms(3) by simp
  then show False using assms by (auto simp: closed_buffer_def last_conv_nth)
qed

lemma scan_name_Past: "closed_buffer buf \<Longrightarrow> pos < length buf \<Longrightarrow> scan_name buf start pos \<noteq> Past"
proof (induction buf start pos rule: scan_name.induct)
  case (1 buf start pos)
  then show ?case using last_char [of buf "pos + 1"] by (subst scan_name.simps) auto
qed

lemma scan_value_Past: "pos < length buf \<Longrightarrow> scan_value buf pos \<noteq> Past"
  using scan_Past by (auto simp: scan_value_def Let_def split: stop.splits)

lemma scan_att_Past: "closed_buffer buf \<Longrightarrow> pos < length buf \<Longrightarrow> scan_att buf pos \<noteq> Past"
proof -
  assume b: "closed_buffer buf" "pos < length buf"
  have "q + 1 < length buf" if "scan (\<lambda>c. c \<noteq> CHR ''='') buf n = At q" for n q
    using last_char [OF b(1), of q] scan_At [OF that] by auto
  then show ?thesis
    using b(2) by (auto simp: scan_att_def scan_Past scan_value_Past split: stop.splits dest: scan_At)
qed

lemma parseatt_Past: "closed_buffer buf \<Longrightarrow> fst (parseatt h buf pos d) \<noteq> Past"
proof (induction h buf pos d rule: parseatt.induct)
  case (1 h buf pos d)
  have "scan_att buf pos \<noteq> Past" if "\<not> pos \<ge> length buf"
    using scan_att_Past [OF 1(3)] that by simp
  then show ?case
    using 1(1,2) [OF _ _ _] 1(3) by (subst parseatt.simps) (auto split: stop.splits prod.splits)
qed

lemma scan_text_slash:
  "closed_buffer buf \<Longrightarrow> scan_text buf pos = At r \<Longrightarrow> r + 1 < length buf"
  by (drule scan_text_At) (auto intro: last_char [unfolded One_nat_def, simplified])

lemma element_data_Past:
  assumes "closed_buffer buf"
  shows "fst (element_data h buf pos d) \<noteq> Past"
proof (cases "scan is_white buf pos")
  case (At w)
  have w: "w < length buf" using scan_At [OF At] by simp
  have "scan (\<lambda>c. c \<noteq> CHR ''<'') buf e \<noteq> Past" if "cdata_end buf (w + 9) = At e" for e
    using scan_Past cdata_end_inside [OF that] by simp
  then show ?thesis
    using At scan_text_slash [OF assms, of w] w
    by (auto simp: element_data_def Let_def cdata_end_Past scan_text_Past split: stop.splits)
next
  case Past
  then have "\<not> pos < length buf" using scan_Past by blast
  then show ?thesis by (simp add: element_data_def)
qed (simp add: element_data_def)

lemma start_tag_Past: "closed_buffer buf \<Longrightarrow> fst (start_tag h buf s q d) \<noteq> Past"
  using parseatt_Past [of buf h q] element_data_Past [of buf h]
  by (auto simp: start_tag_def split: prod.splits stop.splits) (metis fst_conv)

lemma end_tag_Past: "fst (end_tag h buf q d) \<noteq> Past"
  by (auto simp: end_tag_def split: stop.splits dest!: scan_PastD)

lemma markup_Past:
  assumes "closed_buffer buf" "pos + 1 < length buf"
  shows "fst (markup h buf pos d) \<noteq> Past"
  using scan_name_Past [OF assms]
  by (auto simp: markup_def comment_end_Past end_tag_Past start_tag_Past [OF assms(1)] split: stop.splits)

theorem parsexml_stays_inside:
  assumes "closed_buffer buf"
  shows "\<exists>d'. parsexml h buf d = Inr d'"
proof -
  have "\<exists>d'. parseelt h buf pos d = Inr d'" for pos
    using assms
  proof (induction h buf pos d rule: parseelt.induct)
    case (1 h buf pos d)
    then show ?case
      using markup_Past [OF 1(2), of pos h d]
      by (cases "pos + 1 < length buf") (auto simp: parseelt.simps [of h buf pos d] split: prod.splits stop.splits)
  qed
  then show ?thesis by (simp add: parsexml_def)
qed

text \<open>The three buffers on which the code reads one character behind the end.\<close>

theorem parsexml_overreads:
  "parsexml h ''<a:'' d = Inl Overread" "parsexml h ''<a b='' d = Inl Overread"
  by (simp_all add: parsexml_def parseelt.simps markup_def start_tag_def scan_name.simps at_text_def
      is_white_def parseatt.simps scan_att_def scan.simps nth_Cons' piece_def)

section \<open>What the callbacks see\<close>

lemma drop_ConsD:
  assumes "drop pos buf = c # r"
  shows "pos < length buf" "buf ! pos = c" "drop (Suc pos) buf = r"
proof -
  show l: "pos < length buf" using assms by (metis drop_all list.distinct(1) not_le)
  show "buf ! pos = c" "drop (Suc pos) buf = r"
    using assms Cons_nth_drop_Suc [OF l] by auto
qed

lemma scan_run:
  "drop pos buf = xs @ c # r \<Longrightarrow> (\<forall>x\<in>set xs. P x) \<Longrightarrow> \<not> P c \<Longrightarrow>
     scan P buf pos = At (pos + length xs)"
proof (induction xs arbitrary: pos)
  case Nil
  then show ?case using drop_ConsD [of pos buf] by (subst scan.simps) auto
next
  case (Cons x xs)
  have *: "drop (Suc pos) buf = xs @ c # r" "pos < length buf" "buf ! pos = x"
    using drop_ConsD [of pos buf x "xs @ c # r"] Cons.prems by auto
  have "Suc pos < length buf"
  proof (rule ccontr)
    assume "\<not> Suc pos < length buf"
    then show False using *(1) by simp
  qed
  then show ?case using Cons * by (subst scan.simps) auto
qed

definition name_char :: "char \<Rightarrow> bool" where
  "name_char c \<longleftrightarrow> \<not> is_white c \<and> c \<notin> {CHR ''>'', CHR ''/'', CHR '':'', CHR ''<'', CHR ''='', CHR ''?'', CHR ''!''}"

definition name_end :: "char \<Rightarrow> bool" where
  "name_end c \<longleftrightarrow> is_white c \<or> c = CHR ''>'' \<or> c = CHR ''/''"

lemma drop_runD: "drop pos buf = xs @ ys \<Longrightarrow> drop (pos + length xs) buf = ys"
  by (metis add.commute append_eq_conv_conj drop_drop)

lemma drop_append_ConsD: "drop pos buf = xs @ c # r \<Longrightarrow> drop (pos + length xs) buf = c # r"
  by (rule drop_runD)

lemma scan_name_run:
  "drop pos buf = n @ c # r \<Longrightarrow> (\<forall>x\<in>set n. name_char x) \<Longrightarrow> name_end c \<Longrightarrow>
     scan_name buf start pos = At (start, pos + length n)"
proof (induction n arbitrary: pos)
  case Nil
  then show ?case using drop_ConsD [of pos buf] by (subst scan_name.simps) (auto simp: name_end_def)
next
  case (Cons x n)
  have *: "drop (Suc pos) buf = n @ c # r" "pos < length buf" "buf ! pos = x"
    using drop_ConsD [of pos buf x "n @ c # r"] Cons.prems by auto
  obtain y z where y: "n @ c # r = y # z" "y \<noteq> CHR '':''"
    using Cons.prems(2,3) by (cases n) (auto simp: name_char_def name_end_def is_white_def)
  then have "Suc pos < length buf" "buf ! Suc pos \<noteq> CHR '':''"
    using drop_ConsD [of "Suc pos" buf y z] * by auto
  then show ?case
    using Cons * by (subst scan_name.simps) (auto simp: name_char_def)
qed

lemma scan_name_prefix:
  "drop pos buf = p @ CHR '':'' # n @ c # r \<Longrightarrow> p \<noteq> [] \<Longrightarrow> (\<forall>x\<in>set p. name_char x) \<Longrightarrow>
     (\<forall>x\<in>set n. name_char x) \<Longrightarrow> name_end c \<Longrightarrow>
     scan_name buf start pos = At (pos + length p + 1, pos + length p + 1 + length n)"
proof (induction p arbitrary: pos)
  case (Cons x p)
  let ?r = "p @ CHR '':'' # n @ c # r"
  have *: "drop (Suc pos) buf = ?r" "pos < length buf" "buf ! pos = x"
    using drop_ConsD [of pos buf x ?r] Cons.prems by auto
  have x: "name_char x" using Cons.prems by simp
  show ?case
  proof (cases p)
    case Nil
    then have "Suc pos < length buf" "buf ! Suc pos = CHR '':''" "drop (Suc (Suc pos)) buf = n @ c # r"
      using drop_ConsD [of "Suc pos" buf "CHR '':''" "n @ c # r"] * by auto
    then show ?thesis
      using scan_name_run [of "Suc (Suc pos)" buf n c r "Suc (Suc pos)"] * x Cons.prems Nil
      by (subst scan_name.simps) (auto simp: name_char_def)
  next
    case (Cons y ys)
    then have "Suc pos < length buf" "buf ! Suc pos \<noteq> CHR '':''"
      using drop_ConsD [of "Suc pos" buf y] * Cons.prems by (auto simp: name_char_def)
    then show ?thesis
      using Cons.IH [of "Suc pos"] Cons.prems * x Cons
      by (subst scan_name.simps) (auto simp: name_char_def)
  qed
qed simp

lemma piece_run: "drop pos buf = xs @ r \<Longrightarrow> piece buf pos (pos + length xs) = xs"
  by (simp add: piece_def)

definition att_text :: "string \<times> string \<Rightarrow> string" where
  "att_text a = '' '' @ fst a @ ''='' @ [CHR 0x22] @ snd a @ [CHR 0x22]"

definition att_char :: "char \<Rightarrow> bool" where
  "att_char c \<longleftrightarrow> \<not> is_white c \<and> c \<notin> {CHR ''>'', CHR ''/'', CHR ''=''}"

definition good_att :: "string \<times> string \<Rightarrow> bool" where
  "good_att a \<longleftrightarrow> fst a \<noteq> [] \<and> (\<forall>x\<in>set (fst a). att_char x) \<and> CHR 0x22 \<notin> set (snd a)"

lemma scan_att_run:
  assumes "drop pos buf = n @ ''='' @ [CHR 0x22] @ v @ [CHR 0x22] @ r"
    and "\<forall>x\<in>set n. att_char x" "CHR 0x22 \<notin> set v"
  shows "scan_att buf pos = At (pos + length n, pos + length n + 2, pos + length n + 2 + length v)"
proof -
  let ?q = "pos + length n"
  have e: "drop ?q buf = CHR ''='' # CHR 0x22 # v @ [CHR 0x22] @ r"
    using drop_append_ConsD [of pos buf n "CHR ''=''"] assms(1) by simp
  then have e1: "drop (?q + 1) buf = CHR 0x22 # v @ [CHR 0x22] @ r"
    using drop_ConsD(3) by fastforce
  then have e2: "drop (?q + 2) buf = v @ [CHR 0x22] @ r"
    using drop_ConsD(3) by fastforce
  then have "?q + 2 < length buf" by (metis append_Cons append_is_Nil_conv drop_all list.distinct(1) not_le)
  have 1: "scan (\<lambda>c. c \<noteq> CHR ''='' \<and> \<not> is_white c) buf pos = At ?q"
    by (rule scan_run [of pos buf n "CHR ''=''"]) (use assms in \<open>auto simp: att_char_def\<close>)
  have 2: "scan (\<lambda>c. c \<noteq> CHR ''='') buf ?q = At ?q"
    using scan_run [of ?q buf "[]" "CHR ''=''" _ "\<lambda>c. c \<noteq> CHR ''=''"] e by simp
  have 3: "scan is_white buf (?q + 1) = At (?q + 1)"
    using scan_run [of "?q + 1" buf "[]" "CHR 0x22" _ is_white] e1 by (simp add: is_white_def)
  have 4: "scan (\<lambda>c. c \<noteq> CHR 0x22) buf (?q + 2) = At (?q + 2 + length v)"
    by (rule scan_run [of "?q + 2" buf v "CHR 0x22" r]) (use e2 assms(3) in auto)
  have 5: "scan_value buf (?q + 1) = At (?q + 2, ?q + 2 + length v)"
    using 4 drop_ConsD(1,2) [OF e1] \<open>?q + 2 < length buf\<close> by (simp add: scan_value_def)
  show ?thesis unfolding scan_att_def by (simp only: 1 2 3 5 stop.case prod.case)
qed

lemma parseatt_run:
  assumes "drop pos buf = concat (map att_text as) @ c # r" "c = CHR ''/'' \<or> c = CHR ''>''"
    and "\<forall>a\<in>set as. good_att a"
  shows "parseatt h buf pos d
    = (At (pos + length (concat (map att_text as))), fold (\<lambda>a. attfunc h (fst a) (snd a)) as d)"
  using assms
proof (induction as arbitrary: pos d)
  case Nil
  then show ?case using drop_ConsD [of pos buf c r] by (subst parseatt.simps) auto
next
  case (Cons a as)
  obtain n v where a: "a = (n, v)" by force
  let ?r = "concat (map att_text as) @ c # r" and ?p = "pos + 1"
  have 0: "drop pos buf = CHR '' '' # n @ ''='' @ [CHR 0x22] @ v @ [CHR 0x22] @ ?r"
    using Cons.prems(1) a by (simp add: att_text_def [of "(n, v)"])
  have 1: "drop ?p buf = n @ ''='' @ [CHR 0x22] @ v @ [CHR 0x22] @ ?r"
    using drop_ConsD(3) [OF 0] by simp
  have n: "n \<noteq> []" "\<forall>x\<in>set n. att_char x" "CHR 0x22 \<notin> set v"
    using Cons.prems(3) a by (auto simp: good_att_def)
  obtain y ys where y: "n = y # ys" using n by (cases n) auto
  have 2: "?p < length buf" "buf ! ?p = y" using drop_ConsD [OF 1 [unfolded y append_Cons]] by auto
  have yc: "att_char y" using n y by simp
  have 3: "drop (?p + length n + 2 + length v + 1) buf = ?r"
    using drop_runD [of ?p buf "n @ ''='' @ [CHR 0x22] @ v @ [CHR 0x22]" ?r] 1
    by (simp add: add_ac)
  have v: "drop (?p + length n + 2) buf = v @ [CHR 0x22] @ ?r"
    using drop_runD [of ?p buf "n @ ''='' @ [CHR 0x22]" "v @ [CHR 0x22] @ ?r"] 1
    by (simp add: add_ac)
  have "parseatt h buf ?p d
      = parseatt h buf (?p + length n + 2 + length v + 1) (attfunc h n v d)"
    using 2 yc scan_att_run [OF 1 n(2,3)] piece_run [OF 1] piece_run [OF v]
    by (subst parseatt.simps) (auto simp: att_char_def)
  then have "parseatt h buf pos d
      = parseatt h buf (?p + length n + 2 + length v + 1) (attfunc h n v d)"
    using drop_ConsD [OF 0] by (subst parseatt.simps) (simp add: is_white_def)
  then show ?case
    using Cons.IH [OF 3 Cons.prems(2)] Cons.prems(3) a by (simp add: att_text_def [of "(n, v)"] add_ac)
qed

text \<open>A document as its tags, each with the text that follows it. A start tag has a namespace prefix
  (empty for none), a name and attributes; an end tag has what stands between \<^verbatim>\<open></\<close> and \<^verbatim>\<open>>\<close>.\<close>

datatype xml_item =
    Open string string "(string \<times> string) list" string
  | Close string string

fun item_tag :: "xml_item \<Rightarrow> string" where
  "item_tag (Open p n as t)
     = ''<'' @ (if p = [] then [] else p @ '':'') @ n @ concat (map att_text as) @ ''>''"
| "item_tag (Close m t) = ''</'' @ m @ ''>''"

fun item_tail :: "xml_item \<Rightarrow> string" where
  "item_tail (Open p n as t) = t"
| "item_tail (Close m t) = t"

fun item_ok :: "xml_item \<Rightarrow> bool" where
  "item_ok (Open p n as t) \<longleftrightarrow> n \<noteq> [] \<and> (\<forall>x\<in>set (p @ n). name_char x) \<and> (\<forall>a\<in>set as. good_att a)
     \<and> CHR ''<'' \<notin> set t"
| "item_ok (Close m t) \<longleftrightarrow> CHR ''>'' \<notin> set m \<and> CHR ''<'' \<notin> set t"

definition document :: "xml_item list \<Rightarrow> string" where
  "document items = concat (map (\<lambda>i. item_tag i @ item_tail i) items)"

fun reports :: "xml_item list \<Rightarrow> bool" where
  "reports (Close m t # r) = True"
| "reports _ = False"

text \<open>The calls the tags stand for: the text behind a start tag is reported when an end tag follows.\<close>

fun play :: "'d xml_handlers \<Rightarrow> xml_item list \<Rightarrow> 'd \<Rightarrow> 'd" where
  "play h [] d = d"
| "play h (Open p n as t # items) d =
     (let d1 = fold (\<lambda>a. attfunc h (fst a) (snd a)) as (starteltfunc h n d)
      in play h items (if t \<noteq> [] \<and> reports items then datafunc h t d1 else d1))"
| "play h (Close m t # items) d = play h items (endeltfunc h m d)"

lemma at_text_run: "drop pos buf = xs @ r \<Longrightarrow> at_text buf pos t \<longleftrightarrow> take (length t) (xs @ r) = t"
  by (simp add: at_text_def)

lemma scan_text_run:
  "drop pos buf = xs @ CHR ''<'' # c # r \<Longrightarrow> CHR ''<'' \<notin> set xs \<Longrightarrow>
     scan_text buf pos = At (pos + length xs)"
proof (induction xs arbitrary: pos)
  case Nil
  then show ?case using drop_ConsD [of pos buf] by (subst scan_text.simps) auto
next
  case (Cons x xs)
  have *: "drop (Suc pos) buf = xs @ CHR ''<'' # c # r" "pos < length buf" "buf ! pos = x"
    using drop_ConsD [of pos buf x "xs @ CHR ''<'' # c # r"] Cons.prems by auto
  have "length (drop (Suc pos) buf) = length xs + 2 + length r" using *(1) by simp
  then have "Suc (Suc pos) < length buf" by simp
  then show ?case using Cons.IH [OF *(1)] Cons.prems(2) *(2,3) by (subst scan_text.simps) auto
qed

lemma element_data_run:
  assumes "drop pos buf = t @ CHR ''<'' # c # r" "CHR ''<'' \<notin> set t" "c \<noteq> CHR ''!''"
  shows "element_data h buf pos d
    = (At (pos + length t), if t \<noteq> [] \<and> c = CHR ''/'' then datafunc h t d else d)"
proof -
  let ?w = "takeWhile is_white t" and ?u = "dropWhile is_white t"
  have 0: "drop pos buf = ?w @ ?u @ CHR ''<'' # c # r" using assms(1) by simp
  have hd_u: "\<not> is_white y \<and> y \<in> set t" if "?u = y # ys" for y ys
    using that dropWhile_eq_Cons_conv [of is_white t y ys] set_dropWhileD [of y is_white t] by auto
  obtain y ys where y: "?u @ CHR ''<'' # c # r = y # ys" "\<not> is_white y"
    using hd_u by (cases ?u) (auto simp: is_white_def)
  have 1: "scan is_white buf pos = At (pos + length ?w)"
    by (rule scan_run [of pos buf ?w y ys]) (use 0 y in \<open>auto dest: set_takeWhileD\<close>)
  have 2: "drop (pos + length ?w) buf = ?u @ CHR ''<'' # c # r"
    using drop_runD [OF 0] .
  have 3: "\<not> at_text buf (pos + length ?w) ''<![CDATA[''"
  proof (cases ?u)
    case Nil
    show ?thesis using at_text_run [of _ _ "[]", simplified, OF 2 [unfolded Nil append_Nil]] assms(3) by simp
  next
    case (Cons y ys)
    then show ?thesis using hd_u [OF Cons] assms(2) at_text_run [of _ _ "[]", simplified, OF 2 [unfolded Cons append_Cons]] by auto
  qed
  have 4: "scan_text buf (pos + length ?w) = At (pos + length t)"
  proof -
    have "length ?w + length ?u = length t" by (metis length_append takeWhile_dropWhile_id)
    moreover have "CHR ''<'' \<notin> set ?u" using assms(2) set_dropWhileD [of "CHR ''<''" is_white t] by blast
    ultimately show ?thesis using scan_text_run [OF 2] by (simp add: add.assoc)
  qed
  have 5: "drop (pos + length t) buf = CHR ''<'' # c # r"
    using drop_append_ConsD [OF assms(1)] .
  have 6: "pos < length buf" using assms(1) by (metis append_is_Nil_conv drop_all list.distinct(1) not_le)
  have 7: "pos + length t + 1 < length buf" "buf ! (pos + length t + 1) = c"
    using drop_ConsD(1,2) [of "Suc (pos + length t)" buf c r] drop_ConsD(3) [OF 5] by auto
  show ?thesis
    using 1 3 4 6 7 piece_run [OF assms(1)] by (auto simp: element_data_def)
qed

lemma next_tag:
  assumes "\<forall>i\<in>set items. item_ok i" "items \<noteq> []"
  shows "\<exists>c r. document items = CHR ''<'' # c # r \<and> c \<noteq> CHR ''!'' \<and> c \<noteq> CHR ''?'' \<and> (c = CHR ''/'' \<longleftrightarrow> reports items)"
proof (cases items)
  case (Cons i rest)
  show ?thesis
  proof (cases i)
    case (Open p n as t)
    then have ok: "n \<noteq> []" "\<forall>x\<in>set (p @ n). name_char x" using assms Cons by auto
    obtain y ys where y: "(if p = [] then [] else p @ '':'') @ n = y # ys" "name_char y"
      using ok by (cases p; cases n) auto
    let ?z = "concat (map att_text as) @ ''>'' @ t @ concat (map (\<lambda>i. item_tag i @ item_tail i) rest)"
    have "document items = CHR ''<'' # ((if p = [] then [] else p @ '':'') @ n) @ ?z"
      using Cons Open by (simp add: document_def)
    then show ?thesis using y Cons Open by (auto simp: name_char_def)
  qed (use Cons in \<open>auto simp: document_def\<close>)
qed (use assms in simp)

lemma document_Cons: "document (i # items) = item_tag i @ item_tail i @ document items"
  by (simp add: document_def)

lemma markup_Open:
  assumes pos: "drop pos buf = document (Open p n as t # items)"
    and ok: "item_ok (Open p n as t)" "\<forall>i\<in>set items. item_ok i" "items \<noteq> []"
  shows "markup h buf pos d
    = (At (pos + length (item_tag (Open p n as t)) + length t),
       let d1 = fold (\<lambda>a. attfunc h (fst a) (snd a)) as (starteltfunc h n d)
       in if t \<noteq> [] \<and> reports items then datafunc h t d1 else d1)"
proof -
  define px where "px = (if p = [] then [] else p @ '':'')"
  define at where "at = concat (map att_text as)"
  define d1 where "d1 = fold (\<lambda>a. attfunc h (fst a) (snd a)) as (starteltfunc h n d)"
  obtain c r where c: "document items = CHR ''<'' # c # r" "c \<noteq> CHR ''!''" "c = CHR ''/'' \<longleftrightarrow> reports items"
    using next_tag [OF ok(2,3)] by blast
  have names: "n \<noteq> []" "\<forall>x\<in>set p. name_char x" "\<forall>x\<in>set n. name_char x" "\<forall>a\<in>set as. good_att a"
    "CHR ''<'' \<notin> set t" using ok(1) by auto
  let ?t = "t @ CHR ''<'' # c # r"
  have 0: "drop pos buf = CHR ''<'' # px @ n @ at @ CHR ''>'' # ?t"
    using pos c(1) by (simp add: document_Cons px_def at_def)
  have 1: "drop (pos + 1) buf = px @ n @ at @ CHR ''>'' # ?t"
    using drop_ConsD(3) [OF 0] by simp
  obtain e es where e: "at @ CHR ''>'' # ?t = e # es" "name_end e"
    by (cases as) (auto simp: at_def att_text_def name_end_def is_white_def)
  have sc: "scan_name buf (pos + 1) (pos + 1) = At (pos + 1 + length px, pos + 1 + length px + length n)"
  proof (cases "p = []")
    case True
    then show ?thesis using scan_name_run [of "pos + 1" buf n e es] 1 e names by (simp add: px_def)
  next
    case False
    then show ?thesis using scan_name_prefix [of "pos + 1" buf p n e es] 1 e names by (simp add: px_def)
  qed
  have 2: "drop (pos + 1 + length px) buf = n @ at @ CHR ''>'' # ?t" using drop_runD [OF 1] .
  have 3: "drop (pos + 1 + length px + length n) buf = at @ CHR ''>'' # ?t" using drop_runD [OF 2] .
  have 4: "drop (pos + 1 + length px + length n + length at) buf = CHR ''>'' # ?t" using drop_runD [OF 3] .
  have 5: "drop (pos + 1 + length px + length n + length at + 1) buf = ?t"
    using drop_ConsD(3) [OF 4] by simp
  have pa: "parseatt h buf (pos + 1 + length px + length n) (starteltfunc h n d)
      = (At (pos + 1 + length px + length n + length at), d1)"
    using parseatt_run [OF 3 [unfolded at_def] _ names(4)] by (simp add: d1_def at_def)
  have st: "start_tag h buf (pos + 1 + length px) (pos + 1 + length px + length n) d
      = (At (pos + 1 + length px + length n + length at + 1 + length t),
         if t \<noteq> [] \<and> c = CHR ''/'' then datafunc h t d1 else d1)"
    by (simp add: start_tag_def pa piece_run [OF 2] drop_ConsD(2) [OF 4] element_data_run [OF 5 names(5) c(2)]
        del: add_Suc_right add_Suc One_nat_def)
  obtain y ys where y: "px @ n = y # ys" "name_char y"
    using names by (cases p; cases n) (auto simp: px_def)
  have 6: "drop (pos + 1) buf = y # ys @ at @ CHR ''>'' # ?t"
    using 1 y(1) by (metis append_Cons append_assoc)
  then have 7: "drop pos buf = CHR ''<'' # y # ys @ at @ CHR ''>'' # ?t"
    using 0 1 by simp
  have b: "buf ! pos = CHR ''<''" "buf ! (pos + 1) = y" "\<not> at_text buf pos ''<!--''"
    using drop_ConsD(2) [OF 0] drop_ConsD(2) [OF 6] y(2)
    by (auto simp: name_char_def at_text_def 7)
  show ?thesis
    using sc st b y names(1) c(3) by (simp add: markup_def name_char_def px_def at_def d1_def)
qed

lemma markup_Close:
  assumes "drop pos buf = document (Close m t # items)" "item_ok (Close m t)"
  shows "markup h buf pos d = (At (pos + length (item_tag (Close m t))), endeltfunc h m d)"
proof -
  have 0: "drop pos buf = CHR ''<'' # CHR ''/'' # m @ CHR ''>'' # t @ document items"
    using assms(1) by (simp add: document_Cons)
  have 1: "drop (pos + 1) buf = CHR ''/'' # m @ CHR ''>'' # t @ document items"
    using drop_ConsD(3) [OF 0] by simp
  have 2: "drop (pos + 1 + 1) buf = m @ CHR ''>'' # t @ document items"
    using drop_ConsD(3) [OF 1] by simp
  have "scan (\<lambda>c. c \<noteq> CHR ''>'') buf (pos + 1 + 1) = At (pos + 1 + 1 + length m)"
    by (rule scan_run [OF 2]) (use assms(2) in auto)
  moreover have "pos + 1 + 1 < length buf" using 2 by (metis append_is_Nil_conv drop_all list.distinct(1) not_le)
  ultimately have e: "end_tag h buf (pos + 1) d = (At (pos + 3 + length m), endeltfunc h m d)"
    using piece_run [OF 2] by (simp add: end_tag_def numeral_3_eq_3)
  have "scan_name buf (pos + 1) (pos + 1) = At (pos + 1, pos + 1)"
    using scan_name_run [of "pos + 1" buf "[]" "CHR ''/''"] 1 by (simp add: name_end_def)
  then show ?thesis
    using e drop_ConsD(2) [OF 0] drop_ConsD(2) [OF 1] by (simp add: markup_def at_text_def 0)
qed

lemma parseelt_text:
  "drop pos buf = t @ document items \<Longrightarrow> CHR ''<'' \<notin> set t \<Longrightarrow>
     parseelt h buf pos d = parseelt h buf (pos + length t) d"
proof (induction t arbitrary: pos)
  case (Cons x t)
  have *: "drop (Suc pos) buf = t @ document items" "pos < length buf" "buf ! pos = x"
    using drop_ConsD [of pos buf x "t @ document items"] Cons.prems by auto
  have "parseelt h buf pos d = parseelt h buf (Suc pos) d"
  proof (cases "pos + 1 < length buf")
    case True
    have "\<not> at_text buf pos ''<!--''" using Cons.prems by (auto simp: at_text_def)
    then have "markup h buf pos d = (At (Suc pos), d)"
      using *(3) Cons.prems(2) by (auto simp: markup_def)
    then show ?thesis using True by (subst parseelt.simps) simp
  next
    case False
    then show ?thesis by (simp add: parseelt.simps)
  qed
  then show ?case using Cons.IH [OF *(1)] Cons.prems(2) by simp
qed simp

lemma parseelt_document:
  assumes "drop pos buf = document items" "\<forall>i\<in>set items. item_ok i" "items = [] \<or> reports [last items]"
  shows "parseelt h buf pos d = Inr (play h items d)"
  using assms
proof (induction items arbitrary: pos d)
  case Nil
  then show ?case by (subst parseelt.simps) (simp add: document_def)
next
  case (Cons i items)
  let ?q = "pos + length (item_tag i)"
  have ok: "item_ok i" "\<forall>j\<in>set items. item_ok j" using Cons.prems(2) by auto
  have split: "drop pos buf = item_tag i @ item_tail i @ document items"
    using Cons.prems(1) by (simp add: document_Cons)
  have q: "drop ?q buf = item_tail i @ document items" using drop_runD [OF split] .
  have r: "drop (?q + length (item_tail i)) buf = document items" using drop_runD [OF q] .
  have "2 \<le> length (drop pos buf)" unfolding split by (cases i) auto
  then have inside: "pos + 1 < length buf" by simp
  have last: "items = [] \<or> reports [last items]" using Cons.prems(3) by (cases items) auto
  note IH = Cons.IH [OF r ok(2) last]
  show ?case
  proof (cases i)
    case (Open p n as t)
    then have "items \<noteq> []" using Cons.prems(3) by auto
    then show ?thesis
      using markup_Open [of pos buf p n as t items h d] Cons.prems(1) ok inside IH Open
      by (subst parseelt.simps) (auto simp: Let_def)
  next
    case (Close m t)
    then have "CHR ''<'' \<notin> set t" using ok by simp
    then show ?thesis
      using markup_Close [of pos buf m t items h d] parseelt_text [of ?q buf t items h "endeltfunc h m d"]
        Cons.prems(1) ok inside IH Close q
      by (subst parseelt.simps) (auto simp: Let_def)
  qed
qed

text \<open>What may stand in front of the first tag: text, or an XML declaration and text.\<close>

definition prologue :: "string \<Rightarrow> bool" where
  "prologue t \<longleftrightarrow> CHR ''<'' \<notin> set (if take 2 t = ''<?'' then tl t else t)"

lemma parseelt_prologue:
  assumes "drop pos buf = t @ document items" "prologue t"
  shows "parseelt h buf pos d = parseelt h buf (pos + length t) d"
proof (cases "take 2 t = ''<?''")
  case True
  obtain u where t: "t = CHR ''<'' # CHR ''?'' # u"
    using True by (cases t; cases "tl t") (auto simp: numeral_2_eq_2)
  have b: "buf ! pos = CHR ''<''" "drop (Suc pos) buf = (CHR ''?'' # u) @ document items"
    using drop_ConsD [of pos buf "CHR ''<''" "CHR ''?'' # u @ document items"] assms(1) t by auto
  have c: "Suc pos < length buf" "buf ! Suc pos = CHR ''?''"
    using drop_ConsD [of "Suc pos" buf "CHR ''?''" "u @ document items"] b(2) by auto
  have "\<not> at_text buf pos ''<!--''" using assms(1) t by (auto simp: at_text_def)
  then have "parseelt h buf pos d = parseelt h buf (Suc pos) d"
    using b(1) c by (subst parseelt.simps) (simp add: markup_def)
  then show ?thesis
    using parseelt_text [OF b(2), of h d] assms(2) t True by (simp add: prologue_def)
next
  case False
  then show ?thesis using parseelt_text [OF assms(1)] assms(2) by (simp add: prologue_def)
qed

text \<open>Scanning the text of a well-formed document, with text or an XML declaration in front of the first tag,
  makes exactly the calls its tags stand for, in their order.\<close>

theorem parsexml_plays_document:
  assumes "\<forall>i\<in>set items. item_ok i" "reports [last items]" "prologue t"
  shows "parsexml h (t @ document items) d = Inr (play h items d)"
proof -
  have "parseelt h (t @ document items) (0 + length t) d = Inr (play h items d)"
    by (rule parseelt_document) (use assms in auto)
  then show ?thesis using parseelt_prologue [of 0 "t @ document items" t items h d] assms(3)
    by (simp add: parsexml_def)
qed

end
