(* ===== verification/Keyed_Store.thy ===== *)
theory Keyed_Store
  imports Upnp_Prelude
begin

text \<open>
  The contract of a store written by key, in which the newest entry of a key hides the older ones:
  the lists of \<^verbatim>\<open>upnpreplyparse.c\<close> (values by element name) and of \<^verbatim>\<open>netfilter/iptcrdr.c\<close>
  (descriptions by port and protocol) are such stores.
\<close>

locale keyed_store =
  fixes put :: "'k \<Rightarrow> 'w \<Rightarrow> 's \<Rightarrow> 's"
    and lookup :: "'k \<Rightarrow> 's \<Rightarrow> 'v"
    and shown :: "'w \<Rightarrow> 'v"
  assumes lookup_put: "lookup k (put k' w s) = (if k = k' then shown w else lookup k s)"
begin

text \<open>After any sequence of writes, a lookup shows the last value written under its key.\<close>

lemma lookup_puts:
  "lookup k (fold (\<lambda>(k', w). put k' w) kws s)
    = (case map_of (rev kws) k of Some w \<Rightarrow> shown w | None \<Rightarrow> lookup k s)"
  by (induction kws arbitrary: s)
    (auto simp: lookup_put map_add_def split: option.splits)

lemma lookup_puts_last:
  "k \<notin> fst ` set kws \<Longrightarrow>
     lookup k (fold (\<lambda>(k', w). put k' w) ((k, w) # kws) s) = shown w"
  using map_of_eq_None_iff [of "rev kws" k] by (simp only: lookup_puts) (simp add: map_add_def)

end

end
