(* ===== verification/Reply_Parse.thy ===== *)
theory Reply_Parse
  imports Minixml Keyed_Store
begin

text \<open>
  The arguments of a SOAP request (\<^verbatim>\<open>upnpreplyparse.c\<close>): the XML scanner of \<open>Minixml\<close> calls back
  into a list of element names and values. A \<^verbatim>\<open>char\<close> array is the C string it holds, \<open>cdata\<close> the
  characters it points to with their number. Allocation succeeds.
\<close>

section \<open>The list and its callbacks\<close>

record name_value =
  nv_name :: string
  nv_value :: string

record reply_data =
  l_head :: "name_value list"
  curelt :: string
  portListing :: "string option"
  topelt :: bool
  cdata :: "string option"

definition NameValueParserStartElt :: "string \<Rightarrow> reply_data \<Rightarrow> reply_data" where
  "NameValueParserStartElt name d =
     d\<lparr>topelt := True, curelt := cstring (take 63 name), cdata := None\<rparr>"

definition NameValueParserEndElt :: "string \<Rightarrow> reply_data \<Rightarrow> reply_data" where
  "NameValueParserEndElt name d =
     (if \<not> topelt d then d
      else (let d1 = (if curelt d \<noteq> ''NewPortListing''
                      then d\<lparr>l_head := \<lparr>nv_name = curelt d,
                                nv_value = (case cdata d of None \<Rightarrow> [] | Some s \<Rightarrow> cstring (take 127 s))\<rparr> # l_head d\<rparr>
                      else d)
            in d1\<lparr>cdata := None, topelt := False\<rparr>))"

definition NameValueParserGetData :: "string \<Rightarrow> reply_data \<Rightarrow> reply_data" where
  "NameValueParserGetData datas d =
     (if curelt d = ''NewPortListing'' then d\<lparr>portListing := Some datas\<rparr> else d\<lparr>cdata := Some datas\<rparr>)"

definition reply_handlers :: "reply_data xml_handlers" where
  "reply_handlers =
     \<lparr>starteltfunc = NameValueParserStartElt, endeltfunc = NameValueParserEndElt,
      datafunc = NameValueParserGetData, attfunc = (\<lambda>_ _ d. d)\<rparr>"

definition empty_reply :: reply_data where
  "empty_reply = \<lparr>l_head = [], curelt = [], portListing = None, topelt = False, cdata = None\<rparr>"

definition ParseNameValue :: "string \<Rightarrow> xml_fault + reply_data" where
  "ParseNameValue buffer = parsexml reply_handlers buffer empty_reply"

definition ClearNameValueList :: "reply_data \<Rightarrow> reply_data" where
  "ClearNameValueList d = d\<lparr>l_head := [], portListing := None\<rparr>"

definition GetValueFromNameValueList :: "reply_data \<Rightarrow> string \<Rightarrow> string option" where
  "GetValueFromNameValueList d name = map_option nv_value (find (\<lambda>nv. nv_name nv = name) (l_head d))"

section \<open>The list as a store\<close>

definition put_value :: "string \<Rightarrow> string \<Rightarrow> reply_data \<Rightarrow> reply_data" where
  "put_value name v d = d\<lparr>l_head := \<lparr>nv_name = name, nv_value = v\<rparr> # l_head d\<rparr>"

interpretation values_of: keyed_store put_value "\<lambda>k d. GetValueFromNameValueList d k" Some
  by unfold_locales (auto simp: put_value_def GetValueFromNameValueList_def)

section \<open>From the text of a request to its arguments\<close>

text \<open>The elements of a document without elements inside them, each with its text.\<close>

fun leaves :: "xml_item list \<Rightarrow> (string \<times> string) list" where
  "leaves [] = []"
| "leaves (Close m u # items) = leaves items"
| "leaves (Open p n as t # items) = (if reports items then [(n, t)] else []) @ leaves items"

definition kept_name :: "string \<Rightarrow> string" where
  "kept_name n = cstring (take 63 n)"

definition kept_value :: "string \<Rightarrow> string" where
  "kept_value v = cstring (take 127 v)"

definition arguments :: "xml_item list \<Rightarrow> (string \<times> string) list" where
  "arguments items = filter (\<lambda>a. fst a \<noteq> ''NewPortListing'')
     (map (\<lambda>a. (kept_name (fst a), kept_value (snd a))) (leaves items))"

lemma fold_attributes: "fold (\<lambda>a d. d) as d = d"
  by (induction as) auto

definition entry :: "string \<times> string \<Rightarrow> name_value" where
  "entry a = \<lparr>nv_name = fst a, nv_value = snd a\<rparr>"

lemma handlers [simp]:
  "starteltfunc reply_handlers = NameValueParserStartElt" "endeltfunc reply_handlers = NameValueParserEndElt"
  "datafunc reply_handlers = NameValueParserGetData" "attfunc reply_handlers = (\<lambda>_ _ d. d)"
  by (simp_all add: reply_handlers_def)

text \<open>What the next end tag adds to the list.\<close>

definition pending :: "reply_data \<Rightarrow> name_value list" where
  "pending d = (if topelt d \<and> curelt d \<noteq> ''NewPortListing''
     then [entry (curelt d, case cdata d of None \<Rightarrow> [] | Some s \<Rightarrow> kept_value s)] else [])"

lemma end_adds_pending: "l_head (NameValueParserEndElt m d) = pending d @ l_head d"
  by (simp add: NameValueParserEndElt_def pending_def entry_def kept_value_def Let_def split: option.splits)

lemma pending_after [simp]:
  "pending (NameValueParserEndElt m d) = []"
  "pending (NameValueParserStartElt n d)
     = (if kept_name n = ''NewPortListing'' then [] else [entry (kept_name n, kept_value [])])"
  "pending (NameValueParserGetData t (NameValueParserStartElt n d))
     = (if kept_name n = ''NewPortListing'' then [] else [entry (kept_name n, kept_value t)])"
  by (simp_all add: pending_def NameValueParserStartElt_def NameValueParserEndElt_def
      NameValueParserGetData_def kept_name_def kept_value_def cstring_def)

lemma l_head_after [simp]:
  "l_head (NameValueParserStartElt n d) = l_head d" "l_head (NameValueParserGetData t d) = l_head d"
  by (simp_all add: NameValueParserStartElt_def NameValueParserGetData_def)

lemma play_arguments:
  "l_head (play reply_handlers items d)
    = rev (map entry (arguments items)) @ (if reports items then pending d else []) @ l_head d"
proof (induction items arbitrary: d)
  case (Cons i items)
  then show ?case
    by (cases i; cases "item_tail i = []")
      (auto simp: arguments_def Let_def fold_attributes end_adds_pending)
qed (simp add: arguments_def)

lemma l_head_puts: "l_head (fold (\<lambda>(k, v). put_value k v) as d) = rev (map entry as) @ l_head d"
  by (induction as arbitrary: d) (auto simp: put_value_def entry_def)

lemma value_of_head: "l_head d = l_head d' \<Longrightarrow> GetValueFromNameValueList d k = GetValueFromNameValueList d' k"
  by (simp add: GetValueFromNameValueList_def)

lemma no_values: "GetValueFromNameValueList empty_reply k = None"
  by (simp add: empty_reply_def GetValueFromNameValueList_def)

lemma parse_arguments:
  assumes "\<forall>i\<in>set items. item_ok i" "reports [last items]" "prologue t"
  shows "\<exists>d. ParseNameValue (t @ document items) = Inr d
    \<and> (\<forall>k. GetValueFromNameValueList d k = map_of (rev (arguments items)) k)"
proof (intro exI conjI allI)
  let ?d = "play reply_handlers items empty_reply"
  show "ParseNameValue (t @ document items) = Inr ?d"
    unfolding ParseNameValue_def by (rule parsexml_plays_document [OF assms])
  fix k
  have "l_head ?d = l_head (fold (\<lambda>(k, v). put_value k v) (arguments items) empty_reply)"
    by (simp add: play_arguments l_head_puts empty_reply_def pending_def)
  then show "GetValueFromNameValueList ?d k = map_of (rev (arguments items)) k"
    using values_of.lookup_puts [where k = k and kws = "arguments items" and s = empty_reply] value_of_head [of ?d _ k]
    by (simp add: no_values split: option.splits)
qed

text \<open>C28: Parsing the text of a well-formed request keeps every element without children by its name
  (cut to 63 characters) with its text (cut to 127); of several with one name the last is found, and
  a name that does not occur is not found.\<close>

theorem request_arguments:
  assumes "\<forall>i\<in>set items. item_ok i" "reports [last items]" "prologue t"
  shows "\<exists>d. ParseNameValue (t @ document items) = Inr d
    \<and> (\<forall>k. GetValueFromNameValueList d k = map_of (rev (arguments items)) k)"
  by (rule parse_arguments [OF assms])

theorem request_arguments_witness:
  "\<exists>d. ParseNameValue (''<?xml version=1.0?>'' @ document [Open ''s'' ''Body'' [(''v'', ''1'')] '' '', Open [] ''NewProtocol'' [] ''TCP'',
       Close ''NewProtocol'' [], Close ''s:Body'' []]) = Inr d
    \<and> (\<forall>k. GetValueFromNameValueList d k = map_of (rev (arguments
      [Open ''s'' ''Body'' [(''v'', ''1'')] '' '', Open [] ''NewProtocol'' [] ''TCP'',
       Close ''NewProtocol'' [], Close ''s:Body'' []])) k)"
  by (rule request_arguments) (simp_all add: name_char_def att_char_def good_att_def is_white_def prologue_def)

end
