(* ===== verification/Upnp_Soap.thy ===== *)
theory Upnp_Soap
  imports Upnp_Redirect Reply_Parse Inet6
begin

text \<open>
  The SOAP actions of \<^verbatim>\<open>upnpsoap.c\<close> for port mappings and connection status (the build without the
  SDN controller and without tokens): the arguments of a request are parsed with \<open>Reply_Parse\<close>, the
  mappings changed with \<open>Upnp_Redirect\<close>, and the reply is the text of the SOAP envelope or the
  number and text of a UPnP error.
\<close>

section \<open>Requests and replies\<close>

text \<open>The macros and flags that select code: \<^verbatim>\<open>IGD_V2\<close>, \<^verbatim>\<open>UPNP_STRICT\<close>, \<^verbatim>\<open>SUPPORT_REMOTEHOST\<close>,
  \<^verbatim>\<open>SECUREMODEMASK\<close>; and the system: \<open>so_resolve\<close> is the first IPv4 address \<^verbatim>\<open>gethostbyname\<close> finds,
  \<open>so_random\<close> what \<^verbatim>\<open>random()\<close> returns, \<open>so_ifaddr\<close> and \<open>so_ifstats\<close> what \<^verbatim>\<open>getifaddr\<close> and
  \<^verbatim>\<open>getifstats\<close> find for the external interface; \<^verbatim>\<open>IPV6FCFWDISABLEDMASK\<close> and
  \<^verbatim>\<open>IPV6FCINBOUNDDISALLOWEDMASK\<close>, the external interface for IPv6, the addresses \<^verbatim>\<open>getaddrinfo\<close> finds
  for a remote host, and the services that are built in. \<open>req_peercert\<close>: the client has shown a certificate.\<close>

record ifdata =
  opackets :: "64 word"
  ipackets :: "64 word"
  obytes :: "64 word"
  ibytes :: "64 word"
  baudrate :: "64 word"

record soap_conf =
  so_rdr :: rdr_conf
  so_igd_v2 :: bool
  so_strict :: bool
  so_remotehost :: bool
  so_secure :: bool
  so_resolve :: "string \<Rightarrow> ipv4 option"
  so_random :: nat
  so_use_ext_ip_addr :: "string option"
  so_ifaddr :: "ipv4 option"
  so_ifstats :: "ifdata option"
  so_startup_time :: u32
  so_uuid_wcd :: string
  so_6fc_disabled :: bool
  so_6fc_disallowed :: bool
  so_ext_if_name6 :: "string option"
  so_resolve6 :: "string \<Rightarrow> string option \<Rightarrow> in6_addr list option"
  so_l3f_service :: bool
  so_6fc_service :: bool
  so_dp_service :: bool

record soap_request =
  req_content :: string
  clientaddr :: ipv4
  clientaddr_str :: string
  clientaddr_v6 :: in6_addr
  req_peercert :: bool

record 'st soap_state =
  maps :: "'st rdr_state"
  downstream_bitrate :: "64 word"
  upstream_bitrate :: "64 word"

text \<open>What ends the run of a handler: a read behind the request, behind the array of the reply or of
  a description without terminator, or a fault of the firewall code.\<close>

datatype soap_fault = Request_overread | Body_overread | Unterminated | Firewall fw_fault

datatype soap_reply = Response string | SoapError int string

type_synonym 'st handled = "(soap_fault + soap_reply) \<times> 'st soap_state"

definition is_numeric :: "string \<Rightarrow> bool" where
  "is_numeric s \<longleftrightarrow> (\<forall>c \<in> set s. isdigit c)"

definition beforebody :: string where
  "beforebody = ''<?xml version='' @ [CHR 0x22] @ ''1.0'' @ [CHR 0x22] @ ''?>'' @ [CHR 0x0D, CHR 0x0A]
     @ ''<s:Envelope xmlns:s='' @ [CHR 0x22] @ ''http://schemas.xmlsoap.org/soap/envelope/'' @ [CHR 0x22] @ '' ''
     @ ''s:encodingStyle='' @ [CHR 0x22] @ ''http://schemas.xmlsoap.org/soap/encoding/'' @ [CHR 0x22] @ ''>''
     @ ''<s:Body>''"

definition afterbody :: string where
  "afterbody = ''</s:Body></s:Envelope>'' @ [CHR 0x0D, CHR 0x0A]"

text \<open>\<^verbatim>\<open>snprintf\<close> into an array of \<open>n\<close> bytes, whose result is the length of the whole text; then
  \<^verbatim>\<open>BuildSendAndCloseSoapResp\<close> copies that many bytes from the array.\<close>

definition print_response :: "nat \<Rightarrow> string \<Rightarrow> soap_fault + soap_reply" where
  "print_response n text =
     (if length text > n then Inl Body_overread
      else Inr (Response (beforebody @ (if length text = n then take (n - 1) text @ [CHR 0x00] else text) @ afterbody)))"

definition soap_element :: "string \<Rightarrow> string \<Rightarrow> string" where
  "soap_element name text = ''<'' @ name @ ''>'' @ text @ ''</'' @ name @ ''>''"

text \<open>\<^verbatim>\<open><u:%sResponse xmlns:u="%s"> ... </u:%sResponse>\<close>\<close>

definition soap_response :: "string \<Rightarrow> string \<Rightarrow> string \<Rightarrow> string" where
  "soap_response action ns inner =
     ''<u:'' @ action @ ''Response xmlns:u='' @ [CHR 0x22] @ ns @ [CHR 0x22] @ ''>'' @ inner
     @ ''</u:'' @ action @ ''Response>''"

text \<open>The arguments of a request.\<close>

definition with_arguments ::
  "soap_request \<Rightarrow> ((string \<Rightarrow> string option) \<Rightarrow> 's \<Rightarrow> (soap_fault + soap_reply) \<times> 's) \<Rightarrow> 's \<Rightarrow> (soap_fault + soap_reply) \<times> 's" where
  "with_arguments req f st =
     (case ParseNameValue (req_content req) of Inl _ \<Rightarrow> (Inl Request_overread, st)
      | Inr d \<Rightarrow> f (GetValueFromNameValueList d) st)"

definition soap_error :: "int \<Rightarrow> string \<Rightarrow> 's \<Rightarrow> (soap_fault + soap_reply) \<times> 's" where
  "soap_error code desc st = (Inr (SoapError code desc), st)"

abbreviation with_maps :: "'st soap_state \<Rightarrow> 'st rdr_state \<Rightarrow> 'st soap_state" where
  "with_maps st m \<equiv> st\<lparr>maps := m\<rparr>"

section \<open>Status\<close>

definition GetConnectionTypeInfo :: "string \<Rightarrow> string \<Rightarrow> 'st soap_state \<Rightarrow> 'st handled" where
  "GetConnectionTypeInfo action ns st =
     (print_response 512 (soap_response action ns
        (soap_element ''NewConnectionType'' ''IP_Routed''
         @ soap_element ''NewPossibleConnectionTypes'' ''IP_Routed'')), st)"

text \<open>A counter of the external interface, 0 when it is not known; \<^verbatim>\<open>UPNP_UI4_MAX\<close> is its mask.\<close>

definition total ::
  "soap_conf \<Rightarrow> (ifdata \<Rightarrow> 64 word) \<Rightarrow> string \<Rightarrow> string \<Rightarrow> string \<Rightarrow> 'st soap_state \<Rightarrow> 'st handled" where
  "total so counter name action ns st =
     (let n = (case so_ifstats so of None \<Rightarrow> 0
               | Some d \<Rightarrow> (if so_strict so then counter d AND 4294967295 else counter d))
      in (print_response 512 (soap_response action ns (soap_element name (dec (unat n)))), st))"

definition GetTotalBytesSent :: "soap_conf \<Rightarrow> string \<Rightarrow> string \<Rightarrow> 'st soap_state \<Rightarrow> 'st handled" where
  "GetTotalBytesSent so = total so obytes ''NewTotalBytesSent''"

definition GetTotalBytesReceived :: "soap_conf \<Rightarrow> string \<Rightarrow> string \<Rightarrow> 'st soap_state \<Rightarrow> 'st handled" where
  "GetTotalBytesReceived so = total so ibytes ''NewTotalBytesReceived''"

definition GetTotalPacketsSent :: "soap_conf \<Rightarrow> string \<Rightarrow> string \<Rightarrow> 'st soap_state \<Rightarrow> 'st handled" where
  "GetTotalPacketsSent so = total so opackets ''NewTotalPacketsSent''"

definition GetTotalPacketsReceived :: "soap_conf \<Rightarrow> string \<Rightarrow> string \<Rightarrow> 'st soap_state \<Rightarrow> 'st handled" where
  "GetTotalPacketsReceived so = total so ipackets ''NewTotalPacketsReceived''"

text \<open>A bit rate of 0 is replaced by the rate of the interface, for good.\<close>

definition learn_bitrates :: "soap_conf \<Rightarrow> 'st soap_state \<Rightarrow> 'st soap_state" where
  "learn_bitrates so st =
     (if downstream_bitrate st = 0 \<or> upstream_bitrate st = 0
      then (case so_ifstats so of None \<Rightarrow> st
        | Some d \<Rightarrow> st\<lparr>downstream_bitrate := (if downstream_bitrate st = 0 then baudrate d else downstream_bitrate st),
                      upstream_bitrate := (if upstream_bitrate st = 0 then baudrate d else upstream_bitrate st)\<rparr>)
      else st)"

definition GetCommonLinkProperties :: "soap_conf \<Rightarrow> string \<Rightarrow> string \<Rightarrow> 'st soap_state \<Rightarrow> 'st handled" where
  "GetCommonLinkProperties so action ns st =
     (let st1 = learn_bitrates so st;
          status = (if so_ifaddr so = None then ''Down'' else ''Up'')
      in (print_response 2048 (soap_response action ns
            (soap_element ''NewWANAccessType'' ''Cable''
             @ soap_element ''NewLayer1UpstreamMaxBitRate'' (dec (unat (upstream_bitrate st1)))
             @ soap_element ''NewLayer1DownstreamMaxBitRate'' (dec (unat (downstream_bitrate st1)))
             @ soap_element ''NewPhysicalLinkStatus'' status)), st1))"

text \<open>\<^verbatim>\<open>getconnstatus.c\<close>\<close>

definition get_wan_connection_status :: "soap_conf \<Rightarrow> int" where
  "get_wan_connection_status so = (if so_ifaddr so = None then 5 else 2)"

definition get_wan_connection_status_str :: "soap_conf \<Rightarrow> string option" where
  "get_wan_connection_status_str so =
     (let status = get_wan_connection_status so in
      if status = 0 then Some ''Unconfigured'' else if status = 1 then Some ''Connecting''
      else if status = 2 then Some ''Connected'' else if status = 3 then Some ''PendingDisconnect''
      else if status = 4 then Some ''Disconnecting'' else if status = 5 then Some ''Disconnected'' else None)"

text \<open>\<^verbatim>\<open>%ld\<close> of the time since the start, and \<^verbatim>\<open>%s\<close> of a status that may be NULL.\<close>

definition show_int :: "int \<Rightarrow> string" where
  "show_int n = (if n < 0 then CHR ''-'' # dec (nat (- n)) else dec (nat n))"

definition show_string :: "string option \<Rightarrow> string" where
  "show_string s = (case s of None \<Rightarrow> ''(null)'' | Some t \<Rightarrow> t)"

definition upnp_get_uptime :: "soap_conf \<Rightarrow> int" where
  "upnp_get_uptime so = uint (upnp_time (rc_env (so_rdr so))) - uint (so_startup_time so)"

definition GetStatusInfo :: "soap_conf \<Rightarrow> string \<Rightarrow> string \<Rightarrow> 'st soap_state \<Rightarrow> 'st handled" where
  "GetStatusInfo so action ns st =
     (print_response 512 (soap_response action ns
        (soap_element ''NewConnectionStatus'' (show_string (get_wan_connection_status_str so))
         @ soap_element ''NewLastConnectionError'' ''ERROR_NONE''
         @ soap_element ''NewUptime'' (show_int (upnp_get_uptime so)))), st)"

definition GetNATRSIPStatus :: "string \<Rightarrow> string \<Rightarrow> 'st soap_state \<Rightarrow> 'st handled" where
  "GetNATRSIPStatus action ns st =
     (print_response 512 (soap_response action ns
        (soap_element ''NewRSIPAvailable'' ''0'' @ soap_element ''NewNATEnabled'' ''1'')), st)"

definition external_ip :: "soap_conf \<Rightarrow> string" where
  "external_ip so =
     (case so_use_ext_ip_addr so of Some ip \<Rightarrow> cstring (take 15 ip)
      | None \<Rightarrow> (case so_ifaddr so of None \<Rightarrow> ''0.0.0.0''
          | Some addr \<Rightarrow> (if addr_is_reserved addr then ''0.0.0.0'' else dotted addr)))"

definition GetExternalIPAddress :: "soap_conf \<Rightarrow> string \<Rightarrow> string \<Rightarrow> 'st soap_state \<Rightarrow> 'st handled" where
  "GetExternalIPAddress so action ns st =
     (if external_ip so = ''0.0.0.0'' then soap_error 501 ''Action Failed'' st
      else (print_response 512 (soap_response action ns
              (soap_element ''NewExternalIPAddress'' (external_ip so))), st))"

section \<open>Adding mappings\<close>

text \<open>\<^verbatim>\<open>(unsigned short)atoi(s)\<close>, and \<^verbatim>\<open>atoi(s)\<close> in an \<^verbatim>\<open>unsigned int\<close>.\<close>

definition port_arg :: "string \<Rightarrow> port" where
  "port_arg s = word_of_int (atoi s)"

definition lease_arg :: "string option \<Rightarrow> u32" where
  "lease_arg s = (case s of None \<Rightarrow> 0 | Some t \<Rightarrow> word_of_int (atoi t))"

text \<open>A remote host that is refused with \<^verbatim>\<open>UPNP_STRICT\<close> without \<^verbatim>\<open>SUPPORT_REMOTEHOST\<close>.\<close>

definition rhost_refused :: "soap_conf \<Rightarrow> string option \<Rightarrow> bool" where
  "rhost_refused so r_host \<longleftrightarrow> \<not> so_remotehost so \<and> so_strict so
     \<and> (case r_host of None \<Rightarrow> False | Some h \<Rightarrow> h \<noteq> [] \<and> h \<noteq> ''*'')"

text \<open>The address an argument names, as text and as number: a dotted address or a host name.\<close>

definition internal_client :: "soap_conf \<Rightarrow> string \<Rightarrow> (string \<times> ipv4) option" where
  "internal_client so int_ip =
     (case inet_pton4 int_ip of Some b \<Rightarrow> Some (int_ip, readnu32 b 0)
      | None \<Rightarrow> map_option (\<lambda>a. (dotted a, a)) (so_resolve so int_ip))"

text \<open>The client of \<^verbatim>\<open>AddPortMapping\<close>: without an argument the sender of the request (unless
  \<^verbatim>\<open>UPNP_STRICT\<close>), whose text is the one kept for the log.\<close>

definition mapping_client :: "soap_conf \<Rightarrow> soap_request \<Rightarrow> string option \<Rightarrow> (string \<times> ipv4) option" where
  "mapping_client so req int_ip =
     (if \<not> so_strict so \<and> (int_ip = None \<or> int_ip = Some [])
      then Some (clientaddr_str req, clientaddr req)
      else internal_client so (the int_ip))"

definition lease_granted :: "soap_conf \<Rightarrow> string option \<Rightarrow> u32" where
  "lease_granted so s =
     (let l = lease_arg s in if so_igd_v2 so \<and> (l = 0 \<or> l > 604800) then 604800 else l)"

text \<open>The reply to the result of \<^verbatim>\<open>upnp_redirect\<close>; without \<^verbatim>\<open>IGD_V2\<close> the cases fall through.\<close>

definition add_reply :: "soap_conf \<Rightarrow> string \<Rightarrow> string \<Rightarrow> int \<Rightarrow> soap_fault + soap_reply" where
  "add_reply so action ns r =
     (if r = 0 then print_response 512
        (''<u:'' @ action @ ''Response xmlns:u='' @ [CHR 0x22] @ ns @ [CHR 0x22] @ ''/>'')
      else if r = - 4 \<and> so_igd_v2 so then Inr (SoapError 729 ''ConflictWithOtherMechanisms'')
      else if (r = - 4 \<or> r = - 3) \<and> so_igd_v2 so then Inr (SoapError 606 ''Action not authorized'')
      else if r = - 4 \<or> r = - 3 \<or> r = - 2 then Inr (SoapError 718 ''ConflictInMappingEntry'')
      else Inr (SoapError 501 ''ActionFailed''))"

text \<open>The arguments of a mapping after the checks, or the error they end with.\<close>

record mapping_args =
  ma_rhost :: "string option"
  ma_eport :: port
  ma_ip :: string
  ma_iport :: port
  ma_protocol :: string
  ma_desc :: "string option"
  ma_lease :: u32

definition add_args ::
  "soap_conf \<Rightarrow> soap_request \<Rightarrow> (string \<Rightarrow> string option) \<Rightarrow> (int \<times> string) + mapping_args" where
  "add_args so req arg =
     (let int_ip = map_option (dropWhile (\<lambda>c. c = CHR '' '')) (arg ''NewInternalClient'');
          r_host = arg ''NewRemoteHost'' in
      if so_strict so \<and> (int_ip = None \<or> int_ip = Some []) then Inl (402, ''Invalid Args'')
      else if rhost_refused so r_host then Inl (726, ''RemoteHostOnlySupportsWildcard'')
      else (case mapping_client so req int_ip of None \<Rightarrow> Inl (402, ''Invalid Args'')
        | Some (ip, result_ip) \<Rightarrow>
          (if so_secure so \<and> clientaddr req \<noteq> result_ip then Inl (718, ''ConflictInMappingEntry'')
           else (case (arg ''NewInternalPort'', arg ''NewExternalPort'', arg ''NewProtocol'') of
               (Some int_port, Some ext_port, Some protocol) \<Rightarrow>
                 (if ext_port = ''*'' \<or> port_arg ext_port = 0
                  then Inl (716, ''Wildcard not permited in ExtPort'')
                  else Inr \<lparr>ma_rhost = r_host, ma_eport = port_arg ext_port, ma_ip = ip, ma_iport = port_arg int_port,
                            ma_protocol = protocol, ma_desc = arg ''NewPortMappingDescription'',
                            ma_lease = lease_granted so (arg ''NewLeaseDuration'')\<rparr>)
             | _ \<Rightarrow> Inl (402, ''Invalid Args'')))))"

definition AddPortMapping ::
  "'st fw_ops \<Rightarrow> soap_conf \<Rightarrow> soap_request \<Rightarrow> string \<Rightarrow> string \<Rightarrow> 'st soap_state \<Rightarrow> 'st handled" where
  "AddPortMapping ops so req action ns = with_arguments req (\<lambda>arg st.
     (case add_args so req arg of Inl (code, desc) \<Rightarrow> soap_error code desc st
      | Inr a \<Rightarrow>
        (let (r, m) = upnp_redirect ops (so_rdr so) (ma_rhost a) (ma_eport a) (ma_ip a) (ma_iport a)
               (ma_protocol a) (ma_desc a) (ma_lease a) (maps st)
         in (add_reply so action ns r, with_maps st m))))"

text \<open>The search of \<^verbatim>\<open>AddAnyPortMapping\<close> around the requested port: one above, one below, two above and
  so on. Ports without their bit in the map of permitted ports are passed over.\<close>

function any_search ::
  "(port \<Rightarrow> 'm \<Rightarrow> int \<times> 'm) \<Rightarrow> u32 list \<Rightarrow> port \<Rightarrow> port \<Rightarrow> port \<Rightarrow> 'm \<Rightarrow> int \<times> port \<times> 'm" where
  "any_search redirect allowed eport_below eport_above eport m =
     (if eport_below \<le> 1 \<and> eport_above = 65535 then (1, eport, m)
      else (let down = (eport_above = 65535 \<or> (eport > eport_below \<and> eport_below > 1));
                b = (if down then eport_below - 1 else eport_below);
                a = (if down then eport_above else eport_above + 1);
                e = (if down then b else a)
        in if \<not> port_bit allowed (unat e) then any_search redirect allowed b a e m
           else (let (r, m1) = redirect e m
                 in if r = 0 \<or> r = - 1 then (r, e, m1) else any_search redirect allowed b a e m1)))"
  by pat_completeness auto

termination any_search
  by (relation "measure (\<lambda>(redirect, allowed, below, above, eport, m). unat below + (65535 - unat above))")
    (auto simp: port_less_iff port_le_iff unat_port_max port_next_closer unat_port_prev Let_def split: if_splits)

declare any_search.simps [simp del]

text \<open>The requested port, then the search; the result 1 is an exhausted search. The address of the
  client is one \<^verbatim>\<open>inet_aton\<close> reads when the first attempt does not fail with -1.\<close>

definition any_redirect ::
  "'st fw_ops \<Rightarrow> rdr_conf \<Rightarrow> string option \<Rightarrow> port \<Rightarrow> string \<Rightarrow> port \<Rightarrow> string \<Rightarrow> string option \<Rightarrow> u32
    \<Rightarrow> 'st rdr_state \<Rightarrow> int \<times> port \<times> 'st rdr_state" where
  "any_redirect ops cf r_host eport ip iport protocol desc leaseduration m =
     (let redirect = (\<lambda>e. upnp_redirect ops cf r_host e ip iport protocol desc leaseduration);
          (r, m1) = redirect eport m
      in if r \<noteq> 0 \<and> r \<noteq> - 1
         then any_search redirect (get_permitted_ext_ports (rc_perms cf) (inet_addr ip) iport) eport eport eport m1
         else (r, eport, m1))"

definition any_reply :: "string \<Rightarrow> string \<Rightarrow> int \<Rightarrow> port \<Rightarrow> soap_fault + soap_reply" where
  "any_reply action ns r eport =
     (if r = 1 then Inr (SoapError 728 ''NoPortMapsAvailable'')
      else if r = 0 then print_response 512
        (soap_response action ns (soap_element ''NewReservedPort'' (dec (unat eport))))
      else if r = - 2 then Inr (SoapError 718 ''ConflictInMappingEntry'')
      else if r = - 3 then Inr (SoapError 606 ''Action not authorized'')
      else Inr (SoapError 501 ''ActionFailed''))"

text \<open>A requested port of 0 stands for a random port from 1024.\<close>

definition wanted_port :: "soap_conf \<Rightarrow> string \<Rightarrow> port" where
  "wanted_port so ext_port =
     (if port_arg ext_port = 0
      then word_of_nat (1024 + (so_random so mod 2 ^ 27) mod (65536 - 1024)) else port_arg ext_port)"

definition any_args ::
  "soap_conf \<Rightarrow> soap_request \<Rightarrow> (string \<Rightarrow> string option) \<Rightarrow> (int \<times> string) + mapping_args" where
  "any_args so req arg =
     (case (arg ''NewInternalClient'', arg ''NewExternalPort'', arg ''NewInternalPort'', arg ''NewProtocol'') of
        (Some int_ip, Some ext_port, Some int_port, Some protocol) \<Rightarrow>
          (if port_arg int_port = 0 \<or> (\<not> is_numeric ext_port \<and> ext_port \<noteq> ''*'') then Inl (402, ''Invalid Args'')
           else if rhost_refused so (arg ''NewRemoteHost'') then Inl (726, ''RemoteHostOnlySupportsWildcard'')
           else (case internal_client so int_ip of None \<Rightarrow> Inl (402, ''Invalid Args'')
             | Some (ip, result_ip) \<Rightarrow>
               (if so_secure so \<and> clientaddr req \<noteq> result_ip then Inl (606, ''Action not authorized'')
                else (let l = lease_arg (arg ''NewLeaseDuration'') in
                  Inr \<lparr>ma_rhost = arg ''NewRemoteHost'', ma_eport = wanted_port so ext_port, ma_ip = ip,
                       ma_iport = port_arg int_port, ma_protocol = protocol,
                       ma_desc = arg ''NewPortMappingDescription'', ma_lease = (if l = 0 then 604800 else l)\<rparr>))))
      | _ \<Rightarrow> Inl (402, ''Invalid Args''))"

definition AddAnyPortMapping ::
  "'st fw_ops \<Rightarrow> soap_conf \<Rightarrow> soap_request \<Rightarrow> string \<Rightarrow> string \<Rightarrow> 'st soap_state \<Rightarrow> 'st handled" where
  "AddAnyPortMapping ops so req action ns = with_arguments req (\<lambda>arg st.
     (case any_args so req arg of Inl (code, desc) \<Rightarrow> soap_error code desc st
      | Inr a \<Rightarrow>
        (let (r, e, m) = any_redirect ops (so_rdr so) (ma_rhost a) (ma_eport a) (ma_ip a) (ma_iport a)
               (ma_protocol a) (ma_desc a) (ma_lease a) (maps st)
         in (any_reply action ns r e, with_maps st m))))"

section \<open>Reading mappings\<close>

definition entry_sizes :: "nat \<Rightarrow> buf_sizes" where
  "entry_sizes r = \<lparr>iaddrlen = 32, desclen = 64, rhostlen = r\<rparr>"

text \<open>The description array of 64 bytes, printed with \<^verbatim>\<open>%s\<close>.\<close>

definition read_desc :: "string \<Rightarrow> soap_fault + string" where
  "read_desc desc = (if terminated desc then Inr (cstring desc) else Inl Unterminated)"

definition GetSpecificPortMappingEntry ::
  "'st fw_ops \<Rightarrow> soap_conf \<Rightarrow> soap_request \<Rightarrow> string \<Rightarrow> string \<Rightarrow> 'st soap_state \<Rightarrow> 'st handled" where
  "GetSpecificPortMappingEntry ops so req action ns = with_arguments req (\<lambda>arg st.
     (let r_host = arg ''NewRemoteHost'' in
      case (arg ''NewExternalPort'', arg ''NewProtocol'') of
        (Some ext_port, Some protocol) \<Rightarrow>
          (if so_strict so \<and> r_host = None then soap_error 402 ''Invalid Args'' st
           else if rhost_refused so r_host then soap_error 726 ''RemoteHostOnlySupportsWildcard'' st
           else if port_arg ext_port = 0 then soap_error 402 ''Invalid Args'' st
           else (let (found, m) = upnp_get_redirection_infos ops (so_rdr so) (entry_sizes 0) (port_arg ext_port)
                                    protocol (maps st); st1 = with_maps st m in
             case found of None \<Rightarrow> soap_error 714 ''NoSuchEntryInArray'' st1
             | Some (i, rhost, leaseduration) \<Rightarrow>
               (case read_desc (i_desc i) of Inl f \<Rightarrow> (Inl f, st1)
                | Inr desc \<Rightarrow> (print_response 1024 (soap_response action ns
                    (soap_element ''NewInternalPort'' (dec (unat (i_iport i)))
                     @ soap_element ''NewInternalClient'' (i_iaddr i)
                     @ soap_element ''NewEnabled'' ''1''
                     @ soap_element ''NewPortMappingDescription'' desc
                     @ soap_element ''NewLeaseDuration'' (dec (unat leaseduration)))), st1))))
      | _ \<Rightarrow> soap_error 402 ''Invalid Args'' st))"

text \<open>\<^verbatim>\<open>strtol\<close> with its error cases: no digits, or a value out of the range of a 64-bit \<^verbatim>\<open>long\<close>.\<close>

definition strtol_checked :: "string \<Rightarrow> int option" where
  "strtol_checked s =
     (let t = skip_space s;
          neg = (case t of c # _ \<Rightarrow> c = CHR ''-'' | [] \<Rightarrow> False);
          u = (case t of c # r \<Rightarrow> if c = CHR ''-'' \<or> c = CHR ''+'' then r else t | [] \<Rightarrow> []);
          digits = takeWhile isdigit u;
          v = (if neg then - int (dec_val digits) else int (dec_val digits))
      in if digits = [] \<or> v < - (2 ^ 63) \<or> 2 ^ 63 \<le> v then None else Some v)"

text \<open>The index is a signed 32-bit number; no rule has a negative one.\<close>

definition GetGenericPortMappingEntry ::
  "'st fw_ops \<Rightarrow> soap_conf \<Rightarrow> soap_request \<Rightarrow> string \<Rightarrow> string \<Rightarrow> 'st soap_state \<Rightarrow> 'st handled" where
  "GetGenericPortMappingEntry ops so req action ns = with_arguments req (\<lambda>arg st.
     (case arg ''NewPortMappingIndex'' of None \<Rightarrow> soap_error 402 ''Invalid Args'' st
      | Some m_index \<Rightarrow>
        (case strtol_checked m_index of None \<Rightarrow> soap_error 402 ''Invalid Args'' st
         | Some l \<Rightarrow>
           (let index = signed_take_bit 31 l in
            if index < 0 then soap_error 713 ''SpecifiedArrayIndexInvalid'' st
            else (let (found, m) = upnp_get_redirection_infos_by_index ops (so_rdr so) (entry_sizes 40)
                                     (nat index) (maps st); st1 = with_maps st m in
              case found of None \<Rightarrow> soap_error 713 ''SpecifiedArrayIndexInvalid'' st1
              | Some (eport, protocol, i, leaseduration) \<Rightarrow>
                (case i_rhost i of None \<Rightarrow> (Inl (Firewall Uninitialised), st1)
                 | Some rhost \<Rightarrow>
                   (case read_desc (i_desc i) of Inl f \<Rightarrow> (Inl f, st1)
                    | Inr desc \<Rightarrow> (print_response 2048 (soap_response action ns
                        (soap_element ''NewRemoteHost'' rhost
                         @ soap_element ''NewExternalPort'' (dec (unat eport))
                         @ soap_element ''NewProtocol'' protocol
                         @ soap_element ''NewInternalPort'' (dec (unat (i_iport i)))
                         @ soap_element ''NewInternalClient'' (i_iaddr i)
                         @ soap_element ''NewEnabled'' ''1''
                         @ soap_element ''NewPortMappingDescription'' desc
                         @ soap_element ''NewLeaseDuration'' (dec (unat leaseduration)))), st1))))))))"

section \<open>Deleting mappings\<close>

text \<open>In secure mode a mapping is deleted only for the client it goes to; a mapping that is not found
  or whose address cannot be read is not checked.\<close>

definition delete_allowed ::
  "'st fw_ops \<Rightarrow> soap_conf \<Rightarrow> soap_request \<Rightarrow> port \<Rightarrow> string \<Rightarrow> 'st rdr_state \<Rightarrow> bool \<times> 'st rdr_state" where
  "delete_allowed ops so req eport protocol m =
     (if \<not> so_secure so then (True, m)
      else (let (found, m1) = upnp_get_redirection_infos ops (so_rdr so)
                    \<lparr>iaddrlen = 32, desclen = 0, rhostlen = 0\<rparr> eport protocol m in
        case found of None \<Rightarrow> (True, m1)
        | Some (i, _, _) \<Rightarrow>
          (case inet_pton4 (i_iaddr i) of None \<Rightarrow> (True, m1)
           | Some b \<Rightarrow> (clientaddr req = readnu32 b 0, m1))))"

text \<open>The port and the protocol of the mapping to delete, or the error.\<close>

definition delete_args :: "soap_conf \<Rightarrow> (string \<Rightarrow> string option) \<Rightarrow> (int \<times> string) + (port \<times> string)" where
  "delete_args so arg =
     (case (arg ''NewExternalPort'', arg ''NewProtocol'') of
        (Some ext_port, Some protocol) \<Rightarrow>
          (if so_strict so \<and> arg ''NewRemoteHost'' = None then Inl (402, ''Invalid Args'')
           else if rhost_refused so (arg ''NewRemoteHost'') then Inl (726, ''RemoteHostOnlySupportsWildcard'')
           else if port_arg ext_port = 0 then Inl (402, ''Invalid Args'')
           else Inr (port_arg ext_port, protocol))
      | _ \<Rightarrow> Inl (402, ''Invalid Args''))"

definition DeletePortMapping ::
  "'st fw_ops \<Rightarrow> soap_conf \<Rightarrow> soap_request \<Rightarrow> string \<Rightarrow> string \<Rightarrow> 'st soap_state \<Rightarrow> 'st handled" where
  "DeletePortMapping ops so req action ns = with_arguments req (\<lambda>arg st.
     (case delete_args so arg of Inl (code, desc) \<Rightarrow> soap_error code desc st
      | Inr (eport, protocol) \<Rightarrow>
        (let (allowed, m1) = delete_allowed ops so req eport protocol (maps st) in
         if \<not> allowed then soap_error 606 ''Action not authorized'' (with_maps st m1)
         else (let (r, m2) = upnp_delete_redirection ops (so_rdr so) eport protocol m1;
                   st2 = with_maps st m2 in
           case r of Inl f \<Rightarrow> (Inl (Firewall f), st2)
           | Inr v \<Rightarrow> (if v < 0 then soap_error 714 ''NoSuchEntryInArray'' st2
                      else (print_response 512 (soap_response action ns []), st2))))))"

fun delete_ports ::
  "'st fw_ops \<Rightarrow> rdr_conf \<Rightarrow> string \<Rightarrow> port list \<Rightarrow> 'st rdr_state \<Rightarrow> (fw_fault + unit) \<times> 'st rdr_state" where
  "delete_ports ops cf protocol [] m = (Inr (), m)"
| "delete_ports ops cf protocol (p # ps) m =
     (case upnp_delete_redirection ops cf p protocol m of
        (Inl f, m1) \<Rightarrow> (Inl f, m1)
      | (Inr _, m1) \<Rightarrow> delete_ports ops cf protocol ps m1)"

text \<open>The start and the end of a range of ports, with the reply when there is none.\<close>

definition range_args :: "(string \<Rightarrow> string option) \<Rightarrow> (int \<times> string) + (port \<times> port \<times> string)" where
  "range_args arg =
     (case (arg ''NewStartPort'', arg ''NewEndPort'', arg ''NewProtocol'') of
        (Some startport_s, Some endport_s, Some protocol) \<Rightarrow>
          (if \<not> is_numeric startport_s \<or> \<not> is_numeric endport_s then Inl (402, ''Invalid Args'')
           else if port_arg startport_s > port_arg endport_s then Inl (733, ''InconsistentParameter'')
           else Inr (port_arg startport_s, port_arg endport_s, protocol))
      | _ \<Rightarrow> Inl (402, ''Invalid Args''))"

definition DeletePortMappingRange ::
  "'st fw_ops \<Rightarrow> soap_conf \<Rightarrow> soap_request \<Rightarrow> string \<Rightarrow> string \<Rightarrow> 'st soap_state \<Rightarrow> 'st handled" where
  "DeletePortMappingRange ops so req action ns = with_arguments req (\<lambda>arg st.
     (case range_args arg of Inl (code, desc) \<Rightarrow> soap_error code desc st
      | Inr (startport, endport, protocol) \<Rightarrow>
        (let (l, m1) = upnp_get_portmappings_in_range ops startport endport protocol (maps st);
             entry_list = (case l of None \<Rightarrow> [] | Some ps \<Rightarrow> ps) in
         if entry_list = [] then soap_error 730 ''PortMappingNotFound'' (with_maps st m1)
         else (case delete_ports ops (so_rdr so) protocol entry_list m1 of
                 (Inl f, m2) \<Rightarrow> (Inl (Firewall f), with_maps st m2)
               | (Inr _, m2) \<Rightarrow> (print_response 512 (soap_response action ns []), with_maps st m2)))))"

section \<open>Listing mappings\<close>

definition list_start :: string where
  "list_start = ''<p:PortMappingList xmlns:p='' @ [CHR 0x22] @ ''urn:schemas-upnp-org:gw:WANIPConnection'' @ [CHR 0x22]
     @ '' xmlns:xsi='' @ [CHR 0x22] @ ''http://www.w3.org/2001/XMLSchema-instance'' @ [CHR 0x22]
     @ '' xsi:schemaLocation='' @ [CHR 0x22] @ ''urn:schemas-upnp-org:gw:WANIPConnection''
     @ '' http://www.upnp.org/schemas/gw/WANIPConnection-v2.xsd'' @ [CHR 0x22] @ ''>''"

definition list_entry :: "string \<Rightarrow> port \<Rightarrow> string \<Rightarrow> port \<Rightarrow> string \<Rightarrow> string \<Rightarrow> u32 \<Rightarrow> string" where
  "list_entry rhost eport protocol iport int_ip desc leaseduration =
     soap_element ''p:PortMappingEntry''
       (soap_element ''p:NewRemoteHost'' rhost @ soap_element ''p:NewExternalPort'' (dec (unat eport))
        @ soap_element ''p:NewProtocol'' protocol @ soap_element ''p:NewInternalPort'' (dec (unat iport))
        @ soap_element ''p:NewInternalClient'' int_ip @ soap_element ''p:NewEnabled'' ''1''
        @ soap_element ''p:NewDescription'' desc @ soap_element ''p:NewLeaseTime'' (dec (unat leaseduration)))"

text \<open>The loop over the ports: it ends after \<open>number\<close> mappings that were found. The block of the reply
  grows, so that each entry has 1024 bytes.\<close>

fun list_entries ::
  "'st fw_ops \<Rightarrow> rdr_conf \<Rightarrow> string \<Rightarrow> int \<Rightarrow> port list \<Rightarrow> 'st rdr_state \<Rightarrow> (soap_fault + string) \<times> 'st rdr_state" where
  "list_entries ops cf protocol number [] m = (Inr [], m)"
| "list_entries ops cf protocol number (p # ps) m =
     (if number \<le> 0 then (Inr [], m)
      else (let (found, m1) = upnp_get_redirection_infos ops cf (entry_sizes 64) p protocol m in
        case found of None \<Rightarrow> list_entries ops cf protocol number ps m1
        | Some (i, rhost, leaseduration) \<Rightarrow>
          (case read_desc (i_desc i) of Inl f \<Rightarrow> (Inl f, m1)
           | Inr desc \<Rightarrow>
             (case list_entries ops cf protocol (number - 1) ps m1 of
                (Inl f, m2) \<Rightarrow> (Inl f, m2)
              | (Inr body, m2) \<Rightarrow>
                (Inr (list_entry rhost p protocol (i_iport i) (i_iaddr i) desc leaseduration @ body), m2)))))"

definition GetListOfPortMappings ::
  "'st fw_ops \<Rightarrow> soap_conf \<Rightarrow> soap_request \<Rightarrow> string \<Rightarrow> string \<Rightarrow> 'st soap_state \<Rightarrow> 'st handled" where
  "GetListOfPortMappings ops so req action ns = with_arguments req (\<lambda>arg st.
     (case arg ''NewNumberOfPorts'' of None \<Rightarrow> soap_error 402 ''Invalid Args'' st
      | Some number_s \<Rightarrow>
        (if \<not> is_numeric number_s then soap_error 402 ''Invalid Args'' st
         else (case range_args arg of Inl (code, desc) \<Rightarrow> soap_error code desc st
           | Inr (startport, endport, protocol) \<Rightarrow>
             (let number = (if atoi number_s = 0 then 1000 else atoi number_s);
                  (l, m1) = upnp_get_portmappings_in_range ops startport endport protocol (maps st);
                  entry_list = (case l of None \<Rightarrow> [] | Some ps \<Rightarrow> ps) in
              if entry_list = [] then soap_error 730 ''PortMappingNotFound'' (with_maps st m1)
              else (case list_entries ops (so_rdr so) protocol number entry_list m1 of
                  (Inl f, m2) \<Rightarrow> (Inl f, with_maps st m2)
                | (Inr body, m2) \<Rightarrow>
                  (Inr (Response (beforebody @ soap_response action ns
                     (''<NewPortListing><![CDATA['' @ list_start @ body @ ''</p:PortMappingList>'' @ '']]></NewPortListing>'')
                     @ afterbody)), with_maps st m2)))))))"

section \<open>Other actions\<close>

definition service_id_wanipc :: string where
  "service_id_wanipc = ''urn:upnp-org:serviceId:WANIPConn1''"

definition SetDefaultConnectionService ::
  "soap_conf \<Rightarrow> soap_request \<Rightarrow> string \<Rightarrow> string \<Rightarrow> 'st soap_state \<Rightarrow> 'st handled" where
  "SetDefaultConnectionService so req action ns = with_arguments req (\<lambda>arg st.
     (case arg ''NewDefaultConnectionService'' of None \<Rightarrow> soap_error 402 ''Invalid Args'' st
      | Some p \<Rightarrow>
        (if so_strict so \<and> take 41 p \<noteq> take 41 (so_uuid_wcd so) then soap_error 720 ''InvalidDeviceUUID'' st
         else if so_strict so \<and> (case find_char CHR '','' p of None \<Rightarrow> True | Some (_, r) \<Rightarrow> r \<noteq> service_id_wanipc)
         then soap_error 721 ''InvalidServiceID'' st
         else (print_response 512 (soap_response action ns []), st))))"

definition GetDefaultConnectionService :: "soap_conf \<Rightarrow> string \<Rightarrow> string \<Rightarrow> 'st soap_state \<Rightarrow> 'st handled" where
  "GetDefaultConnectionService so action ns st =
     (print_response 1024 (soap_response action ns (soap_element ''NewDefaultConnectionService''
        (so_uuid_wcd so @ (if so_igd_v2 so then '':WANConnectionDevice:2,'' else '':WANConnectionDevice:1,'')
         @ service_id_wanipc))), st)"

definition SetConnectionType :: "soap_conf \<Rightarrow> soap_request \<Rightarrow> 'st soap_state \<Rightarrow> 'st handled" where
  "SetConnectionType so req = with_arguments req (\<lambda>arg st.
     (if so_strict so \<and> arg ''NewConnectionType'' = None then soap_error 402 ''Invalid Args'' st
      else soap_error 731 ''ReadOnly'' st))"

definition RequestConnection :: "'st soap_state \<Rightarrow> 'st handled" where
  "RequestConnection st = soap_error 606 ''Action not authorized'' st"

definition ForceTermination :: "'st soap_state \<Rightarrow> 'st handled" where
  "ForceTermination st = soap_error 606 ''Action not authorized'' st"

text \<open>\<open>None\<close> when counting the mappings does not end. The number is cut to 9 characters.\<close>

definition QueryStateVariable ::
  "'st fw_ops \<Rightarrow> soap_conf \<Rightarrow> soap_request \<Rightarrow> string \<Rightarrow> string \<Rightarrow> 'st soap_state \<Rightarrow> 'st handled option" where
  "QueryStateVariable ops so req action ns st =
     (case ParseNameValue (req_content req) of Inl _ \<Rightarrow> Some (Inl Request_overread, st)
      | Inr d \<Rightarrow>
        (case GetValueFromNameValueList d ''varName'' of None \<Rightarrow> Some (soap_error 402 ''Invalid Args'' st)
         | Some var_name \<Rightarrow>
           (if var_name = ''ConnectionStatus''
            then Some (print_response 512 (soap_response action ns
                   (soap_element ''return'' (show_string (get_wan_connection_status_str so)))), st)
            else if var_name = ''PortMappingNumberOfEntries''
            then map_option (\<lambda>(n, m). (print_response 512 (soap_response action ns
                     (soap_element ''return'' (take 9 (dec n)))), with_maps st m))
                   (upnp_get_portmapping_number_of_entries ops (so_rdr so) (maps st))
            else Some (soap_error 404 ''Invalid Var'' st))))"

definition SendSetupMessage :: "soap_request \<Rightarrow> string \<Rightarrow> string \<Rightarrow> 'st soap_state \<Rightarrow> 'st handled" where
  "SendSetupMessage req action ns = with_arguments req (\<lambda>arg st.
     (case (arg ''ProtocolType'', arg ''InMessage'') of
        (Some ProtocolType, Some InMessage) \<Rightarrow>
          (if ProtocolType \<noteq> ''WPS'' then soap_error 600 ''Argument Value Invalid'' st
           else (print_response 1024 (soap_response action ns (soap_element ''OutMessage'' [])), st))
      | _ \<Rightarrow> soap_error 402 ''Invalid Args'' st))"

definition protocol_list :: string where
  "protocol_list = ''<?xml version='' @ [CHR 0x22] @ ''1.0'' @ [CHR 0x22] @ '' encoding='' @ [CHR 0x22] @ ''UTF-8'' @ [CHR 0x22]
     @ ''?>'' @ [CHR 0x0A] @ ''<SupportedProtocols xmlns='' @ [CHR 0x22] @ ''urn:schemas-upnp-org:gw:DeviceProtection'' @ [CHR 0x22]
     @ '' xmlns:xsi='' @ [CHR 0x22] @ ''http://www.w3.org/2001/XMLSchema-instance'' @ [CHR 0x22]
     @ '' xsi:schemaLocation='' @ [CHR 0x22] @ ''urn:schemas-upnp-org:gw:DeviceProtection''
     @ '' http://www.upnp.org/schemas/gw/DeviceProtection-v1.xsd'' @ [CHR 0x22] @ ''>''
     @ ''<Introduction><Name>WPS</Name></Introduction><Login><Name>PKCS5</Name></Login></SupportedProtocols>''"

definition GetSupportedProtocols :: "string \<Rightarrow> string \<Rightarrow> 'st soap_state \<Rightarrow> 'st handled" where
  "GetSupportedProtocols action ns st =
     (print_response 1024 (soap_response action ns
        (''<ProtocolList><![CDATA['' @ protocol_list @ '']]></ProtocolList>'')), st)"

definition GetAssignedRoles :: "soap_request \<Rightarrow> string \<Rightarrow> string \<Rightarrow> 'st soap_state \<Rightarrow> 'st handled" where
  "GetAssignedRoles req action ns st =
     (print_response 1024 (soap_response action ns
        (soap_element ''RoleList'' (if req_peercert req then ''Admin Basic'' else ''Public''))), st)"

section \<open>The search for a port\<close>

definition port_distance :: "port \<Rightarrow> port \<Rightarrow> nat" where
  "port_distance p q = (if p \<le> q then unat q - unat p else unat p - unat q)"

definition search_inv :: "nat \<Rightarrow> nat \<Rightarrow> nat \<Rightarrow> nat \<Rightarrow> bool" where
  "search_inv z b a e \<longleftrightarrow> 1 \<le> b \<and> b \<le> z \<and> z \<le> a
     \<and> ((e = b \<and> (a - z = z - b \<or> a = 65535)) \<or> (e = a \<and> b < a \<and> (a - z = z - b + 1 \<or> b = 1)))"

lemma search_inv_next:
  assumes "search_inv z b a e" "a \<le> 65535" "\<not> (b \<le> 1 \<and> a = 65535)"
  shows "if a = 65535 \<or> (b < e \<and> 1 < b) then search_inv z (b - 1) a (b - 1) \<and> (\<forall>p. a < p \<longrightarrow> p \<le> 65535 \<longrightarrow> z - (b - 1) \<le> p - z)
    else search_inv z b (a + 1) (a + 1) \<and> (\<forall>p. 1 \<le> p \<longrightarrow> p < b \<longrightarrow> a + 1 - z \<le> z - p)"
  using assms unfolding search_inv_def by (auto split: if_splits)

lemma any_search_nearest:
  fixes z :: port
  assumes step: "\<And>e m. Inv m \<Longrightarrow> \<exists>r m'. redirect e m = (r, m')
      \<and> (if good e then r = 0 \<and> Done e m' else r \<noteq> 0 \<and> r \<noteq> - 1 \<and> Inv m')"
    and bit: "\<And>e. good e \<Longrightarrow> port_bit allowed (unat e)"
  shows "Inv m \<Longrightarrow> search_inv (unat z) (unat lo) (unat hi) (unat eport) \<Longrightarrow>
     (\<forall>p. lo \<le> p \<and> p \<le> hi \<longrightarrow> \<not> good p) \<Longrightarrow>
     (\<exists>e m'. any_search redirect allowed lo hi eport m = (1, e, m') \<and> Inv m' \<and> (\<forall>p. p \<noteq> 0 \<longrightarrow> \<not> good p))
   \<or> (\<exists>e m'. any_search redirect allowed lo hi eport m = (0, e, m') \<and> Done e m' \<and> good e \<and> e \<noteq> 0
        \<and> (\<forall>p. p \<noteq> 0 \<and> good p \<longrightarrow> port_distance z e \<le> port_distance z p))"
proof (induction "unat lo + (65535 - unat hi)" arbitrary: lo hi eport m rule: less_induct)
  case less
  note facts = port_le_iff port_less_iff unat_port_max
  show ?case
  proof (cases "lo \<le> 1 \<and> hi = 65535")
    case True
    then have "lo \<le> p \<and> p \<le> hi" if "p \<noteq> 0" for p :: port
      using True that port_positive [of p] unat_port_less [of p] by (auto simp: facts)
    then show ?thesis using True less.prems by (subst any_search.simps) auto
  next
    case False
    define down where "down = (hi = 65535 \<or> (eport > lo \<and> lo > 1))"
    define b where "b = (if down then lo - 1 else lo)"
    define a where "a = (if down then hi else hi + 1)"
    define e where "e = (if down then b else a)"
    have unfold: "any_search redirect allowed lo hi eport m =
       (if \<not> port_bit allowed (unat e) then any_search redirect allowed b a e m
        else (let (r, m1) = redirect e m
              in if r = 0 \<or> r = - 1 then (r, e, m1) else any_search redirect allowed b a e m1))"
      using False unfolding e_def a_def b_def down_def by (subst any_search.simps) (simp only: Let_def if_False)
    have pos: "1 \<le> unat lo" "unat lo \<le> unat hi" using less.prems(2) by (auto simp: search_inv_def)
    have nums: "down \<Longrightarrow> unat b = unat lo - 1 \<and> 1 \<le> unat b \<and> a = hi"
      "\<not> down \<Longrightarrow> unat a = unat hi + 1 \<and> b = lo"
      using False pos unfolding b_def a_def down_def
      by (auto simp: facts unat_port_prev unat_port_next)
    have "search_inv (unat z) (unat lo) (unat hi) (unat eport)" "unat hi \<le> 65535"
      "\<not> (unat lo \<le> 1 \<and> unat hi = 65535)"
      using less.prems(2) False unat_port_less [of hi] by (auto simp: facts)
    note nxt = search_inv_next [OF this]
    have inv: "search_inv (unat z) (unat b) (unat a) (unat e)"
      using nxt nums unfolding e_def down_def by (auto simp: facts split: if_splits)
    have outside: "unat p < unat lo \<or> unat hi < unat p" if "good p" for p
    proof -
      have "\<not> (unat lo \<le> unat p \<and> unat p \<le> unat hi)" using less.prems(3) that unfolding facts by blast
      then show ?thesis by linarith
    qed
    have near: "port_distance z e \<le> port_distance z p" if "p \<noteq> 0" "good p" for p
    proof -
      have z: "unat lo \<le> unat z" "unat z \<le> unat hi" using less.prems(2) by (auto simp: search_inv_def)
      have p: "1 \<le> unat p" "unat p \<le> 65535" using port_positive [OF that(1)] unat_port_less [of p] by auto
      show ?thesis
      proof (cases down)
        case True
        then have "\<forall>p. unat hi < p \<longrightarrow> p \<le> 65535 \<longrightarrow> unat z - (unat lo - 1) \<le> p - unat z"
          using nxt unfolding down_def by (auto simp: facts split: if_splits)
        moreover have "unat e = unat lo - 1" using nums True by (simp add: e_def)
        ultimately show ?thesis using outside [OF that(2)] z p
          by (auto simp: port_distance_def facts)
      next
        case False
        then have "\<forall>p. 1 \<le> p \<longrightarrow> p < unat lo \<longrightarrow> unat hi + 1 - unat z \<le> unat z - p"
          using nxt unfolding down_def by (auto simp: facts split: if_splits)
        moreover have "unat e = unat hi + 1" using nums False by (simp add: e_def)
        ultimately show ?thesis using outside [OF that(2)] z p
          by (auto simp: port_distance_def facts)
      qed
    qed
    have closer: "unat b + (65535 - unat a) < unat lo + (65535 - unat hi)"
      using nums pos unat_port_less [of a] by (cases down) auto
    have range: "\<forall>p. b \<le> p \<and> p \<le> a \<longrightarrow> \<not> good p" if "\<not> good e"
    proof (intro allI impI notI)
      fix p assume p: "b \<le> p \<and> p \<le> a" "good p"
      then have "unat p = unat e"
        using nums outside [OF p(2)] unfolding e_def by (cases down) (auto simp: facts)
      then show False using that p(2) port_eqI by blast
    qed
    have e0: "e \<noteq> 0" using nums pos unfolding e_def by (cases down) auto
    show ?thesis
    proof (cases "port_bit allowed (unat e)")
      case False
      then have "\<not> good e" using bit by blast
      with less.hyps [OF closer less.prems(1) inv range] False show ?thesis by (simp only: unfold if_True simp_thms)
    next
      case True
      obtain r m' where r: "redirect e m = (r, m')"
        "if good e then r = 0 \<and> Done e m' else r \<noteq> 0 \<and> r \<noteq> - 1 \<and> Inv m'" using step [OF less.prems(1)] by blast
      show ?thesis
      proof (cases "good e")
        case True
        then show ?thesis using r near e0 bit by (simp add: unfold)
      next
        case False
        with r less.hyps [OF closer _ inv range [OF False], of m'] \<open>port_bit allowed (unat e)\<close> show ?thesis
          by (simp add: unfold)
      qed
    qed
  qed
qed
text \<open>Whether an external port can be mapped for a client: the abstract operation succeeds.\<close>

definition can_map :: "rdr_conf \<Rightarrow> portmaps \<Rightarrow> string option \<Rightarrow> string \<Rightarrow> port \<Rightarrow> string \<Rightarrow> port \<Rightarrow> bool" where
  "can_map cf T rhost iaddr iport protocol e \<longleftrightarrow> fst (spec_redirect cf rhost e iaddr iport protocol None 0 T) = 0"

lemma spec_redirect_result:
  assumes "inet_aton iaddr = Some a" "\<not> rc_disabled cf"
  shows "if can_map cf T rhost iaddr iport protocol e
    then fst (spec_redirect cf rhost e iaddr iport protocol desc dur T) = 0
      \<and> check_upnp_rule_against_permissions (rc_perms cf) e a iport
    else fst (spec_redirect cf rhost e iaddr iport protocol desc dur T) \<in> {- 2, - 3, - 4}
      \<and> snd (spec_redirect cf rhost e iaddr iport protocol desc dur T) = T"
  using assms by (auto simp: can_map_def spec_redirect_def Let_def split: option.splits if_splits)

context redirect_backend begin

lemma any_redirect_outcome:
  fixes rhost :: "string option" and iport :: port and protocol :: string
  assumes ok: "ok (fw m)" and addr: "inet_aton ip = Some a" and on: "\<not> rc_disabled cf" and port: "eport \<noteq> 0"
  defines "T \<equiv> table_of (fw m)"
  defines "good \<equiv> can_map cf T rhost ip iport protocol"
  shows "\<exists>r e m'. any_redirect ops cf rhost eport ip iport protocol desc dur m = (r, e, m') \<and> ok (fw m')
    \<and> (if \<exists>p. p \<noteq> 0 \<and> good p
       then r = 0 \<and> e \<noteq> 0 \<and> good e \<and> (\<forall>p. p \<noteq> 0 \<and> good p \<longrightarrow> port_distance eport e \<le> port_distance eport p)
         \<and> table_of (fw m') = snd (spec_redirect cf rhost e ip iport protocol desc dur T)
       else r = 1 \<and> table_of (fw m') = T)"
proof -
  define redirect where "redirect = (\<lambda>e. upnp_redirect ops cf rhost e ip iport protocol desc dur)"
  define Inv where "Inv = (\<lambda>m :: 'st rdr_state. ok (fw m) \<and> table_of (fw m) = T)"
  define Done where "Done = (\<lambda>e (m' :: 'st rdr_state). ok (fw m') \<and> table_of (fw m') = snd (spec_redirect cf rhost e ip iport protocol desc dur T))"
  define allowed where "allowed = get_permitted_ext_ports (rc_perms cf) (inet_addr ip) iport"
  have step: "\<exists>r m'. redirect e m = (r, m')
      \<and> (if good e then r = 0 \<and> Done e m' else r \<noteq> 0 \<and> r \<noteq> - 1 \<and> Inv m')" if "Inv m" for e m
    using redirect_refines [of m cf rhost e ip iport protocol desc dur] that
      spec_redirect_result [OF addr on, of T rhost iport protocol e desc dur]
    by (auto simp: redirect_def Inv_def Done_def good_def split: if_splits)
  have bit: "port_bit allowed (unat e)" if "good e" for e
    using that spec_redirect_result [OF addr on, of T rhost iport protocol e desc dur] addr
    by (simp add: good_def allowed_def permitted_spec inet_addr_def)
  have inv: "Inv m" using ok by (simp add: Inv_def T_def)
  obtain r m1 where r: "redirect eport m = (r, m1)"
    "if good eport then r = 0 \<and> Done eport m1 else r \<noteq> 0 \<and> r \<noteq> - 1 \<and> Inv m1" using step [OF inv] by blast
  show ?thesis
  proof (cases "good eport")
    case True
    then have "any_redirect ops cf rhost eport ip iport protocol desc dur m = (0, eport, m1)"
      using r by (simp add: any_redirect_def redirect_def)
    then show ?thesis using True r port by (auto simp: Done_def port_distance_def)
  next
    case False
    have start: "search_inv (unat eport) (unat eport) (unat eport) (unat eport)"
      using port_positive [OF port] by (simp add: search_inv_def)
    have none: "\<forall>p. eport \<le> p \<and> p \<le> eport \<longrightarrow> \<not> good p" using False by force
    have eq: "any_redirect ops cf rhost eport ip iport protocol desc dur m
        = any_search redirect allowed eport eport eport m1"
      using r False by (simp add: any_redirect_def redirect_def allowed_def)
    have inv1: "Inv m1" using r False by simp
    from any_search_nearest [of Inv redirect good Done allowed m1 eport eport eport eport, OF step bit inv1 start none]
    show ?thesis unfolding eq by (auto simp: Inv_def Done_def)
  qed
qed

end

section \<open>Whose mappings a request changes\<close>

lemma spec_redirect_grants:
  assumes "inet_aton iaddr \<in> {None, Some a}"
  shows "own_changes a T (snd (spec_redirect cf rhost eport iaddr iport protocol desc dur T))"
  using assms
  by (auto simp: own_changes_def spec_redirect_def Let_def same_client_def new_portmap_def inet_addr_def cstr inet_aton_dotted
      split: option.splits)

lemma internal_client_addr: "internal_client so s = Some (ip, a) \<Longrightarrow> inet_aton ip = Some a"
  by (auto simp: internal_client_def cstr inet_pton4_aton split: option.splits)

lemma mapping_client_addr:
  "mapping_client so req s = Some (ip, a) \<Longrightarrow> inet_aton (clientaddr_str req) \<in> {None, Some (clientaddr req)} \<Longrightarrow>
     inet_aton ip \<in> {None, Some a}"
  by (auto simp: mapping_client_def internal_client_addr split: if_splits)

context redirect_backend begin

lemma redirect_result:
  assumes "ok (fw m)" "upnp_redirect ops cf rhost eport iaddr iport protocol desc dur m = (r, m')"
  shows "r = fst (spec_redirect cf rhost eport iaddr iport protocol desc dur (table_of (fw m)))" "ok (fw m')"
    "table_of (fw m') = snd (spec_redirect cf rhost eport iaddr iport protocol desc dur (table_of (fw m)))"
  using redirect_refines [OF assms(1), of cf rhost eport iaddr iport protocol desc dur] assms(2) by auto

lemma redirect_grants:
  assumes "ok (fw m)" "upnp_redirect ops cf rhost eport iaddr iport protocol desc dur m = (r, m')"
    and "inet_aton iaddr \<in> {None, Some a}"
  shows "ok (fw m') \<and> own_changes a (table_of (fw m)) (table_of (fw m'))"
  using redirect_result [OF assms(1,2)] spec_redirect_grants [OF assms(3)] by simp

end

lemma add_args_client:
  "add_args so req arg = Inr a \<Longrightarrow>
     \<exists>b. mapping_client so req (map_option (dropWhile (\<lambda>c. c = CHR '' '')) (arg ''NewInternalClient'')) = Some (ma_ip a, b)
     \<and> (so_secure so \<longrightarrow> clientaddr req = b) \<and> ma_eport a \<noteq> 0"
  by (auto simp: add_args_def Let_def split: option.splits if_splits)

lemma wanted_port_nonzero: "wanted_port so s \<noteq> 0"
proof (cases "port_arg s = 0")
  case True
  define n where "n = 1024 + (so_random so mod 2 ^ 27) mod (65536 - 1024)"
  have "n < 65536" unfolding n_def
    using mod_less_divisor [of "65536 - 1024" "so_random so mod 2 ^ 27"] by linarith
  then have "unat (word_of_nat n :: port) = n" by (rule unat_port_of_nat)
  then have "word_of_nat n \<noteq> (0 :: port)" by (auto simp: n_def)
  then show ?thesis using True by (simp add: wanted_port_def n_def)
qed (simp add: wanted_port_def)

lemma any_args_client:
  "any_args so req arg = Inr a \<Longrightarrow>
     \<exists>b. internal_client so (the (arg ''NewInternalClient'')) = Some (ma_ip a, b)
     \<and> (so_secure so \<longrightarrow> clientaddr req = b) \<and> ma_eport a \<noteq> 0"
  by (auto simp: any_args_def Let_def wanted_port_nonzero split: option.splits if_splits)

lemma spec_redirect_failed:
  "fst (spec_redirect cf rhost e iaddr iport protocol desc dur T) \<noteq> 0 \<Longrightarrow>
     snd (spec_redirect cf rhost e iaddr iport protocol desc dur T) = T"
  by (auto simp: spec_redirect_def Let_def split: option.splits if_splits)

lemma any_search_result:
  assumes step: "\<And>e m r m'. Inv m \<Longrightarrow> redirect e m = (r, m') \<Longrightarrow> if r = 0 then Done m' else Inv m'"
  shows "Inv m \<Longrightarrow> any_search redirect allowed lo hi eport m = (q, e, m') \<Longrightarrow> Done m' \<or> Inv m'"
proof (induction "unat lo + (65535 - unat hi)" arbitrary: lo hi eport m rule: less_induct)
  case less
  show ?case
  proof (cases "lo \<le> 1 \<and> hi = 65535")
    case True
    then show ?thesis using less.prems by (subst (asm) any_search.simps) simp
  next
    case False
    define down where "down = (hi = 65535 \<or> (eport > lo \<and> lo > 1))"
    define b where "b = (if down then lo - 1 else lo)"
    define a where "a = (if down then hi else hi + 1)"
    define f where "f = (if down then b else a)"
    have unfold: "any_search redirect allowed lo hi eport m =
       (if \<not> port_bit allowed (unat f) then any_search redirect allowed b a f m
        else (let (r, m1) = redirect f m
              in if r = 0 \<or> r = - 1 then (r, f, m1) else any_search redirect allowed b a f m1))"
      using False unfolding f_def a_def b_def down_def by (subst any_search.simps) (simp only: Let_def if_False)
    have "unat b + (65535 - unat a) < unat lo + (65535 - unat hi)"
      using False unfolding a_def b_def down_def
      by (auto simp: port_less_iff port_le_iff unat_port_max port_next_closer unat_port_prev)
    note IH = less.hyps [OF this]
    obtain r m1 where r: "redirect f m = (r, m1)" by force
    then have "if r = 0 then Done m1 else Inv m1" using step [OF less.prems(1)] by blast
    then show ?thesis
      using less.prems IH [of m f] IH [of m1 f] r by (auto simp: unfold split: if_splits)
  qed
qed

context redirect_backend begin

lemma AddPortMapping_grants:
  assumes ok: "ok (fw (maps st))" and secure: "so_secure so"
    and sender: "inet_aton (clientaddr_str req) \<in> {None, Some (clientaddr req)}"
    and run: "AddPortMapping ops so req action ns st = (r, st')"
  shows "ok (fw (maps st')) \<and> own_changes (clientaddr req) (table_of (fw (maps st))) (table_of (fw (maps st')))"
  using run ok secure redirect_grants [OF ok] redirect_result(2) [OF ok] mapping_client_addr [OF _ sender]
  by (auto simp: AddPortMapping_def with_arguments_def soap_error_def
      split: sum.splits prod.splits dest!: add_args_client)

lemma any_redirect_grants:
  assumes ok: "ok (fw m)" and addr: "inet_aton ip \<in> {None, Some a}"
    and run: "any_redirect ops cf rhost eport ip iport protocol desc dur m = (r, e, m')"
  shows "ok (fw m') \<and> own_changes a (table_of (fw m)) (table_of (fw m'))"
proof -
  define T where "T = table_of (fw m)"
  define redirect where "redirect = (\<lambda>e. upnp_redirect ops cf rhost e ip iport protocol desc dur)"
  define Inv where "Inv = (\<lambda>m :: 'st rdr_state. ok (fw m) \<and> table_of (fw m) = T)"
  define Done where "Done = (\<lambda>m :: 'st rdr_state. ok (fw m) \<and> own_changes a T (table_of (fw m)))"
  have step: "if q = 0 then Done m2 else Inv m2" if "Inv m1" "redirect e m1 = (q, m2)" for e m1 q m2
    using redirect_result [of m1 cf rhost e ip iport protocol desc dur q m2] that spec_redirect_grants [OF addr]
      spec_redirect_failed
    by (auto simp: redirect_def Inv_def Done_def)
  have inv: "Inv m" using ok by (simp add: Inv_def T_def)
  obtain q1 m1 where first: "redirect eport m = (q1, m1)" by force
  note one = step [OF inv first]
  have "Done m' \<or> Inv m'"
  proof (cases "q1 \<noteq> 0 \<and> q1 \<noteq> - 1")
    case True
    then have "any_search redirect (get_permitted_ext_ports (rc_perms cf) (inet_addr ip) iport) eport eport eport m1
        = (r, e, m')" "Inv m1"
      using run first one by (auto simp: any_redirect_def redirect_def Let_def)
    then show ?thesis using any_search_result [of Inv redirect Done] step by blast
  next
    case False
    then show ?thesis using run first one by (auto simp: any_redirect_def redirect_def Let_def split: if_splits)
  qed
  then show ?thesis by (auto simp: Done_def Inv_def T_def)
qed

lemma AddAnyPortMapping_grants:
  assumes ok: "ok (fw (maps st))" and secure: "so_secure so"
    and run: "AddAnyPortMapping ops so req action ns st = (r, st')"
  shows "ok (fw (maps st')) \<and> own_changes (clientaddr req) (table_of (fw (maps st))) (table_of (fw (maps st')))"
proof (cases "ParseNameValue (req_content req)")
  case (Inr d)
  show ?thesis
  proof (cases "any_args so req (GetValueFromNameValueList d)")
    case Inr': (Inr a)
    obtain i where i: "internal_client so i = Some (ma_ip a, clientaddr req)"
      using any_args_client [OF Inr'] secure by auto
    obtain q e m where m: "any_redirect ops (so_rdr so) (ma_rhost a) (ma_eport a) (ma_ip a) (ma_iport a)
        (ma_protocol a) (ma_desc a) (ma_lease a) (maps st) = (q, e, m)" by (cases rule: prod_cases3)
    then show ?thesis
      using run Inr Inr' any_redirect_grants [OF ok _ m] internal_client_addr [OF i]
      by (auto simp: AddAnyPortMapping_def with_arguments_def)
  qed (use run ok Inr in \<open>auto simp: AddAnyPortMapping_def with_arguments_def soap_error_def\<close>)
qed (use run ok in \<open>auto simp: AddAnyPortMapping_def with_arguments_def\<close>)

end

end
