(* ===== verification/Pinhole_Soap.thy ===== *)
theory Pinhole_Soap
  imports Pinhole Upnp_Soap
begin

text \<open>
  The SOAP actions of \<^verbatim>\<open>upnpsoap.c\<close> for IPv6 pinholes (service WANIPv6FirewallControl): their
  arguments, the check that a request comes from the client it is about, and the calls of \<open>Pinhole\<close>.
\<close>

type_synonym pin_handled = "(soap_fault + soap_reply) \<times> ip6_state"

section \<open>Checks\<close>

definition GetFirewallStatus :: "soap_conf \<Rightarrow> string \<Rightarrow> string \<Rightarrow> ip6_state \<Rightarrow> pin_handled" where
  "GetFirewallStatus so action ns st =
     (print_response 512 (soap_response action ns
        (soap_element ''FirewallEnabled'' (if so_6fc_disabled so then ''0'' else ''1'')
         @ soap_element ''InboundPinholeAllowed'' (if so_6fc_disallowed so then ''0'' else ''1''))), st)"

text \<open>The error of \<^verbatim>\<open>CheckStatus\<close>, if any.\<close>

definition CheckStatus :: "soap_conf \<Rightarrow> soap_reply option" where
  "CheckStatus so =
     (if so_6fc_disabled so then Some (SoapError 702 ''FirewallDisabled'')
      else if so_6fc_disallowed so then Some (SoapError 703 ''InboundPinholeNotAllowed'')
      else None)"

text \<open>How \<^verbatim>\<open>PinholeVerification\<close> ends when it does not allow the action. A client argument that is no
  address is looked up with \<^verbatim>\<open>hints\<close> of which two members have no value. After the texts of the
  addresses the code compares the addresses of two arrays, which always differ.\<close>

definition PinholeVerification :: "soap_request \<Rightarrow> string \<Rightarrow> port \<Rightarrow> (soap_fault + soap_reply) option" where
  "PinholeVerification req int_ip int_port =
     (if inet_pton6 int_ip = None then Some (Inl (Firewall Uninitialised))
      else if inet_ntop6 (clientaddr_v6 req) \<noteq> int_ip then Some (Inr (SoapError 606 ''Action not authorized''))
      else if int_port < 1024 then Some (Inr (SoapError 606 ''Action not authorized''))
      else None)"

text \<open>\<^verbatim>\<open>strtol(s, NULL, 0)\<close>; \<open>None\<close>: \<^verbatim>\<open>ERANGE\<close>.\<close>

definition strtol0 :: "string \<Rightarrow> int option" where
  "strtol0 s =
     (let t = skip_space s;
          neg = (case t of c # _ \<Rightarrow> c = CHR ''-'' | [] \<Rightarrow> False);
          u = (case t of c # r \<Rightarrow> if c = CHR ''-'' \<or> c = CHR ''+'' then r else t | [] \<Rightarrow> []);
          v = (if neg then - int (fst (strtoul0 u)) else int (fst (strtoul0 u)))
      in if v < - (2 ^ 63) \<or> 2 ^ 63 \<le> v then None else Some v)"

section \<open>Adding a pinhole\<close>

text \<open>The text of the remote host: the first address found for a name, or the text as it is.\<close>

definition remote_text :: "soap_conf \<Rightarrow> string option \<Rightarrow> string option \<Rightarrow> string option" where
  "remote_text so rem_host rem_port =
     map_option (\<lambda>h. let t = dropWhile isspace h in
       if t \<noteq> [] \<and> hd t \<noteq> CHR ''*''
       then (case so_resolve6 so t rem_port of Some (a # _) \<Rightarrow> inet_ntop6 a | _ \<Rightarrow> t) else t) rem_host"

record pinhole_args =
  pa_rhost :: "string option"
  pa_rport :: port
  pa_ip :: string
  pa_iport :: port
  pa_proto :: int
  pa_lease :: u32

definition port_or_zero :: "string option \<Rightarrow> port" where
  "port_or_zero s = (case s of None \<Rightarrow> 0 | Some t \<Rightarrow> port_arg t)"

definition atoi_or :: "int \<Rightarrow> string option \<Rightarrow> int" where
  "atoi_or d s = (case s of None \<Rightarrow> d | Some t \<Rightarrow> atoi t)"

definition add_pinhole_args ::
  "soap_conf \<Rightarrow> soap_request \<Rightarrow> (string \<Rightarrow> string option) \<Rightarrow> (soap_fault + soap_reply) + pinhole_args" where
  "add_pinhole_args so req arg =
     (let iport = port_or_zero (arg ''InternalPort''); ltime = atoi_or (- 1) (arg ''LeaseTime'');
          proto = (case arg ''Protocol'' of None \<Rightarrow> Some (- 1) | Some t \<Rightarrow> strtol0 t) in
      case proto of None \<Rightarrow> Inl (Inr (SoapError 402 ''Invalid Args''))
      | Some proto \<Rightarrow>
        (if proto > 65535 \<or> proto < 0 then Inl (Inr (SoapError 402 ''Invalid Args''))
         else if iport = 0 then Inl (Inr (SoapError 706 ''InternalPortWilcardingNotAllowed''))
         else (case arg ''InternalClient'' of None \<Rightarrow> Inl (Inr (SoapError 708 ''WildCardNotPermittedInSrcIP''))
           | Some int_ip \<Rightarrow>
             (if int_ip = [] \<or> int_ip = ''*'' then Inl (Inr (SoapError 708 ''WildCardNotPermittedInSrcIP''))
              else if proto = 65535 then Inl (Inr (SoapError 707 ''ProtocolWilcardingNotAllowed''))
              else if proto \<noteq> 17 \<and> proto \<noteq> 6 then Inl (Inr (SoapError 705 ''ProtocolNotSupported''))
              else if ltime < 1 \<or> ltime > 86400 then Inl (Inr (SoapError 402 ''Invalid Args''))
              else (case PinholeVerification req int_ip iport of Some e \<Rightarrow> Inl e
                | None \<Rightarrow> Inr \<lparr>pa_rhost = remote_text so (arg ''RemoteHost'') (arg ''RemotePort''),
                    pa_rport = port_or_zero (arg ''RemotePort''), pa_ip = int_ip, pa_iport = iport,
                    pa_proto = proto, pa_lease = word_of_int ltime\<rparr>)))))"

text \<open>\<open>None\<close>: the search for an identifier does not end.\<close>

definition AddPinhole :: "soap_conf \<Rightarrow> soap_request \<Rightarrow> string \<Rightarrow> string \<Rightarrow> ip6_state \<Rightarrow> pin_handled option" where
  "AddPinhole so req action ns st =
     (case CheckStatus so of Some e \<Rightarrow> Some (Inr e, st)
      | None \<Rightarrow>
        (case ParseNameValue (req_content req) of Inl _ \<Rightarrow> Some (Inl Request_overread, st)
         | Inr d \<Rightarrow>
           (case add_pinhole_args so req (GetValueFromNameValueList d) of Inl e \<Rightarrow> Some (e, st)
            | Inr a \<Rightarrow>
              map_option (\<lambda>(r, st1).
                (case r of Inl f \<Rightarrow> Inl (Firewall f)
                 | Inr (v, uid) \<Rightarrow>
                   (if v = 1 then print_response 512 (soap_response action ns (soap_element ''UniqueID'' (show_int uid)))
                    else if v = - 1 then Inr (SoapError 701 ''PinholeSpaceExhausted'')
                    else Inr (SoapError 501 ''ActionFailed'')), st1))
                (upnp_add_inboundpinhole (so_ext_if_name6 so) (upnp_time (rc_env (so_rdr so))) (pa_rhost a) (pa_rport a) (pa_ip a) (pa_iport a)
                   (pa_proto a) ''IGD2 pinhole'' (pa_lease a) st))))"

section \<open>Actions on a pinhole\<close>

text \<open>The argument \<^verbatim>\<open>UniqueID\<close>, a 16-bit number, and the check that the sender is the pinhole's client.\<close>

definition uid_arg :: "(string \<Rightarrow> string option) \<Rightarrow> port option" where
  "uid_arg arg = (let uid = atoi_or (- 1) (arg ''UniqueID'') in if uid < 0 \<or> uid > 65535 then None else Some (word_of_int uid))"

definition UpdatePinhole :: "soap_conf \<Rightarrow> soap_request \<Rightarrow> string \<Rightarrow> string \<Rightarrow> ip6_state \<Rightarrow> pin_handled" where
  "UpdatePinhole so req action ns st =
     (case CheckStatus so of Some e \<Rightarrow> (Inr e, st)
      | None \<Rightarrow> with_arguments req (\<lambda>arg st.
          (let ltime = atoi_or (- 1) (arg ''NewLeaseTime''); now = upnp_time (rc_env (so_rdr so)) in
           case uid_arg arg of None \<Rightarrow> soap_error 402 ''Invalid Args'' st
           | Some uid \<Rightarrow>
             (if ltime \<le> 0 \<or> ltime > 86400 then soap_error 402 ''Invalid Args'' st
              else (case upnp_get_pinhole_info now False uid st of
                  (Inl f, st1) \<Rightarrow> (Inl (Firewall f), st1)
                | (Inr (Inl n), st1) \<Rightarrow>
                    (if n = - 2 then soap_error 704 ''NoSuchEntry'' st1 else soap_error 501 ''ActionFailed'' st1)
                | (Inr (Inr (p, _, _)), st1) \<Rightarrow>
                    (case PinholeVerification req (inet_ntop6 (ph_daddr p)) (ph_dport p) of Some e \<Rightarrow> (e, st1)
                     | None \<Rightarrow>
                       (let (n, st2) = upnp_update_inboundpinhole now uid (word_of_int ltime) st1 in
                        if n = - 1 then soap_error 704 ''NoSuchEntry'' st2
                        else if n < 0 then soap_error 501 ''ActionFailed'' st2
                        else (print_response 512 (soap_response action ns []), st2)))))) ) st)"

definition GetOutboundPinholeTimeout :: "soap_conf \<Rightarrow> soap_request \<Rightarrow> ip6_state \<Rightarrow> pin_handled" where
  "GetOutboundPinholeTimeout so req st =
     (if so_6fc_disabled so then soap_error 702 ''FirewallDisabled'' st
      else with_arguments req (\<lambda>arg st.
        if arg ''InternalPort'' = None \<or> arg ''RemotePort'' = None \<or> arg ''Protocol'' = None
        then soap_error 402 ''Invalid Args'' st else soap_error 501 ''ActionFailed'' st) st)"

definition DeletePinhole :: "soap_conf \<Rightarrow> soap_request \<Rightarrow> string \<Rightarrow> string \<Rightarrow> ip6_state \<Rightarrow> pin_handled" where
  "DeletePinhole so req action ns st =
     (case CheckStatus so of Some e \<Rightarrow> (Inr e, st)
      | None \<Rightarrow> with_arguments req (\<lambda>arg st.
          (case uid_arg arg of None \<Rightarrow> soap_error 402 ''Invalid Args'' st
           | Some uid \<Rightarrow>
             (case upnp_get_pinhole_info (upnp_time (rc_env (so_rdr so))) False uid st of
                (Inl f, st1) \<Rightarrow> (Inl (Firewall f), st1)
              | (Inr (Inl n), st1) \<Rightarrow>
                  (if n = - 2 then soap_error 704 ''NoSuchEntry'' st1 else soap_error 501 ''ActionFailed'' st1)
              | (Inr (Inr (p, _, _)), st1) \<Rightarrow>
                  (case PinholeVerification req (inet_ntop6 (ph_daddr p)) (ph_dport p) of Some e \<Rightarrow> (e, st1)
                   | None \<Rightarrow>
                     (let (n, st2) = upnp_delete_inboundpinhole uid st1 in
                      if n < 0 then soap_error 501 ''ActionFailed'' st2
                      else (print_response 512 (soap_response action ns []), st2)))))) st)"

definition CheckPinholeWorking :: "soap_conf \<Rightarrow> soap_request \<Rightarrow> string \<Rightarrow> string \<Rightarrow> ip6_state \<Rightarrow> pin_handled" where
  "CheckPinholeWorking so req action ns st =
     (case CheckStatus so of Some e \<Rightarrow> (Inr e, st)
      | None \<Rightarrow> with_arguments req (\<lambda>arg st.
          (case uid_arg arg of None \<Rightarrow> soap_error 402 ''Invalid Args'' st
           | Some uid \<Rightarrow>
             (case upnp_get_pinhole_info (upnp_time (rc_env (so_rdr so))) True uid st of
                (Inl f, st1) \<Rightarrow> (Inl (Firewall f), st1)
              | (Inr (Inl n), st1) \<Rightarrow>
                  (if n = - 2 then soap_error 704 ''NoSuchEntry'' st1 else soap_error 501 ''ActionFailed'' st1)
              | (Inr (Inr (p, _, packets)), st1) \<Rightarrow>
                  (case PinholeVerification req (inet_ntop6 (ph_daddr p)) (ph_dport p) of Some e \<Rightarrow> (e, st1)
                   | None \<Rightarrow>
                     (if packets = 0 then soap_error 709 ''NoPacketSent'' st1
                      else (print_response 512 (soap_response action ns (soap_element ''IsWorking'' ''1'')), st1)))))) st)"

text \<open>An identifier that is not in use is answered as a pinhole without packets.\<close>

definition GetPinholePackets :: "soap_conf \<Rightarrow> soap_request \<Rightarrow> string \<Rightarrow> string \<Rightarrow> ip6_state \<Rightarrow> pin_handled" where
  "GetPinholePackets so req action ns st =
     (let answer = (\<lambda>n :: u32. print_response 512 (soap_response action ns (soap_element ''PinholePackets'' (dec (unat n))))) in
      case CheckStatus so of Some e \<Rightarrow> (Inr e, st)
      | None \<Rightarrow> with_arguments req (\<lambda>arg st.
          (case uid_arg arg of None \<Rightarrow> soap_error 402 ''Invalid Args'' st
           | Some uid \<Rightarrow>
             (case upnp_get_pinhole_info (upnp_time (rc_env (so_rdr so))) True uid st of
                (Inl f, st1) \<Rightarrow> (Inl (Firewall f), st1)
              | (Inr (Inl n), st1) \<Rightarrow> (answer 0, st1)
              | (Inr (Inr (p, _, packets)), st1) \<Rightarrow>
                  (case PinholeVerification req (inet_ntop6 (ph_daddr p)) (ph_dport p) of Some e \<Rightarrow> (e, st1)
                   | None \<Rightarrow> (answer packets, st1))))) st)"

end
