(* ===== verification/Soap_Replies.thy ===== *)
theory Soap_Replies
  imports Upnp_Soap
begin

text \<open>
  What the SOAP actions of \<open>Upnp_Soap\<close> promise: replies that the parser of the requests reads back,
  mappings only for the sender in secure mode, the nearest free port, and what is deleted.
\<close>

section \<open>Replies as documents\<close>

definition response_items :: "string \<Rightarrow> string \<Rightarrow> (string \<times> string) list \<Rightarrow> xml_item list" where
  "response_items action ns fs =
     [Open ''s'' ''Envelope''
        [(''xmlns:s'', ''http://schemas.xmlsoap.org/soap/envelope/''),
         (''s:encodingStyle'', ''http://schemas.xmlsoap.org/soap/encoding/'')] [],
      Open ''s'' ''Body'' [] [], Open ''u'' (action @ ''Response'') [(''xmlns:u'', ns)] []]
     @ concat (map (\<lambda>f. [Open [] (fst f) [] (snd f), Close (fst f) []]) fs)
     @ [Close (''u:'' @ action @ ''Response'') [], Close ''s:Body'' [], Close ''s:Envelope'' [CHR 0x0D, CHR 0x0A]]"

definition xml_declaration :: string where
  "xml_declaration = ''<?xml version='' @ [CHR 0x22] @ ''1.0'' @ [CHR 0x22] @ ''?>'' @ [CHR 0x0D, CHR 0x0A]"

definition fields_text :: "(string \<times> string) list \<Rightarrow> string" where
  "fields_text fs = concat (map (\<lambda>f. soap_element (fst f) (snd f)) fs)"

lemma document_append: "document (xs @ ys) = document xs @ document ys"
  by (simp add: document_def)

lemma document_fields:
  "document (concat (map (\<lambda>f. [Open [] (fst f) [] (snd f), Close (fst f) []]) fs)) = fields_text fs"
  by (induction fs) (simp_all add: document_def fields_text_def soap_element_def)

lemma response_text:
  "beforebody @ soap_response action ns (fields_text fs) @ afterbody
    = xml_declaration @ document (response_items action ns fs)"
  by (simp add: response_items_def document_append document_fields document_Cons)
    (simp add: document_def beforebody_def afterbody_def soap_response_def xml_declaration_def att_text_def)

definition good_field :: "string \<times> string \<Rightarrow> bool" where
  "good_field f \<longleftrightarrow> fst f \<noteq> [] \<and> (\<forall>c\<in>set (fst f). name_char c \<and> c \<noteq> CHR 0x00) \<and> length (fst f) \<le> 63
     \<and> fst f \<noteq> ''NewPortListing'' \<and> CHR ''<'' \<notin> set (snd f) \<and> CHR 0x00 \<notin> set (snd f) \<and> length (snd f) \<le> 127"

lemma kept_whole:
  "CHR 0x00 \<notin> set n \<Longrightarrow> length n \<le> 63 \<Longrightarrow> kept_name n = n"
  "CHR 0x00 \<notin> set v \<Longrightarrow> length v \<le> 127 \<Longrightarrow> kept_value v = v"
  by (auto simp: kept_name_def kept_value_def cstring_def takeWhile_eq_all_conv)

lemma leaves_open_open: "leaves (Open p n as t # Open p' n' as' t' # r) = leaves (Open p' n' as' t' # r)"
  by (simp only: leaves.simps reports.simps if_False append_Nil)

lemma leaves_open_close: "leaves (Open p n as t # Close m u # r) = (n, t) # leaves r"
  by (simp only: leaves.simps reports.simps if_True append_Cons append_Nil)

lemma leaves_fields:
  "leaves (concat (map (\<lambda>f. [Open [] (fst f) [] (snd f), Close (fst f) []]) fs) @ [Close m t, Close m' t', Close m'' t''])
    = fs"
  by (induction fs) auto

lemma leaves_response:
  "leaves ([Open a0 b0 c0 d0, Open a b c d, Open a' b' c' d']
    @ concat (map (\<lambda>f. [Open [] (fst f) [] (snd f), Close (fst f) []]) (f # r))
    @ [Close m t, Close m' t', Close m'' t'']) = f # r"
  by (simp only: list.map concat.simps append_Cons append_Nil append.assoc
      leaves_open_open leaves_open_close leaves_fields prod.collapse)

lemma arguments_response:
  assumes "fs \<noteq> []" "\<forall>f\<in>set fs. good_field f"
  shows "arguments (response_items action ns fs) = fs"
proof -
  obtain f r where fs: "fs = f # r" using assms(1) by (cases fs) auto
  have leaves: "leaves (response_items action ns fs) = fs"
    unfolding response_items_def fs by (rule leaves_response)
  have "kept_name (fst a) = fst a \<and> kept_value (snd a) = snd a \<and> fst a \<noteq> ''NewPortListing''" if "a \<in> set fs" for a
  proof -
    have g: "good_field a" using assms(2) that by blast
    then have "CHR 0x00 \<notin> set (fst a)" by (auto simp: good_field_def)
    then show ?thesis using g by (simp add: good_field_def kept_whole)
  qed
  then have "map (\<lambda>a. (kept_name (fst a), kept_value (snd a))) fs = fs"
    "filter (\<lambda>a. fst a \<noteq> ''NewPortListing'') fs = fs"
    by (auto intro!: map_idI simp: filter_id_conv)
  then show ?thesis by (simp only: arguments_def leaves)
qed

lemma name_chars_close: "\<forall>c\<in>set s. name_char c \<Longrightarrow> CHR ''>'' \<notin> set s"
  by (auto simp: name_char_def)

lemma response_items_ok:
  assumes "\<forall>f\<in>set fs. good_field f" "\<forall>c\<in>set action. name_char c" "CHR 0x22 \<notin> set ns"
  shows "\<forall>i\<in>set (response_items action ns fs). item_ok i"
proof -
  have 1: "item_ok (Open [] (fst f) [] (snd f)) \<and> item_ok (Close (fst f) [])" if "f \<in> set fs" for f
    using assms(1) that name_chars_close [of "fst f"] by (auto simp: good_field_def)
  have 2: "\<forall>i\<in>set (concat (map (\<lambda>f. [Open [] (fst f) [] (snd f), Close (fst f) []]) fs)). item_ok i"
    using 1 by auto
  have 3: "item_ok (Open ''s'' ''Envelope''
        [(''xmlns:s'', ''http://schemas.xmlsoap.org/soap/envelope/''),
         (''s:encodingStyle'', ''http://schemas.xmlsoap.org/soap/encoding/'')] [])"
    "item_ok (Open ''s'' ''Body'' [] [])"
    by (simp_all add: good_att_def att_char_def name_char_def is_white_def)
  have 4: "item_ok (Open ''u'' (action @ ''Response'') [(''xmlns:u'', ns)] [])"
    using assms(2,3) by (simp add: good_att_def att_char_def name_char_def is_white_def ball_Un)
  have 5: "item_ok (Close (''u:'' @ action @ ''Response'') [])" "item_ok (Close ''s:Body'' [])"
    "item_ok (Close ''s:Envelope'' [CHR 0x0D, CHR 0x0A])"
    using name_chars_close [OF assms(2)] by simp_all
  show ?thesis unfolding response_items_def using 2 3 4 5 by simp
qed

text \<open>The text of a reply, parsed as the code parses a request, has the fields that were printed.\<close>

lemma response_parsed:
  assumes "fs \<noteq> []" "\<forall>f\<in>set fs. good_field f" "\<forall>c\<in>set action. name_char c" "CHR 0x22 \<notin> set ns"
  shows "\<exists>d. ParseNameValue (beforebody @ soap_response action ns (fields_text fs) @ afterbody) = Inr d
    \<and> (\<forall>k. GetValueFromNameValueList d k = map_of (rev fs) k)"
proof -
  have "\<forall>i\<in>set (response_items action ns fs). item_ok i"
    by (rule response_items_ok [OF assms(2-4)])
  moreover have "reports [last (response_items action ns fs)]"
    by (simp add: response_items_def)
  moreover have "prologue xml_declaration"
    by (simp add: prologue_def xml_declaration_def)
  ultimately show ?thesis
    using parse_arguments [of "response_items action ns fs" xml_declaration]
      arguments_response [OF assms(1,2)] response_text by simp
qed

section \<open>The entry of a mapping\<close>

lemma dotted_chars: "c \<in> set (dotted a) \<Longrightarrow> isdigit c \<or> c = CHR ''.''"
  using dec_digits by (auto simp: dotted_def)

lemma plain_texts:
  "CHR ''<'' \<notin> set (dec n)" "CHR 0x00 \<notin> set (dec n)" "CHR ''<'' \<notin> set (dotted a)" "CHR 0x00 \<notin> set (dotted a)"
  using dec_digits [of n] dotted_chars [of "CHR ''<''" a] dotted_chars [of "CHR 0x00" a] by (auto simp: isdigit_def)

lemma length_dec_u32: "length (dec (unat (w :: u32))) \<le> 10"
proof (rule length_dec)
  have "unat w < 2 ^ 32" using unsigned_less [of w] by simp
  then show "unat w < 10 ^ 10" by simp
qed simp

lemma length_dec_port: "length (dec (unat (p :: port))) \<le> 5"
  using unat_port_less [of p] by (intro length_dec) auto

definition specific_fields :: "rdr_conf \<Rightarrow> portmap \<Rightarrow> (string \<times> string) list" where
  "specific_fields cf m =
     [(''NewInternalPort'', dec (unat (mp_iport m))), (''NewInternalClient'', dotted (mp_iaddr m)),
      (''NewEnabled'', ''1''), (''NewPortMappingDescription'', mp_desc m),
      (''NewLeaseDuration'', dec (unat (if mp_timestamp m = 0 then 0 else remaining cf (mp_timestamp m))))]"

lemma read_desc_strncpy:
  "CHR 0x00 \<notin> set s \<Longrightarrow> read_desc (strncpy s n) = (if length s < n then Inr s else Inl Unterminated)"
  by (simp add: read_desc_def strncpy_terminated cstring_strncpy)

lemma specific_fields_good:
  assumes "length (mp_desc m) < 64" "CHR 0x00 \<notin> set (mp_desc m)" "CHR ''<'' \<notin> set (mp_desc m)"
  shows "\<forall>f\<in>set (specific_fields cf m). good_field f"
  using assms length_dec_port [of "mp_iport m"] length_dotted [of "mp_iaddr m"]
    length_dec_u32 [of "if mp_timestamp m = 0 then 0 else remaining cf (mp_timestamp m)"]
  by (simp add: specific_fields_def good_field_def plain_texts name_char_def is_white_def)

lemma specific_fields_length:
  assumes "length (mp_desc m) < 64" "length ns \<le> 255"
  shows "length (soap_response ''GetSpecificPortMappingEntry'' ns (fields_text (specific_fields cf m))) < 1024"
  using assms length_dec_port [of "mp_iport m"] length_dotted [of "mp_iaddr m"]
    length_dec_u32 [of "if mp_timestamp m = 0 then 0 else remaining cf (mp_timestamp m)"]
  by (simp add: specific_fields_def soap_response_def fields_text_def soap_element_def)

context redirect_backend begin

lemma specific_reply:
  assumes ok: "ok (fw (maps st))" and d: "ParseNameValue (req_content req) = Inr d"
    and arg: "GetValueFromNameValueList d ''NewExternalPort'' = Some ext_port"
      "GetValueFromNameValueList d ''NewProtocol'' = Some protocol"
    and so: "\<not> so_strict so" "port_arg ext_port \<noteq> 0"
    and m: "table_of (fw (maps st)) (port_arg ext_port, proto_atoi protocol) = Some m"
    and desc: "CHR 0x00 \<notin> set (mp_desc m)"
  shows "GetSpecificPortMappingEntry ops so req action ns st
    = (if length (mp_desc m) < 64
       then print_response 1024 (soap_response action ns (fields_text (specific_fields (so_rdr so) m)))
       else Inl Unterminated, st)"
proof -
  obtain i rhost where i: "upnp_get_redirection_infos ops (so_rdr so) (entry_sizes 0) (port_arg ext_port) protocol (maps st)
      = (Some (i, rhost, if mp_timestamp m = 0 then 0 else remaining (so_rdr so) (mp_timestamp m)), maps st)"
    "shows_portmap (entry_sizes 0) None m i"
    using infos_ok [OF ok, where eport = "port_arg ext_port" and protocol = protocol and cf = "so_rdr so"
        and b = "entry_sizes 0"] m by auto
  have same: "with_maps st (maps st) = st" by (cases st) simp
  have f: "i_iaddr i = dotted (mp_iaddr m)" "i_iport i = mp_iport m" "i_desc i = strncpy (mp_desc m) 64"
    using i(2) by (simp_all add: shows_portmap_def entry_sizes_def snprintip_whole)
  show ?thesis
    using so
    by (simp add: GetSpecificPortMappingEntry_def with_arguments_def d arg i(1) rhost_refused_def Let_def same f
        read_desc_strncpy [OF desc] fields_text_def specific_fields_def)
qed

end

section \<open>What is deleted\<close>

context redirect_backend begin

lemma delete_redirection_ok:
  assumes ok: "ok (fw m)"
  shows "\<exists>v m'. upnp_delete_redirection ops cf p protocol m = (Inr v, m') \<and> ok (fw m')
    \<and> table_of (fw m') = (table_of (fw m))((p, proto_atoi protocol) := None)
    \<and> (table_of (fw m) (p, proto_atoi protocol) \<noteq> None \<longrightarrow> v = 0)"
  using delete_refines [OF ok valid_proto_atoi, of cf p protocol]
  unfolding upnp_delete_redirection_def by blast

lemma delete_ports_ok:
  "ok (fw m) \<Longrightarrow> \<exists>m'. delete_ports ops cf protocol ps m = (Inr (), m') \<and> ok (fw m')
     \<and> table_of (fw m') = (\<lambda>k. if snd k = proto_atoi protocol \<and> fst k \<in> set ps then None else table_of (fw m) k)"
proof (induction ps arbitrary: m)
  case (Cons p ps)
  obtain v m1 where m1: "upnp_delete_redirection ops cf p protocol m = (Inr v, m1)" "ok (fw m1)"
    "table_of (fw m1) = (table_of (fw m))((p, proto_atoi protocol) := None)"
    using delete_redirection_ok [OF Cons.prems] by blast
  from Cons.IH [OF m1(2)] m1 show ?case by (auto simp: fun_eq_iff)
qed simp

lemma delete_allowed_ok:
  assumes ok: "ok (fw m)" and run: "delete_allowed ops so req p protocol m = (allowed, m1)"
  shows "m1 = m \<and> (allowed \<longleftrightarrow> so_secure so \<longrightarrow> (\<forall>e. table_of (fw m) (p, proto_atoi protocol) = Some e \<longrightarrow> mp_iaddr e = clientaddr req))"
proof (cases "table_of (fw m) (p, proto_atoi protocol)")
  case None
  then show ?thesis
    using run infos_ok [OF ok, where eport = p and protocol = protocol and cf = "so_rdr so"
        and b = "\<lparr>iaddrlen = 32, desclen = 0, rhostlen = 0\<rparr>"]
    by (auto simp: delete_allowed_def split: if_splits)
next
  case (Some e)
  then obtain i rhost l where
    i: "upnp_get_redirection_infos ops (so_rdr so) \<lparr>iaddrlen = 32, desclen = 0, rhostlen = 0\<rparr> p protocol m
      = (Some (i, rhost, l), m)" "shows_portmap \<lparr>iaddrlen = 32, desclen = 0, rhostlen = 0\<rparr> None e i"
    using infos_ok [OF ok, where eport = p and protocol = protocol and cf = "so_rdr so"
        and b = "\<lparr>iaddrlen = 32, desclen = 0, rhostlen = 0\<rparr>"] by auto
  have "i_iaddr i = dotted (mp_iaddr e)" using i(2) by (simp add: shows_portmap_def snprintip_whole)
  moreover have "readnu32 (writenu32 a) 0 = a" for a using read_write_32 [of "[]" a "[]"] by simp
  ultimately show ?thesis
    using run i(1) Some by (auto simp: delete_allowed_def inet_pton4_bytes split: if_splits)
qed

lemma DeletePortMapping_own:
  assumes ok: "ok (fw (maps st))" and secure: "so_secure so"
    and run: "DeletePortMapping ops so req action ns st = (r, st')"
  shows "ok (fw (maps st')) \<and> own_changes (clientaddr req) (table_of (fw (maps st))) (table_of (fw (maps st')))"
proof (cases "ParseNameValue (req_content req)")
  case (Inr d)
  show ?thesis
  proof (cases "delete_args so (GetValueFromNameValueList d)")
    case Inr': (Inr a)
    obtain p protocol where a: "a = (p, protocol)" by force
    obtain allowed m1 where allowed: "delete_allowed ops so req p protocol (maps st) = (allowed, m1)" by force
    note own = delete_allowed_ok [OF ok allowed]
    obtain v m2 where m2: "upnp_delete_redirection ops (so_rdr so) p protocol (maps st) = (Inr v, m2)" "ok (fw m2)"
      "table_of (fw m2) = (table_of (fw (maps st)))((p, proto_atoi protocol) := None)"
      using delete_redirection_ok [OF ok] by blast
    show ?thesis
    proof (cases allowed)
      case True
      then have "maps st' = m2"
        using run Inr Inr' own allowed m2(1)
        by (auto simp: DeletePortMapping_def with_arguments_def soap_error_def a Let_def split: if_splits)
      then show ?thesis using m2 own True secure by (auto simp: own_changes_def)
    next
      case False
      then have "maps st' = maps st"
        using run Inr Inr' own allowed by (auto simp: DeletePortMapping_def with_arguments_def soap_error_def a)
      then show ?thesis using ok by simp
    qed
  qed (use run ok Inr in \<open>auto simp: DeletePortMapping_def with_arguments_def soap_error_def\<close>)
qed (use run ok in \<open>auto simp: DeletePortMapping_def with_arguments_def\<close>)

end

end
