(* ===== verification/Soap_Mappings.thy ===== *)
theory Soap_Mappings
  imports Soap_Replies
begin

text \<open>
  What the SOAP actions do to the table of port mappings, on the netfilter tables: whose mappings a
  request can change in secure mode, which port \<^verbatim>\<open>AddAnyPortMapping\<close> reserves, what a range deletion
  removes, and two inputs the actions do not serve.
\<close>

section \<open>Sample requests\<close>

text \<open>A request whose content is the envelope of the given arguments.\<close>

definition request_text :: "string \<Rightarrow> (string \<times> string) list \<Rightarrow> string" where
  "request_text action args = beforebody @ soap_response action ''urn:x'' (fields_text args) @ afterbody"

lemma request_text_parsed:
  assumes "args \<noteq> []" "\<forall>f\<in>set args. good_field f" "\<forall>c\<in>set action. name_char c"
  shows "\<exists>d. ParseNameValue (request_text action args) = Inr d \<and> GetValueFromNameValueList d = map_of (rev args)"
  using response_parsed [OF assms, of "''urn:x''"] by (auto simp: request_text_def fun_eq_iff)

definition sample_soap :: soap_conf where
  "sample_soap = \<lparr>so_rdr = sample_conf, so_igd_v2 = True, so_strict = False, so_remotehost = False, so_secure = True,
     so_resolve = Map.empty, so_random = 0, so_use_ext_ip_addr = None, so_ifaddr = None, so_ifstats = None,
     so_startup_time = 0, so_uuid_wcd = ''uuid:00000000-0000-0000-0000-000000000000'', so_6fc_disabled = False, so_6fc_disallowed = False,
     so_ext_if_name6 = None, so_resolve6 = (\<lambda>_ _. None), so_l3f_service = True, so_6fc_service = True,
     so_dp_service = False\<rparr>"

definition sample_request :: "ipv4 \<Rightarrow> string \<Rightarrow> (string \<times> string) list \<Rightarrow> soap_request" where
  "sample_request addr action args = \<lparr>req_content = request_text action args, clientaddr = addr,
     clientaddr_str = sockaddr_to_string 64 addr 40000, clientaddr_v6 = 0, req_peercert = False\<rparr>"

definition soap_start :: "nf \<Rightarrow> nf soap_state" where
  "soap_start f = \<lparr>maps = start_state f, downstream_bitrate = 0, upstream_bitrate = 0\<rparr>"

lemma sample_soap_simps [simp]:
  "so_rdr sample_soap = sample_conf" "so_secure sample_soap" "\<not> so_strict sample_soap" "\<not> so_remotehost sample_soap"
  by (simp_all add: sample_soap_def)

lemma sample_request_simps [simp]:
  "clientaddr (sample_request addr action args) = addr"
  "clientaddr_str (sample_request addr action args) = sockaddr_to_string 64 addr 40000"
  by (simp_all add: sample_request_def)

lemma soap_start_fw [simp]: "fw (maps (soap_start f)) = f"
  by (simp add: soap_start_def)

lemmas field_simps = good_field_def name_char_def is_white_def

lemma sample_request_parsed:
  assumes "args \<noteq> []" "\<forall>f\<in>set args. good_field f" "\<forall>c\<in>set action. name_char c"
  shows "\<exists>d. ParseNameValue (req_content (sample_request addr action args)) = Inr d
    \<and> GetValueFromNameValueList d = map_of (rev args)"
  using request_text_parsed [OF assms] by (simp add: sample_request_def)

section \<open>Secure mode\<close>

text \<open>In secure mode a request to add or to delete a mapping, whatever it says, changes only mappings
  to the address it came from: the mappings of other clients stay as they are.\<close>

theorem secure_mode_keeps_others:
  assumes "nf_ok (fw (maps st))" and "so_secure so"
    and "inet_aton (clientaddr_str req) \<in> {None, Some (clientaddr req)}"
    and "(r, st') \<in> {AddPortMapping netfilter_ops so req action ns st, AddAnyPortMapping netfilter_ops so req action ns st,
        DeletePortMapping netfilter_ops so req action ns st}"
  shows "nf_ok (fw (maps st')) \<and> own_changes (clientaddr req) (nf_table (fw (maps st))) (nf_table (fw (maps st')))"
  using assms(4) netfilter.AddPortMapping_grants [OF assms(1-3)] netfilter.AddAnyPortMapping_grants [OF assms(1,2)]
    netfilter.DeletePortMapping_own [OF assms(1,2)]
  by (metis insertE emptyE)

theorem secure_mode_keeps_others_witness:
  "nf_table (fw (maps (snd (DeletePortMapping netfilter_ops sample_soap
      (sample_request 167772163 ''DeletePortMapping'' [(''NewExternalPort'', ''8080''), (''NewProtocol'', ''TCP'')])
      ''DeletePortMapping'' ''urn:x'' (soap_start one_nf))))) (8080, IPPROTO_TCP)
    = Some (new_portmap None ''10.0.0.2'' 80 (Some ''web'') 0)"
proof -
  let ?req = "sample_request 167772163 ''DeletePortMapping'' [(''NewExternalPort'', ''8080''), (''NewProtocol'', ''TCP'')]"
  obtain r st' where run: "DeletePortMapping netfilter_ops sample_soap ?req ''DeletePortMapping'' ''urn:x'' (soap_start one_nf)
      = (r, st')" by force
  have "nf_ok (fw (maps (soap_start one_nf)))" by (simp add: one_nf_ok)
  moreover have "inet_aton (clientaddr_str ?req) \<in> {None, Some (clientaddr ?req)}"
    by (simp add: sockaddr_not_an_address)
  moreover have "(r, st') \<in> {AddPortMapping netfilter_ops sample_soap ?req ''DeletePortMapping'' ''urn:x'' (soap_start one_nf),
      AddAnyPortMapping netfilter_ops sample_soap ?req ''DeletePortMapping'' ''urn:x'' (soap_start one_nf),
      DeletePortMapping netfilter_ops sample_soap ?req ''DeletePortMapping'' ''urn:x'' (soap_start one_nf)}"
    unfolding run by (rule insertI2 [OF insertI2 [OF insertI1]])
  ultimately have "own_changes (clientaddr ?req) (nf_table (fw (maps (soap_start one_nf)))) (nf_table (fw (maps st')))"
    using secure_mode_keeps_others [OF _ sample_soap_simps(2)] by blast
  then have "own_changes 167772163 (nf_table one_nf) (nf_table (fw (maps st')))" by simp
  moreover have "mp_iaddr (new_portmap None ''10.0.0.2'' 80 (Some ''web'') 0) \<noteq> 167772163"
    by simp
  ultimately show ?thesis
    unfolding run snd_conv using own_changes_map [of 167772163 "nf_table one_nf" "nf_table (fw (maps st'))"] by (simp add: one_nf_table)
qed

section \<open>The port that is reserved\<close>

text \<open>C19: An accepted \<^verbatim>\<open>AddAnyPortMapping\<close> request reserves, of all ports that can be mapped for its client,
  one nearest to the requested port, and answers with its number; when no port can be mapped it
  answers 728 and leaves the mappings as they are.\<close>

theorem any_port_mapping_nearest:
  assumes "nf_ok (fw (maps st))" and "ParseNameValue (req_content req) = Inr d"
    and "any_args so req (GetValueFromNameValueList d) = Inr a" and "\<not> rc_disabled (so_rdr so)"
  defines "T \<equiv> nf_table (fw (maps st))"
  defines "free \<equiv> can_map (so_rdr so) T (ma_rhost a) (ma_ip a) (ma_iport a) (ma_protocol a)"
  shows "\<exists>e m. nf_ok (fw m) \<and> (if \<exists>p. p \<noteq> 0 \<and> free p
    then AddAnyPortMapping netfilter_ops so req action ns st
        = (print_response 512 (soap_response action ns (soap_element ''NewReservedPort'' (dec (unat e)))), st\<lparr>maps := m\<rparr>)
      \<and> e \<noteq> 0 \<and> free e \<and> (\<forall>p. p \<noteq> 0 \<and> free p \<longrightarrow> port_distance (ma_eport a) e \<le> port_distance (ma_eport a) p)
      \<and> nf_table (fw m) = snd (spec_redirect (so_rdr so) (ma_rhost a) e (ma_ip a) (ma_iport a) (ma_protocol a)
          (ma_desc a) (ma_lease a) T)
    else AddAnyPortMapping netfilter_ops so req action ns st = (Inr (SoapError 728 ''NoPortMapsAvailable''), st\<lparr>maps := m\<rparr>)
      \<and> nf_table (fw m) = T)"
proof -
  obtain b where client: "internal_client so (the (GetValueFromNameValueList d ''NewInternalClient'')) = Some (ma_ip a, b)"
    and port: "ma_eport a \<noteq> 0" using any_args_client [OF assms(3)] by blast
  have addr: "inet_aton (ma_ip a) = Some b" by (rule internal_client_addr [OF client])
  obtain r e m where run: "any_redirect netfilter_ops (so_rdr so) (ma_rhost a) (ma_eport a) (ma_ip a) (ma_iport a)
      (ma_protocol a) (ma_desc a) (ma_lease a) (maps st) = (r, e, m)" and ok: "nf_ok (fw m)"
    and out: "if \<exists>p. p \<noteq> 0 \<and> free p
       then r = 0 \<and> e \<noteq> 0 \<and> free e \<and> (\<forall>p. p \<noteq> 0 \<and> free p \<longrightarrow> port_distance (ma_eport a) e \<le> port_distance (ma_eport a) p)
         \<and> nf_table (fw m) = snd (spec_redirect (so_rdr so) (ma_rhost a) e (ma_ip a) (ma_iport a) (ma_protocol a)
             (ma_desc a) (ma_lease a) T)
       else r = 1 \<and> nf_table (fw m) = T"
    using netfilter.any_redirect_outcome [OF assms(1) addr assms(4) port, of "ma_rhost a" "ma_iport a" "ma_protocol a"
        "ma_desc a" "ma_lease a"]
    unfolding T_def free_def by blast
  have "AddAnyPortMapping netfilter_ops so req action ns st = (any_reply action ns r e, st\<lparr>maps := m\<rparr>)"
    using run by (simp add: AddAnyPortMapping_def with_arguments_def assms(2,3))
  then show ?thesis using ok out by (intro exI [of _ e] exI [of _ m]) (auto simp: any_reply_def)
qed

definition any_fields :: "(string \<times> string) list" where
  "any_fields = [(''NewInternalClient'', dotted 167772163), (''NewExternalPort'', ''22''), (''NewInternalPort'', ''22''),
     (''NewProtocol'', ''TCP'')]"

lemma any_fields_good: "any_fields \<noteq> []" "\<forall>f\<in>set any_fields. good_field f"
  using length_dotted [of 167772163] by (simp_all add: any_fields_def field_simps plain_texts)

lemma port_arg_22: "port_arg ''22'' = 22"
  by (simp add: port_arg_def) code_simp

lemma any_fields_args:
  "any_args sample_soap (sample_request 167772163 action any_fields) (map_of (rev any_fields)) = Inr
     \<lparr>ma_rhost = None, ma_eport = 22, ma_ip = dotted 167772163, ma_iport = 22, ma_protocol = ''TCP'', ma_desc = None,
      ma_lease = 604800\<rparr>"
proof -
  have "is_numeric ''22''" by (simp add: is_numeric_def isdigit_def)
  moreover have "internal_client sample_soap (dotted 167772163) = Some (dotted 167772163, 167772163)"
    using read_write_32 [of "[]" 167772163 "[]"] by (simp add: internal_client_def inet_pton4_bytes)
  moreover have "rhost_refused sample_soap None \<longleftrightarrow> False" by (simp add: rhost_refused_def)
  ultimately show ?thesis
    by (simp add: any_args_def any_fields_def wanted_port_def port_arg_22 lease_arg_def)
qed

theorem any_port_mapping_nearest_witness:
  "\<exists>(e :: port) m. AddAnyPortMapping netfilter_ops sample_soap (sample_request 167772163 ''AddAnyPortMapping'' any_fields)
      ''AddAnyPortMapping'' ''urn:x'' (soap_start one_nf)
    = (print_response 512 (soap_response ''AddAnyPortMapping'' ''urn:x'' (soap_element ''NewReservedPort'' (dec (unat e)))),
       (soap_start one_nf)\<lparr>maps := m\<rparr>) \<and> e \<noteq> 0"
proof -
  let ?req = "sample_request 167772163 ''AddAnyPortMapping'' any_fields"
  have "\<forall>c\<in>set ''AddAnyPortMapping''. name_char c" by (simp add: field_simps)
  then obtain d where d: "ParseNameValue (req_content ?req) = Inr d" "GetValueFromNameValueList d = map_of (rev any_fields)"
    using sample_request_parsed [OF any_fields_good] by blast
  have "any_args sample_soap ?req (GetValueFromNameValueList d) = Inr
     \<lparr>ma_rhost = None, ma_eport = 22, ma_ip = dotted 167772163, ma_iport = 22, ma_protocol = ''TCP'', ma_desc = None,
      ma_lease = 604800\<rparr>" unfolding d(2) by (rule any_fields_args)
  note nearest = any_port_mapping_nearest [OF _ d(1) this, of "soap_start one_nf" "''AddAnyPortMapping''" "''urn:x''"]
  have "can_map sample_conf (nf_table one_nf) None (dotted 167772163) 22 ''TCP'' 22"
    by (simp add: can_map_def spec_redirect_def inet_aton_dotted one_nf_table sample_conf_def)
  then have free: "\<exists>p. p \<noteq> 0 \<and> can_map sample_conf (nf_table one_nf) None (dotted 167772163) 22 ''TCP'' p"
    by (intro exI [of _ 22]) simp
  have "\<not> rc_disabled sample_conf" by (simp add: sample_conf_def)
  from nearest [unfolded sample_soap_simps soap_start_fw mapping_args.select_convs, OF one_nf_ok this]
  show ?thesis unfolding if_P [OF free] by blast
qed

section \<open>Deleting a range\<close>

text \<open>\<^verbatim>\<open>DeletePortMappingRange\<close> removes the mappings of its protocol with an external port in the range,
  whoever they belong to and also in secure mode, and nothing else; when there is none it answers 730.\<close>

theorem range_deletion_exact:
  assumes "nf_ok (fw (maps st))" and "ParseNameValue (req_content req) = Inr d"
    and "range_args (GetValueFromNameValueList d) = Inr (lo, hi, protocol)"
  defines "hit \<equiv> (\<lambda>k :: port \<times> int. snd k = proto_atoi protocol \<and> lo \<le> fst k \<and> fst k \<le> hi)"
  shows "\<exists>r m. DeletePortMappingRange netfilter_ops so req action ns st = (r, st\<lparr>maps := m\<rparr>) \<and> nf_ok (fw m)
    \<and> nf_table (fw m) = (\<lambda>k. if hit k then None else nf_table (fw (maps st)) k)
    \<and> (r = Inr (SoapError 730 ''PortMappingNotFound'') \<or> r = print_response 512 (soap_response action ns []))
    \<and> (r = Inr (SoapError 730 ''PortMappingNotFound'') \<longleftrightarrow> (\<forall>k. hit k \<longrightarrow> nf_table (fw (maps st)) k = None))"
proof -
  have same: "(maps st)\<lparr>fw := fw (maps st)\<rparr> = maps st" by (cases "maps st") simp
  obtain l where l: "op_in_range netfilter_ops lo hi (proto_atoi protocol) (fw (maps st)) = (Some l, fw (maps st))"
    "set l = {p. lo \<le> p \<and> p \<le> hi \<and> nf_table (fw (maps st)) (p, proto_atoi protocol) \<noteq> None}"
    using netfilter.in_range [OF assms(1)] by blast
  then have list: "upnp_get_portmappings_in_range netfilter_ops lo hi protocol (maps st) = (Some l, maps st)"
    by (simp add: upnp_get_portmappings_in_range_def same)
  obtain m where m: "delete_ports netfilter_ops (so_rdr so) protocol l (maps st) = (Inr (), m)" "nf_ok (fw m)"
    "nf_table (fw m) = (\<lambda>k. if snd k = proto_atoi protocol \<and> fst k \<in> set l then None else nf_table (fw (maps st)) k)"
    using netfilter.delete_ports_ok [OF assms(1)] by blast
  have table: "nf_table (fw m) = (\<lambda>k. if hit k then None else nf_table (fw (maps st)) k)"
    unfolding m(3) l(2) hit_def by (auto simp: fun_eq_iff)
  have none: "l = [] \<longleftrightarrow> (\<forall>k. hit k \<longrightarrow> nf_table (fw (maps st)) k = None)"
    using l(2) unfolding set_empty [symmetric] hit_def by auto
  have run: "DeletePortMappingRange netfilter_ops so req action ns st
      = (if l = [] then (Inr (SoapError 730 ''PortMappingNotFound''), st\<lparr>maps := maps st\<rparr>)
         else (print_response 512 (soap_response action ns []), st\<lparr>maps := m\<rparr>))"
    using list m(1) by (simp add: DeletePortMappingRange_def with_arguments_def assms(2,3) soap_error_def)
  have differ: "print_response 512 t \<noteq> Inr (SoapError 730 ''PortMappingNotFound'')" for t
    by (simp add: print_response_def)
  show ?thesis
  proof (cases "l = []")
    case True
    then show ?thesis using run none assms(1) by (intro exI [of _ "Inr (SoapError 730 ''PortMappingNotFound'')"] exI [of _ "maps st"]) auto
  next
    case False
    then show ?thesis using run none m(2) table differ
      by (intro exI [of _ "print_response 512 (soap_response action ns [])"] exI [of _ m]) auto
  qed
qed

definition range_fields :: "(string \<times> string) list" where
  "range_fields = [(''NewStartPort'', ''22''), (''NewEndPort'', ''22''), (''NewProtocol'', ''TCP'')]"

theorem range_deletion_exact_witness:
  "\<exists>r m. DeletePortMappingRange netfilter_ops sample_soap (sample_request 167772163 ''DeletePortMappingRange'' range_fields)
      ''DeletePortMappingRange'' ''urn:x'' (soap_start one_nf) = (r, (soap_start one_nf)\<lparr>maps := m\<rparr>) \<and> nf_table (fw m) = nf_table one_nf"
proof -
  let ?req = "sample_request 167772163 ''DeletePortMappingRange'' range_fields"
  have good: "range_fields \<noteq> []" "\<forall>f\<in>set range_fields. good_field f" "\<forall>c\<in>set ''DeletePortMappingRange''. name_char c"
    by (simp_all add: range_fields_def field_simps)
  obtain d where d: "ParseNameValue (req_content ?req) = Inr d" "GetValueFromNameValueList d = map_of (rev range_fields)"
    using sample_request_parsed [OF good] by blast
  have "range_args (GetValueFromNameValueList d) = Inr (22, 22, ''TCP'')"
    unfolding d(2) by (simp add: range_args_def range_fields_def is_numeric_def isdigit_def port_arg_22)
  then obtain r m where "DeletePortMappingRange netfilter_ops sample_soap ?req ''DeletePortMappingRange'' ''urn:x'' (soap_start one_nf)
      = (r, (soap_start one_nf)\<lparr>maps := m\<rparr>)"
    "nf_table (fw m) = (\<lambda>k. if snd k = proto_atoi ''TCP'' \<and> 22 \<le> fst k \<and> fst k \<le> 22 then None else nf_table one_nf k)"
    using range_deletion_exact [of "soap_start one_nf" ?req d 22 22 "''TCP''" sample_soap "''DeletePortMappingRange''" "''urn:x''"]
      one_nf_ok d(1) by (simp only: soap_start_fw simp_thms) blast
  then show ?thesis by (intro exI [of _ r] exI [of _ m]) (auto simp: fun_eq_iff one_nf_table)
qed

section \<open>Requests without a client address\<close>

text \<open>An \<^verbatim>\<open>AddPortMapping\<close> request that leaves the internal client empty, so that the sender's address
  is to be used, is never granted: the text kept for the sender has the port appended, which is no
  address. The request ends in an error and nothing changes.\<close>

theorem empty_client_never_mapped:
  assumes "\<not> so_strict so" and "ParseNameValue (req_content req) = Inr d"
    and "map_option (dropWhile (\<lambda>c. c = CHR '' '')) (GetValueFromNameValueList d ''NewInternalClient'') \<in> {None, Some []}"
    and "clientaddr_str req = sockaddr_to_string 64 (clientaddr req) port"
  shows "\<exists>code desc. AddPortMapping ops so req action ns st = (Inr (SoapError code desc), st)"
proof (cases "add_args so req (GetValueFromNameValueList d)")
  case (Inl e)
  then show ?thesis
    by (cases e) (simp add: AddPortMapping_def with_arguments_def assms(2) soap_error_def)
next
  case (Inr a)
  have same: "st\<lparr>maps := maps st\<rparr> = st" by (cases st) simp
  define c where "c = map_option (dropWhile (\<lambda>c. c = CHR '' '')) (GetValueFromNameValueList d ''NewInternalClient'')"
  obtain b where "mapping_client so req c = Some (ma_ip a, b)" unfolding c_def using add_args_client [OF Inr] by blast
  moreover have "c = None \<or> c = Some []" using assms(3) unfolding c_def by blast
  ultimately have "ma_ip a = sockaddr_to_string 64 (clientaddr req) port"
    using assms(1,4) by (auto simp: mapping_client_def)
  then have "inet_aton (ma_ip a) = None" by (simp add: sockaddr_not_an_address)
  then have "upnp_redirect ops (so_rdr so) (ma_rhost a) (ma_eport a) (ma_ip a) (ma_iport a) (ma_protocol a) (ma_desc a)
      (ma_lease a) (maps st) = (- 1, maps st)" by (simp add: upnp_redirect_def)
  moreover have "add_reply so action ns (- 1) = Inr (SoapError 501 ''ActionFailed'')" by (simp add: add_reply_def)
  ultimately have "AddPortMapping ops so req action ns st = (Inr (SoapError 501 ''ActionFailed''), st)"
    by (simp only: AddPortMapping_def with_arguments_def assms(2) Inr sum.case Let_def prod.case same)
  then show ?thesis by blast
qed

theorem empty_client_never_mapped_witness:
  "\<exists>code desc. AddPortMapping netfilter_ops sample_soap (sample_request 167772163 ''AddPortMapping'' range_fields)
      ''AddPortMapping'' ''urn:x'' (soap_start one_nf) = (Inr (SoapError code desc), soap_start one_nf)"
proof -
  let ?req = "sample_request 167772163 ''AddPortMapping'' range_fields"
  have good: "range_fields \<noteq> []" "\<forall>f\<in>set range_fields. good_field f" "\<forall>c\<in>set ''AddPortMapping''. name_char c"
    by (simp_all add: range_fields_def field_simps)
  obtain d where d: "ParseNameValue (req_content ?req) = Inr d" "GetValueFromNameValueList d = map_of (rev range_fields)"
    using sample_request_parsed [OF good] by blast
  show ?thesis
    by (rule empty_client_never_mapped [OF _ d(1)]) (simp_all add: d(2) range_fields_def)
qed

section \<open>Long descriptions\<close>

text \<open>A description of 64 characters or more (a request may carry 127) fills the array of the reply
  without a terminator: asked for such a mapping, the server prints memory behind the array.\<close>

theorem long_description_unterminated:
  assumes "nf_ok (fw (maps st))" and "ParseNameValue (req_content req) = Inr d"
    and "GetValueFromNameValueList d ''NewExternalPort'' = Some ext_port"
    and "GetValueFromNameValueList d ''NewProtocol'' = Some protocol"
    and "\<not> so_strict so" and "port_arg ext_port \<noteq> 0"
    and "nf_table (fw (maps st)) (port_arg ext_port, proto_atoi protocol) = Some m"
    and "64 \<le> length (mp_desc m)" and "CHR 0x00 \<notin> set (mp_desc m)"
  shows "GetSpecificPortMappingEntry netfilter_ops so req action ns st = (Inl Unterminated, st)"
  using netfilter.specific_reply [OF assms(1-7,9), of action ns] assms(8) by simp

theorem long_description_unterminated_witness:
  "\<exists>f. nf_ok f \<and> GetSpecificPortMappingEntry netfilter_ops sample_soap
      (sample_request 167772163 ''GetSpecificPortMappingEntry'' [(''NewExternalPort'', ''22''), (''NewProtocol'', ''TCP'')])
      ''GetSpecificPortMappingEntry'' ''urn:x'' (soap_start f) = (Inl Unterminated, soap_start f)"
proof -
  let ?args = "[(''NewExternalPort'', ''22''), (''NewProtocol'', ''TCP'')]"
  let ?req = "sample_request 167772163 ''GetSpecificPortMappingEntry'' ?args"
  let ?desc = "replicate 64 CHR ''d''"
  have good: "?args \<noteq> []" "\<forall>f\<in>set ?args. good_field f" "\<forall>c\<in>set ''GetSpecificPortMappingEntry''. name_char c"
    by (simp_all add: field_simps)
  obtain d where d: "ParseNameValue (req_content ?req) = Inr d" "GetValueFromNameValueList d = map_of (rev ?args)"
    using sample_request_parsed [OF good] by blast
  obtain s1 f where f: "nf_ok f"
    "nf_table f = (nf_table empty_nf)((22, IPPROTO_TCP) \<mapsto> new_portmap None ''10.0.0.2'' 80 (Some ?desc) 0)"
    using nf_add [OF empty_nf_ok valid_tcp empty_nf_table, where eport = 22 and rhost = None and iaddr = "''10.0.0.2''"
        and iport = 80 and desc = "Some ?desc" and ts = 0] by blast
  have "GetSpecificPortMappingEntry netfilter_ops sample_soap ?req ''GetSpecificPortMappingEntry'' ''urn:x'' (soap_start f)
      = (Inl Unterminated, soap_start f)"
    by (rule long_description_unterminated [OF _ d(1), where ext_port = "''22''" and protocol = "''TCP''"
          and m = "new_portmap None ''10.0.0.2'' 80 (Some ?desc) 0"])
      (simp_all add: f d(2) port_arg_22 new_portmap_def desc_or_default_def)
  then show ?thesis using f(1) by blast
qed

section \<open>The reply of a lookup\<close>

text \<open>Asked for a mapping by its port and protocol, the server answers with a SOAP envelope in which a
  client that reads XML the way this server does finds the internal port, the client address, the
  description and the remaining lease of that mapping.\<close>

theorem specific_entry_reply:
  assumes "nf_ok (fw (maps st))" and "ParseNameValue (req_content req) = Inr d"
    and "GetValueFromNameValueList d ''NewExternalPort'' = Some ext_port"
    and "GetValueFromNameValueList d ''NewProtocol'' = Some protocol"
    and "\<not> so_strict so" and "port_arg ext_port \<noteq> 0"
    and "nf_table (fw (maps st)) (port_arg ext_port, proto_atoi protocol) = Some m"
    and "length (mp_desc m) < 64" and "CHR 0x00 \<notin> set (mp_desc m)" and "CHR ''<'' \<notin> set (mp_desc m)"
    and "length ns \<le> 255" and "CHR 0x22 \<notin> set ns"
  shows "\<exists>text d'. GetSpecificPortMappingEntry netfilter_ops so req ''GetSpecificPortMappingEntry'' ns st
      = (Inr (Response text), st)
    \<and> ParseNameValue text = Inr d'
    \<and> GetValueFromNameValueList d' ''NewInternalPort'' = Some (dec (unat (mp_iport m)))
    \<and> GetValueFromNameValueList d' ''NewInternalClient'' = Some (dotted (mp_iaddr m))
    \<and> GetValueFromNameValueList d' ''NewPortMappingDescription'' = Some (mp_desc m)
    \<and> GetValueFromNameValueList d' ''NewLeaseDuration'' = Some (dec (unat
        (if mp_timestamp m = 0 then 0 else remaining (so_rdr so) (mp_timestamp m))))"
proof -
  let ?fs = "specific_fields (so_rdr so) m" and ?a = "''GetSpecificPortMappingEntry''"
  have "\<forall>c\<in>set ?a. name_char c" by (simp add: name_char_def is_white_def)
  then obtain d' where d': "ParseNameValue (beforebody @ soap_response ?a ns (fields_text ?fs) @ afterbody) = Inr d'"
    "\<forall>k. GetValueFromNameValueList d' k = map_of (rev ?fs) k"
    using response_parsed [of ?fs ?a ns] specific_fields_good [OF assms(8-10)] assms(12)
    by (auto simp: specific_fields_def)
  have "GetSpecificPortMappingEntry netfilter_ops so req ?a ns st
      = (Inr (Response (beforebody @ soap_response ?a ns (fields_text ?fs) @ afterbody)), st)"
    using netfilter.specific_reply [OF assms(1-7,9), of ?a ns] specific_fields_length [OF assms(8,11), of "so_rdr so"] assms(8)
    by (simp add: print_response_def)
  then show ?thesis using d' by (auto simp: specific_fields_def)
qed

theorem specific_entry_reply_witness:
  "\<exists>text d'. GetSpecificPortMappingEntry netfilter_ops sample_soap
      (sample_request 167772163 ''GetSpecificPortMappingEntry'' [(''NewExternalPort'', ''8080''), (''NewProtocol'', ''TCP'')])
      ''GetSpecificPortMappingEntry'' ''urn:x'' (soap_start one_nf) = (Inr (Response text), soap_start one_nf)
    \<and> ParseNameValue text = Inr d'
    \<and> GetValueFromNameValueList d' ''NewInternalClient'' = Some (dotted 167772162)
    \<and> GetValueFromNameValueList d' ''NewPortMappingDescription'' = Some ''web''"
proof -
  let ?args = "[(''NewExternalPort'', ''8080''), (''NewProtocol'', ''TCP'')]"
  let ?req = "sample_request 167772163 ''GetSpecificPortMappingEntry'' ?args"
  let ?m = "new_portmap None ''10.0.0.2'' 80 (Some ''web'') 0"
  have good: "?args \<noteq> []" "\<forall>f\<in>set ?args. good_field f" "\<forall>c\<in>set ''GetSpecificPortMappingEntry''. name_char c"
    by (simp_all add: field_simps)
  obtain d where d: "ParseNameValue (req_content ?req) = Inr d" "GetValueFromNameValueList d = map_of (rev ?args)"
    using sample_request_parsed [OF good] by blast
  have port: "port_arg ''8080'' = 8080" by (simp add: port_arg_def) code_simp
  have desc: "mp_desc ?m = ''web''" by (simp add: new_portmap_def desc_or_default_def)
  have "\<exists>text d'. GetSpecificPortMappingEntry netfilter_ops sample_soap ?req ''GetSpecificPortMappingEntry'' ''urn:x'' (soap_start one_nf)
      = (Inr (Response text), soap_start one_nf)
    \<and> ParseNameValue text = Inr d'
    \<and> GetValueFromNameValueList d' ''NewInternalPort'' = Some (dec (unat (mp_iport ?m)))
    \<and> GetValueFromNameValueList d' ''NewInternalClient'' = Some (dotted (mp_iaddr ?m))
    \<and> GetValueFromNameValueList d' ''NewPortMappingDescription'' = Some (mp_desc ?m)
    \<and> GetValueFromNameValueList d' ''NewLeaseDuration'' = Some (dec (unat
        (if mp_timestamp ?m = 0 then 0 else remaining (so_rdr sample_soap) (mp_timestamp ?m))))"
    by (rule specific_entry_reply [OF _ d(1), where ext_port = "''8080''" and protocol = "''TCP''"])
      (simp_all add: one_nf_ok one_nf_table d(2) port desc)
  then show ?thesis unfolding desc one_nf_client by blast
qed

end
