(* ===== verification/Soap_Server.thy ===== *)
theory Soap_Server
  imports Pinhole_Soap Soap_Mappings
begin

text \<open>
  The dispatch of \<^verbatim>\<open>upnpsoap.c\<close>: the table of the methods and \<^verbatim>\<open>ExecuteSoapAction\<close>, which finds the method
  a \<^verbatim>\<open>SOAPAction\<close> header names. The requests change the mappings only by the steps of \<open>Upnp_Redirect\<close>.
\<close>

section \<open>The table of methods\<close>

record 'st igd_state =
  ig_soap :: "'st soap_state"
  ig_pins :: ip6_state

type_synonym 'st igd_result = "((soap_fault + soap_reply) \<times> 'st igd_state) option"

definition on_soap :: "('st soap_state \<Rightarrow> 'st handled option) \<Rightarrow> 'st igd_state \<Rightarrow> 'st igd_result" where
  "on_soap h s = map_option (\<lambda>(r, st). (r, s\<lparr>ig_soap := st\<rparr>)) (h (ig_soap s))"

definition on_pins :: "(ip6_state \<Rightarrow> pin_handled option) \<Rightarrow> 'st igd_state \<Rightarrow> 'st igd_result" where
  "on_pins h s = map_option (\<lambda>(r, st). (r, s\<lparr>ig_pins := st\<rparr>)) (h (ig_pins s))"

text \<open>A handler takes the name of its method and the namespace of the header.\<close>

definition soapMethods ::
  "'st fw_ops \<Rightarrow> soap_conf \<Rightarrow> soap_request \<Rightarrow> (string \<times> (string \<Rightarrow> string \<Rightarrow> 'st igd_state \<Rightarrow> 'st igd_result)) list" where
  "soapMethods ops so req =
     (let soap = (\<lambda>h a n. on_soap (\<lambda>st. Some (h a n st))); pins = (\<lambda>h a n. on_pins (\<lambda>st. Some (h a n st))) in
      [(''QueryStateVariable'', \<lambda>a n. on_soap (QueryStateVariable ops so req a n)),
       (''GetTotalBytesSent'', soap (GetTotalBytesSent so)),
       (''GetTotalBytesReceived'', soap (GetTotalBytesReceived so)),
       (''GetTotalPacketsSent'', soap (GetTotalPacketsSent so)),
       (''GetTotalPacketsReceived'', soap (GetTotalPacketsReceived so)),
       (''GetCommonLinkProperties'', soap (GetCommonLinkProperties so)),
       (''GetStatusInfo'', soap (GetStatusInfo so)),
       (''GetConnectionTypeInfo'', soap GetConnectionTypeInfo),
       (''GetNATRSIPStatus'', soap GetNATRSIPStatus),
       (''GetExternalIPAddress'', soap (GetExternalIPAddress so)),
       (''AddPortMapping'', soap (AddPortMapping ops so req)),
       (''DeletePortMapping'', soap (DeletePortMapping ops so req)),
       (''GetGenericPortMappingEntry'', soap (GetGenericPortMappingEntry ops so req)),
       (''GetSpecificPortMappingEntry'', soap (GetSpecificPortMappingEntry ops so req)),
       (''SetConnectionType'', soap (\<lambda>_ _. SetConnectionType so req)),
       (''RequestConnection'', soap (\<lambda>_ _. RequestConnection)),
       (''ForceTermination'', soap (\<lambda>_ _. ForceTermination)),
       (''AddAnyPortMapping'', soap (AddAnyPortMapping ops so req)),
       (''DeletePortMappingRange'', soap (DeletePortMappingRange ops so req)),
       (''GetListOfPortMappings'', soap (GetListOfPortMappings ops so req))]
      @ (if so_l3f_service so then
           [(''SetDefaultConnectionService'', soap (SetDefaultConnectionService so req)),
            (''GetDefaultConnectionService'', soap (GetDefaultConnectionService so))] else [])
      @ (if so_6fc_service so then
           [(''GetFirewallStatus'', pins (GetFirewallStatus so)),
            (''AddPinhole'', \<lambda>a n. on_pins (AddPinhole so req a n)),
            (''UpdatePinhole'', pins (UpdatePinhole so req)),
            (''GetOutboundPinholeTimeout'', pins (\<lambda>_ _. GetOutboundPinholeTimeout so req)),
            (''DeletePinhole'', pins (DeletePinhole so req)),
            (''CheckPinholeWorking'', pins (CheckPinholeWorking so req)),
            (''GetPinholePackets'', pins (GetPinholePackets so req))] else [])
      @ (if so_dp_service so then
           [(''SendSetupMessage'', soap (SendSetupMessage req)),
            (''GetSupportedProtocols'', soap GetSupportedProtocols),
            (''GetAssignedRoles'', soap (GetAssignedRoles req))] else []))"

section \<open>The dispatch\<close>

text \<open>\<^verbatim>\<open>strchr\<close> in a part of the memory: \<open>None\<close> when it runs past its end, \<open>Some None\<close> at a terminator.\<close>

fun strchr_mem :: "char \<Rightarrow> string \<Rightarrow> nat option option" where
  "strchr_mem c [] = None"
| "strchr_mem c (x # xs) =
     (if x = c then Some (Some 0) else if x = CHR 0x00 then Some None
      else map_option (map_option Suc) (strchr_mem c xs))"

text \<open>The method that the header names: \<open>action\<close> is the memory from the value of the header on, \<open>n\<close> the
  length of the value. The result is the namespace and the name of the method, if there is one.\<close>

definition soap_method :: "string \<Rightarrow> int \<Rightarrow> soap_fault + (string \<times> string) option" where
  "soap_method action n =
     (case strchr_mem CHR ''#'' action of None \<Rightarrow> Inl Request_overread
      | Some None \<Rightarrow> Inr None
      | Some (Some p) \<Rightarrow>
        (if \<not> int p < n then Inr None
         else (case strchr_mem CHR 0x22 (drop (p + 1) action) of None \<Rightarrow> Inl Request_overread
            | Some q \<Rightarrow>
              (let methodlen = (case q of None \<Rightarrow> nat n - (p + 1)
                                | Some p2 \<Rightarrow> if int (p + 1 + p2) \<le> n then p2 else nat n - (p + 1))
               in Inr (Some (take 255 (take p action), take methodlen (drop (p + 1) action)))))))"

definition ExecuteSoapAction ::
  "'st fw_ops \<Rightarrow> soap_conf \<Rightarrow> soap_request \<Rightarrow> string \<Rightarrow> int \<Rightarrow> 'st igd_state \<Rightarrow> 'st igd_result" where
  "ExecuteSoapAction ops so req action n s =
     (case soap_method action n of Inl f \<Rightarrow> Some (Inl f, s)
      | Inr None \<Rightarrow> Some (Inr (SoapError 401 ''Invalid Action''), s)
      | Inr (Some (ns, name)) \<Rightarrow>
        (case map_of (soapMethods ops so req) name of
           None \<Rightarrow> Some (Inr (SoapError 401 ''Invalid Action''), s)
         | Some method \<Rightarrow> method name ns s))"

text \<open>The envelope of an error; it fits its array of 2048 bytes for every text of the code.\<close>

definition soap_error_body :: "int \<Rightarrow> string \<Rightarrow> string" where
  "soap_error_body errCode errDesc =
     ''<s:Envelope xmlns:s='' @ [CHR 0x22] @ ''http://schemas.xmlsoap.org/soap/envelope/'' @ [CHR 0x22]
     @ '' s:encodingStyle='' @ [CHR 0x22] @ ''http://schemas.xmlsoap.org/soap/encoding/'' @ [CHR 0x22] @ ''>''
     @ ''<s:Body><s:Fault><faultcode>s:Client</faultcode><faultstring>UPnPError</faultstring><detail>''
     @ ''<UPnPError xmlns='' @ [CHR 0x22] @ ''urn:schemas-upnp-org:control-1-0'' @ [CHR 0x22] @ ''>''
     @ soap_element ''errorCode'' (show_int errCode) @ soap_element ''errorDescription'' errDesc
     @ ''</UPnPError></detail></s:Fault></s:Body></s:Envelope>''"

section \<open>What is called\<close>

lemma strchr_found: "c \<notin> set xs \<Longrightarrow> CHR 0x00 \<notin> set xs \<Longrightarrow> strchr_mem c (xs @ c # ys) = Some (Some (length xs))"
  by (induction xs) auto

lemma strchr_first: "strchr_mem c xs = Some (Some k) \<Longrightarrow> k < length xs \<and> xs ! k = c \<and> c \<notin> set (take k xs)"
  by (induction xs arbitrary: k) (auto split: if_splits)

lemma strchr_none: "c \<notin> set xs \<Longrightarrow> strchr_mem c (xs @ CHR 0x00 # ys) = Some None" if "c \<noteq> CHR 0x00"
  using that by (induction xs) auto

text \<open>A value of the usual form, with or without the quote that ends it, names its method.\<close>

lemma soap_method_form:
  assumes "CHR ''#'' \<notin> set ns" "CHR 0x00 \<notin> set ns" "CHR 0x22 \<notin> set name" "CHR 0x00 \<notin> set name"
    and "CHR 0x00 \<in> set rest"
    and "n = int (length ns + 1 + length name)"
  shows "soap_method (ns @ CHR ''#'' # name @ rest) n = Inr (Some (take 255 ns, name))"
proof -
  obtain q where q: "strchr_mem CHR 0x22 (name @ rest) = Some q" "\<And>k. q = Some k \<Longrightarrow> length name \<le> k"
  proof -
    have "\<exists>q. strchr_mem CHR 0x22 xs = Some q" if "CHR 0x00 \<in> set xs" for xs
      using that by (induction xs) auto
    then obtain q where q: "strchr_mem CHR 0x22 (name @ rest) = Some q" using assms(5) by fastforce
    moreover have "length name \<le> k" if "q = Some k" for k
    proof (rule ccontr)
      assume "\<not> length name \<le> k"
      then have "(name @ rest) ! k \<in> set name" by (simp add: nth_append)
      then show False using strchr_first q that assms(3) by metis
    qed
    ultimately show thesis by (rule that)
  qed
  show ?thesis
    using q assms(6) by (auto simp: soap_method_def strchr_found [OF assms(1,2)] split: option.splits)
qed

lemma methods_distinct: "distinct (map fst (soapMethods ops so req))"
  unfolding soapMethods_def Let_def by (cases "so_l3f_service so"; cases "so_6fc_service so"; cases "so_dp_service so") simp_all

text \<open>C6: A \<^verbatim>\<open>SOAPAction\<close> that names a method of the table by its service and its name runs exactly this
  method, with the name of the table and the first 255 characters of the service as its namespace;
  any other name is answered with error 401 and changes nothing.\<close>

theorem soap_action_dispatched:
  assumes "CHR ''#'' \<notin> set ns" and "CHR 0x00 \<notin> set ns" and "CHR 0x22 \<notin> set name" and "CHR 0x00 \<notin> set name"
    and "CHR 0x00 \<in> set rest" and "n = int (length ns + 1 + length name)"
  shows "(\<forall>run. (name, run) \<in> set (soapMethods ops so req) \<longrightarrow>
      ExecuteSoapAction ops so req (ns @ CHR ''#'' # name @ rest) n s = run name (take 255 ns) s)
    \<and> (name \<notin> fst ` set (soapMethods ops so req) \<longrightarrow>
      ExecuteSoapAction ops so req (ns @ CHR ''#'' # name @ rest) n s = Some (Inr (SoapError 401 ''Invalid Action''), s))"
proof (intro conjI allI impI)
  fix run assume "(name, run) \<in> set (soapMethods ops so req)"
  then have "map_of (soapMethods ops so req) name = Some run" by (rule map_of_is_SomeI [OF methods_distinct])
  then show "ExecuteSoapAction ops so req (ns @ CHR ''#'' # name @ rest) n s = run name (take 255 ns) s"
    by (simp add: ExecuteSoapAction_def soap_method_form [OF assms])
next
  assume "name \<notin> fst ` set (soapMethods ops so req)"
  then have "map_of (soapMethods ops so req) name = None" by (simp add: map_of_eq_None_iff)
  then show "ExecuteSoapAction ops so req (ns @ CHR ''#'' # name @ rest) n s = Some (Inr (SoapError 401 ''Invalid Action''), s)"
    by (simp add: ExecuteSoapAction_def soap_method_form [OF assms])
qed

theorem soap_action_dispatched_witness:
  "ExecuteSoapAction netfilter_ops sample_soap (sample_request 1 ''a'' [])
      (''urn:schemas-upnp-org:service:WANIPConnection:1'' @ CHR ''#'' # ''ForceTermination'' @ [CHR 0x22, CHR 0x0D, CHR 0x00])
      63 \<lparr>ig_soap = soap_start one_nf, ig_pins = pin_start\<rparr>
    = Some (Inr (SoapError 606 ''Action not authorized''), \<lparr>ig_soap = soap_start one_nf, ig_pins = pin_start\<rparr>)
   \<and> ExecuteSoapAction netfilter_ops sample_soap (sample_request 1 ''a'' [])
      (''urn:x'' @ CHR ''#'' # ''Reboot'' @ [CHR 0x22, CHR 0x0D, CHR 0x00])
      12 \<lparr>ig_soap = soap_start one_nf, ig_pins = pin_start\<rparr>
    = Some (Inr (SoapError 401 ''Invalid Action''), \<lparr>ig_soap = soap_start one_nf, ig_pins = pin_start\<rparr>)"
proof -
  let ?ms = "soapMethods netfilter_ops sample_soap (sample_request 1 ''a'' [])"
  have m: "(''ForceTermination'', \<lambda>a n. on_soap (\<lambda>st. Some (ForceTermination st))) \<in> set ?ms"
    by (simp add: soapMethods_def)
  have "''Reboot'' \<notin> fst ` set ?ms"
    unfolding soapMethods_def Let_def
    by (cases "so_l3f_service sample_soap"; cases "so_6fc_service sample_soap"; cases "so_dp_service sample_soap") simp_all
  then show ?thesis
    using soap_action_dispatched [of "''urn:schemas-upnp-org:service:WANIPConnection:1''" "''ForceTermination''" "[CHR 0x22, CHR 0x0D, CHR 0x00]" 63
        netfilter_ops sample_soap "sample_request 1 ''a'' []" "\<lparr>ig_soap = soap_start one_nf, ig_pins = pin_start\<rparr>"] m
      soap_action_dispatched [of "''urn:x''" "''Reboot''" "[CHR 0x22, CHR 0x0D, CHR 0x00]" 12
        netfilter_ops sample_soap "sample_request 1 ''a'' []" "\<lparr>ig_soap = soap_start one_nf, ig_pins = pin_start\<rparr>"]
    by (simp add: on_soap_def ForceTermination_def soap_error_def)
qed

section \<open>What a request does to the mappings\<close>

lemma rdr_reach_one: "rdr_step ops perms m m' \<Longrightarrow> rdr_reach ops perms m m'"
  using rdr_reach.Step [OF rdr_reach.Start] .

lemma rdr_reach_trans: "rdr_reach ops perms m1 m2 \<Longrightarrow> rdr_reach ops perms m0 m1 \<Longrightarrow> rdr_reach ops perms m0 m2"
  by (induction rule: rdr_reach.induct) (auto intro: rdr_reach.Step)

text \<open>The mappings are changed by steps of \<open>Upnp_Redirect\<close> only, and the tables stay in order.\<close>

definition serves :: "'st fw_ops \<Rightarrow> ('st \<Rightarrow> bool) \<Rightarrow> upnpperm list \<Rightarrow> 'st rdr_state \<Rightarrow> 'st rdr_state \<Rightarrow> bool" where
  "serves ops ok perms m m' \<longleftrightarrow> ok (fw m') \<and> rdr_reach ops perms m m'"

lemma serves_refl: "ok (fw m) \<Longrightarrow> serves ops ok perms m m"
  by (simp add: serves_def rdr_reach.Start)

lemma serves_trans: "serves ops ok perms m0 m1 \<Longrightarrow> serves ops ok perms m1 m2 \<Longrightarrow> serves ops ok perms m0 m2"
  by (auto simp: serves_def intro: rdr_reach_trans)

context redirect_backend begin

lemma serves_redirect:
  assumes "ok (fw m)" "upnp_redirect ops cf rhost eport iaddr iport protocol desc dur m = (r, m')"
  shows "serves ops ok (rc_perms cf) m m'"
  using redirect_result(2) [OF assms] rdr_step.Add [OF refl assms(2)] by (simp add: serves_def rdr_reach_one)

lemma serves_delete:
  assumes "ok (fw m)" "upnp_delete_redirection ops cf p protocol m = (r, m')"
  shows "(\<exists>v. r = Inr v) \<and> serves ops ok perms m m'"
  using delete_redirection_ok [OF assms(1), of cf p protocol] assms(2) rdr_step.Delete [of ops cf p protocol m _ m' perms]
  by (auto simp: serves_def rdr_reach_one)

lemma serves_any:
  assumes ok: "ok (fw m)" and run: "any_redirect ops cf rhost eport ip iport protocol desc dur m = (r, e, m')"
  shows "serves ops ok (rc_perms cf) m m'"
proof -
  define redirect where "redirect = (\<lambda>e. upnp_redirect ops cf rhost e ip iport protocol desc dur)"
  let ?S = "\<lambda>m1. serves ops ok (rc_perms cf) m m1"
  have step: "if q = 0 then ?S m2 else ?S m2" if "?S m1" "redirect e m1 = (q, m2)" for e m1 q m2
    using that serves_redirect [of m1 cf] serves_trans [OF that(1)] by (auto simp: redirect_def serves_def)
  obtain q m1 where first: "redirect eport m = (q, m1)" by force
  have "?S m" using ok by (rule serves_refl)
  then have one: "?S m1" using step [OF _ first] by simp
  show ?thesis
  proof (cases "q \<noteq> 0 \<and> q \<noteq> - 1")
    case True
    then have "any_search redirect (get_permitted_ext_ports (rc_perms cf) (inet_addr ip) iport) eport eport eport m1 = (r, e, m')"
      using run first by (auto simp: any_redirect_def redirect_def Let_def)
    then show ?thesis using any_search_result [of ?S redirect ?S] step one by blast
  next
    case False
    then show ?thesis using run first one by (auto simp: any_redirect_def redirect_def Let_def split: if_splits)
  qed
qed

lemma serves_ports:
  "ok (fw m) \<Longrightarrow> delete_ports ops cf protocol ps m = (r, m') \<Longrightarrow> serves ops ok perms m m'"
proof (induction ps arbitrary: m)
  case (Cons p ps)
  obtain q m1 where m1: "upnp_delete_redirection ops cf p protocol m = (q, m1)" by force
  then obtain v where v: "q = Inr v" "serves ops ok perms m m1" using serves_delete [OF Cons.prems(1)] by blast
  moreover have "delete_ports ops cf protocol ps m1 = (r, m')" using Cons.prems(2) m1 v(1) by simp
  ultimately have "serves ops ok perms m1 m'" using Cons.IH by (auto simp: serves_def)
  then show ?case by (rule serves_trans [OF v(2)])
qed (auto intro: serves_refl)

lemma infos_unchanged:
  assumes "ok (fw m)" "upnp_get_redirection_infos ops cf b p protocol m = (x, m')"
  shows "m' = m"
  using infos_ok [OF assms(1), where eport = p and protocol = protocol and cf = cf and b = b] assms(2) by (auto split: option.splits)

lemma index_unchanged:
  assumes "ok (fw m)" "upnp_get_redirection_infos_by_index ops cf b n m = (x, m')"
  shows "m' = m"
proof -
  have same: "m\<lparr>fw := fw m\<rparr> = m" by simp
  show ?thesis
  proof (cases "n < length (keys_of (fw m))")
    case True
    obtain eport proto where k: "keys_of (fw m) ! n = (eport, proto)" by fastforce
    obtain i where "op_get_by_index ops n b (fw m) = (Some (proto, eport, i), fw m)"
      using index_some [OF assms(1) True k] by blast
    then show ?thesis
      using assms(2) by (auto simp: upnp_get_redirection_infos_by_index_def same split: if_splits)
  next
    case False
    then show ?thesis
      using index_none [OF assms(1), of n b] assms(2) by (auto simp: upnp_get_redirection_infos_by_index_def same)
  qed
qed

lemma list_unchanged:
  "ok (fw m) \<Longrightarrow> list_entries ops cf protocol number ps m = (x, m') \<Longrightarrow> m' = m"
proof (induction ps arbitrary: number x)
  case (Cons p ps)
  obtain found m1 where f: "upnp_get_redirection_infos ops cf (entry_sizes 64) p protocol m = (found, m1)" by force
  then have "m1 = m" by (rule infos_unchanged [OF Cons.prems(1)])
  with Cons f show ?case
    by (auto split: if_splits option.splits sum.splits prod.splits)
qed simp

end

lemmas status_actions =
  GetConnectionTypeInfo_def GetTotalBytesSent_def GetTotalBytesReceived_def GetTotalPacketsSent_def GetTotalPacketsReceived_def
  total_def GetCommonLinkProperties_def learn_bitrates_def GetStatusInfo_def GetNATRSIPStatus_def GetExternalIPAddress_def
  RequestConnection_def ForceTermination_def SetConnectionType_def SetDefaultConnectionService_def GetDefaultConnectionService_def
  SendSetupMessage_def GetSupportedProtocols_def GetAssignedRoles_def soap_error_def with_arguments_def

context listing_backend begin

lemma range_unchanged:
  assumes "ok (fw m)" "upnp_get_portmappings_in_range ops lo hi protocol m = (x, m')"
  shows "m' = m"
proof -
  have "m\<lparr>fw := fw m\<rparr> = m" by simp
  then show ?thesis
    using in_range [OF assms(1), of lo hi "proto_atoi protocol"] assms(2)
    by (auto simp: upnp_get_portmappings_in_range_def)
qed

lemma serves_add:
  assumes ok: "ok (fw (maps st))" and run: "AddPortMapping ops so req action ns st = (r, st')"
  shows "serves ops ok (rc_perms (so_rdr so)) (maps st) (maps st')"
proof (cases "ParseNameValue (req_content req)")
  case (Inr d)
  show ?thesis
  proof (cases "add_args so req (GetValueFromNameValueList d)")
    case Inr': (Inr a)
    then show ?thesis
      using Inr run serves_redirect [OF ok]
      by (auto simp: AddPortMapping_def with_arguments_def split: prod.splits)
  qed (use Inr run serves_refl [of ok "maps st"] ok in \<open>auto simp: AddPortMapping_def with_arguments_def soap_error_def\<close>)
qed (use run serves_refl [of ok "maps st"] ok in \<open>auto simp: AddPortMapping_def with_arguments_def\<close>)

lemma serves_add_any:
  assumes ok: "ok (fw (maps st))" and run: "AddAnyPortMapping ops so req action ns st = (r, st')"
  shows "serves ops ok (rc_perms (so_rdr so)) (maps st) (maps st')"
proof (cases "ParseNameValue (req_content req)")
  case (Inr d)
  show ?thesis
  proof (cases "any_args so req (GetValueFromNameValueList d)")
    case Inr': (Inr a)
    then show ?thesis
      using Inr run serves_any [OF ok]
      by (auto simp: AddAnyPortMapping_def with_arguments_def split: prod.splits)
  qed (use Inr run serves_refl [of ok "maps st"] ok in \<open>auto simp: AddAnyPortMapping_def with_arguments_def soap_error_def\<close>)
qed (use run serves_refl [of ok "maps st"] ok in \<open>auto simp: AddAnyPortMapping_def with_arguments_def\<close>)

lemma serves_delete_mapping:
  assumes ok: "ok (fw (maps st))" and run: "DeletePortMapping ops so req action ns st = (r, st')"
  shows "serves ops ok perms (maps st) (maps st')"
proof (cases "ParseNameValue (req_content req)")
  case (Inr d)
  show ?thesis
  proof (cases "delete_args so (GetValueFromNameValueList d)")
    case Inr': (Inr a)
    obtain p protocol where a: "a = (p, protocol)" by force
    obtain allowed m1 where m1: "delete_allowed ops so req p protocol (maps st) = (allowed, m1)" by force
    then have "m1 = maps st" using delete_allowed_ok [OF ok] by blast
    then show ?thesis
      using Inr Inr' a m1 run serves_delete [OF ok] serves_refl [of ok "maps st", OF ok]
      by (auto simp: DeletePortMapping_def with_arguments_def soap_error_def Let_def split: prod.splits if_splits sum.splits)
  qed (use Inr run serves_refl [of ok "maps st"] ok in \<open>auto simp: DeletePortMapping_def with_arguments_def soap_error_def\<close>)
qed (use run serves_refl [of ok "maps st"] ok in \<open>auto simp: DeletePortMapping_def with_arguments_def\<close>)

lemma serves_delete_range:
  assumes ok: "ok (fw (maps st))" and run: "DeletePortMappingRange ops so req action ns st = (r, st')"
  shows "serves ops ok perms (maps st) (maps st')"
proof (cases "ParseNameValue (req_content req)")
  case (Inr d)
  show ?thesis
  proof (cases "range_args (GetValueFromNameValueList d)")
    case Inr': (Inr a)
    obtain lo hi protocol where a: "a = (lo, hi, protocol)" by (cases a) auto
    obtain l m1 where m1: "upnp_get_portmappings_in_range ops lo hi protocol (maps st) = (l, m1)" by force
    then have "m1 = maps st" by (rule range_unchanged [OF ok])
    then show ?thesis
      using Inr Inr' a m1 run serves_ports [OF ok] serves_refl [of ok "maps st", OF ok]
      by (auto simp: DeletePortMappingRange_def with_arguments_def soap_error_def Let_def split: prod.splits if_splits sum.splits)
  qed (use Inr run serves_refl [of ok "maps st"] ok in \<open>auto simp: DeletePortMappingRange_def with_arguments_def soap_error_def\<close>)
qed (use run serves_refl [of ok "maps st"] ok in \<open>auto simp: DeletePortMappingRange_def with_arguments_def\<close>)

lemma lists_keep:
  assumes ok: "ok (fw (maps st))" and run: "GetListOfPortMappings ops so req action ns st = (r, st')"
  shows "st' = st"
proof -
  have same: "with_maps st (maps st) = st" by simp
  show ?thesis
  proof (cases "ParseNameValue (req_content req)")
    case (Inr d)
    define arg where "arg = GetValueFromNameValueList d"
    show ?thesis
    proof (cases "range_args arg")
      case Inr': (Inr a)
      obtain lo hi protocol where a: "a = (lo, hi, protocol)" by (cases a) auto
      obtain l m1 where l: "upnp_get_portmappings_in_range ops lo hi protocol (maps st) = (l, m1)" by force
      then have m1: "m1 = maps st" by (rule range_unchanged [OF ok])
      show ?thesis
        using run Inr Inr' a l m1
        by (auto simp: GetListOfPortMappings_def with_arguments_def soap_error_def Let_def arg_def [symmetric] same
            split: option.splits if_splits) (auto split: prod.splits sum.splits dest!: list_unchanged [OF ok])
    qed (use run Inr in \<open>auto simp: GetListOfPortMappings_def with_arguments_def soap_error_def arg_def split: option.splits if_splits\<close>)
  qed (use run in \<open>auto simp: GetListOfPortMappings_def with_arguments_def\<close>)
qed

lemma reads_keep:
  assumes ok: "ok (fw (maps st))"
  shows "GetGenericPortMappingEntry ops so req action ns st = (r, st') \<Longrightarrow> st' = st"
    "GetSpecificPortMappingEntry ops so req action ns st = (r, st') \<Longrightarrow> st' = st"
    "GetListOfPortMappings ops so req action ns st = (r, st') \<Longrightarrow> st' = st"
    "QueryStateVariable ops so req action ns st = Some (r, st') \<Longrightarrow> st' = st"
proof -
  have same: "with_maps st (maps st) = st" by simp
  show "GetGenericPortMappingEntry ops so req action ns st = (r, st') \<Longrightarrow> st' = st"
    using index_unchanged [OF ok]
    by (force simp: GetGenericPortMappingEntry_def with_arguments_def soap_error_def Let_def same
        split: sum.splits option.splits if_splits prod.splits)
  show "GetSpecificPortMappingEntry ops so req action ns st = (r, st') \<Longrightarrow> st' = st"
    using infos_unchanged [OF ok]
    by (force simp: GetSpecificPortMappingEntry_def with_arguments_def soap_error_def Let_def same
        split: sum.splits option.splits if_splits prod.splits)
  show "GetListOfPortMappings ops so req action ns st = (r, st') \<Longrightarrow> st' = st" by (rule lists_keep [OF ok])
  show "QueryStateVariable ops so req action ns st = Some (r, st') \<Longrightarrow> st' = st"
    using count_entries_ok [OF ok, of 0 "so_rdr so"]
    by (auto simp: QueryStateVariable_def upnp_get_portmapping_number_of_entries_def soap_error_def
        split: sum.splits option.splits if_splits)
qed

end

section \<open>What a request does to the pinholes\<close>

text \<open>The pinholes that a request of \<open>d\<close> may change: those of \<open>d\<close> to its ports from 1024 on.\<close>

abbreviation own_pins :: "in6_addr \<Rightarrow> ip6_state \<Rightarrow> ip6_state \<Rightarrow> bool" where
  "own_pins d s s' \<equiv> pin_ok s' \<and> own_holes d (\<lambda>p. 1024 \<le> p) (holes s) (holes s')"

lemma verified:
  assumes "PinholeVerification req int_ip port = None"
  shows "inet_pton6 int_ip = Some (clientaddr_v6 req)" "int_ip = inet_ntop6 (clientaddr_v6 req)" "1024 \<le> port"
proof -
  show "int_ip = inet_ntop6 (clientaddr_v6 req)" "1024 \<le> port"
    using assms by (auto simp: PinholeVerification_def split: if_splits)
  then show "inet_pton6 int_ip = Some (clientaddr_v6 req)" by (simp add: inet_pton6_ntop6)
qed

lemma verified_pinhole:
  "PinholeVerification req (inet_ntop6 (ph_daddr p)) (ph_dport p) = None \<Longrightarrow> ph_daddr p = clientaddr_v6 req \<and> 1024 \<le> ph_dport p"
  using verified [of req "inet_ntop6 (ph_daddr p)" "ph_dport p"] inet_pton6_ntop6 [of "ph_daddr p"] by simp

lemma info_unchanged:
  assumes "pin_ok s" "upnp_get_pinhole_info now packets uid s = (x, s')"
  shows "s' = s" "\<And>p l n. x = Inr (Inr (p, l, n)) \<Longrightarrow> holes s uid = Some p"
  using assms pin_okD(1) [OF assms(1)]
  by (auto simp: upnp_get_pinhole_info_def get_pinhole_info_def holes_def Let_def split: option.splits sum.splits prod.splits if_splits)

lemma AddPinhole_own:
  assumes ok: "pin_ok st" and run: "AddPinhole so req action ns st = Some (r, st')"
  shows "own_pins (clientaddr_v6 req) st st'"
proof (cases "CheckStatus so")
  case None
  show ?thesis
  proof (cases "ParseNameValue (req_content req)")
    case (Inr d)
    show ?thesis
    proof (cases "add_pinhole_args so req (GetValueFromNameValueList d)")
      case (Inl e)
      then show ?thesis using run None Inr ok by (auto simp: AddPinhole_def)
    next
      case Inr': (Inr a)
      have a: "PinholeVerification req (pa_ip a) (pa_iport a) = None" "pa_proto a = 6 \<or> pa_proto a = 17"
        using Inr' by (auto simp: add_pinhole_args_def Let_def split: option.splits if_splits)
      obtain q where "upnp_add_inboundpinhole (so_ext_if_name6 so) (upnp_time (rc_env (so_rdr so))) (pa_rhost a) (pa_rport a) (pa_ip a)
          (pa_iport a) (pa_proto a) ''IGD2 pinhole'' (pa_lease a) st = Some (q, st')"
        using run None Inr Inr' by (auto simp: AddPinhole_def split: prod.splits)
      then show ?thesis
        using upnp_add_own [OF ok verified(1) [OF a(1)], of "pa_proto a" "\<lambda>p. 1024 \<le> p"] verified(3) [OF a(1)] a(2) by fastforce
    qed
  qed (use run None ok in \<open>auto simp: AddPinhole_def\<close>)
qed (use run ok in \<open>auto simp: AddPinhole_def\<close>)

lemma info_cases:
  assumes ok: "pin_ok st"
  obtains (Fault) f where "upnp_get_pinhole_info now packets uid st = (Inl f, st)"
    | (Missing) n where "upnp_get_pinhole_info now packets uid st = (Inr (Inl n), st)"
    | (Found) p l n where "upnp_get_pinhole_info now packets uid st = (Inr (Inr (p, l, n)), st)" "holes st uid = Some p"
proof -
  obtain x st1 where run: "upnp_get_pinhole_info now packets uid st = (x, st1)" by force
  note u = info_unchanged [OF ok run]
  show thesis
  proof (cases x)
    case (Inl f)
    with run u(1) Fault show thesis by simp
  next
    case (Inr y)
    with run u Missing Found show thesis by (cases y) (simp, metis prod_cases3)
  qed
qed

text \<open>The actions on a pinhole: either nothing changes, or the request names a pinhole of its sender.\<close>

lemma UpdatePinhole_own:
  assumes ok: "pin_ok st" and run: "UpdatePinhole so req action ns st = (r, st')"
  shows "own_pins (clientaddr_v6 req) st st'"
proof (cases "CheckStatus so = None")
  case on: True
  show ?thesis
  proof (cases "ParseNameValue (req_content req)")
    case (Inr d)
    define arg where "arg = GetValueFromNameValueList d"
    define t where "t = atoi_or (- 1) (arg ''NewLeaseTime'')"
    show ?thesis
    proof (cases "uid_arg arg = None \<or> t \<le> 0 \<or> t > 86400")
      case True
      then have "st' = st" using run on Inr
        by (auto simp: UpdatePinhole_def with_arguments_def soap_error_def Let_def arg_def t_def split: option.splits)
      then show ?thesis using ok by simp
    next
      case False
      then obtain uid where uid: "uid_arg arg = Some uid" by auto
      define now where "now = upnp_time (rc_env (so_rdr so))"
      show ?thesis
      proof (cases rule: info_cases [OF ok, of now False uid, case_names Fault Missing Found])
        case (Found p l n)
        obtain s2 where s2: "update_pinhole uid (now + word_of_int t) st = (0, s2)" "pin_ok s2"
          "holes s2 = (holes st)(uid \<mapsto> p\<lparr>ph_timestamp := now + word_of_int t\<rparr>)"
          using update_ok [OF ok Found(2)] by blast
        show ?thesis
        proof (cases "PinholeVerification req (inet_ntop6 (ph_daddr p)) (ph_dport p)")
          case None
          then have "st' = s2" using run on Inr uid False Found(1) s2(1)
            by (auto simp: UpdatePinhole_def with_arguments_def arg_def t_def now_def soap_error_def upnp_update_inboundpinhole_def Let_def)
          then show ?thesis using s2 Found(2) verified_pinhole [OF None] by (auto intro!: own_holes_upd)
        qed (use run on Inr uid False Found(1) ok in \<open>auto simp: UpdatePinhole_def with_arguments_def arg_def t_def now_def soap_error_def Let_def\<close>)
      qed (use run on Inr uid False ok in \<open>auto simp: UpdatePinhole_def with_arguments_def arg_def t_def now_def soap_error_def Let_def split: if_splits\<close>)
    qed
  qed (use run ok on in \<open>auto simp: UpdatePinhole_def with_arguments_def\<close>)
qed (use run ok in \<open>auto simp: UpdatePinhole_def\<close>)

lemma DeletePinhole_own:
  assumes ok: "pin_ok st" and run: "DeletePinhole so req action ns st = (r, st')"
  shows "own_pins (clientaddr_v6 req) st st'"
proof (cases "CheckStatus so = None")
  case on: True
  show ?thesis
  proof (cases "ParseNameValue (req_content req)")
    case (Inr d)
    define now where "now = upnp_time (rc_env (so_rdr so))"
    show ?thesis
    proof (cases "uid_arg (GetValueFromNameValueList d)")
      case (Some uid)
      show ?thesis
      proof (cases rule: info_cases [OF ok, of now False uid, case_names Fault Missing Found])
        case (Found p l n)
        obtain s2 where s2: "upnp_delete_inboundpinhole uid st = (0, s2)" "pin_ok s2" "holes s2 = (holes st)(uid := None)"
          using delete_hole_ok [OF ok, of uid] Found(2) by auto
        show ?thesis
        proof (cases "PinholeVerification req (inet_ntop6 (ph_daddr p)) (ph_dport p)")
          case None
          then have "st' = s2" using run on Inr Some Found(1) s2(1)
            by (auto simp: DeletePinhole_def with_arguments_def now_def)
          then show ?thesis using s2 Found(2) verified_pinhole [OF None] by (auto simp: own_holes_def)
        qed (use run on Inr Some Found(1) ok in \<open>auto simp: DeletePinhole_def with_arguments_def now_def\<close>)
      qed (use run on Inr Some ok in \<open>auto simp: DeletePinhole_def with_arguments_def soap_error_def now_def split: if_splits\<close>)
    qed (use run on Inr ok in \<open>auto simp: DeletePinhole_def with_arguments_def soap_error_def\<close>)
  qed (use run ok on in \<open>auto simp: DeletePinhole_def with_arguments_def\<close>)
qed (use run ok in \<open>auto simp: DeletePinhole_def\<close>)

lemma pin_reads_keep:
  assumes ok: "pin_ok st"
  shows "CheckPinholeWorking so req action ns st = (r, st') \<Longrightarrow> st' = st"
    "GetPinholePackets so req action ns st = (r, st') \<Longrightarrow> st' = st"
    "GetFirewallStatus so action ns st = (r, st') \<Longrightarrow> st' = st"
    "GetOutboundPinholeTimeout so req st = (r, st') \<Longrightarrow> st' = st"
proof -
  define now where "now = upnp_time (rc_env (so_rdr so))"
  show "st' = st" if run: "CheckPinholeWorking so req action ns st = (r, st')"
  proof (cases "CheckStatus so"; cases "ParseNameValue (req_content req)")
    fix d assume d: "CheckStatus so = None" "ParseNameValue (req_content req) = Inr d"
    show "st' = st"
    proof (cases "uid_arg (GetValueFromNameValueList d)")
      case (Some uid)
      show ?thesis
        by (cases rule: info_cases [OF ok, of now True uid])
          (use run d Some in \<open>auto simp: CheckPinholeWorking_def with_arguments_def soap_error_def now_def split: option.splits if_splits\<close>)
    qed (use run d in \<open>auto simp: CheckPinholeWorking_def with_arguments_def soap_error_def\<close>)
  qed (use run in \<open>auto simp: CheckPinholeWorking_def with_arguments_def\<close>)
  show "st' = st" if run: "GetPinholePackets so req action ns st = (r, st')"
  proof (cases "CheckStatus so"; cases "ParseNameValue (req_content req)")
    fix d assume d: "CheckStatus so = None" "ParseNameValue (req_content req) = Inr d"
    show "st' = st"
    proof (cases "uid_arg (GetValueFromNameValueList d)")
      case (Some uid)
      show ?thesis
        by (cases rule: info_cases [OF ok, of now True uid])
          (use run d Some in \<open>auto simp: GetPinholePackets_def with_arguments_def soap_error_def now_def Let_def split: option.splits\<close>)
    qed (use run d in \<open>auto simp: GetPinholePackets_def with_arguments_def soap_error_def Let_def\<close>)
  qed (use run in \<open>auto simp: GetPinholePackets_def with_arguments_def Let_def\<close>)
  show "GetFirewallStatus so action ns st = (r, st') \<Longrightarrow> st' = st" by (simp add: GetFirewallStatus_def)
  show "GetOutboundPinholeTimeout so req st = (r, st') \<Longrightarrow> st' = st"
    by (auto simp: GetOutboundPinholeTimeout_def with_arguments_def soap_error_def split: sum.splits if_splits)
qed

section \<open>Any request\<close>

lemma on_soapE:
  assumes "on_soap h s = Some (r, s')"
  obtains st where "h (ig_soap s) = Some (r, st)" "s' = s\<lparr>ig_soap := st\<rparr>"
  using assms by (auto simp: on_soap_def)

lemma on_pinsE:
  assumes "on_pins h s = Some (r, s')"
  obtains st where "h (ig_pins s) = Some (r, st)" "s' = s\<lparr>ig_pins := st\<rparr>"
  using assms by (auto simp: on_pins_def)

text \<open>The methods of the table by what they do to the state.\<close>

inductive soap_action ::
  "'st fw_ops \<Rightarrow> soap_conf \<Rightarrow> soap_request \<Rightarrow> string \<Rightarrow> string \<Rightarrow> 'st igd_state \<Rightarrow> soap_fault + soap_reply \<Rightarrow> 'st igd_state \<Rightarrow> bool"
  for ops so req name ns s where
  Status: "maps st = maps (ig_soap s) \<Longrightarrow> soap_action ops so req name ns s r (s\<lparr>ig_soap := st\<rparr>)"
| Query: "QueryStateVariable ops so req name ns (ig_soap s) = Some (r, st) \<Longrightarrow> soap_action ops so req name ns s r (s\<lparr>ig_soap := st\<rparr>)"
| Add: "AddPortMapping ops so req name ns (ig_soap s) = (r, st) \<Longrightarrow> soap_action ops so req name ns s r (s\<lparr>ig_soap := st\<rparr>)"
| Add_any: "AddAnyPortMapping ops so req name ns (ig_soap s) = (r, st) \<Longrightarrow> soap_action ops so req name ns s r (s\<lparr>ig_soap := st\<rparr>)"
| Delete: "DeletePortMapping ops so req name ns (ig_soap s) = (r, st) \<Longrightarrow> soap_action ops so req name ns s r (s\<lparr>ig_soap := st\<rparr>)"
| Delete_range: "name = ''DeletePortMappingRange'' \<Longrightarrow> DeletePortMappingRange ops so req name ns (ig_soap s) = (r, st)
    \<Longrightarrow> soap_action ops so req name ns s r (s\<lparr>ig_soap := st\<rparr>)"
| Generic: "GetGenericPortMappingEntry ops so req name ns (ig_soap s) = (r, st) \<Longrightarrow> soap_action ops so req name ns s r (s\<lparr>ig_soap := st\<rparr>)"
| Specific: "GetSpecificPortMappingEntry ops so req name ns (ig_soap s) = (r, st) \<Longrightarrow> soap_action ops so req name ns s r (s\<lparr>ig_soap := st\<rparr>)"
| List: "GetListOfPortMappings ops so req name ns (ig_soap s) = (r, st) \<Longrightarrow> soap_action ops so req name ns s r (s\<lparr>ig_soap := st\<rparr>)"
| Pin_status: "GetFirewallStatus so name ns (ig_pins s) = (r, p) \<or> GetOutboundPinholeTimeout so req (ig_pins s) = (r, p)
      \<or> CheckPinholeWorking so req name ns (ig_pins s) = (r, p) \<or> GetPinholePackets so req name ns (ig_pins s) = (r, p)
    \<Longrightarrow> soap_action ops so req name ns s r (s\<lparr>ig_pins := p\<rparr>)"
| Pin_add: "AddPinhole so req name ns (ig_pins s) = Some (r, p) \<Longrightarrow> soap_action ops so req name ns s r (s\<lparr>ig_pins := p\<rparr>)"
| Pin_update: "UpdatePinhole so req name ns (ig_pins s) = (r, p) \<Longrightarrow> soap_action ops so req name ns s r (s\<lparr>ig_pins := p\<rparr>)"
| Pin_delete: "DeletePinhole so req name ns (ig_pins s) = (r, p) \<Longrightarrow> soap_action ops so req name ns s r (s\<lparr>ig_pins := p\<rparr>)"

lemma learn_maps [simp]: "maps (learn_bitrates so st) = maps st"
  by (simp add: learn_bitrates_def split: option.splits)

lemma status_form:
  assumes "h (ig_soap s) = (r, st)" "\<And>st. maps (snd (h st)) = maps st"
  shows "soap_action ops so req name ns s r (s\<lparr>ig_soap := st\<rparr>)"
  using assms(2) [of "ig_soap s"] assms(1) by (intro Status) simp

lemma status_keeps:
  "maps (snd (GetTotalBytesSent so a n st)) = maps st" "maps (snd (GetTotalBytesReceived so a n st)) = maps st"
  "maps (snd (GetTotalPacketsSent so a n st)) = maps st" "maps (snd (GetTotalPacketsReceived so a n st)) = maps st"
  "maps (snd (GetCommonLinkProperties so a n st)) = maps st" "maps (snd (GetStatusInfo so a n st)) = maps st"
  "maps (snd (GetConnectionTypeInfo a n st)) = maps st" "maps (snd (GetNATRSIPStatus a n st)) = maps st"
  "maps (snd (GetExternalIPAddress so a n st)) = maps st" "maps (snd (SetConnectionType so req st)) = maps st"
  "maps (snd (RequestConnection st)) = maps st" "maps (snd (ForceTermination st)) = maps st"
  "maps (snd (SetDefaultConnectionService so req a n st)) = maps st" "maps (snd (GetDefaultConnectionService so a n st)) = maps st"
  "maps (snd (SendSetupMessage req a n st)) = maps st" "maps (snd (GetSupportedProtocols a n st)) = maps st"
  "maps (snd (GetAssignedRoles req a n st)) = maps st"
  by (simp_all add: GetTotalBytesSent_def GetTotalBytesReceived_def GetTotalPacketsSent_def GetTotalPacketsReceived_def
      total_def GetCommonLinkProperties_def GetStatusInfo_def GetConnectionTypeInfo_def GetNATRSIPStatus_def
      GetExternalIPAddress_def SetConnectionType_def RequestConnection_def ForceTermination_def SetDefaultConnectionService_def
      GetDefaultConnectionService_def SendSetupMessage_def GetSupportedProtocols_def GetAssignedRoles_def
      soap_error_def with_arguments_def Let_def split: sum.splits option.splits)

lemma method_action:
  assumes "(name, h) \<in> set (soapMethods ops so req)" "h name ns s = Some (r, s')"
  shows "soap_action ops so req name ns s r s'"
proof -
  have set_if: "x \<in> set (if b then xs else []) \<longleftrightarrow> b \<and> x \<in> set xs" for b and x :: 'a and xs by simp
  show ?thesis
    using assms unfolding soapMethods_def Let_def set_append Un_iff set_if
    by (auto elim!: on_soapE on_pinsE intro: soap_action.intros status_form status_keeps)
qed

inductive_cases soap_actionE: "soap_action ops so req name ns s r s'"

lemma execute_cases:
  assumes "ExecuteSoapAction ops so req action n s = Some (r, s')"
  obtains (Refused) "s' = s"
    | (Method) ns name where "soap_method action n = Inr (Some (ns, name))" "soap_action ops so req name ns s r s'"
  using assms method_action [of _ _ ops so req _ s r s'] map_of_SomeD
  by (fastforce simp: ExecuteSoapAction_def split: sum.splits option.splits)

context listing_backend begin

lemma action_serves:
  assumes "soap_action ops so req name ns s r s'" and ok: "ok (fw (maps (ig_soap s)))"
  shows "serves ops ok (rc_perms (so_rdr so)) (maps (ig_soap s)) (maps (ig_soap s'))"
  using assms(1)
proof cases
  case (Add st)
  then show ?thesis using serves_add [OF ok Add(2)] by simp
next
  case (Add_any st)
  then show ?thesis using serves_add_any [OF ok Add_any(2)] by simp
next
  case (Delete st)
  then show ?thesis using serves_delete_mapping [OF ok Delete(2)] by simp
next
  case (Delete_range st)
  then show ?thesis using serves_delete_range [OF ok Delete_range(3)] by simp
next
  case (Generic st)
  then show ?thesis using reads_keep(1) [OF ok Generic(2)] serves_refl [of ok "maps (ig_soap s)"] ok by simp
next
  case (Specific st)
  then show ?thesis using reads_keep(2) [OF ok Specific(2)] serves_refl [of ok "maps (ig_soap s)"] ok by simp
next
  case (List st)
  then show ?thesis using reads_keep(3) [OF ok List(2)] serves_refl [of ok "maps (ig_soap s)"] ok by simp
next
  case (Query st)
  then show ?thesis using reads_keep(4) [OF ok Query(2)] serves_refl [of ok "maps (ig_soap s)"] ok by simp
qed (use serves_refl [of ok "maps (ig_soap s)"] ok in simp_all)

lemma action_own:
  assumes "soap_action ops so req name ns s r s'" and ok: "ok (fw (maps (ig_soap s)))" and secure: "so_secure so"
    and sender: "inet_aton (clientaddr_str req) \<in> {None, Some (clientaddr req)}" and name: "name \<noteq> ''DeletePortMappingRange''"
  shows "ok (fw (maps (ig_soap s')))
    \<and> own_changes (clientaddr req) (table_of (fw (maps (ig_soap s)))) (table_of (fw (maps (ig_soap s'))))"
  using assms(1)
proof cases
  case (Add st)
  then show ?thesis using AddPortMapping_grants [OF ok secure sender Add(2)] by simp
next
  case (Add_any st)
  then show ?thesis using AddAnyPortMapping_grants [OF ok secure Add_any(2)] by simp
next
  case (Delete st)
  then show ?thesis using DeletePortMapping_own [OF ok secure Delete(2)] by simp
next
  case (Generic st)
  then show ?thesis using reads_keep(1) [OF ok Generic(2)] ok by simp
next
  case (Specific st)
  then show ?thesis using reads_keep(2) [OF ok Specific(2)] ok by simp
next
  case (List st)
  then show ?thesis using reads_keep(3) [OF ok List(2)] ok by simp
next
  case (Query st)
  then show ?thesis using reads_keep(4) [OF ok Query(2)] ok by simp
qed (use ok name in simp_all)

end

lemma action_pins:
  assumes "soap_action ops so req name ns s r s'" and ok: "pin_ok (ig_pins s)"
  shows "own_pins (clientaddr_v6 req) (ig_pins s) (ig_pins s')"
  using assms(1)
proof cases
  case (Pin_status p)
  then have "p = ig_pins s" by (auto dest: pin_reads_keep [OF ok])
  then show ?thesis using Pin_status(1) ok by simp
next
  case (Pin_add p)
  then show ?thesis using AddPinhole_own [OF ok] by simp
next
  case (Pin_update p)
  then show ?thesis using UpdatePinhole_own [OF ok] by simp
next
  case (Pin_delete p)
  then show ?thesis using DeletePinhole_own [OF ok] by simp
qed (simp_all add: ok)

text \<open>C5: In secure mode a request, whatever its header and its body say, changes only mappings to the address
  it came from and only pinholes to that address and to ports from 1024 on, unless it calls
  \<^verbatim>\<open>DeletePortMappingRange\<close>, which checks no owner.\<close>

theorem secure_request_keeps_others:
  assumes "nf_ok (fw (maps (ig_soap s)))" and "pin_ok (ig_pins s)" and "so_secure so"
    and "inet_aton (clientaddr_str req) \<in> {None, Some (clientaddr req)}"
    and "\<forall>ns. soap_method action n \<noteq> Inr (Some (ns, ''DeletePortMappingRange''))"
    and "ExecuteSoapAction netfilter_ops so req action n s = Some (r, s')"
  shows "nf_ok (fw (maps (ig_soap s'))) \<and> pin_ok (ig_pins s')
    \<and> own_changes (clientaddr req) (nf_table (fw (maps (ig_soap s)))) (nf_table (fw (maps (ig_soap s'))))
    \<and> own_holes (clientaddr_v6 req) (\<lambda>p. 1024 \<le> p) (holes (ig_pins s)) (holes (ig_pins s'))"
  using assms(6)
proof (cases rule: execute_cases)
  case Refused
  then show ?thesis using assms(1,2) by simp
next
  case (Method ns name)
  then have "name \<noteq> ''DeletePortMappingRange''" using assms(5) by blast
  then have "nf_ok (fw (maps (ig_soap s')))
    \<and> own_changes (clientaddr req) (nf_table (fw (maps (ig_soap s)))) (nf_table (fw (maps (ig_soap s'))))"
    by (rule netfilter.action_own [OF Method(2) assms(1,3,4)])
  then show ?thesis using action_pins [OF Method(2) assms(2)] by blast
qed

theorem secure_request_keeps_others_witness:
  "\<exists>r s'. ExecuteSoapAction netfilter_ops sample_soap
      (sample_request 167772163 ''DeletePortMapping'' [(''NewExternalPort'', ''8080''), (''NewProtocol'', ''TCP'')])
      (''urn:x'' @ CHR ''#'' # ''DeletePortMapping'' @ [CHR 0x0D, CHR 0x00]) 23 \<lparr>ig_soap = soap_start one_nf, ig_pins = pin_start\<rparr>
      = Some (r, s')
    \<and> nf_table (fw (maps (ig_soap s'))) (8080, IPPROTO_TCP) = Some (new_portmap None ''10.0.0.2'' 80 (Some ''web'') 0)"
proof -
  let ?req = "sample_request 167772163 ''DeletePortMapping'' [(''NewExternalPort'', ''8080''), (''NewProtocol'', ''TCP'')]"
  let ?action = "''urn:x'' @ CHR ''#'' # ''DeletePortMapping'' @ [CHR 0x0D, CHR 0x00]"
  let ?s = "\<lparr>ig_soap = soap_start one_nf, ig_pins = pin_start\<rparr>"
  have m: "soap_method ?action 23 = Inr (Some (''urn:x'', ''DeletePortMapping''))"
    using soap_method_form [of "''urn:x''" "''DeletePortMapping''" "[CHR 0x0D, CHR 0x00]" 23] by simp
  have "(''DeletePortMapping'', \<lambda>a n. on_soap (\<lambda>st. Some (DeletePortMapping netfilter_ops sample_soap ?req a n st)))
      \<in> set (soapMethods netfilter_ops sample_soap ?req)" by (simp add: soapMethods_def)
  then have "map_of (soapMethods netfilter_ops sample_soap ?req) ''DeletePortMapping''
      = Some (\<lambda>a n. on_soap (\<lambda>st. Some (DeletePortMapping netfilter_ops sample_soap ?req a n st)))"
    by (rule map_of_is_SomeI [OF methods_distinct])
  then obtain r s' where run: "ExecuteSoapAction netfilter_ops sample_soap ?req ?action 23 ?s = Some (r, s')"
    unfolding ExecuteSoapAction_def m sum.case option.case prod.case by (auto simp: on_soap_def split_beta)
  have "inet_aton (clientaddr_str ?req) \<in> {None, Some (clientaddr ?req)}" by (simp add: sockaddr_not_an_address)
  moreover have "\<forall>ns. soap_method ?action 23 \<noteq> Inr (Some (ns, ''DeletePortMappingRange''))" unfolding m by simp
  ultimately have "own_changes (clientaddr ?req) (nf_table (fw (maps (ig_soap ?s)))) (nf_table (fw (maps (ig_soap s'))))"
    using secure_request_keeps_others [OF _ _ sample_soap_simps(2) _ _ run] by (simp add: one_nf_ok pin_start_ok)
  then have "own_changes 167772163 (nf_table one_nf) (nf_table (fw (maps (ig_soap s'))))" by simp
  moreover have "mp_iaddr (new_portmap None ''10.0.0.2'' 80 (Some ''web'') 0) \<noteq> 167772163" by simp
  ultimately have "nf_table (fw (maps (ig_soap s'))) (8080, IPPROTO_TCP) = Some (new_portmap None ''10.0.0.2'' 80 (Some ''web'') 0)"
    using own_changes_map [of 167772163 "nf_table one_nf" "nf_table (fw (maps (ig_soap s')))"] by (simp add: one_nf_table)
  then show ?thesis using run by blast
qed

section \<open>Sequences of requests\<close>

text \<open>What happens between two requests: the cleanups of the main loop, at any time.\<close>

inductive igd_step :: "'st fw_ops \<Rightarrow> upnpperm list \<Rightarrow> 'st igd_state \<Rightarrow> 'st igd_state \<Rightarrow> bool"
  for ops :: "'st fw_ops" and perms :: "upnpperm list" where
  Request: "\<lbrakk>rc_perms (so_rdr so) = perms; ExecuteSoapAction ops so req action n s = Some (r, s')\<rbrakk> \<Longrightarrow> igd_step ops perms s s'"
| Clean_rules: "get_upnp_rules_state_list ops cf k (maps (ig_soap s)) = Some (Inr l, m)
    \<Longrightarrow> igd_step ops perms s (s\<lparr>ig_soap := with_maps (ig_soap s) m\<rparr>)"
| Clean_pinholes: "upnp_clean_expired_pinholes now (ig_pins s) = (k, t, p) \<Longrightarrow> igd_step ops perms s (s\<lparr>ig_pins := p\<rparr>)"

inductive_cases igd_stepE: "igd_step ops perms s s'"

inductive igd_reach :: "'st fw_ops \<Rightarrow> upnpperm list \<Rightarrow> 'st igd_state \<Rightarrow> 'st igd_state \<Rightarrow> bool"
  for ops :: "'st fw_ops" and perms :: "upnpperm list" and s0 :: "'st igd_state" where
  Start: "igd_reach ops perms s0 s0"
| Step: "\<lbrakk>igd_reach ops perms s0 s; igd_step ops perms s s'\<rbrakk> \<Longrightarrow> igd_reach ops perms s0 s'"

context listing_backend begin

lemma igd_reach_inv:
  assumes "igd_reach ops perms s0 s" and start: "ok (fw (maps (ig_soap s0)))" "valid_table (table_of (fw (maps (ig_soap s0))))"
      "permitted perms (table_of (fw (maps (ig_soap s0))))" "pin_ok (ig_pins s0)"
  shows "rdr_reach ops perms (maps (ig_soap s0)) (maps (ig_soap s)) \<and> pin_ok (ig_pins s)"
  using assms(1)
proof induction
  case Start
  then show ?case using start(4) by (simp add: rdr_reach.Start)
next
  case (Step s s')
  then have reach: "rdr_reach ops perms (maps (ig_soap s0)) (maps (ig_soap s))" and pins: "pin_ok (ig_pins s)" by simp_all
  have ok: "ok (fw (maps (ig_soap s)))" using reach_inv [OF reach start(1-3)] by blast
  from Step.hyps(2) show ?case
  proof (cases rule: igd_step.cases)
    case (Request so req action n r)
    from Request(2) show ?thesis
    proof (cases rule: execute_cases)
      case (Method ns name)
      have "serves ops ok perms (maps (ig_soap s)) (maps (ig_soap s'))"
        using action_serves [OF Method(2) ok] Request(1) by simp
      then show ?thesis using rdr_reach_trans [OF _ reach] action_pins [OF Method(2) pins] by (auto simp: serves_def)
    qed (use reach pins in simp)
  next
    case (Clean_rules cf k l m)
    then have "rdr_step ops perms (maps (ig_soap s)) m" by (auto intro: rdr_step.Clean)
    then show ?thesis using reach pins Clean_rules(1) by (auto intro: rdr_reach.Step)
  next
    case (Clean_pinholes now k t p)
    have "distinct (map ph_uid (pinhole_list (ig_pins s)))" by (rule pin_okD(4) [OF pins])
    then have "pin_ok p"
      using clean_loop_ok [OF pins subset_refl, of now 0 "0xFFFFFFFF"] Clean_pinholes(2)
      by (auto simp: upnp_clean_expired_pinholes_def clean_pinhole_list_def)
    then show ?thesis using reach Clean_pinholes(1) by simp
  qed
qed

end

text \<open>C4: Whatever SOAP requests are served from tables without a mapping on, with whatever headers and bodies, and
  whenever the cleanups run, while libiptc and libip6tc report no error: every mapping of the firewall is one the permission list allows, for every
  protocol, client and internal port there are at least as many filter rules as mappings (the
  remote host of a filter rule is not part of this), and the pinholes have distinct identifiers
  and exactly one rule each.\<close>

theorem soap_requests_permitted:
  assumes "igd_reach netfilter_ops perms s0 s" and "nf_ok (fw (maps (ig_soap s0)))"
    and "nf_table (fw (maps (ig_soap s0))) = Map.empty" and "pin_ok (ig_pins s0)"
  shows "permitted perms (nf_table (fw (maps (ig_soap s)))) \<and> enough_filter_rules (fw (maps (ig_soap s)))
    \<and> pin_ok (ig_pins s) \<and> nf_ok (fw (maps (ig_soap s)))"
proof -
  have t: "valid_table (nf_table (fw (maps (ig_soap s0))))" "permitted perms (nf_table (fw (maps (ig_soap s0))))"
    using assms(3) by (simp_all add: valid_table_def permitted_def)
  have "rdr_reach netfilter_ops perms (maps (ig_soap s0)) (maps (ig_soap s)) \<and> pin_ok (ig_pins s)"
    by (rule netfilter.igd_reach_inv [OF assms(1,2) t assms(4)])
  then show ?thesis using netfilter.reach_inv [OF _ assms(2) t] nf_ok_filter_rules by blast
qed

theorem soap_requests_permitted_witness:
  "\<exists>s. igd_reach netfilter_ops [] \<lparr>ig_soap = soap_start empty_nf, ig_pins = pin_start\<rparr> s
    \<and> permitted [] (nf_table (fw (maps (ig_soap s)))) \<and> enough_filter_rules (fw (maps (ig_soap s)))
    \<and> pin_ok (ig_pins s) \<and> nf_ok (fw (maps (ig_soap s)))"
proof -
  let ?s = "\<lparr>ig_soap = soap_start empty_nf, ig_pins = pin_start\<rparr>"
  have "ExecuteSoapAction netfilter_ops (sample_soap\<lparr>so_rdr := sample_conf\<lparr>rc_perms := []\<rparr>\<rparr>) (sample_request 1 ''a'' []) [CHR 0x00] 0 ?s
      = Some (Inr (SoapError 401 ''Invalid Action''), ?s)" by (simp add: ExecuteSoapAction_def soap_method_def)
  then have "igd_step netfilter_ops [] ?s ?s" by (rule igd_step.Request [rotated]) simp
  then have "igd_reach netfilter_ops [] ?s ?s" using igd_reach.Step [OF igd_reach.Start] by blast
  moreover from this have "permitted [] (nf_table (fw (maps (ig_soap ?s)))) \<and> enough_filter_rules (fw (maps (ig_soap ?s)))
    \<and> pin_ok (ig_pins ?s) \<and> nf_ok (fw (maps (ig_soap ?s)))"
    by (rule soap_requests_permitted) (simp_all add: empty_nf_ok empty_nf_table pin_start_ok fun_eq_iff)
  ultimately show ?thesis by blast
qed

end
