(* ===== verification/Pcp_Message.thy ===== *)
theory Pcp_Message
  imports Inet6
begin

text \<open>
  The messages of the port control protocol in \<^verbatim>\<open>pcpserver.c\<close>: the fields of a request, its
  options, and the response written over the buffer of the request. A buffer is a list of bytes of
  its full capacity, zero behind the packet, as the callers allocate it.
\<close>

section \<open>The fields of a message\<close>

text \<open>\<^verbatim>\<open>pcp_info_t\<close>. The pointers into the buffer are the addresses they point to, \<open>None\<close> when null:
  the bytes they point to do not change before the response is written.\<close>

record pcp_info =
  pi_version :: byte
  pi_opcode :: byte
  pi_result :: byte
  pi_lifetime :: u32
  pi_nonce :: "byte list"
  pi_protocol :: byte
  pi_int_port :: port
  pi_int_ip :: "in6_addr option"
  pi_ext_port :: port
  pi_ext_ip :: "in6_addr option"
  pi_peer_port :: port
  pi_peer_ip :: "in6_addr option"
  pi_thirdp_ip :: "in6_addr option"
  pi_mapped_ip :: "in6_addr option"
  pi_mapped_str :: string
  pi_pfailure :: bool
  pi_sender_ip :: in6_addr
  pi_is_fw :: bool
  pi_desc :: string

definition pcp_cleared :: "in6_addr \<Rightarrow> pcp_info" where
  "pcp_cleared sender =
     \<lparr>pi_version = 0, pi_opcode = 0, pi_result = 0, pi_lifetime = 0, pi_nonce = replicate 12 0, pi_protocol = 0,
      pi_int_port = 0, pi_int_ip = None, pi_ext_port = 0, pi_ext_ip = None, pi_peer_port = 0, pi_peer_ip = None,
      pi_thirdp_ip = None, pi_mapped_ip = None, pi_mapped_str = [], pi_pfailure = False,
      pi_sender_ip = sender, pi_is_fw = False, pi_desc = []\<rparr>"

definition PCP_OPCODE_ANNOUNCE :: byte where "PCP_OPCODE_ANNOUNCE = 0"
definition PCP_OPCODE_MAP :: byte where "PCP_OPCODE_MAP = 1"
definition PCP_OPCODE_PEER :: byte where "PCP_OPCODE_PEER = 2"

definition PCP_SUCCESS :: byte where "PCP_SUCCESS = 0"
definition PCP_ERR_UNSUPP_VERSION :: byte where "PCP_ERR_UNSUPP_VERSION = 1"
definition PCP_ERR_NOT_AUTHORIZED :: byte where "PCP_ERR_NOT_AUTHORIZED = 2"
definition PCP_ERR_MALFORMED_REQUEST :: byte where "PCP_ERR_MALFORMED_REQUEST = 3"
definition PCP_ERR_UNSUPP_OPCODE :: byte where "PCP_ERR_UNSUPP_OPCODE = 4"
definition PCP_ERR_UNSUPP_OPTION :: byte where "PCP_ERR_UNSUPP_OPTION = 5"
definition PCP_ERR_MALFORMED_OPTION :: byte where "PCP_ERR_MALFORMED_OPTION = 6"
definition PCP_ERR_NETWORK_FAILURE :: byte where "PCP_ERR_NETWORK_FAILURE = 7"
definition PCP_ERR_NO_RESOURCES :: byte where "PCP_ERR_NO_RESOURCES = 8"
definition PCP_ERR_USER_EX_QUOTA :: byte where "PCP_ERR_USER_EX_QUOTA = 10"
definition PCP_ERR_CANNOT_PROVIDE_EXTERNAL :: byte where "PCP_ERR_CANNOT_PROVIDE_EXTERNAL = 11"
definition PCP_ERR_ADDRESS_MISMATCH :: byte where "PCP_ERR_ADDRESS_MISMATCH = 12"

definition PCP_MIN_LEN :: nat where "PCP_MIN_LEN = 24"
definition PCP_MAX_LEN :: nat where "PCP_MAX_LEN = 1100"

lemmas pcp_codes =
  PCP_OPCODE_ANNOUNCE_def PCP_OPCODE_MAP_def PCP_OPCODE_PEER_def PCP_SUCCESS_def PCP_ERR_UNSUPP_VERSION_def
  PCP_ERR_NOT_AUTHORIZED_def PCP_ERR_MALFORMED_REQUEST_def PCP_ERR_UNSUPP_OPCODE_def PCP_ERR_UNSUPP_OPTION_def
  PCP_ERR_MALFORMED_OPTION_def PCP_ERR_NETWORK_FAILURE_def PCP_ERR_NO_RESOURCES_def PCP_ERR_USER_EX_QUOTA_def
  PCP_ERR_CANNOT_PROVIDE_EXTERNAL_def PCP_ERR_ADDRESS_MISMATCH_def

section \<open>Reading a request\<close>

definition in6_of_bytes :: "byte list \<Rightarrow> in6_addr" where
  "in6_of_bytes bs = foldl (\<lambda>a b. push_bit 8 a OR ucast b) 0 bs"

definition read_in6 :: "byte list \<Rightarrow> nat \<Rightarrow> in6_addr" where
  "read_in6 p i = in6_of_bytes (take 16 (drop i p))"

definition bytes_of_in6 :: "in6_addr \<Rightarrow> byte list" where
  "bytes_of_in6 a = map (\<lambda>k. ucast (drop_bit (8 * (15 - k)) a)) [0..<16]"

text \<open>\<open>min_lt\<close> and \<open>max_lt\<close> are the configured bounds of a lifetime, in 64 bits.\<close>

definition clamp_lifetime :: "64 word \<Rightarrow> 64 word \<Rightarrow> u32 \<Rightarrow> u32" where
  "clamp_lifetime min_lt max_lt lifetime =
     (let l = (if max_lt < ucast lifetime then ucast max_lt else lifetime)
      in if ucast l < min_lt \<and> l \<noteq> 0 then ucast min_lt else l)"

text \<open>The header of a request; the flag tells of a problem.\<close>

definition parseCommonRequestHeader :: "64 word \<Rightarrow> 64 word \<Rightarrow> byte list \<Rightarrow> pcp_info \<Rightarrow> bool \<times> pcp_info" where
  "parseCommonRequestHeader min_lt max_lt p pi =
     (let pi1 = pi\<lparr>pi_version := p ! 0, pi_opcode := (p ! 1) AND 0x7f, pi_lifetime := readnu32 p 4,
                   pi_int_ip := Some (read_in6 p 8), pi_mapped_ip := Some (read_in6 p 8)\<rparr>
      in if pi_version pi1 > 2 then (True, pi1\<lparr>pi_result := PCP_ERR_UNSUPP_VERSION\<rparr>)
         else (False, pi1\<lparr>pi_lifetime := clamp_lifetime min_lt max_lt (pi_lifetime pi1)\<rparr>))"

text \<open>The fields of a request at the offset \<open>i\<close>.\<close>

definition parsePCPMAP_version1 :: "byte list \<Rightarrow> nat \<Rightarrow> pcp_info \<Rightarrow> pcp_info" where
  "parsePCPMAP_version1 p i pi =
     pi\<lparr>pi_protocol := p ! i, pi_int_port := readnu16 p (i + 4), pi_ext_port := readnu16 p (i + 6),
        pi_ext_ip := Some (read_in6 p (i + 8))\<rparr>"

definition parsePCPMAP_version2 :: "byte list \<Rightarrow> nat \<Rightarrow> pcp_info \<Rightarrow> pcp_info" where
  "parsePCPMAP_version2 p i pi =
     pi\<lparr>pi_nonce := take 12 (drop i p), pi_protocol := p ! (i + 12), pi_int_port := readnu16 p (i + 16),
        pi_ext_port := readnu16 p (i + 18), pi_ext_ip := Some (read_in6 p (i + 20))\<rparr>"

definition parsePCPPEER_version1 :: "byte list \<Rightarrow> nat \<Rightarrow> pcp_info \<Rightarrow> pcp_info" where
  "parsePCPPEER_version1 p i pi =
     pi\<lparr>pi_protocol := p ! i, pi_int_port := readnu16 p (i + 4), pi_ext_port := readnu16 p (i + 6),
        pi_peer_port := readnu16 p (i + 24), pi_ext_ip := Some (read_in6 p (i + 8)),
        pi_peer_ip := Some (read_in6 p (i + 28))\<rparr>"

definition parsePCPPEER_version2 :: "byte list \<Rightarrow> nat \<Rightarrow> pcp_info \<Rightarrow> pcp_info" where
  "parsePCPPEER_version2 p i pi =
     pi\<lparr>pi_nonce := take 12 (drop i p), pi_protocol := p ! (i + 12), pi_int_port := readnu16 p (i + 16),
        pi_ext_port := readnu16 p (i + 18), pi_peer_port := readnu16 p (i + 36),
        pi_ext_ip := Some (read_in6 p (i + 20)), pi_peer_ip := Some (read_in6 p (i + 40))\<rparr>"

section \<open>Options\<close>

text \<open>One option at the offset \<open>i\<close> with \<open>remain\<close> bytes left. The length is computed in 16 bits; the
  result is the length to skip, 0 to stop. An unknown mandatory option sets the result code and is
  skipped like the others.\<close>

definition parsePCPOption :: "byte list \<Rightarrow> nat \<Rightarrow> nat \<Rightarrow> pcp_info \<Rightarrow> port \<times> pcp_info" where
  "parsePCPOption p i remain pi =
     (if remain < 4 then (0, pi\<lparr>pi_result := PCP_ERR_MALFORMED_OPTION\<rparr>)
      else (let option_length = readnu16 p (i + 2) + 4; code = p ! i;
                malformed = (0, pi\<lparr>pi_result := PCP_ERR_MALFORMED_OPTION\<rparr>)
        in if remain < unat option_length then malformed
           else if code = 1 then
             (if option_length \<noteq> 20 then malformed
              else if pi_thirdp_ip pi \<noteq> None then malformed
              else (option_length, pi\<lparr>pi_thirdp_ip := Some (read_in6 p (i + 4)), pi_mapped_ip := Some (read_in6 p (i + 4))\<rparr>))
           else if code = 2 then
             (if option_length \<noteq> 4 then malformed
              else (let pi1 = (if pi_opcode pi \<noteq> PCP_OPCODE_MAP then pi\<lparr>pi_result := PCP_ERR_MALFORMED_REQUEST\<rparr> else pi)
                in (option_length, if pi_pfailure pi1 then pi1\<lparr>pi_result := PCP_ERR_MALFORMED_OPTION\<rparr>
                                   else pi1\<lparr>pi_pfailure := True\<rparr>)))
           else if code = 3 then
             (if option_length \<noteq> 24 then malformed
              else if pi_opcode pi \<noteq> PCP_OPCODE_MAP then (0, pi\<lparr>pi_result := PCP_ERR_MALFORMED_REQUEST\<rparr>)
              else (option_length, pi))
           else if code < 128 then (option_length, pi\<lparr>pi_result := PCP_ERR_UNSUPP_OPTION\<rparr>)
           else (option_length, pi)))"

lemma option_length_le:
  "parsePCPOption p i remain pi = (n, pi') \<Longrightarrow> unat n \<le> remain"
  by (auto simp: parsePCPOption_def Let_def split: if_splits)

function parsePCPOptions :: "byte list \<Rightarrow> nat \<Rightarrow> nat \<Rightarrow> pcp_info \<Rightarrow> pcp_info" where
  "parsePCPOptions p i remain pi =
     (if remain = 0 then pi
      else (case parsePCPOption p i remain pi of (n, pi1) \<Rightarrow>
        (if n = 0 then pi1 else parsePCPOptions p (i + unat n) (remain - unat n) pi1)))"
  by pat_completeness auto

termination parsePCPOptions
  by (relation "measure (\<lambda>(p, i, remain, pi). remain)") (auto simp: unat_gt_0)

declare parsePCPOptions.simps [simp del]

section \<open>The response\<close>

text \<open>Bytes written into a buffer.\<close>

definition poke :: "nat \<Rightarrow> byte list \<Rightarrow> byte list \<Rightarrow> byte list" where
  "poke i bs p = take i p @ bs @ drop (i + length bs) p"

definition poke_in6 :: "nat \<Rightarrow> in6_addr option \<Rightarrow> byte list \<Rightarrow> byte list" where
  "poke_in6 i a p = (case a of None \<Rightarrow> p | Some x \<Rightarrow> poke i (bytes_of_in6 x) p)"

definition response_lifetime :: "pcp_info \<Rightarrow> u32" where
  "response_lifetime pi =
     (if pi_result pi \<in> {1, 2, 3, 4, 5, 6, 9, 12, 11, 13} then 0
      else if pi_result pi \<in> {7, 8, 10} then 30 else pi_lifetime pi)"

definition response_fields :: "pcp_info \<Rightarrow> byte \<Rightarrow> byte list \<Rightarrow> byte list" where
  "response_fields pi version p =
     (if pi_opcode pi OR 0x80 = 0x81 then
        (if version = 1 then poke_in6 32 (pi_ext_ip pi) (poke 30 (writenu16 (pi_ext_port pi)) (poke 28 (writenu16 (pi_int_port pi)) p))
         else if version = 2 then poke_in6 44 (pi_ext_ip pi) (poke 42 (writenu16 (pi_ext_port pi)) (poke 40 (writenu16 (pi_int_port pi)) p))
         else p)
      else if pi_opcode pi OR 0x80 = 0x82 then
        (if version = 1 then poke_in6 32 (pi_ext_ip pi) (poke 48 (writenu16 (pi_peer_port pi))
           (poke 30 (writenu16 (pi_ext_port pi)) (poke 28 (writenu16 (pi_int_port pi)) p)))
         else if version = 2 then poke_in6 44 (pi_ext_ip pi) (poke 60 (writenu16 (pi_peer_port pi))
           (poke 42 (writenu16 (pi_ext_port pi)) (poke 40 (writenu16 (pi_int_port pi)) p)))
         else p)
      else p)"

text \<open>\<open>epoch\<close> is the time since the start of the epoch.\<close>

definition createPCPResponse :: "u32 \<Rightarrow> pcp_info \<Rightarrow> byte list \<Rightarrow> byte list" where
  "createPCPResponse epoch pi p =
     (let version = (if pi_result pi = PCP_ERR_UNSUPP_VERSION then 2 else pi_version pi)
      in response_fields pi version
        (poke 4 (writenu32 (response_lifetime pi))
          (poke 8 (writenu32 epoch)
            (poke 3 [pi_result pi] (poke 1 [pi_opcode pi OR 0x80] (poke 0 [version]
              (poke 12 (replicate 12 0) (poke 2 [0] p))))))))"

end
