(* ===== verification/Lan_Addr.thy ===== *)
theory Lan_Addr
  imports Inet6
begin

text \<open>
  The peers of the daemon's sockets and the LAN they belong to: \<^verbatim>\<open>get_lan_for_peer\<close> of
  \<^verbatim>\<open>upnputils.c\<close> over the list of LAN interfaces.
\<close>

text \<open>An address of a socket: IPv4, IPv6 with its scope, or another family.\<close>

datatype sockaddr =
    Sin ipv4 port
  | Sin6 in6_addr u32 port
  | Other_family int

record lan_addr_s =
  la_ifname :: string
  la_index :: u32
  la_str :: string
  la_addr :: ipv4
  la_mask :: ipv4

definition v4mapped :: "in6_addr \<Rightarrow> bool" where
  "v4mapped a \<longleftrightarrow> drop_bit 32 a = 0xffff"

definition to_v4mapped :: "ipv4 \<Rightarrow> in6_addr" where
  "to_v4mapped a = push_bit 32 0xffff OR ucast a"

definition in_lan :: "ipv4 \<Rightarrow> lan_addr_s \<Rightarrow> bool" where
  "in_lan a l \<longleftrightarrow> a AND la_mask l = la_addr l AND la_mask l"

text \<open>\<open>route\<close> is the index of the interface the kernel routes to an IPv6 address. Indexes are
  compared as signed numbers.\<close>

definition get_lan_for_peer :: "(in6_addr \<Rightarrow> int option) \<Rightarrow> lan_addr_s list \<Rightarrow> sockaddr \<Rightarrow> lan_addr_s option" where
  "get_lan_for_peer route lans peer =
     (case peer of
        Sin a _ \<Rightarrow> find (in_lan a) lans
      | Sin6 a scope _ \<Rightarrow>
        (if v4mapped a then find (in_lan (ucast a)) lans
         else (case (if scope > 0 then Some (sint scope) else route a) of
             None \<Rightarrow> None
           | Some index \<Rightarrow> find (\<lambda>l. index = sint (la_index l)) lans))
      | Other_family _ \<Rightarrow> None)"

lemma bit_to_v4mapped: "bit (to_v4mapped a) k \<longleftrightarrow> (if k < 32 then bit a k else k < 48)"
proof -
  have "(0xffff :: in6_addr) = mask 16" by (simp add: mask_eq_exp_minus_1)
  then have "to_v4mapped a = push_bit 32 (mask 16) OR ucast a" unfolding to_v4mapped_def by (simp only:)
  then show ?thesis by (auto simp: bit_simps dest: bit_imp_le_length)
qed

lemma v4mapped_to [simp]: "v4mapped (to_v4mapped a)"
proof -
  have "drop_bit 32 (to_v4mapped a) = mask 16"
    by (rule bit_word_eqI) (auto simp: bit_simps bit_to_v4mapped)
  then show ?thesis by (simp add: v4mapped_def mask_eq_exp_minus_1)
qed

lemma ucast_v4mapped [simp]: "(ucast (to_v4mapped a) :: ipv4) = a"
  by (rule bit_word_eqI) (auto simp: bit_simps bit_to_v4mapped)

lemma v4mapped_ucast: "v4mapped a \<Longrightarrow> to_v4mapped (ucast a) = a"
proof (rule bit_word_eqI)
  fix k assume a: "v4mapped a" and k: "k < LENGTH(128)"
  have "drop_bit 32 a = mask 16" using a by (simp add: v4mapped_def mask_eq_exp_minus_1)
  then have "bit (drop_bit 32 a) (k - 32) = bit (mask 16 :: in6_addr) (k - 32)" by simp
  then have "bit a k \<longleftrightarrow> k < 48" if "32 \<le> k" using that k by (auto simp: bit_simps)
  then show "bit (to_v4mapped (ucast a)) k = bit a k"
    using k by (auto simp: bit_to_v4mapped bit_simps)
qed

text \<open>An address in a LAN shares its network part, whichever way its socket writes it.\<close>

lemma lan_of_mapped_peer: "get_lan_for_peer route lans (Sin6 (to_v4mapped a) scope p) = get_lan_for_peer route lans (Sin a p')"
  by (simp add: get_lan_for_peer_def)

lemma lan_of_peer_contains:
  "get_lan_for_peer route lans (Sin a p) = Some l \<Longrightarrow> l \<in> set lans \<and> in_lan a l"
  by (auto simp: get_lan_for_peer_def find_Some_iff)

end
