(* ===== verification/Pcp_Server.thy ===== *)
theory Pcp_Server
  imports Pcp_Message Lan_Addr Natpmp Pinhole
begin

text \<open>
  The port control protocol server of \<^verbatim>\<open>pcpserver.c\<close>, built with PEER and without the options
  \<^verbatim>\<open>PCP_FLOWP\<close> and \<^verbatim>\<open>PCP_SADSCP\<close>: validation of a request, the MAP operation on port mappings and
  on pinholes, the PEER operation on source NAT rules, and the response.
\<close>

section \<open>Configuration and state\<close>

text \<open>\<open>pc_ifaddr\<close> is the IPv4 address of the external interface, \<open>pc_route\<close> the interface the kernel
  routes to an address, \<open>pc_conntrack\<close> the external port of a connection the kernel tracks already,
  from its source, its destination and its protocol.\<close>

record pcp_conf =
  pc_rdr :: rdr_conf
  pc_min_lifetime :: "64 word"
  pc_max_lifetime :: "64 word"
  pc_use_ext_ip_addr :: "string option"
  pc_ext_if_name :: "string option"
  pc_ext_if_name6 :: "string option"
  pc_ifaddr :: "ipv4 option"
  pc_third_party :: bool
  pc_startup_time :: u32
  pc_lans :: "lan_addr_s list"
  pc_route :: "in6_addr \<Rightarrow> int option"
  pc_conntrack :: "in6_addr \<times> port \<Rightarrow> in6_addr \<times> port \<Rightarrow> byte \<Rightarrow> port option"

record pcp_state =
  pc_maps :: "nf rdr_state"
  pc_pins :: ip6_state
  pc_epoch_origin :: u32

section \<open>Addresses and descriptions\<close>

definition inet_n46top :: "in6_addr \<Rightarrow> string" where
  "inet_n46top a = (if v4mapped a then dotted (ucast a) else inet_ntop6 a)"

text \<open>No address, the unspecified one, or the IPv4 address 0.\<close>

definition in6_unset :: "in6_addr option \<Rightarrow> bool" where
  "in6_unset x \<longleftrightarrow> (case x of None \<Rightarrow> True | Some a \<Rightarrow> a = 0 \<or> (v4mapped a \<and> (ucast a :: ipv4) = 0))"

definition external_address :: "pcp_conf \<Rightarrow> pcp_info \<Rightarrow> in6_addr option" where
  "external_address cf pi =
     (if pi_is_fw pi then pi_mapped_ip pi
      else (case pc_use_ext_ip_addr cf of
          Some s \<Rightarrow> (case inet_pton4 s of Some b \<Rightarrow> Some (to_v4mapped (readnu32 b 0)) | None \<Rightarrow> inet_pton6 s)
        | None \<Rightarrow>
          (if pc_ext_if_name cf = None \<or> pc_ext_if_name cf = Some [] then None
           else map_option to_v4mapped (pc_ifaddr cf))))"

definition CheckExternalAddress :: "pcp_conf \<Rightarrow> pcp_info \<Rightarrow> bool \<times> pcp_info" where
  "CheckExternalAddress cf pi =
     (let pi1 = pi\<lparr>pi_is_fw := \<not> (case pi_mapped_ip pi of None \<Rightarrow> False | Some a \<Rightarrow> v4mapped a)\<rparr> in
      case external_address cf pi1 of
        None \<Rightarrow> (False, pi1\<lparr>pi_result := PCP_ERR_NETWORK_FAILURE\<rparr>)
      | Some ext \<Rightarrow>
        (if in6_unset (pi_ext_ip pi1) then (True, pi1\<lparr>pi_ext_ip := Some ext\<rparr>)
         else if pi_ext_ip pi1 \<noteq> Some ext
         then (if pi_pfailure pi1 then (False, pi1\<lparr>pi_result := PCP_ERR_CANNOT_PROVIDE_EXTERNAL\<rparr>)
               else (True, pi1\<lparr>pi_ext_ip := Some ext\<rparr>))
         else (True, pi1)))"

text \<open>\<^verbatim>\<open>%08x\<close>; the three words of the nonce are read as a little-endian machine stores them.\<close>

definition hex8 :: "u32 \<Rightarrow> string" where
  "hex8 w = map (\<lambda>k. hex_char (unat w div 16 ^ (7 - k) mod 16)) [0..<8]"

definition nonce_word :: "nat \<Rightarrow> byte list \<Rightarrow> u32" where
  "nonce_word k nonce = readnu32 (rev (take 4 (drop (4 * k) nonce))) 0"

definition getPCPOpCodeStr :: "byte \<Rightarrow> string" where
  "getPCPOpCodeStr opcode =
     (if opcode = PCP_OPCODE_ANNOUNCE then ''ANNOUNCE'' else if opcode = PCP_OPCODE_MAP then ''MAP''
      else if opcode = PCP_OPCODE_PEER then ''PEER'' else ''UNKNOWN'')"

definition pcp_desc :: "byte \<Rightarrow> byte list \<Rightarrow> string" where
  "pcp_desc opcode nonce =
     take 63 (''PCP '' @ getPCPOpCodeStr opcode @ '' '' @ hex8 (nonce_word 0 nonce) @ hex8 (nonce_word 1 nonce)
       @ hex8 (nonce_word 2 nonce))"

section \<open>Validation\<close>

definition ValidatePCPMsg :: "pcp_conf \<Rightarrow> pcp_info \<Rightarrow> bool \<times> pcp_info" where
  "ValidatePCPMsg cf pi =
     (if pi_result pi \<noteq> 0 then (False, pi)
      else if pi_int_ip pi \<noteq> Some (pi_sender_ip pi) then (False, pi\<lparr>pi_result := PCP_ERR_ADDRESS_MISMATCH\<rparr>)
      else if pi_thirdp_ip pi \<noteq> None \<and> \<not> pc_third_party cf then (False, pi\<lparr>pi_result := PCP_ERR_UNSUPP_OPTION\<rparr>)
      else if pi_thirdp_ip pi = Some (pi_sender_ip pi) then (False, pi\<lparr>pi_result := PCP_ERR_MALFORMED_REQUEST\<rparr>)
      else (let pi1 = pi\<lparr>pi_mapped_str := (case pi_mapped_ip pi of None \<Rightarrow> [] | Some a \<Rightarrow> inet_n46top a)\<rparr> in
        if pi_protocol pi1 = 0 \<and> pi_int_port pi1 \<noteq> 0 then (False, pi1\<lparr>pi_result := PCP_ERR_MALFORMED_REQUEST\<rparr>)
        else if pi_pfailure pi1 \<and> in6_unset (pi_ext_ip pi1) \<and> pi_ext_port pi1 = 0
        then (False, pi1\<lparr>pi_result := PCP_ERR_MALFORMED_OPTION\<rparr>)
        else (let (ok, pi2) = CheckExternalAddress cf pi1 in
          if \<not> ok then (False, pi2)
          else (True, if pi_opcode pi2 = PCP_OPCODE_MAP \<or> pi_opcode pi2 = PCP_OPCODE_PEER
                      then pi2\<lparr>pi_desc := pcp_desc (pi_opcode pi2) (pi_nonce pi2)\<rparr> else pi2))))"

section \<open>MAP on port mappings\<close>

definition pcp_sizes :: buf_sizes where
  "pcp_sizes = \<lparr>iaddrlen = 46, desclen = 64, rhostlen = 46\<rparr>"

definition pcp_lookup_sizes :: buf_sizes where
  "pcp_lookup_sizes = \<lparr>iaddrlen = 46, desclen = 0, rhostlen = 0\<rparr>"

text \<open>The search for an external port, \<open>first\<close> is 0 in the first round: the result code, 0 to go on, and
  the port it ends at.\<close>

function pcp_search ::
  "'st fw_ops \<Rightarrow> rdr_conf \<Rightarrow> in6_addr \<Rightarrow> string \<Rightarrow> port \<Rightarrow> int \<Rightarrow> bool \<Rightarrow> port \<Rightarrow> bool \<Rightarrow> port \<Rightarrow> 'st rdr_state
    \<Rightarrow> (fw_fault + byte \<times> port) \<times> 'st rdr_state" where
  "pcp_search ops cf mapped mapped_str iport proto pfailure eport_first any_eport_allowed eport st =
     (if eport_first \<noteq> 0 \<and> eport = eport_first
      then (Inr (if any_eport_allowed then PCP_ERR_NO_RESOURCES else PCP_ERR_NOT_AUTHORIZED, eport), st)
      else (let first = (if eport_first = 0 then eport else eport_first);
                next_port = (\<lambda>any st1. pcp_search ops cf mapped mapped_str iport proto pfailure first any (next_eport eport) st1);
                refuse = (\<lambda>st1. (Inr (PCP_ERR_CANNOT_PROVIDE_EXTERNAL, eport), st1))
        in if v4mapped mapped \<and> \<not> check_upnp_rule_against_permissions (rc_perms cf) eport (ucast mapped) iport
           then (if pfailure then refuse st else next_port any_eport_allowed st)
           else if (case rc_port_in_use cf of None \<Rightarrow> False | Some test \<Rightarrow> test eport proto mapped_str iport > 0)
           then next_port True st
           else (let (found, fw1) = op_get ops pcp_lookup_sizes eport proto (fw st); st1 = st\<lparr>fw := fw1\<rparr> in
             case found of None \<Rightarrow> (Inr (PCP_SUCCESS, eport), st1)
             | Some i \<Rightarrow>
               (if mapped_str \<noteq> i_iaddr i \<or> iport \<noteq> i_iport i
                then (if pfailure then refuse st1 else next_port True st1)
                else (case upnp_delete_redir ops cf eport proto st1 of
                    (Inl f, st2) \<Rightarrow> (Inl f, st2)
                  | (Inr r, st2) \<Rightarrow>
                    (if r = 0 then (Inr (PCP_SUCCESS, eport), st2)
                     else if pfailure then refuse st2 else next_port True st2))))))"
  by pat_completeness auto

termination pcp_search
  by (relation "measure (\<lambda>(ops, cf, mapped, s, iport, proto, pfailure, first, any, eport, st). natpmp_dist first eport)")
    (auto simp: natpmp_dist_first natpmp_dist_next split: if_splits)

declare pcp_search.simps [simp del]

text \<open>The result code and the external port, and the changed mappings.\<close>

definition CreatePCPMap_NAT ::
  "'st fw_ops \<Rightarrow> rdr_conf \<Rightarrow> pcp_info \<Rightarrow> in6_addr \<Rightarrow> 'st rdr_state \<Rightarrow> (fw_fault + byte \<times> port) \<times> 'st rdr_state" where
  "CreatePCPMap_NAT ops cf pi mapped st =
     (let timestamp = upnp_time (rc_env cf) + pi_lifetime pi;
          start = (if pi_ext_port pi = 0 then pi_int_port pi else pi_ext_port pi)
      in if start = 0 then (Inr (PCP_ERR_MALFORMED_REQUEST, start), st)
         else (case pcp_search ops cf mapped (pi_mapped_str pi) (pi_int_port pi) (uint (pi_protocol pi)) (pi_pfailure pi)
                      0 False start st of
             (Inl f, st1) \<Rightarrow> (Inl f, st1)
           | (Inr (code, eport), st1) \<Rightarrow>
             (if code \<noteq> PCP_SUCCESS then (Inr (code, eport), st1)
              else (let (r, st2) = upnp_redirect_internal ops cf None eport (pi_mapped_str pi) (pi_int_port pi)
                                     (uint (pi_protocol pi)) (pi_desc pi) timestamp st1
                    in (Inr (if r < 0 then PCP_ERR_NO_RESOURCES else PCP_SUCCESS, eport), st2)))))"

text \<open>The mappings by index, up to the first of the client, the protocol and the port, whatever made it.
  \<open>None\<close> is the result code left as it is.\<close>

partial_function (option) pcp_delete_loop ::
  "'st fw_ops \<Rightarrow> rdr_conf \<Rightarrow> string \<Rightarrow> int \<Rightarrow> port \<Rightarrow> string \<Rightarrow> nat \<Rightarrow> 'st rdr_state
    \<Rightarrow> ((fw_fault + byte option) \<times> 'st rdr_state) option" where
  "pcp_delete_loop ops cf mapped_str proto iport desc index st =
     (let (found, fw1) = op_get_by_index ops index pcp_sizes (fw st); st1 = st\<lparr>fw := fw1\<rparr> in
      case found of None \<Rightarrow> Some (Inr (Some PCP_ERR_NO_RESOURCES), st1)
      | Some (proto2, eport2, i) \<Rightarrow>
        (if i_iaddr i = mapped_str \<and> proto2 = proto \<and> (i_iport i = iport \<or> iport = 0)
         then (if cstring (i_desc i) \<noteq> desc then Some (Inr (Some PCP_ERR_NOT_AUTHORIZED), st1)
               else (case upnp_delete_redir ops cf eport2 proto2 st1 of
                   (Inl f, st2) \<Rightarrow> Some (Inl f, st2)
                 | (Inr r, st2) \<Rightarrow> Some (Inr (if 0 \<le> r then None else Some PCP_ERR_NO_RESOURCES), st2)))
         else pcp_delete_loop ops cf mapped_str proto iport desc (index + 1) st1))"

section \<open>MAP on pinholes\<close>

text \<open>The result code and the external port; \<open>None\<close>: the search for an identifier does not end.\<close>

definition CreatePCPMap_FW ::
  "string option \<Rightarrow> u32 \<Rightarrow> pcp_info \<Rightarrow> ip6_state \<Rightarrow> ((fw_fault + byte \<times> port) \<times> ip6_state) option" where
  "CreatePCPMap_FW ifname6 now pi s =
     (let proto = uint (pi_protocol pi) in
      case upnp_find_inboundpinhole None 0 (pi_mapped_str pi) (pi_int_port pi) proto s of Inl f \<Rightarrow> Some (Inl f, s)
      | Inr uid \<Rightarrow>
        (if 0 \<le> uid
         then (let (r, s1) = upnp_update_inboundpinhole now (word_of_int uid) (pi_lifetime pi) s
               in Some (Inr (if 0 \<le> r then PCP_SUCCESS else PCP_ERR_NO_RESOURCES, pi_ext_port pi), s1))
         else map_option (\<lambda>(r, s1). (map_sum id (\<lambda>(c, u). if c < 0 then (PCP_ERR_NO_RESOURCES, pi_ext_port pi)
                                                           else (PCP_SUCCESS, pi_int_port pi)) r, s1))
                (upnp_add_inboundpinhole ifname6 now None 0 (pi_mapped_str pi) (pi_int_port pi) proto (pi_desc pi)
                   (pi_lifetime pi) s)))"

function pcp_delete_hole ::
  "u32 \<Rightarrow> string \<Rightarrow> int \<Rightarrow> port \<Rightarrow> string \<Rightarrow> nat \<Rightarrow> ip6_state \<Rightarrow> (fw_fault + byte option) \<times> ip6_state" where
  "pcp_delete_hole now mapped_str proto iport desc index s =
     (let uid = upnp_get_pinhole_uid_by_index index s in
      if uid < 0 then (Inr (Some PCP_ERR_NO_RESOURCES), s)
      else (case upnp_get_pinhole_info now False (word_of_int uid) s of
          (Inl f, s1) \<Rightarrow> (Inl f, s1)
        | (Inr (Inl r), s1) \<Rightarrow> (Inr (Some PCP_ERR_NO_RESOURCES), s1)
        | (Inr (Inr (q, _)), s1) \<Rightarrow>
          (if inet_ntop6 (ph_daddr q) = mapped_str \<and> uint (ph_proto q) = proto \<and> (ph_dport q = iport \<or> iport = 0)
           then (if cstring (strncpy (ph_desc q) 64) \<noteq> desc then (Inr (Some PCP_ERR_NOT_AUTHORIZED), s1)
                 else (let (r, s2) = upnp_delete_inboundpinhole (word_of_int uid) s1
                       in (Inr (if 0 \<le> r then None else Some PCP_ERR_NO_RESOURCES), s2)))
           else pcp_delete_hole now mapped_str proto iport desc (index + 1) s)))"
  by pat_completeness auto

termination pcp_delete_hole
  by (relation "measure (\<lambda>(now, mapped_str, proto, iport, desc, index, s). length (pinhole_list s) - index)")
    (auto simp: upnp_get_pinhole_uid_by_index_def get_pinhole_uid_by_index_def split: if_splits)

declare pcp_delete_hole.simps [simp del]

section \<open>PEER\<close>

text \<open>The source NAT rule of a connection. A tracked connection keeps its external port.\<close>

definition CreatePCPPeer_NAT :: "pcp_conf \<Rightarrow> pcp_info \<Rightarrow> nf rdr_state \<Rightarrow> (byte \<times> port) \<times> nf rdr_state" where
  "CreatePCPPeer_NAT cf pi st =
     (let mapped = the (pi_mapped_ip pi); peer = the (pi_peer_ip pi);
          timestamp = upnp_time (rc_env (pc_rdr cf)) + pi_lifetime pi;
          eport0 = (case pc_conntrack cf (mapped, pi_int_port pi) (peer, pi_peer_port pi) (pi_protocol pi) of
                      None \<Rightarrow> pi_ext_port pi | Some p \<Rightarrow> p);
          eport = (if eport0 = 0 then pi_int_port pi else eport0);
          (r, fw1) = add_peer_redirect_rule2 (Some (inet_n46top peer)) (pi_peer_port pi)
                       (inet_n46top (the (pi_ext_ip pi))) eport (pi_mapped_str pi) (pi_int_port pi)
                       (uint (pi_protocol pi)) (Some (pi_desc pi)) timestamp (fw st)
      in (if r < 0 then (PCP_ERR_NO_RESOURCES, pi_ext_port pi) else (PCP_SUCCESS, eport), st\<lparr>fw := fw1\<rparr>))"

text \<open>The rules by index. An address that the lookup does not write keeps its text of the previous
  round, which has no value in the first. A deletion that fails is not reported.\<close>

partial_function (option) pcp_delete_peer ::
  "rdr_conf \<Rightarrow> pcp_info \<Rightarrow> string \<Rightarrow> string option \<Rightarrow> nat \<Rightarrow> nf rdr_state
    \<Rightarrow> ((fw_fault + byte option) \<times> nf rdr_state) option" where
  "pcp_delete_peer cf pi rhost prev index st =
     (let (found, fw1) = get_peer_rule_by_index index pcp_sizes (fw st); st1 = st\<lparr>fw := fw1\<rparr> in
      case found of None \<Rightarrow> Some (Inr (Some PCP_ERR_NO_RESOURCES), st1)
      | Some q \<Rightarrow>
        (case (if p_iaddr q = None then prev else p_iaddr q) of None \<Rightarrow> Some (Inl Uninitialised, st1)
         | Some ia \<Rightarrow>
           (if ia = pi_mapped_str pi \<and> p_rhost q = rhost \<and> p_proto q = uint (pi_protocol pi)
               \<and> cstring (p_desc q) = pi_desc pi \<and> p_iport q = pi_int_port pi \<and> p_rport q = pi_peer_port pi
            then (case upnp_delete_redir netfilter_ops cf (p_eport q) (p_proto q) st1 of
                (Inl f, st2) \<Rightarrow> Some (Inl f, st2)
              | (Inr r, st2) \<Rightarrow> Some (Inr None, st2))
            else pcp_delete_peer cf pi rhost (Some ia) (index + 1) st1)))"

section \<open>The operations\<close>

text \<open>The operations on the whole state. \<open>None\<close>: the operation does not return.\<close>

type_synonym pcp_result = "((fw_fault + pcp_info) \<times> pcp_state) option"

definition set_result :: "pcp_info \<Rightarrow> byte option \<Rightarrow> pcp_info" where
  "set_result pi c = (case c of None \<Rightarrow> pi | Some code \<Rightarrow> pi\<lparr>pi_result := code\<rparr>)"

definition CreatePCPMap :: "pcp_conf \<Rightarrow> pcp_info \<Rightarrow> pcp_state \<Rightarrow> pcp_result" where
  "CreatePCPMap cf pi s =
     (let report = (\<lambda>(code, eport). pi\<lparr>pi_result := code, pi_ext_port := eport\<rparr>) in
      if pi_is_fw pi
      then map_option (\<lambda>(r, v6). (map_sum id report r, s\<lparr>pc_pins := v6\<rparr>))
             (CreatePCPMap_FW (pc_ext_if_name6 cf) (upnp_time (rc_env (pc_rdr cf))) pi (pc_pins s))
      else (let (r, m) = CreatePCPMap_NAT netfilter_ops (pc_rdr cf) pi (the (pi_mapped_ip pi)) (pc_maps s)
            in Some (map_sum id report r, s\<lparr>pc_maps := m\<rparr>)))"

definition DeletePCPMap :: "pcp_conf \<Rightarrow> pcp_info \<Rightarrow> pcp_state \<Rightarrow> pcp_result" where
  "DeletePCPMap cf pi s =
     (if pi_is_fw pi
      then (let (r, v6) = pcp_delete_hole (upnp_time (rc_env (pc_rdr cf))) (pi_mapped_str pi) (uint (pi_protocol pi))
                            (pi_int_port pi) (pi_desc pi) 0 (pc_pins s)
            in Some (map_sum id (set_result pi) r, s\<lparr>pc_pins := v6\<rparr>))
      else map_option (\<lambda>(r, m). (map_sum id (set_result pi) r, s\<lparr>pc_maps := m\<rparr>))
             (pcp_delete_loop netfilter_ops (pc_rdr cf) (pi_mapped_str pi) (uint (pi_protocol pi)) (pi_int_port pi)
                (pi_desc pi) 0 (pc_maps s)))"

definition CreatePCPPeer :: "pcp_conf \<Rightarrow> pcp_info \<Rightarrow> pcp_state \<Rightarrow> pcp_result" where
  "CreatePCPPeer cf pi s =
     (if pi_is_fw pi then Some (Inr (pi\<lparr>pi_result := PCP_ERR_UNSUPP_OPCODE\<rparr>), s)
      else (let ((code, eport), m) = CreatePCPPeer_NAT cf pi (pc_maps s)
            in Some (Inr (pi\<lparr>pi_result := code, pi_ext_port := eport\<rparr>), s\<lparr>pc_maps := m\<rparr>)))"

definition DeletePCPPeer :: "pcp_conf \<Rightarrow> pcp_info \<Rightarrow> pcp_state \<Rightarrow> pcp_result" where
  "DeletePCPPeer cf pi s =
     (if pi_is_fw pi then Some (Inr (pi\<lparr>pi_result := PCP_ERR_UNSUPP_OPCODE\<rparr>), s)
      else map_option (\<lambda>(r, m). (map_sum id (set_result pi) r, s\<lparr>pc_maps := m\<rparr>))
             (pcp_delete_peer (pc_rdr cf) pi (inet_n46top (the (pi_peer_ip pi))) None 0 (pc_maps s)))"

section \<open>A packet\<close>

text \<open>The operation of a MAP or PEER request after its options, and whether a response is sent.\<close>

definition pcp_operation ::
  "bool \<Rightarrow> (pcp_conf \<Rightarrow> pcp_info \<Rightarrow> pcp_state \<Rightarrow> pcp_result) \<Rightarrow> (pcp_conf \<Rightarrow> pcp_info \<Rightarrow> pcp_state \<Rightarrow> pcp_result)
    \<Rightarrow> pcp_conf \<Rightarrow> pcp_info \<Rightarrow> pcp_state \<Rightarrow> ((fw_fault + bool \<times> pcp_info) \<times> pcp_state) option" where
  "pcp_operation always_reply create delete cf pi s =
     (case ValidatePCPMsg cf pi of
        (False, pi1) \<Rightarrow> Some (Inr (always_reply \<or> pi_result pi1 \<noteq> 0, pi1), s)
      | (True, pi1) \<Rightarrow>
        map_option (\<lambda>(r, s1). (map_sum id (\<lambda>pi2. (True, pi2)) r, s1))
          (if pi_lifetime pi1 = 0 then delete cf pi1 s else create cf pi1 s))"

definition processPCPRequest ::
  "pcp_conf \<Rightarrow> byte list \<Rightarrow> nat \<Rightarrow> pcp_info \<Rightarrow> pcp_state \<Rightarrow> ((fw_fault + bool \<times> pcp_info) \<times> pcp_state) option" where
  "processPCPRequest cf p req_size pi0 s =
     (let pi = pi0\<lparr>pi_result := PCP_SUCCESS\<rparr>; answer = (\<lambda>pi c. Some (Inr (True, pi\<lparr>pi_result := c\<rparr>), s)) in
      if req_size < 3 then Some (Inr (False, pi), s)
      else if req_size < PCP_MIN_LEN then answer pi PCP_ERR_MALFORMED_REQUEST
      else if req_size > PCP_MAX_LEN \<or> req_size mod 4 \<noteq> 0 then answer pi PCP_ERR_MALFORMED_REQUEST
      else (let (problem, pi1) = parseCommonRequestHeader (pc_min_lifetime cf) (pc_max_lifetime cf) p pi;
                operation = (\<lambda>len parse always create delete.
                  if req_size < 24 + len then answer pi1 PCP_ERR_MALFORMED_REQUEST
                  else pcp_operation always create delete cf
                         (parsePCPOptions p (24 + len) (req_size - (24 + len)) (parse p 24 pi1)) s)
        in if problem then Some (Inr (True, pi1), s)
           else if pi_version pi1 = 1 then
             (if pi_opcode pi1 = PCP_OPCODE_MAP then operation 24 parsePCPMAP_version1 False CreatePCPMap DeletePCPMap
              else if pi_opcode pi1 = PCP_OPCODE_PEER then operation 44 parsePCPPEER_version1 False CreatePCPPeer DeletePCPPeer
              else answer pi1 PCP_ERR_UNSUPP_OPCODE)
           else if pi_version pi1 = 2 then
             (if pi_opcode pi1 = PCP_OPCODE_ANNOUNCE then Some (Inr (True, pi1), s)
              else if pi_opcode pi1 = PCP_OPCODE_MAP then operation 36 parsePCPMAP_version2 False CreatePCPMap DeletePCPMap
              else if pi_opcode pi1 = PCP_OPCODE_PEER then operation 56 parsePCPPEER_version2 True CreatePCPPeer DeletePCPPeer
              else answer pi1 PCP_ERR_UNSUPP_OPCODE)
           else answer pi1 PCP_ERR_UNSUPP_VERSION))"

text \<open>The reply to a packet of \<open>len\<close> bytes in the buffer \<open>p\<close>, if any.\<close>

definition pcp_reply :: "pcp_conf \<Rightarrow> byte list \<Rightarrow> nat \<Rightarrow> pcp_info \<Rightarrow> pcp_state \<Rightarrow> byte list \<times> pcp_state" where
  "pcp_reply cf p len pi s =
     (let epoch = (if pc_epoch_origin s = 0 then pc_startup_time cf else pc_epoch_origin s);
          reply_len = (if len < PCP_MIN_LEN then PCP_MIN_LEN else (len + 3) div 4 * 4)
      in (take reply_len (createPCPResponse (upnp_time (rc_env (pc_rdr cf)) - epoch) pi p), s\<lparr>pc_epoch_origin := epoch\<rparr>))"

definition sender_in6 :: "sockaddr \<Rightarrow> in6_addr option" where
  "sender_in6 sender = (case sender of Sin a _ \<Rightarrow> Some (to_v4mapped a) | Sin6 a _ _ \<Rightarrow> Some a | Other_family _ \<Rightarrow> None)"

definition ProcessIncomingPCPPacket ::
  "pcp_conf \<Rightarrow> byte list \<Rightarrow> nat \<Rightarrow> sockaddr \<Rightarrow> pcp_state \<Rightarrow> ((fw_fault + byte list option) \<times> pcp_state) option" where
  "ProcessIncomingPCPPacket cf p len sender s =
     (case sender_in6 sender of None \<Rightarrow> Some (Inr None, s)
      | Some addr \<Rightarrow>
        (if p ! 1 AND 128 \<noteq> 0 then Some (Inr None, s)
         else if \<not> pc_third_party cf \<and> get_lan_for_peer (pc_route cf) (pc_lans cf) sender = None then Some (Inr None, s)
         else map_option (\<lambda>(r, s1). case r of Inl f \<Rightarrow> (Inl f, s1)
                | Inr (False, _) \<Rightarrow> (Inr None, s1)
                | Inr (True, pi) \<Rightarrow> (let (reply, s2) = pcp_reply cf p len pi s1 in (Inr (Some reply), s2)))
              (processPCPRequest cf p len (pcp_cleared addr) s)))"

text \<open>The announcement of a restart, to the multicast address on every open socket; a new public
  address starts a new epoch.\<close>

definition PCPSendUnsolicitedAnnounce ::
  "pcp_conf \<Rightarrow> int list \<Rightarrow> int \<Rightarrow> pcp_state \<Rightarrow> (int \<times> string \<times> port \<times> byte list) list \<times> pcp_state" where
  "PCPSendUnsolicitedAnnounce cf sockets socket6 s =
     (let (msg, s1) = pcp_reply cf (replicate 24 0) 24 ((pcp_cleared 0)\<lparr>pi_version := 2\<rparr>) s
      in (map (\<lambda>k. (k, ''224.0.0.1'', 5350, msg)) (filter (\<lambda>k. 0 \<le> k) sockets)
          @ (if 0 \<le> socket6 then [(socket6, ''FF02::1'', 5350, msg)] else []), s1))"

definition PCPPublicAddressChanged ::
  "pcp_conf \<Rightarrow> int list \<Rightarrow> int \<Rightarrow> pcp_state \<Rightarrow> (int \<times> string \<times> port \<times> byte list) list \<times> pcp_state" where
  "PCPPublicAddressChanged cf sockets socket6 s =
     PCPSendUnsolicitedAnnounce cf sockets socket6 (s\<lparr>pc_epoch_origin := upnp_time (rc_env (pc_rdr cf))\<rparr>)"

end
