(* ===== verification/Pcp_Mappings.thy ===== *)
theory Pcp_Mappings
  imports Pcp_Server
begin

text \<open>
  What the MAP operation of the port control protocol does to the port mappings: the port a client is
  granted, PREFER_FAILURE, and deletion by the nonce. The lemmas are proved from the contract of a
  backend and used on the netfilter backend.
\<close>

section \<open>The order of the search\<close>

text \<open>How early the search from \<open>first\<close> comes to a port: the first port is the earliest.\<close>

definition rank :: "port \<Rightarrow> port \<Rightarrow> nat" where
  "rank first e = (if e = first then 65536 else unat (first - e))"

lemma rank_first: "rank first e \<le> rank first first"
  using unat_port_less [of "first - e"] by (simp add: rank_def)

lemma rank_ahead: "e \<in> ahead first cur \<Longrightarrow> rank first e \<le> unat (first - cur)"
  by (auto simp: ahead_def rank_def)

lemma sum_wraps_once: "(n + m) mod 65536 = 0 \<Longrightarrow> 0 < n \<Longrightarrow> n < 65536 \<Longrightarrow> m < 65536 \<Longrightarrow> n + m = (65536 :: nat)"
proof -
  assume nm: "(n + m) mod 65536 = 0" "0 < n" "n < 65536" "m < 65536"
  obtain k where k: "n + m = 65536 * k" using nm(1) by (metis mod_0_imp_dvd dvdE)
  then have "k \<noteq> 0" "k < 2" using nm(2-4) by auto
  then have "k = 1" by simp
  then show ?thesis using k by simp
qed

lemma rank_turn:
  assumes "rank first p \<le> rank first e"
  shows "unat (e - first) \<le> unat (p - first)"
proof -
  have minus: "unat (x - first) = 65536 - unat (first - x)" if "x \<noteq> first" for x
  proof -
    have "(x - first) + (first - x) = 0" by simp
    then have "unat ((x - first) + (first - x)) = 0" by (simp only: unsigned_0)
    then have "(unat (x - first) + unat (first - x)) mod 65536 = 0" by (simp only: unat_word_ariths) simp
    moreover have "0 < unat (x - first)" using that by (simp add: unat_gt_0)
    ultimately have "unat (x - first) + unat (first - x) = 65536"
      using unat_port_less [of "x - first"] unat_port_less [of "first - x"] by (rule sum_wraps_once)
    then show ?thesis by linarith
  qed
  show ?thesis
    using assms minus [of e] minus [of p] unat_port_less [of "first - p"]
    by (auto simp: rank_def split: if_splits)
qed

section \<open>The search for a port\<close>

text \<open>What the search over a set of ports ends with: the earliest port the client can have, where a
  mapping that it has there already is removed, or nothing is changed.\<close>

definition pcp_found ::
  "rdr_conf \<Rightarrow> ('st \<Rightarrow> portmaps) \<Rightarrow> ('st \<Rightarrow> bool) \<Rightarrow> ipv4 \<Rightarrow> port \<Rightarrow> int \<Rightarrow> port set \<Rightarrow> bool \<Rightarrow> port
    \<Rightarrow> 'st rdr_state \<Rightarrow> (fw_fault + byte \<times> port) \<times> 'st rdr_state \<Rightarrow> bool" where
  "pcp_found cf table_of ok a iport proto S any first st res \<longleftrightarrow>
     (let avail = port_avail cf (table_of (fw st)) a iport proto in
      if \<exists>e \<in> S. avail e
      then \<exists>e \<in> S. avail e \<and> (\<forall>p \<in> S. avail p \<longrightarrow> rank first p \<le> rank first e) \<and> fst res = Inr (PCP_SUCCESS, e)
             \<and> ok (fw (snd res)) \<and> table_of (fw (snd res)) = (table_of (fw st))((e, proto) := None)
      else res = (Inr (if any \<or> (\<exists>e \<in> S. port_allowed cf a iport e) then PCP_ERR_NO_RESOURCES
                       else PCP_ERR_NOT_AUTHORIZED, first), st))"

lemma pcp_found_skip:
  assumes "pcp_found cf table_of ok a iport proto S any' first st res"
    and "\<not> port_avail cf (table_of (fw st)) a iport proto e"
    and "any' \<longleftrightarrow> any \<or> port_allowed cf a iport e"
  shows "pcp_found cf table_of ok a iport proto (insert e S) any first st res"
  using assms unfolding pcp_found_def Let_def by (simp split: if_splits)

context redirect_backend begin

text \<open>A port the client can have ends the search.\<close>

lemma pcp_take:
  assumes ok: "ok (fw st)" and proto: "valid_proto proto" and go: "\<not> (f \<noteq> 0 \<and> cur = f)"
    and avail: "port_avail cf (table_of (fw st)) a iport proto cur"
  shows "\<exists>st'. pcp_search ops cf (to_v4mapped a) (dotted a) iport proto pfailure f any cur st = (Inr (PCP_SUCCESS, cur), st')
    \<and> ok (fw st') \<and> table_of (fw st') = (table_of (fw st))((cur, proto) := None)"
proof (cases "table_of (fw st) (cur, proto)")
  case None
  then have "pcp_search ops cf (to_v4mapped a) (dotted a) iport proto pfailure f any cur st = (Inr (PCP_SUCCESS, cur), st)"
    using get_none [OF ok None] go avail by (subst pcp_search.simps)
      (auto simp: port_avail_def port_allowed_def port_busy_def Let_def)
  then show ?thesis using ok None by (auto simp: fun_upd_idem)
next
  case (Some m)
  obtain i where i: "op_get ops pcp_lookup_sizes cur proto (fw st) = (Some i, fw st)" "i_iaddr i = dotted a" "i_iport i = iport"
    using get_some [OF ok Some, of pcp_lookup_sizes] avail Some
    by (auto simp: port_avail_def shows_portmap_def pcp_lookup_sizes_def snprintip_whole)
  obtain st1 where st1: "upnp_delete_redir ops cf cur proto st = (Inr 0, st1)" "ok (fw st1)"
    "table_of (fw st1) = (table_of (fw st))((cur, proto) := None)"
    using delete_refines [OF ok proto, of cf cur] Some by auto
  have same: "st\<lparr>fw := fw st\<rparr> = st" by (cases st) simp
  have "pcp_search ops cf (to_v4mapped a) (dotted a) iport proto pfailure f any cur st = (Inr (PCP_SUCCESS, cur), st1)"
    using i st1(1) go avail by (subst pcp_search.simps)
      (auto simp: port_avail_def port_allowed_def port_busy_def Let_def same)
  then show ?thesis using st1(2,3) by auto
qed

lemma pcp_found_here:
  assumes "ok (fw st)" "valid_proto proto" "\<not> (f \<noteq> 0 \<and> cur = f)"
    and avail: "port_avail cf (table_of (fw st)) a iport proto cur" and early: "\<forall>p \<in> S. rank first p \<le> rank first cur"
  shows "pcp_found cf table_of ok a iport proto (insert cur S) any first st
      (pcp_search ops cf (to_v4mapped a) (dotted a) iport proto False f any' cur st)"
proof -
  obtain st' where "pcp_search ops cf (to_v4mapped a) (dotted a) iport proto False f any' cur st = (Inr (PCP_SUCCESS, cur), st')"
    "ok (fw st')" "table_of (fw st') = (table_of (fw st))((cur, proto) := None)"
    using pcp_take [OF assms(1-4)] by blast
  then show ?thesis using avail early unfolding pcp_found_def Let_def by auto
qed

text \<open>Without PREFER_FAILURE any other port moves the search on.\<close>

lemma pcp_skip:
  assumes ok: "ok (fw st)" and go: "\<not> (f \<noteq> 0 \<and> cur = f)" and first: "first = (if f = 0 then cur else f)"
    and avail: "\<not> port_avail cf (table_of (fw st)) a iport proto cur"
  shows "\<exists>any'. pcp_search ops cf (to_v4mapped a) (dotted a) iport proto False f any cur st
      = pcp_search ops cf (to_v4mapped a) (dotted a) iport proto False first any' (next_eport cur) st
    \<and> (any' \<longleftrightarrow> any \<or> port_allowed cf a iport cur)"
proof (cases "port_allowed cf a iport cur \<and> \<not> port_busy cf a iport proto cur")
  case True
  then obtain m where m: "table_of (fw st) (cur, proto) = Some m" "\<not> (mp_iaddr m = a \<and> mp_iport m = iport)"
    using avail by (auto simp: port_avail_def split: option.splits)
  then obtain i where "op_get ops pcp_lookup_sizes cur proto (fw st) = (Some i, fw st)"
    "\<not> (dotted a = i_iaddr i \<and> iport = i_iport i)"
    using get_some [OF ok m(1), of pcp_lookup_sizes]
    by (auto simp: shows_portmap_def pcp_lookup_sizes_def snprintip_whole)
  then show ?thesis using True go first by (subst pcp_search.simps)
    (auto simp: port_allowed_def port_busy_def Let_def intro!: exI [of _ True])
next
  case False
  then show ?thesis using go first by (subst pcp_search.simps)
    (auto simp: port_allowed_def port_busy_def Let_def)
qed

lemma pcp_search_ahead:
  assumes ok: "ok (fw st)" and proto: "valid_proto proto" and first: "first \<noteq> 0"
  shows "cur \<noteq> 0 \<Longrightarrow> pcp_found cf table_of ok a iport proto (ahead first cur) any first st
      (pcp_search ops cf (to_v4mapped a) (dotted a) iport proto False first any cur st)"
proof (induction "unat (first - cur)" arbitrary: cur any rule: less_induct)
  case less
  show ?case
  proof (cases "cur = first")
    case True
    then show ?thesis using first by (subst pcp_search.simps) (simp add: pcp_found_def)
  next
    case False
    have rest: "\<And>any'. pcp_found cf table_of ok a iport proto (ahead first (next_eport cur)) any' first st
        (pcp_search ops cf (to_v4mapped a) (dotted a) iport proto False first any' (next_eport cur) st)"
      using less(1) [OF next_eport_closer [OF first False] next_eport_nonzero] .
    have go: "\<not> (first \<noteq> 0 \<and> cur = first)" using False by simp
    show ?thesis
    proof (cases "port_avail cf (table_of (fw st)) a iport proto cur")
      case True
      have "\<forall>p \<in> ahead first (next_eport cur). rank first p \<le> rank first cur"
        using rank_ahead [of _ first "next_eport cur"] next_eport_closer [OF first False] False
        by (fastforce simp: rank_def)
      then show ?thesis unfolding ahead_step [OF first less(2) False] by (rule pcp_found_here [OF ok proto go True])
    next
      case no: False
      show ?thesis
        using pcp_skip [OF ok go _ no, of first] first pcp_found_skip [OF rest no]
        by (metis ahead_step [OF first less(2) False])
    qed
  qed
qed

lemma pcp_search_all:
  assumes ok: "ok (fw st)" and proto: "valid_proto proto" and start: "start \<noteq> 0"
  shows "pcp_found cf table_of ok a iport proto {e. e \<noteq> 0} False start st
      (pcp_search ops cf (to_v4mapped a) (dotted a) iport proto False 0 False start st)"
proof -
  note rest = pcp_search_ahead [OF ok proto start next_eport_nonzero [of start]]
  have "pcp_found cf table_of ok a iport proto (insert start (ahead start (next_eport start))) False start st
      (pcp_search ops cf (to_v4mapped a) (dotted a) iport proto False 0 False start st)"
  proof (cases "port_avail cf (table_of (fw st)) a iport proto start")
    case True
    then show ?thesis using rank_first by (intro pcp_found_here [OF ok proto _ True]) auto
  next
    case False
    then show ?thesis using pcp_skip [OF ok _ _ False, of 0 start] pcp_found_skip [OF rest False] by metis
  qed
  then show ?thesis by (simp only: ahead_all [OF start])
qed

end

section \<open>Granting a mapping\<close>

definition pcp_portmap :: "rdr_conf \<Rightarrow> pcp_info \<Rightarrow> ipv4 \<Rightarrow> portmap" where
  "pcp_portmap cf pi a =
     \<lparr>mp_iaddr = a, mp_iport = pi_int_port pi, mp_rhost = 0, mp_desc = pi_desc pi,
      mp_timestamp = upnp_time (rc_env cf) + pi_lifetime pi\<rparr>"

lemma pcp_portmap_new:
  "new_portmap None (dotted a) (pi_int_port pi) (Some (pi_desc pi)) (upnp_time (rc_env cf) + pi_lifetime pi) = pcp_portmap cf pi a"
  by (simp add: new_portmap_def pcp_portmap_def inet_addr_def cstr host_addr_def host_given_def)

definition pcp_start :: "pcp_info \<Rightarrow> port" where
  "pcp_start pi = (if pi_ext_port pi = 0 then pi_int_port pi else pi_ext_port pi)"

definition pcp_can_have :: "rdr_conf \<Rightarrow> portmaps \<Rightarrow> ipv4 \<Rightarrow> pcp_info \<Rightarrow> port \<Rightarrow> bool" where
  "pcp_can_have cf T a pi e \<longleftrightarrow> port_avail cf T a (pi_int_port pi) (uint (pi_protocol pi)) e"

context redirect_backend begin

lemma pcp_grant:
  assumes proto: "valid_proto (uint (pi_protocol pi))" and on: "\<not> rc_disabled cf" and str: "pi_mapped_str pi = dotted a"
    and start: "pcp_start pi \<noteq> 0"
    and found: "pcp_search ops cf (to_v4mapped a) (dotted a) (pi_int_port pi) (uint (pi_protocol pi)) (pi_pfailure pi)
        0 False (pcp_start pi) st = (Inr (PCP_SUCCESS, e), st1)"
    and ok: "ok (fw st1)" and table: "table_of (fw st1) = (table_of (fw st))((e, uint (pi_protocol pi)) := None)"
  shows "\<exists>st'. CreatePCPMap_NAT ops cf pi (to_v4mapped a) st = (Inr (PCP_SUCCESS, e), st') \<and> ok (fw st')
    \<and> table_of (fw st') = (table_of (fw st))((e, uint (pi_protocol pi)) \<mapsto> pcp_portmap cf pi a)"
proof -
  have "table_of (fw st1) (e, uint (pi_protocol pi)) = None" by (simp add: table)
  from internal_ok [OF ok proto this on, of None "dotted a" "pi_int_port pi" "pi_desc pi" "upnp_time (rc_env cf) + pi_lifetime pi"]
  obtain st2 where "upnp_redirect_internal ops cf None e (dotted a) (pi_int_port pi) (uint (pi_protocol pi)) (pi_desc pi)
        (upnp_time (rc_env cf) + pi_lifetime pi) st1 = (0, st2)" "ok (fw st2)"
    "table_of (fw st2) = (table_of (fw st1))((e, uint (pi_protocol pi)) \<mapsto> pcp_portmap cf pi a)"
    unfolding pcp_portmap_new by fastforce
  then show ?thesis
    using found str start by (simp add: CreatePCPMap_NAT_def pcp_start_def [symmetric] Let_def table)
qed

lemma create_map_ok:
  assumes ok: "ok (fw st)" and proto: "valid_proto (uint (pi_protocol pi))" and on: "\<not> rc_disabled cf"
    and str: "pi_mapped_str pi = dotted a" and start: "pcp_start pi \<noteq> 0" and any: "\<not> pi_pfailure pi"
  shows "\<exists>code e st'. CreatePCPMap_NAT ops cf pi (to_v4mapped a) st = (Inr (code, e), st') \<and> ok (fw st')
    \<and> (if \<exists>p. p \<noteq> 0 \<and> pcp_can_have cf (table_of (fw st)) a pi p
       then code = PCP_SUCCESS \<and> e \<noteq> 0 \<and> pcp_can_have cf (table_of (fw st)) a pi e
            \<and> (\<forall>p. p \<noteq> 0 \<and> pcp_can_have cf (table_of (fw st)) a pi p \<longrightarrow> unat (e - pcp_start pi) \<le> unat (p - pcp_start pi))
            \<and> table_of (fw st') = (table_of (fw st))((e, uint (pi_protocol pi)) \<mapsto> pcp_portmap cf pi a)
       else code = (if \<exists>p. p \<noteq> 0 \<and> port_allowed cf a (pi_int_port pi) p then PCP_ERR_NO_RESOURCES else PCP_ERR_NOT_AUTHORIZED)
            \<and> e = pcp_start pi \<and> st' = st)"
proof -
  define res where "res = pcp_search ops cf (to_v4mapped a) (dotted a) (pi_int_port pi) (uint (pi_protocol pi)) False
      0 False (pcp_start pi) st"
  have found: "pcp_found cf table_of ok a (pi_int_port pi) (uint (pi_protocol pi)) {e. e \<noteq> 0} False (pcp_start pi) st res"
    unfolding res_def by (rule pcp_search_all [OF ok proto start])
  show ?thesis
  proof (cases "\<exists>p. p \<noteq> 0 \<and> pcp_can_have cf (table_of (fw st)) a pi p")
    case True
    then have "\<exists>p \<in> {e. e \<noteq> 0}. port_avail cf (table_of (fw st)) a (pi_int_port pi) (uint (pi_protocol pi)) p"
      by (simp add: pcp_can_have_def)
    with found obtain e where e: "e \<noteq> 0" "pcp_can_have cf (table_of (fw st)) a pi e"
      "\<forall>p. p \<noteq> 0 \<and> pcp_can_have cf (table_of (fw st)) a pi p \<longrightarrow> rank (pcp_start pi) p \<le> rank (pcp_start pi) e"
      "fst res = Inr (PCP_SUCCESS, e)" "ok (fw (snd res))"
      "table_of (fw (snd res)) = (table_of (fw st))((e, uint (pi_protocol pi)) := None)"
      by (auto simp: pcp_found_def Let_def pcp_can_have_def)
    have "pcp_search ops cf (to_v4mapped a) (dotted a) (pi_int_port pi) (uint (pi_protocol pi)) (pi_pfailure pi)
        0 False (pcp_start pi) st = (Inr (PCP_SUCCESS, e), snd res)"
      using e(4) any by (simp add: res_def prod_eq_iff)
    from pcp_grant [OF proto on str start this e(5,6)] obtain st' where
      "CreatePCPMap_NAT ops cf pi (to_v4mapped a) st = (Inr (PCP_SUCCESS, e), st')" "ok (fw st')"
      "table_of (fw st') = (table_of (fw st))((e, uint (pi_protocol pi)) \<mapsto> pcp_portmap cf pi a)" by blast
    then show ?thesis using True e(1-3) rank_turn by (intro exI [of _ PCP_SUCCESS] exI [of _ e] exI [of _ st']) simp
  next
    case False
    then have "res = (Inr (if \<exists>p. p \<noteq> 0 \<and> port_allowed cf a (pi_int_port pi) p then PCP_ERR_NO_RESOURCES
        else PCP_ERR_NOT_AUTHORIZED, pcp_start pi), st)"
      using found by (auto simp: pcp_found_def Let_def pcp_can_have_def)
    then have "CreatePCPMap_NAT ops cf pi (to_v4mapped a) st =
       (Inr (if \<exists>p. p \<noteq> 0 \<and> port_allowed cf a (pi_int_port pi) p then PCP_ERR_NO_RESOURCES
        else PCP_ERR_NOT_AUTHORIZED, pcp_start pi), st)"
      using start any str by (auto simp: CreatePCPMap_NAT_def pcp_start_def [symmetric] res_def pcp_codes)
    then show ?thesis unfolding if_not_P [OF False] using ok by blast
  qed
qed

text \<open>With PREFER_FAILURE, on a port no socket of the machine uses, there is one round.\<close>

lemma prefer_failure_ok:
  assumes ok: "ok (fw st)" and proto: "valid_proto (uint (pi_protocol pi))" and on: "\<not> rc_disabled cf"
    and str: "pi_mapped_str pi = dotted a" and start: "pcp_start pi \<noteq> 0" and strict: "pi_pfailure pi"
    and idle: "\<not> port_busy cf a (pi_int_port pi) (uint (pi_protocol pi)) (pcp_start pi)"
  shows "\<exists>st'. (if pcp_can_have cf (table_of (fw st)) a pi (pcp_start pi)
       then CreatePCPMap_NAT ops cf pi (to_v4mapped a) st = (Inr (PCP_SUCCESS, pcp_start pi), st') \<and> ok (fw st')
         \<and> table_of (fw st') = (table_of (fw st))((pcp_start pi, uint (pi_protocol pi)) \<mapsto> pcp_portmap cf pi a)
       else CreatePCPMap_NAT ops cf pi (to_v4mapped a) st = (Inr (PCP_ERR_CANNOT_PROVIDE_EXTERNAL, pcp_start pi), st))"
proof (cases "pcp_can_have cf (table_of (fw st)) a pi (pcp_start pi)")
  case True
  then have avail: "port_avail cf (table_of (fw st)) a (pi_int_port pi) (uint (pi_protocol pi)) (pcp_start pi)"
    by (simp add: pcp_can_have_def)
  obtain st1 where "pcp_search ops cf (to_v4mapped a) (dotted a) (pi_int_port pi) (uint (pi_protocol pi)) (pi_pfailure pi)
        0 False (pcp_start pi) st = (Inr (PCP_SUCCESS, pcp_start pi), st1)" "ok (fw st1)"
    "table_of (fw st1) = (table_of (fw st))((pcp_start pi, uint (pi_protocol pi)) := None)"
    using pcp_take [OF ok proto _ avail, of 0] by auto
  from pcp_grant [OF proto on str start this] show ?thesis using True by auto
next
  case False
  have same: "st\<lparr>fw := fw st\<rparr> = st" by (cases st) simp
  have "pcp_search ops cf (to_v4mapped a) (dotted a) (pi_int_port pi) (uint (pi_protocol pi)) True 0 False (pcp_start pi) st
      = (Inr (PCP_ERR_CANNOT_PROVIDE_EXTERNAL, pcp_start pi), st)"
  proof (cases "port_allowed cf a (pi_int_port pi) (pcp_start pi)")
    case True
    then obtain m where m: "table_of (fw st) (pcp_start pi, uint (pi_protocol pi)) = Some m"
      "\<not> (mp_iaddr m = a \<and> mp_iport m = pi_int_port pi)"
      using False idle by (auto simp: pcp_can_have_def port_avail_def split: option.splits)
    then obtain i where "op_get ops pcp_lookup_sizes (pcp_start pi) (uint (pi_protocol pi)) (fw st) = (Some i, fw st)"
      "\<not> (dotted a = i_iaddr i \<and> pi_int_port pi = i_iport i)"
      using get_some [OF ok m(1), of pcp_lookup_sizes]
      by (auto simp: shows_portmap_def pcp_lookup_sizes_def snprintip_whole)
    then show ?thesis using True idle by (subst pcp_search.simps) (auto simp: port_allowed_def port_busy_def Let_def same)
  next
    case False
    then show ?thesis by (subst pcp_search.simps) (simp add: port_allowed_def Let_def)
  qed
  then show ?thesis
    using False start strict str by (simp add: CreatePCPMap_NAT_def pcp_start_def [symmetric] pcp_codes)
qed

end

section \<open>Deleting a mapping\<close>

definition pcp_matches :: "ipv4 \<Rightarrow> int \<Rightarrow> port \<Rightarrow> port \<times> int \<Rightarrow> portmap \<Rightarrow> bool" where
  "pcp_matches a proto iport k m \<longleftrightarrow> mp_iaddr m = a \<and> snd k = proto \<and> (mp_iport m = iport \<or> iport = 0)"

text \<open>The mappings of the client and protocol of a request, in the order of the backend: the first
  decides.\<close>

definition pcp_delete_spec ::
  "portmaps \<Rightarrow> (port \<times> int) list \<Rightarrow> ipv4 \<Rightarrow> int \<Rightarrow> port \<Rightarrow> string \<Rightarrow> byte option \<times> portmaps" where
  "pcp_delete_spec T ks a proto iport desc =
     (case find (\<lambda>k. pcp_matches a proto iport k (the (T k))) ks of
        None \<Rightarrow> (Some PCP_ERR_NO_RESOURCES, T)
      | Some k \<Rightarrow> (if cstring (strncpy (mp_desc (the (T k))) 64) \<noteq> desc then (Some PCP_ERR_NOT_AUTHORIZED, T)
                  else (None, T(k := None))))"

context redirect_backend begin

lemma pcp_delete_ok:
  assumes ok: "ok (fw st)" and known: "valid_proto proto"
  shows "\<exists>st'. pcp_delete_loop ops cf (dotted a) proto iport desc n st
      = Some (Inr (fst (pcp_delete_spec (table_of (fw st)) (drop n (keys_of (fw st))) a proto iport desc)), st')
    \<and> ok (fw st') \<and> table_of (fw st') = snd (pcp_delete_spec (table_of (fw st)) (drop n (keys_of (fw st))) a proto iport desc)"
proof (induction "length (keys_of (fw st)) - n" arbitrary: n)
  case 0
  then have "length (keys_of (fw st)) \<le> n" by simp
  with index_none [OF ok this] show ?case using ok
    by (subst pcp_delete_loop.simps) (simp add: pcp_delete_spec_def)
next
  case (Suc d)
  let ?K = "keys_of (fw st)" and ?T = "table_of (fw st)"
  have same: "st\<lparr>fw := fw st\<rparr> = st" by (cases st) simp
  have n: "n < length ?K" using Suc(2) by simp
  obtain eport proto2 where k: "?K ! n = (eport, proto2)" by fastforce
  obtain i m where i: "op_get_by_index ops n pcp_sizes (fw st) = (Some (proto2, eport, i), fw st)"
    and m: "?T (eport, proto2) = Some m" "shows_portmap pcp_sizes (Some []) m i"
    using index_some [OF ok n k] by blast
  have desc: "i_desc i = strncpy (mp_desc m) 64" using m(2) by (simp add: shows_portmap_def pcp_sizes_def)
  have match: "(i_iaddr i = dotted a \<and> proto2 = proto \<and> (i_iport i = iport \<or> iport = 0))
      \<longleftrightarrow> pcp_matches a proto iport (eport, proto2) m"
    using m(2) by (auto simp: shows_portmap_def pcp_sizes_def snprintip_whole pcp_matches_def)
  have drop: "drop n ?K = (eport, proto2) # drop (n + 1) ?K" using Cons_nth_drop_Suc [OF n] k by simp
  show ?case
  proof (cases "pcp_matches a proto iport (eport, proto2) m")
    case True
    then have "proto2 = proto" by (simp add: pcp_matches_def)
    then obtain st1 where "upnp_delete_redir ops cf eport proto2 st = (Inr 0, st1)" "ok (fw st1)"
      "table_of (fw st1) = ?T((eport, proto2) := None)"
      using delete_refines [OF ok known, of cf eport] m(1) by auto
    then show ?thesis
      using i True m(1) match ok by (subst pcp_delete_loop.simps) (auto simp: pcp_delete_spec_def drop desc same)
  next
    case False
    then have "pcp_delete_loop ops cf (dotted a) proto iport desc n st
        = pcp_delete_loop ops cf (dotted a) proto iport desc (n + 1) st"
      using i match by (subst pcp_delete_loop.simps) (auto simp: same split: if_splits)
    moreover have "pcp_delete_spec ?T (drop n ?K) a proto iport desc = pcp_delete_spec ?T (drop (n + 1) ?K) a proto iport desc"
      using False m(1) by (simp add: pcp_delete_spec_def drop)
    ultimately show ?thesis using Suc(1) [of "n + 1"] Suc(2) by simp
  qed
qed

end

section \<open>The nonce in the description\<close>

lemma hex_char_inject: "m < 16 \<Longrightarrow> n < 16 \<Longrightarrow> hex_char m = hex_char n \<Longrightarrow> m = n"
  by (metis hex_char_value option.inject)

lemma hex8_inject:
  assumes "hex8 v = hex8 w"
  shows "v = w"
proof -
  have nib: "unat v div 16 ^ k mod 16 = unat w div 16 ^ k mod 16" if "k < 8" for k
  proof -
    have "\<forall>j \<in> set [0..<8]. hex_char (unat v div 16 ^ (7 - j) mod 16) = hex_char (unat w div 16 ^ (7 - j) mod 16)"
      using assms by (simp only: hex8_def map_eq_conv)
    moreover have "7 - k \<in> set [0..<8]" by simp
    ultimately have "hex_char (unat v div 16 ^ (7 - (7 - k)) mod 16) = hex_char (unat w div 16 ^ (7 - (7 - k)) mod 16)"
      by (rule bspec)
    moreover have "7 - (7 - k) = k" using that by simp
    ultimately show ?thesis by (intro hex_char_inject) simp_all
  qed
  show ?thesis
  proof (rule bit_word_eqI)
    fix i assume i: "i < LENGTH(32)"
    define q where "q = i div 4"
    define r where "r = i mod 4"
    have qr: "i = 4 * q + r" "r < 4" "q < 8" using i by (simp_all add: q_def r_def)
    have "bit x i \<longleftrightarrow> bit (unat x div 16 ^ q mod 16) r" for x :: u32
    proof -
      have "unat x div 16 ^ q mod 16 = take_bit 4 (drop_bit (4 * q) (unat x))"
        by (simp add: take_bit_eq_mod drop_bit_eq_div power_mult)
      then show ?thesis using qr by (simp add: bit_simps)
    qed
    then show "bit v i = bit w i" using nib [OF qr(3)] by simp
  qed
qed

lemma length_hex8 [simp]: "length (hex8 w) = 8"
  by (simp add: hex8_def)

lemma nonce_words:
  assumes "length b = 12" "length c = 12" "\<forall>k < 3. nonce_word k b = nonce_word k c"
  shows "b = c"
proof -
  have part: "take 4 (drop (4 * k) b) = take 4 (drop (4 * k) c)" if "k < 3" for k
  proof -
    have len: "length (rev (take 4 (drop (4 * k) b))) = 4" "length (rev (take 4 (drop (4 * k) c))) = 4"
      using assms(1,2) that by auto
    have "readnu32 (rev (take 4 (drop (4 * k) b))) 0 = readnu32 (rev (take 4 (drop (4 * k) c))) 0"
      using assms(3) that by (simp add: nonce_word_def)
    then have "rev (take 4 (drop (4 * k) b)) = rev (take 4 (drop (4 * k) c))"
      by (metis write_read_32 [OF len(1)] write_read_32 [OF len(2)])
    then show ?thesis by simp
  qed
  have split: "x = take 4 (drop (4 * 0) x) @ take 4 (drop (4 * 1) x) @ take 4 (drop (4 * 2) x)" if "length x = 12" for x :: "byte list"
    using that by (auto simp: numeral_eq_Suc length_Suc_conv)
  show ?thesis using part [of 0] part [of 1] part [of 2] split [OF assms(1)] split [OF assms(2)] by simp
qed

lemma length_opcode_str: "length (getPCPOpCodeStr opcode) \<le> 8"
  by (simp add: getPCPOpCodeStr_def)

lemma pcp_desc_whole:
  "pcp_desc opcode nonce = ''PCP '' @ getPCPOpCodeStr opcode @ '' '' @ hex8 (nonce_word 0 nonce) @ hex8 (nonce_word 1 nonce)
     @ hex8 (nonce_word 2 nonce)"
  using length_opcode_str [of opcode] by (simp add: pcp_desc_def)

lemma pcp_desc_inject:
  assumes "pcp_desc opcode b = pcp_desc opcode c" "length b = 12" "length c = 12"
  shows "b = c"
proof -
  have "nonce_word 0 b = nonce_word 0 c" "nonce_word 1 b = nonce_word 1 c" "nonce_word 2 b = nonce_word 2 c"
    using assms(1) hex8_inject by (simp_all add: pcp_desc_whole)
  then have "\<forall>k < 3. nonce_word k b = nonce_word k c" by (auto simp: numeral_eq_Suc less_Suc_eq)
  then show ?thesis by (rule nonce_words [OF assms(2,3)])
qed

lemma hex8_chars: "CHR 0x00 \<notin> set (hex8 w)"
proof -
  have "hex_char n \<noteq> CHR 0x00" if "n < 16" for n
    using hex_char_value [OF that] by (auto simp: hex_digit_value_def)
  then show ?thesis by (auto simp: hex8_def image_iff) (metis mod_less_divisor zero_less_numeral)
qed

lemma pcp_desc_buffer: "cstring (strncpy (pcp_desc opcode nonce) 64) = pcp_desc opcode nonce"
proof -
  have "CHR 0x00 \<notin> set (pcp_desc opcode nonce)"
    using hex8_chars by (simp add: pcp_desc_whole getPCPOpCodeStr_def)
  moreover have "length (pcp_desc opcode nonce) < 64"
    using length_opcode_str [of opcode] by (simp add: pcp_desc_whole)
  ultimately show ?thesis by (simp add: cstring_strncpy)
qed

section \<open>Properties of the MAP operation\<close>

text \<open>A request to the client's own address or, with THIRD_PARTY, to that of another: validated, for
  a port mapping to the address \<open>a\<close> with a protocol the packet filter matches.\<close>

definition map_request :: "pcp_conf \<Rightarrow> pcp_info \<Rightarrow> ipv4 \<Rightarrow> bool" where
  "map_request cf pi a \<longleftrightarrow> \<not> pi_is_fw pi \<and> pi_mapped_ip pi = Some (to_v4mapped a) \<and> pi_mapped_str pi = dotted a
     \<and> pcp_start pi \<noteq> 0 \<and> \<not> rc_disabled (pc_rdr cf)"

abbreviation pcp_table :: "pcp_state \<Rightarrow> portmaps" where
  "pcp_table s \<equiv> nf_table (fw (pc_maps s))"

abbreviation pcp_ok :: "pcp_state \<Rightarrow> bool" where
  "pcp_ok s \<equiv> nf_ok (fw (pc_maps s))"

lemma create_map_outcome:
  assumes "pcp_ok s" "map_request cf pi a" "\<not> pi_pfailure pi"
  shows "\<exists>code e s'. CreatePCPMap cf pi s = Some (Inr (pi\<lparr>pi_result := code, pi_ext_port := e\<rparr>), s') \<and> pcp_ok s'
    \<and> (if \<exists>p. p \<noteq> 0 \<and> pcp_can_have (pc_rdr cf) (pcp_table s) a pi p
       then code = PCP_SUCCESS \<and> e \<noteq> 0 \<and> pcp_can_have (pc_rdr cf) (pcp_table s) a pi e
            \<and> (\<forall>p. p \<noteq> 0 \<and> pcp_can_have (pc_rdr cf) (pcp_table s) a pi p \<longrightarrow> unat (e - pcp_start pi) \<le> unat (p - pcp_start pi))
            \<and> pcp_table s' = (pcp_table s)((e, uint (pi_protocol pi)) \<mapsto> pcp_portmap (pc_rdr cf) pi a)
       else code = (if \<exists>p. p \<noteq> 0 \<and> port_allowed (pc_rdr cf) a (pi_int_port pi) p then PCP_ERR_NO_RESOURCES else PCP_ERR_NOT_AUTHORIZED)
            \<and> s' = s)"
proof -
  have r: "\<not> pi_is_fw pi" "pi_mapped_ip pi = Some (to_v4mapped a)" "pi_mapped_str pi = dotted a"
    "valid_proto (uint (pi_protocol pi))" "pcp_start pi \<noteq> 0" "\<not> rc_disabled (pc_rdr cf)"
    using assms(2) by (simp_all add: map_request_def)
  obtain code e st' where st': "CreatePCPMap_NAT netfilter_ops (pc_rdr cf) pi (to_v4mapped a) (pc_maps s) = (Inr (code, e), st')"
    "nf_ok (fw st')"
    "if \<exists>p. p \<noteq> 0 \<and> pcp_can_have (pc_rdr cf) (pcp_table s) a pi p
     then code = PCP_SUCCESS \<and> e \<noteq> 0 \<and> pcp_can_have (pc_rdr cf) (pcp_table s) a pi e
          \<and> (\<forall>p. p \<noteq> 0 \<and> pcp_can_have (pc_rdr cf) (pcp_table s) a pi p \<longrightarrow> unat (e - pcp_start pi) \<le> unat (p - pcp_start pi))
          \<and> nf_table (fw st') = (pcp_table s)((e, uint (pi_protocol pi)) \<mapsto> pcp_portmap (pc_rdr cf) pi a)
     else code = (if \<exists>p. p \<noteq> 0 \<and> port_allowed (pc_rdr cf) a (pi_int_port pi) p then PCP_ERR_NO_RESOURCES else PCP_ERR_NOT_AUTHORIZED)
          \<and> e = pcp_start pi \<and> st' = pc_maps s"
    using netfilter.create_map_ok [OF assms(1) r(4,6,3,5) assms(3)] by blast
  have "CreatePCPMap cf pi s = Some (Inr (pi\<lparr>pi_result := code, pi_ext_port := e\<rparr>), s\<lparr>pc_maps := st'\<rparr>)"
    using r(1,2) st'(1) by (simp add: CreatePCPMap_def)
  moreover have "s\<lparr>pc_maps := pc_maps s\<rparr> = s" by (cases s) simp
  ultimately show ?thesis
    using st'(2,3) by (intro exI [of _ code] exI [of _ e] exI [of _ "s\<lparr>pc_maps := st'\<rparr>"]) (simp split: if_splits)
qed

text \<open>C8: Without PREFER_FAILURE a MAP request is granted exactly when some port other than 0 is
  allowed to the client, not used on the router, and free or already mapped to it. It gets the first
  such port counted from the one it suggests (the internal port when it suggests none); only that
  mapping changes. Otherwise nothing changes, and the answer tells whether any port is allowed.\<close>

theorem pcp_map_first_available:
  assumes "pcp_ok s" and "map_request cf pi a" and "\<not> pi_pfailure pi"
  shows "\<exists>code e s'. CreatePCPMap cf pi s = Some (Inr (pi\<lparr>pi_result := code, pi_ext_port := e\<rparr>), s') \<and> pcp_ok s'
    \<and> (if \<exists>p. p \<noteq> 0 \<and> pcp_can_have (pc_rdr cf) (pcp_table s) a pi p
       then code = PCP_SUCCESS \<and> e \<noteq> 0 \<and> pcp_can_have (pc_rdr cf) (pcp_table s) a pi e
            \<and> (\<forall>p. p \<noteq> 0 \<and> pcp_can_have (pc_rdr cf) (pcp_table s) a pi p \<longrightarrow> unat (e - pcp_start pi) \<le> unat (p - pcp_start pi))
            \<and> pcp_table s' = (pcp_table s)((e, uint (pi_protocol pi)) \<mapsto> pcp_portmap (pc_rdr cf) pi a)
       else code = (if \<exists>p. p \<noteq> 0 \<and> port_allowed (pc_rdr cf) a (pi_int_port pi) p then PCP_ERR_NO_RESOURCES else PCP_ERR_NOT_AUTHORIZED)
            \<and> s' = s)"
  by (rule create_map_outcome [OF assms])

text \<open>A router, its state, and a request of the client 10.0.0.3 for the port of its web server.\<close>

definition sample_pcp :: pcp_conf where
  "sample_pcp = \<lparr>pc_rdr = sample_conf, pc_min_lifetime = 120, pc_max_lifetime = 86400, pc_use_ext_ip_addr = None,
     pc_ext_if_name = Some ''eth0'', pc_ext_if_name6 = Some ''eth0'', pc_ifaddr = Some 0x08080808, pc_third_party = False,
     pc_startup_time = 40,
     pc_lans = [\<lparr>la_ifname = ''br0'', la_index = 2, la_str = ''10.0.0.1'', la_addr = 0x0A000001, la_mask = 0xFF000000\<rparr>],
     pc_route = (\<lambda>_. None), pc_conntrack = (\<lambda>_ _ _. None)\<rparr>"

definition pcp_start_state :: "nf \<Rightarrow> pcp_state" where
  "pcp_start_state f = \<lparr>pc_maps = start_state f, pc_pins = pin_start, pc_epoch_origin = 0\<rparr>"

definition sample_map :: "port \<Rightarrow> port \<Rightarrow> bool \<Rightarrow> pcp_info" where
  "sample_map iport eport pfailure = (pcp_cleared (to_v4mapped 167772163))
     \<lparr>pi_version := 2, pi_opcode := PCP_OPCODE_MAP, pi_lifetime := 3600, pi_protocol := 6, pi_int_port := iport,
      pi_ext_port := eport, pi_mapped_ip := Some (to_v4mapped 167772163), pi_mapped_str := dotted 167772163,
      pi_pfailure := pfailure, pi_desc := pcp_desc PCP_OPCODE_MAP (replicate 12 0)\<rparr>"

lemma pcp_start_state_simps [simp]:
  "pc_maps (pcp_start_state f) = start_state f" "pc_pins (pcp_start_state f) = pin_start"
  by (simp_all add: pcp_start_state_def)

lemma sample_pcp_simps [simp]: "pc_rdr sample_pcp = sample_conf" "\<not> pc_third_party sample_pcp"
  by (simp_all add: sample_pcp_def)

lemma sample_map_simps [simp]:
  "pi_int_port (sample_map i e b) = i" "pi_protocol (sample_map i e b) = 6" "pi_pfailure (sample_map i e b) = b"
  "pcp_start (sample_map i e b) = (if e = 0 then i else e)" "pi_desc (sample_map i e b) = pcp_desc PCP_OPCODE_MAP (replicate 12 0)"
  by (simp_all add: sample_map_def pcp_start_def)

lemma sample_map_request: "i \<noteq> 0 \<Longrightarrow> map_request sample_pcp (sample_map i e b) 167772163"
  by (simp add: map_request_def sample_on) (simp add: sample_map_def pcp_cleared_def valid_proto_def IPPROTO_TCP_def)

lemma sample_can_have: "pcp_can_have sample_conf T 167772163 (sample_map i e b) p \<longleftrightarrow>
    (case T (p, IPPROTO_TCP) of None \<Rightarrow> True | Some m \<Rightarrow> mp_iaddr m = 167772163 \<and> mp_iport m = i)"
  by (simp add: pcp_can_have_def port_avail_def port_allowed_def port_busy_def sample_conf_def IPPROTO_TCP_def)

theorem pcp_map_first_available_witness:
  "\<exists>s'. CreatePCPMap sample_pcp (sample_map 80 8080 False) (pcp_start_state one_nf)
      = Some (Inr ((sample_map 80 8080 False)\<lparr>pi_result := PCP_SUCCESS, pi_ext_port := 8081\<rparr>), s') \<and> pcp_ok s'
    \<and> pcp_table s' = (nf_table one_nf)((8081, IPPROTO_TCP) \<mapsto> pcp_portmap sample_conf (sample_map 80 8080 False) 167772163)"
proof -
  let ?pi = "sample_map 80 8080 False"
  have ok: "pcp_ok (pcp_start_state one_nf)" using one_nf_ok by simp
  have can: "pcp_can_have sample_conf (nf_table one_nf) 167772163 ?pi p \<longleftrightarrow> p \<noteq> 8080" for p
    by (simp add: sample_can_have one_nf_table)
  have "\<exists>p. p \<noteq> 0 \<and> pcp_can_have (pc_rdr sample_pcp) (pcp_table (pcp_start_state one_nf)) 167772163 ?pi p"
    by (intro exI [of _ 8081]) (simp add: can)
  note out = pcp_map_first_available [OF ok sample_map_request, of 80 8080 False, unfolded if_P [OF this]]
  obtain code e s' where c: "code = PCP_SUCCESS" and r:
    "CreatePCPMap sample_pcp ?pi (pcp_start_state one_nf) = Some (Inr (?pi\<lparr>pi_result := code, pi_ext_port := e\<rparr>), s')"
    "pcp_ok s'" "pcp_can_have (pc_rdr sample_pcp) (pcp_table (pcp_start_state one_nf)) 167772163 ?pi e"
    "\<forall>p. p \<noteq> 0 \<and> pcp_can_have (pc_rdr sample_pcp) (pcp_table (pcp_start_state one_nf)) 167772163 ?pi p
       \<longrightarrow> unat (e - pcp_start ?pi) \<le> unat (p - pcp_start ?pi)"
    "pcp_table s' = (pcp_table (pcp_start_state one_nf))((e, uint (pi_protocol ?pi)) \<mapsto> pcp_portmap (pc_rdr sample_pcp) ?pi 167772163)"
    using out by auto
  have "e \<noteq> 8080" using r(3) can by simp
  have "unat (e - 8080) \<le> 1" using r(4) [rule_format, of 8081] by (simp add: can)
  moreover have "unat (e - 8080) \<noteq> 0" using \<open>e \<noteq> 8080\<close> by (simp add: unat_eq_0)
  ultimately have "unat (e - 8080) = unat (1 :: port)" by simp
  then have "e - 8080 = 1" by (simp only: word_unat_eq_iff)
  then have "e = 8081" by (simp add: diff_eq_eq)
  then show ?thesis using r(1,2,5) c by (auto simp: IPPROTO_TCP_def)
qed

lemma new_portmap_iport: "mp_iport (new_portmap rhost iaddr iport desc ts) = iport"
  by (simp add: new_portmap_def)

text \<open>With PREFER_FAILURE, on a port that no socket of the machine uses, a MAP request gets exactly the
  port it asks for when it can have it; otherwise the answer is CANNOT_PROVIDE_EXTERNAL and nothing
  changes.\<close>

theorem pcp_prefer_failure_exact:
  assumes "pcp_ok s" and "map_request cf pi a" and "pi_pfailure pi"
    and "\<not> port_busy (pc_rdr cf) a (pi_int_port pi) (uint (pi_protocol pi)) (pcp_start pi)"
  shows "\<exists>s'. (if pcp_can_have (pc_rdr cf) (pcp_table s) a pi (pcp_start pi)
      then CreatePCPMap cf pi s = Some (Inr (pi\<lparr>pi_result := PCP_SUCCESS, pi_ext_port := pcp_start pi\<rparr>), s') \<and> pcp_ok s'
        \<and> pcp_table s' = (pcp_table s)((pcp_start pi, uint (pi_protocol pi)) \<mapsto> pcp_portmap (pc_rdr cf) pi a)
      else CreatePCPMap cf pi s
        = Some (Inr (pi\<lparr>pi_result := PCP_ERR_CANNOT_PROVIDE_EXTERNAL, pi_ext_port := pcp_start pi\<rparr>), s))"
proof -
  have r: "\<not> pi_is_fw pi" "pi_mapped_ip pi = Some (to_v4mapped a)" "pi_mapped_str pi = dotted a"
    "valid_proto (uint (pi_protocol pi))" "pcp_start pi \<noteq> 0" "\<not> rc_disabled (pc_rdr cf)"
    using assms(2) by (simp_all add: map_request_def)
  have same: "s\<lparr>pc_maps := pc_maps s\<rparr> = s" by (cases s) simp
  show ?thesis
    using netfilter.prefer_failure_ok [OF assms(1) r(4,6,3,5) assms(3,4)] r(1,2)
    by (auto simp: CreatePCPMap_def same split: if_splits intro!: exI)
qed

theorem pcp_prefer_failure_exact_witness:
  "CreatePCPMap sample_pcp (sample_map 80 8080 True) (pcp_start_state one_nf)
     = Some (Inr ((sample_map 80 8080 True)\<lparr>pi_result := PCP_ERR_CANNOT_PROVIDE_EXTERNAL, pi_ext_port := 8080\<rparr>), pcp_start_state one_nf)"
proof -
  have busy: "\<not> port_busy (pc_rdr sample_pcp) 167772163 (pi_int_port (sample_map 80 8080 True))
      (uint (pi_protocol (sample_map 80 8080 True))) (pcp_start (sample_map 80 8080 True))"
    by (simp add: port_busy_def sample_conf_def)
  have no: "\<not> pcp_can_have (pc_rdr sample_pcp) (pcp_table (pcp_start_state one_nf)) 167772163 (sample_map 80 8080 True)
      (pcp_start (sample_map 80 8080 True))"
    by (simp add: sample_can_have one_nf_table)
  have ok: "pcp_ok (pcp_start_state one_nf)" by (simp add: one_nf_ok)
  have "(80 :: port) \<noteq> 0" by simp
  from pcp_prefer_failure_exact [OF ok sample_map_request [OF this] _ busy, unfolded if_not_P [OF no]] show ?thesis by simp
qed

text \<open>Renewing does not look at the nonce: a MAP request for a mapping that the client has at the
  suggested port replaces it, whatever nonce it was made with (RFC 6887 asks for NOT_AUTHORIZED),
  and also a mapping that was made by UPnP or NAT-PMP.\<close>

theorem pcp_renewal_ignores_nonce:
  assumes "pcp_ok s" and "map_request cf pi a" and "\<not> pi_pfailure pi"
    and "pcp_table s (pcp_start pi, uint (pi_protocol pi)) = Some m" and "mp_iaddr m = a" and "mp_iport m = pi_int_port pi"
    and "port_allowed (pc_rdr cf) a (pi_int_port pi) (pcp_start pi)"
    and "\<not> port_busy (pc_rdr cf) a (pi_int_port pi) (uint (pi_protocol pi)) (pcp_start pi)"
    and "mp_desc m \<noteq> pi_desc pi"
  shows "\<exists>s'. CreatePCPMap cf pi s = Some (Inr (pi\<lparr>pi_result := PCP_SUCCESS, pi_ext_port := pcp_start pi\<rparr>), s')
    \<and> pcp_table s' (pcp_start pi, uint (pi_protocol pi)) = Some (pcp_portmap (pc_rdr cf) pi a)"
proof -
  have can: "pcp_can_have (pc_rdr cf) (pcp_table s) a pi (pcp_start pi)"
    using assms(4-8) by (simp add: pcp_can_have_def port_avail_def)
  have nonzero: "pcp_start pi \<noteq> 0" using assms(2) by (simp add: map_request_def)
  have "\<exists>p. p \<noteq> 0 \<and> pcp_can_have (pc_rdr cf) (pcp_table s) a pi p" using can nonzero by blast
  note out = create_map_outcome [OF assms(1-3), unfolded if_P [OF this]]
  obtain e s' where r: "CreatePCPMap cf pi s = Some (Inr (pi\<lparr>pi_result := PCP_SUCCESS, pi_ext_port := e\<rparr>), s')"
    "\<forall>p. p \<noteq> 0 \<and> pcp_can_have (pc_rdr cf) (pcp_table s) a pi p \<longrightarrow> unat (e - pcp_start pi) \<le> unat (p - pcp_start pi)"
    "pcp_table s' = (pcp_table s)((e, uint (pi_protocol pi)) \<mapsto> pcp_portmap (pc_rdr cf) pi a)"
    using out by auto
  have "unat (e - pcp_start pi) = 0" using r(2) can nonzero by force
  then have "e = pcp_start pi" by (simp add: unat_eq_0)
  then show ?thesis using r(1,3) by auto
qed

theorem pcp_renewal_ignores_nonce_witness:
  "\<exists>s'. CreatePCPMap sample_pcp ((sample_map 80 8080 False)\<lparr>pi_mapped_ip := Some (to_v4mapped 167772162),
         pi_mapped_str := dotted 167772162\<rparr>) (pcp_start_state one_nf)
      = Some (Inr ((sample_map 80 8080 False)\<lparr>pi_mapped_ip := Some (to_v4mapped 167772162),
         pi_mapped_str := dotted 167772162, pi_result := PCP_SUCCESS, pi_ext_port := 8080\<rparr>), s')
    \<and> pcp_table s' (8080, IPPROTO_TCP) = Some (pcp_portmap sample_conf (sample_map 80 8080 False) 167772162)"
proof -
  let ?pi = "(sample_map 80 8080 False)\<lparr>pi_mapped_ip := Some (to_v4mapped 167772162), pi_mapped_str := dotted 167772162\<rparr>"
  have f: "pi_int_port ?pi = 80" "pi_protocol ?pi = 6" "\<not> pi_pfailure ?pi" "pcp_start ?pi = 8080"
    "pi_desc ?pi = pcp_desc PCP_OPCODE_MAP (replicate 12 0)" "map_request sample_pcp ?pi 167772162"
    using sample_on
    by (simp_all add: sample_map_def pcp_start_def map_request_def pcp_cleared_def valid_proto_def IPPROTO_TCP_def)
  have ok: "pcp_ok (pcp_start_state one_nf)" using one_nf_ok by simp
  have "hd (mp_desc (new_portmap None ''10.0.0.2'' 80 (Some ''web'') 0)) = CHR ''w''"
    "hd (pcp_desc PCP_OPCODE_MAP (replicate 12 0)) = CHR ''P''"
    by (simp_all add: new_portmap_def pcp_desc_whole)
  then have desc: "mp_desc (new_portmap None ''10.0.0.2'' 80 (Some ''web'') 0) \<noteq> pi_desc ?pi" using f(5) by force
  have "\<exists>s'. CreatePCPMap sample_pcp ?pi (pcp_start_state one_nf)
      = Some (Inr (?pi\<lparr>pi_result := PCP_SUCCESS, pi_ext_port := pcp_start ?pi\<rparr>), s')
    \<and> pcp_table s' (pcp_start ?pi, uint (pi_protocol ?pi)) = Some (pcp_portmap (pc_rdr sample_pcp) ?pi 167772162)"
    by (rule pcp_renewal_ignores_nonce [OF ok f(6,3) _ _ _ _ _ desc])
      (simp_all only: f(1,2,4) sample_pcp_simps pcp_start_state_simps start_state_fw,
       simp_all add: one_nf_table IPPROTO_TCP_def port_allowed_def port_busy_def sample_conf_def
         new_portmap_iport)
  then show ?thesis by (simp add: f(4) IPPROTO_TCP_def) (simp add: pcp_portmap_def)
qed

text \<open>PREFER_FAILURE does not hold for a port that the router uses itself: the request is granted the
  next port instead of the answer CANNOT_PROVIDE_EXTERNAL.\<close>

theorem pcp_prefer_failure_other_port:
  assumes "pcp_ok s" and "map_request cf pi a" and "pi_pfailure pi"
    and "port_allowed (pc_rdr cf) a (pi_int_port pi) (pcp_start pi)"
    and "port_busy (pc_rdr cf) a (pi_int_port pi) (uint (pi_protocol pi)) (pcp_start pi)"
    and "next_eport (pcp_start pi) \<noteq> pcp_start pi"
    and "pcp_can_have (pc_rdr cf) (pcp_table s) a pi (next_eport (pcp_start pi))"
  shows "\<exists>s'. CreatePCPMap cf pi s = Some (Inr (pi\<lparr>pi_result := PCP_SUCCESS, pi_ext_port := next_eport (pcp_start pi)\<rparr>), s')
    \<and> pcp_table s' = (pcp_table s)((next_eport (pcp_start pi), uint (pi_protocol pi)) \<mapsto> pcp_portmap (pc_rdr cf) pi a)"
proof -
  let ?e = "next_eport (pcp_start pi)" and ?st = "pc_maps s" and ?proto = "uint (pi_protocol pi)"
  have r: "\<not> pi_is_fw pi" "pi_mapped_ip pi = Some (to_v4mapped a)" "pi_mapped_str pi = dotted a"
    "valid_proto ?proto" "pcp_start pi \<noteq> 0" "\<not> rc_disabled (pc_rdr cf)"
    using assms(2) by (simp_all add: map_request_def)
  have avail: "port_avail (pc_rdr cf) (pcp_table s) a (pi_int_port pi) ?proto ?e"
    using assms(7) by (simp add: pcp_can_have_def)
  have go: "\<not> (pcp_start pi \<noteq> 0 \<and> ?e = pcp_start pi)" using assms(6) by simp
  obtain st1 where st1: "pcp_search netfilter_ops (pc_rdr cf) (to_v4mapped a) (dotted a) (pi_int_port pi) ?proto True
      (pcp_start pi) True ?e ?st = (Inr (PCP_SUCCESS, ?e), st1)" "nf_ok (fw st1)"
    "nf_table (fw st1) = (pcp_table s)((?e, ?proto) := None)"
    using netfilter.pcp_take [OF assms(1) r(4) go avail] by blast
  have "pcp_search netfilter_ops (pc_rdr cf) (to_v4mapped a) (dotted a) (pi_int_port pi) ?proto (pi_pfailure pi)
      0 False (pcp_start pi) ?st = (Inr (PCP_SUCCESS, ?e), st1)"
    using assms(3-5) st1(1) by (subst pcp_search.simps) (simp add: port_allowed_def port_busy_def Let_def)
  from netfilter.pcp_grant [OF r(4,6,3,5) this st1(2,3)] r(1,2) show ?thesis
    by (auto simp: CreatePCPMap_def)
qed

theorem pcp_prefer_failure_other_port_witness:
  "\<exists>s'. CreatePCPMap (sample_pcp\<lparr>pc_rdr := sample_conf\<lparr>rc_port_in_use := Some (\<lambda>e proto ip iport. if e = 22 then 1 else 0)\<rparr>\<rparr>)
        (sample_map 80 22 True) (pcp_start_state empty_nf)
      = Some (Inr ((sample_map 80 22 True)\<lparr>pi_result := PCP_SUCCESS, pi_ext_port := 23\<rparr>), s')"
proof -
  let ?cf = "sample_pcp\<lparr>pc_rdr := sample_conf\<lparr>rc_port_in_use := Some (\<lambda>e proto ip iport. if e = 22 then 1 else 0)\<rparr>\<rparr>"
  let ?pi = "sample_map 80 22 True"
  have "map_request sample_pcp ?pi 167772163" by (rule sample_map_request) simp
  then have req: "map_request ?cf ?pi 167772163" by (simp add: map_request_def)
  have ok: "pcp_ok (pcp_start_state empty_nf)" using empty_nf_ok by simp
  have nx: "next_eport (pcp_start ?pi) = 23" by (simp add: next_eport_def)
  have "\<exists>s'. CreatePCPMap ?cf ?pi (pcp_start_state empty_nf)
        = Some (Inr (?pi\<lparr>pi_result := PCP_SUCCESS, pi_ext_port := next_eport (pcp_start ?pi)\<rparr>), s')
      \<and> pcp_table s' = (pcp_table (pcp_start_state empty_nf))((next_eport (pcp_start ?pi), uint (pi_protocol ?pi))
          \<mapsto> pcp_portmap (pc_rdr ?cf) ?pi 167772163)"
    by (rule pcp_prefer_failure_other_port [OF ok req])
      (simp_all add: nx next_eport_def pcp_can_have_def port_avail_def port_allowed_def port_busy_def sample_conf_def empty_nf_table)
  then show ?thesis unfolding nx by blast
qed

lemma delete_map_outcome:
  assumes "pcp_ok s" and "\<not> pi_is_fw pi" and "pi_mapped_str pi = dotted a"
  shows "\<exists>s'. DeletePCPMap cf pi s
      = Some (Inr (set_result pi (fst (pcp_delete_spec (pcp_table s) (nf_keys (fw (pc_maps s))) a (uint (pi_protocol pi))
                (pi_int_port pi) (pi_desc pi)))), s')
    \<and> pcp_ok s' \<and> pcp_table s' = snd (pcp_delete_spec (pcp_table s) (nf_keys (fw (pc_maps s))) a (uint (pi_protocol pi))
                (pi_int_port pi) (pi_desc pi))"
  using netfilter.pcp_delete_ok [OF assms(1) valid_byte [of "pi_protocol pi"], of "pc_rdr cf" a "pi_int_port pi" "pi_desc pi" 0] assms(2,3)
  by (auto simp: DeletePCPMap_def)

text \<open>C20: A MAP request with lifetime 0 looks at the first mapping of the address and protocol (and of the
  internal port, unless it is 0): it removes exactly this one when its description carries the
  nonce of the request, answers NOT_AUTHORIZED when it does not, and NO_RESOURCES when there is
  none, without any change.\<close>

theorem pcp_delete_exact:
  assumes "pcp_ok s" and "\<not> pi_is_fw pi" and "pi_mapped_str pi = dotted a"
  shows "\<exists>s'. DeletePCPMap cf pi s
      = Some (Inr (set_result pi (fst (pcp_delete_spec (pcp_table s) (nf_keys (fw (pc_maps s))) a (uint (pi_protocol pi))
                (pi_int_port pi) (pi_desc pi)))), s')
    \<and> pcp_ok s' \<and> pcp_table s' = snd (pcp_delete_spec (pcp_table s) (nf_keys (fw (pc_maps s))) a (uint (pi_protocol pi))
                (pi_int_port pi) (pi_desc pi))"
  by (rule delete_map_outcome [OF assms])

lemma one_nf_keys: "nf_keys one_nf = [(8080, IPPROTO_TCP)]"
proof -
  have "set (nf_keys one_nf) = {(8080, IPPROTO_TCP)}" "distinct (nf_keys one_nf)"
    using netfilter.keys_dom [OF one_nf_ok] netfilter.keys_distinct [OF one_nf_ok] by (auto simp: one_nf_table)
  then have "length (nf_keys one_nf) = 1" using distinct_card by fastforce
  with \<open>set (nf_keys one_nf) = {(8080, IPPROTO_TCP)}\<close> show ?thesis by (cases "nf_keys one_nf") auto
qed

text \<open>The web server of 10.0.0.2 was mapped by UPnP, so PCP does not remove it.\<close>

definition sample_delete :: pcp_info where
  "sample_delete = (sample_map 80 8080 False)\<lparr>pi_lifetime := 0, pi_mapped_ip := Some (to_v4mapped 167772162),
     pi_mapped_str := dotted 167772162\<rparr>"

lemma sample_delete_simps [simp]:
  "\<not> pi_is_fw sample_delete" "pi_mapped_str sample_delete = dotted 167772162" "pi_protocol sample_delete = 6"
  "pi_int_port sample_delete = 80" "pi_desc sample_delete = pcp_desc PCP_OPCODE_MAP (replicate 12 0)"
  by (simp_all add: sample_delete_def) (simp add: sample_map_def pcp_cleared_def)

lemma valid_6: "valid_proto 6"
  using valid_tcp by (simp add: IPPROTO_TCP_def)

theorem pcp_delete_exact_witness:
  "\<exists>s'. DeletePCPMap sample_pcp sample_delete (pcp_start_state one_nf)
      = Some (Inr (sample_delete\<lparr>pi_result := PCP_ERR_NOT_AUTHORIZED\<rparr>), s') \<and> pcp_table s' = nf_table one_nf"
proof -
  let ?m = "new_portmap None ''10.0.0.2'' 80 (Some ''web'') 0"
  have "mp_desc ?m = ''web''" by (simp add: new_portmap_def)
  then have "cstring (strncpy (mp_desc ?m) 64) = ''web''" by (simp add: cstring_strncpy)
  moreover have "hd (pcp_desc PCP_OPCODE_MAP (replicate 12 0)) = CHR ''P''" by (simp add: pcp_desc_whole)
  ultimately have desc: "cstring (strncpy (mp_desc ?m) 64) \<noteq> pcp_desc PCP_OPCODE_MAP (replicate 12 0)" by force
  have ok: "pcp_ok (pcp_start_state one_nf)" using one_nf_ok by simp
  have "pcp_matches 167772162 6 80 (8080, IPPROTO_TCP) ?m"
    by (simp add: pcp_matches_def IPPROTO_TCP_def new_portmap_iport)
  then have spec: "pcp_delete_spec (nf_table one_nf) (nf_keys one_nf) 167772162 6 80 (pcp_desc PCP_OPCODE_MAP (replicate 12 0))
      = (Some PCP_ERR_NOT_AUTHORIZED, nf_table one_nf)"
    using desc by (simp add: pcp_delete_spec_def one_nf_keys one_nf_table)
  show ?thesis
    using pcp_delete_exact [OF ok, of sample_delete 167772162 sample_pcp] valid_6 by (auto simp: spec set_result_def)
qed

text \<open>A mapping that was made with one nonce is not removed by a MAP request with another.\<close>

theorem pcp_nonce_protects:
  assumes "pcp_ok s" and "\<not> pi_is_fw pi" and "pi_mapped_str pi = dotted a"
    and "pi_desc pi = pcp_desc PCP_OPCODE_MAP (pi_nonce pi)" and "length (pi_nonce pi) = 12"
    and "pcp_table s k = Some m" and "mp_desc m = pcp_desc PCP_OPCODE_MAP nonce" and "length nonce = 12"
    and "nonce \<noteq> pi_nonce pi"
  shows "\<exists>r s'. DeletePCPMap cf pi s = Some (Inr r, s') \<and> pcp_table s' k = Some m"
proof -
  have "pcp_desc PCP_OPCODE_MAP nonce \<noteq> pi_desc pi" using pcp_desc_inject assms(4,5,8,9) by metis
  then have other: "cstring (strncpy (mp_desc m) 64) \<noteq> pi_desc pi" using assms(7) by (simp add: pcp_desc_buffer)
  obtain s' where s': "DeletePCPMap cf pi s = Some (Inr (set_result pi (fst (pcp_delete_spec (pcp_table s)
        (nf_keys (fw (pc_maps s))) a (uint (pi_protocol pi)) (pi_int_port pi) (pi_desc pi)))), s')"
    "pcp_table s' = snd (pcp_delete_spec (pcp_table s) (nf_keys (fw (pc_maps s))) a (uint (pi_protocol pi))
        (pi_int_port pi) (pi_desc pi))"
    using delete_map_outcome [OF assms(1-3)] by blast
  have "snd (pcp_delete_spec (pcp_table s) ks a proto iport (pi_desc pi)) k = Some m" for ks proto iport
    using assms(6) other by (auto simp: pcp_delete_spec_def split: option.splits)
  then show ?thesis using s' by auto
qed

text \<open>A web server mapped by PCP with a nonce of ones, and a request with the nonce of zeros.\<close>

definition pcp_nf :: nf where
  "pcp_nf = snd (add_filter_rule2 None ''10.0.0.2'' 8080 80 IPPROTO_TCP
     (snd (add_redirect_rule2 None 8080 ''10.0.0.2'' 80 IPPROTO_TCP (Some (pcp_desc PCP_OPCODE_MAP (replicate 12 1))) 0 empty_nf)))"

lemma pcp_nf_ok: "nf_ok pcp_nf"
  and pcp_nf_table: "nf_table pcp_nf
    = [(8080, IPPROTO_TCP) \<mapsto> new_portmap None ''10.0.0.2'' 80 (Some (pcp_desc PCP_OPCODE_MAP (replicate 12 1))) 0]"
proof -
  obtain s1 s2 where "add_redirect_rule2 None 8080 ''10.0.0.2'' 80 IPPROTO_TCP
      (Some (pcp_desc PCP_OPCODE_MAP (replicate 12 1))) 0 empty_nf = (0, s1)"
    "add_filter_rule2 None ''10.0.0.2'' 8080 80 IPPROTO_TCP s1 = (0, s2)" "nf_ok s2"
    "nf_table s2 = (nf_table empty_nf)((8080, IPPROTO_TCP)
       \<mapsto> new_portmap None ''10.0.0.2'' 80 (Some (pcp_desc PCP_OPCODE_MAP (replicate 12 1))) 0)"
    using nf_add [OF empty_nf_ok valid_tcp empty_nf_table] by blast
  then show "nf_ok pcp_nf" "nf_table pcp_nf
    = [(8080, IPPROTO_TCP) \<mapsto> new_portmap None ''10.0.0.2'' 80 (Some (pcp_desc PCP_OPCODE_MAP (replicate 12 1))) 0]"
    using empty_nf_table by (auto simp: pcp_nf_def fun_eq_iff)
qed

theorem pcp_nonce_protects_witness:
  "\<exists>r s'. DeletePCPMap sample_pcp sample_delete (pcp_start_state pcp_nf) = Some (Inr r, s')
    \<and> pcp_table s' (8080, IPPROTO_TCP)
      = Some (new_portmap None ''10.0.0.2'' 80 (Some (pcp_desc PCP_OPCODE_MAP (replicate 12 1))) 0)"
proof -
  have nonce: "pi_nonce sample_delete = replicate 12 0" by (simp add: sample_delete_def sample_map_def pcp_cleared_def)
  show ?thesis
    by (rule pcp_nonce_protects [of _ _ 167772162 _ _ "replicate 12 1"])
      (simp_all add: pcp_nf_ok pcp_nf_table nonce valid_6, simp add: new_portmap_def)
qed

end
