(* ===== verification/Pcp_Packets.thy ===== *)
theory Pcp_Packets
  imports Pcp_Mappings
begin

text \<open>
  Whole packets of the port control protocol: which address a request maps, that its processing ends,
  that it changes only what belongs to its sender, and what the response holds. PEER requests, which
  do not keep to the mappings of their sender, are the last section.
\<close>

section \<open>The address a request maps\<close>

text \<open>What parsing the options leaves as it was.\<close>

definition option_frame :: "pcp_info \<Rightarrow> pcp_info \<Rightarrow> bool" where
  "option_frame pi pi' \<longleftrightarrow>
     (\<exists>c t m f. pi' = pi\<lparr>pi_result := c, pi_thirdp_ip := t, pi_mapped_ip := m, pi_pfailure := f\<rparr>
       \<and> (t = None \<longrightarrow> pi_thirdp_ip pi = None \<and> m = pi_mapped_ip pi)
       \<and> (m = None \<longrightarrow> pi_mapped_ip pi = None))"

lemma option_frame_refl [simp]: "option_frame pi pi"
  unfolding option_frame_def
  by (intro exI [of _ "pi_result pi"] exI [of _ "pi_thirdp_ip pi"] exI [of _ "pi_mapped_ip pi"] exI [of _ "pi_pfailure pi"]) simp

lemma option_frame_trans: "option_frame x y \<Longrightarrow> option_frame y z \<Longrightarrow> option_frame x z"
  unfolding option_frame_def by (elim exE conjE, hypsubst) auto

lemma option_frame_step: "parsePCPOption p i remain pi = (n, pi') \<Longrightarrow> option_frame pi pi'"
proof -
  have upd: "option_frame pi (pi\<lparr>pi_result := c, pi_pfailure := f\<rparr>)" for c f
    unfolding option_frame_def
    by (intro exI [of _ c] exI [of _ "pi_thirdp_ip pi"] exI [of _ "pi_mapped_ip pi"] exI [of _ f]) simp
  have res: "option_frame pi (pi\<lparr>pi_result := c\<rparr>)" for c using upd [of "pi_pfailure pi" c] by simp
  have pref: "option_frame pi (pi\<lparr>pi_pfailure := True\<rparr>)" using upd [of True "pi_result pi"] by simp
  have third: "option_frame pi (pi\<lparr>pi_thirdp_ip := Some a, pi_mapped_ip := Some a\<rparr>)" for a
    unfolding option_frame_def
    by (intro exI [of _ "pi_result pi"] exI [of _ "Some a"] exI [of _ "Some a"] exI [of _ "pi_pfailure pi"]) simp
  assume "parsePCPOption p i remain pi = (n, pi')"
  then show ?thesis
    by (auto simp: parsePCPOption_def Let_def res pref third upd split: if_splits)
qed

lemma option_frame_all: "option_frame pi (parsePCPOptions p i remain pi)"
proof (induction p i remain pi rule: parsePCPOptions.induct)
  case (1 p i remain pi)
  obtain n pi1 where step: "parsePCPOption p i remain pi = (n, pi1)" by fastforce
  show ?case
  proof (cases "remain = 0 \<or> n = 0")
    case True
    then show ?thesis using option_frame_step [OF step] by (subst parsePCPOptions.simps) (auto simp: step)
  next
    case False
    then have "option_frame pi1 (parsePCPOptions p (i + unat n) (remain - unat n) pi1)"
      using "1.IH" [OF _ step [symmetric]] by simp
    then show ?thesis using option_frame_trans [OF option_frame_step [OF step]] False
      by (subst parsePCPOptions.simps) (simp add: step)
  qed
qed

lemma option_frame_fields:
  assumes "option_frame pi pi'"
  shows "pi_int_ip pi' = pi_int_ip pi" "pi_sender_ip pi' = pi_sender_ip pi" "pi_opcode pi' = pi_opcode pi"
    "pi_version pi' = pi_version pi" "pi_protocol pi' = pi_protocol pi" "pi_nonce pi' = pi_nonce pi"
    "pi_int_port pi' = pi_int_port pi" "pi_ext_port pi' = pi_ext_port pi" "pi_lifetime pi' = pi_lifetime pi"
    "pi_ext_ip pi' = pi_ext_ip pi" "pi_peer_ip pi' = pi_peer_ip pi" "pi_peer_port pi' = pi_peer_port pi"
    "pi_thirdp_ip pi' = None \<Longrightarrow> pi_mapped_ip pi' = pi_mapped_ip pi"
    "pi_mapped_ip pi' = None \<Longrightarrow> pi_mapped_ip pi = None"
  using assms by (auto simp: option_frame_def)

text \<open>A request that passes validation comes from the address it names, and maps this address unless
  the option THIRD_PARTY, which has to be allowed, names another.\<close>

lemma check_external:
  assumes "CheckExternalAddress cf pi = (True, pi')"
  shows "\<exists>x. pi' = pi\<lparr>pi_is_fw := \<not> (case pi_mapped_ip pi of None \<Rightarrow> False | Some a \<Rightarrow> v4mapped a), pi_ext_ip := x\<rparr>"
  using assms
  by (auto simp: CheckExternalAddress_def Let_def split: option.splits if_splits intro: exI [of _ "pi_ext_ip pi"])

lemma validated_form:
  assumes "ValidatePCPMsg cf pi = (True, pi')"
  shows "pi_result pi = 0 \<and> pi_int_ip pi = Some (pi_sender_ip pi) \<and> (pi_thirdp_ip pi \<noteq> None \<longrightarrow> pc_third_party cf)
    \<and> (\<exists>x d. pi' = pi\<lparr>pi_mapped_str := (case pi_mapped_ip pi of None \<Rightarrow> [] | Some a \<Rightarrow> inet_n46top a),
          pi_is_fw := \<not> (case pi_mapped_ip pi of None \<Rightarrow> False | Some a \<Rightarrow> v4mapped a), pi_ext_ip := x, pi_desc := d\<rparr>
         \<and> (pi_opcode pi = PCP_OPCODE_MAP \<longrightarrow> d = pcp_desc PCP_OPCODE_MAP (pi_nonce pi)))"
proof -
  let ?pi1 = "pi\<lparr>pi_mapped_str := (case pi_mapped_ip pi of None \<Rightarrow> [] | Some a \<Rightarrow> inet_n46top a)\<rparr>"
  have c: "pi_result pi = 0" "pi_int_ip pi = Some (pi_sender_ip pi)" "pi_thirdp_ip pi \<noteq> None \<longrightarrow> pc_third_party cf"
    using assms by (auto simp: ValidatePCPMsg_def split: if_splits)
  obtain ok pi2 where check: "CheckExternalAddress cf ?pi1 = (ok, pi2)" by fastforce
  have "ok" using assms by (simp add: ValidatePCPMsg_def Let_def check split: if_splits)
  then obtain x where x: "pi2 = ?pi1\<lparr>pi_is_fw := \<not> (case pi_mapped_ip pi of None \<Rightarrow> False | Some a \<Rightarrow> v4mapped a), pi_ext_ip := x\<rparr>"
    using check_external [of cf ?pi1 pi2] check by auto
  have "pi' = (if pi_opcode pi2 = PCP_OPCODE_MAP \<or> pi_opcode pi2 = PCP_OPCODE_PEER
               then pi2\<lparr>pi_desc := pcp_desc (pi_opcode pi2) (pi_nonce pi2)\<rparr> else pi2)"
    using assms \<open>ok\<close> by (auto simp: ValidatePCPMsg_def Let_def check split: if_splits)
  then have "pi' = pi2\<lparr>pi_desc := (if pi_opcode pi = PCP_OPCODE_MAP \<or> pi_opcode pi = PCP_OPCODE_PEER
               then pcp_desc (pi_opcode pi) (pi_nonce pi) else pi_desc pi)\<rparr>"
    by (simp add: x)
  then show ?thesis using c unfolding x
    by (intro conjI exI [of _ x] exI [of _ "if pi_opcode pi = PCP_OPCODE_MAP \<or> pi_opcode pi = PCP_OPCODE_PEER
               then pcp_desc (pi_opcode pi) (pi_nonce pi) else pi_desc pi"]) simp_all
qed

lemma validated:
  assumes "ValidatePCPMsg cf pi = (True, pi')"
  shows "pi_result pi' = 0" "pi_int_ip pi = Some (pi_sender_ip pi)" "pi_thirdp_ip pi \<noteq> None \<Longrightarrow> pc_third_party cf"
    "pi_mapped_ip pi' = pi_mapped_ip pi" "pi_protocol pi' = pi_protocol pi" "pi_int_port pi' = pi_int_port pi"
    "pi_mapped_ip pi = Some a \<Longrightarrow> pi_mapped_str pi' = inet_n46top a \<and> (pi_is_fw pi' \<longleftrightarrow> \<not> v4mapped a)"
    "pi_opcode pi = PCP_OPCODE_MAP \<Longrightarrow> pi_desc pi' = pcp_desc PCP_OPCODE_MAP (pi_nonce pi)"
    "pi_ext_port pi' = pi_ext_port pi" "pi_nonce pi' = pi_nonce pi" "pi_lifetime pi' = pi_lifetime pi"
proof -
  have c: "pi_result pi = 0" "pi_int_ip pi = Some (pi_sender_ip pi)" "pi_thirdp_ip pi \<noteq> None \<longrightarrow> pc_third_party cf"
    using validated_form [OF assms] by blast+
  obtain x d where pi': "pi' = pi\<lparr>pi_mapped_str := (case pi_mapped_ip pi of None \<Rightarrow> [] | Some a \<Rightarrow> inet_n46top a),
      pi_is_fw := \<not> (case pi_mapped_ip pi of None \<Rightarrow> False | Some a \<Rightarrow> v4mapped a), pi_ext_ip := x, pi_desc := d\<rparr>"
    and d: "pi_opcode pi = PCP_OPCODE_MAP \<longrightarrow> d = pcp_desc PCP_OPCODE_MAP (pi_nonce pi)"
    using validated_form [OF assms] by blast
  show "pi_result pi' = 0" "pi_int_ip pi = Some (pi_sender_ip pi)" "pi_mapped_ip pi' = pi_mapped_ip pi"
    "pi_protocol pi' = pi_protocol pi" "pi_int_port pi' = pi_int_port pi"
    "pi_ext_port pi' = pi_ext_port pi" "pi_nonce pi' = pi_nonce pi" "pi_lifetime pi' = pi_lifetime pi"
    using c by (simp_all add: pi')
  show "pi_thirdp_ip pi \<noteq> None \<Longrightarrow> pc_third_party cf" using c by blast
  show "pi_mapped_ip pi = Some a \<Longrightarrow> pi_mapped_str pi' = inet_n46top a \<and> (pi_is_fw pi' \<longleftrightarrow> \<not> v4mapped a)"
    "pi_opcode pi = PCP_OPCODE_MAP \<Longrightarrow> pi_desc pi' = pcp_desc PCP_OPCODE_MAP (pi_nonce pi)"
    using d by (simp_all add: pi')
qed

section \<open>Whose mappings a MAP request changes\<close>

context redirect_backend begin

lemma pcp_refuse:
  assumes ok: "ok (fw st)" and go: "\<not> (f \<noteq> 0 \<and> cur = f)" and first: "first = (if f = 0 then cur else f)"
    and avail: "\<not> port_avail cf (table_of (fw st)) a iport proto cur"
  shows "pcp_search ops cf (to_v4mapped a) (dotted a) iport proto True f any cur st
      = (if port_allowed cf a iport cur \<and> port_busy cf a iport proto cur
         then pcp_search ops cf (to_v4mapped a) (dotted a) iport proto True first True (next_eport cur) st
         else (Inr (PCP_ERR_CANNOT_PROVIDE_EXTERNAL, cur), st))"
proof (cases "port_allowed cf a iport cur \<and> \<not> port_busy cf a iport proto cur")
  case True
  have same: "st\<lparr>fw := fw st\<rparr> = st" by (cases st) simp
  obtain m where m: "table_of (fw st) (cur, proto) = Some m" "\<not> (mp_iaddr m = a \<and> mp_iport m = iport)"
    using avail True by (auto simp: port_avail_def split: option.splits)
  then obtain i where "op_get ops pcp_lookup_sizes cur proto (fw st) = (Some i, fw st)"
    "\<not> (dotted a = i_iaddr i \<and> iport = i_iport i)"
    using get_some [OF ok m(1), of pcp_lookup_sizes]
    by (auto simp: shows_portmap_def pcp_lookup_sizes_def snprintip_whole)
  then show ?thesis using True go first
    by (subst pcp_search.simps) (auto simp: port_allowed_def port_busy_def Let_def same)
next
  case False
  then show ?thesis using go first
    by (subst pcp_search.simps) (auto simp: port_allowed_def port_busy_def Let_def)
qed

lemma pcp_step:
  assumes "ok (fw st)" "\<not> (f \<noteq> 0 \<and> cur = f)" "first = (if f = 0 then cur else f)"
    and "\<not> port_avail cf (table_of (fw st)) a iport proto cur"
  shows "pcp_search ops cf (to_v4mapped a) (dotted a) iport proto pfailure f any cur st
      = (Inr (PCP_ERR_CANNOT_PROVIDE_EXTERNAL, cur), st)
    \<or> (\<exists>any'. pcp_search ops cf (to_v4mapped a) (dotted a) iport proto pfailure f any cur st
          = pcp_search ops cf (to_v4mapped a) (dotted a) iport proto pfailure first any' (next_eport cur) st)"
proof (cases pfailure)
  case True
  then show ?thesis using pcp_refuse [OF assms, of any]
    by (cases "port_allowed cf a iport cur \<and> port_busy cf a iport proto cur") (simp_all only: if_True if_False, auto)
next
  case False
  then show ?thesis using pcp_skip [OF assms, of any] by auto
qed

text \<open>Where a search ends, with or without PREFER_FAILURE: at an error, with nothing changed, or at a
  port whose mapping, one of the client, is gone.\<close>

definition pcp_search_ends ::
  "ipv4 \<Rightarrow> int \<Rightarrow> 'st rdr_state \<Rightarrow> (fw_fault + byte \<times> port) \<times> 'st rdr_state \<Rightarrow> bool" where
  "pcp_search_ends a proto st res \<longleftrightarrow>
     (\<exists>code e. code \<noteq> PCP_SUCCESS \<and> res = (Inr (code, e), st))
     \<or> (\<exists>e st'. res = (Inr (PCP_SUCCESS, e), st') \<and> ok (fw st') \<and> table_of (fw st') = (table_of (fw st))((e, proto) := None)
          \<and> (\<forall>m. table_of (fw st) (e, proto) = Some m \<longrightarrow> mp_iaddr m = a))"

lemma pcp_search_own:
  assumes ok: "ok (fw st)" and proto: "valid_proto proto"
  shows "pcp_search_ends a proto st (pcp_search ops cf (to_v4mapped a) (dotted a) iport proto pfailure f any cur st)"
proof (induction "natpmp_dist f cur" arbitrary: f cur any rule: less_induct)
  case less
  show ?case
  proof (cases "f \<noteq> 0 \<and> cur = f")
    case True
    then show ?thesis by (subst pcp_search.simps) (auto simp: pcp_search_ends_def pcp_codes)
  next
    case go: False
    show ?thesis
    proof (cases "port_avail cf (table_of (fw st)) a iport proto cur")
      case True
      then have "\<forall>m. table_of (fw st) (cur, proto) = Some m \<longrightarrow> mp_iaddr m = a" by (auto simp: port_avail_def)
      then show ?thesis using pcp_take [OF ok proto go True] by (fastforce simp: pcp_search_ends_def)
    next
      case False
      define first where "first = (if f = 0 then cur else f)"
      have "natpmp_dist first (next_eport cur) < natpmp_dist f cur"
        using go natpmp_dist_first [of cur] natpmp_dist_next [of f cur] by (auto simp: first_def)
      then have rest: "\<And>any'. pcp_search_ends a proto st
          (pcp_search ops cf (to_v4mapped a) (dotted a) iport proto pfailure first any' (next_eport cur) st)"
        by (rule less)
      have "pcp_search_ends a proto st (Inr (PCP_ERR_CANNOT_PROVIDE_EXTERNAL, cur), st)"
        by (auto simp: pcp_search_ends_def pcp_codes)
      then show ?thesis using pcp_step [OF ok go first_def False] rest by metis
    qed
  qed
qed

lemma create_map_own:
  assumes ok: "ok (fw st)" and proto: "valid_proto (uint (pi_protocol pi))" and str: "pi_mapped_str pi = dotted a"
  shows "\<exists>code e st'. CreatePCPMap_NAT ops cf pi (to_v4mapped a) st = (Inr (code, e), st') \<and> ok (fw st')
    \<and> own_changes a (table_of (fw st)) (table_of (fw st'))"
proof -
  let ?proto = "uint (pi_protocol pi)"
  have def: "CreatePCPMap_NAT ops cf pi (to_v4mapped a) st =
     (if pcp_start pi = 0 then (Inr (PCP_ERR_MALFORMED_REQUEST, pcp_start pi), st)
      else case pcp_search ops cf (to_v4mapped a) (dotted a) (pi_int_port pi) ?proto (pi_pfailure pi) 0 False (pcp_start pi) st of
             (Inl f, st1) \<Rightarrow> (Inl f, st1)
           | (Inr (code, eport), st1) \<Rightarrow>
             (if code \<noteq> PCP_SUCCESS then (Inr (code, eport), st1)
              else (let (r, st2) = upnp_redirect_internal ops cf None eport (dotted a) (pi_int_port pi) ?proto (pi_desc pi)
                                     (upnp_time (rc_env cf) + pi_lifetime pi) st1
                    in (Inr (if r < 0 then PCP_ERR_NO_RESOURCES else PCP_SUCCESS, eport), st2))))"
    unfolding CreatePCPMap_NAT_def pcp_start_def str Let_def by (rule refl)
  show ?thesis
  proof (cases "pcp_start pi = 0")
    case True
    then show ?thesis using ok by (simp add: def)
  next
    case False
    from pcp_search_own [OF ok proto, of a cf "pi_int_port pi" "pi_pfailure pi" 0 False "pcp_start pi"]
    consider code e where "code \<noteq> PCP_SUCCESS"
        "pcp_search ops cf (to_v4mapped a) (dotted a) (pi_int_port pi) ?proto (pi_pfailure pi) 0 False (pcp_start pi) st = (Inr (code, e), st)"
      | e st1 where "pcp_search ops cf (to_v4mapped a) (dotted a) (pi_int_port pi) ?proto (pi_pfailure pi) 0 False (pcp_start pi) st
          = (Inr (PCP_SUCCESS, e), st1)" "ok (fw st1)" "table_of (fw st1) = (table_of (fw st))((e, ?proto) := None)"
        "\<forall>m. table_of (fw st) (e, ?proto) = Some m \<longrightarrow> mp_iaddr m = a"
      unfolding pcp_search_ends_def by blast
    then show ?thesis
    proof cases
      case 1
      then show ?thesis using ok False by (simp add: def)
    next
      case 2
      have own: "own_changes a (table_of (fw st)) (table_of (fw st1))" using 2(3,4) by (auto simp: own_changes_def)
      show ?thesis
      proof (cases "rc_disabled cf")
        case True
        then show ?thesis using 2 False own by (simp add: def upnp_redirect_internal_def)
      next
        case on: False
        have "table_of (fw st1) (e, ?proto) = None" by (simp add: 2(3))
        from internal_ok [OF 2(2) proto this on, of None "dotted a" "pi_int_port pi" "pi_desc pi" "upnp_time (rc_env cf) + pi_lifetime pi"]
        obtain st2 where st2: "upnp_redirect_internal ops cf None e (dotted a) (pi_int_port pi) ?proto (pi_desc pi)
              (upnp_time (rc_env cf) + pi_lifetime pi) st1 = (0, st2)" "ok (fw st2)"
          "table_of (fw st2) = (table_of (fw st1))((e, ?proto) \<mapsto> pcp_portmap cf pi a)"
          unfolding pcp_portmap_new by fastforce
        have "own_changes a (table_of (fw st)) (table_of (fw st2))"
          using 2(3,4) by (auto simp: own_changes_def st2(3) pcp_portmap_def)
        then show ?thesis using 2(1) False st2(1,2) by (simp add: def)
      qed
    qed
  qed
qed

end

lemma delete_spec_own: "set ks \<subseteq> dom T \<Longrightarrow> own_changes a T (snd (pcp_delete_spec T ks a proto iport desc))"
proof -
  assume ks: "set ks \<subseteq> dom T"
  have "mp_iaddr m = a" if "find (\<lambda>k. pcp_matches a proto iport k (the (T k))) ks = Some k" "T k = Some m" for k m
    using that by (auto simp: find_Some_iff pcp_matches_def)
  then show ?thesis by (auto simp: pcp_delete_spec_def own_changes_def split: option.splits)
qed

section \<open>Whose pinholes a MAP request changes\<close>

lemma create_hole_own:
  assumes ok: "pin_ok s" and str: "pi_mapped_str pi = inet_ntop6 d"
    and run: "CreatePCPMap_FW ifname6 now pi s = Some (r, s')"
  shows "(\<exists>x. r = Inr x) \<and> pin_ok s' \<and> own_holes d (\<lambda>_. True) (holes s) (holes s')"
proof -
  let ?proto = "uint (pi_protocol pi)"
  have proto: "0 \<le> ?proto" "?proto < 256" using uint_lt2p [of "pi_protocol pi"] by simp_all
  have client: "inet_pton6 (pi_mapped_str pi) = Some d" by (simp add: str inet_pton6_ntop6)
  define fnd where "fnd = find (\<lambda>p. pin_key p = (word_of_int ?proto, 0, 0, pi_int_port pi, d)) (pinhole_list s)"
  have find: "find_pinhole None 0 (pi_mapped_str pi) (pi_int_port pi) ?proto s = Inr fnd"
    unfolding fnd_def by (rule find_key [OF ok _ client proto]) (simp add: sample_host)
  show ?thesis
  proof (cases fnd)
    case None
    then have "upnp_find_inboundpinhole None 0 (pi_mapped_str pi) (pi_int_port pi) ?proto s = Inr (- 2)"
      by (simp add: upnp_find_inboundpinhole_def find)
    then obtain r0 where r0: "upnp_add_inboundpinhole ifname6 now None 0 (pi_mapped_str pi) (pi_int_port pi) ?proto (pi_desc pi)
        (pi_lifetime pi) s = Some (r0, s')" "r = map_sum id (\<lambda>(c, u). if c < 0 then (PCP_ERR_NO_RESOURCES, pi_ext_port pi)
                                                           else (PCP_SUCCESS, pi_int_port pi)) r0"
      using run by (auto simp: CreatePCPMap_FW_def)
    have "\<exists>x. r0 = Inr x"
      using r0(1) None by (auto simp: upnp_add_inboundpinhole_def upnp_find_inboundpinhole_def find client Let_def)
    then show ?thesis
      using upnp_add_own [OF ok client proto, of "\<lambda>_. True"] r0 by fastforce
  next
    case (Some p)
    then have p: "p \<in> set (pinhole_list s)" "ph_daddr p = d" by (auto simp: fnd_def find_Some_iff pin_key_def)
    then have hole: "holes s (ph_uid p) = Some p" using list_holes [OF ok] by blast
    obtain s1 where s1: "update_pinhole (ph_uid p) (now + pi_lifetime pi) s = (0, s1)" "pin_ok s1"
      "holes s1 = (holes s)(ph_uid p \<mapsto> p\<lparr>ph_timestamp := now + pi_lifetime pi\<rparr>)"
      using update_ok [OF ok hole] by blast
    have "upnp_find_inboundpinhole None 0 (pi_mapped_str pi) (pi_int_port pi) ?proto s = Inr (uint (ph_uid p))"
      by (simp add: upnp_find_inboundpinhole_def find Some)
    then have "r = Inr (PCP_SUCCESS, pi_ext_port pi)" "s' = s1"
      using run s1(1) by (simp_all add: CreatePCPMap_FW_def upnp_update_inboundpinhole_def)
    then show ?thesis using s1(2,3) p(2) hole by (auto intro!: own_holes_upd)
  qed
qed

lemma create_hole_returns:
  assumes ok: "pin_ok s" and str: "pi_mapped_str pi = inet_ntop6 d" and room: "length (pinhole_list s) < 65535"
  shows "\<exists>x. CreatePCPMap_FW ifname6 now pi s = Some x"
proof -
  let ?proto = "uint (pi_protocol pi)"
  have proto: "0 \<le> ?proto" "?proto < 256" using uint_lt2p [of "pi_protocol pi"] by simp_all
  have client: "inet_pton6 (pi_mapped_str pi) = Some d" by (simp add: str inet_pton6_ntop6)
  have none: "remote_host None 0" by (rule sample_host)
  have "\<exists>x. upnp_add_inboundpinhole ifname6 now None 0 (pi_mapped_str pi) (pi_int_port pi) ?proto (pi_desc pi) (pi_lifetime pi) s = Some x"
  proof (cases "\<exists>u p. holes s u = Some p \<and> pin_key p = (word_of_int ?proto, 0, 0, pi_int_port pi, d)")
    case True
    then show ?thesis using upnp_add_existing [OF ok none client proto] by blast
  next
    case False
    then show ?thesis using upnp_add_new [OF ok none client proto room, of 0 "pi_int_port pi" ifname6 now "pi_desc pi" "pi_lifetime pi"]
      by blast
  qed
  then show ?thesis
    by (cases "upnp_find_inboundpinhole None 0 (pi_mapped_str pi) (pi_int_port pi) ?proto s")
      (auto simp: CreatePCPMap_FW_def Let_def split: prod.splits)
qed

lemma delete_hole_own:
  assumes ok: "pin_ok s"
  shows "(\<exists>x. fst (pcp_delete_hole now (inet_ntop6 d) proto iport desc n s) = Inr x)
    \<and> pin_ok (snd (pcp_delete_hole now (inet_ntop6 d) proto iport desc n s))
    \<and> own_holes d (\<lambda>_. True) (holes s) (holes (snd (pcp_delete_hole now (inet_ntop6 d) proto iport desc n s)))"
proof (induction "length (pinhole_list s) - n" arbitrary: n)
  case 0
  then have "upnp_get_pinhole_uid_by_index n s < 0"
    by (simp add: upnp_get_pinhole_uid_by_index_def get_pinhole_uid_by_index_def)
  then show ?case using ok by (subst (1 2 3) pcp_delete_hole.simps) simp
next
  case (Suc k)
  let ?p = "pinhole_list s ! n"
  have n: "n < length (pinhole_list s)" using Suc(2) by simp
  have uid: "upnp_get_pinhole_uid_by_index n s = uint (ph_uid ?p)"
    using n by (simp add: upnp_get_pinhole_uid_by_index_def get_pinhole_uid_by_index_def)
  have mem: "?p \<in> set (pinhole_list s)" using n by simp
  then have "get_pinhole (ph_uid ?p) (pinhole_list s) = Some ?p"
    using pin_okD(4) [OF ok] by (simp add: get_pinhole_iff)
  then obtain t where info: "upnp_get_pinhole_info now False (ph_uid ?p) s = (Inr (Inr (?p, t)), s)"
    by (auto simp: upnp_get_pinhole_info_def get_pinhole_info_def Let_def)
  let ?hit = "inet_ntop6 (ph_daddr ?p) = inet_ntop6 d \<and> uint (ph_proto ?p) = proto \<and> (ph_dport ?p = iport \<or> iport = 0)"
  show ?case
  proof (cases ?hit)
    case True
    then have d: "ph_daddr ?p = d" using inet_ntop6_inject by blast
    obtain s1 where s1: "delete_pinhole (ph_uid ?p) s = (0, s1)" "pin_ok s1"
      "pinhole_list s1 = filter (\<lambda>q. ph_uid q \<noteq> ph_uid ?p) (pinhole_list s)"
      using delete_pinhole_ok [OF ok mem] by blast
    have "q = ?p" if "holes s u = Some q" "ph_uid q = ph_uid ?p" for u q
      using that mem list_holes [OF ok] holes_uid [of s u q] by (metis option.inject)
    then have "own_holes d (\<lambda>_. True) (holes s) (holes s1)"
      unfolding own_holes_def using holes_filter [OF ok s1(3)] d by (fastforce split: option.splits)
    then show ?thesis using True s1(1,2) ok
      by (subst (1 2 3) pcp_delete_hole.simps) (simp add: uid info upnp_delete_inboundpinhole_def)
  next
    case False
    then have "pcp_delete_hole now (inet_ntop6 d) proto iport desc n s = pcp_delete_hole now (inet_ntop6 d) proto iport desc (n + 1) s"
      by (subst pcp_delete_hole.simps) (auto simp: uid info)
    then show ?thesis using Suc(1) [of "n + 1"] Suc(2) by simp
  qed
qed

section \<open>A MAP packet\<close>

lemma refused_with_code:
  assumes "ValidatePCPMsg cf pi = (False, pi')"
  shows "pi_result pi' \<noteq> 0"
proof -
  have check: "pi_result pi2 \<noteq> 0" if "CheckExternalAddress cf pi1 = (False, pi2)" for pi1 pi2
    using that by (auto simp: CheckExternalAddress_def Let_def pcp_codes split: option.splits if_splits)
  show ?thesis
    using assms check by (auto simp: ValidatePCPMsg_def Let_def pcp_codes split: if_splits prod.splits)
qed

lemma operation_cases:
  "(\<exists>pi'. pcp_operation always create delete cf pi s = Some (Inr (True, pi'), s))
   \<or> (\<exists>pi'. ValidatePCPMsg cf pi = (True, pi') \<and> pcp_operation always create delete cf pi s
        = map_option (\<lambda>(r, s1). (map_sum id (\<lambda>pi2. (True, pi2)) r, s1))
            (if pi_lifetime pi' = 0 then delete cf pi' s else create cf pi' s))"
proof -
  obtain b pi' where v: "ValidatePCPMsg cf pi = (b, pi')" by fastforce
  show ?thesis
  proof (cases b)
    case True
    then show ?thesis by (simp add: pcp_operation_def v)
  next
    case False
    then show ?thesis using refused_with_code [of cf pi pi'] v by (simp add: pcp_operation_def)
  qed
qed

text \<open>A validated MAP request of \<open>addr\<close>: the address it maps is the sender's.\<close>

definition own_map_request :: "in6_addr \<Rightarrow> byte \<Rightarrow> pcp_info \<Rightarrow> bool" where
  "own_map_request addr proto pi \<longleftrightarrow> pi_mapped_ip pi = Some addr \<and> pi_mapped_str pi = inet_n46top addr
     \<and> (pi_is_fw pi \<longleftrightarrow> \<not> v4mapped addr) \<and> pi_protocol pi = proto"

lemma header_fields:
  assumes "parseCommonRequestHeader min_lt max_lt p (pcp_cleared addr\<lparr>pi_result := c\<rparr>) = (b, pi)"
  shows "pi_int_ip pi = pi_mapped_ip pi" "pi_thirdp_ip pi = None" "pi_sender_ip pi = addr"
    "pi_version pi = p ! 0" "pi_opcode pi = (p ! 1) AND 0x7f"
  using assms by (auto simp: parseCommonRequestHeader_def Let_def pcp_cleared_def split: if_splits)

lemma validated_own:
  assumes "ValidatePCPMsg cf (parsePCPOptions p i n pi) = (True, pi')" "\<not> pc_third_party cf"
    and "pi_int_ip pi = pi_mapped_ip pi" "pi_sender_ip pi = addr"
  shows "own_map_request addr (pi_protocol pi) pi'"
proof -
  note f = option_frame_fields [OF option_frame_all [of pi p i n]]
  note v = validated [OF assms(1)]
  have "pi_thirdp_ip (parsePCPOptions p i n pi) = None" using v(3) assms(2) by blast
  then have m: "pi_mapped_ip (parsePCPOptions p i n pi) = Some addr" using f(13) v(2) f(1,2) assms(3,4) by simp
  show ?thesis using v(4,5) v(7) [OF m] m f(5) by (simp add: own_map_request_def)
qed

lemma map_packet_cases:
  assumes "(p ! 1) AND 0x7f = PCP_OPCODE_MAP" "\<not> pc_third_party cf"
    and run: "processPCPRequest cf p len (pcp_cleared addr) s = res"
  shows "(\<exists>pi. res = Some (Inr (3 \<le> len, pi), s))
    \<or> (\<exists>pi. own_map_request addr (p ! (if p ! 0 = 1 then 24 else 36)) pi
        \<and> res = map_option (\<lambda>(r, s1). (map_sum id (\<lambda>pi2. (True, pi2)) r, s1))
            (if pi_lifetime pi = 0 then DeletePCPMap cf pi s else CreatePCPMap cf pi s))"
proof -
  let ?pi = "pcp_cleared addr\<lparr>pi_result := PCP_SUCCESS\<rparr>"
  obtain b pi1 where h: "parseCommonRequestHeader (pc_min_lifetime cf) (pc_max_lifetime cf) p ?pi = (b, pi1)" by fastforce
  note hf = header_fields [OF h]
  have op: "pi_opcode pi1 = PCP_OPCODE_MAP" using hf(5) assms(1) by simp
  consider "\<exists>pi. res = Some (Inr (3 \<le> len, pi), s)"
    | n where "3 \<le> len" "res = pcp_operation False CreatePCPMap DeletePCPMap cf (parsePCPOptions p 48 n (parsePCPMAP_version1 p 24 pi1)) s" "p ! 0 = 1"
    | n where "3 \<le> len" "res = pcp_operation False CreatePCPMap DeletePCPMap cf (parsePCPOptions p 60 n (parsePCPMAP_version2 p 24 pi1)) s" "p ! 0 = 2"
    using run by (auto simp: processPCPRequest_def Let_def h op hf(4) PCP_MIN_LEN_def split: if_splits)
  then show ?thesis
  proof cases
    case 1
    then show ?thesis by blast
  next
    case 2
    have own: "own_map_request addr (p ! 24) pi'"
      if "ValidatePCPMsg cf (parsePCPOptions p 48 n (parsePCPMAP_version1 p 24 pi1)) = (True, pi')" for pi'
      using validated_own [OF that assms(2), of addr] hf(1,3) by (simp add: parsePCPMAP_version1_def)
    show ?thesis
      using operation_cases [of False CreatePCPMap DeletePCPMap cf "parsePCPOptions p 48 n (parsePCPMAP_version1 p 24 pi1)" s] own
      unfolding 2(2) using 2(1,3) by auto
  next
    case 3
    have own: "own_map_request addr (p ! 36) pi'"
      if "ValidatePCPMsg cf (parsePCPOptions p 60 n (parsePCPMAP_version2 p 24 pi1)) = (True, pi')" for pi'
      using validated_own [OF that assms(2), of addr] hf(1,3) by (simp add: parsePCPMAP_version2_def)
    show ?thesis
      using operation_cases [of False CreatePCPMap DeletePCPMap cf "parsePCPOptions p 60 n (parsePCPMAP_version2 p 24 pi1)" s] own
      unfolding 3(2) using 3(1,3) by auto
  qed
qed

text \<open>A step of the server that leaves what belongs to other addresses than \<open>addr\<close> as it is.\<close>

definition pcp_own_step :: "in6_addr \<Rightarrow> pcp_state \<Rightarrow> pcp_state \<Rightarrow> bool" where
  "pcp_own_step addr s s' \<longleftrightarrow> pcp_ok s' \<and> pin_ok (pc_pins s')
     \<and> (if v4mapped addr then own_changes (ucast addr) (pcp_table s) (pcp_table s') \<and> pc_pins s' = pc_pins s
        else own_holes addr (\<lambda>_. True) (holes (pc_pins s)) (holes (pc_pins s')) \<and> pc_maps s' = pc_maps s)"

lemma pcp_own_step_refl: "pcp_ok s \<Longrightarrow> pin_ok (pc_pins s) \<Longrightarrow> pcp_own_step addr s s"
  by (simp add: pcp_own_step_def)

lemma create_own:
  assumes "pcp_ok s" "pin_ok (pc_pins s)" "own_map_request addr proto pi"
    and run: "CreatePCPMap cf pi s = Some (r, s')"
  shows "(\<exists>x. r = Inr x) \<and> pcp_own_step addr s s'"
proof (cases "v4mapped addr")
  case True
  then have a: "to_v4mapped (ucast addr) = addr" by (rule v4mapped_ucast)
  have str: "pi_mapped_str pi = dotted (ucast addr)" "\<not> pi_is_fw pi" "pi_mapped_ip pi = Some addr"
    "valid_proto (uint (pi_protocol pi))"
    using assms(3) True by (simp_all add: own_map_request_def inet_n46top_def)
  obtain code e st' where st': "CreatePCPMap_NAT netfilter_ops (pc_rdr cf) pi addr (pc_maps s) = (Inr (code, e), st')"
    "nf_ok (fw st')" "own_changes (ucast addr) (pcp_table s) (nf_table (fw st'))"
    using netfilter.create_map_own [OF assms(1) str(4,1), of "pc_rdr cf"] unfolding a by blast
  then show ?thesis using run str(2,3) True assms(2) by (auto simp: CreatePCPMap_def pcp_own_step_def)
next
  case False
  then have str: "pi_mapped_str pi = inet_ntop6 addr" "pi_is_fw pi"
    using assms(3) by (simp_all add: own_map_request_def inet_n46top_def)
  then obtain r0 v6 where "CreatePCPMap_FW (pc_ext_if_name6 cf) (upnp_time (rc_env (pc_rdr cf))) pi (pc_pins s) = Some (r0, v6)"
    "r = map_sum id (\<lambda>(code, eport). pi\<lparr>pi_result := code, pi_ext_port := eport\<rparr>) r0" "s' = s\<lparr>pc_pins := v6\<rparr>"
    using run by (auto simp: CreatePCPMap_def Let_def)
  with create_hole_own [OF assms(2) str(1) this(1)] show ?thesis
    using False assms(1) by (auto simp: pcp_own_step_def)
qed

lemma delete_own:
  assumes "pcp_ok s" "pin_ok (pc_pins s)" "own_map_request addr proto pi"
  shows "\<exists>x s'. DeletePCPMap cf pi s = Some (Inr x, s') \<and> pcp_own_step addr s s'"
proof (cases "v4mapped addr")
  case True
  have str: "pi_mapped_str pi = dotted (ucast addr)" "\<not> pi_is_fw pi" "valid_proto (uint (pi_protocol pi))"
    using assms(3) True by (simp_all add: own_map_request_def inet_n46top_def)
  have keys: "set (nf_keys (fw (pc_maps s))) \<subseteq> dom (pcp_table s)" using netfilter.keys_dom [OF assms(1)] by simp
  obtain m where "pcp_delete_loop netfilter_ops (pc_rdr cf) (pi_mapped_str pi) (uint (pi_protocol pi)) (pi_int_port pi) (pi_desc pi) 0
      (pc_maps s) = Some (Inr (fst (pcp_delete_spec (pcp_table s) (nf_keys (fw (pc_maps s))) (ucast addr) (uint (pi_protocol pi))
         (pi_int_port pi) (pi_desc pi))), m)" "nf_ok (fw m)"
    "nf_table (fw m) = snd (pcp_delete_spec (pcp_table s) (nf_keys (fw (pc_maps s))) (ucast addr) (uint (pi_protocol pi))
         (pi_int_port pi) (pi_desc pi))"
    using netfilter.pcp_delete_ok [OF assms(1) str(3), of "pc_rdr cf" "ucast addr" "pi_int_port pi" "pi_desc pi" 0] str(1) by auto
  then show ?thesis
    using str(2) True assms(2) delete_spec_own [OF keys] by (auto simp: DeletePCPMap_def pcp_own_step_def)
next
  case False
  then have str: "pi_mapped_str pi = inet_ntop6 addr" "pi_is_fw pi"
    using assms(3) by (simp_all add: own_map_request_def inet_n46top_def)
  obtain r v6 where run: "pcp_delete_hole (upnp_time (rc_env (pc_rdr cf))) (inet_ntop6 addr) (uint (pi_protocol pi))
      (pi_int_port pi) (pi_desc pi) 0 (pc_pins s) = (r, v6)" by fastforce
  with delete_hole_own [OF assms(2), of "upnp_time (rc_env (pc_rdr cf))" addr "uint (pi_protocol pi)" "pi_int_port pi" "pi_desc pi" 0]
  obtain x where "r = Inr x" "pin_ok v6" "own_holes addr (\<lambda>_. True) (holes (pc_pins s)) (holes v6)" by auto
  then show ?thesis using False assms(1) str run by (simp add: DeletePCPMap_def pcp_own_step_def)
qed

lemma create_returns:
  assumes "pin_ok (pc_pins s)" "own_map_request addr proto pi" "length (pinhole_list (pc_pins s)) < 65535"
  shows "\<exists>x. CreatePCPMap cf pi s = Some x"
proof (cases "pi_is_fw pi")
  case True
  then have "pi_mapped_str pi = inet_ntop6 addr" using assms(2) by (simp add: own_map_request_def inet_n46top_def)
  from create_hole_returns [OF assms(1) this assms(3)] True show ?thesis
    by (auto simp: CreatePCPMap_def Let_def)
qed (simp add: CreatePCPMap_def split: prod.splits)

lemma other_opcode_cases:
  assumes "(p ! 1) AND 0x7f \<noteq> PCP_OPCODE_MAP" "(p ! 1) AND 0x7f \<noteq> PCP_OPCODE_PEER"
  shows "\<exists>pi. processPCPRequest cf p len (pcp_cleared addr) s = Some (Inr (3 \<le> len, pi), s)"
proof -
  obtain b pi1 where h: "parseCommonRequestHeader (pc_min_lifetime cf) (pc_max_lifetime cf) p
      (pcp_cleared addr\<lparr>pi_result := PCP_SUCCESS\<rparr>) = (b, pi1)" by fastforce
  have op: "pi_opcode pi1 \<noteq> PCP_OPCODE_MAP" "pi_opcode pi1 \<noteq> PCP_OPCODE_PEER" using header_fields(5) [OF h] assms by simp_all
  then show ?thesis by (auto simp: processPCPRequest_def Let_def h PCP_MIN_LEN_def)
qed

text \<open>What a request ends with when it is no PEER request.\<close>

lemma request_outcome:
  assumes "pcp_ok s" "pin_ok (pc_pins s)" "\<not> pc_third_party cf" "(p ! 1) AND 0x7f \<noteq> PCP_OPCODE_PEER"
    and run: "processPCPRequest cf p len (pcp_cleared addr) s = Some (r, s')"
  shows "(\<exists>pi. r = Inr (3 \<le> len, pi) \<or> r = Inr (True, pi)) \<and> pcp_own_step addr s s'"
proof (cases "(p ! 1) AND 0x7f = PCP_OPCODE_MAP")
  case True
  consider pi where "r = Inr (3 \<le> len, pi)" "s' = s"
    | pi r0 where "own_map_request addr (p ! (if p ! 0 = 1 then 24 else 36)) pi" "r = map_sum id (\<lambda>pi2. (True, pi2)) r0"
        "(if pi_lifetime pi = 0 then DeletePCPMap cf pi s else CreatePCPMap cf pi s) = Some (r0, s')"
    using map_packet_cases [OF True assms(3) run] by (auto dest: sym)
  then show ?thesis
  proof cases
    case 1
    then show ?thesis using pcp_own_step_refl [OF assms(1,2)] by auto
  next
    case 2
    then show ?thesis
      using delete_own [OF assms(1,2) 2(1), of cf] create_own [OF assms(1,2) 2(1), of cf]
      by (cases "pi_lifetime pi = 0") auto
  qed
next
  case False
  then show ?thesis
    using other_opcode_cases [OF False assms(4), of cf len addr s] run pcp_own_step_refl [OF assms(1,2)] by auto
qed

lemma request_returns:
  assumes "pcp_ok s" "pin_ok (pc_pins s)" "\<not> pc_third_party cf" "(p ! 1) AND 0x7f \<noteq> PCP_OPCODE_PEER"
    and room: "length (pinhole_list (pc_pins s)) < 65535"
  shows "\<exists>x. processPCPRequest cf p len (pcp_cleared addr) s = Some x"
proof (cases "(p ! 1) AND 0x7f = PCP_OPCODE_MAP")
  case True
  consider "\<exists>x. processPCPRequest cf p len (pcp_cleared addr) s = Some x"
    | pi where "own_map_request addr (p ! (if p ! 0 = 1 then 24 else 36)) pi"
        "processPCPRequest cf p len (pcp_cleared addr) s = map_option (\<lambda>(r, s1). (map_sum id (\<lambda>pi2. (True, pi2)) r, s1))
            (if pi_lifetime pi = 0 then DeletePCPMap cf pi s else CreatePCPMap cf pi s)"
    using map_packet_cases [OF True assms(3) refl, of len addr s] by blast
  then show ?thesis
  proof cases
    case 2
    have "\<exists>x. (if pi_lifetime pi = 0 then DeletePCPMap cf pi s else CreatePCPMap cf pi s) = Some x"
      using delete_own [OF assms(1,2) 2(1), of cf] create_returns [OF assms(2) 2(1) room, of cf] by auto
    then show ?thesis using 2(2) by auto
  qed
next
  case False
  then show ?thesis using other_opcode_cases [OF False assms(4)] by blast
qed

lemma own_step_epoch: "pcp_own_step addr s s1 \<Longrightarrow> pcp_own_step addr s (s1\<lparr>pc_epoch_origin := e\<rparr>)"
  by (simp add: pcp_own_step_def)

section \<open>Properties of packets\<close>

text \<open>C9: While the option THIRD_PARTY is not allowed, a packet whose opcode is not PEER, whatever its other bytes and its
  protocol number, changes only what belongs to the address it was sent from: no mapping and no pinhole of
  another client is added, rewritten or removed, and the tables stay well-formed.\<close>

theorem pcp_packet_keeps_others:
  assumes "pcp_ok s" and "pin_ok (pc_pins s)" and "\<not> pc_third_party cf"
    and "(p ! 1) AND 0x7f \<noteq> PCP_OPCODE_PEER"
    and "sender_in6 sender = Some addr"
    and run: "ProcessIncomingPCPPacket cf p len sender s = Some (r, s')"
  shows "(\<exists>reply. r = Inr reply) \<and> pcp_own_step addr s s'"
proof -
  consider "r = Inr None" "s' = s"
    | r0 s1 where "processPCPRequest cf p len (pcp_cleared addr) s = Some (r0, s1)"
        "(case r0 of Inl f \<Rightarrow> (Inl f, s1) | Inr (False, _) \<Rightarrow> (Inr None, s1)
          | Inr (True, pi) \<Rightarrow> (let (reply, s2) = pcp_reply cf p len pi s1 in (Inr (Some reply), s2))) = (r, s')"
    using run assms(5) by (auto simp: ProcessIncomingPCPPacket_def split: if_splits)
  then show ?thesis
  proof cases
    case 1
    then show ?thesis using pcp_own_step_refl [OF assms(1,2)] by simp
  next
    case 2
    from request_outcome [OF assms(1-4) 2(1)] obtain b pi where o: "r0 = Inr (b, pi)" "pcp_own_step addr s s1" by blast
    then show ?thesis using 2(2) own_step_epoch [OF o(2)] by (cases b) (auto simp: pcp_reply_def Let_def)
  qed
qed

lemma packet_answered:
  assumes "pcp_ok s" and "pin_ok (pc_pins s)" and "\<not> pc_third_party cf"
    and "(p ! 1) AND 0x7f \<noteq> PCP_OPCODE_PEER"
    and "sender_in6 sender = Some addr"
    and "length (pinhole_list (pc_pins s)) < 65535"
    and "3 \<le> len" and "p ! 1 AND 128 = 0" and "get_lan_for_peer (pc_route cf) (pc_lans cf) sender \<noteq> None"
  shows "\<exists>reply s'. ProcessIncomingPCPPacket cf p len sender s = Some (Inr (Some reply), s')"
proof -
  obtain r s1 where run: "processPCPRequest cf p len (pcp_cleared addr) s = Some (r, s1)"
    using request_returns [OF assms(1-4,6), of len addr] by fastforce
  then obtain pi where "r = Inr (True, pi)" using request_outcome [OF assms(1-4) run] assms(7) by auto
  with run show ?thesis
    using assms(5,8,9) by (auto simp: ProcessIncomingPCPPacket_def pcp_reply_def Let_def)
qed

text \<open>C21: While the option THIRD_PARTY is not allowed and an identifier for a pinhole is left, every packet of at least three
  bytes from an address of a LAN that is neither a response nor a PEER request, whatever its other bytes, is
  processed to its end and answered.\<close>

theorem pcp_packet_answered:
  assumes "pcp_ok s" and "pin_ok (pc_pins s)" and "\<not> pc_third_party cf"
    and "(p ! 1) AND 0x7f \<noteq> PCP_OPCODE_PEER"
    and "sender_in6 sender = Some addr"
    and "length (pinhole_list (pc_pins s)) < 65535"
    and "3 \<le> len" and "p ! 1 AND 128 = 0" and "get_lan_for_peer (pc_route cf) (pc_lans cf) sender \<noteq> None"
  shows "\<exists>reply s'. ProcessIncomingPCPPacket cf p len sender s = Some (Inr (Some reply), s')"
  using assms by (rule packet_answered)

section \<open>Addresses and numbers in packets\<close>

lemma fold_bytes:
  "n \<le> m \<Longrightarrow> foldl (\<lambda>a b. push_bit 8 a OR ucast b) 0 (map (\<lambda>k. ucast (drop_bit (8 * (m - 1 - k)) a) :: byte) [0..<n])
    = take_bit (8 * n) (drop_bit (8 * (m - n)) a :: in6_addr)"
proof (induction n)
  case (Suc n)
  have "push_bit 8 (take_bit (8 * n) (drop_bit (8 * (m - n)) a)) OR ucast (ucast (drop_bit (8 * (m - 1 - n)) a) :: byte)
      = take_bit (8 * Suc n) (drop_bit (8 * (m - Suc n)) a)"
  proof (rule bit_word_eqI)
    fix j assume "j < LENGTH(128)"
    have "8 * (m - n) + (j - 8) = 8 * (m - Suc n) + j" if "8 \<le> j" using that Suc.prems by simp
    then show "bit (push_bit 8 (take_bit (8 * n) (drop_bit (8 * (m - n)) a)) OR ucast (ucast (drop_bit (8 * (m - 1 - n)) a) :: byte)) j
        = bit (take_bit (8 * Suc n) (drop_bit (8 * (m - Suc n)) a)) j"
      using \<open>j < LENGTH(128)\<close> by (cases "8 \<le> j") (auto simp: bit_simps)
  qed
  then show ?case using Suc by simp
qed simp

lemma in6_of_bytes_of_in6 [simp]: "in6_of_bytes (bytes_of_in6 a) = a"
proof -
  have "take_bit 128 a = a" by (rule bit_word_eqI) (simp add: bit_simps)
  then show ?thesis using fold_bytes [of 16 16 a] by (simp add: in6_of_bytes_def bytes_of_in6_def)
qed

lemma length_bytes_of_in6 [simp]: "length (bytes_of_in6 a) = 16"
  by (simp add: bytes_of_in6_def)

lemma read_in6_at: "read_in6 (pre @ bytes_of_in6 a @ post) (length pre) = a"
  by (simp add: read_in6_def)

lemma length_poke [simp]: "i + length bs \<le> length p \<Longrightarrow> length (poke i bs p) = length p"
  by (simp add: poke_def)

lemma nth_poke:
  assumes "i + length bs \<le> length p"
  shows "poke i bs p ! j = (if i \<le> j \<and> j < i + length bs then bs ! (j - i) else p ! j)"
proof (cases "j < i + length bs")
  case False
  have "length (take i p @ bs) = i + length bs" using assms by simp
  then have "poke i bs p ! j = drop (i + length bs) p ! (j - (i + length bs))"
    using False nth_append [of "take i p @ bs" "drop (i + length bs) p" j] by (simp add: poke_def)
  also have "\<dots> = p ! j" using False assms by (subst nth_drop) simp_all
  finally show ?thesis using False by simp
next
  case True
  then show ?thesis using assms by (auto simp: poke_def nth_append)
qed

lemma read_poke_16: "i + 2 \<le> length p \<Longrightarrow> readnu16 (poke i (writenu16 n) p) i = n"
  using read_write_16 [of "take i p" n "drop (i + 2) p"] by (simp add: poke_def min_def)

lemma read_poke_32: "i + 4 \<le> length p \<Longrightarrow> readnu32 (poke i (writenu32 n) p) i = n"
  using read_write_32 [of "take i p" n "drop (i + 4) p"] by (simp add: poke_def min_def)

lemma read_poke_in6: "i + 16 \<le> length p \<Longrightarrow> read_in6 (poke i (bytes_of_in6 a) p) i = a"
  using read_in6_at [of "take i p" a "drop (i + 16) p"] by (simp add: poke_def min_def)

text \<open>Reading elsewhere.\<close>

lemma read_16_other:
  "i + length bs \<le> length p \<Longrightarrow> j + 2 \<le> i \<or> i + length bs \<le> j \<Longrightarrow> readnu16 (poke i bs p) j = readnu16 p j"
  by (auto simp: readnu16_def nth_poke)

lemma read_32_other:
  "i + length bs \<le> length p \<Longrightarrow> j + 4 \<le> i \<or> i + length bs \<le> j \<Longrightarrow> readnu32 (poke i bs p) j = readnu32 p j"
  by (auto simp: readnu32_def nth_poke)

lemma length_poke_in6 [simp]: "i + 16 \<le> length p \<Longrightarrow> length (poke_in6 i a p) = length p"
  by (simp add: poke_in6_def split: option.split)

section \<open>Requests and responses as a client writes and reads them\<close>

definition map_packet :: "u32 \<Rightarrow> in6_addr \<Rightarrow> byte list \<Rightarrow> byte \<Rightarrow> port \<Rightarrow> port \<Rightarrow> in6_addr \<Rightarrow> byte list" where
  "map_packet lifetime addr nonce proto iport eport ext =
     [2, 1, 0, 0] @ writenu32 lifetime @ bytes_of_in6 addr @ nonce @ [proto, 0, 0, 0] @ writenu16 iport @ writenu16 eport
       @ bytes_of_in6 ext"

definition pcp_buffer :: "byte list \<Rightarrow> byte list" where
  "pcp_buffer pkt = pkt @ replicate (PCP_MAX_LEN - length pkt) 0"

lemma map_packet_parts:
  assumes "length nonce = 12" and b_def: "b = pcp_buffer (map_packet lifetime addr nonce proto iport eport ext)"
  shows "b ! 0 = 2" "b ! 1 = 1" "readnu32 b 4 = lifetime" "read_in6 b 8 = addr" "take 12 (drop 24 b) = nonce" "b ! 36 = proto"
    "readnu16 b 40 = iport" "readnu16 b 42 = eport" "read_in6 b 44 = ext" "length b = PCP_MAX_LEN"
proof -
  define z where "z = replicate (PCP_MAX_LEN - 60) (0 :: byte)"
  have len: "length (map_packet lifetime addr nonce proto iport eport ext) = 60" using assms(1) by (simp add: map_packet_def)
  define h1 where "h1 = [2, 1, 0, 0 :: byte]"
  define h2 where "h2 = h1 @ writenu32 lifetime"
  define h3 where "h3 = h2 @ bytes_of_in6 addr"
  define h4 where "h4 = h3 @ nonce"
  define h5 where "h5 = h4 @ [proto, 0, 0, 0]"
  define h6 where "h6 = h5 @ writenu16 iport"
  define h7 where "h7 = h6 @ writenu16 eport"
  have l: "length h1 = 4" "length h2 = 8" "length h3 = 24" "length h4 = 36" "length h5 = 40" "length h6 = 42" "length h7 = 44"
    by (simp_all add: h1_def h2_def h3_def h4_def h5_def h6_def h7_def assms(1))
  have b: "b = h7 @ bytes_of_in6 ext @ z"
    by (simp add: b_def pcp_buffer_def len z_def) (simp add: map_packet_def h1_def h2_def h3_def h4_def h5_def h6_def h7_def)
  show "b ! 0 = 2" "b ! 1 = 1" by (simp_all add: b h1_def h2_def h3_def h4_def h5_def h6_def h7_def)
  show "readnu32 b 4 = lifetime"
    using read_write_32 [of h1 lifetime] by (simp add: b l h2_def h3_def h4_def h5_def h6_def h7_def)
  show "read_in6 b 8 = addr" using read_in6_at [of h2 addr] by (simp add: b l h3_def h4_def h5_def h6_def h7_def)
  show "take 12 (drop 24 b) = nonce" using l(3) assms(1) by (simp add: b h4_def h5_def h6_def h7_def)
  show "b ! 36 = proto" using l(4) by (simp add: b h5_def h6_def h7_def nth_append)
  show "readnu16 b 40 = iport" using read_write_16 [of h5 iport] by (simp add: b l h6_def h7_def)
  show "readnu16 b 42 = eport" using read_write_16 [of h6 eport] by (simp add: b l h7_def)
  show "read_in6 b 44 = ext" using read_in6_at [of h7 ext z] by (simp add: b l)
  show "length b = PCP_MAX_LEN" by (simp add: b_def pcp_buffer_def len PCP_MAX_LEN_def)
qed

text \<open>C29: A MAP request is read as its client wrote it; its lifetime is brought into the configured bounds.\<close>

theorem pcp_map_request_fields:
  assumes "length nonce = 12"
  shows "\<exists>pi. parseCommonRequestHeader min_lt max_lt (pcp_buffer (map_packet lifetime addr nonce proto iport eport ext)) pi0 = (False, pi)
    \<and> parsePCPMAP_version2 (pcp_buffer (map_packet lifetime addr nonce proto iport eport ext)) 24 pi
      = pi0\<lparr>pi_version := 2, pi_opcode := PCP_OPCODE_MAP, pi_lifetime := clamp_lifetime min_lt max_lt lifetime,
            pi_int_ip := Some addr, pi_mapped_ip := Some addr, pi_nonce := nonce, pi_protocol := proto,
            pi_int_port := iport, pi_ext_port := eport, pi_ext_ip := Some ext\<rparr>"
  using map_packet_parts [OF assms refl, of lifetime addr proto iport eport ext]
  by (auto simp: parseCommonRequestHeader_def parsePCPMAP_version2_def Let_def PCP_OPCODE_MAP_def)

theorem pcp_map_request_fields_witness:
  "\<exists>pi. parseCommonRequestHeader 120 86400 (pcp_buffer (map_packet 60 1 (replicate 12 7) 6 80 8080 0)) (pcp_cleared 1) = (False, pi)
    \<and> pi_lifetime pi = 120
    \<and> pi_ext_port (parsePCPMAP_version2 (pcp_buffer (map_packet 60 1 (replicate 12 7) 6 80 8080 0)) 24 pi) = 8080"
proof -
  have "length (replicate 12 (7 :: byte)) = 12" by simp
  from pcp_map_request_fields [OF this, of 120 86400 60 1 6 80 8080 0 "pcp_cleared 1"] obtain pi where pi:
    "parseCommonRequestHeader 120 86400 (pcp_buffer (map_packet 60 1 (replicate 12 7) 6 80 8080 0)) (pcp_cleared 1) = (False, pi)"
    "parsePCPMAP_version2 (pcp_buffer (map_packet 60 1 (replicate 12 7) 6 80 8080 0)) 24 pi
      = (pcp_cleared 1)\<lparr>pi_version := 2, pi_opcode := PCP_OPCODE_MAP, pi_lifetime := clamp_lifetime 120 86400 60,
            pi_int_ip := Some 1, pi_mapped_ip := Some 1, pi_nonce := replicate 12 7, pi_protocol := 6,
            pi_int_port := 80, pi_ext_port := 8080, pi_ext_ip := Some 0\<rparr>" by blast
  have "pi_lifetime pi = pi_lifetime (parsePCPMAP_version2 (pcp_buffer (map_packet 60 1 (replicate 12 7) 6 80 8080 0)) 24 pi)"
    by (simp add: parsePCPMAP_version2_def)
  also have "\<dots> = 120" unfolding pi(2) by (simp add: clamp_lifetime_def)
  finally show ?thesis using pi by simp
qed

lemma nth_poke_in6: "i + 16 \<le> length p \<Longrightarrow> j < i \<Longrightarrow> poke_in6 i a p ! j = p ! j"
  by (auto simp: poke_in6_def nth_poke split: option.split)

lemma response_fields_head:
  assumes "length p = PCP_MAX_LEN"
  shows "length (response_fields pi v p) = PCP_MAX_LEN" and "j < 28 \<Longrightarrow> response_fields pi v p ! j = p ! j"
  using assms by (auto simp: response_fields_def PCP_MAX_LEN_def nth_poke_in6 nth_poke)

definition response_head :: "u32 \<Rightarrow> pcp_info \<Rightarrow> byte list \<Rightarrow> byte list" where
  "response_head epoch pi p =
     poke 4 (writenu32 (response_lifetime pi)) (poke 8 (writenu32 epoch)
       (poke 3 [pi_result pi] (poke 1 [pi_opcode pi OR 0x80]
         (poke 0 [if pi_result pi = PCP_ERR_UNSUPP_VERSION then 2 else pi_version pi] (poke 12 (replicate 12 0) (poke 2 [0] p))))))"

lemma response_head_fields:
  assumes "length p = PCP_MAX_LEN"
  shows "length (response_head epoch pi p) = PCP_MAX_LEN"
    "response_head epoch pi p ! 0 = (if pi_result pi = PCP_ERR_UNSUPP_VERSION then 2 else pi_version pi)"
    "response_head epoch pi p ! 1 = pi_opcode pi OR 0x80" "response_head epoch pi p ! 3 = pi_result pi"
    "readnu32 (response_head epoch pi p) 4 = response_lifetime pi" "readnu32 (response_head epoch pi p) 8 = epoch"
    "24 \<le> j \<Longrightarrow> response_head epoch pi p ! j = p ! j"
  using assms
  by (simp_all add: response_head_def PCP_MAX_LEN_def nth_poke read_poke_32 read_32_other)

lemma createPCPResponse_head:
  "createPCPResponse epoch pi p = response_fields pi (if pi_result pi = PCP_ERR_UNSUPP_VERSION then 2 else pi_version pi)
     (response_head epoch pi p)"
  by (simp add: createPCPResponse_def response_head_def Let_def)

text \<open>A response fits the buffer, has a length that is a multiple of 4 and at least 24 bytes, and carries
  the bit of a response, so that a server that gets it does not answer.\<close>

theorem pcp_response_not_answered:
  assumes "length p = PCP_MAX_LEN" and "len \<le> PCP_MAX_LEN"
  shows "\<exists>reply s'. pcp_reply cf p len pi s = (reply, s') \<and> length reply mod 4 = 0 \<and> PCP_MIN_LEN \<le> length reply
    \<and> length reply \<le> PCP_MAX_LEN \<and> ProcessIncomingPCPPacket cf' (pcp_buffer reply) n sender s'' = Some (Inr None, s'')"
proof -
  define epoch where "epoch = upnp_time (rc_env (pc_rdr cf)) - (if pc_epoch_origin s = 0 then pc_startup_time cf else pc_epoch_origin s)"
  define q where "q = createPCPResponse epoch pi p"
  define k where "k = (if len < PCP_MIN_LEN then PCP_MIN_LEN else (len + 3) div 4 * 4)"
  have k: "k mod 4 = 0" "PCP_MIN_LEN \<le> k" "k \<le> PCP_MAX_LEN" using assms(2) by (auto simp: k_def PCP_MIN_LEN_def PCP_MAX_LEN_def)
  note h = response_head_fields [OF assms(1)]
  have q: "length q = PCP_MAX_LEN" "q ! 1 = pi_opcode pi OR 0x80"
    using response_fields_head [OF h(1)] h(3) by (simp_all add: q_def createPCPResponse_head)
  obtain s' where r: "pcp_reply cf p len pi s = (take k q, s')"
    by (simp add: pcp_reply_def q_def epoch_def k_def Let_def)
  have "(pi_opcode pi OR 0x80) AND 128 = (128 :: byte)" by (simp add: bit_eq_iff bit_simps)
  moreover have "pcp_buffer (take k q) ! 1 = q ! 1"
    using k(2) q(1) by (simp add: pcp_buffer_def PCP_MIN_LEN_def PCP_MAX_LEN_def nth_append)
  ultimately have "pcp_buffer (take k q) ! 1 AND 128 \<noteq> 0" using q(2) by simp
  then have "ProcessIncomingPCPPacket cf' (pcp_buffer (take k q)) n sender s'' = Some (Inr None, s'')"
    by (cases sender) (simp_all add: ProcessIncomingPCPPacket_def sender_in6_def)
  then show ?thesis using r k q(1) by simp
qed

theorem pcp_response_not_answered_witness:
  "\<exists>reply s'. pcp_reply sample_pcp (replicate PCP_MAX_LEN 0) 5 (pcp_cleared 1) (pcp_start_state one_nf) = (reply, s')
    \<and> length reply mod 4 = 0 \<and> PCP_MIN_LEN \<le> length reply \<and> length reply \<le> PCP_MAX_LEN
    \<and> ProcessIncomingPCPPacket sample_pcp (pcp_buffer reply) 24 (Sin 1 5351) (pcp_start_state one_nf) = Some (Inr None, pcp_start_state one_nf)"
  by (rule pcp_response_not_answered) (simp_all add: PCP_MAX_LEN_def)

text \<open>The client reads in a MAP response the result, the lifetime, the time of the server, its internal
  port, the assigned external port and address, and the nonce and protocol of its request.\<close>

theorem pcp_map_response_fields:
  assumes "length p = PCP_MAX_LEN" and "60 \<le> len" and "pi_opcode pi = PCP_OPCODE_MAP" and "pi_version pi = 2"
    and "pi_result pi \<noteq> PCP_ERR_UNSUPP_VERSION" and "pi_ext_ip pi = Some ext"
    and "pcp_reply cf p len pi s = (reply, s')"
  shows "reply ! 0 = 2 \<and> reply ! 1 = 0x81 \<and> reply ! 3 = pi_result pi \<and> readnu32 reply 4 = response_lifetime pi
    \<and> readnu32 reply 8 = upnp_time (rc_env (pc_rdr cf)) - pc_epoch_origin s'
    \<and> take 13 (drop 24 reply) = take 13 (drop 24 p)
    \<and> readnu16 reply 40 = pi_int_port pi \<and> readnu16 reply 42 = pi_ext_port pi \<and> read_in6 reply 44 = ext"
proof -
  define epoch where "epoch = upnp_time (rc_env (pc_rdr cf)) - pc_epoch_origin s'"
  define h where "h = response_head epoch pi p"
  define k where "k = (len + 3) div 4 * 4"
  have k: "60 \<le> k" using assms(2) by (simp add: k_def)
  note f = response_head_fields [OF assms(1), where epoch = epoch and pi = pi, folded h_def]
  have op: "pi_opcode pi OR 0x80 = 0x81" using assms(3) by (simp add: PCP_OPCODE_MAP_def)
  define q where "q = poke_in6 44 (pi_ext_ip pi) (poke 42 (writenu16 (pi_ext_port pi)) (poke 40 (writenu16 (pi_int_port pi)) h))"
  have len: "length h = 1100" "length q = 1100" using f(1) by (simp_all add: q_def PCP_MAX_LEN_def)
  have "createPCPResponse epoch pi p = q"
    by (simp add: createPCPResponse_head h_def [symmetric] assms(4,5) response_fields_def op q_def)
  then have reply: "reply = take k q"
    using assms(2,7) by (auto simp: pcp_reply_def Let_def epoch_def k_def PCP_MIN_LEN_def)
  have at: "q ! j = h ! j" if "j < 40" for j using that len(1) by (simp add: q_def nth_poke_in6 nth_poke)
  have at': "reply ! j = q ! j" if "j < 60" for j using that k by (simp add: reply)
  have w: "readnu32 reply j = readnu32 h j" if "j \<in> {4, 8}" for j using that by (auto simp: readnu32_def at' at)
  have "readnu16 q 40 = pi_int_port pi" "readnu16 q 42 = pi_ext_port pi" "read_in6 q 44 = ext"
    using len(1) by (simp_all add: q_def assms(6) poke_in6_def read_poke_16 read_16_other read_poke_in6)
  moreover have "readnu16 reply j = readnu16 q j" if "j \<in> {40, 42}" for j using that by (auto simp: readnu16_def at')
  moreover have "read_in6 reply 44 = read_in6 q 44" using k by (simp add: read_in6_def reply drop_take min_def)
  moreover have "take 13 (drop 24 reply) = take 13 (drop 24 p)"
  proof (rule nth_equalityI)
    show "length (take 13 (drop 24 reply)) = length (take 13 (drop 24 p))"
      using assms(1) k len(2) by (simp add: reply PCP_MAX_LEN_def)
    fix i assume i: "i < length (take 13 (drop 24 reply))"
    then have "i < 13" by simp
    then show "take 13 (drop 24 reply) ! i = take 13 (drop 24 p) ! i"
      using assms(1) k len \<open>i < 13\<close> at' [of "24 + i"] at [of "24 + i"] f(7) [of "24 + i"] by (simp add: PCP_MAX_LEN_def reply)
  qed
  ultimately show ?thesis
    using f(2-6) assms(4,5) op w [of 4] w [of 8] by (simp add: at at' epoch_def)
qed

definition sample_packet :: "byte list" where
  "sample_packet = pcp_buffer (map_packet 3600 (to_v4mapped 167772163) (replicate 12 7) 6 80 8080 0)"

lemma sample_packet_bytes: "sample_packet ! 0 = 2" "sample_packet ! Suc 0 = 1" "sample_packet ! 36 = 6"
  using map_packet_parts [of "replicate 12 7" sample_packet 3600 "to_v4mapped 167772163" 6 80 8080 0]
  by (simp_all add: sample_packet_def)

lemma no_holes: "pinhole_list pin_start = []"
  by (simp add: pin_start_def)

lemma sample_sender: "get_lan_for_peer (pc_route sample_pcp) (pc_lans sample_pcp) (Sin 167772163 5351) \<noteq> None"
  by (simp add: sample_pcp_def get_lan_for_peer_def in_lan_def)

lemma sample_packet_answered:
  "\<exists>reply s'. ProcessIncomingPCPPacket sample_pcp sample_packet 60 (Sin 167772163 5351) (pcp_start_state one_nf) = Some (Inr (Some reply), s')"
  by (rule packet_answered [of _ _ _ _ "to_v4mapped 167772163"])
    (simp_all add: one_nf_ok sample_packet_bytes valid_6 sample_sender sender_in6_def PCP_OPCODE_PEER_def pin_start_ok no_holes)

theorem pcp_packet_keeps_others_witness:
  "\<exists>reply s'. ProcessIncomingPCPPacket sample_pcp sample_packet 60 (Sin 167772163 5351) (pcp_start_state one_nf) = Some (Inr reply, s')
    \<and> pcp_own_step (to_v4mapped 167772163) (pcp_start_state one_nf) s'"
proof -
  obtain reply s' where r: "ProcessIncomingPCPPacket sample_pcp sample_packet 60 (Sin 167772163 5351) (pcp_start_state one_nf)
      = Some (Inr (Some reply), s')" using sample_packet_answered by blast
  show ?thesis
    using pcp_packet_keeps_others [OF _ _ _ _ _ r, of "to_v4mapped 167772163"] r
    by (simp add: one_nf_ok sample_packet_bytes valid_6 sender_in6_def PCP_OPCODE_PEER_def pin_start_ok no_holes)
qed

theorem pcp_packet_answered_witness:
  "\<exists>reply s'. ProcessIncomingPCPPacket sample_pcp sample_packet 60 (Sin 167772163 5351) (pcp_start_state one_nf) = Some (Inr (Some reply), s')"
  by (rule pcp_packet_answered [of _ _ _ _ "to_v4mapped 167772163"])
    (simp_all add: one_nf_ok sample_packet_bytes valid_6 sample_sender sender_in6_def PCP_OPCODE_PEER_def pin_start_ok no_holes)

theorem pcp_map_response_fields_witness:
  "\<exists>reply s'. pcp_reply sample_pcp (replicate PCP_MAX_LEN 0) 60 ((sample_map 80 8080 False)\<lparr>pi_ext_ip := Some 1\<rparr>) (pcp_start_state one_nf) = (reply, s')
    \<and> reply ! 1 = 0x81 \<and> readnu16 reply 42 = 8080 \<and> read_in6 reply 44 = 1"
proof -
  obtain reply s' where r: "pcp_reply sample_pcp (replicate PCP_MAX_LEN 0) 60 ((sample_map 80 8080 False)\<lparr>pi_ext_ip := Some 1\<rparr>) (pcp_start_state one_nf) = (reply, s')"
    by fastforce
  show ?thesis
    using pcp_map_response_fields [OF _ _ _ _ _ _ r, of 1] r
    by (simp add: sample_map_def pcp_cleared_def PCP_ERR_UNSUPP_VERSION_def)
qed

section \<open>Bounds\<close>

lemma clamp_lifetime_bounds:
  assumes "min_lt \<le> max_lt" "max_lt \<le> 0xFFFFFFFF" "lifetime \<noteq> 0"
  shows "min_lt \<le> ucast (clamp_lifetime min_lt max_lt lifetime) \<and> ucast (clamp_lifetime min_lt max_lt lifetime) \<le> max_lt"
proof -
  have 64: "(ucast (ucast w :: u32) :: 64 word) = w" if "w \<le> 0xFFFFFFFF" for w :: "64 word"
    using that by (simp add: word_unat_eq_iff word_le_nat_alt unsigned_ucast_eq unsigned_take_bit_eq take_bit_nat_eq_self)
  have max: "(ucast (ucast max_lt :: u32) :: 64 word) = max_lt" and min: "(ucast (ucast min_lt :: u32) :: 64 word) = min_lt"
    using assms by (auto intro!: 64)
  have zero: "min_lt = 0" if "max_lt = 0" using that assms(1) by simp
  show ?thesis
    using assms max min by (auto simp: clamp_lifetime_def Let_def not_less)
qed

text \<open>The header of a request that is read without a problem: a lifetime other than 0 is brought between
  the configured bounds, and 0, which asks for a deletion, stays 0.\<close>

theorem pcp_lifetime_bounded:
  assumes "min_lt \<le> max_lt" and "max_lt \<le> 0xFFFFFFFF" and "parseCommonRequestHeader min_lt max_lt p pi0 = (False, pi)"
  shows "if readnu32 p 4 = 0 then pi_lifetime pi = 0
    else min_lt \<le> ucast (pi_lifetime pi) \<and> ucast (pi_lifetime pi) \<le> max_lt"
proof -
  have "pi_lifetime pi = clamp_lifetime min_lt max_lt (readnu32 p 4)"
    using assms(3) by (auto simp: parseCommonRequestHeader_def Let_def split: if_splits)
  moreover have "clamp_lifetime min_lt max_lt 0 = 0" by (auto simp: clamp_lifetime_def Let_def)
  ultimately show ?thesis using clamp_lifetime_bounds [OF assms(1,2)] by auto
qed

theorem pcp_lifetime_bounded_witness:
  "\<exists>pi. parseCommonRequestHeader 120 86400 sample_packet (pcp_cleared 1) = (False, pi)
    \<and> 120 \<le> (ucast (pi_lifetime pi) :: 64 word) \<and> (ucast (pi_lifetime pi) :: 64 word) \<le> 86400"
proof -
  note parts = map_packet_parts [of "replicate 12 7" sample_packet 3600 "to_v4mapped 167772163" 6 80 8080 0]
  obtain pi where pi: "parseCommonRequestHeader 120 86400 sample_packet (pcp_cleared 1) = (False, pi)"
    using parts(1) by (auto simp: sample_packet_def parseCommonRequestHeader_def Let_def)
  then show ?thesis
    using pcp_lifetime_bounded [OF _ _ pi] parts(3) by (simp add: sample_packet_def)
qed

text \<open>The length of an option is computed in 16 bits. An optional option that declares 0xFFFC bytes gets
  the length 0, which ends the options: whatever follows in the packet is not looked at.\<close>

theorem pcp_option_length_wraps:
  assumes "4 \<le> remain" and "128 \<le> p ! i" and "readnu16 p (i + 2) = 0xFFFC"
  shows "parsePCPOptions p i remain pi = pi"
proof -
  have "p ! i \<noteq> 1" "p ! i \<noteq> 2" "p ! i \<noteq> 3" "\<not> p ! i < 128"
    using assms(2) by (auto simp: word_le_nat_alt word_less_nat_alt)
  then have "parsePCPOption p i remain pi = (0, pi)" using assms by (simp add: parsePCPOption_def)
  then show ?thesis using assms(1) by (subst parsePCPOptions.simps) simp
qed

theorem pcp_option_length_wraps_witness:
  "parsePCPOptions [128, 0, 255, 252, 2, 0, 0, 0] 0 8 (pcp_cleared 1) = pcp_cleared 1
    \<and> pi_pfailure (parsePCPOptions [128, 0, 0, 0, 2, 0, 0, 0] 0 8 ((pcp_cleared 1)\<lparr>pi_opcode := 1\<rparr>))"
proof -
  have "parsePCPOptions [128, 0, 0, 0, 2, 0, 0, 0] 0 8 pi = parsePCPOptions [128, 0, 0, 0, 2, 0, 0, 0] 4 4 pi"
    "parsePCPOptions [128, 0, 0, 0, 2, 0, 0, 0] 4 4 pi = snd (parsePCPOption [128, 0, 0, 0, 2, 0, 0, 0] 4 4 pi)" for pi
    by (subst parsePCPOptions.simps, simp add: parsePCPOption_def readnu16_def Let_def split: prod.splits)+
  then show ?thesis
    using pcp_option_length_wraps [of 8 "[128, 0, 255, 252, 2, 0, 0, 0]" 0 "pcp_cleared 1"]
    by (simp add: parsePCPOption_def readnu16_def pcp_cleared_def PCP_OPCODE_MAP_def)
qed

end
