(* ===== verification/Pcp_Peers.thy ===== *)
theory Pcp_Peers
  imports Pcp_Packets
begin

text \<open>
  The PEER operation on the netfilter tables: what a source NAT rule does to the redirect of the same
  external port, and what the deletion of the rule removes.
\<close>

lemma host_addr_dotted [simp]: "host_addr (Some (dotted a)) = a"
proof -
  have "\<not> isdigit (CHR ''*'')" by (simp add: isdigit_def)
  then have "dotted a \<noteq> ''*''" using hd_dotted(2) [of a] by (metis list.sel(1))
  then show ?thesis using hd_dotted(1) [of a] by (simp add: host_addr_def host_given_def inet_addr_def cstr)
qed

text \<open>The rule that a PEER request enters.\<close>

definition peer_rule :: "int \<Rightarrow> string \<Rightarrow> port \<Rightarrow> ipv4 \<Rightarrow> port \<Rightarrow> ipv4 \<Rightarrow> port \<Rightarrow> ipt_entry" where
  "peer_rule proto eaddr eport a iport b rport =
     \<lparr>e_proto = word_of_int proto, e_src = a, e_smsk = host_mask (Some (dotted a)), e_dst = b, e_dmsk = host_mask (Some (dotted b)),
      e_match = proto_match proto rport iport, e_target = get_snat_target eaddr eport, e_pcnt = 0, e_bcnt = 0\<rparr>"

lemma add_peer_ok:
  assumes ok: "nf_ok s" and proto: "valid_proto proto" and post: "tables s Nat (post_chain s) = Some es"
  shows "\<exists>s'. add_peer_redirect_rule2 (Some (dotted b)) rport eaddr eport (dotted a) iport proto (Some desc) ts s = (0, s')
    \<and> nf_ok s' \<and> nf_keys s' = nf_keys s \<and> tables s' Nat (post_chain s') = Some (es @ [peer_rule proto eaddr eport a iport b rport])
    \<and> desc_of (rdr_desc_list s') (eport, proto) = (desc, ts)
    \<and> nf_table s' = (nf_table s)((eport, proto) := map_option (\<lambda>m. m\<lparr>mp_desc := desc, mp_timestamp := ts\<rparr>) (nf_table s (eport, proto)))"
proof -
  note okd = nf_okD [OF ok]
  define s1 where "s1 = set_table Nat (post_chain s) (es @ [peer_rule proto eaddr eport a iport b rport]) s"
  define s' where "s' = s1\<lparr>rdr_desc_list := add_redirect_desc eport proto (Some desc) ts (rdr_desc_list s)\<rparr>"
  have run: "add_peer_redirect_rule2 (Some (dotted b)) rport eaddr eport (dotted a) iport proto (Some desc) ts s = (0, s')"
    by (simp add: add_peer_redirect_rule2_def addpeernatrule_def append_ok [OF okd(1) post] s'_def s1_def peer_rule_def)
  have same: "nf_same s s1" using okd(1,4) by (simp add: s1_def)
  have ent: "nat_entries s' = nat_entries s" "filter_entries s' = filter_entries s"
    using nf_sameD(1,2) [OF same] by (simp_all add: s'_def nat_entries_def filter_entries_def)
  have keys: "nf_keys s' = nf_keys s" by (simp add: nf_keys_def ent)
  have ok': "nf_ok s'" using nf_same_ok [OF same ok] ent nf_sameD(1,2) [OF same] by (simp add: nf_ok_def s'_def nf_keys_def)
  have descs: "rdr_desc_list s' = add_redirect_desc eport proto (Some desc) ts (rdr_desc_list s)" by (simp add: s'_def)
  have desc: "desc_of (rdr_desc_list s') (eport, proto) = (desc, ts)" by (simp add: s'_def desc_or_default_def)
  have "nf_table s' (eport, proto) = map_option (\<lambda>m. m\<lparr>mp_desc := desc, mp_timestamp := ts\<rparr>) (nf_table s (eport, proto))"
    by (cases "find (\<lambda>e. nf_key e = (eport, proto)) (nat_entries s)") (simp_all add: nf_table_def ent desc portmap_of_def)
  then have table: "nf_table s' = (nf_table s)((eport, proto) := map_option (\<lambda>m. m\<lparr>mp_desc := desc, mp_timestamp := ts\<rparr>) (nf_table s (eport, proto)))"
    by (intro nf_table_upd) (simp_all add: ent descs desc_add_other [OF proto])
  have "tables s' Nat (post_chain s') = Some (es @ [peer_rule proto eaddr eport a iport b rport])"
    by (simp add: s'_def s1_def set_table_def)
  then show ?thesis using run ok' keys desc table by blast
qed

text \<open>A PEER request of \<open>a\<close> towards \<open>b\<close> that no connection of the kernel changes.\<close>

definition peer_request :: "pcp_conf \<Rightarrow> pcp_info \<Rightarrow> ipv4 \<Rightarrow> ipv4 \<Rightarrow> bool" where
  "peer_request cf pi a b \<longleftrightarrow> \<not> pi_is_fw pi \<and> pi_mapped_str pi = dotted a \<and> a \<noteq> 0 \<and> b \<noteq> 0
     \<and> pi_peer_ip pi = Some (to_v4mapped b) \<and> pi_ext_port pi \<noteq> 0
     \<and> pi_desc pi = pcp_desc (pi_opcode pi) (pi_nonce pi)
     \<and> pc_conntrack cf (the (pi_mapped_ip pi), pi_int_port pi) (to_v4mapped b, pi_peer_port pi) (pi_protocol pi) = None"

lemma peer_rule_found:
  assumes ok: "nf_ok s" and proto: "valid_proto proto" and "a \<noteq> 0" "b \<noteq> 0"
    and post: "tables s Nat (post_chain s) = Some (peer_rule proto eaddr eport a iport b rport # es)"
    and desc: "desc_of (rdr_desc_list s) (eport, proto) = (pcp_desc opcode nonce, ts)"
  shows "\<exists>q. get_peer_rule_by_index 0 pcp_sizes s = (Some q, s) \<and> p_proto q = proto \<and> p_eport q = eport
    \<and> p_iaddr q = Some (dotted a) \<and> p_rhost q = dotted b \<and> p_iport q = iport \<and> p_rport q = rport
    \<and> cstring (p_desc q) = pcp_desc opcode nonce"
proof -
  have "uint (word_of_int proto :: 16 word) = proto" using proto by (rule uint_known)
  moreover have "fst (m_spts (proto_match proto rport iport)) = iport"
    by (simp add: proto_match_def get_tcp_match_def get_udp_match_def)
  ultimately show ?thesis
    using nf_okD(1) [OF ok] post desc assms(3,4)
    by (simp add: get_peer_rule_by_index_def iptc_call_ok peer_rule_def get_snat_target_def desc_found pcp_desc_buffer
        pcp_sizes_def snprintip_whole)
qed

text \<open>A PEER request may name the external port of a mapping of another client. Entering the source NAT
  rule gives that mapping the description and the expiry of the request, and deleting the rule
  removes the mapping.\<close>

theorem pcp_peer_takes_mapping:
  assumes "pcp_ok s" and "peer_request cf pi a b" and "tables (fw (pc_maps s)) Nat (post_chain (fw (pc_maps s))) = Some []"
    and "pcp_table s (pi_ext_port pi, uint (pi_protocol pi)) = Some m"
  shows "\<exists>s1 s2. CreatePCPPeer cf pi s = Some (Inr (pi\<lparr>pi_result := PCP_SUCCESS\<rparr>), s1)
    \<and> pcp_table s1 = (pcp_table s)((pi_ext_port pi, uint (pi_protocol pi)) \<mapsto>
        m\<lparr>mp_desc := pi_desc pi, mp_timestamp := upnp_time (rc_env (pc_rdr cf)) + pi_lifetime pi\<rparr>)
    \<and> DeletePCPPeer cf pi s1 = Some (Inr pi, s2)
    \<and> pcp_table s2 = (pcp_table s)((pi_ext_port pi, uint (pi_protocol pi)) := None)"
proof -
  note req = assms(2) [unfolded peer_request_def]
  let ?proto = "uint (pi_protocol pi)" and ?e = "pi_ext_port pi"
  have proto: "valid_proto ?proto" by simp
  have peer: "inet_n46top (to_v4mapped b) = dotted b" by (simp add: inet_n46top_def)
  obtain f1 where f1: "add_peer_redirect_rule2 (Some (dotted b)) (pi_peer_port pi) (inet_n46top (the (pi_ext_ip pi))) ?e
      (dotted a) (pi_int_port pi) ?proto (Some (pi_desc pi)) (upnp_time (rc_env (pc_rdr cf)) + pi_lifetime pi) (fw (pc_maps s)) = (0, f1)"
    "nf_ok f1" "tables f1 Nat (post_chain f1)
      = Some [peer_rule ?proto (inet_n46top (the (pi_ext_ip pi))) ?e a (pi_int_port pi) b (pi_peer_port pi)]"
    "desc_of (rdr_desc_list f1) (?e, ?proto) = (pi_desc pi, upnp_time (rc_env (pc_rdr cf)) + pi_lifetime pi)"
    "nf_table f1 = (pcp_table s)((?e, ?proto) \<mapsto> m\<lparr>mp_desc := pi_desc pi, mp_timestamp := upnp_time (rc_env (pc_rdr cf)) + pi_lifetime pi\<rparr>)"
    using add_peer_ok [OF assms(1) proto assms(3)] assms(4) by fastforce
  define s1 where "s1 = s\<lparr>pc_maps := (pc_maps s)\<lparr>fw := f1\<rparr>\<rparr>"
  have create: "CreatePCPPeer cf pi s = Some (Inr (pi\<lparr>pi_result := PCP_SUCCESS\<rparr>), s1)"
    using req f1(1) by (simp add: CreatePCPPeer_def CreatePCPPeer_NAT_def Let_def peer s1_def)
  obtain q where q: "get_peer_rule_by_index 0 pcp_sizes f1 = (Some q, f1)" "p_proto q = ?proto" "p_eport q = ?e"
    "p_iaddr q = Some (dotted a)" "p_rhost q = dotted b" "p_iport q = pi_int_port pi" "p_rport q = pi_peer_port pi"
    "cstring (p_desc q) = pi_desc pi"
    using peer_rule_found [OF f1(2) proto _ _ f1(3)] req f1(4) by metis
  obtain st2 where st2: "upnp_delete_redir netfilter_ops (pc_rdr cf) ?e ?proto (pc_maps s1) = (Inr 0, st2)"
    "nf_table (fw st2) = (nf_table f1)((?e, ?proto) := None)"
    using netfilter.delete_refines [of "pc_maps s1", OF _ proto, of "pc_rdr cf" ?e] f1(2,5) by (auto simp: s1_def)
  have same: "(pc_maps s1)\<lparr>fw := f1\<rparr> = pc_maps s1" "fw (pc_maps s1) = f1" by (simp_all add: s1_def)
  have "pcp_delete_peer (pc_rdr cf) pi (dotted b) None 0 (pc_maps s1) = Some (Inr None, st2)"
    by (subst pcp_delete_peer.simps) (use req q st2(1) in \<open>simp add: same\<close>)
  then have "DeletePCPPeer cf pi s1 = Some (Inr pi, s1\<lparr>pc_maps := st2\<rparr>)"
    using req by (simp add: DeletePCPPeer_def peer set_result_def)
  moreover have "pcp_table (s1\<lparr>pc_maps := st2\<rparr>) = (pcp_table s)((?e, ?proto) := None)" by (simp add: st2(2) f1(5))
  ultimately show ?thesis using create f1(5) by (auto simp: s1_def)
qed

definition sample_peer :: pcp_info where
  "sample_peer = (sample_map 80 8080 False)\<lparr>pi_opcode := PCP_OPCODE_PEER, pi_peer_ip := Some (to_v4mapped 1),
     pi_peer_port := 443, pi_ext_ip := Some (to_v4mapped 2), pi_desc := pcp_desc PCP_OPCODE_PEER (replicate 12 0)\<rparr>"

theorem pcp_peer_takes_mapping_witness:
  "\<exists>s1 s2. CreatePCPPeer sample_pcp sample_peer (pcp_start_state one_nf) = Some (Inr (sample_peer\<lparr>pi_result := PCP_SUCCESS\<rparr>), s1)
    \<and> DeletePCPPeer sample_pcp sample_peer s1 = Some (Inr sample_peer, s2) \<and> pcp_table s2 = Map.empty"
proof -
  have req: "peer_request sample_pcp sample_peer 167772163 1"
    by (simp add: peer_request_def sample_peer_def valid_6) (simp add: sample_map_def pcp_cleared_def sample_pcp_def)
  have post: "tables one_nf Nat (post_chain one_nf) = Some []"
    by (simp add: one_nf_def add_filter_rule2_def add_filter_rule_def add_redirect_rule2_def addnatrule_def empty_nf_def
        iptc_init_verify_and_append_def iptc_edit_commit_def iptc_call_def set_table_def Let_def)
  have key: "pi_ext_port sample_peer = 8080" "uint (pi_protocol sample_peer) = IPPROTO_TCP"
    by (simp_all add: sample_peer_def sample_map_def IPPROTO_TCP_def)
  show ?thesis
    using pcp_peer_takes_mapping [OF _ req, of "pcp_start_state one_nf"] post
    by (fastforce simp: one_nf_ok one_nf_table key)
qed

end
