(* ===== verification/Scan_Buffer.thy ===== *)
theory Scan_Buffer
  imports Upnp_Prelude
begin

text \<open>
  Scanning loops over memory. A block of memory from some address on is the list of its bytes, and a
  loop that would read past its last byte has no result. A pointer that has advanced is the rest of
  the block. The text of a pointer, up to its terminator, is \<open>text_at\<close>.
\<close>

abbreviation crlf :: string where
  "crlf \<equiv> [CHR 0x0D, CHR 0x0A]"

text \<open>A loop that copies characters until one that stops it, or until \<open>n\<close> are copied; it reads the
  character it stops at. The result is what is copied and the memory from there on.\<close>

fun copy_until :: "(char \<Rightarrow> bool) \<Rightarrow> nat \<Rightarrow> string \<Rightarrow> (string \<times> string) option" where
  "copy_until stop n [] = None"
| "copy_until stop n (x # xs) =
     (if stop x \<or> n = 0 then Some ([], x # xs)
      else map_option (\<lambda>(a, r). (x # a, r)) (copy_until stop (n - 1) xs))"

text \<open>The same loop without a bound: it stops at the first character that stops it.\<close>

fun scan_to :: "(char \<Rightarrow> bool) \<Rightarrow> string \<Rightarrow> (string \<times> string) option" where
  "scan_to stop [] = None"
| "scan_to stop (x # xs) =
     (if stop x then Some ([], x # xs) else map_option (\<lambda>(a, r). (x # a, r)) (scan_to stop xs))"

definition text_at :: "string \<Rightarrow> string option" where
  "text_at m = map_option fst (scan_to (\<lambda>c. c = CHR 0x00) m)"

lemma copy_until_parts:
  "copy_until stop n m = Some (a, r) \<Longrightarrow>
     m = a @ r \<and> r \<noteq> [] \<and> length a \<le> n \<and> (\<forall>c \<in> set a. \<not> stop c) \<and> (stop (hd r) \<or> length a = n)"
  by (induction stop n m arbitrary: a r rule: copy_until.induct) (fastforce split: if_splits)+

lemma scan_to_parts:
  "scan_to stop m = Some (a, r) \<Longrightarrow> m = a @ r \<and> r \<noteq> [] \<and> (\<forall>c \<in> set a. \<not> stop c) \<and> stop (hd r)"
  by (induction stop m arbitrary: a r rule: scan_to.induct) (fastforce split: if_splits)+

lemma scan_to_found:
  "\<forall>c \<in> set a. \<not> stop c \<Longrightarrow> stop x \<Longrightarrow> scan_to stop (a @ x # r) = Some (a, x # r)"
  by (induction a) auto

lemma scan_to_None: "scan_to stop m = None \<longleftrightarrow> (\<forall>c \<in> set m. \<not> stop c)"
  by (induction m) auto

lemma scan_to_ex: "c \<in> set m \<Longrightarrow> stop c \<Longrightarrow> \<exists>a r. scan_to stop m = Some (a, r)"
  using scan_to_None [of stop m] by (cases "scan_to stop m") auto

lemma copy_until_found:
  "\<forall>c \<in> set a. \<not> stop c \<Longrightarrow> stop x \<Longrightarrow> length a \<le> n \<Longrightarrow> copy_until stop n (a @ x # r) = Some (a, x # r)"
  by (induction a arbitrary: n) auto

lemma copy_until_ex: "c \<in> set m \<Longrightarrow> stop c \<Longrightarrow> \<exists>a r. copy_until stop n m = Some (a, r)"
  by (induction m arbitrary: n) (auto, (metis surj_pair)+)

lemma copy_until_None:
  "\<forall>c \<in> set m. \<not> stop c \<Longrightarrow> length m \<le> n \<Longrightarrow> copy_until stop n m = None"
  by (induction m arbitrary: n) auto

lemma text_at_ex: "CHR 0x00 \<in> set m \<Longrightarrow> \<exists>s. text_at m = Some s"
  using scan_to_ex [of "CHR 0x00" m "\<lambda>c. c = CHR 0x00"] by (auto simp: text_at_def)

lemma text_at_whole [simp]: "CHR 0x00 \<notin> set s \<Longrightarrow> text_at (s @ CHR 0x00 # r) = Some s"
  by (subst text_at_def, subst scan_to_found) auto

text \<open>What \<^verbatim>\<open>send\<close> and \<^verbatim>\<open>recv\<close> on a socket that does not block return: a number of bytes sent, or the bytes
  received (none when the peer has closed); nothing yet (\<^verbatim>\<open>EAGAIN\<close>); interrupted; another error.\<close>

datatype send_result = Sent nat | Send_again | Send_intr | Send_error

datatype recv_result = Received string | Recv_again | Recv_error

end
