(* ===== verification/Http_Request.thy ===== *)
theory Http_Request
  imports Scan_Buffer Inet6 "HOL-Library.Monad_Syntax"
begin

text \<open>
  The requests of \<^verbatim>\<open>upnphttp.c\<close>: a connection, and how the headers of a request are read in its buffer,
  in a build with events and IPv6 and without HTTPS. Offsets count from the start of the buffer, 0 is a
  header that is absent. A byte past the end of the buffer has no value.
\<close>

section \<open>The connection\<close>

datatype http_state = EWaitingForHttpRequest | EWaitingForHttpContent | ESendingContinue | ESendingAndClosing | EToDelete

datatype http_command = EUnknown | EGet | EPost | ESubscribe | EUnSubscribe

text \<open>The part of a connection that \<^verbatim>\<open>ParseHttpHeaders\<close> writes.\<close>

record http_headers =
  req_contentlen :: int
  req_soapActionOff :: nat
  req_soapActionLen :: int
  req_HostOff :: nat
  req_HostLen :: nat
  accept_language :: string
  respflags :: u32
  req_CallbackOff :: nat
  req_CallbackLen :: nat
  req_Timeout :: int
  req_SIDOff :: nat
  req_SIDLen :: nat
  req_AuthOff :: nat
  req_AuthLen :: nat
  req_SigOff :: nat
  req_SigLen :: nat
  req_NTOff :: nat
  req_NTLen :: nat

text \<open>\<open>req_buf\<close> is the whole block of memory, with the terminator where the code adds one. Of \<open>res_buf\<close> it is the
  \<open>res_buflen\<close> bytes of the response.\<close>

record upnphttp =
  h_socket :: int
  h_clientaddr :: ipv4
  h_ipv6 :: bool
  h_clientaddr_v6 :: in6_addr
  h_clientaddr_str :: string
  h_state :: http_state
  HttpVer :: string
  req_buf :: string
  req_buflen :: nat
  req_contentoff :: nat
  req_command :: http_command
  h_headers :: http_headers
  res_SID :: string
  res_buf :: string
  res_sent :: nat
  res_buf_alloclen :: nat

abbreviation FLAG_TIMEOUT :: u32 where "FLAG_TIMEOUT \<equiv> 0x01"
abbreviation FLAG_SID :: u32 where "FLAG_SID \<equiv> 0x02"
abbreviation FLAG_CONTINUE :: u32 where "FLAG_CONTINUE \<equiv> 0x40"
abbreviation FLAG_HTML :: u32 where "FLAG_HTML \<equiv> 0x80"
abbreviation FLAG_ALLOW_POST :: u32 where "FLAG_ALLOW_POST \<equiv> 0x100"
abbreviation FLAG_ALLOW_SUB_UNSUB :: u32 where "FLAG_ALLOW_SUB_UNSUB \<equiv> 0x200"

definition no_headers :: http_headers where
  "no_headers = \<lparr>req_contentlen = 0, req_soapActionOff = 0, req_soapActionLen = 0, req_HostOff = 0, req_HostLen = 0,
     accept_language = [], respflags = 0, req_CallbackOff = 0, req_CallbackLen = 0, req_Timeout = 0, req_SIDOff = 0,
     req_SIDLen = 0, req_AuthOff = 0, req_AuthLen = 0, req_SigOff = 0, req_SigLen = 0, req_NTOff = 0, req_NTLen = 0\<rparr>"

definition New_upnphttp :: "int \<Rightarrow> upnphttp option" where
  "New_upnphttp s =
     (if s < 0 then None
      else Some \<lparr>h_socket = s, h_clientaddr = 0, h_ipv6 = False, h_clientaddr_v6 = 0, h_clientaddr_str = [],
        h_state = EWaitingForHttpRequest, HttpVer = [], req_buf = [], req_buflen = 0, req_contentoff = 0,
        req_command = EUnknown, h_headers = no_headers, res_SID = [], res_buf = [], res_sent = 0, res_buf_alloclen = 0\<rparr>)"

definition CloseSocket_upnphttp :: "upnphttp \<Rightarrow> upnphttp" where
  "CloseSocket_upnphttp h = h\<lparr>h_socket := - 1, h_state := EToDelete\<rparr>"

section \<open>The end of the headers\<close>

text \<open>The offset of the first empty line in the \<open>len\<close> bytes received.\<close>

fun findendheaders :: "string \<Rightarrow> nat \<Rightarrow> nat option" where
  "findendheaders s len =
     (if len \<le> 3 then None
      else if take 4 s = crlf @ crlf then Some 0
      else map_option Suc (findendheaders (tl s) (len - 1)))"

declare findendheaders.simps [simp del]

section \<open>Scanning a header\<close>

text \<open>\<^verbatim>\<open>char\<close> is signed, so characters from 128 on are below every other one.\<close>

definition visible :: "char \<Rightarrow> bool" where
  "visible c \<longleftrightarrow> 32 < ord c \<and> ord c < 128"

definition printed :: "char \<Rightarrow> bool" where
  "printed c \<longleftrightarrow> 32 \<le> ord c \<and> ord c < 128"

definition has_name :: "string \<Rightarrow> string \<Rightarrow> bool" where
  "has_name m name \<longleftrightarrow> strcasecmp_eq (take (length name) m) name"

definition blank :: "char \<Rightarrow> bool" where
  "blank c \<longleftrightarrow> c = CHR '' '' \<or> c = CHR 0x09"

text \<open>\<^verbatim>\<open>atoi\<close> on memory: it reads the character that ends the number.\<close>

definition atoi_mem :: "string \<Rightarrow> int option" where
  "atoi_mem m =
     (let t = skip_space m; u = (if t \<noteq> [] \<and> (hd t = CHR ''-'' \<or> hd t = CHR ''+'') then tl t else t)
      in if dropWhile isdigit u = [] then None else Some (atoi m))"

text \<open>The bytes before the first one that stops the scan, and how many they are.\<close>

definition skip_to :: "(char \<Rightarrow> bool) \<Rightarrow> string \<Rightarrow> nat option" where
  "skip_to stop m = map_option (\<lambda>(a, _). length a) (scan_to stop m)"

text \<open>From the colon at \<open>i\<close> on: the value starts after colons and blanks and goes on while \<open>keep\<close> holds.\<close>

definition colon_value :: "(char \<Rightarrow> bool) \<Rightarrow> string \<Rightarrow> nat \<Rightarrow> (nat \<times> string) option" where
  "colon_value keep buf i = do {
     k \<leftarrow> skip_to (\<lambda>c. c \<noteq> CHR '':'' \<and> \<not> blank c) (drop i buf);
     (t, _) \<leftarrow> scan_to (\<lambda>c. \<not> keep c) (drop (i + k) buf);
     Some (i + k, t) }"

text \<open>A value that starts after the blanks behind the colon and ends at the next white space.\<close>

definition word_value :: "string \<Rightarrow> nat \<Rightarrow> (nat \<times> nat) option" where
  "word_value buf i = do {
     k \<leftarrow> skip_to (\<lambda>c. \<not> blank c) (drop (i + 1) buf);
     n \<leftarrow> skip_to isspace (drop (i + 1 + k) buf);
     Some (i + 1 + k, n) }"

section \<open>One header\<close>

definition header_content_length :: "string \<Rightarrow> nat \<Rightarrow> http_headers \<Rightarrow> http_headers option" where
  "header_content_length buf i h = do {
     k \<leftarrow> skip_to (\<lambda>c. isdigit c \<or> c = CHR 0x0D \<or> c = CHR 0x0A) (drop i buf);
     n \<leftarrow> atoi_mem (drop (i + k) buf);
     Some (h\<lparr>req_contentlen := (if n < 0 then 0 else n)\<rparr>) }"

definition header_host :: "string \<Rightarrow> nat \<Rightarrow> http_headers \<Rightarrow> http_headers option" where
  "header_host buf i h = do {
     (p, t) \<leftarrow> colon_value visible buf i;
     Some (h\<lparr>req_HostOff := p, req_HostLen := length t\<rparr>) }"

text \<open>Quotes around the value are left out; a value that is one quote gets the length \<open>-1\<close>.\<close>

definition header_soapaction :: "string \<Rightarrow> nat \<Rightarrow> http_headers \<Rightarrow> http_headers option" where
  "header_soapaction buf i h = do {
     (p, t) \<leftarrow> colon_value printed buf i;
     (let quoted = (t \<noteq> [] \<and> (hd t = CHR 0x22 \<and> last t = CHR 0x22 \<or> hd t = CHR 0x27 \<and> last t = CHR 0x27))
      in Some (h\<lparr>req_soapActionOff := (if quoted then p + 1 else p),
                 req_soapActionLen := int (length t) - (if quoted then 2 else 0)\<rparr>)) }"

definition header_accept_language :: "string \<Rightarrow> nat \<Rightarrow> http_headers \<Rightarrow> http_headers option" where
  "header_accept_language buf i h = do {
     (p, t) \<leftarrow> colon_value printed buf i;
     (l, _) \<leftarrow> scan_to (\<lambda>c. \<not> visible c \<or> c = CHR '','') (drop p buf);
     Some (h\<lparr>accept_language := take 7 l\<rparr>) }"

definition header_expect :: "string \<Rightarrow> nat \<Rightarrow> http_headers \<Rightarrow> http_headers option" where
  "header_expect buf i h = do {
     (p, t) \<leftarrow> colon_value printed buf i;
     Some (if has_name (drop p buf) ''100-continue'' then h\<lparr>respflags := respflags h OR FLAG_CONTINUE\<rparr> else h) }"

text \<open>The value goes to the last \<^verbatim>\<open>>\<close> of the line.\<close>

definition last_gt :: "string \<Rightarrow> nat" where
  "last_gt t = length t - length (takeWhile (\<lambda>c. c \<noteq> CHR ''>'') (rev t)) - 1"

definition header_callback :: "string \<Rightarrow> nat \<Rightarrow> http_headers \<Rightarrow> http_headers option" where
  "header_callback buf i h = do {
     k \<leftarrow> skip_to (\<lambda>c. c = CHR ''<'' \<or> c = CHR 0x0D) (drop i buf);
     (t, _) \<leftarrow> scan_to (\<lambda>c. c = CHR 0x0D) (drop (i + k) buf);
     Some (h\<lparr>req_CallbackOff := i + k, req_CallbackLen := last_gt t + 1\<rparr>) }"

definition header_sid :: "string \<Rightarrow> nat \<Rightarrow> http_headers \<Rightarrow> http_headers option" where
  "header_sid buf i h = do {
     (p, n) \<leftarrow> word_value buf i;
     Some (h\<lparr>req_SIDOff := p, req_SIDLen := n\<rparr>) }"

definition header_timeout :: "string \<Rightarrow> nat \<Rightarrow> http_headers \<Rightarrow> http_headers option" where
  "header_timeout buf i h = do {
     k \<leftarrow> skip_to (\<lambda>c. \<not> blank c) (drop (i + 1) buf);
     (if has_name (drop (i + 1 + k) buf) ''Second-''
      then map_option (\<lambda>t. h\<lparr>req_Timeout := t\<rparr>) (atoi_mem (drop (i + 1 + k + 7) buf))
      else Some h) }"

definition header_nt :: "string \<Rightarrow> nat \<Rightarrow> http_headers \<Rightarrow> http_headers option" where
  "header_nt buf i h = do {
     (p, n) \<leftarrow> word_value buf i;
     Some (h\<lparr>req_NTOff := p, req_NTLen := n\<rparr>) }"

text \<open>The scheme is compared with \<^verbatim>\<open>Bearer\<close> in its own length only.\<close>

definition header_authorization :: "string \<Rightarrow> nat \<Rightarrow> http_headers \<Rightarrow> http_headers option" where
  "header_authorization buf i h = do {
     (p, n) \<leftarrow> word_value buf i;
     (if \<not> strcasecmp_eq (take n (drop p buf)) (take n ''Bearer'')
      then Some (h\<lparr>req_AuthOff := 0, req_AuthLen := 0\<rparr>)
      else do {
        k \<leftarrow> skip_to (\<lambda>c. \<not> blank c) (drop (p + n) buf);
        l \<leftarrow> skip_to isspace (drop (p + n + k) buf);
        Some (h\<lparr>req_AuthOff := p + n + k, req_AuthLen := l\<rparr>) }) }"

definition header_signature :: "string \<Rightarrow> nat \<Rightarrow> http_headers \<Rightarrow> http_headers option" where
  "header_signature buf i h = do {
     (p, n) \<leftarrow> word_value buf i;
     Some (h\<lparr>req_SigOff := p, req_SigLen := n\<rparr>) }"

text \<open>The names in the order of the tests, those of \<^verbatim>\<open>UPNP_STRICT\<close> and \<^verbatim>\<open>USE_JWT_AUTH\<close> where these are set.\<close>

definition header_table :: "bool \<Rightarrow> bool \<Rightarrow> (string \<times> (string \<Rightarrow> nat \<Rightarrow> http_headers \<Rightarrow> http_headers option)) list" where
  "header_table strict jwt =
     [(''Content-Length:'', header_content_length), (''Host:'', header_host), (''SOAPAction:'', header_soapaction),
      (''accept-language:'', header_accept_language), (''expect:'', header_expect), (''Callback:'', header_callback),
      (''SID:'', header_sid), (''Timeout:'', header_timeout)]
     @ (if strict then [(''nt:'', header_nt)] else [])
     @ (if jwt then [(''Authorization:'', header_authorization), (''Signature:'', header_signature)] else [])"

definition parse_header :: "bool \<Rightarrow> bool \<Rightarrow> string \<Rightarrow> nat \<Rightarrow> nat \<Rightarrow> http_headers \<Rightarrow> http_headers option" where
  "parse_header strict jwt buf off i h =
     (case find (\<lambda>(name, _). has_name (drop off buf) name) (header_table strict jwt) of
        None \<Rightarrow> Some h
      | Some (_, parse) \<Rightarrow> parse buf i h)"

section \<open>All headers\<close>

fun line_end :: "string \<Rightarrow> nat option" where
  "line_end (a # b # m) =
     (if a = CHR 0x0D \<and> b = CHR 0x0A then Some 2 else map_option Suc (line_end (b # m)))"
| "line_end m = None"

lemma line_end_bounds: "line_end m = Some n \<Longrightarrow> 0 < n \<and> n \<le> length m"
  by (induction m arbitrary: n rule: line_end.induct) (auto split: if_splits)

text \<open>The line from the offset \<open>off\<close> on, then the next one, until the end of the headers.\<close>

function parse_lines :: "bool \<Rightarrow> bool \<Rightarrow> string \<Rightarrow> nat \<Rightarrow> nat \<Rightarrow> http_headers \<Rightarrow> http_headers option" where
  "parse_lines strict jwt buf contentoff off h =
     (if contentoff \<le> off then Some h
      else (case scan_to (\<lambda>c. c = CHR '':'' \<or> c = CHR 0x0D \<or> c = CHR 0x0A) (drop off buf) of None \<Rightarrow> None
        | Some (a, r) \<Rightarrow>
          (case (if hd r = CHR '':'' then parse_header strict jwt buf off (off + length a) h else Some h) of None \<Rightarrow> None
           | Some h1 \<Rightarrow>
             (case line_end (drop off buf) of None \<Rightarrow> None
              | Some n \<Rightarrow> parse_lines strict jwt buf contentoff (off + n) h1))))"
  by pat_completeness auto
termination
  by (relation "measure (\<lambda>(_, _, _, contentoff, off, _). contentoff - off)") (auto dest: line_end_bounds)

declare parse_lines.simps [simp del]

definition ParseHttpHeaders :: "bool \<Rightarrow> bool \<Rightarrow> upnphttp \<Rightarrow> upnphttp option" where
  "ParseHttpHeaders strict jwt h =
     (if req_buf h = [] \<or> req_contentoff h = 0 then Some h
      else map_option (\<lambda>r. h\<lparr>h_headers := r\<rparr>) (parse_lines strict jwt (req_buf h) (req_contentoff h) 0 (h_headers h)))"

section \<open>Reading stays inside the headers\<close>

named_theorems header_defs \<open>the readers of one header\<close>

declare header_content_length_def [header_defs] header_host_def [header_defs] header_soapaction_def [header_defs]
  header_accept_language_def [header_defs] header_expect_def [header_defs] header_callback_def [header_defs]
  header_sid_def [header_defs] header_timeout_def [header_defs] header_nt_def [header_defs]
  header_authorization_def [header_defs] header_signature_def [header_defs]

text \<open>A carriage return ends every scan that starts before it, apart from numbers, which end at the
  terminator of the buffer.\<close>

definition cr_at :: "string \<Rightarrow> nat \<Rightarrow> bool" where
  "cr_at buf c \<longleftrightarrow> c < length buf \<and> buf ! c = CHR 0x0D"

lemma scan_to_cr:
  assumes "cr_at buf c" "j \<le> c" "stop CHR 0x0D"
  obtains a r where "scan_to stop (drop j buf) = Some (a, r)" "j + length a \<le> c" "r = drop (j + length a) buf" "a = take (length a) (drop j buf)"
    "stop (buf ! (j + length a))"
proof -
  have "drop j buf ! (c - j) = CHR 0x0D" "c - j < length (drop j buf)" using assms by (auto simp: cr_at_def)
  then have "CHR 0x0D \<in> set (drop j buf)" by (metis nth_mem)
  then obtain a r where a: "scan_to stop (drop j buf) = Some (a, r)" using scan_to_ex assms(3) by blast
  note parts = scan_to_parts [OF a]
  have "j + length a \<le> c"
  proof (rule ccontr)
    assume "\<not> j + length a \<le> c"
    then have "c - j < length a" using assms(2) by linarith
    then have "drop j buf ! (c - j) \<in> set a" using parts by (simp add: nth_append)
    then show False using parts assms(3) \<open>drop j buf ! (c - j) = CHR 0x0D\<close> by auto
  qed
  moreover have "r = drop (j + length a) buf" using parts by (metis add.commute append_eq_conv_conj drop_drop)
  moreover have "stop (buf ! (j + length a))"
    using parts \<open>r = drop (j + length a) buf\<close> \<open>j + length a \<le> c\<close> assms(1) by (auto simp: cr_at_def hd_drop_conv_nth)
  ultimately show thesis using that a parts by (metis append_eq_conv_conj)
qed

lemma skip_to_cr:
  assumes "cr_at buf c" "j \<le> c" "stop CHR 0x0D"
  obtains k where "skip_to stop (drop j buf) = Some k" "j + k \<le> c"
proof -
  obtain a r where "scan_to stop (drop j buf) = Some (a, r)" "j + length a \<le> c"
    by (rule scan_to_cr [of buf c j stop]) (use assms in simp_all)
  then show thesis using that by (simp add: skip_to_def)
qed

lemma colon_value_cr:
  assumes "cr_at buf c" "i \<le> c" "\<not> keep CHR 0x0D"
  obtains p t where "colon_value keep buf i = Some (p, t)" "i \<le> p" "p + length t \<le> c" "t = take (length t) (drop p buf)"
proof -
  obtain k where k: "skip_to (\<lambda>c. c \<noteq> CHR '':'' \<and> \<not> blank c) (drop i buf) = Some k" "i + k \<le> c"
    by (rule skip_to_cr [OF assms(1,2), of "\<lambda>c. c \<noteq> CHR '':'' \<and> \<not> blank c"]) (simp_all add: blank_def)
  obtain t r where "scan_to (\<lambda>c. \<not> keep c) (drop (i + k) buf) = Some (t, r)" "i + k + length t \<le> c" "t = take (length t) (drop (i + k) buf)"
    by (rule scan_to_cr [OF assms(1) k(2), of "\<lambda>c. \<not> keep c"]) (use assms(3) in simp_all)
  then show thesis using that k by (simp add: colon_value_def)
qed

lemma word_value_cr:
  assumes "cr_at buf c" "i < c"
  obtains p n where "word_value buf i = Some (p, n)" "i < p" "p + n \<le> c"
proof -
  obtain k where k: "skip_to (\<lambda>c. \<not> blank c) (drop (i + 1) buf) = Some k" "i + 1 + k \<le> c"
    by (rule skip_to_cr [OF assms(1), of "i + 1" "\<lambda>c. \<not> blank c"]) (use assms(2) in \<open>simp_all add: blank_def\<close>)
  obtain n where "skip_to isspace (drop (i + 1 + k) buf) = Some n" "i + 1 + k + n \<le> c"
    by (rule skip_to_cr [OF assms(1) k(2), of isspace]) (simp_all add: isspace_def)
  then show thesis using that k by (simp add: word_value_def)
qed

lemma atoi_mem_terminated: "CHR 0x00 \<in> set m \<Longrightarrow> \<exists>n. atoi_mem m = Some n \<and> - (2 ^ 31) \<le> n \<and> n < 2 ^ 31"
proof -
  have keeps: "CHR 0x00 \<in> set (dropWhile P m)" if "CHR 0x00 \<in> set m" "\<not> P CHR 0x00" for P and m :: string
    using that by (induction m) auto
  assume "CHR 0x00 \<in> set m"
  then have t: "CHR 0x00 \<in> set (skip_space m)" by (rule keeps) (simp add: isspace_def)
  let ?u = "if skip_space m \<noteq> [] \<and> (hd (skip_space m) = CHR ''-'' \<or> hd (skip_space m) = CHR ''+'') then tl (skip_space m) else skip_space m"
  have "CHR 0x00 \<in> set ?u" using t by (cases "skip_space m") auto
  then have "CHR 0x00 \<in> set (dropWhile isdigit ?u)" by (rule keeps) (simp add: isdigit_def)
  then have "dropWhile isdigit ?u \<noteq> []" by (metis empty_iff empty_set)
  then have "atoi_mem m = Some (atoi m)" unfolding atoi_mem_def Let_def by (simp only: if_False)
  then show ?thesis using atoi_bounds [of m] by blast
qed

text \<open>Where a header may point: into the \<open>e\<close> bytes before the empty line.\<close>

definition inside :: "nat \<Rightarrow> http_headers \<Rightarrow> bool" where
  "inside e h \<longleftrightarrow> 0 \<le> req_contentlen h \<and> length (accept_language h) \<le> 7
     \<and> - (2 ^ 31) \<le> req_Timeout h \<and> req_Timeout h < 2 ^ 31
     \<and> req_HostOff h + req_HostLen h \<le> e \<and> - 1 \<le> req_soapActionLen h
     \<and> int (req_soapActionOff h) + req_soapActionLen h \<le> int e \<and> req_CallbackOff h + req_CallbackLen h \<le> e + 1
     \<and> req_SIDOff h + req_SIDLen h \<le> e \<and> req_NTOff h + req_NTLen h \<le> e
     \<and> req_AuthOff h + req_AuthLen h \<le> e \<and> req_SigOff h + req_SigLen h \<le> e"

lemma last_gt_less: "t \<noteq> [] \<Longrightarrow> last_gt t < length t"
  by (cases t rule: rev_cases) (auto simp: last_gt_def)

lemma reader_inside:
  assumes buf: "cr_at buf c" "c \<le> e" "buf = d @ [CHR 0x00]" and i: "i < c" and h: "inside e h"
  shows "\<exists>h'. header_content_length buf i h = Some h' \<and> inside e h'"
    "\<exists>h'. header_host buf i h = Some h' \<and> inside e h'"
    "\<exists>h'. header_soapaction buf i h = Some h' \<and> inside e h'"
    "\<exists>h'. header_accept_language buf i h = Some h' \<and> inside e h'"
    "\<exists>h'. header_expect buf i h = Some h' \<and> inside e h'"
    "\<exists>h'. header_callback buf i h = Some h' \<and> inside e h'"
    "\<exists>h'. header_sid buf i h = Some h' \<and> inside e h'"
    "\<exists>h'. header_timeout buf i h = Some h' \<and> inside e h'"
    "\<exists>h'. header_nt buf i h = Some h' \<and> inside e h'"
    "\<exists>h'. header_authorization buf i h = Some h' \<and> inside e h'"
    "\<exists>h'. header_signature buf i h = Some h' \<and> inside e h'"
proof -
  have le: "i \<le> c" and size: "c < length buf" using i buf(1) by (simp_all add: cr_at_def)
  have number: "\<exists>n. atoi_mem (drop k buf) = Some n \<and> - (2 ^ 31) \<le> n \<and> n < 2 ^ 31" if "k < length buf" for k
  proof (rule atoi_mem_terminated)
    have "k \<le> length d" using that buf(3) by simp
    then show "CHR 0x00 \<in> set (drop k buf)" using buf(3) by simp
  qed
  obtain p t where v: "colon_value visible buf i = Some (p, t)" "i \<le> p" "p + length t \<le> c"
    by (rule colon_value_cr [OF buf(1) le, of visible]) (simp_all add: visible_def)
  obtain q u where w: "colon_value printed buf i = Some (q, u)" "i \<le> q" "q + length u \<le> c"
    by (rule colon_value_cr [OF buf(1) le, of printed]) (simp_all add: printed_def)
  obtain r n where x: "word_value buf i = Some (r, n)" "i < r" "r + n \<le> c" by (rule word_value_cr [OF buf(1) i])
  obtain k where k: "skip_to (\<lambda>c. isdigit c \<or> c = CHR 0x0D \<or> c = CHR 0x0A) (drop i buf) = Some k" "i + k \<le> c"
    by (rule skip_to_cr [OF buf(1) le, of "\<lambda>c. isdigit c \<or> c = CHR 0x0D \<or> c = CHR 0x0A"]) simp_all
  have "i + k < length buf" using k(2) size by simp
  then obtain m where m: "atoi_mem (drop (i + k) buf) = Some m" using number by blast
  show "\<exists>h'. header_content_length buf i h = Some h' \<and> inside e h'"
    using k m h by (simp add: header_content_length_def inside_def)
  show "\<exists>h'. header_host buf i h = Some h' \<and> inside e h'"
    using v h buf(2) by (simp add: header_host_def inside_def)
  show "\<exists>h'. header_soapaction buf i h = Some h' \<and> inside e h'"
    using w h buf(2) by (cases u) (auto simp: header_soapaction_def inside_def Let_def)
  obtain l s where "scan_to (\<lambda>c. \<not> visible c \<or> c = CHR '','') (drop q buf) = Some (l, s)"
    by (rule scan_to_cr [OF buf(1), of q "\<lambda>c. \<not> visible c \<or> c = CHR '',''"]) (use w in \<open>simp_all add: visible_def\<close>)
  then show "\<exists>h'. header_accept_language buf i h = Some h' \<and> inside e h'"
    using w h by (simp add: header_accept_language_def inside_def)
  show "\<exists>h'. header_expect buf i h = Some h' \<and> inside e h'"
    using w h by (simp add: header_expect_def inside_def)
  obtain f where f: "skip_to (\<lambda>c. c = CHR ''<'' \<or> c = CHR 0x0D) (drop i buf) = Some f" "i + f \<le> c"
    by (rule skip_to_cr [OF buf(1) le, of "\<lambda>c. c = CHR ''<'' \<or> c = CHR 0x0D"]) simp_all
  obtain g s where g: "scan_to (\<lambda>c. c = CHR 0x0D) (drop (i + f) buf) = Some (g, s)" "i + f + length g \<le> c"
    by (rule scan_to_cr [OF buf(1) f(2), of "\<lambda>c. c = CHR 0x0D"]) simp_all
  have "i + f + last_gt g \<le> c" using last_gt_less [of g] g(2) by (cases "g = []") (simp_all add: last_gt_def)
  then show "\<exists>h'. header_callback buf i h = Some h' \<and> inside e h'"
    using f(1) g(1) h buf(2) by (simp add: header_callback_def inside_def)
  show "\<exists>h'. header_sid buf i h = Some h' \<and> inside e h'" "\<exists>h'. header_nt buf i h = Some h' \<and> inside e h'"
    "\<exists>h'. header_signature buf i h = Some h' \<and> inside e h'"
    using x h buf(2) by (simp_all add: header_sid_def header_nt_def header_signature_def inside_def)
  obtain y where y: "skip_to (\<lambda>c. \<not> blank c) (drop (i + 1) buf) = Some y" "i + 1 + y \<le> c"
    by (rule skip_to_cr [OF buf(1), of "i + 1" "\<lambda>c. \<not> blank c"]) (use i in \<open>simp_all add: blank_def\<close>)
  have "\<exists>n. atoi_mem (drop (i + 1 + y + 7) buf) = Some n \<and> - (2 ^ 31) \<le> n \<and> n < 2 ^ 31" if "has_name (drop (i + 1 + y) buf) ''Second-''"
  proof (rule number)
    have "length ''Second-'' = 7" "map tolower ''Second-'' = ''second-''" by code_simp+
    then have "map tolower (take 7 (drop (i + 1 + y) buf)) = ''second-''"
      using that unfolding has_name_def strcasecmp_eq_def by (simp only:)
    then have eq: "map tolower (take 7 (drop (i + 1 + y) (d @ [CHR 0x00]))) = ''second-''" by (simp add: buf(3))
    have "i + 1 + y + 7 \<le> length d"
    proof (rule ccontr)
      assume short: "\<not> i + 1 + y + 7 \<le> length d"
      have "CHR 0x00 \<in> set (take 7 (drop (i + 1 + y) (d @ [CHR 0x00]))) \<or> length (take 7 (drop (i + 1 + y) (d @ [CHR 0x00]))) < 7"
        using short by (cases "i + 1 + y \<le> length d") auto
      moreover have "CHR 0x00 \<notin> set (take 7 (drop (i + 1 + y) (d @ [CHR 0x00])))"
      proof
        assume "CHR 0x00 \<in> set (take 7 (drop (i + 1 + y) (d @ [CHR 0x00])))"
        then have "tolower CHR 0x00 \<in> tolower ` set (take 7 (drop (i + 1 + y) (d @ [CHR 0x00])))" by (rule imageI)
        then have "tolower CHR 0x00 \<in> set ''second-''" unfolding eq [symmetric] set_map .
        then show False by (simp add: tolower_def)
      qed
      ultimately show False using arg_cong [OF eq, of length] by simp
    qed
    then show "i + 1 + y + 7 < length buf" using buf(3) by simp
  qed
  then show "\<exists>h'. header_timeout buf i h = Some h' \<and> inside e h'"
    using y(1) h by (fastforce simp: header_timeout_def inside_def)
  obtain z where z: "skip_to (\<lambda>c. \<not> blank c) (drop (r + n) buf) = Some z" "r + n + z \<le> c"
    by (rule skip_to_cr [OF buf(1) x(3), of "\<lambda>c. \<not> blank c"]) (simp_all add: blank_def)
  obtain j where "skip_to isspace (drop (r + n + z) buf) = Some j" "r + n + z + j \<le> c"
    by (rule skip_to_cr [OF buf(1) z(2), of isspace]) (simp_all add: isspace_def)
  then show "\<exists>h'. header_authorization buf i h = Some h' \<and> inside e h'"
    using x z h buf(2) by (auto simp: header_authorization_def inside_def)
qed

lemma header_table_cases:
  assumes "(name, parse) \<in> set (header_table strict jwt)"
  obtains "parse = header_content_length" | "parse = header_host" | "parse = header_soapaction" | "parse = header_accept_language"
    | "parse = header_expect" | "parse = header_callback" | "parse = header_sid" | "parse = header_timeout"
    | "parse = header_nt" | "parse = header_authorization" | "parse = header_signature"
  using assms unfolding header_table_def by (cases strict; cases jwt) auto

lemma find_in_set: "find P xs = Some x \<Longrightarrow> x \<in> set xs"
  by (induction xs) (auto split: if_splits)

lemma parse_header_inside:
  assumes "cr_at buf c" "c \<le> e" "buf = d @ [CHR 0x00]" "i < c" "inside e h"
  shows "\<exists>h'. parse_header strict jwt buf off i h = Some h' \<and> inside e h'"
proof (cases "find (\<lambda>(name, _). has_name (drop off buf) name) (header_table strict jwt)")
  case None
  then show ?thesis using assms(5) by (simp add: parse_header_def)
next
  case (Some np)
  obtain name parse where np: "np = (name, parse)" by (cases np)
  have "(name, parse) \<in> set (header_table strict jwt)" using find_in_set [OF Some] np by simp
  then have "\<exists>h'. parse buf i h = Some h' \<and> inside e h'"
    by (cases rule: header_table_cases) (simp_all add: reader_inside [OF assms])
  then show ?thesis using Some np by (simp add: parse_header_def)
qed

text \<open>A line that starts at or before the empty line at \<open>e\<close> ends there or at the end of the headers.\<close>

lemma line_end_at:
  assumes "take 2 (drop k m) = crlf"
  obtains n where "line_end m = Some n" "n \<le> k + 2" "2 \<le> n" "take 2 (drop (n - 2) m) = crlf"
proof -
  have "\<exists>n. line_end m = Some n \<and> n \<le> k + 2 \<and> 2 \<le> n \<and> take 2 (drop (n - 2) m) = crlf"
    using assms
  proof (induction m arbitrary: k rule: line_end.induct)
    case (1 a b m)
    show ?case
    proof (cases "a = CHR 0x0D \<and> b = CHR 0x0A")
      case False
      then obtain j where k: "k = Suc j" using "1.prems" by (cases k) auto
      then have "take 2 (drop j (b # m)) = crlf" using "1.prems" by simp
      from "1.IH" [OF False this] obtain n where n: "line_end (b # m) = Some n" "n \<le> j + 2" "2 \<le> n" "take 2 (drop (n - 2) (b # m)) = crlf"
        by blast
      then have "Suc n - 2 = Suc (n - 2)" by simp
      then show ?thesis using n False k by auto
    qed simp
  qed (auto dest!: arg_cong [where f = length])
  then show thesis using that by blast
qed

lemma parse_lines_inside:
  assumes "buf = d @ [CHR 0x00]" "take 4 (drop e buf) = crlf @ crlf" "off \<le> e + 2 \<or> off = e + 4" "inside e h"
  shows "\<exists>h'. parse_lines strict jwt buf (e + 4) off h = Some h' \<and> inside e h'"
  using assms(3,4)
proof (induction "e + 4 - off" arbitrary: off h rule: less_induct)
  case less
  show ?case
  proof (cases "off = e + 4")
    case True
    then show ?thesis using less.prems by (simp add: parse_lines.simps)
  next
    case False
    then have off: "off \<le> e + 2" using less.prems(1) by simp
    have size: "e + 4 \<le> length buf" using arg_cong [OF assms(2), of length] by simp
    have "buf ! (e + j) = (crlf @ crlf) ! j" if "j < 4" for j
      using arg_cong [OF assms(2), of "\<lambda>x. x ! j"] that size by simp
    from this [of 0] this [of 1] this [of 2] this [of 3]
    have bytes: "buf ! e = CHR 0x0D" "buf ! (e + 1) = CHR 0x0A" "buf ! (e + 2) = CHR 0x0D" "buf ! (e + 3) = CHR 0x0A"
      by simp_all
    let ?k = "(if off \<le> e then e else e + 2) - off"
    have two: "take 2 (drop (e + 2 * b) buf) = crlf" if "b < 2" for b
    proof -
      have "take 2 (drop (e + 2 * b) buf) = take 2 (drop (2 * b) (take 4 (drop e buf)))" using that by (simp add: take_drop add.commute)
      then show ?thesis using that by (simp only: assms(2)) (cases b, auto simp: less_2_cases_iff)
    qed
    have at: "take 2 (drop ?k (drop off buf)) = crlf" using two [of 0] two [of 1] off by auto
    obtain n where n: "line_end (drop off buf) = Some n" "n \<le> ?k + 2" "2 \<le> n" "take 2 (drop (n - 2) (drop off buf)) = crlf"
      by (rule line_end_at [OF at])
    have "off + n \<le> e + 2 \<or> off + n = e + 4"
    proof (cases "off \<le> e")
      case True
      then show ?thesis using n(2) by (intro disjI1) simp
    next
      case False
      then have "off = e + 1 \<or> off = e + 2" using off by auto
      moreover have "take 2 (drop (e + 1) buf) \<noteq> crlf"
        using bytes(2) size by (simp add: take_Suc hd_drop_conv_nth numeral_2_eq_2)
      moreover have "n \<noteq> 2 \<or> off \<noteq> e + 1" using n(4) \<open>take 2 (drop (e + 1) buf) \<noteq> crlf\<close> by auto
      ultimately show ?thesis using n(2,3) by auto
    qed
    moreover have "e + 4 - (off + n) < e + 4 - off" using n(3) off by simp
    ultimately have rest: "\<exists>h'. parse_lines strict jwt buf (e + 4) (off + n) h1 = Some h' \<and> inside e h'" if "inside e h1" for h1
      using less.hyps that by blast
    obtain a r where a: "scan_to (\<lambda>c. c = CHR '':'' \<or> c = CHR 0x0D \<or> c = CHR 0x0A) (drop off buf) = Some (a, r)"
      and colon: "hd r = CHR '':'' \<Longrightarrow> off + length a < e"
    proof -
      let ?c = "if off \<le> e then e else e + 2"
      have cr: "cr_at buf ?c" "off \<le> ?c" using bytes size off by (auto simp: cr_at_def)
      obtain a r where a: "scan_to (\<lambda>c. c = CHR '':'' \<or> c = CHR 0x0D \<or> c = CHR 0x0A) (drop off buf) = Some (a, r)" "off + length a \<le> ?c"
        "r = drop (off + length a) buf"
        by (rule scan_to_cr [OF cr, of "\<lambda>c. c = CHR '':'' \<or> c = CHR 0x0D \<or> c = CHR 0x0A"]) simp_all
      have hd_r: "hd r = buf ! (off + length a)" using a(2,3) size off by (auto simp: hd_drop_conv_nth split: if_splits)
      have "off + length a < e" if colon: "hd r = CHR '':''"
      proof (rule ccontr)
        assume "\<not> off + length a < e"
        moreover have "a = []" if "off = e + 1" using scan_to_parts [OF a(1)] bytes(2) size that
          by (cases a) (auto simp: Cons_nth_drop_Suc [symmetric])
        ultimately have "off + length a \<in> {e, e + 1, e + 2}" using a(2) off by (auto split: if_splits)
        then show False using colon hd_r bytes by auto
      qed
      then show thesis using that a(1) by blast
    qed
    have "cr_at buf e" using bytes(1) size by (simp add: cr_at_def)
    then have "\<exists>h1. (if hd r = CHR '':'' then parse_header strict jwt buf off (off + length a) h else Some h) = Some h1 \<and> inside e h1"
      using parse_header_inside [of buf e e d "off + length a" h] colon less.prems(2) assms(1) by auto
    then obtain h1 where h1: "(if hd r = CHR '':'' then parse_header strict jwt buf off (off + length a) h else Some h) = Some h1" "inside e h1"
      by blast
    then show ?thesis using rest [OF h1(2)] n(1) a off by (subst parse_lines.simps) simp
  qed
qed

lemma findendheaders_Some:
  "findendheaders s len = Some e \<Longrightarrow> take 4 (drop e s) = crlf @ crlf \<and> e + 4 \<le> len \<and> (\<forall>j < e. take 4 (drop j s) \<noteq> crlf @ crlf)"
proof (induction len arbitrary: s e)
  case 0
  then show ?case by (simp add: findendheaders.simps)
next
  case (Suc len)
  show ?case
  proof (cases "take 4 s = crlf @ crlf")
    case True
    then show ?thesis using Suc.prems by (subst (asm) findendheaders.simps) (auto split: if_splits)
  next
    case False
    then obtain k where k: "e = Suc k" "findendheaders (tl s) len = Some k"
      using Suc.prems by (subst (asm) findendheaders.simps) (auto split: if_splits)
    then have "take 4 (drop j s) \<noteq> crlf @ crlf" if "j < e" for j
      using Suc.IH [OF k(2)] that False by (cases j) (auto simp: drop_Suc)
    then show ?thesis using Suc.IH [OF k(2)] k(1) by (auto simp: drop_Suc)
  qed
qed

lemma parse_headers_inside:
  assumes "req_buf h = d @ [CHR 0x00]" and "findendheaders d (length d) = Some e"
    and "req_contentoff h = e + 4" and "h_headers h = no_headers"
  shows "\<exists>r. ParseHttpHeaders strict jwt h = Some (h\<lparr>h_headers := r\<rparr>) \<and> inside e r"
proof -
  have stop: "take 4 (drop e d) = crlf @ crlf" "e + 4 \<le> length d" using findendheaders_Some [OF assms(2)] by blast+
  then have "take 4 (drop e (req_buf h)) = crlf @ crlf" by (simp add: assms(1))
  moreover have "inside e no_headers" by (simp add: inside_def no_headers_def)
  ultimately have "\<exists>r. parse_lines strict jwt (req_buf h) (e + 4) 0 no_headers = Some r \<and> inside e r"
    using parse_lines_inside [OF assms(1), of e 0 no_headers] by simp
  then show ?thesis using assms by (auto simp: ParseHttpHeaders_def)
qed

text \<open>C14: However the headers are written, reading them stays inside the buffer that was received, and every
  header that is noted lies before the empty line that ends them.\<close>

theorem headers_stay_inside:
  assumes "req_buf h = d @ [CHR 0x00]" and "findendheaders d (length d) = Some e"
    and "req_contentoff h = e + 4" and "h_headers h = no_headers"
  shows "\<exists>r. ParseHttpHeaders strict jwt h = Some (h\<lparr>h_headers := r\<rparr>) \<and> inside e r"
  by (rule parse_headers_inside [OF assms])

definition sample_http :: upnphttp where
  "sample_http = \<lparr>h_socket = 7, h_clientaddr = 0x0A000002, h_ipv6 = False, h_clientaddr_v6 = 0, h_clientaddr_str = ''10.0.0.2:40000'',
     h_state = EWaitingForHttpRequest, HttpVer = [], req_buf = [], req_buflen = 0, req_contentoff = 0,
     req_command = EUnknown, h_headers = no_headers, res_SID = [], res_buf = [], res_sent = 0, res_buf_alloclen = 0\<rparr>"

theorem headers_stay_inside_witness:
  "\<exists>r. ParseHttpHeaders False False (sample_http\<lparr>req_buf := ''GET / HTTP/1.1'' @ crlf @ ''SID:'' @ crlf @ crlf @ [CHR 0x00], req_contentoff := 24\<rparr>)
      = Some r \<and> inside 20 (h_headers r)"
proof -
  let ?h = "sample_http\<lparr>req_buf := ''GET / HTTP/1.1'' @ crlf @ ''SID:'' @ crlf @ crlf @ [CHR 0x00], req_contentoff := 24\<rparr>"
  have "findendheaders (''GET / HTTP/1.1'' @ crlf @ ''SID:'' @ crlf @ crlf) (length (''GET / HTTP/1.1'' @ crlf @ ''SID:'' @ crlf @ crlf)) = Some 20"
    by code_simp
  then have "\<exists>r. ParseHttpHeaders False False ?h = Some (?h\<lparr>h_headers := r\<rparr>) \<and> inside 20 r"
    by (intro headers_stay_inside [where d = "''GET / HTTP/1.1'' @ crlf @ ''SID:'' @ crlf @ crlf"]) (simp_all add: sample_http_def)
  then show ?thesis by auto
qed

text \<open>Any beginning of the word \<^verbatim>\<open>Bearer\<close> passes for the scheme of an \<^verbatim>\<open>Authorization\<close> header, since only as many
  characters are compared as were sent.\<close>

theorem authorization_scheme_prefix:
  assumes "0 < k" and "k \<le> 6" and "token \<noteq> []" and "\<forall>c \<in> set token. \<not> isspace c" and "isspace x"
    and "buf = pre @ '':'' @ take k ''Bearer'' @ '' '' @ token @ x # rest"
  shows "header_authorization buf (length pre) h
    = Some (h\<lparr>req_AuthOff := length pre + k + 2, req_AuthLen := length token\<rparr>)"
proof -
  let ?s = "take k ''Bearer''"
  have "\<forall>c \<in> set ''Bearer''. \<not> isspace c" by (simp add: isspace_def)
  then have s: "length ?s = k" "\<forall>c \<in> set ?s. \<not> isspace c" "?s \<noteq> []" "\<not> blank (hd ?s)"
    using assms(1,2) by (auto simp: blank_def dest: in_set_takeD)
  obtain c t where ct: "?s = c # t" using s(3) by (cases ?s) auto
  have skip: "skip_to stop (a @ z # m) = Some (length a)" if "\<forall>c \<in> set a. \<not> stop c" "stop z" for stop a z and m :: string
    using scan_to_found [OF that] by (simp add: skip_to_def)
  have d1: "drop (length pre + 1) buf = ?s @ '' '' @ token @ x # rest" by (simp add: assms(6))
  have d2: "drop (length pre + 1 + k) buf = '' '' @ token @ x # rest"
    using s(1) by (simp add: assms(6))
  have d3: "drop (length pre + 1 + k + 1) buf = token @ x # rest" using s(1) by (simp add: assms(6))
  have "skip_to (\<lambda>c. \<not> blank c) (drop (length pre + 1) buf) = Some 0"
    unfolding d1 using skip [of "[]" "\<lambda>c. \<not> blank c" c] s(4) ct by simp
  moreover have "skip_to isspace (drop (length pre + 1) buf) = Some k"
    unfolding d1 using skip [of ?s isspace "CHR '' ''"] s(1,2) by (simp add: isspace_def)
  ultimately have w: "word_value buf (length pre) = Some (length pre + 1, k)" by (simp add: word_value_def)
  obtain y u where token: "token = y # u" using assms(3) by (cases token) auto
  have "isspace CHR '' ''" "isspace CHR 0x09" by (simp_all add: isspace_def)
  then have "\<not> blank y" using assms(4) token by (auto simp: blank_def)
  then have "skip_to (\<lambda>c. \<not> blank c) (drop (length pre + 1 + k) buf) = Some 1"
    unfolding d2 using skip [of "'' ''" "\<lambda>c. \<not> blank c" y "u @ x # rest"] token by (simp add: blank_def)
  moreover have "skip_to isspace (drop (length pre + 1 + k + 1) buf) = Some (length token)"
    unfolding d3 using skip [of token isspace x rest] assms(4,5) by simp
  moreover have "take k (drop (length pre + 1) buf) = ?s" unfolding d1 using s(1) by (metis append_eq_conv_conj)
  ultimately show ?thesis using w by (simp add: header_authorization_def strcasecmp_eq_def)
qed

theorem authorization_scheme_prefix_witness:
  "header_authorization (''Authorization'' @ '':'' @ take 1 ''Bearer'' @ '' '' @ ''a.b.c'' @ CHR 0x0D # [CHR 0x0A]) 13 no_headers
    = Some (no_headers\<lparr>req_AuthOff := 16, req_AuthLen := 5\<rparr>)"
proof -
  let ?buf = "''Authorization'' @ '':'' @ take 1 ''Bearer'' @ '' '' @ ''a.b.c'' @ CHR 0x0D # [CHR 0x0A]"
  have "header_authorization ?buf (length ''Authorization'') no_headers
      = Some (no_headers\<lparr>req_AuthOff := length ''Authorization'' + 1 + 2, req_AuthLen := length ''a.b.c''\<rparr>)"
    by (rule authorization_scheme_prefix) (simp_all add: isspace_def)
  moreover have "length ''Authorization'' = 13" "length ''a.b.c'' = 5" by code_simp+
  ultimately show ?thesis by (simp only:) simp
qed

end
