(* ===== verification/Http_Response.thy ===== *)
theory Http_Response
  imports Http_Request Upnp_Soap
begin

text \<open>
  The responses of \<^verbatim>\<open>upnphttp.c\<close>: the header and the body in the buffer of a connection, and how they are
  sent. Memory is taken to suffice. A header that would not fit the buffer, and a size beyond an \<^verbatim>\<open>int\<close>, have no
  value.
\<close>

section \<open>Building a response\<close>

text \<open>What the build and the configuration of the server fix: \<^verbatim>\<open>UPNP_STRICT\<close>, \<^verbatim>\<open>USE_JWT_AUTH\<close>, the text of the
  clock (\<^verbatim>\<open>ENABLE_HTTP_DATE\<close>), \<^verbatim>\<open>MINIUPNPD_SERVER_STRING\<close>, \<^verbatim>\<open>RANDOMIZE_URLS\<close>, whether an infinite
  subscription is replaced by half an hour, and the descriptions.\<close>

record web_conf =
  wc_strict :: bool
  wc_jwt :: bool
  wc_date :: "string option"
  wc_server :: string
  wc_random_url :: "string option"
  wc_no_infinite :: bool
  wc_uuid_igd :: string
  wc_desc :: "string \<Rightarrow> string option"

definition httpresphead :: "web_conf \<Rightarrow> string \<Rightarrow> string \<Rightarrow> string \<Rightarrow> string \<Rightarrow> string \<Rightarrow> string" where
  "httpresphead cf ver code msg ctype len =
     ver @ '' '' @ code @ '' '' @ msg @ crlf @ ''Content-Type: '' @ ctype @ crlf @ ''Connection: close'' @ crlf
     @ ''Content-Length: '' @ len @ crlf @ ''Server: '' @ wc_server cf @ crlf @ ''Ext:'' @ crlf"

text \<open>\<^verbatim>\<open>sizeof(httpresphead)\<close>: the format with its directives and the terminator.\<close>

definition sizeof_head :: "web_conf \<Rightarrow> nat" where
  "sizeof_head cf = length (httpresphead cf ''%s'' ''%d'' ''%s'' ''%s'' ''%d'') + 1"

definition has_flag :: "upnphttp \<Rightarrow> u32 \<Rightarrow> bool" where
  "has_flag h f \<longleftrightarrow> respflags (h_headers h) AND f \<noteq> 0"

definition set_flags :: "u32 \<Rightarrow> upnphttp \<Rightarrow> upnphttp" where
  "set_flags f h = h\<lparr>h_headers := (h_headers h)\<lparr>respflags := f\<rparr>\<rparr>"

definition content_type :: "upnphttp \<Rightarrow> string" where
  "content_type h = (if has_flag h FLAG_HTML then ''text/html''
     else ''text/xml; charset='' @ [CHR 0x22] @ ''utf-8'' @ [CHR 0x22])"

definition response_header :: "web_conf \<Rightarrow> upnphttp \<Rightarrow> nat \<Rightarrow> string \<Rightarrow> nat \<Rightarrow> string" where
  "response_header cf h respcode respmsg bodylen =
     httpresphead cf (HttpVer h) (dec respcode) respmsg (content_type h) (dec bodylen)
     @ (case wc_date cf of None \<Rightarrow> [] | Some d \<Rightarrow> ''Date: '' @ d @ crlf)
     @ (if has_flag h FLAG_TIMEOUT then ''Timeout: Second-''
          @ (if req_Timeout (h_headers h) \<noteq> 0 then show_int (req_Timeout (h_headers h)) else ''infinite'') @ crlf else [])
     @ (if has_flag h FLAG_SID then ''SID: '' @ res_SID h @ crlf else [])
     @ (if has_flag h FLAG_ALLOW_POST then ''Allow: POST'' @ crlf
        else if has_flag h FLAG_ALLOW_SUB_UNSUB then ''Allow: SUBSCRIBE, UNSUBSCRIBE'' @ crlf else [])
     @ (let l = accept_language (h_headers h)
        in if l = [] then [] else ''Content-Language: '' @ (if hd l = CHR ''*'' then ''en'' else l) @ crlf)
     @ crlf"

definition BuildHeader_upnphttp :: "web_conf \<Rightarrow> upnphttp \<Rightarrow> nat \<Rightarrow> string \<Rightarrow> nat \<Rightarrow> upnphttp option" where
  "BuildHeader_upnphttp cf h respcode respmsg bodylen =
     (let size = (if res_buf_alloclen h < sizeof_head cf + 256 + bodylen then sizeof_head cf + 256 + bodylen else res_buf_alloclen h);
          text = response_header cf h respcode respmsg bodylen
      in if 2 ^ 31 \<le> sizeof_head cf + 256 + bodylen \<or> size < length text then None
         else Some (h\<lparr>res_buf := text, res_sent := 0, res_buf_alloclen := max size (length text + bodylen)\<rparr>))"

definition BuildResp2_upnphttp :: "web_conf \<Rightarrow> upnphttp \<Rightarrow> nat \<Rightarrow> string \<Rightarrow> string \<Rightarrow> upnphttp option" where
  "BuildResp2_upnphttp cf h respcode respmsg body =
     map_option (\<lambda>h1. h1\<lparr>res_buf := res_buf h1 @ body\<rparr>) (BuildHeader_upnphttp cf h respcode respmsg (length body))"

definition BuildResp_upnphttp :: "web_conf \<Rightarrow> upnphttp \<Rightarrow> string \<Rightarrow> upnphttp option" where
  "BuildResp_upnphttp cf h body = BuildResp2_upnphttp cf h 200 ''OK'' body"

section \<open>Sending it\<close>

text \<open>The calls of \<^verbatim>\<open>send\<close> return what is in the list, and after that the socket takes nothing more for now. The
  result is the connection, the bytes that were taken, and whether the loop is finished.\<close>

fun SendResp_upnphttp :: "send_result list \<Rightarrow> upnphttp \<Rightarrow> upnphttp \<times> string \<times> bool" where
  "SendResp_upnphttp rs h =
     (if length (res_buf h) \<le> res_sent h then (h, [], True)
      else (case rs of [] \<Rightarrow> (h, [], False)
        | r # rs' \<Rightarrow>
          (case r of Send_intr \<Rightarrow> SendResp_upnphttp rs' h
           | Send_again \<Rightarrow> (h, [], False)
           | Send_error \<Rightarrow> (h, [], True)
           | Sent n \<Rightarrow>
             (if n = 0 then (h, [], True)
              else (let (h1, b, fin) = SendResp_upnphttp rs' (h\<lparr>res_sent := res_sent h + n\<rparr>)
                    in (h1, take n (drop (res_sent h) (res_buf h)) @ b, fin))))))"

declare SendResp_upnphttp.simps [simp del]

definition SendRespAndClose_upnphttp :: "send_result list \<Rightarrow> upnphttp \<Rightarrow> upnphttp \<times> string" where
  "SendRespAndClose_upnphttp rs h =
     (let (h1, b, fin) = SendResp_upnphttp rs h
      in (if fin then CloseSocket_upnphttp h1 else h1\<lparr>h_state := ESendingAndClosing\<rparr>, b))"

section \<open>The pages of the server\<close>

definition body404 :: string where
  "body404 = ''<HTML><HEAD><TITLE>404 Not Found</TITLE></HEAD><BODY><H1>Not Found</H1>The requested URL was not found''
     @ '' on this server.</BODY></HTML>'' @ crlf"

definition body405 :: string where
  "body405 = ''<HTML><HEAD><TITLE>405 Method Not Allowed</TITLE></HEAD><BODY><H1>Method Not Allowed</H1>The HTTP Method ''
     @ ''is not allowed on this resource.</BODY></HTML>'' @ crlf"

definition body501 :: string where
  "body501 = ''<HTML><HEAD><TITLE>501 Not Implemented</TITLE></HEAD><BODY><H1>Not Implemented</H1>The HTTP Method ''
     @ ''is not implemented by this server.</BODY></HTML>'' @ crlf"

definition error500 :: string where
  "error500 = ''<HTML><HEAD><TITLE>Error 500</TITLE></HEAD><BODY>Internal Server Error</BODY></HTML>'' @ crlf"

definition reply_and_close :: "send_result list \<Rightarrow> upnphttp option \<Rightarrow> (upnphttp \<times> string) option" where
  "reply_and_close rs = map_option (SendRespAndClose_upnphttp rs)"

definition Send404 :: "web_conf \<Rightarrow> send_result list \<Rightarrow> upnphttp \<Rightarrow> (upnphttp \<times> string) option" where
  "Send404 cf rs h = reply_and_close rs (BuildResp2_upnphttp cf (set_flags FLAG_HTML h) 404 ''Not Found'' body404)"

definition Send405 :: "web_conf \<Rightarrow> send_result list \<Rightarrow> upnphttp \<Rightarrow> (upnphttp \<times> string) option" where
  "Send405 cf rs h = reply_and_close rs
     (BuildResp2_upnphttp cf (set_flags (respflags (h_headers h) OR FLAG_HTML) h) 405 ''Method Not Allowed'' body405)"

definition Send501 :: "web_conf \<Rightarrow> send_result list \<Rightarrow> upnphttp \<Rightarrow> (upnphttp \<times> string) option" where
  "Send501 cf rs h = reply_and_close rs (BuildResp2_upnphttp cf (set_flags FLAG_HTML h) 501 ''Not Implemented'' body501)"

definition sendXMLdesc :: "web_conf \<Rightarrow> send_result list \<Rightarrow> upnphttp \<Rightarrow> string option \<Rightarrow> (upnphttp \<times> string) option" where
  "sendXMLdesc cf rs h desc =
     reply_and_close rs
       (case desc of None \<Rightarrow> BuildResp2_upnphttp cf (set_flags FLAG_HTML h) 500 ''Internal Server Error'' error500
        | Some d \<Rightarrow> BuildResp_upnphttp cf h d)"

section \<open>Headers fit, responses arrive in order\<close>

lemma length_show_int: "- (10 ^ 10) < n \<Longrightarrow> n < 10 ^ 10 \<Longrightarrow> length (show_int n) \<le> 11"
  using length_dec [of "nat (- n)" 10] length_dec [of "nat n" 10] by (auto simp: show_int_def nat_less_iff)

lemma response_header_fit:
  assumes "length (HttpVer h) \<le> 15" and "length (accept_language (h_headers h)) \<le> 7" and "length (res_SID h) \<le> 41"
    and "respcode < 1000" and "length respmsg \<le> 40" and "sizeof_head cf + 256 + bodylen < 2 ^ 31"
    and "case wc_date cf of None \<Rightarrow> True | Some d \<Rightarrow> length d \<le> 29"
    and "- (2 ^ 31) \<le> req_Timeout (h_headers h)" and "req_Timeout (h_headers h) < 2 ^ 31"
  shows "length (response_header cf h respcode respmsg bodylen) \<le> sizeof_head cf + 256
    \<and> BuildHeader_upnphttp cf h respcode respmsg bodylen \<noteq> None"
proof -
  have "length (dec respcode) \<le> 3" "length (dec bodylen) \<le> 10" using assms(4,6) by (auto intro!: length_dec)
  moreover have "length (show_int (req_Timeout (h_headers h))) \<le> 11" using assms(8,9) by (intro length_show_int) auto
  moreover have "length (content_type h) \<le> 25" by (simp add: content_type_def)
  ultimately have "length (response_header cf h respcode respmsg bodylen) \<le> sizeof_head cf + 256"
    using assms(1-3,5,7) by (auto simp: response_header_def httpresphead_def sizeof_head_def Let_def split: option.splits)
  then show ?thesis using assms(6) by (simp add: BuildHeader_upnphttp_def Let_def)
qed

text \<open>C17: The header of a response fits the 256 bytes that are kept for it beyond its format, whatever the request
  said: the version and the language are cut when they are read, the identifier and the date have fixed
  lengths, and the message of the status may have up to 40 characters (the longest of the server, \<^verbatim>\<open>Incompatible header fields\<close>,
  has 26). The whole response must be smaller than an \<^verbatim>\<open>int\<close> can count.\<close>

theorem response_header_fits:
  assumes "length (HttpVer h) \<le> 15" and "length (accept_language (h_headers h)) \<le> 7" and "length (res_SID h) \<le> 41"
    and "respcode < 1000" and "length respmsg \<le> 40" and "sizeof_head cf + 256 + bodylen < 2 ^ 31"
    and "case wc_date cf of None \<Rightarrow> True | Some d \<Rightarrow> length d \<le> 29"
    and "- (2 ^ 31) \<le> req_Timeout (h_headers h)" and "req_Timeout (h_headers h) < 2 ^ 31"
  shows "length (response_header cf h respcode respmsg bodylen) \<le> sizeof_head cf + 256
    \<and> BuildHeader_upnphttp cf h respcode respmsg bodylen \<noteq> None"
  by (rule response_header_fit [OF assms])

definition sample_web :: web_conf where
  "sample_web = \<lparr>wc_strict = False, wc_jwt = False, wc_date = Some ''Mon, 01 Jan 2024 00:00:00 GMT'', wc_server = ''Linux UPnP/1.1 MiniUPnPd/2.1'',
     wc_random_url = None, wc_no_infinite = True, wc_uuid_igd = [], wc_desc = \<lambda>_. Some ''<root/>''\<rparr>"

theorem response_header_fits_witness:
  "BuildHeader_upnphttp sample_web (sample_http\<lparr>HttpVer := ''HTTP/1.1''\<rparr>) 400 ''Incompatible header fields'' 0 \<noteq> None"
  using response_header_fits [of "sample_http\<lparr>HttpVer := ''HTTP/1.1''\<rparr>" 400 "''Incompatible header fields''" sample_web 0]
  by (simp add: sample_http_def no_headers_def sample_web_def sizeof_head_def httpresphead_def)

text \<open>What \<^verbatim>\<open>send\<close> may return: never more than it was given.\<close>

fun sends_fit :: "nat \<Rightarrow> send_result list \<Rightarrow> bool" where
  "sends_fit left [] \<longleftrightarrow> True"
| "sends_fit left (Sent n # rs) \<longleftrightarrow> n \<le> left \<and> sends_fit (left - n) rs"
| "sends_fit left (_ # rs) \<longleftrightarrow> sends_fit left rs"

lemma send_resp_prefix:
  assumes "sends_fit (length (res_buf h) - res_sent h) rs" "res_sent h \<le> length (res_buf h)" "SendResp_upnphttp rs h = (h', b, fin)"
  shows "h' = h\<lparr>res_sent := res_sent h'\<rparr> \<and> take (res_sent h) (res_buf h) @ b = take (res_sent h') (res_buf h)
    \<and> res_sent h' \<le> length (res_buf h) \<and> (\<not> fin \<longrightarrow> res_sent h' < length (res_buf h))
    \<and> (fin \<and> Send_error \<notin> set rs \<and> Sent 0 \<notin> set rs \<longrightarrow> res_sent h' = length (res_buf h))"
  using assms
proof (induction rs arbitrary: h b)
  case Nil
  then show ?case by (auto simp: SendResp_upnphttp.simps [of "[]"] split: if_splits)
next
  case (Cons r rs)
  show ?case
  proof (cases "length (res_buf h) \<le> res_sent h")
    case True
    then show ?thesis using Cons.prems by (subst (asm) SendResp_upnphttp.simps) auto
  next
    case False
    show ?thesis
    proof (cases r)
      case (Sent n)
      show ?thesis
      proof (cases "n = 0")
        case True
        then show ?thesis using Cons.prems False Sent by (subst (asm) SendResp_upnphttp.simps) auto
      next
        case more: False
        let ?h = "h\<lparr>res_sent := res_sent h + n\<rparr>"
        obtain h2 b2 fin2 where run: "SendResp_upnphttp rs ?h = (h2, b2, fin2)" by (cases "SendResp_upnphttp rs ?h")
        then have "SendResp_upnphttp (Sent n # rs) h = (h2, take n (drop (res_sent h) (res_buf h)) @ b2, fin2)"
          using False more by (subst SendResp_upnphttp.simps) simp
        then have res: "h' = h2" "fin = fin2" "b = take n (drop (res_sent h) (res_buf h)) @ b2"
          using Cons.prems(3) Sent by simp_all
        have "n \<le> length (res_buf h) - res_sent h" "sends_fit (length (res_buf ?h) - res_sent ?h) rs"
          using Cons.prems(1) Sent by simp_all
        with Cons.IH [of ?h b2] run res False show ?thesis by (auto simp: take_add Sent)
      qed
    next
      case Send_intr
      then have "SendResp_upnphttp rs h = (h', b, fin)" using Cons.prems(3) False by (subst (asm) SendResp_upnphttp.simps) simp
      then show ?thesis using Cons.IH [of h b] Cons.prems(1,2) Send_intr by auto
    qed (use Cons.prems False in \<open>subst (asm) SendResp_upnphttp.simps, auto\<close>)+
  qed
qed

text \<open>C16: A response is sent in order and each byte once, however the calls of \<^verbatim>\<open>send\<close> divide it. Unless a call fails
  the connection is closed exactly when everything was sent, and is kept for the rest otherwise.\<close>

theorem response_sent_in_order:
  assumes "res_sent h \<le> length (res_buf h)" and "sends_fit (length (res_buf h) - res_sent h) rs"
    and "SendRespAndClose_upnphttp rs h = (h', b)"
  shows "take (res_sent h) (res_buf h) @ b = take (res_sent h') (res_buf h) \<and> res_buf h' = res_buf h
    \<and> (h_state h' = ESendingAndClosing \<and> res_sent h' < length (res_buf h) \<or> h_state h' = EToDelete \<and> h_socket h' = - 1)
    \<and> (h_state h' = EToDelete \<and> Send_error \<notin> set rs \<and> Sent 0 \<notin> set rs \<longrightarrow> take (res_sent h) (res_buf h) @ b = res_buf h)"
proof -
  obtain h1 b1 fin where run: "SendResp_upnphttp rs h = (h1, b1, fin)" by (cases "SendResp_upnphttp rs h")
  have res: "b = b1" "h' = (if fin then CloseSocket_upnphttp h1 else h1\<lparr>h_state := ESendingAndClosing\<rparr>)"
    using assms(3) run by (simp_all add: SendRespAndClose_upnphttp_def split: if_splits)
  have h1: "h1 = h\<lparr>res_sent := res_sent h1\<rparr>" and part: "take (res_sent h) (res_buf h) @ b1 = take (res_sent h1) (res_buf h)"
    "\<not> fin \<longrightarrow> res_sent h1 < length (res_buf h)"
    "fin \<and> Send_error \<notin> set rs \<and> Sent 0 \<notin> set rs \<longrightarrow> res_sent h1 = length (res_buf h)"
    using send_resp_prefix [OF assms(2,1) run] by blast+
  have buf: "res_buf h1 = res_buf h" using arg_cong [OF h1, of res_buf] by simp
  show ?thesis using part buf by (auto simp: res CloseSocket_upnphttp_def)
qed

theorem response_sent_in_order_witness:
  "SendRespAndClose_upnphttp [Sent 4, Send_intr, Send_again] (sample_http\<lparr>res_buf := ''HTTP/1.1 200 OK''\<rparr>)
    = (sample_http\<lparr>res_buf := ''HTTP/1.1 200 OK'', res_sent := 4, h_state := ESendingAndClosing\<rparr>, ''HTTP'')"
proof -
  let ?h = "sample_http\<lparr>res_buf := ''HTTP/1.1 200 OK''\<rparr>"
  have run: "SendRespAndClose_upnphttp [Sent 4, Send_intr, Send_again] ?h
      = (?h\<lparr>res_sent := 4, h_state := ESendingAndClosing\<rparr>, take 4 (res_buf ?h))"
    by (simp add: SendRespAndClose_upnphttp_def SendResp_upnphttp.simps sample_http_def)
  show ?thesis using run response_sent_in_order [OF _ _ run] by (simp add: sample_http_def)
qed

end
