(* ===== verification/Upnp_Events.thy ===== *)
theory Upnp_Events
  imports Scan_Buffer Inet6
begin

text \<open>
  The event notifications of \<^verbatim>\<open>upnpevents.c\<close>, in a build with IPv6 and the services L3F, 6FC and DP.
  Subscribers and notifications are objects of a heap that point at each other; a pointer to an object
  that has been freed has no value there, and neither has memory past the end of a callback.
\<close>

section \<open>The objects\<close>

type_synonym ptr = nat

datatype subscriber_service = EWanCFG | EWanIPC | EL3F | E6FC | EDP

record subscriber =
  sb_notify :: "ptr option"
  sb_timeout :: int
  sb_seq :: u32
  sb_service :: subscriber_service
  sb_uuid :: string
  sb_callback :: string

datatype notify_state = ECreated | EConnecting | ESending | EWaitingForResponse | EFinished | EError

text \<open>The path of a notification points into the callback of a subscriber.\<close>

record upnp_event_notify =
  nt_s :: int
  nt_state :: notify_state
  nt_sub :: "ptr option"
  nt_buffer :: "string option"
  nt_buffersize :: nat
  nt_tosend :: nat
  nt_sent :: nat
  nt_path :: "(ptr \<times> nat) option"
  nt_ipv6 :: bool
  nt_addrstr :: string
  nt_portstr :: string

record event_state =
  subs :: "ptr \<rightharpoonup> subscriber"
  notifies :: "ptr \<rightharpoonup> upnp_event_notify"
  subscriberlist :: "ptr list"
  notifylist :: "ptr list"

definition no_events :: event_state where
  "no_events = \<lparr>subs = Map.empty, notifies = Map.empty, subscriberlist = [], notifylist = []\<rparr>"

definition set_sub :: "ptr \<Rightarrow> subscriber \<Rightarrow> event_state \<Rightarrow> event_state" where
  "set_sub q s st = st\<lparr>subs := (subs st)(q \<mapsto> s)\<rparr>"

definition set_notify :: "ptr \<Rightarrow> upnp_event_notify \<Rightarrow> event_state \<Rightarrow> event_state" where
  "set_notify p obj st = st\<lparr>notifies := (notifies st)(p \<mapsto> obj)\<rparr>"

text \<open>\<^verbatim>\<open>LIST_REMOVE\<close> and \<^verbatim>\<open>free\<close>.\<close>

definition free_sub :: "ptr \<Rightarrow> event_state \<Rightarrow> event_state" where
  "free_sub q st = st\<lparr>subs := (subs st)(q := None), subscriberlist := remove1 q (subscriberlist st)\<rparr>"

definition free_notify :: "ptr \<Rightarrow> event_state \<Rightarrow> event_state" where
  "free_notify p st = st\<lparr>notifies := (notifies st)(p := None), notifylist := remove1 p (notifylist st)\<rparr>"

section \<open>Subscribers\<close>

text \<open>The identifier: from a UUID the library made, or from that of the device with four random digits.\<close>

datatype uuid_source = Generated string | Dummy nat

definition event_urls :: "(string \<times> subscriber_service) list" where
  "event_urls = [(''/evt/CmnIfCfg'', EWanCFG), (''/evt/IPConn'', EWanIPC), (''/evt/L3F'', EL3F),
     (''/evt/IP6FCtl'', E6FC), (''/evt/DP'', EDP)]"

definition hex4 :: "nat \<Rightarrow> string" where
  "hex4 n = map (\<lambda>k. hex_char (n div 16 ^ (3 - k) mod 16)) [0..<4]"

definition make_uuid :: "string \<Rightarrow> uuid_source \<Rightarrow> string" where
  "make_uuid igd src =
     (case src of Generated u \<Rightarrow> ''uuid:'' @ u @ [CHR 0x00]
      | Dummy r \<Rightarrow> take 37 (strncpy igd 42) @ hex4 (r mod 65536) @ [CHR 0x00])"

definition newSubscriber :: "string \<Rightarrow> uuid_source \<Rightarrow> string \<Rightarrow> string \<Rightarrow> subscriber option" where
  "newSubscriber igd src eventurl callback =
     (if callback = [] then None
      else (case map_of event_urls eventurl of None \<Rightarrow> None
         | Some service \<Rightarrow>
           Some \<lparr>sb_notify = None, sb_timeout = 0, sb_seq = 0, sb_service = service,
             sb_uuid = make_uuid igd src, sb_callback = callback @ [CHR 0x00]\<rparr>))"

text \<open>What the system answers when a notification is created: the block from \<^verbatim>\<open>calloc\<close>, the socket, and
  whether it was made non blocking.\<close>

record create_env =
  ce_mem :: "ptr option"
  ce_socket :: int
  ce_nonblocking :: bool

definition upnp_event_create_notify :: "create_env \<Rightarrow> ptr \<Rightarrow> event_state \<Rightarrow> event_state option" where
  "upnp_event_create_notify e q st =
     (case ce_mem e of None \<Rightarrow> Some st
      | Some p \<Rightarrow>
        (case subs st q of None \<Rightarrow> None
         | Some s \<Rightarrow>
           (if length (sb_callback s) < 8 then None
            else if ce_socket e < 0 then Some st
            else if \<not> ce_nonblocking e then Some st
            else Some ((set_notify p \<lparr>nt_s = ce_socket e, nt_state = ECreated, nt_sub = Some q, nt_buffer = None,
                nt_buffersize = 0, nt_tosend = 0, nt_sent = 0, nt_path = None, nt_ipv6 = False, nt_addrstr = [],
                nt_portstr = []\<rparr> (set_sub q (s\<lparr>sb_notify := Some p\<rparr>) st))\<lparr>notifylist := p # notifylist st\<rparr>))))"

text \<open>A new subscriber at the address \<open>q\<close> that \<^verbatim>\<open>calloc\<close> gave, if any; the result is its identifier.\<close>

definition upnpevents_addSubscriber ::
  "string \<Rightarrow> uuid_source \<Rightarrow> ptr option \<Rightarrow> create_env \<Rightarrow> int \<Rightarrow> string \<Rightarrow> string \<Rightarrow> int \<Rightarrow> event_state
    \<Rightarrow> (string option \<times> event_state) option" where
  "upnpevents_addSubscriber igd src mem e now eventurl callback timeout st =
     (case mem of None \<Rightarrow> Some (None, st)
      | Some q \<Rightarrow>
        (case newSubscriber igd src eventurl callback of None \<Rightarrow> Some (None, st)
         | Some s0 \<Rightarrow>
           (let s = (if timeout \<noteq> 0 then s0\<lparr>sb_timeout := now + timeout\<rparr> else s0);
                st1 = (set_sub q s st)\<lparr>subscriberlist := q # subscriberlist st\<rparr>
            in map_option (\<lambda>st2. (Some (sb_uuid s), st2)) (upnp_event_create_notify e q st1))))"

definition has_sid :: "string \<Rightarrow> subscriber \<Rightarrow> bool" where
  "has_sid sid s \<longleftrightarrow> length sid = 41 \<and> sid = take 41 (sb_uuid s)"

fun renew_loop :: "bool \<Rightarrow> int \<Rightarrow> string \<Rightarrow> int \<Rightarrow> ptr list \<Rightarrow> event_state \<Rightarrow> (string option \<times> event_state) option" where
  "renew_loop strict now sid timeout [] st = Some (None, st)"
| "renew_loop strict now sid timeout (q # qs) st =
     (case subs st q of None \<Rightarrow> None
      | Some s \<Rightarrow>
        (if has_sid sid s \<and> \<not> (strict \<and> sb_timeout s \<noteq> 0 \<and> sb_timeout s < now) then
           Some (Some (sb_uuid s), set_sub q (s\<lparr>sb_timeout := (if timeout \<noteq> 0 then now + timeout else 0)\<rparr>) st)
         else renew_loop strict now sid timeout qs st))"

definition upnpevents_renewSubscription ::
  "bool \<Rightarrow> int \<Rightarrow> string \<Rightarrow> int \<Rightarrow> event_state \<Rightarrow> (string option \<times> event_state) option" where
  "upnpevents_renewSubscription strict now sid timeout st = renew_loop strict now sid timeout (subscriberlist st) st"

text \<open>The subscriber leaves its notification, which goes on without it.\<close>

definition remove_subscriber :: "ptr \<Rightarrow> subscriber \<Rightarrow> event_state \<Rightarrow> event_state option" where
  "remove_subscriber q s st =
     map_option (free_sub q)
       (case sb_notify s of None \<Rightarrow> Some st
        | Some p \<Rightarrow> map_option (\<lambda>obj. set_notify p (obj\<lparr>nt_sub := None\<rparr>) st) (notifies st p))"

fun remove_loop :: "string \<Rightarrow> ptr list \<Rightarrow> event_state \<Rightarrow> (int \<times> event_state) option" where
  "remove_loop sid [] st = Some (- 1, st)"
| "remove_loop sid (q # qs) st =
     (case subs st q of None \<Rightarrow> None
      | Some s \<Rightarrow> (if has_sid sid s then map_option (\<lambda>st1. (0, st1)) (remove_subscriber q s st) else remove_loop sid qs st))"

definition upnpevents_removeSubscriber :: "string \<Rightarrow> event_state \<Rightarrow> (int \<times> event_state) option" where
  "upnpevents_removeSubscriber sid st = remove_loop sid (subscriberlist st) st"

fun var_change_loop :: "(ptr \<Rightarrow> create_env) \<Rightarrow> subscriber_service \<Rightarrow> ptr list \<Rightarrow> event_state \<Rightarrow> event_state option" where
  "var_change_loop e service [] st = Some st"
| "var_change_loop e service (q # qs) st =
     (case subs st q of None \<Rightarrow> None
      | Some s \<Rightarrow>
        (if sb_service s = service \<and> sb_notify s = None
         then Option.bind (upnp_event_create_notify (e q) q st) (var_change_loop e service qs)
         else var_change_loop e service qs st))"

definition upnp_event_var_change_notify :: "(ptr \<Rightarrow> create_env) \<Rightarrow> subscriber_service \<Rightarrow> event_state \<Rightarrow> event_state option" where
  "upnp_event_var_change_notify e service st = var_change_loop e service (subscriberlist st) st"

section \<open>The address of a callback\<close>

text \<open>The callback after \<^verbatim>\<open>http://\<close>: a host of at most 47 characters (in brackets for IPv6), a port, and the path
  as its offset.\<close>

record callback_target =
  tg_ipv6 :: bool
  tg_addrstr :: string
  tg_port :: port
  tg_portstr :: string
  tg_path :: nat

definition callback_host :: "string \<Rightarrow> (bool \<times> string \<times> string) option" where
  "callback_host m =
     (case m of [] \<Rightarrow> None
      | c # r \<Rightarrow>
        (if c = CHR ''['' then
           map_option (\<lambda>(a, q). (True, ''['' @ a @ (if length a < 46 then '']'' else []), if hd q = CHR '']'' then tl q else q))
             (copy_until (\<lambda>x. x = CHR '']'') 46 r)
         else map_option (\<lambda>(a, q). (False, a, q)) (copy_until (\<lambda>x. x = CHR ''/'' \<or> x = CHR '':'') 47 m)))"

definition callback_target :: "string \<Rightarrow> callback_target option" where
  "callback_target cb =
     Option.bind (callback_host (drop 7 cb)) (\<lambda>(v6, a, m).
       (case m of [] \<Rightarrow> None
        | c # r \<Rightarrow>
          (if c = CHR '':'' then
             map_option (\<lambda>(d, q). \<lparr>tg_ipv6 = v6, tg_addrstr = cstring a, tg_port = word_of_int (atoi d),
                 tg_portstr = '':'' @ take 6 d, tg_path = length cb - length q\<rparr>)
               (scan_to (\<lambda>x. x = CHR 0x00 \<or> x = CHR ''/'') r)
           else Some \<lparr>tg_ipv6 = v6, tg_addrstr = cstring a, tg_port = 80, tg_portstr = [], tg_path = length cb - length m\<rparr>)))"

datatype sock_addr = Sockaddr4 ipv4 port | Sockaddr6 in6_addr port

text \<open>The results of \<^verbatim>\<open>inet_pton\<close> are not looked at: an address that is no address stays zero.\<close>

definition notify_sockaddr :: "callback_target \<Rightarrow> sock_addr" where
  "notify_sockaddr tg =
     (if tg_ipv6 tg then
        Sockaddr6 (if 2 < length (tg_addrstr tg)
            then case_option 0 id (inet_pton6 (take (length (tg_addrstr tg) - 2) (drop 1 (tg_addrstr tg)))) else 0) (tg_port tg)
      else Sockaddr4 (case inet_pton4 (tg_addrstr tg) of None \<Rightarrow> 0 | Some b \<Rightarrow> readnu32 b 0) (tg_port tg))"

datatype connect_result = Connected | Connecting | Connect_failed

section \<open>The message\<close>

text \<open>The variables of a service (\<^verbatim>\<open>getVarsWANIPCn\<close> and its like), or \<open>None\<close> when memory is short.\<close>

type_synonym vars = "subscriber_service \<Rightarrow> string option"

definition notifymsg :: "bool \<Rightarrow> string \<Rightarrow> string \<Rightarrow> string \<Rightarrow> string \<Rightarrow> u32 \<Rightarrow> string \<Rightarrow> string" where
  "notifymsg uda10 path addrstr portstr uuid seq xml =
     ''NOTIFY '' @ (if path = [] then ''/'' else path) @ '' HTTP/1.1'' @ crlf
     @ ''Host: '' @ addrstr @ portstr @ crlf
     @ ''Content-Type: text/xml'' @ (if uda10 then [] else ''; charset='' @ [CHR 0x22] @ ''utf-8'' @ [CHR 0x22]) @ crlf
     @ ''Content-Length: '' @ dec (length xml + 2) @ crlf
     @ ''NT: upnp:event'' @ crlf @ ''NTS: upnp:propchange'' @ crlf
     @ ''SID: '' @ uuid @ crlf @ ''SEQ: '' @ dec (unat seq) @ crlf
     @ ''Connection: close'' @ crlf @ ''Cache-Control: no-cache'' @ crlf @ crlf
     @ xml @ crlf"

text \<open>The buffer of 1024 bytes, or a larger one when the message and its terminator do not fit.\<close>

function buffer_loop :: "(nat \<Rightarrow> bool) \<Rightarrow> string \<Rightarrow> nat \<Rightarrow> nat option" where
  "buffer_loop malloc msg n =
     (if \<not> malloc n then None else if length msg < n then Some n else buffer_loop malloc msg (length msg + 1))"
  by auto
termination by (relation "measure (\<lambda>(_, msg, n). Suc (length msg) - n)") auto

declare buffer_loop.simps [simp del]

section \<open>One notification\<close>

text \<open>What the system answers to the calls for a notification.\<close>

record notify_env =
  ne_connect :: "sock_addr \<Rightarrow> connect_result"
  ne_sockerr :: "int option"
  ne_malloc :: "nat \<Rightarrow> bool"
  ne_send :: "string \<Rightarrow> send_result"
  ne_recv :: recv_result

text \<open>The configuration: the format of UDA 1.0, and the variables of the services.\<close>

record event_conf =
  ec_uda10 :: bool
  ec_vars :: vars

definition upnp_event_notify_connect :: "notify_env \<Rightarrow> ptr \<Rightarrow> event_state \<Rightarrow> event_state option" where
  "upnp_event_notify_connect e p st =
     Option.bind (notifies st p) (\<lambda>obj.
       (case nt_sub obj of None \<Rightarrow> Some (set_notify p (obj\<lparr>nt_state := EError\<rparr>) st)
        | Some q \<Rightarrow>
          Option.bind (subs st q) (\<lambda>s. Option.bind (callback_target (sb_callback s)) (\<lambda>tg.
            Some (set_notify p (obj\<lparr>nt_state := (if ne_connect e (notify_sockaddr tg) = Connect_failed then EError else EConnecting),
                nt_path := Some (q, tg_path tg), nt_ipv6 := tg_ipv6 tg, nt_addrstr := tg_addrstr tg,
                nt_portstr := tg_portstr tg\<rparr>) st)))))"

definition upnp_event_prepare :: "event_conf \<Rightarrow> notify_env \<Rightarrow> ptr \<Rightarrow> event_state \<Rightarrow> event_state option" where
  "upnp_event_prepare cf e p st =
     Option.bind (notifies st p) (\<lambda>obj.
       (case nt_sub obj of None \<Rightarrow> Some (set_notify p (obj\<lparr>nt_state := EError\<rparr>) st)
        | Some q \<Rightarrow>
          Option.bind (subs st q) (\<lambda>s. Option.bind (ec_vars cf (sb_service s)) (\<lambda>xml.
          Option.bind (nt_path obj) (\<lambda>(q2, off). Option.bind (subs st q2) (\<lambda>s2.
          Option.bind (text_at (drop off (sb_callback s2))) (\<lambda>path. Option.bind (text_at (sb_uuid s)) (\<lambda>uuid.
            (let msg = notifymsg (ec_uda10 cf) path (nt_addrstr obj) (nt_portstr obj) uuid (sb_seq s) xml
             in (case buffer_loop (ne_malloc e) msg 1024 of
                   None \<Rightarrow> Some (set_notify p (obj\<lparr>nt_buffer := None, nt_state := EError\<rparr>) st)
                 | Some n \<Rightarrow> Some (set_notify p (obj\<lparr>nt_buffer := Some msg, nt_buffersize := n, nt_tosend := length msg,
                     nt_state := ESending\<rparr>) st)))))))))))"

text \<open>One \<^verbatim>\<open>send\<close>: the notification, and the bytes the socket took.\<close>

definition event_send :: "(string \<Rightarrow> send_result) \<Rightarrow> string \<Rightarrow> upnp_event_notify \<Rightarrow> upnp_event_notify \<times> string" where
  "event_send send m obj =
     (let left = take (nt_tosend obj - nt_sent obj) (drop (nt_sent obj) m)
      in (case send left of Send_error \<Rightarrow> (obj\<lparr>nt_state := EError\<rparr>, [])
          | r \<Rightarrow> (let i = (case r of Sent n \<Rightarrow> n | _ \<Rightarrow> 0); obj1 = obj\<lparr>nt_sent := nt_sent obj + i\<rparr>
                  in (if nt_sent obj1 = nt_tosend obj then obj1\<lparr>nt_state := EWaitingForResponse\<rparr> else obj1, take i left))))"

definition upnp_event_send :: "notify_env \<Rightarrow> ptr \<Rightarrow> event_state \<Rightarrow> event_state option" where
  "upnp_event_send e p st =
     Option.bind (notifies st p) (\<lambda>obj. Option.bind (nt_buffer obj) (\<lambda>m.
       Some (set_notify p (fst (event_send (ne_send e) m obj)) st)))"

text \<open>The answer is received into the buffer and not looked at.\<close>

definition upnp_event_recv :: "notify_env \<Rightarrow> ptr \<Rightarrow> event_state \<Rightarrow> event_state option" where
  "upnp_event_recv e p st =
     Option.bind (notifies st p) (\<lambda>obj. Option.bind (nt_buffer obj) (\<lambda>m.
       (case ne_recv e of Recv_again \<Rightarrow> Some st
        | Recv_error \<Rightarrow> Some (set_notify p (obj\<lparr>nt_state := EError\<rparr>) st)
        | Received d \<Rightarrow>
          (let st1 = set_notify p (obj\<lparr>nt_state := EFinished\<rparr>) st
           in (case nt_sub obj of None \<Rightarrow> Some st1
               | Some q \<Rightarrow> map_option (\<lambda>s. set_sub q (s\<lparr>sb_seq := sb_seq s + 1\<rparr>) st1) (subs st1 q))))))"

definition upnp_event_process_notify :: "event_conf \<Rightarrow> notify_env \<Rightarrow> ptr \<Rightarrow> event_state \<Rightarrow> event_state option" where
  "upnp_event_process_notify cf e p st =
     Option.bind (notifies st p) (\<lambda>obj.
       (case nt_state obj of
          EConnecting \<Rightarrow>
            (if ne_sockerr e \<noteq> Some 0 then Some (set_notify p (obj\<lparr>nt_state := EError\<rparr>) st)
             else Option.bind (upnp_event_prepare cf e p st) (\<lambda>st1. Option.bind (notifies st1 p) (\<lambda>obj1.
                (if nt_state obj1 = ESending then upnp_event_send e p st1 else Some st1))))
        | ESending \<Rightarrow> upnp_event_send e p st
        | EWaitingForResponse \<Rightarrow> upnp_event_recv e p st
        | EFinished \<Rightarrow> Some (set_notify p (obj\<lparr>nt_s := - 1\<rparr>) st)
        | _ \<Rightarrow> Some st))"

section \<open>The calls of the main loop\<close>

text \<open>The sets of sockets to wait for, and the largest socket.\<close>

record fd_sets =
  fd_read :: "int list"
  fd_write :: "int list"
  fd_max :: int

definition watch_write :: "int \<Rightarrow> fd_sets \<Rightarrow> fd_sets" where
  "watch_write s fds = fds\<lparr>fd_write := s # fd_write fds, fd_max := max s (fd_max fds)\<rparr>"

definition watch_read :: "int \<Rightarrow> fd_sets \<Rightarrow> fd_sets" where
  "watch_read s fds = fds\<lparr>fd_read := s # fd_read fds, fd_max := max s (fd_max fds)\<rparr>"

fun select_loop :: "(ptr \<Rightarrow> notify_env) \<Rightarrow> ptr list \<Rightarrow> fd_sets \<Rightarrow> event_state \<Rightarrow> (fd_sets \<times> event_state) option" where
  "select_loop e [] fds st = Some (fds, st)"
| "select_loop e (p # ps) fds st =
     Option.bind (notifies st p) (\<lambda>obj.
       (if nt_s obj < 0 then select_loop e ps fds st
        else (case nt_state obj of
            ECreated \<Rightarrow> Option.bind (upnp_event_notify_connect (e p) p st) (\<lambda>st1. Option.bind (notifies st1 p) (\<lambda>obj1.
              select_loop e ps (if nt_state obj1 = EConnecting then watch_write (nt_s obj1) fds else fds) st1))
          | EConnecting \<Rightarrow> select_loop e ps (watch_write (nt_s obj) fds) st
          | ESending \<Rightarrow> select_loop e ps (watch_write (nt_s obj) fds) st
          | EWaitingForResponse \<Rightarrow> select_loop e ps (watch_read (nt_s obj) fds) st
          | _ \<Rightarrow> select_loop e ps fds st)))"

definition upnpevents_selectfds :: "(ptr \<Rightarrow> notify_env) \<Rightarrow> fd_sets \<Rightarrow> event_state \<Rightarrow> (fd_sets \<times> event_state) option" where
  "upnpevents_selectfds e fds st = select_loop e (notifylist st) fds st"

text \<open>The log line of the loop asks for the bits of the socket, which must be one.\<close>

fun process_loop :: "event_conf \<Rightarrow> (ptr \<Rightarrow> notify_env) \<Rightarrow> int list \<Rightarrow> int list \<Rightarrow> ptr list \<Rightarrow> event_state \<Rightarrow> event_state option" where
  "process_loop cf e rd wr [] st = Some st"
| "process_loop cf e rd wr (p # ps) st =
     Option.bind (notifies st p) (\<lambda>obj.
       (if nt_s obj < 0 then None
        else if nt_s obj \<in> set rd \<or> nt_s obj \<in> set wr
        then Option.bind (upnp_event_process_notify cf (e p) p st) (process_loop cf e rd wr ps)
        else process_loop cf e rd wr ps st))"

definition drop_notify :: "ptr \<Rightarrow> upnp_event_notify \<Rightarrow> event_state \<Rightarrow> event_state option" where
  "drop_notify p obj st =
     map_option (free_notify p)
       (case nt_sub obj of None \<Rightarrow> Some st
        | Some q \<Rightarrow>
          map_option (\<lambda>s. (if nt_state obj = EError then free_sub q else id) (set_sub q (s\<lparr>sb_notify := None\<rparr>) st)) (subs st q))"

fun finish_loop :: "ptr list \<Rightarrow> event_state \<Rightarrow> event_state option" where
  "finish_loop [] st = Some st"
| "finish_loop (p # ps) st =
     Option.bind (notifies st p) (\<lambda>obj.
       (if nt_state obj = EError \<or> nt_state obj = EFinished then Option.bind (drop_notify p obj st) (finish_loop ps)
        else finish_loop ps st))"

fun timeout_loop :: "int \<Rightarrow> ptr list \<Rightarrow> event_state \<Rightarrow> event_state option" where
  "timeout_loop now [] st = Some st"
| "timeout_loop now (q # qs) st =
     Option.bind (subs st q) (\<lambda>s.
       timeout_loop now qs (if sb_timeout s \<noteq> 0 \<and> sb_timeout s < now \<and> sb_notify s = None then free_sub q st else st))"

definition upnpevents_processfds :: "event_conf \<Rightarrow> (ptr \<Rightarrow> notify_env) \<Rightarrow> int \<Rightarrow> int list \<Rightarrow> int list \<Rightarrow> event_state \<Rightarrow> event_state option" where
  "upnpevents_processfds cf e now rd wr st =
     Option.bind (process_loop cf e rd wr (notifylist st) st) (\<lambda>st1.
     Option.bind (finish_loop (notifylist st1) st1) (\<lambda>st2.
       timeout_loop now (subscriberlist st2) st2))"

section \<open>The links between the objects\<close>

definition sub_ok :: "subscriber \<Rightarrow> bool" where
  "sub_ok s \<longleftrightarrow> (\<exists>c. sb_callback s = c @ [CHR 0x00]) \<and> callback_target (sb_callback s) \<noteq> None \<and> CHR 0x00 \<in> set (sb_uuid s)"

definition notify_ok :: "event_state \<Rightarrow> upnp_event_notify \<Rightarrow> bool" where
  "notify_ok st obj \<longleftrightarrow> 0 \<le> nt_s obj \<and>
     (case nt_state obj of
        EConnecting \<Rightarrow> (\<forall>q. nt_sub obj = Some q \<longrightarrow> (\<exists>s tg. subs st q = Some s \<and> callback_target (sb_callback s) = Some tg
          \<and> nt_path obj = Some (q, tg_path tg))) \<and> nt_sent obj = 0
      | ESending \<Rightarrow> (\<exists>m. nt_buffer obj = Some m \<and> nt_tosend obj = length m \<and> nt_sent obj \<le> length m)
      | EWaitingForResponse \<Rightarrow> (\<exists>m. nt_buffer obj = Some m \<and> nt_tosend obj = length m \<and> nt_sent obj = length m)
      | ECreated \<Rightarrow> nt_sent obj = 0
      | _ \<Rightarrow> True)"

text \<open>The lists hold exactly the objects that are allocated, a subscriber and its notification point at
  each other, and every object is in a state its next step can go on from.\<close>

definition ev_ok :: "event_state \<Rightarrow> bool" where
  "ev_ok st \<longleftrightarrow>
     distinct (subscriberlist st) \<and> set (subscriberlist st) = dom (subs st)
   \<and> distinct (notifylist st) \<and> set (notifylist st) = dom (notifies st)
   \<and> (\<forall>q s p. subs st q = Some s \<and> sb_notify s = Some p \<longrightarrow> (\<exists>obj. notifies st p = Some obj \<and> nt_sub obj = Some q))
   \<and> (\<forall>p obj q. notifies st p = Some obj \<and> nt_sub obj = Some q \<longrightarrow> (\<exists>s. subs st q = Some s \<and> sb_notify s = Some p))
   \<and> (\<forall>q s. subs st q = Some s \<longrightarrow> sub_ok s)
   \<and> (\<forall>p obj. notifies st p = Some obj \<longrightarrow> notify_ok st obj)"

named_theorems heap \<open>the updates of the heap\<close>

declare set_sub_def [heap] set_notify_def [heap] free_sub_def [heap] free_notify_def [heap]

lemma ev_okD:
  assumes "ev_ok st"
  shows "distinct (subscriberlist st)" "set (subscriberlist st) = dom (subs st)"
    "distinct (notifylist st)" "set (notifylist st) = dom (notifies st)"
    "\<And>q s p. subs st q = Some s \<Longrightarrow> sb_notify s = Some p \<Longrightarrow> \<exists>obj. notifies st p = Some obj \<and> nt_sub obj = Some q"
    "\<And>p obj q. notifies st p = Some obj \<Longrightarrow> nt_sub obj = Some q \<Longrightarrow> \<exists>s. subs st q = Some s \<and> sb_notify s = Some p"
    "\<And>q s. subs st q = Some s \<Longrightarrow> sub_ok s"
    "\<And>p obj. notifies st p = Some obj \<Longrightarrow> notify_ok st obj"
  using assms unfolding ev_ok_def by blast+

text \<open>A notification keeps its validity as long as the callbacks stay.\<close>

lemma notify_ok_subs:
  assumes "notify_ok st obj"
    and "\<And>q s. nt_sub obj = Some q \<Longrightarrow> subs st q = Some s \<Longrightarrow> \<exists>s'. subs st' q = Some s' \<and> sb_callback s' = sb_callback s"
  shows "notify_ok st' obj"
  using assms unfolding notify_ok_def by (fastforce split: notify_state.splits)

lemma notify_ok_cong: "subs st' = subs st \<Longrightarrow> notify_ok st' obj = notify_ok st obj"
  by (cases "nt_state obj") (simp_all add: notify_ok_def)

lemma ev_ok_set_notify:
  assumes ok: "ev_ok st" and obj: "notifies st p = Some obj" and sub: "nt_sub obj' = nt_sub obj" and new: "notify_ok st obj'"
  shows "ev_ok (set_notify p obj' st)"
proof -
  let ?st = "set_notify p obj' st"
  have "notify_ok ?st o'" if "notifies ?st p' = Some o'" for p' o'
  proof -
    have "notify_ok st o'" using that new ev_okD(8) [OF ok] by (auto simp: heap split: if_splits)
    then show ?thesis using notify_ok_cong [of ?st st o'] by (simp add: heap)
  qed
  moreover have "\<exists>o'. notifies ?st r = Some o' \<and> nt_sub o' = Some q" if "subs ?st q = Some s" "sb_notify s = Some r" for q s r
    using ev_okD(5) [OF ok, of q s r] that obj sub by (auto simp: heap)
  moreover have "\<exists>s. subs ?st q = Some s \<and> sb_notify s = Some r" if "notifies ?st r = Some o'" "nt_sub o' = Some q" for r o' q
    using ev_okD(6) [OF ok, of r _ q] that obj sub by (fastforce simp: heap split: if_splits)
  ultimately show ?thesis
    using ev_okD(1-4,7) [OF ok] obj unfolding ev_ok_def by (auto simp: heap)
qed

lemma ev_ok_set_sub:
  assumes ok: "ev_ok st" and s: "subs st q = Some s" and same: "sb_notify s' = sb_notify s" "sb_callback s' = sb_callback s" "sb_uuid s' = sb_uuid s"
  shows "ev_ok (set_sub q s' st)"
proof -
  let ?st = "set_sub q s' st"
  have "notify_ok ?st o'" if "notifies ?st p' = Some o'" for p' o'
  proof -
    have "notify_ok st o'" using that ev_okD(8) [OF ok] by (simp add: heap)
    then show ?thesis by (rule notify_ok_subs) (auto simp: heap s same)
  qed
  moreover have "\<exists>o'. notifies ?st r = Some o' \<and> nt_sub o' = Some q'" if "subs ?st q' = Some t" "sb_notify t = Some r" for q' t r
    using ev_okD(5) [OF ok] that s same by (auto simp: heap split: if_splits)
  moreover have "\<exists>t. subs ?st q' = Some t \<and> sb_notify t = Some r" if "notifies ?st r = Some o'" "nt_sub o' = Some q'" for r o' q'
    using ev_okD(6) [OF ok, of r o' q'] that s same by (auto simp: heap)
  moreover have "sub_ok t" if "subs ?st q' = Some t" for q' t
    using ev_okD(7) [OF ok] that s same by (auto simp: heap sub_ok_def split: if_splits)
  ultimately show ?thesis
    using ev_okD(1-4) [OF ok] s unfolding ev_ok_def by (auto simp: heap)
qed

lemma set_remove1_dom: "distinct xs \<Longrightarrow> set xs = dom m \<Longrightarrow> set (remove1 x xs) = dom (m(x := None))"
  by auto

text \<open>An object leaves when nothing points at it.\<close>

lemma ev_ok_free_sub:
  assumes ok: "ev_ok st" and s: "subs st q = Some s" and free: "sb_notify s = None"
  shows "ev_ok (free_sub q st)"
proof -
  let ?st = "free_sub q st"
  have away: "nt_sub o' \<noteq> Some q" if "notifies st r = Some o'" for r o'
    using ev_okD(6) [OF ok that] s free by fastforce
  have "notify_ok ?st o'" if "notifies ?st p' = Some o'" for p' o'
  proof -
    have o': "notifies st p' = Some o'" using that by (simp add: heap)
    show ?thesis by (rule notify_ok_subs [OF ev_okD(8) [OF ok o']]) (use away [OF o'] in \<open>auto simp: heap\<close>)
  qed
  moreover have "\<exists>t. subs ?st q' = Some t \<and> sb_notify t = Some r" if "notifies ?st r = Some o'" "nt_sub o' = Some q'" for r o' q'
    using ev_okD(6) [OF ok, of r o' q'] that away [of r o'] by (auto simp: heap)
  moreover have "\<exists>o'. notifies ?st r = Some o' \<and> nt_sub o' = Some q'" if "subs ?st q' = Some t" "sb_notify t = Some r" for q' t r
    using ev_okD(5) [OF ok] that by (auto simp: heap split: if_splits)
  moreover have "set (subscriberlist ?st) = dom (subs ?st)" "distinct (subscriberlist ?st)"
    using set_remove1_dom [OF ev_okD(1,2) [OF ok]] ev_okD(1) [OF ok] by (simp_all add: heap distinct_remove1)
  ultimately show ?thesis
    using ev_okD(3,4,7) [OF ok] unfolding ev_ok_def by (auto simp: heap split: if_splits)
qed

lemma ev_ok_free_notify:
  assumes ok: "ev_ok st" and obj: "notifies st p = Some obj" and free: "nt_sub obj = None"
  shows "ev_ok (free_notify p st)"
proof -
  let ?st = "free_notify p st"
  have away: "sb_notify t \<noteq> Some p" if "subs st r = Some t" for r t
    using ev_okD(5) [OF ok that] obj free by fastforce
  have "notify_ok ?st o'" if "notifies ?st p' = Some o'" for p' o'
  proof -
    have "notify_ok st o'" using that ev_okD(8) [OF ok] by (simp add: heap split: if_splits)
    then show ?thesis using notify_ok_cong [of ?st st o'] by (simp add: heap)
  qed
  moreover have "\<exists>o'. notifies ?st r = Some o' \<and> nt_sub o' = Some q'" if "subs ?st q' = Some t" "sb_notify t = Some r" for q' t r
    using ev_okD(5) [OF ok, of q' t r] that away [of q' t] by (auto simp: heap)
  moreover have "set (notifylist ?st) = dom (notifies ?st)" "distinct (notifylist ?st)"
    using set_remove1_dom [OF ev_okD(3,4) [OF ok]] ev_okD(3) [OF ok] by (simp_all add: heap distinct_remove1)
  ultimately show ?thesis
    using ev_okD(1,2,6,7) [OF ok] unfolding ev_ok_def by (auto simp: heap split: if_splits)
qed

text \<open>The two pointers between a subscriber and its notification are cut together.\<close>

definition unlink :: "ptr \<Rightarrow> ptr \<Rightarrow> event_state \<Rightarrow> event_state" where
  "unlink q p st = set_sub q ((the (subs st q))\<lparr>sb_notify := None\<rparr>) (set_notify p ((the (notifies st p))\<lparr>nt_sub := None\<rparr>) st)"

lemma ev_ok_unlink:
  assumes ok: "ev_ok st" and obj: "notifies st p = Some obj" "nt_sub obj = Some q"
  shows "ev_ok (unlink q p st)"
proof -
  obtain s where s: "subs st q = Some s" "sb_notify s = Some p" using ev_okD(6) [OF ok obj] by blast
  let ?st = "unlink q p st"
  have st: "?st = set_sub q (s\<lparr>sb_notify := None\<rparr>) (set_notify p (obj\<lparr>nt_sub := None\<rparr>) st)" by (simp add: unlink_def s obj)
  have "notify_ok st (obj\<lparr>nt_sub := None\<rparr>)" using ev_okD(8) [OF ok obj(1)] by (auto simp: notify_ok_def split: notify_state.splits)
  then have old: "notify_ok st o'" if "notifies ?st p' = Some o'" for p' o'
    using that ev_okD(8) [OF ok] by (auto simp: st heap split: if_splits)
  have "notify_ok ?st o'" if "notifies ?st p' = Some o'" for p' o'
    by (rule notify_ok_subs [OF old [OF that]]) (auto simp: st heap s)
  moreover have "\<exists>o'. notifies ?st r = Some o' \<and> nt_sub o' = Some q'" if "subs ?st q' = Some t" "sb_notify t = Some r" for q' t r
    using ev_okD(5) [OF ok, of q' t r] that s obj by (auto simp: st heap split: if_splits)
  moreover have "\<exists>t. subs ?st q' = Some t \<and> sb_notify t = Some r" if "notifies ?st r = Some o'" "nt_sub o' = Some q'" for r o' q'
    using ev_okD(6) [OF ok, of r o' q'] that s obj by (auto simp: st heap split: if_splits)
  moreover have "sub_ok t" if "subs ?st q' = Some t" for q' t
    using ev_okD(7) [OF ok] that s by (auto simp: st heap sub_ok_def split: if_splits)
  ultimately show ?thesis
    using ev_okD(1-4) [OF ok] s(1) obj(1) unfolding ev_ok_def by (auto simp: st heap)
qed

section \<open>No operation meets a freed object\<close>

lemma callback_host_rest: "callback_host m = Some (v6, a, r) \<Longrightarrow> \<exists>pre. m = pre @ r"
proof -
  have rest: "\<exists>pre. c # a @ q = pre @ (if hd q = d then tl q else q)" if "q \<noteq> []" for c d :: char and a q
    using that by (cases q) (auto intro: exI [of _ "c # a @ [d]"] exI [of _ "c # a"])
  show "callback_host m = Some (v6, a, r) \<Longrightarrow> \<exists>pre. m = pre @ r"
    using rest by (fastforce simp: callback_host_def split: list.splits if_splits dest!: copy_until_parts)
qed

lemma callback_path:
  assumes "callback_target cb = Some tg" "cb = c @ [CHR 0x00]"
  shows "CHR 0x00 \<in> set (drop (tg_path tg) cb)"
proof -
  obtain v6 a m where m: "callback_host (drop 7 cb) = Some (v6, a, m)" using assms(1) by (auto simp: callback_target_def bind_eq_Some_conv)
  then obtain pre where pre: "drop 7 cb = pre @ m" using callback_host_rest by blast
  have suffix: "CHR 0x00 \<in> set (drop (length cb - length r) cb)" if "\<exists>xs. cb = xs @ r" "r \<noteq> []" for r
  proof -
    from that(1) obtain xs where "cb = xs @ r" by blast
    moreover have "last cb = CHR 0x00" by (simp add: assms(2))
    ultimately show ?thesis using that(2) last_in_set [of r] by simp
  qed
  have "cb = (take 7 cb @ pre) @ m" using pre by (metis append_take_drop_id append.assoc)
  then have m_suffix: "\<exists>xs. cb = xs @ m" by blast
  show ?thesis
  proof (cases m)
    case Nil
    then show ?thesis using assms(1) m by (simp add: callback_target_def)
  next
    case (Cons x r)
    show ?thesis
    proof (cases "x = CHR '':''")
      case True
      then obtain d q where q: "scan_to (\<lambda>x. x = CHR 0x00 \<or> x = CHR ''/'') r = Some (d, q)" "tg_path tg = length cb - length q"
        using assms(1) m Cons by (auto simp: callback_target_def)
      have "r = d @ q" "q \<noteq> []" using scan_to_parts [OF q(1)] by auto
      moreover from this m_suffix Cons have "\<exists>xs. cb = xs @ q" by (metis append_Cons append.assoc)
      ultimately show ?thesis using suffix q(2) by simp
    next
      case False
      then show ?thesis using assms(1) m Cons suffix [OF m_suffix] by (auto simp: callback_target_def)
    qed
  qed
qed

text \<open>Where the loop that copies the host stops within the callback: an address in brackets, and a plain host only
  with a \<^verbatim>\<open>/\<close> or \<^verbatim>\<open>:\<close> behind it, or once 47 characters are copied. The zero byte behind the callback
  stops neither.\<close>

definition host_ends :: "string \<Rightarrow> bool" where
  "host_ends callback \<longleftrightarrow> 8 \<le> length callback \<and>
     (let m = drop 7 callback in
      if hd m = CHR ''['' then CHR '']'' \<in> set m \<or> 46 < length m
      else CHR ''/'' \<in> set m \<or> CHR '':'' \<in> set m \<or> 46 < length m)"

lemma copy_until_long: "n < length m \<Longrightarrow> copy_until stop n m \<noteq> None"
proof (induction m arbitrary: n)
  case (Cons x m)
  show ?case
  proof (cases n)
    case (Suc k)
    then have "copy_until stop k m \<noteq> None" using Cons by simp
    then show ?thesis using Suc by auto
  qed simp
qed simp

lemma callback_host_ends:
  assumes "8 \<le> length callback"
  shows "callback_host (drop 7 callback @ [CHR 0x00]) \<noteq> None \<longleftrightarrow> host_ends callback"
proof -
  have "drop 7 callback \<noteq> []" using assms by simp
  then obtain c r where m: "drop 7 callback = c # r" by (cases "drop 7 callback") auto
  have bracket: "copy_until (\<lambda>x. x = CHR '']'') 46 (r @ [CHR 0x00]) \<noteq> None \<longleftrightarrow> CHR '']'' \<in> set r \<or> 46 \<le> length r"
  proof
    assume some: "copy_until (\<lambda>x. x = CHR '']'') 46 (r @ [CHR 0x00]) \<noteq> None"
    show "CHR '']'' \<in> set r \<or> 46 \<le> length r"
      by (rule ccontr) (use some copy_until_None [of "r @ [CHR 0x00]" "\<lambda>x. x = CHR '']''" 46] in fastforce)
  next
    assume "CHR '']'' \<in> set r \<or> 46 \<le> length r"
    then show "copy_until (\<lambda>x. x = CHR '']'') 46 (r @ [CHR 0x00]) \<noteq> None"
      using copy_until_ex [of "CHR '']''" "r @ [CHR 0x00]" "\<lambda>x. x = CHR '']''" 46]
        copy_until_long [of 46 "r @ [CHR 0x00]" "\<lambda>x. x = CHR '']''"] by auto
  qed
  let ?stop = "\<lambda>x. x = CHR ''/'' \<or> x = CHR '':''"
  have plain: "copy_until ?stop 47 ((c # r) @ [CHR 0x00]) \<noteq> None \<longleftrightarrow>
      CHR ''/'' \<in> set (c # r) \<or> CHR '':'' \<in> set (c # r) \<or> 46 < length (c # r)"
  proof
    assume some: "copy_until ?stop 47 ((c # r) @ [CHR 0x00]) \<noteq> None"
    show "CHR ''/'' \<in> set (c # r) \<or> CHR '':'' \<in> set (c # r) \<or> 46 < length (c # r)"
    proof (rule ccontr)
      assume "\<not> ?thesis"
      then have "copy_until ?stop 47 ((c # r) @ [CHR 0x00]) = None" by (intro copy_until_None) auto
      then show False using some by blast
    qed
  next
    assume "CHR ''/'' \<in> set (c # r) \<or> CHR '':'' \<in> set (c # r) \<or> 46 < length (c # r)"
    then show "copy_until ?stop 47 ((c # r) @ [CHR 0x00]) \<noteq> None"
      using copy_until_ex [of "CHR ''/''" "(c # r) @ [CHR 0x00]" ?stop 47] copy_until_ex [of "CHR '':''" "(c # r) @ [CHR 0x00]" ?stop 47]
        copy_until_long [of 47 "(c # r) @ [CHR 0x00]" ?stop] by auto
  qed
  show ?thesis
    using bracket plain assms by (auto simp: callback_host_def host_ends_def m simp del: copy_until.simps)
qed

lemma callback_host_more:
  assumes "callback_host (m0 @ [CHR 0x00]) = Some (v6, a, m)"
  shows "m \<noteq> []"
proof -
  obtain c r where m0: "m0 @ [CHR 0x00] = c # r" by (cases "m0 @ [CHR 0x00]") auto
  then have last: "last (c # r) = CHR 0x00" by (metis last_snoc)
  show ?thesis
  proof (cases "c = CHR ''[''")
    case True
    then obtain b q where q: "copy_until (\<lambda>x. x = CHR '']'') 46 r = Some (b, q)" "m = (if hd q = CHR '']'' then tl q else q)"
      using assms unfolding m0 by (auto simp: callback_host_def)
    have parts: "r = b @ q" "q \<noteq> []" using copy_until_parts [OF q(1)] by auto
    then have "last q = CHR 0x00" using last by simp
    then show ?thesis using q(2) parts(2) by (cases q) auto
  next
    case False
    then obtain q where "copy_until (\<lambda>x. x = CHR ''/'' \<or> x = CHR '':'') 47 (c # r) = Some (a, q)" "m = q"
      using assms unfolding m0 by (auto simp: callback_host_def simp del: copy_until.simps)
    then show ?thesis using copy_until_parts by blast
  qed
qed

lemma callback_target_ends: "callback_target (callback @ [CHR 0x00]) \<noteq> None \<longleftrightarrow> host_ends callback"
proof (cases "8 \<le> length callback")
  case False
  then have "drop 7 (callback @ [CHR 0x00]) = [CHR 0x00] \<or> drop 7 (callback @ [CHR 0x00]) = []"
    by (cases "length callback = 7") auto
  then have "callback_host (drop 7 (callback @ [CHR 0x00])) = None" by (auto simp: callback_host_def)
  then show ?thesis using False by (simp add: callback_target_def host_ends_def)
next
  case True
  have drop: "drop 7 (callback @ [CHR 0x00]) = drop 7 callback @ [CHR 0x00]" using True by simp
  have "callback_target (callback @ [CHR 0x00]) \<noteq> None" if host: "callback_host (drop 7 callback @ [CHR 0x00]) = Some (v6, a, m)" for v6 a m
  proof -
    obtain pre where pre: "drop 7 callback @ [CHR 0x00] = pre @ m" using callback_host_rest [OF host] by blast
    have "m \<noteq> []" using callback_host_more [OF host] by simp
    then obtain c r where m: "m = c # r" by (cases m) auto
    have "CHR 0x00 \<in> set m" using pre \<open>m \<noteq> []\<close> by (metis last_appendR last_in_set last_snoc)
    then show ?thesis using scan_to_ex [of "CHR 0x00" r "\<lambda>x. x = CHR 0x00 \<or> x = CHR ''/''"]
      unfolding callback_target_def drop host m by auto
  qed
  moreover have "callback_target (callback @ [CHR 0x00]) = None" if "callback_host (drop 7 callback @ [CHR 0x00]) = None"
    unfolding callback_target_def drop that by simp
  ultimately show ?thesis
    using callback_host_ends [OF True] by (cases "callback_host (drop 7 callback @ [CHR 0x00])") auto
qed

lemma callback_length: "callback_target cb \<noteq> None \<Longrightarrow> 8 \<le> length cb"
  by (rule ccontr) (simp add: callback_target_def callback_host_def)

lemma create_notify_ok:
  assumes ok: "ev_ok st" and s: "subs st q = Some s" "sb_notify s = None" and fresh: "\<And>p. ce_mem e = Some p \<Longrightarrow> notifies st p = None"
  shows "\<exists>st'. upnp_event_create_notify e q st = Some st' \<and> ev_ok st'
    \<and> (\<forall>p. notifies st' p = notifies st p \<or> (ce_mem e = Some p \<and> (\<exists>obj. notifies st' p = Some obj \<and> nt_state obj = ECreated)))
    \<and> dom (subs st') = dom (subs st) \<and> (\<forall>q'. q' \<noteq> q \<longrightarrow> subs st' q' = subs st q')"
proof (cases "\<exists>p. ce_mem e = Some p \<and> 0 \<le> ce_socket e \<and> ce_nonblocking e")
  case False
  moreover have "8 \<le> length (sb_callback s)"
    using callback_length ev_okD(7) [OF ok s(1)] by (simp add: sub_ok_def)
  ultimately show ?thesis using ok s by (auto simp: upnp_event_create_notify_def split: option.splits)
next
  case True
  then obtain p where p: "ce_mem e = Some p" "0 \<le> ce_socket e" "ce_nonblocking e" by blast
  have len: "8 \<le> length (sb_callback s)"
    using callback_length ev_okD(7) [OF ok s(1)] by (simp add: sub_ok_def)
  let ?obj = "\<lparr>nt_s = ce_socket e, nt_state = ECreated, nt_sub = Some q, nt_buffer = None,
      nt_buffersize = 0, nt_tosend = 0, nt_sent = 0, nt_path = None, nt_ipv6 = False, nt_addrstr = [], nt_portstr = []\<rparr>"
  let ?st = "(set_notify p ?obj (set_sub q (s\<lparr>sb_notify := Some p\<rparr>) st))\<lparr>notifylist := p # notifylist st\<rparr>"
  have new: "notifies st p = None" using fresh p by blast
  have run: "upnp_event_create_notify e q st = Some ?st" using p s len by (simp add: upnp_event_create_notify_def)
  have "notify_ok ?st o'" if "notifies ?st p' = Some o'" for p' o'
  proof (cases "p' = p")
    case True
    then have "o' = ?obj" using that by (simp add: heap)
    then show ?thesis using p(2) by (simp add: notify_ok_def)
  next
    case False
    then have "notify_ok st o'" using that ev_okD(8) [OF ok] by (simp add: heap)
    then show ?thesis by (rule notify_ok_subs) (auto simp: heap s)
  qed
  moreover have "\<exists>o'. notifies ?st r = Some o' \<and> nt_sub o' = Some q'" if "subs ?st q' = Some t" "sb_notify t = Some r" for q' t r
    using ev_okD(5) [OF ok, of q' t r] that s new by (auto simp: heap split: if_splits)
  moreover have "\<exists>t. subs ?st q' = Some t \<and> sb_notify t = Some r" if "notifies ?st r = Some o'" "nt_sub o' = Some q'" for r o' q'
    using ev_okD(6) [OF ok, of r o' q'] that s new by (auto simp: heap split: if_splits)
  moreover have "sub_ok t" if "subs ?st q' = Some t" for q' t
    using ev_okD(7) [OF ok] that s by (auto simp: heap sub_ok_def split: if_splits)
  moreover have "p \<notin> set (notifylist st)" using ev_okD(4) [OF ok] new by auto
  ultimately have "ev_ok ?st"
    using ev_okD(1-4) [OF ok] s new unfolding ev_ok_def by (auto simp: heap)
  then show ?thesis using run p s by (auto simp: heap)
qed

definition calm :: "event_state \<Rightarrow> bool" where
  "calm st \<longleftrightarrow> (\<forall>p obj. notifies st p = Some obj \<longrightarrow> nt_state obj \<noteq> EFinished)"

lemma add_subscriber_ok:
  assumes ok: "ev_ok st" and calm: "calm st" and fresh: "\<And>q. mem = Some q \<Longrightarrow> subs st q = None"
    "\<And>p. ce_mem e = Some p \<Longrightarrow> notifies st p = None" and cb: "host_ends callback"
    and uuid: "CHR 0x00 \<in> set (make_uuid igd src)"
  shows "\<exists>r st'. upnpevents_addSubscriber igd src mem e now eventurl callback timeout st = Some (r, st') \<and> ev_ok st' \<and> calm st'"
proof (cases "\<exists>q s. mem = Some q \<and> newSubscriber igd src eventurl callback = Some s")
  case False
  then show ?thesis using ok calm by (auto simp: upnpevents_addSubscriber_def split: option.splits)
next
  case True
  then obtain q s0 where q: "mem = Some q" "newSubscriber igd src eventurl callback = Some s0" by blast
  let ?s = "if timeout \<noteq> 0 then s0\<lparr>sb_timeout := now + timeout\<rparr> else s0"
  let ?st = "(set_sub q ?s st)\<lparr>subscriberlist := q # subscriberlist st\<rparr>"
  have s: "sb_callback ?s = callback @ [CHR 0x00]" "sb_notify ?s = None" "sb_uuid ?s = make_uuid igd src"
    using q(2) by (auto simp: newSubscriber_def split: if_splits option.splits)
  have new: "subs st q = None" using fresh(1) q(1) by blast
  have away: "nt_sub o' \<noteq> Some q" if "notifies st r = Some o'" for r o' using ev_okD(6) [OF ok that] new by fastforce
  have "notify_ok ?st o'" if "notifies ?st p' = Some o'" for p' o'
  proof -
    have o': "notifies st p' = Some o'" using that by (simp add: heap)
    show ?thesis by (rule notify_ok_subs [OF ev_okD(8) [OF ok o']]) (use away [OF o'] in \<open>auto simp: heap\<close>)
  qed
  moreover have "sub_ok ?s" using s callback_target_ends [of callback] cb uuid unfolding sub_ok_def by simp
  moreover have "q \<notin> set (subscriberlist st)" using ev_okD(2) [OF ok] new by auto
  moreover have "\<exists>t. subs ?st q' = Some t \<and> sb_notify t = Some r" if "notifies ?st r = Some o'" "nt_sub o' = Some q'" for r o' q'
    using ev_okD(6) [OF ok, of r o' q'] away [of r o'] that by (auto simp: heap)
  moreover have "\<exists>o'. notifies ?st r = Some o' \<and> nt_sub o' = Some q'" if "subs ?st q' = Some t" "sb_notify t = Some r" for q' t r
    using ev_okD(5) [OF ok, of q' t r] that s(2) by (auto simp: heap split: if_splits)
  ultimately have ok1: "ev_ok ?st"
    using ev_okD(1-4,7) [OF ok] unfolding ev_ok_def by (auto simp: heap)
  have "\<exists>st'. upnp_event_create_notify e q ?st = Some st' \<and> ev_ok st' \<and>
      (\<forall>p. notifies st' p = notifies ?st p \<or> (ce_mem e = Some p \<and> (\<exists>obj. notifies st' p = Some obj \<and> nt_state obj = ECreated)))
      \<and> dom (subs st') = dom (subs ?st) \<and> (\<forall>q'. q' \<noteq> q \<longrightarrow> subs st' q' = subs ?st q')"
    by (rule create_notify_ok [OF ok1 _ s(2)]) (use fresh(2) in \<open>simp_all add: heap\<close>)
  then obtain st' where st': "upnp_event_create_notify e q ?st = Some st'" "ev_ok st'"
    "\<And>p. notifies st' p = notifies ?st p \<or> (\<exists>obj. notifies st' p = Some obj \<and> nt_state obj = ECreated)" by blast
  have "calm st'" unfolding calm_def
  proof (intro allI impI)
    fix p obj assume "notifies st' p = Some obj"
    then show "nt_state obj \<noteq> EFinished" using st'(3) [of p] calm by (auto simp: calm_def heap)
  qed
  then show ?thesis using q st'(1,2) unfolding upnpevents_addSubscriber_def Let_def by auto
qed

lemma renew_ok:
  assumes "ev_ok st" and "set qs \<subseteq> dom (subs st)"
  shows "\<exists>r st'. renew_loop strict now sid timeout qs st = Some (r, st') \<and> ev_ok st' \<and> notifies st' = notifies st"
  using assms
proof (induction qs)
  case (Cons q qs)
  then obtain s where s: "subs st q = Some s" by auto
  then show ?case
    using Cons ev_ok_set_sub [OF Cons.prems(1) s, of "s\<lparr>sb_timeout := if timeout \<noteq> 0 then now + timeout else 0\<rparr>"]
    by (auto simp: heap)
qed simp

lemma free_sub_frame: "notifies (free_sub q st) = notifies st" by (simp add: heap)

lemma remove_subscriber_ok:
  assumes ok: "ev_ok st" and s: "subs st q = Some s"
  shows "\<exists>st'. remove_subscriber q s st = Some st' \<and> ev_ok st' \<and> (calm st \<longrightarrow> calm st')"
proof (cases "sb_notify s")
  case None
  then show ?thesis using ev_ok_free_sub [OF ok s None] by (auto simp: remove_subscriber_def calm_def free_sub_frame)
next
  case (Some p)
  obtain obj where obj: "notifies st p = Some obj" "nt_sub obj = Some q" using ev_okD(5) [OF ok s Some] by blast
  have "ev_ok (free_sub q (unlink q p st))"
    by (rule ev_ok_free_sub [OF ev_ok_unlink [OF ok obj], where s = "s\<lparr>sb_notify := None\<rparr>"]) (simp_all add: unlink_def heap s)
  moreover have "free_sub q (unlink q p st) = free_sub q (set_notify p (obj\<lparr>nt_sub := None\<rparr>) st)"
    by (simp add: unlink_def heap obj)
  moreover have "remove_subscriber q s st = Some (free_sub q (set_notify p (obj\<lparr>nt_sub := None\<rparr>) st))"
    by (simp add: remove_subscriber_def Some obj)
  moreover have "calm st \<longrightarrow> calm (free_sub q (set_notify p (obj\<lparr>nt_sub := None\<rparr>) st))"
    using obj(1) by (auto simp: calm_def heap)
  ultimately show ?thesis by auto
qed

lemma remove_ok:
  assumes "ev_ok st" and "set qs \<subseteq> dom (subs st)"
  shows "\<exists>r st'. remove_loop sid qs st = Some (r, st') \<and> ev_ok st' \<and> (calm st \<longrightarrow> calm st')"
  using assms
proof (induction qs)
  case (Cons q qs)
  then obtain s where s: "subs st q = Some s" by auto
  then show ?case using Cons remove_subscriber_ok [OF Cons.prems(1) s] by auto
qed simp

text \<open>The blocks \<^verbatim>\<open>calloc\<close> gives to the notifications of a loop are new, and different ones.\<close>

definition fresh_blocks :: "(ptr \<Rightarrow> create_env) \<Rightarrow> event_state \<Rightarrow> bool" where
  "fresh_blocks e st \<longleftrightarrow> (\<forall>q p. ce_mem (e q) = Some p \<longrightarrow> notifies st p = None \<and> (\<forall>q'. ce_mem (e q') = Some p \<longrightarrow> q' = q))"

lemma var_change_ok:
  assumes "ev_ok st" and "calm st" and "set qs \<subseteq> dom (subs st)" and "distinct qs"
    and "\<And>q p. q \<in> set qs \<Longrightarrow> ce_mem (e q) = Some p \<Longrightarrow> notifies st p = None"
    and "\<And>q q' p. ce_mem (e q) = Some p \<Longrightarrow> ce_mem (e q') = Some p \<Longrightarrow> q' = q"
  shows "\<exists>st'. var_change_loop e service qs st = Some st' \<and> ev_ok st' \<and> calm st'"
  using assms(1-5)
proof (induction qs arbitrary: st)
  case (Cons q qs)
  then obtain s where s: "subs st q = Some s" by auto
  show ?case
  proof (cases "sb_service s = service \<and> sb_notify s = None")
    case False
    then show ?thesis using Cons s by auto
  next
    case True
    obtain st1 where st1: "upnp_event_create_notify (e q) q st = Some st1" "ev_ok st1" "dom (subs st1) = dom (subs st)"
      and obj: "\<And>p. notifies st1 p = notifies st p
        \<or> (ce_mem (e q) = Some p \<and> (\<exists>obj. notifies st1 p = Some obj \<and> nt_state obj = ECreated))"
      using create_notify_ok [OF Cons.prems(1) s, of "e q"] True Cons.prems(5) [of q] by auto
    have "calm st1" unfolding calm_def
    proof (intro allI impI)
      fix p o1 assume "notifies st1 p = Some o1"
      then show "nt_state o1 \<noteq> EFinished" using obj [of p] Cons.prems(2) by (auto simp: calm_def)
    qed
    moreover have "notifies st1 p = None" if "q' \<in> set qs" "ce_mem (e q') = Some p" for q' p
    proof -
      have "q' \<noteq> q" using that(1) Cons.prems(4) by auto
      then have "ce_mem (e q) \<noteq> Some p" using assms(6) that(2) by blast
      then show ?thesis using obj [of p] Cons.prems(5) [of q' p] that by simp
    qed
    ultimately have "\<exists>st'. var_change_loop e service qs st1 = Some st' \<and> ev_ok st' \<and> calm st'"
      using Cons.IH [OF st1(2)] Cons.prems(3,4) st1(3) by auto
    then show ?thesis using True s st1(1) by auto
  qed
qed simp

text \<open>A step for one notification leaves the others and the lists alone.\<close>

definition only_notify :: "ptr \<Rightarrow> event_state \<Rightarrow> event_state \<Rightarrow> bool" where
  "only_notify p st st' \<longleftrightarrow> (\<forall>r. r \<noteq> p \<longrightarrow> notifies st' r = notifies st r) \<and> notifylist st' = notifylist st
     \<and> subscriberlist st' = subscriberlist st \<and> (notifies st' p = None \<longleftrightarrow> notifies st p = None)"

lemma only_notify_set: "notifies st p \<noteq> None \<Longrightarrow> only_notify p st (set_notify p obj st)"
  by (simp add: only_notify_def heap)

lemma only_notify_sub: "only_notify p st st' \<Longrightarrow> only_notify p st (set_sub q s st')"
  by (simp add: only_notify_def heap)

lemma only_notify_trans: "only_notify p st st1 \<Longrightarrow> only_notify p st1 st2 \<Longrightarrow> only_notify p st st2"
  by (simp add: only_notify_def)

definition env_ok :: "notify_env \<Rightarrow> bool" where
  "env_ok e \<longleftrightarrow> (\<forall>m n. ne_send e m = Sent n \<longrightarrow> n \<le> length m)"

lemma connect_ok:
  assumes ok: "ev_ok st" and obj: "notifies st p = Some obj" "nt_sent obj = 0"
  shows "\<exists>st'. upnp_event_notify_connect e p st = Some st' \<and> ev_ok st' \<and> only_notify p st st'
    \<and> (\<exists>obj'. notifies st' p = Some obj' \<and> nt_state obj' \<in> {EConnecting, EError})"
proof (cases "nt_sub obj")
  case None
  have "ev_ok (set_notify p (obj\<lparr>nt_state := EError\<rparr>) st)"
    using ev_okD(8) [OF ok obj(1)] by (intro ev_ok_set_notify [OF ok obj(1)]) (auto simp: notify_ok_def)
  then show ?thesis using None obj(1) only_notify_set [of st p] by (auto simp: upnp_event_notify_connect_def heap)
next
  case (Some q)
  obtain s where s: "subs st q = Some s" using ev_okD(6) [OF ok obj(1) Some] by blast
  obtain tg where tg: "callback_target (sb_callback s) = Some tg" using ev_okD(7) [OF ok s] by (auto simp: sub_ok_def)
  let ?obj = "obj\<lparr>nt_state := (if ne_connect e (notify_sockaddr tg) = Connect_failed then EError else EConnecting),
      nt_path := Some (q, tg_path tg), nt_ipv6 := tg_ipv6 tg, nt_addrstr := tg_addrstr tg, nt_portstr := tg_portstr tg\<rparr>"
  have run: "upnp_event_notify_connect e p st = Some (set_notify p ?obj st)"
    by (simp add: upnp_event_notify_connect_def obj(1) Some s tg)
  have "notify_ok st ?obj" using ev_okD(8) [OF ok obj(1)] Some s tg obj(2) by (simp add: notify_ok_def)
  then have "ev_ok (set_notify p ?obj st)" by (intro ev_ok_set_notify [OF ok obj(1)]) simp_all
  then show ?thesis using run obj(1) only_notify_set [of st p ?obj] by (auto simp: heap)
qed

lemma prepare_ok:
  assumes ok: "ev_ok st" and obj: "notifies st p = Some obj" "nt_state obj = EConnecting" and vars: "\<And>s. ec_vars cf s \<noteq> None"
  shows "\<exists>st'. upnp_event_prepare cf e p st = Some st' \<and> ev_ok st' \<and> only_notify p st st'
    \<and> (\<exists>obj'. notifies st' p = Some obj' \<and> nt_state obj' \<in> {ESending, EError})"
proof (cases "nt_sub obj")
  case None
  have "ev_ok (set_notify p (obj\<lparr>nt_state := EError\<rparr>) st)"
    using ev_okD(8) [OF ok obj(1)] by (intro ev_ok_set_notify [OF ok obj(1)]) (auto simp: notify_ok_def)
  then show ?thesis using None obj(1) only_notify_set [of st p] by (auto simp: upnp_event_prepare_def heap)
next
  case (Some q)
  have sent: "nt_sent obj = 0" "0 \<le> nt_s obj" using ev_okD(8) [OF ok obj(1)] obj(2) by (simp_all add: notify_ok_def)
  obtain s tg where s: "subs st q = Some s" "callback_target (sb_callback s) = Some tg" "nt_path obj = Some (q, tg_path tg)"
    using ev_okD(8) [OF ok obj(1)] obj(2) Some by (auto simp: notify_ok_def)
  have good: "sub_ok s" by (rule ev_okD(7) [OF ok s(1)])
  then obtain c where "sb_callback s = c @ [CHR 0x00]" by (auto simp: sub_ok_def)
  then obtain path where path: "text_at (drop (tg_path tg) (sb_callback s)) = Some path"
    using text_at_ex [OF callback_path [OF s(2)]] by blast
  obtain uuid where uuid: "text_at (sb_uuid s) = Some uuid" using good text_at_ex by (auto simp: sub_ok_def)
  obtain xml where xml: "ec_vars cf (sb_service s) = Some xml" using vars by blast
  let ?msg = "notifymsg (ec_uda10 cf) path (nt_addrstr obj) (nt_portstr obj) uuid (sb_seq s) xml"
  obtain obj' where run: "upnp_event_prepare cf e p st = Some (set_notify p obj' st)"
    and new: "nt_sub obj' = nt_sub obj" "notify_ok st obj'" "nt_state obj' \<in> {ESending, EError}"
  proof (cases "buffer_loop (ne_malloc e) ?msg 1024")
    case None
    show thesis
      by (rule that [of "obj\<lparr>nt_buffer := None, nt_state := EError\<rparr>"])
        (use sent in \<open>simp_all add: upnp_event_prepare_def obj(1) Some s xml path uuid None notify_ok_def\<close>)
  next
    case (Some n)
    show thesis
      by (rule that [of "obj\<lparr>nt_buffer := Some ?msg, nt_buffersize := n, nt_tosend := length ?msg, nt_state := ESending\<rparr>"])
        (use sent in \<open>simp_all add: upnp_event_prepare_def obj(1) \<open>nt_sub obj = Some q\<close> s xml path uuid Some notify_ok_def Let_def\<close>)
  qed
  show ?thesis
    using run new ev_ok_set_notify [OF ok obj(1) new(1,2)] only_notify_set [of st p] obj(1) by (auto simp: heap)
qed

lemma send_ok:
  assumes ok: "ev_ok st" and obj: "notifies st p = Some obj" "nt_state obj = ESending" and env: "env_ok e"
  shows "\<exists>st'. upnp_event_send e p st = Some st' \<and> ev_ok st' \<and> only_notify p st st'"
proof -
  obtain m where m: "nt_buffer obj = Some m" "nt_tosend obj = length m" "nt_sent obj \<le> length m" "0 \<le> nt_s obj"
    using ev_okD(8) [OF ok obj(1)] obj(2) by (auto simp: notify_ok_def)
  let ?obj = "fst (event_send (ne_send e) m obj)"
  have "i \<le> length m - nt_sent obj" if "ne_send e (drop (nt_sent obj) m) = Sent i" for i
    using env that unfolding env_ok_def by fastforce
  then have "nt_sub ?obj = nt_sub obj" "notify_ok st ?obj"
    using m obj(2) by (fastforce simp: event_send_def notify_ok_def Let_def split: send_result.splits)+
  from ev_ok_set_notify [OF ok obj(1) this] show ?thesis
    using obj(1) m(1) only_notify_set [of st p] by (auto simp: upnp_event_send_def)
qed

lemma recv_ok:
  assumes ok: "ev_ok st" and obj: "notifies st p = Some obj" "nt_state obj = EWaitingForResponse"
  shows "\<exists>st'. upnp_event_recv e p st = Some st' \<and> ev_ok st' \<and> only_notify p st st'"
proof -
  obtain m where m: "nt_buffer obj = Some m" "0 \<le> nt_s obj"
    using ev_okD(8) [OF ok obj(1)] obj(2) by (auto simp: notify_ok_def)
  have new: "ev_ok (set_notify p (obj\<lparr>nt_state := x\<rparr>) st)" if "x \<in> {EError, EFinished}" for x
    using that m(2) by (intro ev_ok_set_notify [OF ok obj(1)]) (auto simp: notify_ok_def)
  have frame: "only_notify p st (set_notify p x st)" for x using obj(1) by (intro only_notify_set) simp
  show ?thesis
  proof (cases "ne_recv e")
    case (Received d)
    let ?st = "set_notify p (obj\<lparr>nt_state := EFinished\<rparr>) st"
    show ?thesis
    proof (cases "nt_sub obj")
      case None
      then show ?thesis using Received obj(1) m(1) new frame by (auto simp: upnp_event_recv_def)
    next
      case (Some q)
      obtain s where s: "subs st q = Some s" using ev_okD(6) [OF ok obj(1) Some] by blast
      then have "ev_ok (set_sub q (s\<lparr>sb_seq := sb_seq s + 1\<rparr>) ?st)"
        by (intro ev_ok_set_sub [OF new]) (simp_all add: heap)
      moreover have "upnp_event_recv e p st = Some (set_sub q (s\<lparr>sb_seq := sb_seq s + 1\<rparr>) ?st)"
        using Received Some obj(1) m(1) s by (simp add: upnp_event_recv_def Let_def heap)
      ultimately show ?thesis using only_notify_sub [OF frame] by blast
    qed
  next
    case Recv_again
    then show ?thesis using obj(1) m(1) ok by (auto simp: upnp_event_recv_def only_notify_def)
  next
    case Recv_error
    then show ?thesis using obj(1) m(1) new frame by (auto simp: upnp_event_recv_def)
  qed
qed

lemma process_notify_ok:
  assumes ok: "ev_ok st" and obj: "notifies st p = Some obj" "nt_state obj \<noteq> EFinished" and env: "env_ok e"
    and vars: "\<And>s. ec_vars cf s \<noteq> None"
  shows "\<exists>st'. upnp_event_process_notify cf e p st = Some st' \<and> ev_ok st' \<and> only_notify p st st'"
proof (cases "nt_state obj")
  case EConnecting
  show ?thesis
  proof (cases "ne_sockerr e = Some 0")
    case False
    have "ev_ok (set_notify p (obj\<lparr>nt_state := EError\<rparr>) st)"
      using ev_okD(8) [OF ok obj(1)] by (intro ev_ok_set_notify [OF ok obj(1)]) (auto simp: notify_ok_def)
    then show ?thesis using False EConnecting obj(1) only_notify_set [of st p] by (auto simp: upnp_event_process_notify_def)
  next
    case True
    obtain st1 obj1 where st1: "upnp_event_prepare cf e p st = Some st1" "ev_ok st1" "only_notify p st st1"
      and obj1: "notifies st1 p = Some obj1" "nt_state obj1 \<in> {ESending, EError}"
      using prepare_ok [OF ok obj(1) EConnecting vars] by blast
    show ?thesis
    proof (cases "nt_state obj1 = ESending")
      case sending: True
      show ?thesis using send_ok [OF st1(2) obj1(1) sending env] st1 obj1(1) sending EConnecting True obj(1)
        only_notify_trans [OF st1(3)] by (auto simp: upnp_event_process_notify_def)
    qed (use st1 obj1(1) EConnecting True obj(1) in \<open>auto simp: upnp_event_process_notify_def\<close>)
  qed
next
  case ESending
  then show ?thesis using send_ok [OF ok obj(1) ESending env] obj(1) by (auto simp: upnp_event_process_notify_def)
next
  case EWaitingForResponse
  then show ?thesis using recv_ok [OF ok obj(1)] obj(1) by (auto simp: upnp_event_process_notify_def)
qed (use ok obj in \<open>auto simp: upnp_event_process_notify_def only_notify_def\<close>)

text \<open>The loops of the main loop.\<close>

lemma watch_simps [simp]: "fd_read (watch_write s f) = fd_read f" by (simp add: watch_write_def)

definition startable :: "upnp_event_notify \<Rightarrow> bool" where
  "startable obj \<longleftrightarrow> nt_state obj = ECreated \<longrightarrow> nt_sent obj = 0"

lemma select_ok:
  assumes "ev_ok st" and "calm st" and "set ps \<subseteq> dom (notifies st)" and "distinct ps"
  shows "\<exists>fds' st'. select_loop e ps fds st = Some (fds', st') \<and> ev_ok st' \<and> calm st'"
  using assms
proof (induction ps arbitrary: fds st)
  case (Cons p ps)
  then obtain obj where obj: "notifies st p = Some obj" by auto
  have later: "\<exists>fds' st'. select_loop e ps f st = Some (fds', st') \<and> ev_ok st' \<and> calm st'" for f
    using Cons by simp
  show ?case
  proof (cases "nt_s obj < 0 \<or> nt_state obj \<noteq> ECreated")
    case True
    then show ?thesis using later obj by (cases "nt_state obj") auto
  next
    case False
    then have "nt_sent obj = 0" using ev_okD(8) [OF Cons.prems(1) obj] by (simp add: notify_ok_def)
    then obtain st1 obj1 where st1: "upnp_event_notify_connect (e p) p st = Some st1" "ev_ok st1" "only_notify p st st1"
      and obj1: "notifies st1 p = Some obj1" "nt_state obj1 \<in> {EConnecting, EError}"
      using connect_ok [OF Cons.prems(1) obj] by blast
    have "calm st1" using st1(3) obj1 Cons.prems(2) unfolding calm_def only_notify_def by (metis insertE notify_state.distinct option.inject singletonD)
    moreover have "set ps \<subseteq> dom (notifies st1)"
      using Cons.prems(3,4) st1(3) by (fastforce simp: only_notify_def)
    ultimately show ?thesis using Cons.IH [OF st1(2)] Cons.prems(4) False obj st1(1) obj1(1) by auto
  qed
qed simp

lemma process_ok:
  assumes "ev_ok st" and "set ps \<subseteq> dom (notifies st)" and "distinct ps"
    and "\<And>p obj. p \<in> set ps \<Longrightarrow> notifies st p = Some obj \<Longrightarrow> nt_state obj \<noteq> EFinished"
    and "\<And>p. env_ok (e p)" and "\<And>s. ec_vars cf s \<noteq> None"
  shows "\<exists>st'. process_loop cf e rd wr ps st = Some st' \<and> ev_ok st' \<and> notifylist st' = notifylist st"
  using assms(1-4)
proof (induction ps arbitrary: st)
  case (Cons p ps)
  then obtain obj where obj: "notifies st p = Some obj" by auto
  have s: "0 \<le> nt_s obj" using ev_okD(8) [OF Cons.prems(1) obj] by (simp add: notify_ok_def)
  show ?case
  proof (cases "nt_s obj \<in> set rd \<or> nt_s obj \<in> set wr")
    case False
    then show ?thesis using Cons s obj by auto
  next
    case True
    obtain st1 where st1: "upnp_event_process_notify cf (e p) p st = Some st1" "ev_ok st1" "only_notify p st st1"
      using process_notify_ok [OF Cons.prems(1) obj _ assms(5) assms(6), of p] Cons.prems(4) [of p obj] obj by auto
    have "notifies st1 r = notifies st r" if "r \<in> set ps" for r
      using st1(3) that Cons.prems(3) by (auto simp: only_notify_def)
    then have "\<exists>st'. process_loop cf e rd wr ps st1 = Some st' \<and> ev_ok st' \<and> notifylist st' = notifylist st1"
      using Cons.prems(2-4) by (intro Cons.IH [OF st1(2)]) fastforce+
    then show ?thesis using True s obj st1(1,3) by (auto simp: only_notify_def)
  qed
qed simp

text \<open>A notification that has ended is freed, with its subscriber if it failed.\<close>

lemma drop_notify_ok:
  assumes ok: "ev_ok st" and obj: "notifies st p = Some obj"
  shows "\<exists>st'. drop_notify p obj st = Some st' \<and> ev_ok st' \<and> notifies st' = (notifies st)(p := None)
    \<and> subs st' = (case nt_sub obj of None \<Rightarrow> subs st
        | Some q \<Rightarrow> if nt_state obj = EError then (subs st)(q := None)
          else (subs st)(q := map_option (\<lambda>s. s\<lparr>sb_notify := None\<rparr>) (subs st q)))"
proof (cases "nt_sub obj")
  case None
  then show ?thesis using ev_ok_free_notify [OF ok obj None] by (auto simp: drop_notify_def heap)
next
  case (Some q)
  obtain s where s: "subs st q = Some s" using ev_okD(6) [OF ok obj Some] by blast
  let ?st = "unlink q p st"
  have st: "?st = set_sub q (s\<lparr>sb_notify := None\<rparr>) (set_notify p (obj\<lparr>nt_sub := None\<rparr>) st)" by (simp add: unlink_def s obj)
  have ok1: "ev_ok ?st" by (rule ev_ok_unlink [OF ok obj Some])
  have ok2: "ev_ok (free_notify p ?st)" by (rule ev_ok_free_notify [OF ok1, where obj = "obj\<lparr>nt_sub := None\<rparr>"]) (simp_all add: st heap)
  have ok3: "ev_ok (free_sub q (free_notify p ?st))"
    by (rule ev_ok_free_sub [OF ok2, where s = "s\<lparr>sb_notify := None\<rparr>"]) (simp_all add: st heap)
  have "drop_notify p obj st = Some (if nt_state obj = EError then free_sub q (free_notify p ?st) else free_notify p ?st)"
    by (simp add: drop_notify_def Some s st heap)
  then show ?thesis using ok2 ok3 Some s by (auto simp: st heap)
qed

text \<open>What is left of a subscriber when the notifications in \<open>ps\<close> that have ended are gone.\<close>

definition after_end :: "ptr list \<Rightarrow> event_state \<Rightarrow> subscriber \<Rightarrow> subscriber option" where
  "after_end ps st s =
     (case sb_notify s of None \<Rightarrow> Some s
      | Some p \<Rightarrow>
        (if p \<notin> set ps then Some s
         else (case map_option nt_state (notifies st p) of
             Some EError \<Rightarrow> None
           | Some EFinished \<Rightarrow> Some (s\<lparr>sb_notify := None\<rparr>)
           | _ \<Rightarrow> Some s)))"

definition ended :: "upnp_event_notify \<Rightarrow> bool" where
  "ended obj \<longleftrightarrow> nt_state obj = EError \<or> nt_state obj = EFinished"

lemma finish_ok:
  assumes "ev_ok st" and "set ps \<subseteq> dom (notifies st)" and "distinct ps"
  shows "\<exists>st'. finish_loop ps st = Some st' \<and> ev_ok st'
    \<and> (\<forall>r. notifies st' r = (case notifies st r of Some obj \<Rightarrow> if r \<in> set ps \<and> ended obj then None else Some obj | None \<Rightarrow> None))
    \<and> (\<forall>q. subs st' q = Option.bind (subs st q) (after_end ps st))"
  using assms
proof (induction ps arbitrary: st)
  case Nil
  have "after_end [] st = Some" by (auto simp: after_end_def split: option.splits)
  then show ?case using Nil by (auto split: option.splits bind_splits)
next
  case (Cons p ps)
  then obtain obj where obj: "notifies st p = Some obj" by auto
  have notified: "nt_sub o' = Some q" if "subs st q = Some s" "sb_notify s = Some r" "notifies st r = Some o'" for q s r o'
    using ev_okD(5) [OF Cons.prems(1) that(1,2)] that(3) by auto
  show ?case
  proof (cases "ended obj")
    case False
    obtain st' where st': "finish_loop ps st = Some st'" "ev_ok st'"
      "\<And>r. notifies st' r = (case notifies st r of Some obj \<Rightarrow> if r \<in> set ps \<and> ended obj then None else Some obj | None \<Rightarrow> None)"
      "\<And>q. subs st' q = Option.bind (subs st q) (after_end ps st)"
      using Cons by fastforce
    have "after_end (p # ps) st s = after_end ps st s" for s
      using False obj by (auto simp: after_end_def ended_def split: option.splits notify_state.splits)
    then show ?thesis using False obj st' by (auto simp: ended_def split: option.splits)
  next
    case True
    obtain st1 where st1: "drop_notify p obj st = Some st1" "ev_ok st1" "notifies st1 = (notifies st)(p := None)"
      "subs st1 = (case nt_sub obj of None \<Rightarrow> subs st
        | Some q \<Rightarrow> if nt_state obj = EError then (subs st)(q := None)
          else (subs st)(q := map_option (\<lambda>s. s\<lparr>sb_notify := None\<rparr>) (subs st q)))"
      using drop_notify_ok [OF Cons.prems(1) obj] by blast
    have "set ps \<subseteq> dom (notifies st1)" using Cons.prems(2,3) st1(3) by auto
    then obtain st' where st': "finish_loop ps st1 = Some st'" "ev_ok st'"
      "\<And>r. notifies st' r = (case notifies st1 r of Some obj \<Rightarrow> if r \<in> set ps \<and> ended obj then None else Some obj | None \<Rightarrow> None)"
      "\<And>q. subs st' q = Option.bind (subs st1 q) (after_end ps st1)"
      using Cons.IH [OF st1(2)] Cons.prems(3) by fastforce
    have "notifies st' r = (case notifies st r of Some obj \<Rightarrow> if r \<in> set (p # ps) \<and> ended obj then None else Some obj | None \<Rightarrow> None)" for r
      using st'(3) [of r] st1(3) obj True by (auto split: option.splits)
    moreover have "subs st' q = Option.bind (subs st q) (after_end (p # ps) st)" for q
    proof (cases "subs st q")
      case None
      then show ?thesis using st'(4) [of q] st1(4) by (auto split: option.splits if_splits)
    next
      case (Some s)
      show ?thesis
      proof (cases "sb_notify s = Some p")
        case True
        then have "nt_sub obj = Some q" using notified [OF Some] obj by blast
        then show ?thesis
          using True st'(4) [of q] st1(4) Some obj \<open>ended obj\<close> by (auto simp: after_end_def ended_def)
      next
        case False
        have "nt_sub obj \<noteq> Some q" using ev_okD(6) [OF Cons.prems(1) obj, of q] Some False by auto
        then have "subs st1 q = Some s" using st1(4) Some by (auto split: option.splits)
        moreover have "after_end ps st1 s = after_end (p # ps) st s"
          using False by (auto simp: after_end_def st1(3) split: option.splits)
        ultimately show ?thesis using st'(4) [of q] Some by simp
      qed
    qed
    ultimately show ?thesis using True obj st1(1) st'(1,2) by (auto simp: ended_def)
  qed
qed

text \<open>A subscriber is timed out when its time is over and no notification is on its way.\<close>

definition timed_out :: "int \<Rightarrow> subscriber \<Rightarrow> bool" where
  "timed_out now s \<longleftrightarrow> sb_timeout s \<noteq> 0 \<and> sb_timeout s < now \<and> sb_notify s = None"

lemma timeout_ok:
  assumes "ev_ok st" and "set qs \<subseteq> dom (subs st)" and "distinct qs"
  shows "\<exists>st'. timeout_loop now qs st = Some st' \<and> ev_ok st' \<and> notifies st' = notifies st
    \<and> (\<forall>q. subs st' q = (case subs st q of Some s \<Rightarrow> if q \<in> set qs \<and> timed_out now s then None else Some s | None \<Rightarrow> None))"
  using assms
proof (induction qs arbitrary: st)
  case Nil
  then show ?case by (auto split: option.splits)
next
  case (Cons q qs)
  then obtain s where s: "subs st q = Some s" by auto
  let ?st = "if timed_out now s then free_sub q st else st"
  have ok: "ev_ok ?st" using ev_ok_free_sub [OF Cons.prems(1) s] Cons.prems(1) by (auto simp: timed_out_def)
  have subs: "subs ?st = (if timed_out now s then (subs st)(q := None) else subs st)" "notifies ?st = notifies st" by (simp_all add: heap)
  have "set qs \<subseteq> dom (subs ?st)" using Cons.prems(2,3) subs by auto
  then obtain st' where st': "timeout_loop now qs ?st = Some st'" "ev_ok st'" "notifies st' = notifies st"
    "\<And>r. subs st' r = (case subs ?st r of Some s \<Rightarrow> if r \<in> set qs \<and> timed_out now s then None else Some s | None \<Rightarrow> None)"
    using Cons.IH [OF ok] Cons.prems(3) subs(2) by fastforce
  have "subs st' r = (case subs st r of Some s \<Rightarrow> if r \<in> set (q # qs) \<and> timed_out now s then None else Some s | None \<Rightarrow> None)" for r
    using st'(4) [of r] subs(1) s Cons.prems(3) by (auto split: option.splits if_splits)
  moreover have "timeout_loop now (q # qs) st = Some st'" using s st'(1) by (simp add: timed_out_def)
  ultimately show ?case using st'(2,3) by blast
qed

lemma process_fds_ok:
  assumes ok: "ev_ok st" and calm: "calm st" and env: "\<And>p. env_ok (e p)" and vars: "\<And>s. ec_vars cf s \<noteq> None"
  shows "\<exists>st'. upnpevents_processfds cf e now rd wr st = Some st' \<and> ev_ok st'
    \<and> (\<forall>p obj. notifies st' p = Some obj \<longrightarrow> \<not> ended obj)
    \<and> (\<forall>q s. subs st' q = Some s \<longrightarrow> \<not> timed_out now s)"
proof -
  obtain st1 where st1: "process_loop cf e rd wr (notifylist st) st = Some st1" "ev_ok st1" "notifylist st1 = notifylist st"
    using process_ok [of st "notifylist st" e cf rd wr, OF ok _ ev_okD(3) [OF ok] _ env vars] ev_okD(4) [OF ok] calm
    by (auto simp: calm_def)
  obtain st2 where st2: "finish_loop (notifylist st1) st1 = Some st2" "ev_ok st2"
    "\<And>r. notifies st2 r = (case notifies st1 r of Some obj \<Rightarrow>
          if r \<in> set (notifylist st1) \<and> ended obj then None else Some obj | None \<Rightarrow> None)"
    using finish_ok [OF st1(2) eq_refl [OF ev_okD(4) [OF st1(2)]] ev_okD(3) [OF st1(2)]] by blast
  obtain st3 where st3: "timeout_loop now (subscriberlist st2) st2 = Some st3" "ev_ok st3" "notifies st3 = notifies st2"
    "\<And>q. subs st3 q = (case subs st2 q of Some s \<Rightarrow> if q \<in> set (subscriberlist st2) \<and> timed_out now s then None else Some s | None \<Rightarrow> None)"
    using timeout_ok [OF st2(2) eq_refl [OF ev_okD(2) [OF st2(2)]] ev_okD(1) [OF st2(2)], of now] by blast
  have "\<not> ended obj" if "notifies st3 p = Some obj" for p obj
    using that st2(3) [of p] st3(3) ev_okD(4) [OF st1(2)] by (auto split: option.splits if_splits)
  moreover have "\<not> timed_out now s" if "subs st3 q = Some s" for q s
    using that st3(4) [of q] ev_okD(2) [OF st2(2)] by (auto split: option.splits if_splits)
  ultimately show ?thesis using st1(1) st2(1) st3(1,2) by (auto simp: upnpevents_processfds_def)
qed

section \<open>The operations in any order\<close>

text \<open>Memory is taken from free blocks, and the library makes a terminated identifier. The callbacks are those whose
  host ends; any other makes the next turn read past its end (\<open>callback_without_path_overreads\<close> below).\<close>

inductive ev_step :: "event_conf \<Rightarrow> event_state \<Rightarrow> event_state \<Rightarrow> bool" for cf :: event_conf where
  Subscribe: "\<lbrakk>\<forall>q. mem = Some q \<longrightarrow> subs st q = None; \<forall>p. ce_mem e = Some p \<longrightarrow> notifies st p = None;
      host_ends callback; CHR 0x00 \<in> set (make_uuid igd src);
      upnpevents_addSubscriber igd src mem e now eventurl callback timeout st = Some (r, st')\<rbrakk> \<Longrightarrow> ev_step cf st st'"
| Renew: "upnpevents_renewSubscription strict now sid timeout st = Some (r, st') \<Longrightarrow> ev_step cf st st'"
| Unsubscribe: "upnpevents_removeSubscriber sid st = Some (i, st') \<Longrightarrow> ev_step cf st st'"
| Change: "\<lbrakk>fresh_blocks es st; upnp_event_var_change_notify es service st = Some st'\<rbrakk> \<Longrightarrow> ev_step cf st st'"
| Select: "upnpevents_selectfds ns fds st = Some (fds', st') \<Longrightarrow> ev_step cf st st'"
| Process: "\<lbrakk>\<forall>p. env_ok (ns p); upnpevents_processfds cf ns now rd wr st = Some st'\<rbrakk> \<Longrightarrow> ev_step cf st st'"

inductive ev_reach :: "event_conf \<Rightarrow> event_state \<Rightarrow> bool" for cf :: event_conf where
  Start: "ev_reach cf no_events"
| Step: "\<lbrakk>ev_reach cf st; ev_step cf st st'\<rbrakk> \<Longrightarrow> ev_reach cf st'"

lemma ev_reach_ok:
  assumes "ev_reach cf st" and vars: "\<And>s. ec_vars cf s \<noteq> None"
  shows "ev_ok st \<and> calm st"
  using assms(1)
proof induction
  case Start
  show ?case by (simp add: ev_ok_def calm_def no_events_def)
next
  case (Step st st')
  then have ok: "ev_ok st" "calm st" by simp_all
  from Step.hyps(2) show ?case
  proof cases
    case (Subscribe mem e callback igd src now eventurl timeout r)
    then show ?thesis
      using add_subscriber_ok [OF ok, of mem e callback igd src now eventurl timeout] by auto
  next
    case (Renew strict now sid timeout r)
    then show ?thesis
      using renew_ok [OF ok(1) eq_refl [OF ev_okD(2) [OF ok(1)]], of strict now sid timeout] ok(2)
      by (auto simp: upnpevents_renewSubscription_def calm_def)
  next
    case (Unsubscribe sid i)
    then show ?thesis
      using remove_ok [OF ok(1) eq_refl [OF ev_okD(2) [OF ok(1)]], of sid] ok(2) by (auto simp: upnpevents_removeSubscriber_def)
  next
    case (Change es service)
    then show ?thesis
      using var_change_ok [OF ok eq_refl [OF ev_okD(2) [OF ok(1)]] ev_okD(1) [OF ok(1)], of es service]
      by (auto simp: upnp_event_var_change_notify_def fresh_blocks_def)
  next
    case (Select ns fds fds')
    then show ?thesis
      using select_ok [OF ok eq_refl [OF ev_okD(4) [OF ok(1)]] ev_okD(3) [OF ok(1)], of ns fds]
      by (auto simp: upnpevents_selectfds_def)
  next
    case (Process ns now rd wr)
    then show ?thesis using process_fds_ok [OF ok, of ns cf now rd wr] vars by (auto simp: calm_def ended_def)
  qed
qed

text \<open>C11: As long as the host of every callback subscribed ends (a plain host with a \<^verbatim>\<open>/\<close> or \<^verbatim>\<open>:\<close>, an address in
  brackets with its bracket; a callback that is no more than \<^verbatim>\<open>http://10.0.0.2\<close> is read past its end), no sequence of
  subscriptions, renewals, cancellations, changes and turns of the main loop reads a subscriber or a
  notification that has been freed, or past the end of a callback, the next subscription with such a callback
  included. The lists hold exactly the objects that are allocated, and a subscriber and its
  notification point at each other.\<close>

theorem events_memory_safe:
  assumes "ev_reach cf st" and "\<forall>s. ec_vars cf s \<noteq> None"
  shows "ev_ok st
    \<and> ((\<forall>q. mem = Some q \<longrightarrow> subs st q = None) \<and> (\<forall>p. ce_mem e = Some p \<longrightarrow> notifies st p = None)
        \<and> host_ends callback \<and> CHR 0x00 \<in> set (make_uuid igd src)
        \<longrightarrow> upnpevents_addSubscriber igd src mem e now eventurl callback timeout st \<noteq> None)
    \<and> upnpevents_renewSubscription strict now sid timeout st \<noteq> None
    \<and> upnpevents_removeSubscriber sid st \<noteq> None
    \<and> (fresh_blocks es st \<longrightarrow> upnp_event_var_change_notify es service st \<noteq> None)
    \<and> upnpevents_selectfds ns fds st \<noteq> None
    \<and> ((\<forall>p. env_ok (ns p)) \<longrightarrow> upnpevents_processfds cf ns now rd wr st \<noteq> None)"
proof -
  have ok: "ev_ok st" "calm st" using ev_reach_ok [OF assms(1)] assms(2) by blast+
  note subsets = eq_refl [OF ev_okD(2) [OF ok(1)]] eq_refl [OF ev_okD(4) [OF ok(1)]]
  show ?thesis
    unfolding upnpevents_renewSubscription_def upnpevents_removeSubscriber_def upnp_event_var_change_notify_def
      upnpevents_selectfds_def
    using ok(1) renew_ok [OF ok(1) subsets(1), of strict now sid timeout] remove_ok [OF ok(1) subsets(1), of sid]
      var_change_ok [OF ok subsets(1) ev_okD(1) [OF ok(1)], of es service]
      select_ok [OF ok subsets(2) ev_okD(3) [OF ok(1)], of ns fds]
      process_fds_ok [OF ok, of ns cf now rd wr] assms(2)
      add_subscriber_ok [OF ok, of mem e callback igd src now eventurl timeout]
    by (auto simp: fresh_blocks_def)
qed

definition sample_events_conf :: event_conf where
  "sample_events_conf = \<lparr>ec_uda10 = False, ec_vars = \<lambda>_. Some ''<e/>''\<rparr>"

definition sample_create :: create_env where
  "sample_create = \<lparr>ce_mem = Some 9, ce_socket = 5, ce_nonblocking = True\<rparr>"

definition sample_uuid :: string where
  "sample_uuid = ''0f1e2d3c-4b5a-6978-8796-a5b4c3d2e1f0''"

definition sample_subscribed :: event_state where
  "sample_subscribed =
     \<lparr>subs = [4 \<mapsto> \<lparr>sb_notify = Some 9, sb_timeout = 1800, sb_seq = 0, sb_service = EWanIPC,
          sb_uuid = ''uuid:'' @ sample_uuid @ [CHR 0x00], sb_callback = ''http://10.0.0.2/'' @ [CHR 0x00]\<rparr>],
      notifies = [9 \<mapsto> \<lparr>nt_s = 5, nt_state = ECreated, nt_sub = Some 4, nt_buffer = None, nt_buffersize = 0, nt_tosend = 0,
          nt_sent = 0, nt_path = None, nt_ipv6 = False, nt_addrstr = [], nt_portstr = []\<rparr>],
      subscriberlist = [4], notifylist = [9]\<rparr>"

lemma sample_add:
  "upnpevents_addSubscriber [] (Generated sample_uuid) (Some 4) sample_create 0 ''/evt/IPConn'' ''http://10.0.0.2/'' 1800 no_events
    = Some (Some (''uuid:'' @ sample_uuid @ [CHR 0x00]), sample_subscribed)"
  by (simp add: upnpevents_addSubscriber_def newSubscriber_def event_urls_def upnp_event_create_notify_def sample_create_def
      make_uuid_def sample_subscribed_def no_events_def heap Let_def)

lemma sample_target:
  "callback_target (''http://10.0.0.2/'' @ [CHR 0x00])
    = Some \<lparr>tg_ipv6 = False, tg_addrstr = ''10.0.0.2'', tg_port = 80, tg_portstr = [], tg_path = 15\<rparr>"
  by (simp add: callback_target_def callback_host_def cstring_def)

lemma sample_reach: "ev_reach sample_events_conf sample_subscribed"
proof -
  have "ev_step sample_events_conf no_events sample_subscribed"
    by (rule ev_step.Subscribe [OF _ _ _ _ sample_add])
      (simp_all add: no_events_def make_uuid_def host_ends_def)
  then show ?thesis by (rule ev_reach.Step [OF ev_reach.Start])
qed

theorem events_memory_safe_witness:
  "ev_ok sample_subscribed \<and> upnpevents_removeSubscriber (''uuid:'' @ sample_uuid) sample_subscribed \<noteq> None"
  using events_memory_safe [OF sample_reach, where sid = "''uuid:'' @ sample_uuid"] by (simp add: sample_events_conf_def)

section \<open>What the operations do\<close>

text \<open>The pass of the main loop over the notifications frees exactly those that have failed or finished. A
  failed one takes its subscriber with it, a finished one lets it go, and every other subscriber stays
  as it is.\<close>

theorem ended_notifications_removed:
  assumes "ev_ok st"
  shows "\<exists>st'. finish_loop (notifylist st) st = Some st' \<and> ev_ok st'
    \<and> (\<forall>p. notifies st' p = (case notifies st p of Some obj \<Rightarrow> if ended obj then None else Some obj | None \<Rightarrow> None))
    \<and> (\<forall>q. subs st' q = (case subs st q of None \<Rightarrow> None
        | Some s \<Rightarrow> (case Option.bind (sb_notify s) (notifies st) of None \<Rightarrow> Some s
            | Some obj \<Rightarrow> if nt_state obj = EError then None
                else if nt_state obj = EFinished then Some (s\<lparr>sb_notify := None\<rparr>) else Some s)))"
proof -
  obtain st' where st': "finish_loop (notifylist st) st = Some st'" "ev_ok st'"
    "\<And>p. notifies st' p = (case notifies st p of Some obj \<Rightarrow> if p \<in> set (notifylist st) \<and> ended obj then None else Some obj | None \<Rightarrow> None)"
    "\<And>q. subs st' q = Option.bind (subs st q) (after_end (notifylist st) st)"
    using finish_ok [OF assms eq_refl [OF ev_okD(4) [OF assms]] ev_okD(3) [OF assms]] by blast
  have "after_end (notifylist st) st s = (case Option.bind (sb_notify s) (notifies st) of None \<Rightarrow> Some s
      | Some obj \<Rightarrow> if nt_state obj = EError then None else if nt_state obj = EFinished then Some (s\<lparr>sb_notify := None\<rparr>) else Some s)" for s
    using ev_okD(4) [OF assms] by (auto simp: after_end_def split: option.splits notify_state.splits)
  then have "subs st' q = (case subs st q of None \<Rightarrow> None
      | Some s \<Rightarrow> (case Option.bind (sb_notify s) (notifies st) of None \<Rightarrow> Some s
            | Some obj \<Rightarrow> if nt_state obj = EError then None
                else if nt_state obj = EFinished then Some (s\<lparr>sb_notify := None\<rparr>) else Some s))" for q
    using st'(4) [of q] by (cases "subs st q") simp_all
  moreover have "notifies st' p = (case notifies st p of Some obj \<Rightarrow> if ended obj then None else Some obj | None \<Rightarrow> None)" for p
    using st'(3) [of p] ev_okD(4) [OF assms] by (auto split: option.splits)
  ultimately show ?thesis using st'(1,2) by blast
qed

theorem ended_notifications_removed_witness:
  "ev_ok sample_subscribed \<and> (\<exists>st'. finish_loop (notifylist sample_subscribed) sample_subscribed = Some st'
    \<and> subs st' 4 = subs sample_subscribed 4)"
proof -
  have "ev_ok sample_subscribed" using ev_reach_ok [OF sample_reach] by (simp add: sample_events_conf_def)
  with ended_notifications_removed [OF this] show ?thesis by (fastforce simp: sample_subscribed_def)
qed

fun send_rounds :: "(string \<Rightarrow> send_result) list \<Rightarrow> string \<Rightarrow> upnp_event_notify \<Rightarrow> upnp_event_notify \<times> string" where
  "send_rounds [] m obj = (obj, [])"
| "send_rounds (e # es) m obj =
     (if nt_state obj = ESending then
        (let (obj1, b) = event_send e m obj; (obj2, bs) = send_rounds es m obj1 in (obj2, b @ bs))
      else (obj, []))"

lemma event_send_prefix:
  assumes "nt_state obj = ESending" "nt_tosend obj = length m" "nt_sent obj < length m" "\<And>l n. e l = Sent n \<Longrightarrow> n \<le> length l"
    and "event_send e m obj = (obj', b)"
  shows "take (nt_sent obj) m @ b = take (nt_sent obj') m \<and> nt_sent obj' \<le> length m \<and> nt_tosend obj' = length m
    \<and> (nt_state obj' = EWaitingForResponse \<and> nt_sent obj' = length m \<or> nt_state obj' \<in> {ESending, EError} \<and> nt_sent obj' < length m)"
proof (cases "e (drop (nt_sent obj) m)")
  case (Sent n)
  then have "n \<le> length m - nt_sent obj" using assms(4) by fastforce
  then show ?thesis using assms(1-3,5) Sent by (auto simp: event_send_def Let_def take_add split: if_splits)
qed (use assms(1-3,5) in \<open>auto simp: event_send_def Let_def split: if_splits\<close>)

lemma send_rounds_prefix:
  assumes "nt_tosend obj = length m" "nt_sent obj \<le> length m" "\<forall>e \<in> set es. \<forall>l n. e l = Sent n \<longrightarrow> n \<le> length l"
    and "nt_state obj = EWaitingForResponse \<and> nt_sent obj = length m \<or> nt_state obj \<in> {ESending, EError} \<and> nt_sent obj < length m"
    and "send_rounds es m obj = (obj', b)"
  shows "take (nt_sent obj) m @ b = take (nt_sent obj') m \<and> nt_sent obj' \<le> length m
    \<and> (nt_state obj' = EWaitingForResponse \<and> nt_sent obj' = length m \<or> nt_state obj' \<in> {ESending, EError} \<and> nt_sent obj' < length m)"
  using assms
proof (induction es arbitrary: obj b)
  case (Cons e es)
  show ?case
  proof (cases "nt_state obj = ESending")
    case True
    obtain obj1 b1 where e: "event_send e m obj = (obj1, b1)" by (cases "event_send e m obj")
    obtain obj2 b2 where es: "send_rounds es m obj1 = (obj2, b2)" by (cases "send_rounds es m obj1")
    have one: "take (nt_sent obj) m @ b1 = take (nt_sent obj1) m \<and> nt_sent obj1 \<le> length m \<and> nt_tosend obj1 = length m
        \<and> (nt_state obj1 = EWaitingForResponse \<and> nt_sent obj1 = length m \<or> nt_state obj1 \<in> {ESending, EError} \<and> nt_sent obj1 < length m)"
      by (rule event_send_prefix [OF True Cons.prems(1) _ _ e]) (use Cons.prems(3,4) True in auto)
    have res: "obj' = obj2" "b = b1 @ b2" using Cons.prems(5) True e es by simp_all
    moreover have "take (nt_sent obj1) m @ b2 = take (nt_sent obj2) m \<and> nt_sent obj2 \<le> length m
        \<and> (nt_state obj2 = EWaitingForResponse \<and> nt_sent obj2 = length m \<or> nt_state obj2 \<in> {ESending, EError} \<and> nt_sent obj2 < length m)"
      using one Cons.prems(3) by (intro Cons.IH [unfolded res(1), OF _ _ _ _ es]) auto
    moreover have "take (nt_sent obj) m @ b1 @ b2 = (take (nt_sent obj) m @ b1) @ b2" by simp
    ultimately show ?thesis using one by simp
  next
    case False
    then show ?thesis using Cons.prems by auto
  qed
qed auto

text \<open>A message is handed to the socket in order and each byte once, however the calls of \<^verbatim>\<open>send\<close> divide it: what
  was sent is always its first part, and the answer is awaited exactly when all of it was sent.\<close>

theorem notify_message_delivered:
  assumes "nt_state obj = ESending" and "nt_sent obj = 0" and "nt_tosend obj = length m" and "m \<noteq> []"
    and "\<forall>e \<in> set es. \<forall>l n. e l = Sent n \<longrightarrow> n \<le> length l"
  shows "let (obj', bytes) = send_rounds es m obj in
      bytes = take (nt_sent obj') m \<and> (nt_state obj' = EWaitingForResponse \<longleftrightarrow> bytes = m)
    \<and> nt_state obj' \<in> {ESending, EWaitingForResponse, EError}"
proof -
  obtain obj' bytes where run: "send_rounds es m obj = (obj', bytes)" by (cases "send_rounds es m obj")
  have "take (nt_sent obj) m @ bytes = take (nt_sent obj') m \<and> nt_sent obj' \<le> length m
    \<and> (nt_state obj' = EWaitingForResponse \<and> nt_sent obj' = length m \<or> nt_state obj' \<in> {ESending, EError} \<and> nt_sent obj' < length m)"
    by (rule send_rounds_prefix [OF _ _ assms(5) _ run]) (use assms in simp_all)
  then show ?thesis using run assms(2) by auto
qed

theorem notify_message_delivered_witness:
  "send_rounds [\<lambda>l. Sent (min 3 (length l)), \<lambda>_. Send_again, \<lambda>l. Sent (length l)] ''NOTIFY''
     ((the (notifies sample_subscribed 9))\<lparr>nt_state := ESending, nt_buffer := Some ''NOTIFY'', nt_tosend := 6\<rparr>)
   = ((the (notifies sample_subscribed 9))\<lparr>nt_state := EWaitingForResponse, nt_buffer := Some ''NOTIFY'', nt_tosend := 6, nt_sent := 6\<rparr>,
      ''NOTIFY'')"
proof -
  let ?es = "[\<lambda>l. Sent (min 3 (length l)), \<lambda>_. Send_again, \<lambda>l. Sent (length l)]"
  let ?obj = "(the (notifies sample_subscribed 9))\<lparr>nt_state := ESending, nt_buffer := Some ''NOTIFY'', nt_tosend := 6\<rparr>"
  have "let (obj', bytes) = send_rounds ?es ''NOTIFY'' ?obj in bytes = take (nt_sent obj') ''NOTIFY''
      \<and> (nt_state obj' = EWaitingForResponse \<longleftrightarrow> bytes = ''NOTIFY'') \<and> nt_state obj' \<in> {ESending, EWaitingForResponse, EError}"
    by (rule notify_message_delivered) (simp_all add: sample_subscribed_def)
  then show ?thesis by (simp add: event_send_def sample_subscribed_def Let_def)
qed

lemma buffer_loop_all: "\<exists>n. buffer_loop (\<lambda>_. True) msg k = Some n"
  by (cases "length msg < k") (simp_all add: buffer_loop.simps [of _ _ k] buffer_loop.simps [of _ _ "Suc (length msg)"])

subsection \<open>One notification among the others\<close>

text \<open>A turn of the main loop: the sockets to wait for, then the ones of them that are ready.\<close>

type_synonym turn = "(ptr \<Rightarrow> notify_env) \<times> int \<times> (int \<Rightarrow> bool)"

definition event_turn :: "event_conf \<Rightarrow> turn \<Rightarrow> event_state \<Rightarrow> event_state option" where
  "event_turn cf t st =
     (case t of (e, now, ready) \<Rightarrow>
       Option.bind (upnpevents_selectfds e \<lparr>fd_read = [], fd_write = [], fd_max = 0\<rparr> st) (\<lambda>(fds, st1).
         upnpevents_processfds cf e now (filter ready (fd_read fds)) (filter ready (fd_write fds)) st1))"

fun event_turns :: "event_conf \<Rightarrow> turn list \<Rightarrow> event_state \<Rightarrow> event_state option" where
  "event_turns cf [] st = Some st"
| "event_turns cf (t # ts) st = Option.bind (event_turn cf t st) (event_turns cf ts)"

lemma connect_frame:
  assumes "upnp_event_notify_connect e p st = Some st'"
  shows "subs st' = subs st \<and> (\<forall>r. r \<noteq> p \<longrightarrow> notifies st' r = notifies st r)"
  using assms by (auto simp: upnp_event_notify_connect_def heap bind_eq_Some_conv split: option.splits)

lemma prepare_frame:
  assumes "upnp_event_prepare cf e p st = Some st'"
  shows "subs st' = subs st \<and> (\<forall>r. r \<noteq> p \<longrightarrow> notifies st' r = notifies st r)
    \<and> (\<forall>obj obj'. notifies st p = Some obj \<and> notifies st' p = Some obj' \<longrightarrow> nt_sub obj' = nt_sub obj)"
  using assms by (auto simp: upnp_event_prepare_def heap bind_eq_Some_conv Let_def split: option.splits)

lemma send_frame:
  assumes "upnp_event_send e p st = Some st'"
  shows "subs st' = subs st \<and> (\<forall>r. r \<noteq> p \<longrightarrow> notifies st' r = notifies st r)"
  using assms by (auto simp: upnp_event_send_def heap bind_eq_Some_conv)

lemma recv_frame:
  assumes "upnp_event_recv e p st = Some st'"
  shows "(\<forall>r. r \<noteq> p \<longrightarrow> notifies st' r = notifies st r)
    \<and> (\<forall>obj q. notifies st p = Some obj \<and> nt_sub obj \<noteq> Some q \<longrightarrow> subs st' q = subs st q)"
  using assms by (cases "ne_recv e") (auto simp: upnp_event_recv_def heap bind_eq_Some_conv Let_def split: option.splits)

lemma process_notify_frame:
  assumes run: "upnp_event_process_notify cf e p st = Some st'"
  shows "(\<forall>r. r \<noteq> p \<longrightarrow> notifies st' r = notifies st r)
    \<and> (\<forall>obj q. notifies st p = Some obj \<and> nt_sub obj \<noteq> Some q \<longrightarrow> subs st' q = subs st q)"
proof -
  obtain obj where obj: "notifies st p = Some obj" using run by (auto simp: upnp_event_process_notify_def bind_eq_Some_conv)
  show ?thesis
  proof (cases "nt_state obj")
    case EConnecting
    show ?thesis
    proof (cases "ne_sockerr e = Some 0")
      case True
      then obtain st1 obj1 where st1: "upnp_event_prepare cf e p st = Some st1" "notifies st1 p = Some obj1"
        and then_send: "(if nt_state obj1 = ESending then upnp_event_send e p st1 else Some st1) = Some st'"
        using run obj EConnecting by (auto simp: upnp_event_process_notify_def bind_eq_Some_conv)
      then show ?thesis using prepare_frame [OF st1(1)] send_frame [of e p st1 st'] by (auto split: if_splits)
    qed (use run obj EConnecting in \<open>auto simp: upnp_event_process_notify_def heap\<close>)
  qed (use run obj send_frame [of e p st st'] recv_frame [of e p st st'] in \<open>auto simp: upnp_event_process_notify_def heap\<close>)
qed

text \<open>What the loop over the sockets does for one notification: it connects one that is new, and waits for its
  socket.\<close>

lemma select_sets:
  "select_loop e ps fds st = Some (fds', st') \<Longrightarrow> subs st' = subs st \<and> set (fd_read fds) \<subseteq> set (fd_read fds')
     \<and> set (fd_write fds) \<subseteq> set (fd_write fds') \<and> (p \<notin> set ps \<longrightarrow> notifies st' p = notifies st p)"
proof (induction ps arbitrary: fds st)
  case (Cons r ps)
  then obtain obj where obj: "notifies st r = Some obj" by (auto simp: bind_eq_Some_conv)
  show ?case
  proof (cases "0 \<le> nt_s obj \<and> nt_state obj = ECreated")
    case True
    then obtain st1 obj1 where st1: "upnp_event_notify_connect (e r) r st = Some st1" "notifies st1 r = Some obj1"
      and rest: "select_loop e ps (if nt_state obj1 = EConnecting then watch_write (nt_s obj1) fds else fds) st1 = Some (fds', st')"
      using Cons.prems obj by (auto simp: bind_eq_Some_conv)
    then show ?thesis using Cons.IH [OF rest] connect_frame [OF st1(1)] by (auto simp: watch_write_def split: if_splits)
  next
    case False
    then obtain f where "select_loop e ps f st = Some (fds', st')" "set (fd_read fds) \<subseteq> set (fd_read f)" "set (fd_write fds) \<subseteq> set (fd_write f)"
      using Cons.prems obj by (cases "nt_state obj") (auto simp: watch_write_def watch_read_def split: if_splits intro: that)
    then show ?thesis using Cons.IH by fastforce
  qed
qed simp

definition connected_to :: "ptr \<Rightarrow> callback_target \<Rightarrow> upnp_event_notify \<Rightarrow> upnp_event_notify" where
  "connected_to q tg obj =
     (if nt_state obj = ECreated
      then obj\<lparr>nt_state := EConnecting, nt_path := Some (q, tg_path tg), nt_ipv6 := tg_ipv6 tg, nt_addrstr := tg_addrstr tg,
        nt_portstr := tg_portstr tg\<rparr>
      else obj)"

lemma select_at:
  assumes "select_loop e ps fds st = Some (fds', st')" and "distinct ps" and "p \<in> set ps"
    and obj: "notifies st p = Some obj" "nt_sub obj = Some q" "subs st q = Some s" "0 \<le> nt_s obj"
    and state: "nt_state obj \<in> {ECreated, ESending, EWaitingForResponse}"
    and tg: "callback_target (sb_callback s) = Some tg" "nt_state obj = ECreated \<Longrightarrow> ne_connect (e p) (notify_sockaddr tg) \<noteq> Connect_failed"
  shows "notifies st' p = Some (connected_to q tg obj)
    \<and> (nt_s obj \<in> set (fd_read fds') \<or> nt_s obj \<in> set (fd_write fds'))"
  using assms(1-3) obj
proof (induction ps arbitrary: fds st)
  case (Cons r ps)
  show ?case
  proof (cases "r = p")
    case False
    obtain o' where o': "notifies st r = Some o'" using Cons.prems(1) by (auto simp: bind_eq_Some_conv)
    obtain f st1 where f: "select_loop e ps f st1 = Some (fds', st')" "notifies st1 p = notifies st p" "subs st1 = subs st"
    proof (cases "0 \<le> nt_s o' \<and> nt_state o' = ECreated")
      case True
      then obtain st1 f where st1: "upnp_event_notify_connect (e r) r st = Some st1" "select_loop e ps f st1 = Some (fds', st')"
        using Cons.prems(1) o' by (auto simp: bind_eq_Some_conv)
      show thesis by (rule that [OF st1(2)]) (use connect_frame [OF st1(1)] False in auto)
    next
      case other: False
      then obtain f where "select_loop e ps f st = Some (fds', st')"
        using Cons.prems(1) o' by (cases "nt_state o'") (auto split: if_splits)
      then show thesis by (rule that) simp_all
    qed
    then show ?thesis using Cons.IH [OF f(1)] Cons.prems False by auto
  next
    case True
    have away: "p \<notin> set ps" using Cons.prems(2) True by simp
    show ?thesis
    proof (cases "nt_state obj = ECreated")
      case created: True
      have "upnp_event_notify_connect (e p) p st = Some (set_notify p (connected_to q tg obj) st)"
        using Cons.prems tg created by (simp add: upnp_event_notify_connect_def connected_to_def)
      then have "select_loop e ps (watch_write (nt_s obj) fds) (set_notify p (connected_to q tg obj) st) = Some (fds', st')"
        using Cons.prems created True by (simp add: heap connected_to_def)
      from select_sets [OF this, of p] show ?thesis using away by (auto simp: heap watch_write_def)
    next
      case False
      then obtain f where "select_loop e ps f st = Some (fds', st')" "nt_s obj \<in> set (fd_read f) \<or> nt_s obj \<in> set (fd_write f)"
        using Cons.prems state True by (auto simp: watch_write_def watch_read_def)
      from select_sets [OF this(1), of p] this(2) show ?thesis using away Cons.prems(4) False by (auto simp: connected_to_def)
    qed
  qed
qed simp

text \<open>The loop over the notifications comes once to one whose socket is ready, with its subscriber as it was.\<close>

lemma process_away:
  assumes "process_loop cf e rd wr ps st = Some st'" and "distinct ps" and "p \<notin> set ps"
    and "\<And>r o'. r \<in> set ps \<Longrightarrow> notifies st r = Some o' \<Longrightarrow> nt_sub o' \<noteq> Some q"
  shows "notifies st' p = notifies st p \<and> subs st' q = subs st q"
  using assms
proof (induction ps arbitrary: st)
  case (Cons r ps)
  obtain o' where o': "notifies st r = Some o'" using Cons.prems(1) by (auto simp: bind_eq_Some_conv)
  then have other: "nt_sub o' \<noteq> Some q" "r \<noteq> p" "r \<notin> set ps" using Cons.prems(2-4) by auto
  obtain st1 where rest: "process_loop cf e rd wr ps st1 = Some st'"
    and st1: "\<forall>x. x \<noteq> r \<longrightarrow> notifies st1 x = notifies st x" "subs st1 q = subs st q"
  proof (cases "nt_s o' \<in> set rd \<or> nt_s o' \<in> set wr")
    case True
    then obtain st1 where st1: "upnp_event_process_notify cf (e r) r st = Some st1" "process_loop cf e rd wr ps st1 = Some st'"
      using Cons.prems(1) o' by (auto simp: bind_eq_Some_conv split: if_splits)
    then show thesis using that [OF st1(2)] process_notify_frame [OF st1(1)] o' other(1) by auto
  next
    case False
    then show thesis using that [of st] Cons.prems(1) o' by (auto split: if_splits)
  qed
  have "nt_sub o'' \<noteq> Some q" if "x \<in> set ps" "notifies st1 x = Some o''" for x o''
    using that st1(1) other(3) Cons.prems(4) [of x o''] by fastforce
  then show ?case using Cons.IH [OF rest] Cons.prems(2,3) st1 other(2) by auto
qed simp

lemma process_at:
  assumes "process_loop cf e rd wr ps st = Some st'" and "distinct ps" and "p \<in> set ps"
    and "\<And>r o'. r \<in> set ps \<Longrightarrow> r \<noteq> p \<Longrightarrow> notifies st r = Some o' \<Longrightarrow> nt_sub o' \<noteq> Some q"
    and "notifies st p = Some obj" and "nt_s obj \<in> set rd \<or> nt_s obj \<in> set wr"
  shows "\<exists>st0 st1. notifies st0 p = notifies st p \<and> subs st0 q = subs st q
    \<and> upnp_event_process_notify cf (e p) p st0 = Some st1 \<and> notifies st' p = notifies st1 p \<and> subs st' q = subs st1 q"
  using assms(1-5)
proof (induction ps arbitrary: st)
  case (Cons r ps)
  obtain o' where o': "notifies st r = Some o'" using Cons.prems(1) by (auto simp: bind_eq_Some_conv)
  show ?case
  proof (cases "r = p")
    case True
    then obtain st1 where st1: "upnp_event_process_notify cf (e p) p st = Some st1" "process_loop cf e rd wr ps st1 = Some st'"
      using Cons.prems(1,5) assms(6) by (auto simp: bind_eq_Some_conv split: if_splits)
    have away: "p \<notin> set ps" using Cons.prems(2) True by simp
    have "nt_sub o'' \<noteq> Some q" if "x \<in> set ps" "notifies st1 x = Some o''" for x o''
    proof -
      have "x \<noteq> p" using that(1) away by auto
      then show ?thesis using that Cons.prems(4) [of x o''] process_notify_frame [OF st1(1)] by auto
    qed
    then show ?thesis using process_away [OF st1(2) _ away, of q] Cons.prems(2) st1(1) by auto
  next
    case False
    then have other: "nt_sub o' \<noteq> Some q" "r \<notin> set ps" using Cons.prems(2) Cons.prems(4) [of r o'] o' by auto
    obtain st1 where rest: "process_loop cf e rd wr ps st1 = Some st'"
      and st1: "\<forall>x. x \<noteq> r \<longrightarrow> notifies st1 x = notifies st x" "subs st1 q = subs st q"
    proof (cases "nt_s o' \<in> set rd \<or> nt_s o' \<in> set wr")
      case True
      then obtain st1 where st1: "upnp_event_process_notify cf (e r) r st = Some st1" "process_loop cf e rd wr ps st1 = Some st'"
        using Cons.prems(1) o' by (auto simp: bind_eq_Some_conv split: if_splits)
      then show thesis using that [OF st1(2)] process_notify_frame [OF st1(1)] o' other(1) by auto
    next
      case False
      then show thesis using that [of st] Cons.prems(1) o' by (auto split: if_splits)
    qed
    have "nt_sub o'' \<noteq> Some q" if "x \<in> set ps" "x \<noteq> p" "notifies st1 x = Some o''" for x o''
      using that st1(1) other(2) Cons.prems(4) [of x o''] by fastforce
    moreover have "notifies st1 p = notifies st p" using st1(1) False by auto
    ultimately show ?thesis using Cons.IH [OF rest] Cons.prems(2,3,5) False st1(2) by auto
  qed
qed simp

lemma event_turn_ok:
  assumes ok: "ev_ok st" and calm: "calm st" and env: "\<And>r. env_ok (e r)" and vars: "\<And>s. ec_vars cf s \<noteq> None"
  shows "\<exists>st'. event_turn cf (e, now, ready) st = Some st' \<and> ev_ok st' \<and> calm st'"
proof -
  let ?fds = "\<lparr>fd_read = [], fd_write = [], fd_max = 0\<rparr> :: fd_sets"
  obtain fds st1 where st1: "upnpevents_selectfds e ?fds st = Some (fds, st1)" "ev_ok st1" "calm st1"
    using select_ok [OF ok calm eq_refl [OF ev_okD(4) [OF ok]] ev_okD(3) [OF ok]] unfolding upnpevents_selectfds_def by blast
  then show ?thesis using process_fds_ok [OF st1(2,3), of e cf now] env vars
    by (fastforce simp: event_turn_def calm_def ended_def)
qed

text \<open>One turn, for one notification: what its step makes of it stays, and the subscriber is kept; when the step
  ends it, it is freed and its subscriber is ready for the next change.\<close>

lemma turn_at:
  assumes ok: "ev_ok st" "calm st" and env: "\<And>r. env_ok (e r)" and vars: "\<And>s. ec_vars cf s \<noteq> None"
    and obj: "notifies st p = Some obj" "nt_sub obj = Some q" "subs st q = Some s" "ready (nt_s obj)"
    and state: "nt_state obj \<in> {ECreated, ESending, EWaitingForResponse}"
    and tg: "callback_target (sb_callback s) = Some tg" "nt_state obj = ECreated \<Longrightarrow> ne_connect (e p) (notify_sockaddr tg) \<noteq> Connect_failed"
    and step: "\<And>st0 st1. notifies st0 p = Some (connected_to q tg obj) \<Longrightarrow> subs st0 q = Some s \<Longrightarrow>
      upnp_event_process_notify cf (e p) p st0 = Some st1 \<Longrightarrow> notifies st1 p = Some obj' \<and> subs st1 q = Some s'"
    and new: "nt_state obj' \<noteq> EError" "sb_notify s' = Some p"
  shows "\<exists>st'. event_turn cf (e, now, ready) st = Some st' \<and> ev_ok st' \<and> calm st'
    \<and> (nt_state obj' \<noteq> EFinished \<longrightarrow> notifies st' p = Some obj' \<and> subs st' q = Some s')
    \<and> (nt_state obj' = EFinished \<longrightarrow> notifies st' p = None)
    \<and> (nt_state obj' = EFinished \<and> \<not> timed_out now (s'\<lparr>sb_notify := None\<rparr>) \<longrightarrow> subs st' q = Some (s'\<lparr>sb_notify := None\<rparr>))"
proof -
  let ?fds = "\<lparr>fd_read = [], fd_write = [], fd_max = 0\<rparr> :: fd_sets"
  have socket: "0 \<le> nt_s obj" using ev_okD(8) [OF ok(1) obj(1)] by (simp add: notify_ok_def)
  obtain fds st1 where st1: "upnpevents_selectfds e ?fds st = Some (fds, st1)" "ev_ok st1" "calm st1"
    using select_ok [OF ok eq_refl [OF ev_okD(4) [OF ok(1)]] ev_okD(3) [OF ok(1)]] unfolding upnpevents_selectfds_def by blast
  note sel = st1(1) [unfolded upnpevents_selectfds_def]
  have subs1: "subs st1 q = Some s" using select_sets [OF sel, of p] obj(3) by simp
  have at: "notifies st1 p = Some (connected_to q tg obj)" "nt_s obj \<in> set (fd_read fds) \<or> nt_s obj \<in> set (fd_write fds)"
    using select_at [OF sel ev_okD(3) [OF ok(1)] _ obj(1-3) socket state tg] ev_okD(4) [OF ok(1)] obj(1) by blast+
  have sub1: "nt_sub (connected_to q tg obj) = Some q" "nt_s (connected_to q tg obj) = nt_s obj"
    using obj(2) by (simp_all add: connected_to_def)
  let ?rd = "filter ready (fd_read fds)" and ?wr = "filter ready (fd_write fds)"
  obtain st2 where st2: "process_loop cf e ?rd ?wr (notifylist st1) st1 = Some st2" "ev_ok st2" "notifylist st2 = notifylist st1"
    using process_ok [OF st1(2) eq_refl [OF ev_okD(4) [OF st1(2)]] ev_okD(3) [OF st1(2)], of e cf ?rd ?wr] st1(3) env vars
    by (auto simp: calm_def)
  have alone: "nt_sub o' \<noteq> Some q" if "r \<noteq> p" "notifies st1 r = Some o'" for r o'
  proof
    assume "nt_sub o' = Some q"
    then have "sb_notify s = Some r" using ev_okD(6) [OF st1(2) that(2)] subs1 by auto
    moreover have "sb_notify s = Some p" using ev_okD(6) [OF st1(2) at(1) sub1(1)] subs1 by auto
    ultimately show False using that(1) by simp
  qed
  have "\<exists>st0 st3. notifies st0 p = notifies st1 p \<and> subs st0 q = subs st1 q
      \<and> upnp_event_process_notify cf (e p) p st0 = Some st3 \<and> notifies st2 p = notifies st3 p \<and> subs st2 q = subs st3 q"
    by (rule process_at [OF st2(1) ev_okD(3) [OF st1(2)] _ _ at(1)]) (use ev_okD(4) [OF st1(2)] at alone sub1 obj(4) in auto)
  then obtain st0 sta where mid: "notifies st0 p = Some (connected_to q tg obj)" "subs st0 q = Some s"
    "upnp_event_process_notify cf (e p) p st0 = Some sta" "notifies st2 p = notifies sta p" "subs st2 q = subs sta q"
    unfolding at(1) subs1 by blast
  have two: "notifies st2 p = Some obj'" "subs st2 q = Some s'" using step [OF mid(1-3)] mid(4,5) by simp_all
  obtain st3 where st3: "finish_loop (notifylist st2) st2 = Some st3" "ev_ok st3"
    "\<And>r. notifies st3 r = (case notifies st2 r of Some obj \<Rightarrow>
          if r \<in> set (notifylist st2) \<and> ended obj then None else Some obj | None \<Rightarrow> None)"
    "\<And>r. subs st3 r = Option.bind (subs st2 r) (after_end (notifylist st2) st2)"
    using finish_ok [OF st2(2) eq_refl [OF ev_okD(4) [OF st2(2)]] ev_okD(3) [OF st2(2)]] by blast
  obtain st' where st': "timeout_loop now (subscriberlist st3) st3 = Some st'" "ev_ok st'" "notifies st' = notifies st3"
    "\<And>r. subs st' r = (case subs st3 r of Some s \<Rightarrow> if r \<in> set (subscriberlist st3) \<and> timed_out now s then None else Some s | None \<Rightarrow> None)"
    using timeout_ok [OF st3(2) eq_refl [OF ev_okD(2) [OF st3(2)]] ev_okD(1) [OF st3(2)], of now] by blast
  have run: "event_turn cf (e, now, ready) st = Some st'"
    by (simp add: event_turn_def st1(1) upnpevents_processfds_def st2(1) st3(1) st'(1))
  have listed: "p \<in> set (notifylist st2)" using ev_okD(4) [OF st2(2)] two(1) by auto
  have "calm st'" using event_turn_ok [where e = e and cf = cf and now = now and ready = ready, OF ok env vars] run by auto
  moreover have "notifies st' p = Some obj' \<and> subs st' q = Some s'" if "nt_state obj' \<noteq> EFinished"
    using st'(3) st'(4) [of q] st3(3) [of p] st3(4) [of q] two that new
    by (auto simp: ended_def after_end_def timed_out_def split: notify_state.splits)
  moreover have "notifies st' p = None" if "nt_state obj' = EFinished"
    using st'(3) st3(3) [of p] two listed that by (simp add: ended_def)
  moreover have "subs st' q = Some (s'\<lparr>sb_notify := None\<rparr>)"
    if "nt_state obj' = EFinished" "\<not> timed_out now (s'\<lparr>sb_notify := None\<rparr>)"
    using st'(4) [of q] st3(4) [of q] two that new listed by (simp add: after_end_def)
  ultimately show ?thesis using run st'(2) by blast
qed

text \<open>The peer takes the message in the pieces \<open>ms\<close>, one in each turn, and answers; it need not take anything else.\<close>

definition peer_up :: "ptr \<Rightarrow> sock_addr \<Rightarrow> int \<Rightarrow> turn \<Rightarrow> bool" where
  "peer_up p addr sock t \<longleftrightarrow>
     (case t of (e, now, ready) \<Rightarrow>
       (\<forall>r. env_ok (e r)) \<and> ready sock \<and> ne_connect (e p) addr \<noteq> Connect_failed \<and> ne_sockerr (e p) = Some 0
       \<and> (\<forall>n. ne_malloc (e p) n) \<and> (\<exists>d. ne_recv (e p) = Received d))"

fun takes :: "ptr \<Rightarrow> string list \<Rightarrow> turn list \<Rightarrow> bool" where
  "takes p [] [] \<longleftrightarrow> True"
| "takes p (m # ms) (t # ts) \<longleftrightarrow>
     concat (m # ms) \<noteq> [] \<and> ne_send (fst t p) (concat (m # ms)) = Sent (length m) \<and> takes p ms ts"
| "takes p _ _ \<longleftrightarrow> False"

definition sending :: "string \<Rightarrow> string \<Rightarrow> upnp_event_notify \<Rightarrow> bool" where
  "sending msg rest obj \<longleftrightarrow> nt_buffer obj = Some msg \<and> nt_tosend obj = length msg
     \<and> nt_sent obj + length rest = length msg \<and> drop (nt_sent obj) msg = rest
     \<and> nt_state obj = (if rest = [] then EWaitingForResponse else ESending)"

lemma send_piece:
  assumes "nt_buffer obj = Some msg" "nt_tosend obj = length msg" "nt_sent obj + length (m @ rest) = length msg"
    "drop (nt_sent obj) msg = m @ rest" "nt_state obj = ESending" "send (m @ rest) = Sent (length m)"
  shows "sending msg rest (fst (event_send send msg obj)) \<and> nt_sub (fst (event_send send msg obj)) = nt_sub obj
    \<and> nt_s (fst (event_send send msg obj)) = nt_s obj"
proof -
  have "drop (nt_sent obj + length m) msg = rest"
    using arg_cong [OF assms(4), of "drop (length m)"] by (simp add: add.commute)
  then show ?thesis using assms by (auto simp: event_send_def sending_def Let_def)
qed

lemma sending_turns:
  assumes "ev_ok st" "calm st" and vars: "\<And>s. ec_vars cf s \<noteq> None" and tg: "callback_target (sb_callback s) = Some tg"
    and "notifies st p = Some obj" "nt_sub obj = Some q" "subs st q = Some s" "sending msg (concat ms) obj"
    and "takes p ms ts" "\<forall>t \<in> set ts. peer_up p (notify_sockaddr tg) (nt_s obj) t"
  shows "\<exists>st' obj'. event_turns cf ts st = Some st' \<and> ev_ok st' \<and> calm st' \<and> notifies st' p = Some obj' \<and> nt_sub obj' = Some q
    \<and> nt_s obj' = nt_s obj \<and> subs st' q = Some s \<and> sending msg [] obj'"
  using assms(1,2,5-10)
proof (induction p ms ts arbitrary: st obj rule: takes.induct)
  case (2 p m ms t ts)
  obtain e now ready where t: "t = (e, now, ready)" by (cases t)
  have up: "\<And>r. env_ok (e r)" "ready (nt_s obj)" using 2(8,9) t by (auto simp: peer_up_def)
  have rest: "concat (m # ms) \<noteq> []" "ne_send (e p) (m @ concat ms) = Sent (length m)" using 2(8) t by simp_all
  then have obj: "nt_buffer obj = Some msg" "nt_tosend obj = length msg" "nt_sent obj + length (m @ concat ms) = length msg"
      "drop (nt_sent obj) msg = m @ concat ms" "nt_state obj = ESending"
    using 2(7) by (auto simp: sending_def split: if_splits)
  define obj' where "obj' = fst (event_send (ne_send (e p)) msg obj)"
  have new: "sending msg (concat ms) obj'" "nt_sub obj' = Some q" "nt_s obj' = nt_s obj"
    using send_piece [of obj msg m "concat ms" "ne_send (e p)"] obj rest(2) 2(5) unfolding obj'_def by simp_all
  have linked: "sb_notify s = Some p" using ev_okD(6) [OF 2(2,4,5)] 2(6) by auto
  have same: "connected_to q tg obj = obj" using obj(5) by (simp add: connected_to_def)
  have step: "notifies st1 p = Some obj' \<and> subs st1 q = Some s"
    if "notifies st0 p = Some (connected_to q tg obj)" "subs st0 q = Some s" "upnp_event_process_notify cf (e p) p st0 = Some st1"
    for st0 st1
    using that unfolding same by (auto simp: upnp_event_process_notify_def upnp_event_send_def obj heap obj'_def)
  have live: "nt_state obj' \<noteq> EFinished" "nt_state obj' \<noteq> EError" "nt_state obj \<in> {ECreated, ESending, EWaitingForResponse}"
    "nt_state obj \<noteq> ECreated" using new(1) obj(5) by (auto simp: sending_def)
  have "\<exists>st'. event_turn cf (e, now, ready) st = Some st' \<and> ev_ok st' \<and> calm st'
    \<and> (nt_state obj' \<noteq> EFinished \<longrightarrow> notifies st' p = Some obj' \<and> subs st' q = Some s)
    \<and> (nt_state obj' = EFinished \<longrightarrow> notifies st' p = None)
    \<and> (nt_state obj' = EFinished \<and> \<not> timed_out now (s\<lparr>sb_notify := None\<rparr>) \<longrightarrow> subs st' q = Some (s\<lparr>sb_notify := None\<rparr>))"
    by (rule turn_at) (use 2(2-6) up vars tg live linked step in auto)
  then obtain st' where st': "event_turn cf (e, now, ready) st = Some st'" "ev_ok st'" "calm st'"
    "notifies st' p = Some obj' \<and> subs st' q = Some s" using live(1) by blast
  have "\<exists>st'' obj''. event_turns cf ts st' = Some st'' \<and> ev_ok st'' \<and> calm st'' \<and> notifies st'' p = Some obj''
      \<and> nt_sub obj'' = Some q \<and> nt_s obj'' = nt_s obj' \<and> subs st'' q = Some s \<and> sending msg [] obj''"
    using 2(1) [OF st'(2,3) _ new(2) _ new(1)] st'(4) 2(8,9) new(3) by simp
  then show ?case using st'(1) new(3) t by simp
qed auto

lemma event_turns_append: "event_turns cf (ts @ ts') st = Option.bind (event_turns cf ts st) (event_turns cf ts')"
  by (induction ts arbitrary: st) (auto split: bind_splits)

lemma last_turn:
  assumes "ev_ok st" "calm st" and obj: "notifies st p = Some obj" "nt_sub obj = Some q" "subs st q = Some s" "sending msg [] obj"
    and vars: "\<And>s. ec_vars cf s \<noteq> None" and tg: "callback_target (sb_callback s) = Some tg"
    and up: "peer_up p (notify_sockaddr tg) (nt_s obj) t" and lease: "sb_timeout s = 0 \<or> fst (snd t) \<le> sb_timeout s"
  shows "\<exists>st'. event_turn cf t st = Some st' \<and> notifies st' p = None
    \<and> subs st' q = Some (s\<lparr>sb_seq := sb_seq s + 1, sb_notify := None\<rparr>)"
proof -
  obtain e now ready where t: "t = (e, now, ready)" by (cases t)
  obtain d where up: "\<And>r. env_ok (e r)" "ready (nt_s obj)" "ne_recv (e p) = Received d" using up t by (auto simp: peer_up_def)
  have waiting: "nt_buffer obj = Some msg" "nt_state obj = EWaitingForResponse" using obj(4) by (simp_all add: sending_def)
  have same: "connected_to q tg obj = obj" using waiting(2) by (simp add: connected_to_def)
  have linked: "sb_notify s = Some p" using ev_okD(6) [OF assms(1) obj(1,2)] obj(3) by auto
  let ?obj = "obj\<lparr>nt_state := EFinished\<rparr>" and ?s = "s\<lparr>sb_seq := sb_seq s + 1\<rparr>"
  have step: "notifies st1 p = Some ?obj \<and> subs st1 q = Some ?s"
    if "notifies st0 p = Some (connected_to q tg obj)" "subs st0 q = Some s" "upnp_event_process_notify cf (e p) p st0 = Some st1"
    for st0 st1
    using that unfolding same
    by (auto simp: upnp_event_process_notify_def upnp_event_recv_def waiting up(3) obj(2) heap Let_def)
  have "\<exists>st'. event_turn cf (e, now, ready) st = Some st' \<and> ev_ok st' \<and> calm st'
    \<and> (nt_state ?obj \<noteq> EFinished \<longrightarrow> notifies st' p = Some ?obj \<and> subs st' q = Some ?s)
    \<and> (nt_state ?obj = EFinished \<longrightarrow> notifies st' p = None)
    \<and> (nt_state ?obj = EFinished \<and> \<not> timed_out now (?s\<lparr>sb_notify := None\<rparr>) \<longrightarrow> subs st' q = Some (?s\<lparr>sb_notify := None\<rparr>))"
    by (rule turn_at) (use assms(1,2) obj up vars tg waiting linked step in auto)
  then show ?thesis using lease t by (auto simp: timed_out_def)
qed

lemma first_piece:
  assumes obj: "notifies st p = Some (connected_to q tg obj)" "nt_state obj = ECreated" "nt_sub obj = Some q" "nt_sent obj = 0" "subs st q = Some s"
    and s: "text_at (drop (tg_path tg) (sb_callback s)) = Some path" "text_at (sb_uuid s) = Some uuid" "ec_vars cf (sb_service s) = Some xml"
    and e: "ne_sockerr e = Some 0" "\<forall>n. ne_malloc e n" "ne_send e (m @ rest) = Sent (length m)"
    and msg: "notifymsg (ec_uda10 cf) path (tg_addrstr tg) (tg_portstr tg) uuid (sb_seq s) xml = m @ rest"
    and buffer: "buffer_loop (\<lambda>_. True) (m @ rest) 1024 = Some n"
    and obj': "obj' = fst (event_send (ne_send e) (m @ rest) ((connected_to q tg obj)\<lparr>nt_buffer := Some (m @ rest),
        nt_buffersize := n, nt_tosend := length (m @ rest), nt_state := ESending\<rparr>))"
  shows "upnp_event_process_notify cf e p st = Some (set_notify p obj' st) \<and> sending (m @ rest) rest obj'
    \<and> nt_sub obj' = Some q \<and> nt_s obj' = nt_s obj"
proof -
  let ?obj1 = "(connected_to q tg obj)\<lparr>nt_buffer := Some (m @ rest), nt_buffersize := n, nt_tosend := length (m @ rest), nt_state := ESending\<rparr>"
  have malloc: "ne_malloc e = (\<lambda>_. True)" using e(2) by auto
  have prep: "upnp_event_prepare cf e p st = Some (set_notify p ?obj1 st)"
    using obj s by (simp add: upnp_event_prepare_def connected_to_def msg malloc buffer Let_def del: length_append)
  have "upnp_event_process_notify cf e p st = Some (set_notify p obj' st)"
    using prep obj(1,2) e(1)
    by (simp add: upnp_event_process_notify_def upnp_event_send_def heap obj' connected_to_def del: length_append)
  moreover have "sending (m @ rest) rest obj' \<and> nt_sub obj' = nt_sub ?obj1 \<and> nt_s obj' = nt_s ?obj1"
    unfolding obj' by (rule send_piece) (use e(3) obj(2,4) in \<open>simp_all add: connected_to_def\<close>)
  ultimately show ?thesis using obj(2,3) by (simp add: connected_to_def)
qed

text \<open>C18: A notification completes, whatever other subscribers and notifications there are and however the peer divides
  the message: in turns of the main loop in which its socket is ready, the peer accepts the connection and takes
  the next piece \<open>m\<close> of what is left (none, if \<open>m\<close> is empty), the pieces taken make up the \<^verbatim>\<open>NOTIFY\<close>
  message for the path, identifier and sequence number of the subscriber, and when the peer has answered in the
  turn after them the notification is gone, the number has gone up by one, and the subscriber is ready for the next
  change. Memory is taken to suffice, and the lease of the subscriber not to be over.\<close>

theorem notification_completes:
  assumes "ev_reach cf st" and vars: "\<forall>s. ec_vars cf s \<noteq> None"
    and obj: "notifies st p = Some obj" "nt_state obj = ECreated" "nt_sub obj = Some q" "subs st q = Some s"
    and s: "callback_target (sb_callback s) = Some tg" "text_at (drop (tg_path tg) (sb_callback s)) = Some path"
      "text_at (sb_uuid s) = Some uuid" "ec_vars cf (sb_service s) = Some xml"
    and pieces: "notifymsg (ec_uda10 cf) path (tg_addrstr tg) (tg_portstr tg) uuid (sb_seq s) xml = concat ms" "takes p ms ts"
    and up: "\<forall>t \<in> set (ts @ [t]). peer_up p (notify_sockaddr tg) (nt_s obj) t"
    and lease: "sb_timeout s = 0 \<or> fst (snd t) \<le> sb_timeout s"
  shows "\<exists>st'. event_turns cf (ts @ [t]) st = Some st' \<and> notifies st' p = None
    \<and> subs st' q = Some (s\<lparr>sb_seq := sb_seq s + 1, sb_notify := None\<rparr>)"
proof -
  have ok: "ev_ok st" "calm st" using ev_reach_ok [OF assms(1)] vars by blast+
  have vars': "ec_vars cf x \<noteq> None" for x using vars by blast
  have linked: "sb_notify s = Some p" using ev_okD(6) [OF ok(1) obj(1,3)] obj(4) by auto
  have sent: "nt_sent obj = 0" using ev_okD(8) [OF ok(1) obj(1)] obj(2) by (simp add: notify_ok_def)
  have "concat ms \<noteq> []" unfolding pieces(1) [symmetric] by (simp add: notifymsg_def)
  then obtain m ms' t1 ts' where split: "ms = m # ms'" "ts = t1 # ts'"
    using pieces(2) by (cases ms; cases ts) auto
  obtain e now ready where t1: "t1 = (e, now, ready)" by (cases t1)
  have up1: "\<And>r. env_ok (e r)" "ready (nt_s obj)" "ne_connect (e p) (notify_sockaddr tg) \<noteq> Connect_failed"
    "ne_sockerr (e p) = Some 0" "\<forall>n. ne_malloc (e p) n" using up split(2) t1 by (auto simp: peer_up_def)
  obtain n where n: "buffer_loop (\<lambda>_. True) (m @ concat ms') 1024 = Some n" using buffer_loop_all by blast
  define obj1 where "obj1 = fst (event_send (ne_send (e p)) (m @ concat ms') ((connected_to q tg obj)\<lparr>nt_buffer := Some (m @ concat ms'),
        nt_buffersize := n, nt_tosend := length (m @ concat ms'), nt_state := ESending\<rparr>))"
  have msg: "notifymsg (ec_uda10 cf) path (tg_addrstr tg) (tg_portstr tg) uuid (sb_seq s) xml = m @ concat ms'"
    "ne_send (e p) (m @ concat ms') = Sent (length m)" using pieces split t1 by simp_all
  have first: "upnp_event_process_notify cf (e p) p st0 = Some (set_notify p obj1 st0) \<and> sending (m @ concat ms') (concat ms') obj1
      \<and> nt_sub obj1 = Some q \<and> nt_s obj1 = nt_s obj"
    if "notifies st0 p = Some (connected_to q tg obj)" "subs st0 q = Some s" for st0
    by (rule first_piece [OF that(1) obj(2,3) sent that(2) s(2-4) up1(4,5) msg(2,1) n obj1_def])
  have new: "sending (m @ concat ms') (concat ms') obj1" "nt_sub obj1 = Some q" "nt_s obj1 = nt_s obj"
    using first [of "set_sub q s (set_notify p (connected_to q tg obj) st)"] by (simp_all add: heap)
  have step: "notifies st1 p = Some obj1 \<and> subs st1 q = Some s"
    if "notifies st0 p = Some (connected_to q tg obj)" "subs st0 q = Some s" "upnp_event_process_notify cf (e p) p st0 = Some st1"
    for st0 st1
    using first [OF that(1,2)] that(2,3) by (auto simp: heap)
  have live: "nt_state obj1 \<noteq> EFinished" "nt_state obj1 \<noteq> EError" using new(1) by (auto simp: sending_def)
  have "\<exists>st'. event_turn cf (e, now, ready) st = Some st' \<and> ev_ok st' \<and> calm st'
    \<and> (nt_state obj1 \<noteq> EFinished \<longrightarrow> notifies st' p = Some obj1 \<and> subs st' q = Some s)
    \<and> (nt_state obj1 = EFinished \<longrightarrow> notifies st' p = None)
    \<and> (nt_state obj1 = EFinished \<and> \<not> timed_out now (s\<lparr>sb_notify := None\<rparr>) \<longrightarrow> subs st' q = Some (s\<lparr>sb_notify := None\<rparr>))"
    by (rule turn_at [where e = e and tg = tg]) (fact ok up1(1-3) vars' obj s(1) live(2) linked step | simp add: obj(2))+
  then obtain st1 where st1: "event_turn cf t1 st = Some st1" "ev_ok st1" "calm st1"
    "notifies st1 p = Some obj1" "subs st1 q = Some s" using live(1) t1 by blast
  have "\<exists>st' obj'. event_turns cf ts' st1 = Some st' \<and> ev_ok st' \<and> calm st' \<and> notifies st' p = Some obj' \<and> nt_sub obj' = Some q
    \<and> nt_s obj' = nt_s obj1 \<and> subs st' q = Some s \<and> sending (m @ concat ms') [] obj'"
    by (rule sending_turns [where ms = ms' and tg = tg]) (use st1 vars' s(1) new pieces(2) split up in auto)
  then obtain st2 obj2 where st2: "event_turns cf ts st = Some st2" "ev_ok st2" "calm st2" "notifies st2 p = Some obj2"
    "nt_sub obj2 = Some q" "nt_s obj2 = nt_s obj" "subs st2 q = Some s" "sending (m @ concat ms') [] obj2"
    using st1(1) split(2) new(3) by auto
  show ?thesis using last_turn [OF st2(2-5,7,8), where t = t and tg = tg and cf = cf] st2(1,6) vars' s(1) up lease by (auto simp: event_turns_append)
qed

definition sample_turn :: "string \<Rightarrow> turn" where
  "sample_turn msg =
     (\<lambda>_. \<lparr>ne_connect = \<lambda>_. Connecting, ne_sockerr = Some 0, ne_malloc = \<lambda>_. True,
        ne_send = (\<lambda>l. Sent (if l = msg then min (length l) 10 else length l)), ne_recv = Received ''HTTP/1.1 200 OK''\<rparr>,
      100, \<lambda>_. True)"

theorem notification_completes_witness:
  "\<exists>msg st'. event_turns sample_events_conf [sample_turn msg, sample_turn msg, sample_turn msg] sample_subscribed = Some st'
    \<and> notifies st' 9 = None \<and> map_option sb_seq (subs st' 4) = Some 1 \<and> take 22 msg = ''NOTIFY / HTTP/1.1'' @ crlf @ ''Hos''"
proof -
  let ?s = "the (subs sample_subscribed 4)"
  let ?obj = "the (notifies sample_subscribed 9)"
  let ?msg = "notifymsg False ''/'' ''10.0.0.2'' [] (''uuid:'' @ sample_uuid) 0 ''<e/>''"
  have uuid: "text_at ((''uuid:'' @ sample_uuid) @ CHR 0x00 # []) = Some (''uuid:'' @ sample_uuid)"
    by (rule text_at_whole) (simp add: sample_uuid_def)
  have path: "text_at (''/'' @ CHR 0x00 # []) = Some ''/''" by (rule text_at_whole) simp
  have target: "callback_target (sb_callback ?s)
      = Some \<lparr>tg_ipv6 = False, tg_addrstr = ''10.0.0.2'', tg_port = 80, tg_portstr = [], tg_path = 15\<rparr>"
    using sample_target by (simp add: sample_subscribed_def)
  have start: "take 22 ?msg = ''NOTIFY / HTTP/1.1'' @ crlf @ ''Hos''" by (simp add: notifymsg_def)
  have long: "10 < length ?msg" by (simp add: notifymsg_def)
  then have cut: "drop 10 ?msg \<noteq> []" "drop 10 ?msg \<noteq> ?msg" by (auto dest: arg_cong [where f = length])
  have takes: "takes 9 [take 10 ?msg, drop 10 ?msg] [sample_turn ?msg, sample_turn ?msg]"
    using long cut by (auto simp: sample_turn_def simp del: drop_eq_Nil)
  have "\<exists>st'. event_turns sample_events_conf ([sample_turn ?msg, sample_turn ?msg] @ [sample_turn ?msg]) sample_subscribed = Some st'
    \<and> notifies st' 9 = None \<and> subs st' 4 = Some (?s\<lparr>sb_seq := sb_seq ?s + 1, sb_notify := None\<rparr>)"
    by (rule notification_completes [OF sample_reach _ _ _ _ _ target _ _ _ _ takes, where obj = ?obj and path = "''/''"
          and uuid = "''uuid:'' @ sample_uuid" and xml = "''<e/>''"])
      (use uuid path in \<open>auto simp: sample_subscribed_def sample_events_conf_def sample_turn_def peer_up_def env_ok_def\<close>)
  then obtain st' where "event_turns sample_events_conf [sample_turn ?msg, sample_turn ?msg, sample_turn ?msg] sample_subscribed = Some st'"
    "notifies st' 9 = None" "subs st' 4 = Some (?s\<lparr>sb_seq := sb_seq ?s + 1, sb_notify := None\<rparr>)" by auto
  then show ?thesis using start by (intro exI [of _ ?msg] exI [of _ st']) (simp add: sample_subscribed_def)
qed

text \<open>A callback whose host does not end, such as \<^verbatim>\<open>http://10.0.0.2\<close>, is taken, and the next turn of the main loop
  reads past its end.\<close>

theorem callback_without_path_overreads:
  assumes "map_of event_urls eventurl \<noteq> None" and "7 \<le> length callback" and "\<not> host_ends callback"
    and "ce_mem e = Some p" and "0 \<le> ce_socket e" and "ce_nonblocking e"
  shows "\<exists>sid st. upnpevents_addSubscriber igd src (Some q) e now eventurl callback timeout no_events = Some (Some sid, st)
    \<and> upnpevents_selectfds ns fds st = None"
proof -
  obtain service where service: "map_of event_urls eventurl = Some service" using assms(1) by blast
  have none: "callback_target (callback @ [CHR 0x00]) = None" using callback_target_ends assms(3) by blast
  have some: "callback \<noteq> []" using assms(2) by auto
  have "\<exists>sid st. upnpevents_addSubscriber igd src (Some q) e now eventurl callback timeout no_events = Some (Some sid, st)
    \<and> notifylist st = [p] \<and> (\<exists>obj. notifies st p = Some obj \<and> nt_sub obj = Some q \<and> nt_state obj = ECreated \<and> nt_s obj = ce_socket e)
    \<and> (\<exists>s. subs st q = Some s \<and> sb_callback s = callback @ [CHR 0x00])"
    using assms(2,4-6) some
    by (cases "timeout = 0")
      (simp_all add: upnpevents_addSubscriber_def newSubscriber_def service upnp_event_create_notify_def no_events_def heap Let_def)
  then obtain sid st where run: "upnpevents_addSubscriber igd src (Some q) e now eventurl callback timeout no_events = Some (Some sid, st)"
    and st: "notifylist st = [p]" "\<exists>obj. notifies st p = Some obj \<and> nt_sub obj = Some q \<and> nt_state obj = ECreated \<and> nt_s obj = ce_socket e"
      "\<exists>s. subs st q = Some s \<and> sb_callback s = callback @ [CHR 0x00]" by blast
  have "upnp_event_notify_connect (ns p) p st = None"
    using st none by (auto simp: upnp_event_notify_connect_def)
  then have "upnpevents_selectfds ns fds st = None" using st assms(5) by (auto simp: upnpevents_selectfds_def)
  then show ?thesis using run by blast
qed

theorem callback_without_path_overreads_witness:
  "\<exists>sid st. upnpevents_addSubscriber [] (Generated sample_uuid) (Some 4) sample_create 0 ''/evt/IPConn'' ''http://10.0.0.2'' 1800 no_events
      = Some (Some sid, st)
    \<and> upnpevents_selectfds (fst (sample_turn [])) \<lparr>fd_read = [], fd_write = [], fd_max = 0\<rparr> st = None"
  using callback_without_path_overreads [of "''/evt/IPConn''" "''http://10.0.0.2''" sample_create 9]
  by (simp add: sample_create_def event_urls_def host_ends_def)

text \<open>\<^verbatim>\<open>UNSUBSCRIBE\<close> removes the newest subscriber with the identifier and nothing else, and takes it out of its
  notification; an identifier that none has is refused.\<close>

theorem unsubscribe_exact:
  assumes "ev_ok st"
  shows "(case find (\<lambda>q. \<exists>s. subs st q = Some s \<and> has_sid sid s) (subscriberlist st) of
      None \<Rightarrow> upnpevents_removeSubscriber sid st = Some (- 1, st)
    | Some q \<Rightarrow> \<exists>st'. upnpevents_removeSubscriber sid st = Some (0, st') \<and> subs st' = (subs st)(q := None)
        \<and> notifies st' = (\<lambda>p. map_option (\<lambda>obj. if nt_sub obj = Some q then obj\<lparr>nt_sub := None\<rparr> else obj) (notifies st p)))"
proof -
  have one: "\<exists>st'. remove_subscriber q s st = Some st' \<and> subs st' = (subs st)(q := None)
      \<and> notifies st' = (\<lambda>p. map_option (\<lambda>obj. if nt_sub obj = Some q then obj\<lparr>nt_sub := None\<rparr> else obj) (notifies st p))"
    if s: "subs st q = Some s" for q s
  proof (cases "sb_notify s")
    case None
    then have "nt_sub obj \<noteq> Some q" if "notifies st p = Some obj" for p obj using ev_okD(6) [OF assms that] s by fastforce
    then have "notifies st p = map_option (\<lambda>obj. if nt_sub obj = Some q then obj\<lparr>nt_sub := None\<rparr> else obj) (notifies st p)" for p
      by (cases "notifies st p") auto
    then show ?thesis using None by (auto simp: remove_subscriber_def heap)
  next
    case (Some p)
    obtain obj where obj: "notifies st p = Some obj" "nt_sub obj = Some q" using ev_okD(5) [OF assms s Some] by blast
    have "nt_sub o' \<noteq> Some q" if "notifies st r = Some o'" "r \<noteq> p" for r o'
      using ev_okD(6) [OF assms that(1), of q] s Some that(2) by auto
    then have "((notifies st)(p \<mapsto> obj\<lparr>nt_sub := None\<rparr>)) r
        = map_option (\<lambda>obj. if nt_sub obj = Some q then obj\<lparr>nt_sub := None\<rparr> else obj) (notifies st r)" for r
      using obj by (cases "notifies st r") auto
    then show ?thesis using Some obj by (auto simp: remove_subscriber_def heap)
  qed
  have "(case find (\<lambda>q. \<exists>s. subs st q = Some s \<and> has_sid sid s) qs of
      None \<Rightarrow> remove_loop sid qs st = Some (- 1, st)
    | Some q \<Rightarrow> \<exists>st'. remove_loop sid qs st = Some (0, st') \<and> subs st' = (subs st)(q := None)
        \<and> notifies st' = (\<lambda>p. map_option (\<lambda>obj. if nt_sub obj = Some q then obj\<lparr>nt_sub := None\<rparr> else obj) (notifies st p)))"
    if "set qs \<subseteq> dom (subs st)" for qs
    using that
  proof (induction qs)
    case (Cons q qs)
    then obtain s where s: "subs st q = Some s" by auto
    show ?case
    proof (cases "has_sid sid s")
      case True
      then show ?thesis using s one [OF s] by auto
    next
      case False
      then have "remove_loop sid (q # qs) st = remove_loop sid qs st"
        and "find (\<lambda>q. \<exists>s. subs st q = Some s \<and> has_sid sid s) (q # qs) = find (\<lambda>q. \<exists>s. subs st q = Some s \<and> has_sid sid s) qs"
        using s by simp_all
      with Cons show ?thesis by (simp only: set_simps insert_subset simp_thms)
    qed
  qed simp
  then show ?thesis using ev_okD(2) [OF assms] unfolding upnpevents_removeSubscriber_def by simp
qed

theorem unsubscribe_exact_witness:
  "\<exists>st'. upnpevents_removeSubscriber (''uuid:'' @ sample_uuid) sample_subscribed = Some (0, st') \<and> subs st' 4 = None"
proof -
  have "ev_ok sample_subscribed" using ev_reach_ok [OF sample_reach] by (simp add: sample_events_conf_def)
  from unsubscribe_exact [OF this, of "''uuid:'' @ sample_uuid"] show ?thesis
    by (auto simp: sample_subscribed_def has_sid_def sample_uuid_def)
qed

end
