(* ===== verification/Http_Server.thy ===== *)
theory Http_Server
  imports Http_Response Upnp_Events Soap_Server Lan_Addr
begin

text \<open>
  The server of \<^verbatim>\<open>upnphttp.c\<close>: the query of a request, \<^verbatim>\<open>POST\<close> with its SOAP action, subscriptions, and the
  states of a connection. It works on the state of the SOAP actions and that of the events. A run that
  meets a fault (memory past a buffer, a freed object, a fault of an action) has no value.
\<close>

section \<open>What a request may touch\<close>

record 'st web_state =
  wb_igd :: "'st igd_state"
  wb_events :: event_state

text \<open>What the system answers while a request is served: the clock, a new subscriber's block, identifier and
  notification, and the calls of \<^verbatim>\<open>send\<close>.\<close>

record web_env =
  we_now :: int
  we_sub :: "ptr option"
  we_uuid :: uuid_source
  we_create :: create_env
  we_send :: "send_result list"

type_synonym 'st served = "(upnphttp \<times> string \<times> 'st web_state) option"

definition served :: "'st web_state \<Rightarrow> (upnphttp \<times> string) option \<Rightarrow> 'st served" where
  "served w r = map_option (\<lambda>(h, b). (h, b, w)) r"

section \<open>SOAP requests\<close>

definition soap_request_of :: "upnphttp \<Rightarrow> soap_request" where
  "soap_request_of h =
     \<lparr>req_content = take (nat (req_contentlen (h_headers h))) (drop (req_contentoff h) (req_buf h)),
      clientaddr = h_clientaddr h, clientaddr_str = h_clientaddr_str h, clientaddr_v6 = h_clientaddr_v6 h, req_peercert = False\<rparr>"

text \<open>\<^verbatim>\<open>BuildSendAndCloseSoapResp\<close> and \<^verbatim>\<open>SoapError\<close>: the response with what an action answers.\<close>

definition soap_reply_response :: "web_conf \<Rightarrow> upnphttp \<Rightarrow> soap_reply \<Rightarrow> upnphttp option" where
  "soap_reply_response cf h r =
     (case r of Response text \<Rightarrow> BuildResp2_upnphttp cf h 200 ''OK'' text
      | SoapError code msg \<Rightarrow> BuildResp2_upnphttp cf h 500 ''Internal Server Error'' (soap_error_body code msg))"

definition body_complete :: "upnphttp \<Rightarrow> bool" where
  "body_complete h \<longleftrightarrow> req_contentlen (h_headers h) \<le> int (req_buflen h) - int (req_contentoff h)"

definition ProcessHTTPPOST_upnphttp ::
  "web_conf \<Rightarrow> 'st fw_ops \<Rightarrow> soap_conf \<Rightarrow> web_env \<Rightarrow> upnphttp \<Rightarrow> 'st web_state \<Rightarrow> 'st served" where
  "ProcessHTTPPOST_upnphttp cf ops so e h w =
     (if body_complete h then
        (if 0 < req_soapActionOff (h_headers h) then
           (case ExecuteSoapAction ops so (soap_request_of h) (drop (req_soapActionOff (h_headers h)) (req_buf h))
                (req_soapActionLen (h_headers h)) (wb_igd w) of
              Some (Inr r, igd) \<Rightarrow> served (w\<lparr>wb_igd := igd\<rparr>) (reply_and_close (we_send e) (soap_reply_response cf h r))
            | _ \<Rightarrow> None)
         else served w (reply_and_close (we_send e)
           (BuildResp2_upnphttp cf (set_flags FLAG_HTML h) 400 ''Bad Request'' ''<html><body>Bad request</body></html>'')))
      else if has_flag h FLAG_CONTINUE then
        (let h1 = h\<lparr>res_buf := HttpVer h @ '' 100 Continue'' @ crlf @ crlf, res_sent := 0,
               res_buf_alloclen := (if res_buf_alloclen h = 0 then 256 else res_buf_alloclen h), h_state := ESendingContinue\<rparr>;
             (h2, b, fin) = SendResp_upnphttp (we_send e) h1
         in Some (if fin then h2\<lparr>h_state := EWaitingForHttpContent\<rparr> else h2, b, w))
      else Some (h\<lparr>h_state := EWaitingForHttpContent\<rparr>, [], w))"

section \<open>Subscriptions\<close>

text \<open>The host of a URL of the \<^verbatim>\<open>Callback\<close> header that starts at \<open>off\<close>, and the offset behind it; \<open>fin\<close> is the end of
  the header.\<close>

definition url_host :: "string \<Rightarrow> nat \<Rightarrow> nat \<Rightarrow> (bool \<times> string \<times> nat) option" where
  "url_host buf off fin =
     (case drop (off + 8) buf of [] \<Rightarrow> None
      | c # r \<Rightarrow>
        (if c = CHR ''['' then
           map_option (\<lambda>(a, _). (True, a, off + 9 + length a))
             (copy_until (\<lambda>x. x = CHR '']'' \<or> x = CHR ''>'') (min 47 (fin - (off + 9))) r)
         else
           map_option (\<lambda>(a, _). (False, a, off + 8 + length a))
             (copy_until (\<lambda>x. x = CHR ''/'' \<or> x = CHR '':'' \<or> x = CHR ''>'') (min 47 (fin - (off + 8))) (c # r))))"

text \<open>The host is the address the request came from.\<close>

definition host_is_client :: "upnphttp \<Rightarrow> bool \<Rightarrow> string \<Rightarrow> bool" where
  "host_is_client h v6 host =
     (if v6 then (case inet_pton6 (cstring host) of None \<Rightarrow> False | Some a \<Rightarrow> h_ipv6 h \<and> a = h_clientaddr_v6 h)
      else (case inet_pton4 (cstring host) of None \<Rightarrow> False
         | Some b \<Rightarrow>
           (if h_ipv6 h then v4mapped (h_clientaddr_v6 h) \<and> readnu32 b 0 = ucast (h_clientaddr_v6 h)
            else readnu32 b 0 = h_clientaddr h)))"

text \<open>The offset of the next \<open>c\<close> from \<open>p\<close> on, or the end of the header.\<close>

definition next_char :: "char \<Rightarrow> string \<Rightarrow> nat \<Rightarrow> nat \<Rightarrow> nat" where
  "next_char c buf fin p = p + length (takeWhile (\<lambda>x. x \<noteq> c) (take (fin - p) (drop p buf)))"

lemma next_char_ge: "p \<le> next_char c buf fin p" by (simp add: next_char_def)

lemma url_host_after: "url_host buf off fin = Some (v6, host, p) \<Longrightarrow> off < p"
  by (auto simp: url_host_def split: list.splits if_splits)

text \<open>The URL at \<open>off\<close>: its offset and length if it leads back to the client, or where to look for the next one.\<close>

definition check_url :: "upnphttp \<Rightarrow> nat \<Rightarrow> nat \<Rightarrow> ((nat \<times> nat) + nat) option" where
  "check_url h off fin =
     (if take 8 (drop off (req_buf h)) \<noteq> ''<http://'' then Some (Inr (off + 1))
      else map_option (\<lambda>(v6, host, p).
          if host_is_client h v6 host then Inl (off + 1, next_char CHR ''>'' (req_buf h) fin p - (off + 1)) else Inr p)
        (url_host (req_buf h) off fin))"

definition next_url :: "string \<Rightarrow> nat \<Rightarrow> nat \<Rightarrow> nat option" where
  "next_url buf fin p =
     (let p1 = next_char CHR ''>'' buf fin p; p2 = next_char CHR ''<'' buf fin p1
      in if buf ! p1 \<noteq> CHR ''>'' \<or> buf ! p2 \<noteq> CHR ''<'' then None else Some p2)"

lemma check_url_after: "check_url h off fin = Some (Inr p) \<Longrightarrow> off < p"
  by (auto simp: check_url_def dest: url_host_after split: if_splits)

lemma next_url_after: "next_url buf fin p = Some p2 \<Longrightarrow> p \<le> p2"
  using next_char_ge [of p "CHR ''>''" buf fin] next_char_ge [of "next_char CHR ''>'' buf fin p" "CHR ''<''" buf fin]
  by (auto simp: next_url_def Let_def split: if_splits)

text \<open>The first URL of the header that leads back to the client: its offset and length, or \<open>Some None\<close>. The offsets the
  code leaves in the connection are not read again.\<close>

function check_urls :: "upnphttp \<Rightarrow> nat \<Rightarrow> nat \<Rightarrow> (nat \<times> nat) option option" where
  "check_urls h off len =
     (if off = 0 \<or> len < 10 then Some None
      else if length (req_buf h) \<le> off + len then None
      else (case check_url h off (off + len) of None \<Rightarrow> None
        | Some (Inl u) \<Rightarrow> Some (Some u)
        | Some (Inr p) \<Rightarrow>
          (case next_url (req_buf h) (off + len) p of None \<Rightarrow> Some None
           | Some p2 \<Rightarrow> check_urls h p2 (len - (p2 - off)))))"
  by pat_completeness auto
termination
  by (relation "measure (\<lambda>(h, off, len). len)") (auto dest!: check_url_after next_url_after)

declare check_urls.simps [simp del]

definition checkCallbackURL :: "upnphttp \<Rightarrow> (nat \<times> nat) option option" where
  "checkCallbackURL h = check_urls h (req_CallbackOff (h_headers h)) (req_CallbackLen (h_headers h))"

definition part_of :: "upnphttp \<Rightarrow> nat \<Rightarrow> nat \<Rightarrow> string" where
  "part_of h off len = take len (drop off (req_buf h))"

definition set_headers :: "(http_headers \<Rightarrow> http_headers) \<Rightarrow> upnphttp \<Rightarrow> upnphttp" where
  "set_headers f h = h\<lparr>h_headers := f (h_headers h)\<rparr>"

text \<open>With a \<^verbatim>\<open>Callback\<close> header a new subscription, otherwise the renewal of one.\<close>

definition ProcessHTTPSubscribe_upnphttp ::
  "web_conf \<Rightarrow> web_env \<Rightarrow> string \<Rightarrow> upnphttp \<Rightarrow> 'st web_state \<Rightarrow> 'st served" where
  "ProcessHTTPSubscribe_upnphttp cf e path h0 w =
     (let h = (if wc_no_infinite cf \<and> req_Timeout (h_headers h0) = 0 then set_headers (req_Timeout_update (\<lambda>_. 1800)) h0 else h0);
          r = h_headers h; close = reply_and_close (we_send e); failed = (\<lambda>h. BuildResp2_upnphttp cf h 412 ''Precondition Failed'' []);
          incompatible = BuildResp2_upnphttp cf h 400 ''Incompatible header fields'' []
      in (if req_CallbackOff r = 0 \<and> req_SIDOff r = 0 then served w (close (failed h))
          else if 0 < req_CallbackOff r then
            (if wc_strict cf \<and> 0 < req_SIDOff r then served w (close incompatible)
             else if wc_strict cf \<and> (req_NTOff r = 0 \<or> req_NTLen r \<noteq> 10 \<or> part_of h (req_NTOff r) 10 \<noteq> ''upnp:event'')
             then served w (close (failed h))
             else (case checkCallbackURL h of None \<Rightarrow> None
                | Some None \<Rightarrow> served w (close (failed h))
                | Some (Some (off, len)) \<Rightarrow>
                  Option.bind (upnpevents_addSubscriber (wc_uuid_igd cf) (we_uuid e) (we_sub e) (we_create e) (we_now e) path
                      (part_of h off len) (req_Timeout r) (wb_events w)) (\<lambda>(sid, ev).
                    (let h1 = (case sid of None \<Rightarrow> set_flags FLAG_TIMEOUT h
                              | Some s \<Rightarrow> (set_flags (FLAG_TIMEOUT OR FLAG_SID) h)\<lparr>res_SID := cstring s\<rparr>)
                     in served (w\<lparr>wb_events := ev\<rparr>) (close (BuildResp_upnphttp cf h1 []))))))
          else if wc_strict cf \<and> 0 < req_NTOff r then served w (close incompatible)
          else Option.bind (upnpevents_renewSubscription (wc_strict cf) (we_now e) (part_of h (req_SIDOff r) (req_SIDLen r))
                 (req_Timeout r) (wb_events w)) (\<lambda>(sid, ev).
               served (w\<lparr>wb_events := ev\<rparr>) (close
                 (case sid of None \<Rightarrow> failed h
                  | Some s \<Rightarrow> BuildResp_upnphttp cf ((set_flags (FLAG_TIMEOUT OR FLAG_SID) h)\<lparr>res_SID := cstring s\<rparr>) [])))))"

definition ProcessHTTPUnSubscribe_upnphttp ::
  "web_conf \<Rightarrow> web_env \<Rightarrow> upnphttp \<Rightarrow> 'st web_state \<Rightarrow> 'st served" where
  "ProcessHTTPUnSubscribe_upnphttp cf e h w =
     (let r = h_headers h; close = reply_and_close (we_send e) in
      (if wc_strict cf \<and> (req_SIDOff r = 0 \<or> req_SIDLen r = 0)
       then served w (close (BuildResp2_upnphttp cf h 412 ''Precondition Failed'' []))
       else if wc_strict cf \<and> (0 < req_CallbackOff r \<or> 0 < req_NTOff r)
       then served w (close (BuildResp2_upnphttp cf h 400 ''Incompatible header fields'' []))
       else Option.bind (upnpevents_removeSubscriber (part_of h (req_SIDOff r) (req_SIDLen r)) (wb_events w)) (\<lambda>(i, ev).
         served (w\<lparr>wb_events := ev\<rparr>) (close
           (if i < 0 then BuildResp2_upnphttp cf h 412 ''Precondition Failed'' [] else BuildResp_upnphttp cf h [])))))"

section \<open>The query\<close>

text \<open>The three parts of the first line, each cut to its array.\<close>

definition request_line :: "string \<Rightarrow> (string \<times> string \<times> string) option" where
  "request_line buf = do {
     (cmd, m1) \<leftarrow> copy_until (\<lambda>c. c = CHR '' '' \<or> c = CHR 0x0D) 15 buf;
     (_, m2) \<leftarrow> scan_to (\<lambda>c. c \<noteq> CHR '' '') m1;
     (url, m3) \<leftarrow> copy_until (\<lambda>c. c = CHR '' '' \<or> c = CHR 0x0D) 127 m2;
     (_, m4) \<leftarrow> scan_to (\<lambda>c. c \<noteq> CHR '' '') m3;
     (ver, _) \<leftarrow> copy_until (\<lambda>c. c = CHR 0x0D) 15 m4;
     Some (cstring cmd, cstring url, cstring ver) }"

text \<open>A host that is a name may come from a page of another site; an address in brackets is not looked at.\<close>

definition host_refused :: "upnphttp \<Rightarrow> bool" where
  "host_refused h =
     (let r = h_headers h; host = part_of h (req_HostOff r) (req_HostLen r) in
      0 < req_HostOff r \<and> 0 < req_HostLen r
      \<and> (if hd host = CHR ''['' then
           (let p = next_char CHR '']'' (req_buf h) (req_HostOff r + req_HostLen r) (req_HostOff r + 1) in req_buf h ! p \<noteq> CHR '']'')
         else \<not> list_all (\<lambda>c. c = CHR '':'' \<or> c = CHR ''.'' \<or> isdigit c) host))"

definition path_desc :: "string list" where
  "path_desc = [''/rootDesc.xml'', ''/WANIPCn.xml'', ''/WANCfg.xml'', ''/L3F.xml'', ''/WANIP6FC.xml'', ''/DP.xml'']"

definition strip_random :: "web_conf \<Rightarrow> string \<Rightarrow> string option" where
  "strip_random cf url =
     (case wc_random_url cf of None \<Rightarrow> Some url
      | Some r \<Rightarrow> if take (length r + 1) url = CHR ''/'' # r then Some (drop (length r + 1) url) else None)"

definition ProcessHttpGet :: "web_conf \<Rightarrow> web_env \<Rightarrow> string \<Rightarrow> upnphttp \<Rightarrow> (upnphttp \<times> string) option" where
  "ProcessHttpGet cf e url h =
     (case find (\<lambda>p. strcasecmp_eq p url) path_desc of
        Some p \<Rightarrow> sendXMLdesc cf (we_send e) h (wc_desc cf p)
      | None \<Rightarrow>
        (if take 5 url = ''/ctl/'' then Send405 cf (we_send e) (set_flags FLAG_ALLOW_POST h)
         else if take 5 url = ''/evt/'' then Send405 cf (we_send e) (set_flags FLAG_ALLOW_SUB_UNSUB h)
         else Send404 cf (we_send e) h))"

definition ProcessHttpQuery_upnphttp ::
  "web_conf \<Rightarrow> 'st fw_ops \<Rightarrow> soap_conf \<Rightarrow> web_env \<Rightarrow> upnphttp \<Rightarrow> 'st web_state \<Rightarrow> 'st served" where
  "ProcessHttpQuery_upnphttp cf ops so e h w =
     Option.bind (request_line (req_buf h)) (\<lambda>(cmd, url0, ver).
     Option.bind (ParseHttpHeaders (wc_strict cf) (wc_jwt cf) (h\<lparr>HttpVer := ver\<rparr>)) (\<lambda>h1.
       (if host_refused h1 then served w (Send404 cf (we_send e) h1)
        else (case strip_random cf url0 of None \<Rightarrow> served w (Send404 cf (we_send e) h1)
          | Some url \<Rightarrow>
            (if cmd = ''POST'' then ProcessHTTPPOST_upnphttp cf ops so e (h1\<lparr>req_command := EPost\<rparr>) w
             else if cmd = ''GET'' then served w (ProcessHttpGet cf e url (h1\<lparr>req_command := EGet\<rparr>))
             else if cmd = ''SUBSCRIBE'' then ProcessHTTPSubscribe_upnphttp cf e url (h1\<lparr>req_command := ESubscribe\<rparr>) w
             else if cmd = ''UNSUBSCRIBE'' then ProcessHTTPUnSubscribe_upnphttp cf e (h1\<lparr>req_command := EUnSubscribe\<rparr>) w
             else served w (Send501 cf (we_send e) h1))))))"

section \<open>The states of a connection\<close>

text \<open>The bytes received follow the earlier ones. While the headers are awaited a terminator is kept behind
  them, while the body is awaited it is not.\<close>

definition with_data :: "string \<Rightarrow> string \<Rightarrow> upnphttp \<Rightarrow> upnphttp" where
  "with_data d terminator h =
     h\<lparr>req_buf := take (req_buflen h) (req_buf h) @ d @ terminator, req_buflen := req_buflen h + length d\<rparr>"

definition Process_upnphttp ::
  "web_conf \<Rightarrow> 'st fw_ops \<Rightarrow> soap_conf \<Rightarrow> web_env \<Rightarrow> recv_result \<Rightarrow> upnphttp \<Rightarrow> 'st web_state \<Rightarrow> 'st served" where
  "Process_upnphttp cf ops so e recv h w =
     (case h_state h of
        EWaitingForHttpRequest \<Rightarrow>
          (case recv of Recv_again \<Rightarrow> Some (h, [], w)
           | Recv_error \<Rightarrow> Some (h\<lparr>h_state := EToDelete\<rparr>, [], w)
           | Received d \<Rightarrow>
             (if d = [] then Some (h\<lparr>h_state := EToDelete\<rparr>, [], w)
              else (let h1 = with_data d [CHR 0x00] h in
                 (case findendheaders (req_buf h1) (req_buflen h1) of None \<Rightarrow> Some (h1, [], w)
                  | Some n \<Rightarrow> ProcessHttpQuery_upnphttp cf ops so e (h1\<lparr>req_contentoff := n + 4\<rparr>) w))))
      | EWaitingForHttpContent \<Rightarrow>
          (case recv of Recv_again \<Rightarrow> Some (h, [], w)
           | Recv_error \<Rightarrow> Some (h\<lparr>h_state := EToDelete\<rparr>, [], w)
           | Received d \<Rightarrow>
             (if d = [] then Some (h\<lparr>h_state := EToDelete\<rparr>, [], w)
              else (let h1 = with_data d [] h in
                 (if body_complete h1 then ProcessHTTPPOST_upnphttp cf ops so e h1 w else Some (h1, [], w)))))
      | ESendingContinue \<Rightarrow>
          (let (h1, b, fin) = SendResp_upnphttp (we_send e) h
           in Some (if fin then h1\<lparr>h_state := EWaitingForHttpContent\<rparr> else h1, b, w))
      | ESendingAndClosing \<Rightarrow> served w (Some (SendRespAndClose_upnphttp (we_send e) h))
      | EToDelete \<Rightarrow> Some (h, [], w))"

section \<open>Events go back to the subscriber\<close>

lemma check_urls_found:
  assumes "check_urls h off len = Some (Some (o1, l1))"
  obtains o0 fin where "check_url h o0 fin = Some (Inl (o1, l1))" "fin < length (req_buf h)"
  using assms
proof (induction h off len rule: check_urls.induct)
  case (1 h off len)
  from "1.prems"(2) show ?case
    by (subst (asm) check_urls.simps)
      (auto split: if_splits option.splits sum.splits intro: "1.prems"(1) "1.IH")
qed

lemma take_next_char:
  "take (next_char c buf fin p - p) (drop p buf) = takeWhile (\<lambda>x. x \<noteq> c) (take (fin - p) (drop p buf))"
  by (simp add: next_char_def) (metis append_eq_conv_conj append_take_drop_id takeWhile_dropWhile_id append.assoc)

text \<open>The parts of a callback that was found to lead back: the host, the text that follows it up to \<^verbatim>\<open>>\<close>.\<close>

lemma check_url_parts:
  assumes "check_url h off fin = Some (Inl (o1, l1))"
  obtains v6 host t where "host_is_client h v6 host" "part_of h o1 l1 = ''http://'' @ (if v6 then ''['' else []) @ host @ t"
    "length host \<le> 47"
    "v6 \<longrightarrow> (\<forall>c \<in> set host. c \<noteq> CHR '']'' \<and> c \<noteq> CHR ''>'')" "v6 \<and> t \<noteq> [] \<and> length host < 47 \<longrightarrow> hd t = CHR '']''"
    "\<not> v6 \<longrightarrow> (\<forall>c \<in> set host. c \<noteq> CHR ''/'' \<and> c \<noteq> CHR '':'' \<and> c \<noteq> CHR ''>'')"
    "\<not> v6 \<and> t \<noteq> [] \<and> length host < 47 \<longrightarrow> (hd t = CHR ''/'' \<or> hd t = CHR '':'')"
    "\<not> v6 \<and> host \<noteq> [] \<longrightarrow> hd host \<noteq> CHR ''[''"
proof -
  let ?buf = "req_buf h"
  have start: "take 8 (drop off ?buf) = ''<http://''" and o1: "o1 = off + 1"
    using assms by (auto simp: check_url_def split: if_splits)
  obtain v6 host p where url: "url_host ?buf off fin = Some (v6, host, p)" and client: "host_is_client h v6 host"
    and l1: "l1 = next_char CHR ''>'' ?buf fin p - (off + 1)"
    using assms by (auto simp: check_url_def split: if_splits)
  let ?t = "takeWhile (\<lambda>x. x \<noteq> CHR ''>'') (take (fin - p) (drop p ?buf))"
  have p: "off + 8 \<le> p" using url by (auto simp: url_host_def split: list.splits if_splits)
  have "p \<le> next_char CHR ''>'' ?buf fin p" by (rule next_char_ge)
  then have l1': "l1 = 7 + (p - (off + 8)) + (next_char CHR ''>'' ?buf fin p - p)" using p l1 by simp
  have size: "off + 8 \<le> length ?buf" using arg_cong [OF start, of length] by simp
  have "drop off ?buf = ''<http://'' @ drop (off + 8) ?buf" using start by (metis append_take_drop_id drop_drop add.commute)
  then have "drop 1 (drop off ?buf) = ''http://'' @ drop (off + 8) ?buf" by simp
  then have http: "drop (off + 1) ?buf = ''http://'' @ drop (off + 8) ?buf" by (simp add: add.commute)
  have mid: "drop (off + 8) ?buf = take (p - (off + 8)) (drop (off + 8) ?buf) @ drop p ?buf"
    using p by (metis append_take_drop_id drop_drop le_add_diff_inverse2)
  have dd: "drop (p - (off + 8)) (drop (off + 8) ?buf) = drop p ?buf" using p by simp
  have part: "part_of h o1 l1 = ''http://'' @ take (p - (off + 8)) (drop (off + 8) ?buf) @ ?t"
  proof -
    have "part_of h o1 l1 = take (7 + ((p - (off + 8)) + (next_char CHR ''>'' ?buf fin p - p))) (''http://'' @ drop (off + 8) ?buf)"
      unfolding part_of_def o1 l1' http by (simp only: add.assoc)
    also have "\<dots> = ''http://'' @ take ((p - (off + 8)) + (next_char CHR ''>'' ?buf fin p - p)) (drop (off + 8) ?buf)"
      using take_append [of "7 + n" "''http://''" "drop (off + 8) ?buf" for n] by simp
    also have "take ((p - (off + 8)) + (next_char CHR ''>'' ?buf fin p - p)) (drop (off + 8) ?buf)
        = take (p - (off + 8)) (drop (off + 8) ?buf) @ take (next_char CHR ''>'' ?buf fin p - p) (drop p ?buf)"
      by (simp only: take_add dd)
    finally show ?thesis by (simp only: take_next_char)
  qed
  obtain c r where m: "drop (off + 8) ?buf = c # r" using url by (auto simp: url_host_def split: list.splits)
  have t_hd: "hd ?t = hd q" if "drop p ?buf = q" "?t \<noteq> []" for q
    using that by (cases q) (auto simp: take_Cons' split: if_splits)
  have t_first: "?t = [] \<or> hd ?t \<noteq> CHR ''>''"
    using hd_in_set [of ?t] set_takeWhileD [of "hd ?t" "\<lambda>x. x \<noteq> CHR ''>''" "take (fin - p) (drop p ?buf)"] by blast
  have t_fin: "?t = []" if "fin \<le> p" using that by simp
  show thesis
  proof (cases "c = CHR ''[''")
    case True
    obtain q where q: "copy_until (\<lambda>x. x = CHR '']'' \<or> x = CHR ''>'') (min 47 (fin - (off + 9))) r = Some (host, q)"
      and v6: "v6" "p = off + 9 + length host" using url True m by (auto simp: url_host_def)
    note parts = copy_until_parts [OF q]
    have "p - (off + 8) = Suc (length host)" using v6 by simp
    then have "take (p - (off + 8)) (drop (off + 8) ?buf) = ''['' @ host" using m True parts by simp
    moreover have rest: "drop p ?buf = q"
    proof -
      have "drop p ?buf = drop (Suc (length host)) (drop (off + 8) ?buf)"
        unfolding drop_drop v6(2) by (rule arg_cong2 [where f = drop]) simp_all
      then show ?thesis using m parts by simp
    qed
    moreover have "hd ?t = CHR '']''" if "?t \<noteq> []" "length host < 47"
    proof -
      have "p < fin" using t_fin that(1) by linarith
      then have "length host \<noteq> min 47 (fin - (off + 9))" using v6 that(2) by auto
      then have "hd q = CHR '']'' \<or> hd q = CHR ''>''" using parts by auto
      then show ?thesis using t_hd [OF rest that(1)] t_first that(1) by auto
    qed
    ultimately show ?thesis using that [of v6 host ?t] client part parts v6(1) by auto
  next
    case False
    obtain q where q: "copy_until (\<lambda>x. x = CHR ''/'' \<or> x = CHR '':'' \<or> x = CHR ''>'') (min 47 (fin - (off + 8))) (c # r) = Some (host, q)"
      and v6: "\<not> v6" "p = off + 8 + length host" using url False m by (auto simp: url_host_def)
    note parts = copy_until_parts [OF q]
    have "take (p - (off + 8)) (drop (off + 8) ?buf) = host" using m parts v6(2) by simp
    moreover have rest: "drop p ?buf = q"
    proof -
      have "drop p ?buf = drop (length host) (drop (off + 8) ?buf)"
        unfolding drop_drop v6(2) by (rule arg_cong2 [where f = drop]) simp_all
      then show ?thesis using m parts by simp
    qed
    moreover have "hd ?t = CHR ''/'' \<or> hd ?t = CHR '':''" if "?t \<noteq> []" "length host < 47"
    proof -
      have "p < fin" using t_fin that(1) by linarith
      then have "length host \<noteq> min 47 (fin - (off + 8))" using v6 that(2) by auto
      then have "hd q = CHR ''/'' \<or> hd q = CHR '':'' \<or> hd q = CHR ''>''" using parts by auto
      then show ?thesis using t_hd [OF rest that(1)] t_first that(1) by auto
    qed
    moreover have "host \<noteq> [] \<Longrightarrow> hd host \<noteq> CHR ''[''" using parts False by (cases host) auto
    ultimately show ?thesis using that [of v6 host ?t] client part parts v6(1) by auto
  qed
qed

lemma inet_pton4_empty [simp]: "inet_pton4 [] = None"
  by code_simp

lemma shorter_copy: "host @ u = a @ q \<Longrightarrow> length a < length host \<Longrightarrow> hd q \<in> set host"
  by (auto simp: append_eq_append_conv2 hd_append)

lemma target_host:
  assumes "callback_target cb = Some tg"
  obtains a q where "callback_host (drop 7 cb) = Some (tg_ipv6 tg, a, q)" "tg_addrstr tg = cstring a"
proof -
  obtain v a m where m: "callback_host (drop 7 cb) = Some (v, a, m)"
    using assms by (auto simp: callback_target_def bind_eq_Some_conv)
  then have "tg_ipv6 tg = v \<and> tg_addrstr tg = cstring a"
    using assms by (auto simp: callback_target_def split: list.splits if_splits)
  then show thesis using that m by simp
qed

lemma copied_host:
  assumes "copy_until stop n (host @ t @ [z]) = Some (a, q)" "\<forall>c \<in> set host. \<not> stop c" "length host \<le> length a"
    and "t \<noteq> [] \<Longrightarrow> stop (hd t)"
  shows "a = host"
proof -
  note parts = copy_until_parts [OF assms(1)]
  then have "host = take (length host) (a @ q)" by (metis append_eq_conv_conj)
  then have "host = take (length host) a" using assms(3) by simp
  then obtain x where x: "a = host @ x" by (metis append_take_drop_id)
  then have rest: "t @ [z] = x @ q" using parts by simp
  have "x = []"
  proof (cases t)
    case Nil
    then show ?thesis using rest parts by (cases x) auto
  next
    case (Cons c u)
    then show ?thesis using rest parts x assms(4) by (cases x) auto
  qed
  then show ?thesis using x by simp
qed

text \<open>C12: The notifications of a subscription go to the address the subscription came from: the URL that the check
  accepts and the address the notification connects to are the same, whatever else the \<^verbatim>\<open>Callback\<close> header
  says, as long as the URL of an IPv6 client has no zero byte in it. (With a zero byte they differ:
  \<open>callback_with_zero_redirected\<close> below.)\<close>

theorem events_go_to_subscriber:
  assumes "checkCallbackURL h = Some (Some (off, len))"
    and "callback_target (part_of h off len @ [CHR 0x00]) = Some tg"
    and "tg_ipv6 tg \<longrightarrow> CHR 0x00 \<notin> set (part_of h off len)"
  shows "notify_sockaddr tg =
      (if tg_ipv6 tg then Sockaddr6 (h_clientaddr_v6 h) (tg_port tg)
       else Sockaddr4 (if h_ipv6 h then ucast (h_clientaddr_v6 h) else h_clientaddr h) (tg_port tg))
    \<and> (tg_ipv6 tg \<longrightarrow> h_ipv6 h)"
proof -
  obtain o0 fin where "check_url h o0 fin = Some (Inl (off, len))"
    using check_urls_found assms(1) unfolding checkCallbackURL_def by metis
  then obtain v6 host t where client: "host_is_client h v6 host"
    and part: "part_of h off len = ''http://'' @ (if v6 then ''['' else []) @ host @ t" and short: "length host \<le> 47"
    and in6: "v6 \<longrightarrow> (\<forall>c \<in> set host. c \<noteq> CHR '']'' \<and> c \<noteq> CHR ''>'')" "v6 \<and> t \<noteq> [] \<and> length host < 47 \<longrightarrow> hd t = CHR '']''"
    and in4: "\<not> v6 \<longrightarrow> (\<forall>c \<in> set host. c \<noteq> CHR ''/'' \<and> c \<noteq> CHR '':'' \<and> c \<noteq> CHR ''>'')"
      "\<not> v6 \<and> t \<noteq> [] \<and> length host < 47 \<longrightarrow> (hd t = CHR ''/'' \<or> hd t = CHR '':'')" "\<not> v6 \<and> host \<noteq> [] \<longrightarrow> hd host \<noteq> CHR ''[''"
    by (rule check_url_parts) (rule that; assumption)
  have rest: "drop 7 (part_of h off len @ [CHR 0x00]) = (if v6 then ''['' else []) @ host @ t @ [CHR 0x00]"
    by (simp add: part)
  show ?thesis
  proof (cases v6)
    case False
    then have "inet_pton4 (cstring host) \<noteq> None" using client by (auto simp: host_is_client_def split: option.splits)
    then have "host \<noteq> []" by (auto simp: cstring_def)
    then obtain c r where c: "host = c # r" "c \<noteq> CHR ''[''" using in4(3) False by (cases host) simp_all
    obtain b p where "callback_host (drop 7 (part_of h off len @ [CHR 0x00])) = Some (tg_ipv6 tg, b, p)" "tg_addrstr tg = cstring b"
      by (rule target_host [OF assms(2)])
    then obtain a q where a: "copy_until (\<lambda>x. x = CHR ''/'' \<or> x = CHR '':'') 47 (host @ t @ [CHR 0x00]) = Some (a, q)"
      "tg_addrstr tg = cstring a" "\<not> tg_ipv6 tg"
      using False c unfolding rest by (auto simp: callback_host_def simp del: copy_until.simps)
    note parts = copy_until_parts [OF a(1)]
    have long: "length host \<le> length a"
    proof (rule ccontr)
      assume less: "\<not> length host \<le> length a"
      then have "hd q \<in> set host" using parts shorter_copy by (metis linorder_not_le)
      then show False using parts in4(1) False less short by auto
    qed
    have "a = host"
    proof (cases "length host = 47")
      case True
      then have "length a = length host" using parts long by simp
      then show ?thesis using parts by (metis append_eq_append_conv)
    next
      case other: False
      then show ?thesis using copied_host [OF a(1) _ long] in4(1,2) False short by auto
    qed
    then show ?thesis using client False a(2,3) by (auto simp: host_is_client_def notify_sockaddr_def split: option.splits if_splits)
  next
    case True
    obtain b p where "callback_host (drop 7 (part_of h off len @ [CHR 0x00])) = Some (tg_ipv6 tg, b, p)" "tg_addrstr tg = cstring b"
      by (rule target_host [OF assms(2)])
    then obtain a q where a: "copy_until (\<lambda>x. x = CHR '']'') 46 (host @ t @ [CHR 0x00]) = Some (a, q)"
      "tg_addrstr tg = cstring (''['' @ a @ (if length a < 46 then '']'' else []))" "tg_ipv6 tg"
      using True unfolding rest by (auto simp: callback_host_def simp del: copy_until.simps)
    note parts = copy_until_parts [OF a(1)]
    have "CHR 0x00 \<notin> set host" using assms(3) a(3) part True by simp
    then have host: "cstring host = host" by (auto simp: cstring_def takeWhile_eq_all_conv)
    then have "length host \<le> 45" using client True inet_pton6_length [of host] by (auto simp: host_is_client_def split: option.splits)
    have long: "length host \<le> length a"
    proof (rule ccontr)
      assume less: "\<not> length host \<le> length a"
      then have "hd q \<in> set host" using parts shorter_copy by (metis linorder_not_le)
      then show False using in6(1) True parts \<open>length host \<le> 45\<close> \<open>hd q \<in> set host\<close> less by auto
    qed
    have "a = host" using copied_host [OF a(1) _ long] in6 True \<open>length host \<le> 45\<close> by auto
    then have addr: "tg_addrstr tg = ''['' @ host @ '']''"
      using a(2) \<open>length host \<le> 45\<close> \<open>CHR 0x00 \<notin> set host\<close> by (auto simp: cstring_def takeWhile_append takeWhile_eq_all_conv)
    have "host \<noteq> []" using host client True by (auto simp: host_is_client_def inet_pton6_def split: option.splits)
    then show ?thesis using client True a(3) addr host
      by (auto simp: host_is_client_def notify_sockaddr_def split: option.splits)
  qed
qed

definition sample_subscribe :: "string \<Rightarrow> upnphttp" where
  "sample_subscribe value = sample_http\<lparr>req_buf := CHR 0x20 # value @ crlf @ [CHR 0x00],
     h_headers := no_headers\<lparr>req_CallbackOff := 1, req_CallbackLen := length value\<rparr>\<rparr>"

theorem events_go_to_subscriber_witness:
  "\<exists>tg. checkCallbackURL (sample_subscribe ''<http://10.0.0.2:9/b>'') = Some (Some (2, 19))
    \<and> callback_target (part_of (sample_subscribe ''<http://10.0.0.2:9/b>'') 2 19 @ [CHR 0x00]) = Some tg
    \<and> notify_sockaddr tg = Sockaddr4 0x0A000002 (tg_port tg)"
proof -
  let ?h = "sample_subscribe ''<http://10.0.0.2:9/b>''"
  let ?buf = "CHR 0x20 # ''<http://10.0.0.2:9/b>'' @ crlf @ [CHR 0x00]"
  have buf: "req_buf ?h = ?buf" by (simp add: sample_subscribe_def)
  have "inet_pton4 ''10.0.0.2'' = Some [10, 0, 0, 2]" "readnu32 [10, 0, 0, 2] 0 = 0x0A000002" by code_simp+
  then have "host_is_client ?h False ''10.0.0.2''"
    by (simp add: host_is_client_def sample_subscribe_def sample_http_def cstring_def)
  moreover have "url_host ?buf 1 22 = Some (False, ''10.0.0.2'', 17)" "next_char CHR ''>'' ?buf 22 17 = 21"
    "take 8 (drop 1 ?buf) = ''<http://''" by code_simp+
  ultimately have "check_url ?h 1 22 = Some (Inl (2, 19))" unfolding check_url_def buf by simp
  moreover have "req_CallbackOff (h_headers ?h) = 1" "req_CallbackLen (h_headers ?h) = 21" "length (req_buf ?h) = 25"
    by (simp_all add: sample_subscribe_def)
  ultimately have check: "checkCallbackURL ?h = Some (Some (2, 19))"
    unfolding checkCallbackURL_def by (simp only:) (subst check_urls.simps, simp)
  have part: "part_of ?h 2 19 = ''http://10.0.0.2:9/b''" unfolding part_of_def buf by simp
  have "map_option tg_ipv6 (callback_target (''http://10.0.0.2:9/b'' @ [CHR 0x00])) = Some False" by code_simp
  then obtain tg where tg: "callback_target (part_of ?h 2 19 @ [CHR 0x00]) = Some tg" "\<not> tg_ipv6 tg" unfolding part by auto
  then show ?thesis using events_go_to_subscriber [OF check tg(1)] check by (simp add: sample_subscribe_def sample_http_def)
qed

text \<open>With a zero byte behind the address in brackets the check sees the whole address, but the notification cuts its
  last character and connects to another host.\<close>

lemma digit_step:
  "hex_digit_value c = Some d \<Longrightarrow> seen \<noteq> 4 \<Longrightarrow> v * 16 + d \<le> 65535 \<Longrightarrow>
     pton6_loop tok gs cp seen v (c # r) = pton6_loop tok gs cp (seen + 1) (v * 16 + d) r"
  by simp

lemma colon_step:
  "seen \<noteq> 0 \<Longrightarrow> r \<noteq> [] \<Longrightarrow> length gs < 8 \<Longrightarrow> pton6_loop tok gs cp seen v (CHR '':'' # r) = pton6_loop r (gs @ [v]) cp 0 0 r"
  by simp

lemma colons_step: "pton6_loop tok gs None 0 v (CHR '':'' # r) = pton6_loop r gs (Some (length gs)) 0 v r"
  by simp

lemma sample_digits:
  "hex_digit_value CHR ''2'' = Some 2" "hex_digit_value CHR ''0'' = Some 0" "hex_digit_value CHR ''1'' = Some 1"
  "hex_digit_value CHR ''d'' = Some 13" "hex_digit_value CHR ''b'' = Some 11" "hex_digit_value CHR ''8'' = Some 8"
  by code_simp+

lemma sample_addresses:
  "inet_pton6 ''2001:db8::12'' = Some (of_groups [0x2001, 0xdb8, 0, 0, 0, 0, 0, 0x12])"
  "inet_pton6 ''2001:db8::1'' = Some (of_groups [0x2001, 0xdb8, 0, 0, 0, 0, 0, 1])"
proof -
  have "pton6_loop tok [] None 0 0 ''2001:db8::12'' = Some ([0x2001, 0xdb8, 0x12], Some 2)"
    "pton6_loop tok [] None 0 0 ''2001:db8::1'' = Some ([0x2001, 0xdb8, 1], Some 2)" for tok
    by (simp_all add: sample_digits digit_step colon_step colons_step del: pton6_loop.simps(2))
  moreover have "expand_groups ([0x2001, 0xdb8, n], Some 2) = Some (of_groups [0x2001, 0xdb8, 0, 0, 0, 0, 0, n])" for n
    by (simp add: expand_groups_def numeral_eq_Suc)
  ultimately show "inet_pton6 ''2001:db8::12'' = Some (of_groups [0x2001, 0xdb8, 0, 0, 0, 0, 0, 0x12])"
    "inet_pton6 ''2001:db8::1'' = Some (of_groups [0x2001, 0xdb8, 0, 0, 0, 0, 0, 1])"
    by (simp_all add: inet_pton6_def del: pton6_loop.simps)
qed

definition sample_zero_callback :: upnphttp where
  "sample_zero_callback = (sample_subscribe (''<http://[2001:db8::12'' @ [CHR 0x00] @ '']/>''))
     \<lparr>h_ipv6 := True, h_clientaddr_v6 := 0x20010db8000000000000000000000012\<rparr>"

theorem callback_with_zero_redirected:
  "\<exists>tg. checkCallbackURL sample_zero_callback = Some (Some (2, 23))
    \<and> callback_target (part_of sample_zero_callback 2 23 @ [CHR 0x00]) = Some tg
    \<and> notify_sockaddr tg = Sockaddr6 0x20010db8000000000000000000000001 80
    \<and> h_clientaddr_v6 sample_zero_callback \<noteq> 0x20010db8000000000000000000000001"
proof -
  let ?h = sample_zero_callback
  let ?host = "''2001:db8::12'' @ [CHR 0x00]"
  let ?buf = "CHR 0x20 # ''<http://[2001:db8::12'' @ [CHR 0x00] @ '']/>'' @ crlf @ [CHR 0x00]"
  have buf: "req_buf ?h = ?buf" by (simp add: sample_zero_callback_def sample_subscribe_def)
  have host: "cstring ?host = ''2001:db8::12''" by code_simp
  have "of_groups [0x2001, 0xdb8, 0, 0, 0, 0, 0, 0x12] = 0x20010db8000000000000000000000012" by (simp add: of_groups_def)
  then have "host_is_client ?h True ?host"
    unfolding host_is_client_def host sample_addresses(1)
    by (simp add: sample_zero_callback_def)
  moreover have "url_host ?buf 1 26 = Some (True, ?host, 23)" "next_char CHR ''>'' ?buf 26 23 = 25"
    "take 8 (drop 1 ?buf) = ''<http://''" by code_simp+
  ultimately have "check_url ?h 1 26 = Some (Inl (2, 23))" unfolding check_url_def buf by simp
  moreover have "req_CallbackOff (h_headers ?h) = 1" "req_CallbackLen (h_headers ?h) = 25" "length (req_buf ?h) = 29"
    by (simp_all add: sample_zero_callback_def sample_subscribe_def)
  ultimately have check: "checkCallbackURL ?h = Some (Some (2, 23))"
    unfolding checkCallbackURL_def by (simp only:) (subst check_urls.simps, simp)
  have part: "part_of ?h 2 23 = ''http://[2001:db8::12'' @ [CHR 0x00] @ '']/''" unfolding part_of_def buf by simp
  have target: "callback_target (part_of ?h 2 23 @ [CHR 0x00])
      = Some \<lparr>tg_ipv6 = True, tg_addrstr = ''[2001:db8::12'', tg_port = 80, tg_portstr = [], tg_path = 22\<rparr>"
    unfolding part by (simp add: callback_target_def callback_host_def cstring_def)
  have "of_groups [0x2001, 0xdb8, 0, 0, 0, 0, 0, 1] = 0x20010db8000000000000000000000001" by (simp add: of_groups_def)
  then show ?thesis using check target sample_addresses(2)
    by (simp add: notify_sockaddr_def sample_zero_callback_def)
qed

section \<open>Every mapping stays permitted\<close>

text \<open>A call for a connection changes the mappings only by one SOAP action.\<close>

lemma served_eq [simp]: "served w r = Some (h, b, w') \<longleftrightarrow> r = Some (h, b) \<and> w' = w"
  by (cases r) (auto simp: served_def)

lemma if_asm: "(if b then x else y) = z \<Longrightarrow> (b \<Longrightarrow> x = z \<Longrightarrow> P) \<Longrightarrow> (\<not> b \<Longrightarrow> y = z \<Longrightarrow> P) \<Longrightarrow> P"
  by (cases b) auto

lemma post_igd:
  assumes "ProcessHTTPPOST_upnphttp cf ops so e h w = Some (h', b, w')"
  shows "wb_igd w' = wb_igd w \<or> igd_step ops (rc_perms (so_rdr so)) (wb_igd w) (wb_igd w')"
  using assms
  by (auto simp: ProcessHTTPPOST_upnphttp_def Let_def intro: igd_step.Request
      split: if_split_asm option.split_asm sum.split_asm prod.split_asm)

lemma subscribe_igd:
  "ProcessHTTPSubscribe_upnphttp cf e path h w = Some (h', b, w') \<Longrightarrow> wb_igd w' = wb_igd w"
  by (auto simp: ProcessHTTPSubscribe_upnphttp_def Let_def bind_eq_Some_conv split: if_split_asm option.split_asm)

lemma unsubscribe_igd:
  "ProcessHTTPUnSubscribe_upnphttp cf e h w = Some (h', b, w') \<Longrightarrow> wb_igd w' = wb_igd w"
  unfolding ProcessHTTPUnSubscribe_upnphttp_def Let_def
  by (erule if_asm) (simp, erule if_asm, simp, clarsimp simp: bind_eq_Some_conv)

lemma query_igd:
  assumes "ProcessHttpQuery_upnphttp cf ops so e h w = Some (h', b, w')"
  shows "wb_igd w' = wb_igd w \<or> igd_step ops (rc_perms (so_rdr so)) (wb_igd w) (wb_igd w')"
  using assms
  by (auto simp: ProcessHttpQuery_upnphttp_def bind_eq_Some_conv dest: post_igd subscribe_igd unsubscribe_igd
      split: if_split_asm option.split_asm)

lemma process_igd:
  assumes "Process_upnphttp cf ops so e recv h w = Some (h', b, w')"
  shows "wb_igd w' = wb_igd w \<or> igd_step ops (rc_perms (so_rdr so)) (wb_igd w) (wb_igd w')"
  using assms
  by (auto simp: Process_upnphttp_def Let_def dest: post_igd query_igd
      split: if_split_asm option.split_asm http_state.split_asm recv_result.split_asm prod.split_asm)

text \<open>The steps of the daemon that touch the state of the server: any bytes or events on any connection, in
  any of its states; the cleanups; and the turns of the loop for notifications.\<close>

inductive web_step :: "'st fw_ops \<Rightarrow> upnpperm list \<Rightarrow> event_conf \<Rightarrow> 'st web_state \<Rightarrow> 'st web_state \<Rightarrow> bool"
  for ops :: "'st fw_ops" and perms :: "upnpperm list" and ec :: event_conf where
  Traffic: "\<lbrakk>rc_perms (so_rdr so) = perms; Process_upnphttp cf ops so e recv h w = Some (h', b, w')\<rbrakk> \<Longrightarrow> web_step ops perms ec w w'"
| Cleanup: "igd_step ops perms (wb_igd w) igd \<Longrightarrow> web_step ops perms ec w (w\<lparr>wb_igd := igd\<rparr>)"
| Notify: "ev_step ec (wb_events w) ev \<Longrightarrow> web_step ops perms ec w (w\<lparr>wb_events := ev\<rparr>)"

inductive web_reach :: "'st fw_ops \<Rightarrow> upnpperm list \<Rightarrow> event_conf \<Rightarrow> 'st web_state \<Rightarrow> 'st web_state \<Rightarrow> bool"
  for ops :: "'st fw_ops" and perms :: "upnpperm list" and ec :: event_conf and w0 :: "'st web_state" where
  Start: "web_reach ops perms ec w0 w0"
| Step: "\<lbrakk>web_reach ops perms ec w0 w; web_step ops perms ec w w'\<rbrakk> \<Longrightarrow> web_reach ops perms ec w0 w'"

lemma web_reach_igd: "web_reach ops perms ec w0 w \<Longrightarrow> igd_reach ops perms (wb_igd w0) (wb_igd w)"
proof (induction rule: web_reach.induct)
  case Start
  show ?case by (rule igd_reach.Start)
next
  case (Step w w')
  from Step.hyps(2) have "wb_igd w' = wb_igd w \<or> igd_step ops perms (wb_igd w) (wb_igd w')"
    by cases (auto dest: process_igd)
  then show ?case using Step.IH by (auto intro: igd_reach.Step)
qed

text \<open>C3: Whatever bytes arrive on whatever HTTP connections, in whatever pieces, with the cleanups and the turns of the
  loop for the notifications in between, from tables without a mapping on and while libiptc and libip6tc report no error: every mapping of the
  firewall is one the permission list allows, for every protocol, client and internal port there are at
  least as many filter rules as mappings (the remote host of a filter rule is not part of this), and every
  pinhole has its rule. The packets of NAT-PMP and PCP are not steps here.\<close>

theorem http_traffic_permitted:
  assumes "web_reach netfilter_ops perms ec w0 w" and "nf_ok (fw (maps (ig_soap (wb_igd w0))))"
    and "nf_table (fw (maps (ig_soap (wb_igd w0)))) = Map.empty" and "pin_ok (ig_pins (wb_igd w0))"
  shows "permitted perms (nf_table (fw (maps (ig_soap (wb_igd w))))) \<and> enough_filter_rules (fw (maps (ig_soap (wb_igd w))))
    \<and> pin_ok (ig_pins (wb_igd w)) \<and> nf_ok (fw (maps (ig_soap (wb_igd w))))"
proof -
  have t: "valid_table (nf_table (fw (maps (ig_soap (wb_igd w0)))))" "permitted perms (nf_table (fw (maps (ig_soap (wb_igd w0)))))"
    using assms(3) by (simp_all add: valid_table_def permitted_def)
  have "rdr_reach netfilter_ops perms (maps (ig_soap (wb_igd w0))) (maps (ig_soap (wb_igd w))) \<and> pin_ok (ig_pins (wb_igd w))"
    by (rule netfilter.igd_reach_inv [OF web_reach_igd [OF assms(1)] assms(2) t assms(4)])
  then show ?thesis using netfilter.reach_inv [OF _ assms(2) t] nf_ok_filter_rules by blast
qed

definition web_start :: "nf web_state" where
  "web_start = \<lparr>wb_igd = \<lparr>ig_soap = soap_start empty_nf, ig_pins = pin_start\<rparr>, wb_events = no_events\<rparr>"

definition sample_env :: web_env where
  "sample_env = \<lparr>we_now = 0, we_sub = None, we_uuid = Generated [], we_create = \<lparr>ce_mem = None, ce_socket = 0, ce_nonblocking = True\<rparr>,
     we_send = []\<rparr>"

theorem http_traffic_permitted_witness:
  "\<exists>h w. Process_upnphttp sample_web netfilter_ops (sample_soap\<lparr>so_rdr := sample_conf\<lparr>rc_perms := []\<rparr>\<rparr>) sample_env
      (Received ''GET /'') sample_http web_start = Some (h, [], w)
    \<and> permitted [] (nf_table (fw (maps (ig_soap (wb_igd w))))) \<and> enough_filter_rules (fw (maps (ig_soap (wb_igd w))))
    \<and> pin_ok (ig_pins (wb_igd w)) \<and> nf_ok (fw (maps (ig_soap (wb_igd w))))"
proof -
  have none: "findendheaders (''GET /'' @ [CHR 0x00]) (Suc (Suc (Suc (Suc (Suc 0))))) = None" by code_simp
  obtain h w where run: "Process_upnphttp sample_web netfilter_ops (sample_soap\<lparr>so_rdr := sample_conf\<lparr>rc_perms := []\<rparr>\<rparr>) sample_env
      (Received ''GET /'') sample_http web_start = Some (h, [], w)"
    using none by (simp add: Process_upnphttp_def sample_http_def with_data_def Let_def)
  have "web_step netfilter_ops [] sample_events_conf web_start w" by (rule web_step.Traffic [OF _ run]) simp
  then have "web_reach netfilter_ops [] sample_events_conf web_start w" using web_reach.Step [OF web_reach.Start] by blast
  from http_traffic_permitted [OF this] run show ?thesis
    by (auto simp: web_start_def empty_nf_ok empty_nf_table pin_start_ok fun_eq_iff)
qed

section \<open>Every query is answered\<close>

text \<open>The status of the answer to a query that no handler takes over.\<close>

definition query_status :: "web_conf \<Rightarrow> upnphttp \<Rightarrow> string \<Rightarrow> string \<Rightarrow> nat option" where
  "query_status cf h cmd url0 =
     (if host_refused h then Some 404
      else (case strip_random cf url0 of None \<Rightarrow> Some 404
        | Some url \<Rightarrow>
          (if cmd \<in> {''POST'', ''SUBSCRIBE'', ''UNSUBSCRIBE''} then None
           else if cmd \<noteq> ''GET'' then Some 501
           else (case find (\<lambda>p. strcasecmp_eq p url) path_desc of
               Some p \<Rightarrow> Some (if wc_desc cf p = None then 500 else 200)
             | None \<Rightarrow> Some (if take 5 url = ''/ctl/'' \<or> take 5 url = ''/evt/'' then 405 else 404)))))"

text \<open>The date has its fixed length, and the sizes of the responses with the server's own pages stay within an
  \<^verbatim>\<open>int\<close>.\<close>

definition conf_fits :: "web_conf \<Rightarrow> bool" where
  "conf_fits cf \<longleftrightarrow> (case wc_date cf of None \<Rightarrow> True | Some d \<Rightarrow> length d \<le> 29)
     \<and> sizeof_head cf + 512 < 2 ^ 31 \<and> (\<forall>p d. wc_desc cf p = Some d \<longrightarrow> sizeof_head cf + 256 + length d < 2 ^ 31)"

text \<open>The beginning of a response: the version of the request and the status.\<close>

definition answered :: "upnphttp \<Rightarrow> nat \<Rightarrow> upnphttp \<Rightarrow> bool" where
  "answered h code h' \<longleftrightarrow> take (length (HttpVer h) + length (dec code) + 2) (res_buf h') = HttpVer h @ '' '' @ dec code @ '' ''
     \<and> (h_state h' = EToDelete \<or> h_state h' = ESendingAndClosing)"

lemma send_resp_buf: "SendResp_upnphttp rs h = (h', b, fin) \<Longrightarrow> res_buf h' = res_buf h"
proof (induction rs arbitrary: h b)
  case Nil
  then show ?case by (simp add: SendResp_upnphttp.simps [of "[]"] split: if_splits)
next
  case (Cons r rs)
  note run = Cons.prems [unfolded SendResp_upnphttp.simps [of "r # rs" h]]
  show ?case
  proof (cases r)
    case (Sent n)
    obtain g c f where "SendResp_upnphttp rs (h\<lparr>res_sent := res_sent h + n\<rparr>) = (g, c, f)"
      by (cases "SendResp_upnphttp rs (h\<lparr>res_sent := res_sent h + n\<rparr>)")
    then show ?thesis using Cons.IH [of "h\<lparr>res_sent := res_sent h + n\<rparr>"] run Sent by (auto split: if_split_asm)
  next
    case Send_intr
    then show ?thesis using Cons.IH [of h] run by (auto split: if_split_asm)
  qed (use run in \<open>auto split: if_split_asm\<close>)
qed

lemma reply_answers:
  assumes "length (HttpVer h) \<le> 15" "length (accept_language (h_headers h)) \<le> 7" "length (res_SID h) \<le> 41"
    "code < 1000" "length msg \<le> 40" "sizeof_head cf + 256 + length body < 2 ^ 31" "conf_fits cf"
    "- (2 ^ 31) \<le> req_Timeout (h_headers h)" "req_Timeout (h_headers h) < 2 ^ 31"
  shows "\<exists>h' b. reply_and_close rs (BuildResp2_upnphttp cf h code msg body) = Some (h', b) \<and> answered h code h'"
proof -
  have "BuildHeader_upnphttp cf h code msg (length body) \<noteq> None"
    using response_header_fit [OF assms(1-6)] assms(7-9) by (simp add: conf_fits_def)
  then obtain h1 where h1: "BuildHeader_upnphttp cf h code msg (length body) = Some h1" by blast
  then have buf: "res_buf h1 = response_header cf h code msg (length body)"
    by (auto simp: BuildHeader_upnphttp_def Let_def split: if_splits)
  obtain h2 b fin where send: "SendResp_upnphttp rs (h1\<lparr>res_buf := res_buf h1 @ body\<rparr>) = (h2, b, fin)"
    by (cases "SendResp_upnphttp rs (h1\<lparr>res_buf := res_buf h1 @ body\<rparr>)")
  then have "res_buf h2 = response_header cf h code msg (length body) @ body" using send_resp_buf [OF send] buf by simp
  then show ?thesis
    using h1 send by (auto simp: reply_and_close_def BuildResp2_upnphttp_def SendRespAndClose_upnphttp_def answered_def
        response_header_def httpresphead_def CloseSocket_upnphttp_def)
qed


lemma copy_until_cr:
  assumes "CHR 0x0D \<in> set m" "stop CHR 0x0D"
  obtains a r where "copy_until stop n m = Some (a, r)" "length a \<le> n" "CHR 0x0D \<in> set r"
proof -
  obtain a r where a: "copy_until stop n m = Some (a, r)" using copy_until_ex [of "CHR 0x0D" m stop n] assms by blast
  note parts = copy_until_parts [OF a]
  then have "CHR 0x0D \<notin> set a" using assms(2) by auto
  then show thesis using that a parts assms(1) by auto
qed

lemma scan_blanks_cr:
  assumes "CHR 0x0D \<in> set m"
  obtains a r where "scan_to (\<lambda>c. c \<noteq> CHR '' '') m = Some (a, r)" "CHR 0x0D \<in> set r"
proof -
  obtain a r where a: "scan_to (\<lambda>c. c \<noteq> CHR '' '') m = Some (a, r)" using scan_to_ex [OF assms, of "\<lambda>c. c \<noteq> CHR '' ''"] by auto
  note parts = scan_to_parts [OF a]
  then have "CHR 0x0D \<notin> set a" by auto
  then show thesis using that a parts assms by auto
qed

lemma request_line_cr:
  assumes "CHR 0x0D \<in> set buf"
  obtains cmd url ver where "request_line buf = Some (cmd, url, ver)" "length ver \<le> 15"
proof -
  obtain a1 r1 where c1: "copy_until (\<lambda>c. c = CHR '' '' \<or> c = CHR 0x0D) 15 buf = Some (a1, r1)" "CHR 0x0D \<in> set r1"
    by (rule copy_until_cr [OF assms, of "\<lambda>c. c = CHR '' '' \<or> c = CHR 0x0D"]) simp_all
  obtain b1 s1 where s1: "scan_to (\<lambda>c. c \<noteq> CHR '' '') r1 = Some (b1, s1)" "CHR 0x0D \<in> set s1" by (rule scan_blanks_cr [OF c1(2)])
  obtain a2 r2 where c2: "copy_until (\<lambda>c. c = CHR '' '' \<or> c = CHR 0x0D) 127 s1 = Some (a2, r2)" "CHR 0x0D \<in> set r2"
    by (rule copy_until_cr [OF s1(2), of "\<lambda>c. c = CHR '' '' \<or> c = CHR 0x0D"]) simp_all
  obtain b2 s2 where s2: "scan_to (\<lambda>c. c \<noteq> CHR '' '') r2 = Some (b2, s2)" "CHR 0x0D \<in> set s2" by (rule scan_blanks_cr [OF c2(2)])
  obtain a3 r3 where c3: "copy_until (\<lambda>c. c = CHR 0x0D) 15 s2 = Some (a3, r3)" "length a3 \<le> 15"
    by (rule copy_until_cr [OF s2(2), of "\<lambda>c. c = CHR 0x0D"]) simp_all
  have "length (cstring a3) \<le> 15" using c3(2) length_takeWhile_le [of "\<lambda>c. c \<noteq> CHR 0x00" a3] by (simp add: cstring_def)
  then show thesis using that c1 s1 c2 s2 c3 by (simp add: request_line_def)
qed

text \<open>What holds of a connection when the headers of its request were read.\<close>

definition replies_fit :: "upnphttp \<Rightarrow> bool" where
  "replies_fit h \<longleftrightarrow> length (HttpVer h) \<le> 15 \<and> length (accept_language (h_headers h)) \<le> 7 \<and> length (res_SID h) \<le> 41
     \<and> - (2 ^ 31) \<le> req_Timeout (h_headers h) \<and> req_Timeout (h_headers h) < 2 ^ 31"

lemma replies_fit_simps [simp]:
  "replies_fit (set_flags f h) = replies_fit h" "replies_fit (h\<lparr>req_command := c\<rparr>) = replies_fit h"
  "answered (set_flags f h) = answered h" "answered (h\<lparr>req_command := c\<rparr>) = answered h"
  "host_refused (h\<lparr>req_command := c\<rparr>) = host_refused h"
  by (simp_all add: replies_fit_def set_flags_def answered_def fun_eq_iff host_refused_def part_of_def)

lemma pages_answer:
  assumes "replies_fit h" "conf_fits cf"
  shows "\<exists>h' b. Send404 cf rs h = Some (h', b) \<and> answered h 404 h'" "\<exists>h' b. Send405 cf rs h = Some (h', b) \<and> answered h 405 h'"
    "\<exists>h' b. Send501 cf rs h = Some (h', b) \<and> answered h 501 h'"
    "\<exists>h' b. sendXMLdesc cf rs h (wc_desc cf p) = Some (h', b) \<and> answered h (if wc_desc cf p = None then 500 else 200) h'"
proof -
  have reply: "\<exists>h' b. reply_and_close rs (BuildResp2_upnphttp cf g code msg body) = Some (h', b) \<and> answered g code h'"
    if "replies_fit g" "code < 1000" "length msg \<le> 40" "sizeof_head cf + 256 + length body < 2 ^ 31" for g code msg body
    using reply_answers [of g code msg cf body rs] that assms(2) by (auto simp: replies_fit_def)
  show "\<exists>h' b. Send404 cf rs h = Some (h', b) \<and> answered h 404 h'"
    using reply [of "set_flags FLAG_HTML h" 404 "''Not Found''" body404] assms by (simp add: Send404_def body404_def conf_fits_def)
  show "\<exists>h' b. Send405 cf rs h = Some (h', b) \<and> answered h 405 h'"
    using reply [of "set_flags (respflags (h_headers h) OR FLAG_HTML) h" 405 "''Method Not Allowed''" body405] assms
    by (simp add: Send405_def body405_def conf_fits_def)
  show "\<exists>h' b. Send501 cf rs h = Some (h', b) \<and> answered h 501 h'"
    using reply [of "set_flags FLAG_HTML h" 501 "''Not Implemented''" body501] assms by (simp add: Send501_def body501_def conf_fits_def)
  show "\<exists>h' b. sendXMLdesc cf rs h (wc_desc cf p) = Some (h', b) \<and> answered h (if wc_desc cf p = None then 500 else 200) h'"
  proof (cases "wc_desc cf p")
    case None
    then show ?thesis using reply [of "set_flags FLAG_HTML h" 500 "''Internal Server Error''" error500] assms
      by (simp add: sendXMLdesc_def error500_def conf_fits_def)
  next
    case (Some d)
    then have "sizeof_head cf + 256 + length d < 2 ^ 31" using assms(2) by (auto simp: conf_fits_def)
    then show ?thesis using reply [of h 200 "''OK''" d] assms(1) Some by (simp add: sendXMLdesc_def BuildResp_upnphttp_def)
  qed
qed

lemma get_answers:
  assumes "replies_fit h" "conf_fits cf" "\<not> host_refused h" "strip_random cf url0 = Some url" "query_status cf h ''GET'' url0 = Some code"
  shows "\<exists>h' b. ProcessHttpGet cf e url h = Some (h', b) \<and> answered h code h'"
proof (cases "find (\<lambda>p. strcasecmp_eq p url) path_desc")
  case None
  then show ?thesis
    using pages_answer(2) [of "set_flags FLAG_ALLOW_POST h" cf "we_send e"] pages_answer(2) [of "set_flags FLAG_ALLOW_SUB_UNSUB h" cf "we_send e"]
      pages_answer(1) [OF assms(1,2), of "we_send e"] assms
    by (auto simp: ProcessHttpGet_def query_status_def split: if_splits)
next
  case (Some p)
  then have "code = (if wc_desc cf p = None then 500 else 200)" using assms(3-5) by (simp add: query_status_def)
  then show ?thesis using pages_answer(4) [OF assms(1,2), of "we_send e" p] Some by (simp only: ProcessHttpGet_def option.case)
qed

text \<open>C13: Whatever a client sends up to the empty line: its query is answered, unless it is one of the three methods
  with a handler of their own. The status is 404 for a URL without the random part and also for a host that is a
  name (where the comment of the code says 403), the page for \<^verbatim>\<open>GET\<close> of a description, 405 or 404 for other pages, and 501 for other methods;
  mappings and subscriptions stay as they are.\<close>

theorem query_answered:
  assumes "req_buf h = d @ [CHR 0x00]" and "findendheaders d (length d) = Some n" and "req_contentoff h = n + 4"
    and "h_headers h = no_headers" and "res_SID h = []" and "conf_fits cf"
  shows "\<exists>cmd url ver h1. request_line (req_buf h) = Some (cmd, url, ver)
    \<and> ParseHttpHeaders (wc_strict cf) (wc_jwt cf) (h\<lparr>HttpVer := ver\<rparr>) = Some h1
    \<and> (\<forall>code. query_status cf h1 cmd url = Some code \<longrightarrow>
        (\<exists>h' b. ProcessHttpQuery_upnphttp cf ops so e h w = Some (h', b, w) \<and> answered h1 code h'))"
proof -
  have "take 4 (drop n d) = crlf @ crlf" using findendheaders_Some [OF assms(2)] by blast
  then have "CHR 0x0D \<in> set (take 4 (drop n d))" by simp
  then have "CHR 0x0D \<in> set (req_buf h)" unfolding assms(1) by (auto dest: in_set_takeD in_set_dropD)
  then obtain cmd url0 ver where line: "request_line (req_buf h) = Some (cmd, url0, ver)" and ver: "length ver \<le> 15"
    by (rule request_line_cr)
  obtain r where parse: "ParseHttpHeaders (wc_strict cf) (wc_jwt cf) (h\<lparr>HttpVer := ver\<rparr>) = Some (h\<lparr>HttpVer := ver, h_headers := r\<rparr>)"
    and r: "inside n r"
    using parse_headers_inside [of "h\<lparr>HttpVer := ver\<rparr>" d n "wc_strict cf" "wc_jwt cf"] assms(1-4) by auto
  let ?h = "h\<lparr>HttpVer := ver, h_headers := r\<rparr>"
  have fit: "replies_fit ?h" using r ver assms(5) by (simp add: replies_fit_def inside_def)
  have "\<exists>h' b. ProcessHttpQuery_upnphttp cf ops so e h w = Some (h', b, w) \<and> answered ?h code h'" if "query_status cf ?h cmd url0 = Some code" for code
  proof (cases "host_refused ?h \<or> strip_random cf url0 = None")
    case True
    then have "code = 404" using that by (auto simp: query_status_def split: option.splits if_splits)
    then show ?thesis using pages_answer(1) [OF fit assms(6), of "we_send e"] True line parse by (auto simp: ProcessHttpQuery_upnphttp_def)
  next
    case False
    then obtain url where url: "strip_random cf url0 = Some url" by blast
    have cmds: "cmd \<noteq> ''POST''" "cmd \<noteq> ''SUBSCRIBE''" "cmd \<noteq> ''UNSUBSCRIBE''" using that False url by (auto simp: query_status_def)
    show ?thesis
    proof (cases "cmd = ''GET''")
      case True
      have "query_status cf (?h\<lparr>req_command := EGet\<rparr>) ''GET'' url0 = Some code" using that True by (simp add: query_status_def)
      then have "\<exists>h' b. ProcessHttpGet cf e url (?h\<lparr>req_command := EGet\<rparr>) = Some (h', b) \<and> answered ?h code h'"
        using get_answers [of "?h\<lparr>req_command := EGet\<rparr>" cf url0 url code e] fit assms(6) url False by auto
      then show ?thesis using True line parse url False by (auto simp: ProcessHttpQuery_upnphttp_def)
    next
      case other: False
      then have "code = 501" using that cmds url False by (simp add: query_status_def)
      then show ?thesis using pages_answer(3) [OF fit assms(6), of "we_send e"] line parse url False other cmds
        by (auto simp: ProcessHttpQuery_upnphttp_def)
    qed
  qed
  then show ?thesis using line parse by blast
qed

theorem query_answered_witness:
  "\<exists>h' b h1. ProcessHttpQuery_upnphttp sample_web netfilter_ops sample_soap sample_env
      (sample_http\<lparr>req_buf := ''GET / HTTP/1.1'' @ crlf @ ''Host:a.b'' @ crlf @ crlf @ [CHR 0x00], req_contentoff := 28\<rparr>) web_start
    = Some (h', b, web_start) \<and> HttpVer h1 = ''HTTP/1.1'' \<and> answered h1 404 h'"
proof -
  let ?d = "''GET / HTTP/1.1'' @ crlf @ ''Host:a.b'' @ crlf @ crlf"
  let ?h = "sample_http\<lparr>req_buf := ''GET / HTTP/1.1'' @ crlf @ ''Host:a.b'' @ crlf @ crlf @ [CHR 0x00], req_contentoff := 28\<rparr>"
  have e: "findendheaders ?d (length ?d) = Some 24" by code_simp
  have line: "request_line (?d @ [CHR 0x00]) = Some (''GET'', ''/'', ''HTTP/1.1'')" by code_simp
  have parse: "parse_lines False False (?d @ [CHR 0x00]) 28 0 no_headers = Some (no_headers\<lparr>req_HostOff := 21, req_HostLen := 3\<rparr>)"
    by code_simp
  have r: "ParseHttpHeaders False False (?h\<lparr>HttpVer := ''HTTP/1.1''\<rparr>)
      = Some (?h\<lparr>HttpVer := ''HTTP/1.1'', h_headers := no_headers\<lparr>req_HostOff := 21, req_HostLen := 3\<rparr>\<rparr>)"
    using parse by (simp add: ParseHttpHeaders_def sample_http_def)
  have "part_of ?h 21 3 = ''a.b''" by (simp add: part_of_def sample_http_def)
  then have "host_refused (?h\<lparr>HttpVer := ''HTTP/1.1'', h_headers := no_headers\<lparr>req_HostOff := 21, req_HostLen := 3\<rparr>\<rparr>)"
    by (simp add: host_refused_def part_of_def isdigit_def)
  then have status: "query_status sample_web (?h\<lparr>HttpVer := ''HTTP/1.1'', h_headers := no_headers\<lparr>req_HostOff := 21, req_HostLen := 3\<rparr>\<rparr>) ''GET'' ''/''
      = Some 404" by (simp add: query_status_def)
  obtain cmd url ver h1 where found: "request_line (req_buf ?h) = Some (cmd, url, ver)"
    "ParseHttpHeaders (wc_strict sample_web) (wc_jwt sample_web) (?h\<lparr>HttpVer := ver\<rparr>) = Some h1"
    and reply: "\<forall>code. query_status sample_web h1 cmd url = Some code \<longrightarrow>
        (\<exists>h' b. ProcessHttpQuery_upnphttp sample_web netfilter_ops sample_soap sample_env ?h web_start = Some (h', b, web_start)
          \<and> answered h1 code h')"
    using query_answered [of ?h ?d 24 sample_web netfilter_ops sample_soap sample_env web_start] e
    by (simp add: sample_http_def sample_web_def conf_fits_def sizeof_head_def httpresphead_def) blast
  have cmd: "cmd = ''GET''" "url = ''/''" "ver = ''HTTP/1.1''" using found(1) line by simp_all
  have h1: "h1 = ?h\<lparr>HttpVer := ''HTTP/1.1'', h_headers := no_headers\<lparr>req_HostOff := 21, req_HostLen := 3\<rparr>\<rparr>"
    using found(2) r cmd(3) by (simp add: sample_web_def)
  have "HttpVer h1 = ''HTTP/1.1''" unfolding h1 by simp
  then show ?thesis using reply status unfolding cmd h1 [symmetric] by blast
qed

section \<open>A request in pieces\<close>

text \<open>Pieces of a request that arrive one after the other, each with a call of its own.\<close>

fun feed :: "web_conf \<Rightarrow> 'st fw_ops \<Rightarrow> soap_conf \<Rightarrow> web_env \<Rightarrow> string list \<Rightarrow> upnphttp \<Rightarrow> 'st web_state \<Rightarrow> 'st served" where
  "feed cf ops so e [] h w = Some (h, [], w)"
| "feed cf ops so e (d # ds) h w =
     (case Process_upnphttp cf ops so e (Received d) h w of None \<Rightarrow> None
      | Some (h1, b1, w1) \<Rightarrow> map_option (\<lambda>(h2, b2, w2). (h2, b1 @ b2, w2)) (feed cf ops so e ds h1 w1))"

lemma with_data_twice:
  "req_buflen h \<le> length (req_buf h) \<Longrightarrow> with_data d2 t (with_data d1 u h) = with_data (d1 @ d2) t h"
  by (simp add: with_data_def add.assoc)

lemma with_data_state [simp]: "h_state (with_data d t h) = h_state h"
  by (simp add: with_data_def)

lemma findendheaders_prefix:
  "n \<le> length s \<Longrightarrow> findendheaders (s @ t) (n + k) = None \<Longrightarrow> findendheaders (s @ u) n = None"
proof (induction n arbitrary: s)
  case 0
  then show ?case by (simp add: findendheaders.simps)
next
  case (Suc n)
  then obtain x xs where s: "s = x # xs" by (cases s) auto
  show ?case
  proof (cases "Suc n \<le> 3")
    case True
    then show ?thesis by (simp add: findendheaders.simps)
  next
    case False
    then have "take 4 (s @ t) = take 4 s" "take 4 (s @ u) = take 4 s" using Suc.prems(1) by simp_all
    note same = this
    have rest: "take 4 s \<noteq> crlf @ crlf" "findendheaders (xs @ t) (n + k) = None"
      using Suc.prems(2) False s unfolding findendheaders.simps [of "s @ t" "Suc n + k"] same by (auto split: if_split_asm)
    then have "findendheaders (xs @ u) n = None" using Suc.IH [of xs] Suc.prems(1) s by simp
    then show ?thesis unfolding findendheaders.simps [of "s @ u" "Suc n"] same
      by (simp only: rest(1) if_False) (simp add: s)
  qed
qed

lemma feed_undecided:
  assumes "h_state h = EWaitingForHttpRequest" "req_buflen h \<le> length (req_buf h)" "[] \<notin> set ds" "ds \<noteq> []"
    and "findendheaders (take (req_buflen h) (req_buf h) @ concat ds) (req_buflen h + length (concat ds)) = None"
  shows "feed cf ops so e ds h w = Some (with_data (concat ds) [CHR 0x00] h, [], w)"
  using assms
proof (induction ds arbitrary: h)
  case (Cons d ds)
  let ?h = "with_data d [CHR 0x00] h" and ?p = "take (req_buflen h) (req_buf h)"
  have "findendheaders ((?p @ d) @ concat ds) (length (?p @ d) + length (concat ds)) = None" using Cons.prems(2,5) by (simp add: min.absorb2 add.assoc)
  then have "findendheaders (req_buf ?h) (req_buflen ?h) = None"
    using findendheaders_prefix [of "length (?p @ d)" "?p @ d" "concat ds" "length (concat ds)" "[CHR 0x00]"] Cons.prems(2)
    by (simp add: with_data_def min.absorb2)
  then have one: "Process_upnphttp cf ops so e (Received d) h w = Some (?h, [], w)"
    using Cons.prems(1,3) by (cases "d = []") (simp_all add: Process_upnphttp_def Let_def)
  show ?case
  proof (cases "ds = []")
    case True
    then show ?thesis using one by simp
  next
    case False
    have "feed cf ops so e ds ?h w = Some (with_data (concat ds) [CHR 0x00] ?h, [], w)"
      using Cons.IH [of ?h] Cons.prems False by (simp add: with_data_def min.absorb2 add.assoc)
    then show ?thesis using one Cons.prems(2) by (simp add: with_data_twice)
  qed
qed simp

lemma feed_append:
  "feed cf ops so e (xs @ ys) h w =
     (case feed cf ops so e xs h w of None \<Rightarrow> None
      | Some (h1, b1, w1) \<Rightarrow> map_option (\<lambda>(h2, b2, w2). (h2, b1 @ b2, w2)) (feed cf ops so e ys h1 w1))"
  by (induction xs arbitrary: h w) (auto simp: option.map_comp o_def case_prod_unfold option.map_ident split: option.splits)

text \<open>C15: However the bytes of a request are divided before the one that completes its headers, the server does what it
  does when they arrive at once.\<close>

theorem request_in_pieces:
  assumes "h_state h = EWaitingForHttpRequest" and "req_buflen h \<le> length (req_buf h)" and "[] \<notin> set ds" and "d \<noteq> []"
    and "findendheaders (take (req_buflen h) (req_buf h) @ concat ds) (req_buflen h + length (concat ds)) = None"
  shows "feed cf ops so e (ds @ [d]) h w = Process_upnphttp cf ops so e (Received (concat ds @ d)) h w"
proof (cases "ds = []")
  case True
  then show ?thesis by (auto split: option.split)
next
  case False
  have "Process_upnphttp cf ops so e (Received d) (with_data (concat ds) [CHR 0x00] h) w
      = Process_upnphttp cf ops so e (Received (concat ds @ d)) h w"
    using assms(1,2,4) by (simp add: Process_upnphttp_def with_data_twice)
  then show ?thesis
    using feed_undecided [OF assms(1-3) False assms(5), of cf ops so e w] by (auto simp: feed_append split: option.split)
qed

theorem request_in_pieces_witness:
  "feed sample_web netfilter_ops sample_soap sample_env [''GE'', ''T /'', '' HTTP/1.1'' @ crlf @ crlf] sample_http web_start
    = Process_upnphttp sample_web netfilter_ops sample_soap sample_env (Received (''GET / HTTP/1.1'' @ crlf @ crlf)) sample_http web_start"
proof -
  have "findendheaders ''GET /'' (Suc (Suc (Suc (Suc (Suc 0))))) = None" by code_simp
  then have "feed sample_web netfilter_ops sample_soap sample_env ([''GE'', ''T /''] @ ['' HTTP/1.1'' @ crlf @ crlf]) sample_http web_start
      = Process_upnphttp sample_web netfilter_ops sample_soap sample_env (Received (concat [''GE'', ''T /''] @ '' HTTP/1.1'' @ crlf @ crlf))
          sample_http web_start"
    by (intro request_in_pieces) (simp_all add: sample_http_def)
  then show ?thesis by (simp only: append.simps concat.simps)
qed

end
