(* ===== verification/Ssdp.thy ===== *)
theory Ssdp
  imports Http_Request Lan_Addr
begin

text \<open>
  Discovery, \<^verbatim>\<open>minissdp.c\<close>: the answers to searches, the announcements and their withdrawal, and the
  submission of the services to a MiniSSDPd with the lengths of \<^verbatim>\<open>codelength.h\<close>. A run of a program that
  divides by zero has no value.
\<close>

section \<open>Configuration and messages\<close>

text \<open>What the build fixes (\<^verbatim>\<open>UPNP_STRICT\<close>, \<^verbatim>\<open>DELAY_MSEARCH_RESPONSE\<close>, \<^verbatim>\<open>SSDP_RESPOND_SAME_VERSION\<close>, \<^verbatim>\<open>IGD_V2\<close> and the
  services), the names and identifiers of the device, and its addresses.\<close>

record ssdp_build =
  sb_strict :: bool
  sb_delay :: bool
  sb_same_version :: bool
  sb_igd2 :: bool
  sb_6fc :: bool
  sb_ppp :: bool
  sb_l3f :: bool

record ssdp_conf =
  sc_build :: ssdp_build
  sc_date :: "string option"
  sc_server :: string
  sc_random_url :: "string option"
  uuidvalue_igd :: string
  uuidvalue_wan :: string
  uuidvalue_wcd :: string
  upnp_bootid :: u32
  upnp_configid :: u32
  sc_host6 :: string
  sc_lans :: "lan_addr_s list"

definition SSDP_PORT :: port where "SSDP_PORT = 1900"

definition SSDP_PACKET_MAX_LEN :: nat where "SSDP_PACKET_MAX_LEN = 1024"

text \<open>A packet handed over for sending: the socket, the bytes, where to, and after how many milliseconds.\<close>

record ssdp_packet =
  pk_socket :: int
  pk_data :: string
  pk_dest :: sockaddr
  pk_delay :: nat

text \<open>Types with their version and the identifier of their device.\<close>

definition known_service_types :: "ssdp_conf \<Rightarrow> (string \<times> nat \<times> string) list" where
  "known_service_types cf =
     (let b = sc_build cf; igd = uuidvalue_igd cf; wan = uuidvalue_wan cf; wcd = uuidvalue_wcd cf; v = (if sb_igd2 b then 2 else 1)
      in [(''upnp:rootdevice'', 0, igd),
          (''urn:schemas-upnp-org:device:InternetGatewayDevice:'', v, igd),
          (''urn:schemas-upnp-org:device:WANConnectionDevice:'', v, wcd),
          (''urn:schemas-upnp-org:device:WANDevice:'', v, wan),
          (''urn:schemas-upnp-org:service:WANIPConnection:'', v, wcd)]
        @ (if sb_igd2 b then [(''urn:schemas-upnp-org:service:DeviceProtection:'', 1, igd)] else [])
        @ (if sb_igd2 b \<and> sb_6fc b then [(''urn:schemas-upnp-org:service:WANIPv6FirewallControl:'', 1, wcd)] else [])
        @ [(''urn:schemas-upnp-org:service:WANCommonInterfaceConfig:'', 1, wan)]
        @ (if sb_ppp b then [(''urn:schemas-upnp-org:service:WANPPPConnection:'', 1, wcd)] else [])
        @ (if sb_l3f b then [(''urn:schemas-upnp-org:service:Layer3Forwarding:'', 1, igd)] else []))"

text \<open>\<^verbatim>\<open>ver_str\<close>: nothing for the root device, which comes first.\<close>

definition ver_str :: "nat \<Rightarrow> nat \<Rightarrow> string" where
  "ver_str i version = (if i = 0 then [] else dec version)"

definition location_line :: "ssdp_conf \<Rightarrow> string \<Rightarrow> port \<Rightarrow> string" where
  "location_line cf host http_port =
     ''LOCATION: http://'' @ host @ '':'' @ dec (unat http_port)
     @ (case sc_random_url cf of None \<Rightarrow> [] | Some r \<Rightarrow> ''/'' @ r) @ ''/rootDesc.xml'' @ crlf"

definition ssdp_ids :: "ssdp_conf \<Rightarrow> string" where
  "ssdp_ids cf =
     ''OPT: '' @ [CHR 0x22] @ ''http://schemas.upnp.org/upnp/1/0/'' @ [CHR 0x22] @ ''; ns=01'' @ crlf
     @ ''01-NLS: '' @ dec (unat (upnp_bootid cf)) @ crlf @ ''BOOTID.UPNP.ORG: '' @ dec (unat (upnp_bootid cf)) @ crlf
     @ ''CONFIGID.UPNP.ORG: '' @ dec (unat (upnp_configid cf)) @ crlf @ crlf"

text \<open>\<^verbatim>\<open>snprintf\<close> into the packet, whose last byte is the terminator.\<close>

definition packet_text :: "string \<Rightarrow> string" where
  "packet_text s = take (SSDP_PACKET_MAX_LEN - 1) s"

section \<open>Answers to a search\<close>

definition response_text :: "ssdp_conf \<Rightarrow> string \<Rightarrow> string \<Rightarrow> string \<Rightarrow> port \<Rightarrow> string \<Rightarrow> string" where
  "response_text cf st suffix host http_port uuidvalue =
     (let st_is_uuid = (st = uuidvalue) in
      ''HTTP/1.1 200 OK'' @ crlf @ ''CACHE-CONTROL: max-age=120'' @ crlf
      @ (case sc_date cf of None \<Rightarrow> [] | Some d \<Rightarrow> ''DATE: '' @ d @ crlf)
      @ ''ST: '' @ cstring st @ suffix @ crlf
      @ ''USN: '' @ uuidvalue @ (if st_is_uuid then [] else ''::'' @ cstring st) @ suffix @ crlf
      @ ''EXT:'' @ crlf @ ''SERVER: '' @ sc_server cf @ crlf @ location_line cf host http_port @ ssdp_ids cf)"

definition SendSSDPResponse ::
  "ssdp_conf \<Rightarrow> int \<Rightarrow> sockaddr \<Rightarrow> string \<Rightarrow> string \<Rightarrow> string \<Rightarrow> port \<Rightarrow> string \<Rightarrow> nat \<Rightarrow> ssdp_packet" where
  "SendSSDPResponse cf s addr st suffix host http_port uuidvalue delay =
     \<lparr>pk_socket = s, pk_data = packet_text (response_text cf st suffix host http_port uuidvalue), pk_dest = addr, pk_delay = delay\<rparr>"

text \<open>What a search says: the type (if there is a header for it) with its version, and the longest delay.\<close>

record msearch =
  ms_st :: "string option"
  ms_ver :: int
  ms_mx :: int

text \<open>The value of a header: after the blanks, up to the end of the line.\<close>

definition header_value :: "string \<Rightarrow> string" where
  "header_value m = takeWhile (\<lambda>c. c \<noteq> CHR 0x0D \<and> c \<noteq> CHR 0x0A) (dropWhile blank m)"

definition after_colon :: "string \<Rightarrow> string" where
  "after_colon st = rev (takeWhile (\<lambda>c. c \<noteq> CHR '':'') (rev st))"

text \<open>The header at the front of \<open>m\<close>; \<open>None\<close> if the packet is ignored for it.\<close>

definition search_header :: "ssdp_build \<Rightarrow> string \<Rightarrow> msearch \<Rightarrow> msearch option" where
  "search_header b m q =
     (if 3 < length m \<and> has_name m ''st:'' then
        (let st = header_value (drop 3 m) in Some (q\<lparr>ms_st := Some st, ms_ver := atoi (take 7 (after_colon st))\<rparr>))
      else if (sb_strict b \<or> sb_delay b) \<and> 3 < length m \<and> has_name m ''mx:'' then
        Some (q\<lparr>ms_mx := atoi (take 7 (header_value (drop 3 m)))\<rparr>)
      else if sb_strict b \<and> 4 < length m \<and> has_name m ''man:'' then
        (if take 15 (header_value (drop 4 m)) = [CHR 0x22] @ ''ssdp:discover'' @ [CHR 0x22] then Some q else None)
      else Some q)"

text \<open>How far the next line break is, or the last byte.\<close>

fun line_break :: "string \<Rightarrow> nat" where
  "line_break (a # b # m) = (if a = CHR 0x0D \<and> b = CHR 0x0A then 0 else Suc (line_break (b # m)))"
| "line_break m = 0"

function search_headers :: "ssdp_build \<Rightarrow> string \<Rightarrow> msearch \<Rightarrow> msearch option" where
  "search_headers b m q =
     (if m = [] then Some q
      else (let r = drop (line_break m + 2) m
            in case search_header b r q of None \<Rightarrow> None | Some q1 \<Rightarrow> search_headers b r q1))"
  by pat_completeness auto
termination
  by (relation "measure (\<lambda>(_, m, _). length m)") (auto simp: Let_def)

declare search_headers.simps [simp del]

text \<open>The bound on the delay: \<open>Inl\<close> if the packet is ignored.\<close>

definition mx_bound :: "ssdp_build \<Rightarrow> int \<Rightarrow> unit + nat" where
  "mx_bound b mx =
     (if sb_strict b \<and> mx < 0 then Inl ()
      else Inr (if mx < 0 then 1 else if mx > 5 then 5 else nat mx))"

text \<open>The host in the answers. \<open>src\<close> gives the source address for a peer, of the interface of its scope for a link
  local one, or nothing when the route is not found.\<close>

definition linklocal :: "in6_addr \<Rightarrow> bool" where
  "linklocal a \<longleftrightarrow> drop_bit 118 a = 0x3FA"

definition announced_host :: "ssdp_conf \<Rightarrow> (sockaddr \<Rightarrow> in6_addr option) \<Rightarrow> lan_addr_s \<Rightarrow> sockaddr \<Rightarrow> string option" where
  "announced_host cf src lan sender =
     (case sender of
        Sin _ _ \<Rightarrow> Some (la_str lan)
      | Sin6 a _ _ \<Rightarrow>
        (if v4mapped a then Some (la_str lan)
         else if \<not> sb_strict (sc_build cf) then Some (sc_host6 cf)
         else (case src sender of
             Some a6 \<Rightarrow> Some (''['' @ inet_ntop6 a6 @ '']'')
           | None \<Rightarrow> Some (if linklocal a then ''['' @ inet_ntop6 0 @ '']'' else sc_host6 cf)))
      | Other_family _ \<Rightarrow> None)"

definition RAND_MAX :: nat where "RAND_MAX = 2147483647"

text \<open>A random delay of at most \<open>mx\<close> seconds; the division by zero has no value.\<close>

definition random_delay :: "nat \<Rightarrow> nat \<Rightarrow> nat option" where
  "random_delay r mx = (if mx = 0 then None else Some (r div (1 + RAND_MAX div (1000 * mx))))"

definition type_wanted :: "ssdp_build \<Rightarrow> string \<Rightarrow> int \<Rightarrow> (string \<times> nat \<times> string) \<Rightarrow> bool" where
  "type_wanted b st ver = (\<lambda>(s, version, _). take (length s) st = s \<and> (sb_strict b \<longrightarrow> ver \<le> int version))"

text \<open>The answer for the first type that matches, and the delay that is left behind.\<close>

definition answer_type ::
  "ssdp_conf \<Rightarrow> (string \<Rightarrow> string \<Rightarrow> string \<Rightarrow> nat \<Rightarrow> ssdp_packet) \<Rightarrow> nat \<Rightarrow> nat \<Rightarrow> string \<Rightarrow> int \<Rightarrow> (ssdp_packet list \<times> nat) option" where
  "answer_type cf send r mx st ver =
     (let b = sc_build cf in
      case find (\<lambda>(i, t). type_wanted b st ver t) (List.enumerate 0 (known_service_types cf)) of
        None \<Rightarrow> Some ([], 50)
      | Some (i, s, version, uuid) \<Rightarrow>
        map_option (\<lambda>delay.
            ([if sb_same_version b then send st [] uuid delay else send s (ver_str i version) uuid delay], delay))
          (if sb_delay b then random_delay r mx else Some 50))"

text \<open>The answers to \<^verbatim>\<open>ssdp:all\<close>, each later than the one before in a build that delays.\<close>

definition answer_all ::
  "ssdp_conf \<Rightarrow> (string \<Rightarrow> string \<Rightarrow> string \<Rightarrow> nat \<Rightarrow> ssdp_packet) \<Rightarrow> nat \<Rightarrow> nat \<Rightarrow> string \<Rightarrow> ssdp_packet list" where
  "answer_all cf send mx delay st =
     (if st \<noteq> ''ssdp:all'' then []
      else (let increment = (if sb_delay (sc_build cf) then mx * 1000 div 15 else 0);
                wanted = map (\<lambda>(i, s, version, uuid). (s, ver_str i version, uuid)) (List.enumerate 0 (known_service_types cf))
                  @ map (\<lambda>u. (u, [], u)) [uuidvalue_igd cf, uuidvalue_wan cf, uuidvalue_wcd cf]
            in map (\<lambda>(k, s, suffix, uuid). send s suffix uuid (delay + (k + 1) * increment)) (List.enumerate 0 wanted)))"

text \<open>The answer to an identifier of the device. Its length is compared with that of the first only.\<close>

definition answer_uuid ::
  "ssdp_conf \<Rightarrow> (string \<Rightarrow> string \<Rightarrow> string \<Rightarrow> nat \<Rightarrow> ssdp_packet) \<Rightarrow> nat \<Rightarrow> nat \<Rightarrow> nat \<Rightarrow> string \<Rightarrow> ssdp_packet list option" where
  "answer_uuid cf send r mx delay st =
     (if length st \<noteq> length (uuidvalue_igd cf) then Some []
      else map_option (\<lambda>d. (case find (\<lambda>u. st = take (length st) u) [uuidvalue_igd cf, uuidvalue_wan cf, uuidvalue_wcd cf] of
            None \<Rightarrow> [] | Some u \<Rightarrow> [send st [] u d]))
          (if sb_delay (sc_build cf) then random_delay r mx else Some delay))"

text \<open>The LAN of the sender, or the one of the interface the packet came in.\<close>

definition lan_of_packet :: "ssdp_conf \<Rightarrow> (in6_addr \<Rightarrow> int option) \<Rightarrow> sockaddr \<Rightarrow> int \<Rightarrow> lan_addr_s option" where
  "lan_of_packet cf route sender source_if =
     (case get_lan_for_peer route (sc_lans cf) sender of
        Some l \<Rightarrow> Some l
      | None \<Rightarrow> if 0 < source_if then find (\<lambda>l. la_index l = word_of_int source_if) (sc_lans cf) else None)"

text \<open>What the system answers: routes, source addresses, and the two random numbers.\<close>

record ssdp_env =
  se_route :: "in6_addr \<Rightarrow> int option"
  se_src :: "sockaddr \<Rightarrow> in6_addr option"
  se_random1 :: nat
  se_random2 :: nat

text \<open>\<open>bufr\<close> is the whole array, whose first \<open>n\<close> bytes were received. The result are the packets, in order.\<close>

definition ProcessSSDPData ::
  "ssdp_conf \<Rightarrow> ssdp_env \<Rightarrow> int \<Rightarrow> string \<Rightarrow> nat \<Rightarrow> sockaddr \<Rightarrow> int \<Rightarrow> port \<Rightarrow> ssdp_packet list option" where
  "ProcessSSDPData cf e s bufr n sender source_if http_port =
     (let b = sc_build cf in
      case lan_of_packet cf (se_route e) sender source_if of None \<Rightarrow> Some []
      | Some lan \<Rightarrow>
        (if take 8 bufr \<noteq> ''M-SEARCH'' then Some []
         else (case search_headers b (take n bufr) \<lparr>ms_st = None, ms_ver = 0, ms_mx = - 1\<rparr> of None \<Rightarrow> Some []
           | Some q \<Rightarrow>
             (case (mx_bound b (ms_mx q), ms_st q) of
                (Inr mx, Some st) \<Rightarrow>
                  (if st = [] then Some []
                   else (case announced_host cf (se_src e) lan sender of None \<Rightarrow> Some []
                     | Some host \<Rightarrow>
                       (let send = (\<lambda>st suffix uuid delay. SendSSDPResponse cf s sender st suffix host http_port uuid delay)
                        in Option.bind (answer_type cf send (se_random1 e) mx st (ms_ver q)) (\<lambda>(ps, delay).
                             map_option (\<lambda>qs. ps @ answer_all cf send mx delay st @ qs)
                               (answer_uuid cf send (se_random2 e) mx
                                 (if st = ''ssdp:all'' \<and> sb_delay b
                                  then delay + (length (known_service_types cf) + 3) * (mx * 1000 div 15) else delay) st)))))
              | _ \<Rightarrow> Some []))))"

section \<open>Announcements\<close>

definition SSDP_MCAST_ADDR :: ipv4 where "SSDP_MCAST_ADDR = 0xEFFFFFFA"

definition LL_SSDP_MCAST_ADDR :: in6_addr where "LL_SSDP_MCAST_ADDR = push_bit 112 0xFF02 OR 0xC"

definition SL_SSDP_MCAST_ADDR :: in6_addr where "SL_SSDP_MCAST_ADDR = push_bit 112 0xFF05 OR 0xC"

definition GL_SSDP_MCAST_ADDR :: in6_addr where "GL_SSDP_MCAST_ADDR = push_bit 112 0xFF0E OR 0xC"

definition mcast4 :: "sockaddr \<times> string" where
  "mcast4 = (Sin SSDP_MCAST_ADDR SSDP_PORT, ''239.255.255.250'')"

definition mcast_addrs :: "ssdp_build \<Rightarrow> (sockaddr \<times> string) list" where
  "mcast_addrs b =
     [(Sin6 LL_SSDP_MCAST_ADDR 0 SSDP_PORT, ''[FF02::C]''), (Sin6 SL_SSDP_MCAST_ADDR 0 SSDP_PORT, ''[FF05::C]'')]
     @ (if sb_strict b then [] else [(Sin6 GL_SSDP_MCAST_ADDR 0 SSDP_PORT, ''[FF0E::C]'')])"

definition notify_text ::
  "ssdp_conf \<Rightarrow> string \<Rightarrow> string \<Rightarrow> port \<Rightarrow> string \<Rightarrow> string \<Rightarrow> string \<Rightarrow> string \<Rightarrow> string \<Rightarrow> u32 \<Rightarrow> string" where
  "notify_text cf dest_str host http_port nt suffix usn1 usn2 usn3 lifetime =
     ''NOTIFY * HTTP/1.1'' @ crlf @ ''HOST: '' @ dest_str @ '':'' @ dec (unat SSDP_PORT) @ crlf
     @ ''CACHE-CONTROL: max-age='' @ dec (unat lifetime) @ crlf @ location_line cf host http_port
     @ ''SERVER: '' @ sc_server cf @ crlf @ ''NT: '' @ nt @ suffix @ crlf
     @ ''USN: '' @ usn1 @ usn2 @ usn3 @ suffix @ crlf @ ''NTS: ssdp:alive'' @ crlf @ ssdp_ids cf"

text \<open>Sent at once and again after a quarter of a second.\<close>

definition SendSSDPNotify ::
  "ssdp_conf \<Rightarrow> int \<Rightarrow> sockaddr \<times> string \<Rightarrow> string \<Rightarrow> port \<Rightarrow> string \<Rightarrow> string \<Rightarrow> string \<Rightarrow> string \<Rightarrow> string \<Rightarrow> u32 \<Rightarrow> ssdp_packet list" where
  "SendSSDPNotify cf s dest host http_port nt suffix usn1 usn2 usn3 lifetime =
     (let t = packet_text (notify_text cf (snd dest) host http_port nt suffix usn1 usn2 usn3 lifetime)
      in map (\<lambda>d. \<lparr>pk_socket = s, pk_data = t, pk_dest = fst dest, pk_delay = d\<rparr>) [0, 250])"

definition is_device :: "string \<Rightarrow> bool" where
  "is_device s \<longleftrightarrow> take 27 s = ''urn:schemas-upnp-org:device''"

text \<open>The loop over the types: a message for each, and one on the identifier for a device.\<close>

definition SendSSDPNotifies :: "ssdp_conf \<Rightarrow> int \<Rightarrow> string \<Rightarrow> port \<Rightarrow> u32 \<Rightarrow> bool \<Rightarrow> ssdp_packet list" where
  "SendSSDPNotifies cf s host http_port lifetime ipv6 =
     concat (map (\<lambda>dest.
         concat (map (\<lambda>(i, t, version, uuid).
             SendSSDPNotify cf s dest host http_port t (ver_str i version) uuid ''::'' t lifetime
             @ (if 0 < i \<and> is_device t then SendSSDPNotify cf s dest host http_port uuid [] uuid [] [] lifetime else []))
           (List.enumerate 0 (known_service_types cf))))
       (if ipv6 then mcast_addrs (sc_build cf) else [mcast4]))"

text \<open>A socket for IPv4 and one for IPv6 (\<open>-1\<close> if that is disabled) for each LAN.\<close>

fun notifies_loop :: "ssdp_conf \<Rightarrow> int list \<Rightarrow> port \<Rightarrow> u32 \<Rightarrow> lan_addr_s list \<Rightarrow> ssdp_packet list" where
  "notifies_loop cf (s4 # s6 # sockets) http_port lifetime (l # ls) =
     SendSSDPNotifies cf s4 (la_str l) http_port lifetime False
     @ (if 0 \<le> s6 then SendSSDPNotifies cf s6 (sc_host6 cf) http_port lifetime True else [])
     @ notifies_loop cf sockets http_port lifetime ls"
| "notifies_loop cf sockets http_port lifetime ls = []"

definition SendSSDPNotifies2 :: "ssdp_conf \<Rightarrow> int list \<Rightarrow> port \<Rightarrow> u32 \<Rightarrow> ssdp_packet list" where
  "SendSSDPNotifies2 cf sockets http_port lifetime = notifies_loop cf sockets http_port lifetime (sc_lans cf)"

section \<open>Withdrawal\<close>

definition byebye_text :: "ssdp_conf \<Rightarrow> string \<Rightarrow> string \<Rightarrow> string \<Rightarrow> string \<Rightarrow> string \<Rightarrow> string \<Rightarrow> string" where
  "byebye_text cf dest_str nt suffix usn1 usn2 usn3 =
     ''NOTIFY * HTTP/1.1'' @ crlf @ ''HOST: '' @ dest_str @ '':'' @ dec (unat SSDP_PORT) @ crlf
     @ ''NT: '' @ nt @ suffix @ crlf @ ''USN: '' @ usn1 @ usn2 @ usn3 @ suffix @ crlf @ ''NTS: ssdp:byebye'' @ crlf @ ssdp_ids cf"

text \<open>\<open>sent\<close> is what sending a packet returns.\<close>

definition SendSSDPbyebye ::
  "ssdp_conf \<Rightarrow> (ssdp_packet \<Rightarrow> int) \<Rightarrow> int \<Rightarrow> sockaddr \<times> string \<Rightarrow> string \<Rightarrow> string \<Rightarrow> string \<Rightarrow> string \<Rightarrow> string \<Rightarrow> int \<times> ssdp_packet" where
  "SendSSDPbyebye cf sent s dest nt suffix usn1 usn2 usn3 =
     (let p = \<lparr>pk_socket = s, pk_data = packet_text (byebye_text cf (snd dest) nt suffix usn1 usn2 usn3), pk_dest = fst dest, pk_delay = 0\<rparr>
      in (if sent p = int (length (pk_data p)) then 0 else - 1, p))"

definition goodbye_socket :: "ssdp_conf \<Rightarrow> (ssdp_packet \<Rightarrow> int) \<Rightarrow> nat \<times> int \<Rightarrow> (int \<times> ssdp_packet) list" where
  "goodbye_socket cf sent = (\<lambda>(j, s).
     (if s < 0 then []
      else (let dest = (if odd j then (Sin6 LL_SSDP_MCAST_ADDR 0 SSDP_PORT, ''[FF02::C]'') else mcast4)
            in concat (map (\<lambda>(i, t, version, uuid).
                SendSSDPbyebye cf sent s dest t (ver_str i version) uuid ''::'' t
                # (if 0 < i \<and> is_device t then [SendSSDPbyebye cf sent s dest uuid [] uuid [] []] else []))
              (List.enumerate 0 (known_service_types cf))))))"

definition SendSSDPGoodbye :: "ssdp_conf \<Rightarrow> (ssdp_packet \<Rightarrow> int) \<Rightarrow> int list \<Rightarrow> int \<times> ssdp_packet list" where
  "SendSSDPGoodbye cf sent sockets =
     (let rs = concat (map (goodbye_socket cf sent) (List.enumerate 0 sockets)) in (sum_list (map fst rs), map snd rs))"

section \<open>Submission to a MiniSSDPd\<close>

text \<open>\<^verbatim>\<open>CODELENGTH\<close>: seven bits to a byte, the highest bit for a byte that is followed by another.\<close>

definition code_length :: "u32 \<Rightarrow> 8 word list" where
  "code_length n =
     (if 268435456 \<le> n then [ucast (drop_bit 28 n) OR 0x80] else [])
     @ (if 2097152 \<le> n then [ucast (drop_bit 21 n) OR 0x80] else [])
     @ (if 16384 \<le> n then [ucast (drop_bit 14 n) OR 0x80] else [])
     @ (if 128 \<le> n then [ucast (drop_bit 7 n) OR 0x80] else [])
     @ [ucast n AND 0x7f]"

text \<open>\<^verbatim>\<open>DECODELENGTH\<close> from the value \<open>n\<close> so far on; a byte past the end has no value.\<close>

fun decode_length :: "u32 \<Rightarrow> 8 word list \<Rightarrow> (u32 \<times> 8 word list) option" where
  "decode_length n [] = None"
| "decode_length n (b # bs) =
     (let n1 = push_bit 7 n OR ucast (b AND 0x7f)
      in if b AND 0x80 \<noteq> 0 \<and> n1 < 0x2000000 then decode_length n1 bs else Some (n1, bs))"

definition bytes_of :: "string \<Rightarrow> 8 word list" where
  "bytes_of s = map (\<lambda>c. word_of_nat (of_char c)) s"

definition coded :: "string \<Rightarrow> 8 word list" where
  "coded s = code_length (word_of_nat (length s)) @ bytes_of s"

text \<open>The message for one service, with the strings cut to the array they are printed to.\<close>

definition submit_message :: "ssdp_conf \<Rightarrow> string \<Rightarrow> port \<Rightarrow> nat \<times> string \<times> nat \<times> string \<Rightarrow> 8 word list" where
  "submit_message cf host http_port = (\<lambda>(i, t, version, uuid).
     4 # coded (take 255 (t @ ver_str i version)) @ coded (take 255 (uuid @ ''::'' @ t @ ver_str i version))
     @ coded (sc_server cf)
     @ coded (take 255 (''http://'' @ host @ '':'' @ dec (unat http_port) @ ''/rootDesc.xml'')))"

text \<open>\<^verbatim>\<open>write\<close> until all is written: the bytes that were taken, and whether it failed. The calls return what
  is in the list, and everything that is left after that.\<close>

fun write_all :: "send_result list \<Rightarrow> 8 word list \<Rightarrow> 8 word list \<times> bool \<times> send_result list" where
  "write_all rs [] = ([], True, rs)"
| "write_all [] bs = (bs, True, [])"
| "write_all (Send_intr # rs) bs = write_all rs bs"
| "write_all (Sent n # rs) bs =
     (if n = 0 then ([], False, rs)
      else (let (w, ok, rs') = write_all rs (drop n bs) in (take n bs @ w, ok, rs')))"
| "write_all (_ # rs) bs = ([], False, rs)"

fun submit_loop :: "ssdp_conf \<Rightarrow> string \<Rightarrow> port \<Rightarrow> send_result list \<Rightarrow> (nat \<times> string \<times> nat \<times> string) list \<Rightarrow> int \<times> 8 word list" where
  "submit_loop cf host http_port rs [] = (0, [])"
| "submit_loop cf host http_port rs (t # ts) =
     (let (w, ok, rs') = write_all rs (submit_message cf host http_port t)
      in if ok then (let (r, v) = submit_loop cf host http_port rs' ts in (r, w @ v)) else (- 1, w))"

text \<open>\<open>connected\<close> is whether the socket was opened and connected.\<close>

definition SubmitServicesToMiniSSDPD :: "ssdp_conf \<Rightarrow> bool \<Rightarrow> send_result list \<Rightarrow> string \<Rightarrow> port \<Rightarrow> int \<times> 8 word list" where
  "SubmitServicesToMiniSSDPD cf connected rs host http_port =
     (if connected then submit_loop cf host http_port rs (List.enumerate 0 (known_service_types cf)) else (- 1, []))"

section \<open>What a MiniSSDPd reads\<close>

lemma bit_7f: "bit (0x7f :: 8 word) i \<longleftrightarrow> i < 7"
proof -
  have "(0x7f :: 8 word) = mask 7" by (simp add: mask_eq_exp_minus_1)
  then show ?thesis by (simp only: bit_mask_iff) auto
qed

lemma bit_80: "bit (0x80 :: 8 word) i \<longleftrightarrow> i = 7"
proof -
  have "(0x80 :: 8 word) = 2 ^ 7" by simp
  then show ?thesis by (simp only: bit_exp_iff) auto
qed

lemma unat_below: "unat (n :: u32) < 2 ^ 32"
  using unsigned_less [of n, where 'a = nat] by simp

lemma unat_drop_bit: "unat (drop_bit k (n :: u32)) = unat n div 2 ^ k"
  by (rule trans [OF unat_drop_bit_eq drop_bit_eq_div])

lemma drop_bit_small: "unat (n :: u32) < 2 ^ k \<Longrightarrow> drop_bit k n = 0"
  using unat_drop_bit [of k n] by (simp flip: unat_eq_zero)

lemma code_byte:
  "push_bit 7 (drop_bit (k + 7) (n :: u32)) OR ucast ((ucast (drop_bit k n) :: 8 word) AND 0x7f) = drop_bit k n"
proof (rule bit_word_eqI)
  fix i assume "i < LENGTH(32)"
  then show "bit (push_bit 7 (drop_bit (k + 7) n) OR ucast ((ucast (drop_bit k n) :: 8 word) AND 0x7f)) i = bit (drop_bit k n) i"
    by (simp only: bit_or_iff bit_and_iff bit_push_bit_iff bit_drop_bit_eq bit_unsigned_iff bit_7f comp_def)
      (cases "i < 7", auto simp: add.commute dest: bit_imp_le_length)
qed

lemma decode_more:
  assumes "7 \<le> k"
  shows "decode_length (drop_bit (k + 7) n) ((ucast (drop_bit k n) OR 0x80) # bs) = decode_length (drop_bit k n) bs"
proof -
  let ?b = "ucast (drop_bit k n) OR 0x80 :: 8 word"
  have "bit (?b AND 0x80) 7" by (simp only: bit_and_iff bit_or_iff bit_80) simp
  then have more: "?b AND 0x80 \<noteq> 0" by (metis bit_0_eq bot_apply bot_bool_def)
  have "?b AND 0x7f = ucast (drop_bit k n) AND 0x7f"
    by (rule bit_word_eqI) (auto simp only: bit_and_iff bit_or_iff bit_80 bit_7f)
  then have n1: "push_bit 7 (drop_bit (k + 7) n) OR ucast (?b AND 0x7f) = drop_bit k n" using code_byte [of k n] by (simp only:)
  have "unat n div 2 ^ k \<le> unat n div 2 ^ 7" using assms by (intro div_le_mono2 power_increasing) simp_all
  then have "unat (drop_bit k n) < 0x2000000" using unat_below [of n] by (simp add: unat_drop_bit)
  then have "drop_bit k n < 0x2000000" by (simp add: word_less_nat_alt)
  then show ?thesis using more n1 by (simp only: decode_length.simps Let_def) simp
qed

lemma decode_last: "decode_length (drop_bit 7 n) ((ucast n AND 0x7f) # bs) = Some (n, bs)"
proof -
  have "(ucast n AND 0x7f) AND 0x80 = (0 :: 8 word)"
    by (rule bit_word_eqI) (auto simp only: bit_and_iff bit_80 bit_7f bit_0_eq bot_apply bot_bool_def)
  moreover have "((ucast n :: 8 word) AND 0x7f) AND 0x7f = ucast n AND 0x7f" by (simp add: and.assoc)
  ultimately show ?thesis using code_byte [of 0 n] by (simp only: decode_length.simps Let_def) simp
qed

lemma decode_code_length: "decode_length 0 (code_length n @ bs) = Some (n, bs)"
proof -
  have more: "unat n < 2 ^ (k + 7) \<Longrightarrow> 7 \<le> k \<Longrightarrow> decode_length 0 ((ucast (drop_bit k n) OR 0x80) # cs) = decode_length (drop_bit k n) cs" for k cs
    using decode_more [of k n cs] drop_bit_small [of n "k + 7"] by simp
  note steps = decode_more [of 7 n] decode_more [of 14 n] decode_more [of 21 n] decode_last
  have sizes: "2 ^ 7 \<le> unat n \<longleftrightarrow> 128 \<le> n" "2 ^ 14 \<le> unat n \<longleftrightarrow> 16384 \<le> n" "2 ^ 21 \<le> unat n \<longleftrightarrow> 2097152 \<le> n"
    "2 ^ 28 \<le> unat n \<longleftrightarrow> 268435456 \<le> n" "unat n < 2 ^ (28 + 7)"
    using unat_below [of n] by (simp_all add: word_le_nat_alt)
  consider "268435456 \<le> n" | "2097152 \<le> n" "\<not> 268435456 \<le> n" | "16384 \<le> n" "\<not> 2097152 \<le> n" | "128 \<le> n" "\<not> 16384 \<le> n" | "\<not> 128 \<le> n"
    by linarith
  then show ?thesis
  proof cases
    case 1
    then have "128 \<le> n" "16384 \<le> n" "2097152 \<le> n" using sizes by (auto simp: word_le_nat_alt)
    then show ?thesis using 1 more [of 28] sizes(5) steps by (simp add: code_length_def)
  next
    case 2
    then have "128 \<le> n" "16384 \<le> n" "unat n < 2 ^ (21 + 7)" using sizes by (auto simp: word_le_nat_alt)
    then show ?thesis using 2 more [of 21] steps by (simp add: code_length_def)
  next
    case 3
    then have "128 \<le> n" "\<not> 268435456 \<le> n" "unat n < 2 ^ (14 + 7)" using sizes by (auto simp: word_le_nat_alt)
    then show ?thesis using 3 more [of 14] steps by (simp add: code_length_def)
  next
    case 4
    then have "\<not> 2097152 \<le> n" "\<not> 268435456 \<le> n" "unat n < 2 ^ (7 + 7)" using sizes by (auto simp: word_le_nat_alt)
    then show ?thesis using 4 more [of 7] steps by (simp add: code_length_def)
  next
    case 5
    then have "\<not> 16384 \<le> n" "\<not> 2097152 \<le> n" "\<not> 268435456 \<le> n" "unat n < 2 ^ 7" using sizes by (auto simp: word_le_nat_alt)
    then show ?thesis using 5 decode_last [of n] drop_bit_small [of n 7] by (simp add: code_length_def)
  qed
qed

text \<open>How the other side reads the messages: a byte for the request, and four strings with their lengths.\<close>

definition read_string :: "8 word list \<Rightarrow> (string \<times> 8 word list) option" where
  "read_string bs = Option.bind (decode_length 0 bs) (\<lambda>(n, r).
     if unat n \<le> length r then Some (map (\<lambda>b. char_of (unat b)) (take (unat n) r), drop (unat n) r) else None)"

definition read_submission :: "8 word list \<Rightarrow> ((8 word \<times> string list) \<times> 8 word list) option" where
  "read_submission bs =
     (case bs of [] \<Rightarrow> None
      | c # r \<Rightarrow> Option.bind (read_string r) (\<lambda>(s1, r1). Option.bind (read_string r1) (\<lambda>(s2, r2).
          Option.bind (read_string r2) (\<lambda>(s3, r3). map_option (\<lambda>(s4, r4). ((c, [s1, s2, s3, s4]), r4)) (read_string r3)))))"

lemma char_of_byte [simp]: "char_of (unat (word_of_nat (of_char c) :: 8 word)) = c"
proof -
  have "of_char c < (256 :: nat)" by simp
  then show ?thesis by (simp add: unat_of_nat)
qed

lemma read_coded: "length s < 2 ^ 32 \<Longrightarrow> read_string (coded s @ bs) = Some (s, bs)"
  by (simp add: read_string_def coded_def decode_code_length bytes_of_def unat_of_nat take_bit_nat_eq_self comp_def)

fun read_submissions :: "nat \<Rightarrow> 8 word list \<Rightarrow> (8 word \<times> string list) list option" where
  "read_submissions 0 bs = (if bs = [] then Some [] else None)"
| "read_submissions (Suc k) bs =
     Option.bind (read_submission bs) (\<lambda>(m, r). map_option (\<lambda>ms. m # ms) (read_submissions k r))"

lemma write_all_complete:
  "write_all rs bs = (w, True, rs') \<Longrightarrow> w = bs"
proof (induction rs bs arbitrary: w rule: write_all.induct)
  case (4 n rs b bs)
  then show ?case by (auto simp: Let_def split: if_splits prod.splits)
qed auto

lemma submit_loop_complete:
  "submit_loop cf host port rs ts = (0, w) \<Longrightarrow> w = concat (map (submit_message cf host port) ts)"
  by (induction ts arbitrary: rs w) (auto simp: Let_def split: prod.splits if_splits dest!: write_all_complete)

lemma submit_loop_result: "fst (submit_loop cf host port rs ts) = 0 \<or> fst (submit_loop cf host port rs ts) = - 1"
  by (induction ts arbitrary: rs) (auto simp: Let_def split: prod.splits, (metis fst_conv)+)

text \<open>C37: When the submission succeeds, the other side reads one registration for each service, with its type, its unique
  name, the name of the server and the location of the description, whatever their lengths.\<close>

theorem submission_read_back:
  assumes "SubmitServicesToMiniSSDPD cf connected rs host http_port = (0, w)" and "length (sc_server cf) < 2 ^ 32"
  shows "read_submissions (length (known_service_types cf)) w
    = Some (map (\<lambda>(i, t, version, uuid).
        (4, [take 255 (t @ ver_str i version), take 255 (uuid @ ''::'' @ t @ ver_str i version), sc_server cf,
             take 255 (''http://'' @ host @ '':'' @ dec (unat http_port) @ ''/rootDesc.xml'')]))
      (List.enumerate 0 (known_service_types cf)))"
proof -
  have short: "length (take 255 s) < 2 ^ 32" for s :: string
    using length_take [of 255 s] by simp
  have one: "read_submission (submit_message cf host http_port (i, t, version, uuid) @ bs)
      = Some ((4, [take 255 (t @ ver_str i version), take 255 (uuid @ ''::'' @ t @ ver_str i version), sc_server cf,
             take 255 (''http://'' @ host @ '':'' @ dec (unat http_port) @ ''/rootDesc.xml'')]), bs)" for i t version uuid bs
    using read_coded [OF short] read_coded [OF assms(2)]
    by (simp add: read_submission_def submit_message_def del: take_append take_Cons_numeral)
  have "read_submissions (length ts) (concat (map (submit_message cf host http_port) ts))
      = Some (map (\<lambda>(i, t, version, uuid).
        (4, [take 255 (t @ ver_str i version), take 255 (uuid @ ''::'' @ t @ ver_str i version), sc_server cf,
             take 255 (''http://'' @ host @ '':'' @ dec (unat http_port) @ ''/rootDesc.xml'')])) ts)" for ts
  proof (induction ts)
    case (Cons x ts)
    obtain i t version uuid where "x = (i, t, version, uuid)" by (cases x) auto
    then show ?case using one [of i t version uuid "concat (map (submit_message cf host http_port) ts)"] Cons.IH by simp
  qed simp
  from this [of "List.enumerate 0 (known_service_types cf)"] show ?thesis
    using assms(1) submit_loop_complete by (auto simp: SubmitServicesToMiniSSDPD_def split: if_splits)
qed

definition sample_ssdp :: "ssdp_build \<Rightarrow> ssdp_conf" where
  "sample_ssdp b =
     \<lparr>sc_build = b, sc_date = None, sc_server = ''Linux UPnP/1.1 MiniUPnPd/2.1'', sc_random_url = None, uuidvalue_igd = ''uuid:1'',
      uuidvalue_wan = ''uuid:2'', uuidvalue_wcd = ''uuid:3'', upnp_bootid = 1, upnp_configid = 1337, sc_host6 = ''[2001:db8::1]'',
      sc_lans = [\<lparr>la_ifname = ''eth0'', la_index = 2, la_str = ''10.0.0.1'', la_addr = 0x0A000001, la_mask = 0xFFFFFF00\<rparr>]\<rparr>"

abbreviation usual_build :: ssdp_build where
  "usual_build \<equiv> \<lparr>sb_strict = False, sb_delay = False, sb_same_version = True, sb_igd2 = False, sb_6fc = False, sb_ppp = True, sb_l3f = True\<rparr>"

abbreviation strict_build :: ssdp_build where
  "strict_build \<equiv> \<lparr>sb_strict = True, sb_delay = True, sb_same_version = True, sb_igd2 = False, sb_6fc = False, sb_ppp = False, sb_l3f = True\<rparr>"

theorem submission_read_back_witness:
  "\<exists>w. SubmitServicesToMiniSSDPD (sample_ssdp usual_build) True [Send_intr] ''10.0.0.1'' 5000 = (0, w)
    \<and> map_option hd (read_submissions 8 w) = Some (4, [''upnp:rootdevice'', ''uuid:1::upnp:rootdevice'', ''Linux UPnP/1.1 MiniUPnPd/2.1'',
        ''http://10.0.0.1:5000/rootDesc.xml''])"
proof -
  have rest: "write_all [] bs = (bs, True, [])" for bs by (cases bs) simp_all
  have whole: "submit_loop cf host port [] ts = (0, concat (map (submit_message cf host port) ts))" for cf host port ts
    by (induction ts) (simp_all add: rest)
  let ?t = "(0 :: nat, ''upnp:rootdevice'', 0 :: nat, ''uuid:1'')"
  obtain ts where ts: "List.enumerate 0 (known_service_types (sample_ssdp usual_build)) = ?t # ts"
    unfolding known_service_types_def Let_def by (simp add: sample_ssdp_def)
  have first: "write_all [Send_intr] bs = (bs, True, [])" if "bs = b # bs'" for b bs and bs' :: "8 word list"
    using that by (simp add: rest)
  have one: "write_all [Send_intr] (submit_message (sample_ssdp usual_build) ''10.0.0.1'' 5000 ?t)
      = (submit_message (sample_ssdp usual_build) ''10.0.0.1'' 5000 ?t, True, [])" by (rule first) (simp add: submit_message_def)
  obtain w where w: "SubmitServicesToMiniSSDPD (sample_ssdp usual_build) True [Send_intr] ''10.0.0.1'' 5000 = (0, w)"
    unfolding SubmitServicesToMiniSSDPD_def ts submit_loop.simps one by (simp add: whole)
  have count: "length (known_service_types (sample_ssdp usual_build)) = 8" by (simp add: known_service_types_def sample_ssdp_def Let_def)
  have port: "dec (unat (5000 :: port)) = ''5000''" by (simp add: dec.simps digit_char_def char_of_def bit_Suc_0_iff)
  have server: "sc_server (sample_ssdp usual_build) = ''Linux UPnP/1.1 MiniUPnPd/2.1''" by (simp add: sample_ssdp_def)
  have fits: "length (sc_server (sample_ssdp usual_build)) < 2 ^ 32" by (simp add: server)
  note r = submission_read_back [OF w fits, unfolded count ts list.map prod.case]
  have "map_option hd (read_submissions 8 w)
      = Some (4, [take 255 (''upnp:rootdevice'' @ ver_str 0 0), take 255 (''uuid:1'' @ ''::'' @ ''upnp:rootdevice'' @ ver_str 0 0),
          sc_server (sample_ssdp usual_build), take 255 (''http://'' @ ''10.0.0.1'' @ '':'' @ dec (unat (5000 :: port)) @ ''/rootDesc.xml'')])"
    by (simp only: r option.map list.sel)
  also have "\<dots> = Some (4, [''upnp:rootdevice'', ''uuid:1::upnp:rootdevice'', ''Linux UPnP/1.1 MiniUPnPd/2.1'',
        ''http://10.0.0.1:5000/rootDesc.xml''])" unfolding port server ver_str_def by simp
  finally show ?thesis using w by blast
qed

section \<open>Reading a search\<close>

lemma line_break_found: "CHR 0x0D \<notin> set l \<Longrightarrow> line_break (l @ CHR 0x0D # CHR 0x0A # m) = length l"
proof (induction l)
  case (Cons a l)
  then have "a \<noteq> CHR 0x0D" by auto
  then show ?case using Cons by (cases l) auto
qed simp

lemma search_headers_step:
  assumes "CHR 0x0D \<notin> set l"
  shows "search_headers b (l @ crlf @ m) q = (case search_header b m q of None \<Rightarrow> None | Some q1 \<Rightarrow> search_headers b m q1)"
  using assms by (subst search_headers.simps) (simp add: line_break_found Let_def)

lemma search_header_crlf [simp]: "search_header b crlf q = Some q" "search_header b [] q = Some q"
  by (simp_all add: search_header_def)

lemma search_headers_end: "search_headers b crlf q = Some q"
  using search_headers_step [of "[]" b "[]" q] by (simp add: search_headers.simps [of b "[]"])

text \<open>What one line of the headers does to the search.\<close>

definition line_value :: "nat \<Rightarrow> string \<Rightarrow> string" where
  "line_value n l = takeWhile (\<lambda>c. c \<noteq> CHR 0x0D \<and> c \<noteq> CHR 0x0A) (dropWhile blank (drop n l))"

definition search_line :: "ssdp_build \<Rightarrow> string \<Rightarrow> msearch \<Rightarrow> msearch option" where
  "search_line b l q =
     (if has_name l ''st:'' then Some (q\<lparr>ms_st := Some (line_value 3 l), ms_ver := atoi (take 7 (after_colon (line_value 3 l)))\<rparr>)
      else if (sb_strict b \<or> sb_delay b) \<and> has_name l ''mx:'' then Some (q\<lparr>ms_mx := atoi (take 7 (line_value 3 l))\<rparr>)
      else if sb_strict b \<and> has_name l ''man:'' then
        (if take 15 (line_value 4 l) = [CHR 0x22] @ ''ssdp:discover'' @ [CHR 0x22] then Some q else None)
      else Some q)"

lemma header_value_line: "n \<le> length l \<Longrightarrow> header_value (drop n (l @ crlf @ m)) = line_value n l"
  by (simp add: header_value_def line_value_def dropWhile_append3 takeWhile_tail blank_def)

lemma has_name_line:
  assumes "CHR 0x0D \<notin> set l" "CHR 0x0D \<notin> set name" "\<forall>c \<in> set name. tolower c = c"
  shows "has_name (l @ crlf @ m) name \<longleftrightarrow> has_name l name" "has_name l name \<Longrightarrow> length name \<le> length l"
proof -
  have low: "tolower CHR 0x0D = CHR 0x0D" by (simp add: tolower_def)
  have name: "map tolower name = name" using assms(3) by (simp add: map_idI)
  show len: "has_name l name \<Longrightarrow> length name \<le> length l"
  proof -
    assume "has_name l name"
    then have "map tolower (take (length name) l) = name" by (simp add: has_name_def strcasecmp_eq_def name)
    then have "length (map tolower (take (length name) l)) = length name" by (simp only:)
    then show "length name \<le> length l" by simp
  qed
  show "has_name (l @ crlf @ m) name \<longleftrightarrow> has_name l name"
  proof (cases "length name \<le> length l")
    case True
    then show ?thesis by (simp add: has_name_def)
  next
    case False
    have "\<not> has_name (l @ crlf @ m) name"
    proof
      assume "has_name (l @ crlf @ m) name"
      then have "map tolower (take (length name) (l @ crlf @ m)) = name" by (simp add: has_name_def strcasecmp_eq_def name)
      moreover have "CHR 0x0D \<in> set (take (length name) (l @ crlf @ m))" using False by (cases "length name - length l") auto
      ultimately show False using assms(2) low by (metis image_eqI list.set_map)
    qed
    then show ?thesis using len False by blast
  qed
qed

lemma search_header_line:
  assumes "CHR 0x0D \<notin> set l"
  shows "search_header b (l @ crlf @ m) q = search_line b l q"
proof -
  have st: "has_name (l @ crlf @ m) ''st:'' \<longleftrightarrow> has_name l ''st:''" "has_name l ''st:'' \<Longrightarrow> 3 \<le> length l"
    using has_name_line(1) [OF assms, of "''st:''" m] has_name_line(2) [OF assms, of "''st:''"] by (simp_all add: tolower_def)
  have mx: "has_name (l @ crlf @ m) ''mx:'' \<longleftrightarrow> has_name l ''mx:''" "has_name l ''mx:'' \<Longrightarrow> 3 \<le> length l"
    using has_name_line(1) [OF assms, of "''mx:''" m] has_name_line(2) [OF assms, of "''mx:''"] by (simp_all add: tolower_def)
  have man: "has_name (l @ crlf @ m) ''man:'' \<longleftrightarrow> has_name l ''man:''" "has_name l ''man:'' \<Longrightarrow> 4 \<le> length l"
    using has_name_line(1) [OF assms, of "''man:''" m] has_name_line(2) [OF assms, of "''man:''"] by (simp_all add: tolower_def)
  have more: "n \<le> length l \<Longrightarrow> n < length (l @ crlf @ m)" for n by simp
  have vals: "3 \<le> length l \<Longrightarrow> header_value (drop 3 (l @ crlf @ m)) = line_value 3 l" "4 \<le> length l \<Longrightarrow> header_value (drop 4 (l @ crlf @ m)) = line_value 4 l"
    by (rule header_value_line; simp)+
  have tests: "3 < length (l @ crlf @ m) \<and> has_name l ''st:'' \<longleftrightarrow> has_name l ''st:''" "3 < length (l @ crlf @ m) \<and> has_name l ''mx:'' \<longleftrightarrow> has_name l ''mx:''"
    "4 < length (l @ crlf @ m) \<and> has_name l ''man:'' \<longleftrightarrow> has_name l ''man:''" using st(2) mx(2) man(2) by auto
  show ?thesis
    unfolding search_header_def search_line_def st(1) mx(1) man(1) Let_def tests
    using st(2) mx(2) man(2) vals by (simp only: cong: if_cong conj_cong)
qed

fun search_lines :: "ssdp_build \<Rightarrow> string list \<Rightarrow> msearch \<Rightarrow> msearch option" where
  "search_lines b [] q = Some q"
| "search_lines b (l # ls) q = (case search_line b l q of None \<Rightarrow> None | Some q1 \<Rightarrow> search_lines b ls q1)"

text \<open>A request as its client writes it: lines without a carriage return, each ended by a line break, and an empty line.\<close>

definition search_text :: "string list \<Rightarrow> string" where
  "search_text ls = concat (map (\<lambda>l. l @ crlf) ls) @ crlf"

lemma search_headers_lines:
  "\<forall>l \<in> set (l0 # ls). CHR 0x0D \<notin> set l \<Longrightarrow> search_headers b (search_text (l0 # ls)) q = search_lines b ls q"
proof (induction ls arbitrary: l0 q)
  case Nil
  then show ?case using search_headers_step [of l0 b crlf q] search_headers_end by (simp add: search_text_def)
next
  case (Cons l ls)
  have "search_headers b (search_text (l0 # l # ls)) q = (case search_header b (search_text (l # ls)) q of None \<Rightarrow> None
      | Some q1 \<Rightarrow> search_headers b (search_text (l # ls)) q1)"
    using search_headers_step [of l0 b "search_text (l # ls)" q] Cons.prems by (simp add: search_text_def)
  also have "search_header b (search_text (l # ls)) q = search_line b l q"
    using search_header_line [of l b "search_text ls" q] Cons.prems by (simp add: search_text_def)
  finally show ?case using Cons by (simp split: option.split)
qed

definition empty_search :: msearch where
  "empty_search = \<lparr>ms_st = None, ms_ver = 0, ms_mx = - 1\<rparr>"

lemma search_lines_append:
  "search_lines b (xs @ ys) q = (case search_lines b xs q of None \<Rightarrow> None | Some q1 \<Rightarrow> search_lines b ys q1)"
  by (induction xs arbitrary: q) (auto split: option.splits)

lemma search_line_keeps:
  assumes "\<not> has_name l ''st:''" "sb_strict b \<longrightarrow> \<not> has_name l ''man:''"
  shows "\<exists>q'. search_line b l q = Some q' \<and> ms_st q' = ms_st q \<and> ms_ver q' = ms_ver q"
  using assms by (auto simp: search_line_def)

lemma search_lines_keep:
  assumes "\<forall>l \<in> set ls. \<not> has_name l ''st:'' \<and> (sb_strict b \<longrightarrow> \<not> has_name l ''man:'')"
  shows "\<exists>q'. search_lines b ls q = Some q' \<and> ms_st q' = ms_st q \<and> ms_ver q' = ms_ver q"
  using assms
proof (induction ls arbitrary: q)
  case (Cons l ls)
  then obtain q1 where q1: "search_line b l q = Some q1" "ms_st q1 = ms_st q" "ms_ver q1 = ms_ver q"
    using search_line_keeps [of l b q] by auto
  then show ?case using Cons.IH [of q1] Cons.prems by auto
qed simp

lemma search_reads_st:
  assumes "\<forall>l \<in> set (l0 # as @ bs). CHR 0x0D \<notin> set l"
    and "\<forall>l \<in> set (as @ bs). \<not> has_name l ''st:'' \<and> (sb_strict b \<longrightarrow> \<not> has_name l ''man:'')"
    and "strcasecmp_eq name ''st:''" and "\<forall>c \<in> set blanks. blank c"
    and "\<forall>c \<in> set st. c \<noteq> CHR 0x0D \<and> c \<noteq> CHR 0x0A" and "st = [] \<or> \<not> blank (hd st)"
  shows "\<exists>q. search_headers b (search_text (l0 # as @ [name @ blanks @ st] @ bs)) empty_search = Some q
    \<and> ms_st q = Some st \<and> ms_ver q = atoi (take 7 (after_colon st))"
proof -
  let ?l = "name @ blanks @ st"
  have "length (map tolower name) = length (map tolower ''st:'')" using assms(3) by (simp only: strcasecmp_eq_def)
  then have len: "length name = 3" by simp
  have "CHR 0x0D \<notin> set name"
  proof
    assume "CHR 0x0D \<in> set name"
    then have "tolower CHR 0x0D \<in> set (map tolower name)" by (simp only: set_map) (rule imageI)
    then have "tolower CHR 0x0D \<in> set (map tolower ''st:'')" using assms(3) by (simp only: strcasecmp_eq_def)
    then show False by (simp add: tolower_def)
  qed
  then have cr: "\<forall>l \<in> set (l0 # as @ [?l] @ bs). CHR 0x0D \<notin> set l"
  proof -
    have "\<not> blank CHR 0x0D" by (simp add: blank_def)
    then have "CHR 0x0D \<notin> set blanks" using assms(4) by blast
    moreover have "CHR 0x0D \<notin> set st" using assms(5) by blast
    ultimately have "CHR 0x0D \<notin> set ?l" using \<open>CHR 0x0D \<notin> set name\<close> by simp
    then show ?thesis using assms(1) by simp
  qed
  have named: "has_name ?l ''st:''" using len assms(3) by (simp add: has_name_def)
  have "dropWhile blank (blanks @ st) = st"
    using assms(4,6) by (cases st) (simp_all add: dropWhile_append)
  then have "line_value 3 ?l = st" using len assms(5) by (simp add: line_value_def takeWhile_eq_all_conv)
  then have line: "search_line b ?l q = Some (q\<lparr>ms_st := Some st, ms_ver := atoi (take 7 (after_colon st))\<rparr>)" for q
    using named by (simp add: search_line_def)
  obtain q1 where q1: "search_lines b as empty_search = Some q1"
    using search_lines_keep [of as b empty_search] assms(2) by auto
  let ?q = "q1\<lparr>ms_st := Some st, ms_ver := atoi (take 7 (after_colon st))\<rparr>"
  obtain q2 where q2: "search_lines b bs ?q = Some q2" "ms_st q2 = ms_st ?q" "ms_ver q2 = ms_ver ?q"
    using search_lines_keep [of bs b ?q] assms(2) by auto
  have "search_headers b (search_text (l0 # as @ [?l] @ bs)) empty_search = Some q2"
    using search_headers_lines [OF cr] q1 line q2(1) by (simp add: search_lines_append)
  then show ?thesis using q2 by simp
qed

text \<open>A search with one \<^verbatim>\<open>ST\<close> header is for the value of this header, whatever its case, its blanks and its place among
  the others.\<close>

theorem search_reads_type:
  assumes "\<forall>l \<in> set (l0 # as @ bs). CHR 0x0D \<notin> set l"
    and "\<forall>l \<in> set (as @ bs). \<not> has_name l ''st:'' \<and> (sb_strict b \<longrightarrow> \<not> has_name l ''man:'')"
    and "strcasecmp_eq name ''st:''" and "\<forall>c \<in> set blanks. blank c"
    and "\<forall>c \<in> set st. c \<noteq> CHR 0x0D \<and> c \<noteq> CHR 0x0A" and "st = [] \<or> \<not> blank (hd st)"
  shows "\<exists>q. search_headers b (search_text (l0 # as @ [name @ blanks @ st] @ bs)) empty_search = Some q
    \<and> ms_st q = Some st \<and> ms_ver q = atoi (take 7 (after_colon st))"
  by (rule search_reads_st [OF assms])

theorem search_reads_type_witness:
  "\<exists>q. search_headers usual_build (search_text [''M-SEARCH * HTTP/1.1'', ''HOST:239.255.255.250:1900'', ''St:  upnp:rootdevice'', ''MX:3'']) empty_search
      = Some q \<and> ms_st q = Some ''upnp:rootdevice''"
proof -
  have "\<exists>q. search_headers usual_build (search_text (''M-SEARCH * HTTP/1.1'' # [''HOST:239.255.255.250:1900''] @ [''St:'' @ ''  '' @ ''upnp:rootdevice''] @ [''MX:3'']))
      empty_search = Some q \<and> ms_st q = Some ''upnp:rootdevice'' \<and> ms_ver q = atoi (take 7 (after_colon ''upnp:rootdevice''))"
    by (rule search_reads_type) (simp_all add: has_name_def strcasecmp_eq_def tolower_def char_of_def blank_def bit_Suc_0_iff)
  then show ?thesis by auto
qed

section \<open>Who is answered, and how\<close>

lemma answer_type_packets:
  "answer_type cf send r mx st ver = Some (ps, d) \<Longrightarrow> p \<in> set ps \<Longrightarrow> \<exists>s suffix uuid delay. p = send s suffix uuid delay"
  by (auto simp: answer_type_def Let_def split: option.splits if_splits prod.splits, (intro exI, rule refl)+)

lemma answer_type_length: "answer_type cf send r mx st ver = Some (ps, d) \<Longrightarrow> length ps \<le> 1"
  by (auto simp: answer_type_def Let_def split: option.splits if_splits prod.splits)

lemma answer_all_packets: "p \<in> set (answer_all cf send mx d st) \<Longrightarrow> \<exists>s suffix uuid delay. p = send s suffix uuid delay"
  by (auto simp: answer_all_def Let_def split: if_splits)

lemma answer_all_length: "length (answer_all cf send mx d st) = (if st = ''ssdp:all'' then length (known_service_types cf) + 3 else 0)"
  by (simp add: answer_all_def Let_def)

lemma answer_uuid_packets:
  "answer_uuid cf send r mx d st = Some qs \<Longrightarrow> p \<in> set qs \<Longrightarrow> \<exists>s suffix uuid delay. p = send s suffix uuid delay"
  by (auto simp: answer_uuid_def split: if_splits option.splits, (intro exI, rule refl)+)

lemma answer_uuid_length: "answer_uuid cf send r mx d st = Some qs \<Longrightarrow> length qs \<le> 1"
  by (auto simp: answer_uuid_def split: if_splits option.splits)

lemma process_search:
  assumes "ProcessSSDPData cf e s bufr n sender source_if http_port = Some ps" "ps \<noteq> []"
  obtains lan host st mx ver qs1 delay d2 qs2 where
    "lan_of_packet cf (se_route e) sender source_if = Some lan" "take 8 bufr = ''M-SEARCH''"
    "answer_type cf (\<lambda>st suffix uuid delay. SendSSDPResponse cf s sender st suffix host http_port uuid delay) (se_random1 e) mx st ver = Some (qs1, delay)"
    "answer_uuid cf (\<lambda>st suffix uuid delay. SendSSDPResponse cf s sender st suffix host http_port uuid delay) (se_random2 e) mx d2 st = Some qs2"
    "ps = qs1 @ answer_all cf (\<lambda>st suffix uuid delay. SendSSDPResponse cf s sender st suffix host http_port uuid delay) mx delay st @ qs2"
proof -
  let ?b = "sc_build cf"
  note run = assms(1) [unfolded ProcessSSDPData_def Let_def]
  obtain lan where lan: "lan_of_packet cf (se_route e) sender source_if = Some lan"
    using run assms(2) by (cases "lan_of_packet cf (se_route e) sender source_if") auto
  have search: "take 8 bufr = ''M-SEARCH''" using run assms(2) lan by (auto split: if_split_asm)
  obtain q where q: "search_headers ?b (take n bufr) \<lparr>ms_st = None, ms_ver = 0, ms_mx = - 1\<rparr> = Some q"
    using run assms(2) lan search by (cases "search_headers ?b (take n bufr) \<lparr>ms_st = None, ms_ver = 0, ms_mx = - 1\<rparr>") auto
  obtain mx where mx: "mx_bound ?b (ms_mx q) = Inr mx" using run assms(2) lan search q by (cases "mx_bound ?b (ms_mx q)") auto
  obtain st where st: "ms_st q = Some st" "st \<noteq> []" using run assms(2) lan search q mx by (cases "ms_st q") (auto split: if_split_asm)
  obtain host where host: "announced_host cf (se_src e) lan sender = Some host"
    using run assms(2) lan search q mx st by (cases "announced_host cf (se_src e) lan sender") auto
  show thesis using run lan search q mx st host that by (auto simp: bind_eq_Some_conv simp del: if_split)
qed

lemma known_types_wanted: "\<not> type_wanted b ''ssdp:all'' ver t" if "t \<in> set (known_service_types cf)"
  using that by (auto simp: known_service_types_def type_wanted_def Let_def split: if_splits)

text \<open>C34: Answers go to the sender of a search only, who is in a LAN or whose packet came in by the interface of one; each fits
  one packet, and there are at most as many as services and devices.\<close>

theorem search_answers_sender:
  assumes "ProcessSSDPData cf e s bufr n sender source_if http_port = Some ps"
    and "length (uuidvalue_igd cf) \<noteq> 8"
  shows "(\<forall>p \<in> set ps. pk_dest p = sender \<and> pk_socket p = s \<and> length (pk_data p) < SSDP_PACKET_MAX_LEN)
    \<and> length ps \<le> length (known_service_types cf) + 3
    \<and> (ps \<noteq> [] \<longrightarrow> take 8 bufr = ''M-SEARCH'' \<and> (\<exists>l \<in> set (sc_lans cf). get_lan_for_peer (se_route e) (sc_lans cf) sender = Some l
          \<or> get_lan_for_peer (se_route e) (sc_lans cf) sender = None \<and> 0 < source_if \<and> la_index l = word_of_int source_if))"
proof (cases "ps = []")
  case False
  let ?b = "sc_build cf"
  obtain lan host st mx ver qs1 delay d2 qs2 where lan: "lan_of_packet cf (se_route e) sender source_if = Some lan"
    and search: "take 8 bufr = ''M-SEARCH''"
    and parts: "answer_type cf (\<lambda>st suffix uuid delay. SendSSDPResponse cf s sender st suffix host http_port uuid delay) (se_random1 e) mx st ver = Some (qs1, delay)"
      "answer_uuid cf (\<lambda>st suffix uuid delay. SendSSDPResponse cf s sender st suffix host http_port uuid delay) (se_random2 e) mx d2 st = Some qs2"
      "ps = qs1 @ answer_all cf (\<lambda>st suffix uuid delay. SendSSDPResponse cf s sender st suffix host http_port uuid delay) mx delay st @ qs2"
    by (rule process_search [OF assms(1) False])
  have l: "lan \<in> set (sc_lans cf)" "get_lan_for_peer (se_route e) (sc_lans cf) sender = Some lan
      \<or> get_lan_for_peer (se_route e) (sc_lans cf) sender = None \<and> 0 < source_if \<and> la_index lan = word_of_int source_if"
    using lan by (auto simp: lan_of_packet_def get_lan_for_peer_def find_Some_iff split: option.splits if_splits sockaddr.splits)
  have one: "pk_dest p = sender \<and> pk_socket p = s \<and> length (pk_data p) < SSDP_PACKET_MAX_LEN" if "p \<in> set ps" for p
  proof -
    have "\<exists>a suffix uuid delay. p = SendSSDPResponse cf s sender a suffix host http_port uuid delay"
      using that answer_type_packets [OF parts(1)] answer_uuid_packets [OF parts(2)] answer_all_packets by (auto simp: parts(3))
    then show ?thesis by (auto simp: SendSSDPResponse_def packet_text_def SSDP_PACKET_MAX_LEN_def)
  qed
  have "length ps \<le> length (known_service_types cf) + 3"
  proof (cases "st = ''ssdp:all''")
    case True
    have "find (\<lambda>(i, t). type_wanted ?b st ver t) (List.enumerate 0 (known_service_types cf)) = None"
      unfolding find_None_iff using known_types_wanted [OF nth_mem, of _ cf ?b ver] True by (auto simp: in_set_enumerate_eq)
    then have "qs1 = []" using parts(1) by (simp add: answer_type_def)
    moreover have "qs2 = []" using parts(2) True assms(2) by (simp add: answer_uuid_def split: if_splits)
    ultimately show ?thesis using True by (simp add: parts(3) answer_all_length)
  next
    case False
    then show ?thesis using answer_type_length [OF parts(1)] answer_uuid_length [OF parts(2)] by (simp add: parts(3) answer_all_length)
  qed
  then show ?thesis using one search l by blast
qed simp

definition sample_source :: ssdp_env where
  "sample_source = \<lparr>se_route = \<lambda>_. None, se_src = \<lambda>_. None, se_random1 = 0, se_random2 = 0\<rparr>"

lemma known_distinct: "distinct (map fst (known_service_types cf))"
proof (cases "sc_build cf")
  case (fields strict delay same igd2 v6 ppp l3f)
  show ?thesis unfolding known_service_types_def Let_def fields by (cases igd2; cases v6; cases ppp; cases l3f) simp_all
qed

definition type_names :: "string list" where
  "type_names = [''upnp:rootdevice'', ''urn:schemas-upnp-org:device:InternetGatewayDevice:'',
     ''urn:schemas-upnp-org:device:WANConnectionDevice:'', ''urn:schemas-upnp-org:device:WANDevice:'',
     ''urn:schemas-upnp-org:service:WANIPConnection:'', ''urn:schemas-upnp-org:service:DeviceProtection:'',
     ''urn:schemas-upnp-org:service:WANIPv6FirewallControl:'', ''urn:schemas-upnp-org:service:WANCommonInterfaceConfig:'',
     ''urn:schemas-upnp-org:service:WANPPPConnection:'', ''urn:schemas-upnp-org:service:Layer3Forwarding:'']"

lemma known_names: "t \<in> set (known_service_types cf) \<Longrightarrow> fst t \<in> set type_names"
  by (auto simp: known_service_types_def type_names_def Let_def split: if_splits)

lemma names_prefix_free: "list_all (\<lambda>x. list_all (\<lambda>y. take (length x) y = x \<longrightarrow> x = y) type_names) type_names"
  by code_simp

lemma names_in_urn: "list_all (\<lambda>x. take 2 x \<in> {''up'', ''ur''}) type_names"
  by code_simp

lemma type_unique:
  assumes "t \<in> set (known_service_types cf)" "t' \<in> set (known_service_types cf)"
    and "take (length (fst t)) st = fst t" "take (length (fst t')) st = fst t'"
  shows "t = t'"
proof -
  have "fst t = fst t'"
  proof (cases "length (fst t) \<le> length (fst t')")
    case True
    then have "take (length (fst t)) (fst t') = fst t" using assms(3,4) by (metis min.absorb1 take_take)
    then show ?thesis using names_prefix_free known_names [OF assms(1)] known_names [OF assms(2)] by (auto simp: list_all_iff)
  next
    case False
    then have "take (length (fst t')) (fst t) = fst t'" using assms(3,4) by (metis min.absorb1 nat_le_linear take_take)
    then show ?thesis using names_prefix_free known_names [OF assms(1)] known_names [OF assms(2)] by (fastforce simp: list_all_iff)
  qed
  then show ?thesis using known_distinct [of cf] assms(1,2) by (metis eq_key_imp_eq_value prod.collapse)
qed

lemma find_type:
  assumes "(s, version, uuid) \<in> set (known_service_types cf)" "take (length s) st = s" "sb_strict (sc_build cf) \<longrightarrow> ver \<le> int version"
  shows "\<exists>i. find (\<lambda>(i, t). type_wanted (sc_build cf) st ver t) (List.enumerate 0 (known_service_types cf)) = Some (i, s, version, uuid)"
proof -
  let ?P = "\<lambda>(i :: nat, t). type_wanted (sc_build cf) st ver t"
  obtain k where k: "k < length (known_service_types cf)" "known_service_types cf ! k = (s, version, uuid)"
    using assms(1) by (auto simp: in_set_conv_nth)
  have "(k, s, version, uuid) \<in> set (List.enumerate 0 (known_service_types cf))" using k by (auto simp: in_set_enumerate_eq)
  moreover have "?P (k, s, version, uuid)" using assms(2,3) by (simp add: type_wanted_def)
  ultimately have "find ?P (List.enumerate 0 (known_service_types cf)) \<noteq> None" unfolding find_None_iff by blast
  then obtain i t where found: "find ?P (List.enumerate 0 (known_service_types cf)) = Some (i, t)" by auto
  then obtain j where "j < length (List.enumerate 0 (known_service_types cf))" "List.enumerate 0 (known_service_types cf) ! j = (i, t)" "?P (i, t)"
    unfolding find_Some_iff by metis
  then have "?P (i, t)" "(i, t) \<in> set (List.enumerate 0 (known_service_types cf))" by (metis nth_mem)+
  then have "take (length (fst t)) st = fst t" "t \<in> set (known_service_types cf)"
    by (auto simp: type_wanted_def in_set_enumerate_eq split: prod.splits) (metis nth_mem)+
  then have "t = (s, version, uuid)" using type_unique [OF _ assms(1)] assms(2) by simp
  then show ?thesis using found by blast
qed

text \<open>The answer to a search, line by line: the type that was asked for, the unique name, and the location of the
  description.\<close>

definition answer_message :: "ssdp_conf \<Rightarrow> string \<Rightarrow> string \<Rightarrow> string \<Rightarrow> port \<Rightarrow> string" where
  "answer_message cf st uuid host http_port =
     ''HTTP/1.1 200 OK'' @ crlf @ ''CACHE-CONTROL: max-age=120'' @ crlf
     @ (case sc_date cf of None \<Rightarrow> [] | Some d \<Rightarrow> ''DATE: '' @ d @ crlf)
     @ ''ST: '' @ st @ crlf @ ''USN: '' @ uuid @ ''::'' @ st @ crlf @ ''EXT:'' @ crlf @ ''SERVER: '' @ sc_server cf @ crlf
     @ ''LOCATION: http://'' @ host @ '':'' @ dec (unat http_port) @ (case sc_random_url cf of None \<Rightarrow> [] | Some r \<Rightarrow> ''/'' @ r)
     @ ''/rootDesc.xml'' @ crlf @ ssdp_ids cf"

lemma known_uuids: "(s, version, uuid) \<in> set (known_service_types cf) \<Longrightarrow> uuid \<in> {uuidvalue_igd cf, uuidvalue_wan cf, uuidvalue_wcd cf}"
  by (auto simp: known_service_types_def Let_def split: if_splits)

text \<open>C35: In the build that is neither strict nor delays its answers and that repeats the version it was asked for:
  an \<^verbatim>\<open>M-SEARCH\<close> over IPv4 from a LAN for a type of the table (with any version \<open>v\<close> behind it, and without another
  \<^verbatim>\<open>ST\<close> header) is answered with exactly one packet, to its sender. It names the type as it was
  asked for, the identifier of the device, and the location of the description on the router's address in that LAN;
  the answer has to be one that fits a packet.\<close>

theorem own_type_answered:
  assumes "\<not> sb_strict (sc_build cf)" and "\<not> sb_delay (sc_build cf)" and "sb_same_version (sc_build cf)"
    and "(s, version, uuid) \<in> set (known_service_types cf)"
    and "\<forall>u \<in> {uuidvalue_igd cf, uuidvalue_wan cf, uuidvalue_wcd cf}. take 5 u = ''uuid:''"
    and "take n bufr = search_text (l0 # as @ [''ST:'' @ blanks @ s @ v] @ bs)" and "take 8 l0 = ''M-SEARCH''"
    and "\<forall>l \<in> set (l0 # as @ bs). CHR 0x0D \<notin> set l" and "\<forall>l \<in> set (as @ bs). \<not> has_name l ''st:''"
    and "\<forall>c \<in> set blanks. blank c" and "\<forall>c \<in> set v. c \<notin> {CHR 0x0D, CHR 0x0A, CHR 0x00}"
    and "get_lan_for_peer (se_route e) (sc_lans cf) (Sin a p) = Some lan"
    and "length (answer_message cf (s @ v) uuid (la_str lan) http_port) < SSDP_PACKET_MAX_LEN"
  shows "ProcessSSDPData cf e sk bufr n (Sin a p) source_if http_port
    = Some [\<lparr>pk_socket = sk, pk_data = answer_message cf (s @ v) uuid (la_str lan) http_port, pk_dest = Sin a p, pk_delay = 50\<rparr>]"
proof -
  have name: "s \<in> set type_names" using known_names [OF assms(4)] by simp
  have all: "list_all (\<lambda>x. x \<noteq> [] \<and> list_all (\<lambda>c. c \<noteq> CHR 0x0D \<and> c \<noteq> CHR 0x0A) x \<and> \<not> blank (hd x)) type_names" by code_simp
  then have s: "s \<noteq> []" "\<forall>c \<in> set s. c \<noteq> CHR 0x0D \<and> c \<noteq> CHR 0x0A" "\<not> blank (hd s)" using name by (auto simp: list_all_iff)
  have st_name: "strcasecmp_eq ''ST:'' ''st:''" by code_simp
  have no_zero: "cstring (s @ v) = s @ v"
  proof -
    have "list_all (\<lambda>x. CHR 0x00 \<notin> set x) type_names" by code_simp
    then show ?thesis using name assms(11) by (auto simp: list_all_iff cstring_def takeWhile_eq_all_conv)
  qed
  have sv: "\<forall>c \<in> set (s @ v). c \<noteq> CHR 0x0D \<and> c \<noteq> CHR 0x0A" "s @ v = [] \<or> \<not> blank (hd (s @ v))" using s assms(11) by auto
  have others: "\<forall>l \<in> set (as @ bs). \<not> has_name l ''st:'' \<and> (sb_strict (sc_build cf) \<longrightarrow> \<not> has_name l ''man:'')" using assms(1,9) by blast
  obtain q where q: "search_headers (sc_build cf) (search_text (l0 # as @ [''ST:'' @ blanks @ s @ v] @ bs)) empty_search = Some q"
    "ms_st q = Some (s @ v)"
    using search_reads_st [OF assms(8) others st_name assms(10) sv] by blast
  have start: "take 8 bufr = ''M-SEARCH''"
  proof -
    have "8 \<le> length l0" using arg_cong [OF assms(7), of length] by simp
    then have "take 8 (take n bufr) = ''M-SEARCH''" unfolding assms(6) using assms(7) by (simp add: search_text_def)
    moreover have "8 \<le> n"
    proof (rule ccontr)
      assume "\<not> 8 \<le> n"
      then have "length (take 8 (take n bufr)) < 8" by simp
      then show False unfolding \<open>take 8 (take n bufr) = ''M-SEARCH''\<close> by simp
    qed
    ultimately show ?thesis by (simp add: min_def)
  qed
  let ?send = "\<lambda>st suffix uuid delay. SendSSDPResponse cf sk (Sin a p) st suffix (la_str lan) http_port uuid delay"
  have "take (length s) (s @ v) = s" by simp
  then obtain i where "find (\<lambda>(i, t). type_wanted (sc_build cf) (s @ v) (ms_ver q) t) (List.enumerate 0 (known_service_types cf)) = Some (i, s, version, uuid)"
    using find_type [OF assms(4)] assms(1) by blast
  then have answer: "answer_type cf ?send (se_random1 e) mx (s @ v) (ms_ver q) = Some ([?send (s @ v) [] uuid 50], 50)" for mx
    using assms(2,3) by (simp add: answer_type_def)
  have two: "take 2 (s @ v) \<in> {''up'', ''ur''}"
  proof -
    have "take 2 s \<in> {''up'', ''ur''}" using names_in_urn name by (simp add: list_all_iff)
    moreover from this have "2 \<le> length s" by (cases s rule: list.exhaust; cases "tl s") auto
    ultimately show ?thesis by simp
  qed
  have not_all: "s @ v \<noteq> ''ssdp:all''"
  proof
    assume "s @ v = ''ssdp:all''"
    then show False using two by (simp only:) simp
  qed
  have "find (\<lambda>u. s @ v = take (length (s @ v)) u) [uuidvalue_igd cf, uuidvalue_wan cf, uuidvalue_wcd cf] = None" if "length (s @ v) = length (uuidvalue_igd cf)"
  proof (rule ccontr)
    assume "\<not> ?thesis"
    then obtain u where u: "u \<in> {uuidvalue_igd cf, uuidvalue_wan cf, uuidvalue_wcd cf}" "s @ v = take (length (s @ v)) u"
      unfolding find_None_iff by auto
    have "take 5 u = ''uuid:''" using assms(5) u(1) by blast
    then have "take 2 (take 5 u) = ''uu''" by (simp only:) simp
    then have "take 2 u = ''uu''" by simp
    moreover have "take 2 (s @ v) = take (min 2 (length (s @ v))) u" using arg_cong [OF u(2), of "take 2"] by simp
    moreover have "2 \<le> length (s @ v)" using two by (cases "s @ v" rule: list.exhaust; cases "tl (s @ v)") auto
    ultimately show False using two by (simp add: min_def)
  qed
  then have "answer_uuid cf ?send (se_random2 e) mx 50 (s @ v) = Some []" for mx
    using assms(2) by (simp add: answer_uuid_def)
  moreover have "?send (s @ v) [] uuid 50
      = \<lparr>pk_socket = sk, pk_data = answer_message cf (s @ v) uuid (la_str lan) http_port, pk_dest = Sin a p, pk_delay = 50\<rparr>"
  proof -
    have "take 5 uuid = ''uuid:''" using known_uuids [OF assms(4)] assms(5) by blast
    then have "take 2 (take 5 uuid) = ''uu''" by (simp only:) simp
    then have "s @ v \<noteq> uuid" using two by auto
    then have "response_text cf (s @ v) [] (la_str lan) http_port uuid = answer_message cf (s @ v) uuid (la_str lan) http_port"
      using no_zero by (simp add: response_text_def answer_message_def location_line_def Let_def del: append_assoc)
    then show ?thesis using assms(13) by (simp add: SendSSDPResponse_def packet_text_def)
  qed
  ultimately show ?thesis
    using start q assms(1,2,12) s(1) answer not_all
    by (simp add: ProcessSSDPData_def lan_of_packet_def assms(6) empty_search_def mx_bound_def announced_host_def answer_all_def Let_def)
qed

definition sample_lan :: lan_addr_s where
  "sample_lan = \<lparr>la_ifname = ''eth0'', la_index = 2, la_str = ''10.0.0.1'', la_addr = 0x0A000001, la_mask = 0xFFFFFF00\<rparr>"

lemma sample_from_lan: "get_lan_for_peer route (sc_lans (sample_ssdp b)) (Sin 0x0A000005 p) = Some sample_lan"
  by (simp add: get_lan_for_peer_def sample_ssdp_def in_lan_def sample_lan_def)

theorem own_type_answered_witness:
  "ProcessSSDPData (sample_ssdp usual_build) sample_source 4
      (search_text [''M-SEARCH * HTTP/1.1'', ''ST: urn:schemas-upnp-org:device:WANDevice:1'', ''MX: 3'']) 75 (Sin 0x0A000005 1900) 2 5000
    = Some [\<lparr>pk_socket = 4, pk_data = answer_message (sample_ssdp usual_build) ''urn:schemas-upnp-org:device:WANDevice:1'' ''uuid:2''
        ''10.0.0.1'' 5000, pk_dest = Sin 0x0A000005 1900, pk_delay = 50\<rparr>]"
proof -
  let ?lines = "''M-SEARCH * HTTP/1.1'' # [] @ [''ST:'' @ '' '' @ ''urn:schemas-upnp-org:device:WANDevice:'' @ ''1''] @ [''MX: 3'']"
  have names: "\<not> has_name ''MX: 3'' ''st:''" by code_simp
  have size: "length (search_text [''M-SEARCH * HTTP/1.1'', ''ST: urn:schemas-upnp-org:device:WANDevice:1'', ''MX: 3'']) = 75" by (simp add: search_text_def)
  have digits: "length (dec (unat x)) \<le> 10" for x :: u32
  proof -
    have "unat x < 2 ^ 32" using unsigned_less [of x] by simp
    then show ?thesis by (intro length_dec) simp_all
  qed
  have "length (dec (unat (5000 :: port))) \<le> 5" using unat_port_less [of 5000] by (intro length_dec) auto
  then have fits: "length (answer_message (sample_ssdp usual_build) (''urn:schemas-upnp-org:device:WANDevice:'' @ ''1'') ''uuid:2'' (la_str sample_lan) 5000)
      < SSDP_PACKET_MAX_LEN"
    using digits [of "upnp_bootid (sample_ssdp usual_build)"] digits [of "upnp_configid (sample_ssdp usual_build)"]
    by (simp add: answer_message_def ssdp_ids_def sample_ssdp_def sample_lan_def SSDP_PACKET_MAX_LEN_def)
  have "(''urn:schemas-upnp-org:device:WANDevice:'', 1, ''uuid:2'') \<in> set (known_service_types (sample_ssdp usual_build))"
    by (simp add: known_service_types_def sample_ssdp_def Let_def)
  moreover have "\<forall>u \<in> {uuidvalue_igd (sample_ssdp usual_build), uuidvalue_wan (sample_ssdp usual_build), uuidvalue_wcd (sample_ssdp usual_build)}.
      take 5 u = ''uuid:''" by (simp add: sample_ssdp_def)
  moreover have "\<not> sb_strict (sc_build (sample_ssdp usual_build))" "\<not> sb_delay (sc_build (sample_ssdp usual_build))"
    "sb_same_version (sc_build (sample_ssdp usual_build))" by (simp_all add: sample_ssdp_def)
  ultimately have "ProcessSSDPData (sample_ssdp usual_build) sample_source 4 (search_text ?lines) 75 (Sin 0x0A000005 1900) 2 5000
    = Some [\<lparr>pk_socket = 4, pk_data = answer_message (sample_ssdp usual_build) (''urn:schemas-upnp-org:device:WANDevice:'' @ ''1'') ''uuid:2''
        (la_str sample_lan) 5000, pk_dest = Sin 0x0A000005 1900, pk_delay = 50\<rparr>]"
    by (intro own_type_answered [where as = "[]" and bs = "[''MX: 3'']" and blanks = "'' ''" and ?l0.0 = "''M-SEARCH * HTTP/1.1''" and lan = sample_lan])
      (simp_all add: size sample_from_lan names blank_def fits [simplified])
  then show ?thesis by (simp add: sample_lan_def)
qed

theorem search_answers_sender_witness:
  "\<exists>p. ProcessSSDPData (sample_ssdp usual_build) sample_source 4 (search_text [''M-SEARCH * HTTP/1.1'', ''ST:upnp:rootdevice'']) 43
      (Sin 0x0A000005 1900) 2 5000 = Some [p]
    \<and> pk_dest p = Sin 0x0A000005 1900 \<and> length (pk_data p) < SSDP_PACKET_MAX_LEN"
proof -
  let ?bufr = "search_text [''M-SEARCH * HTTP/1.1'', ''ST:upnp:rootdevice'']"
  have names: "has_name ''ST:upnp:rootdevice'' ''st:''" by code_simp
  have "search_headers usual_build ?bufr empty_search = search_lines usual_build [''ST:upnp:rootdevice''] empty_search"
    using search_headers_lines [of "''M-SEARCH * HTTP/1.1''" "[''ST:upnp:rootdevice'']" usual_build empty_search] by simp
  also have "\<dots> = Some (empty_search\<lparr>ms_st := Some ''upnp:rootdevice'', ms_ver := atoi (take 7 (after_colon ''upnp:rootdevice''))\<rparr>)"
    using names by (simp add: search_line_def line_value_def blank_def)
  finally have q: "search_headers usual_build ?bufr \<lparr>ms_st = None, ms_ver = 0, ms_mx = - 1\<rparr>
      = Some (empty_search\<lparr>ms_st := Some ''upnp:rootdevice'', ms_ver := atoi (take 7 (after_colon ''upnp:rootdevice''))\<rparr>)"
    by (simp add: empty_search_def)
  have b: "sc_build (sample_ssdp usual_build) = usual_build" by (simp add: sample_ssdp_def)
  let ?p = "SendSSDPResponse (sample_ssdp usual_build) 4 (Sin 0x0A000005 1900) ''upnp:rootdevice'' [] ''10.0.0.1'' 5000 ''uuid:1'' 50"
  have start: "take 8 ?bufr = ''M-SEARCH''" "take 43 ?bufr = ?bufr" by (simp_all add: search_text_def)
  have known: "known_service_types (sample_ssdp usual_build) = (''upnp:rootdevice'', 0, ''uuid:1'') # tl (known_service_types (sample_ssdp usual_build))"
    by (simp add: known_service_types_def sample_ssdp_def Let_def)
  have "find (\<lambda>(i, t). type_wanted usual_build ''upnp:rootdevice'' ver t) (List.enumerate 0 (known_service_types (sample_ssdp usual_build)))
      = Some (0, ''upnp:rootdevice'', 0, ''uuid:1'')" for ver
    by (subst known) (simp add: type_wanted_def)
  then have run: "ProcessSSDPData (sample_ssdp usual_build) sample_source 4 ?bufr 43 (Sin 0x0A000005 1900) 2 5000 = Some [?p]"
    using start q
    by (simp add: ProcessSSDPData_def lan_of_packet_def sample_from_lan b empty_search_def mx_bound_def announced_host_def
        answer_type_def answer_all_def answer_uuid_def sample_lan_def Let_def) (simp add: sample_ssdp_def)
  from search_answers_sender [OF run] run show ?thesis by (simp add: sample_ssdp_def)
qed

section \<open>A search that ends the program\<close>

text \<open>C39: In the build that delays its answers, a search for an own type whose \<^verbatim>\<open>MX\<close> header says 0 divides by zero.\<close>

theorem mx_zero_faults:
  assumes "sb_delay (sc_build cf)" and "lan_of_packet cf (se_route e) (Sin a p) source_if = Some lan" and "take 8 bufr = ''M-SEARCH''"
    and "search_headers (sc_build cf) (take n bufr) empty_search = Some q" and "ms_mx q = 0" and "ms_st q = Some st"
    and "(s, version, uuid) \<in> set (known_service_types cf)" and "take (length s) st = s"
    and "sb_strict (sc_build cf) \<longrightarrow> ms_ver q \<le> int version"
  shows "ProcessSSDPData cf e sk bufr n (Sin a p) source_if http_port = None"
proof -
  obtain i where found: "find (\<lambda>(i, t). type_wanted (sc_build cf) st (ms_ver q) t) (List.enumerate 0 (known_service_types cf)) = Some (i, s, version, uuid)"
    using find_type [OF assms(7-9)] by blast
  have "list_all (\<lambda>x. x \<noteq> []) type_names" by code_simp
  then have "st \<noteq> []" using known_names [OF assms(7)] assms(8) by (auto simp: list_all_iff)
  then show ?thesis using assms(1-6) found
    by (simp add: ProcessSSDPData_def empty_search_def mx_bound_def announced_host_def answer_type_def random_delay_def)
qed

theorem mx_zero_faults_witness:
  "ProcessSSDPData (sample_ssdp strict_build) sample_source 4
      (search_text [''M-SEARCH * HTTP/1.1'', ''MX:0'', ''ST:upnp:rootdevice'']) 49 (Sin 0x0A000005 1900) 2 5000 = None"
proof -
  let ?bufr = "search_text [''M-SEARCH * HTTP/1.1'', ''MX:0'', ''ST:upnp:rootdevice'']"
  have "search_headers strict_build ?bufr empty_search = search_lines strict_build [''MX:0'', ''ST:upnp:rootdevice''] empty_search"
    using search_headers_lines [of "''M-SEARCH * HTTP/1.1''" "[''MX:0'', ''ST:upnp:rootdevice'']" strict_build empty_search] by simp
  moreover have "\<not> has_name ''MX:0'' ''st:''" "has_name ''MX:0'' ''mx:''" "has_name ''ST:upnp:rootdevice'' ''st:''" "atoi ''0'' = 0" "atoi (take 7 (after_colon ''upnp:rootdevice'')) = 0" by code_simp+
  ultimately have q: "search_headers strict_build (take 49 ?bufr) empty_search = Some \<lparr>ms_st = Some ''upnp:rootdevice'', ms_ver = 0, ms_mx = 0\<rparr>"
    by (simp add: search_text_def search_line_def line_value_def blank_def empty_search_def)
  have b: "sc_build (sample_ssdp strict_build) = strict_build" by (simp add: sample_ssdp_def)
  show ?thesis
  proof (rule mx_zero_faults [where s = "''upnp:rootdevice''" and version = 0 and uuid = "''uuid:1''" and lan = sample_lan
        and q = "\<lparr>ms_st = Some ''upnp:rootdevice'', ms_ver = 0, ms_mx = 0\<rparr>"])
    show "(''upnp:rootdevice'', 0, ''uuid:1'') \<in> set (known_service_types (sample_ssdp strict_build))"
      by (simp add: known_service_types_def sample_ssdp_def Let_def)
    show "search_headers (sc_build (sample_ssdp strict_build)) (take 49 ?bufr) empty_search
        = Some \<lparr>ms_st = Some ''upnp:rootdevice'', ms_ver = 0, ms_mx = 0\<rparr>" using q unfolding b .
    show "take 8 ?bufr = ''M-SEARCH''" by (simp add: search_text_def)
    show "take (length ''upnp:rootdevice'') ''upnp:rootdevice'' = ''upnp:rootdevice''" by (rule take_all) simp
  qed (simp_all add: b lan_of_packet_def sample_from_lan)
qed

section \<open>What is announced is withdrawn\<close>

text \<open>The messages for a device or service: the type and the unique name of each, and those of the devices themselves.\<close>

definition announced :: "ssdp_conf \<Rightarrow> (string \<times> string) list" where
  "announced cf = concat (map (\<lambda>(i, t, version, uuid).
      (t @ ver_str i version, uuid @ ''::'' @ t @ ver_str i version) # (if 0 < i \<and> is_device t then [(uuid, uuid)] else []))
    (List.enumerate 0 (known_service_types cf)))"

text \<open>The lines that say what a message is about.\<close>

definition subject_lines :: "string \<times> string \<Rightarrow> string" where
  "subject_lines x = ''NT: '' @ fst x @ crlf @ ''USN: '' @ snd x @ crlf"

definition alive_message :: "ssdp_conf \<Rightarrow> string \<Rightarrow> string \<Rightarrow> port \<Rightarrow> u32 \<Rightarrow> string \<times> string \<Rightarrow> string" where
  "alive_message cf dest host http_port lifetime x =
     ''NOTIFY * HTTP/1.1'' @ crlf @ ''HOST: '' @ dest @ '':'' @ dec (unat SSDP_PORT) @ crlf
     @ ''CACHE-CONTROL: max-age='' @ dec (unat lifetime) @ crlf @ location_line cf host http_port
     @ ''SERVER: '' @ sc_server cf @ crlf @ subject_lines x @ ''NTS: ssdp:alive'' @ crlf @ ssdp_ids cf"

definition byebye_message :: "ssdp_conf \<Rightarrow> string \<Rightarrow> string \<times> string \<Rightarrow> string" where
  "byebye_message cf dest x =
     ''NOTIFY * HTTP/1.1'' @ crlf @ ''HOST: '' @ dest @ '':'' @ dec (unat SSDP_PORT) @ crlf
     @ subject_lines x @ ''NTS: ssdp:byebye'' @ crlf @ ssdp_ids cf"

lemma notify_alive:
  "map (\<lambda>p. (pk_socket p, pk_dest p, pk_data p)) (SendSSDPNotify cf s dest host http_port nt suffix u1 u2 u3 lifetime)
    = replicate 2 (s, fst dest, packet_text (alive_message cf (snd dest) host http_port lifetime (nt @ suffix, u1 @ u2 @ u3 @ suffix)))"
  by (simp add: SendSSDPNotify_def notify_text_def alive_message_def subject_lines_def Let_def numeral_2_eq_2)

lemma byebye_data:
  "(\<lambda>(_, p). (pk_socket p, pk_dest p, pk_data p)) (SendSSDPbyebye cf sent s dest nt suffix u1 u2 u3)
    = (s, fst dest, packet_text (byebye_message cf (snd dest) (nt @ suffix, u1 @ u2 @ u3 @ suffix)))"
  by (simp add: SendSSDPbyebye_def byebye_text_def byebye_message_def subject_lines_def Let_def)

lemma map_concat_pointwise:
  "(\<And>x. map g (F x) = concat (map R (A x))) \<Longrightarrow> map g (concat (map F xs)) = concat (map R (concat (map A xs)))"
  "(\<And>x. map g (F x) = map Q (A x)) \<Longrightarrow> map g (concat (map F xs)) = map Q (concat (map A xs))"
  by (induction xs) simp_all

lemma notifies_to:
  "map (\<lambda>p. (pk_socket p, pk_dest p, pk_data p)) (SendSSDPNotifies cf s host http_port lifetime ipv6)
    = concat (map (\<lambda>(dest, name). concat (map (\<lambda>x. replicate 2 (s, dest, packet_text (alive_message cf name host http_port lifetime x)))
        (announced cf))) (if ipv6 then mcast_addrs (sc_build cf) else [mcast4]))"
proof -
  let ?R = "\<lambda>dest x. replicate 2 (s, fst dest, packet_text (alive_message cf (snd dest) host http_port lifetime x))"
  have one: "map (\<lambda>p. (pk_socket p, pk_dest p, pk_data p)) (concat (map (\<lambda>(i, t, version, uuid).
        SendSSDPNotify cf s dest host http_port t (ver_str i version) uuid ''::'' t lifetime
        @ (if 0 < i \<and> is_device t then SendSSDPNotify cf s dest host http_port uuid [] uuid [] [] lifetime else []))
      (List.enumerate 0 (known_service_types cf)))) = concat (map (?R dest) (announced cf))" for dest
    unfolding announced_def by (rule map_concat_pointwise(1)) (auto simp: notify_alive)
  show ?thesis unfolding SendSSDPNotifies_def map_concat list.map_comp comp_def one [unfolded map_concat list.map_comp comp_def]
    by (simp add: case_prod_unfold)
qed

lemma goodbye_to:
  assumes "0 \<le> s"
  shows "map (\<lambda>(_, p). (pk_socket p, pk_dest p, pk_data p)) (goodbye_socket cf sent (k, s))
    = (let dest = (if odd k then (Sin6 LL_SSDP_MCAST_ADDR 0 SSDP_PORT, ''[FF02::C]'') else mcast4)
       in map (\<lambda>x. (s, fst dest, packet_text (byebye_message cf (snd dest) x))) (announced cf))"
proof -
  define dest where "dest = (if odd k then (Sin6 LL_SSDP_MCAST_ADDR 0 SSDP_PORT, ''[FF02::C]'') else mcast4)"
  have "goodbye_socket cf sent (k, s) = concat (map (\<lambda>(i, t, version, uuid).
      SendSSDPbyebye cf sent s dest t (ver_str i version) uuid ''::'' t
      # (if 0 < i \<and> is_device t then [SendSSDPbyebye cf sent s dest uuid [] uuid [] []] else []))
      (List.enumerate 0 (known_service_types cf)))"
    using assms unfolding goodbye_socket_def prod.case Let_def dest_def [symmetric] by simp
  then show ?thesis unfolding announced_def dest_def [symmetric] Let_def
    by (simp only:, intro map_concat_pointwise(2)) (auto simp: byebye_data [simplified case_prod_beta] case_prod_beta)
qed

text \<open>C38: What is announced on a socket is exactly each type and unique name of the table (\<open>announced\<close>), twice: on a
  socket for IPv4 to the multicast address of SSDP, on one for IPv6 to that of the link, then that of the site, and
  unless the build is strict the global one. The withdrawal sends, on each socket, one message for each of the same
  types and unique names, in the same order, to the IPv4 address or to that of the link only.\<close>

theorem goodbye_withdraws_announced:
  assumes "0 \<le> s"
  shows "map (\<lambda>p. (pk_socket p, pk_dest p, pk_data p)) (SendSSDPNotifies cf s host http_port lifetime False)
      = concat (map (\<lambda>x. replicate 2 (s, Sin SSDP_MCAST_ADDR SSDP_PORT,
          packet_text (alive_message cf ''239.255.255.250'' host http_port lifetime x))) (announced cf))
    \<and> map (\<lambda>(_, p). (pk_socket p, pk_dest p, pk_data p)) (goodbye_socket cf sent (2 * j, s))
      = map (\<lambda>x. (s, Sin SSDP_MCAST_ADDR SSDP_PORT, packet_text (byebye_message cf ''239.255.255.250'' x))) (announced cf)
    \<and> map (\<lambda>p. (pk_socket p, pk_dest p, pk_data p)) (SendSSDPNotifies cf s host http_port lifetime True)
      = concat (map (\<lambda>(addr, name). concat (map (\<lambda>x. replicate 2 (s, Sin6 addr 0 SSDP_PORT,
          packet_text (alive_message cf name host http_port lifetime x))) (announced cf)))
        ([(LL_SSDP_MCAST_ADDR, ''[FF02::C]''), (SL_SSDP_MCAST_ADDR, ''[FF05::C]'')]
         @ (if sb_strict (sc_build cf) then [] else [(GL_SSDP_MCAST_ADDR, ''[FF0E::C]'')])))
    \<and> map (\<lambda>(_, p). (pk_socket p, pk_dest p, pk_data p)) (goodbye_socket cf sent (2 * j + 1, s))
      = map (\<lambda>x. (s, Sin6 LL_SSDP_MCAST_ADDR 0 SSDP_PORT, packet_text (byebye_message cf ''[FF02::C]'' x))) (announced cf)"
  unfolding notifies_to goodbye_to [OF assms] by (simp add: mcast4_def mcast_addrs_def)

theorem goodbye_withdraws_announced_witness:
  "map (\<lambda>(_, p). (pk_socket p, pk_dest p, pk_data p)) (goodbye_socket (sample_ssdp usual_build) (\<lambda>_. 0) (2 * 0, 3))
    = map (\<lambda>x. (3, Sin SSDP_MCAST_ADDR SSDP_PORT, packet_text (byebye_message (sample_ssdp usual_build) ''239.255.255.250'' x)))
        (announced (sample_ssdp usual_build))"
proof -
  have "(0 :: int) \<le> 3" by simp
  from goodbye_withdraws_announced [OF this, of "sample_ssdp usual_build" "[]" 0 0 "\<lambda>_. 0" 0] show ?thesis by (elim conjE)
qed

end
