(* ===== verification/Async_Send.thy ===== *)
theory Async_Send
  imports Scan_Buffer Lan_Addr "HOL-Library.Multiset"
begin

text \<open>
  The packets that wait to be sent, \<^verbatim>\<open>asyncsendto.c\<close>: the list in the order of the code, newest first. Times
  are pairs of seconds and microseconds.
\<close>

section \<open>The list\<close>

datatype send_state = ESCHEDULED | EWAITREADY | ESENDNOW

record scheduled_send =
  ss_ts :: "int \<times> int"
  ss_state :: send_state
  ss_sockfd :: int
  ss_buf :: string
  ss_flags :: int
  ss_dest :: sockaddr
  ss_src :: "sockaddr option"

text \<open>The time a delay of milliseconds after \<open>tv\<close>.\<close>

definition time_after :: "int \<times> int \<Rightarrow> nat \<Rightarrow> int \<times> int" where
  "time_after tv delay =
     (let sec = fst tv + int (delay div 1000); usec = snd tv + int (delay mod 1000) * 1000
      in if usec > 1000000 then (sec + 1, usec - 1000000) else (sec, usec))"

definition earlier :: "int \<times> int \<Rightarrow> int \<times> int \<Rightarrow> bool" where
  "earlier a b \<longleftrightarrow> fst a < fst b \<or> fst a = fst b \<and> snd a < snd b"

text \<open>\<open>r\<close> is what \<^verbatim>\<open>sendto\<close> returns, \<open>tv\<close> the clock (\<open>None\<close> if it cannot be read), \<open>mem\<close> whether there is memory. The
  packet \<open>pk\<close> has its socket, bytes and addresses; time and state are set here.\<close>

definition sendto_schedule2 ::
  "send_result \<Rightarrow> (int \<times> int) option \<Rightarrow> bool \<Rightarrow> scheduled_send \<Rightarrow> nat \<Rightarrow> scheduled_send list \<Rightarrow> int \<times> scheduled_send list" where
  "sendto_schedule2 r tv mem pk delay send_list =
     (let schedule = (\<lambda>st. case tv of None \<Rightarrow> (- 1, send_list)
          | Some t \<Rightarrow> if \<not> mem then (- 1, send_list)
              else (0, pk\<lparr>ss_ts := time_after t delay, ss_state := st\<rparr> # send_list))
      in (if delay = 0 then
            (case r of Sent n \<Rightarrow> (int n, send_list)
             | Send_again \<Rightarrow> schedule EWAITREADY
             | Send_intr \<Rightarrow> schedule ESENDNOW
             | Send_error \<Rightarrow> (- 1, send_list))
          else schedule ESCHEDULED))"

definition sendto_or_schedule ::
  "send_result \<Rightarrow> (int \<times> int) option \<Rightarrow> bool \<Rightarrow> scheduled_send \<Rightarrow> scheduled_send list \<Rightarrow> int \<times> scheduled_send list" where
  "sendto_or_schedule r tv mem pk send_list = sendto_schedule2 r tv mem (pk\<lparr>ss_src := None\<rparr>) 0 send_list"

definition sendto_or_schedule2 ::
  "send_result \<Rightarrow> (int \<times> int) option \<Rightarrow> bool \<Rightarrow> scheduled_send \<Rightarrow> scheduled_send list \<Rightarrow> int \<times> scheduled_send list" where
  "sendto_or_schedule2 r tv mem pk send_list = sendto_schedule2 r tv mem pk 0 send_list"

section \<open>The turns of the main loop\<close>

fun next_loop :: "scheduled_send list \<Rightarrow> nat \<times> int \<times> int \<Rightarrow> nat \<times> int \<times> int" where
  "next_loop [] acc = acc"
| "next_loop (e # es) (n, t) = next_loop es (n + 1, if n = 0 \<or> earlier (ss_ts e) t then ss_ts e else t)"

text \<open>How many wait, and the earliest time of them; the time is what it was if there are none.\<close>

definition get_next_scheduled_send :: "scheduled_send list \<Rightarrow> int \<times> int \<Rightarrow> nat \<times> int \<times> int" where
  "get_next_scheduled_send send_list next_send = next_loop send_list (0, next_send)"

text \<open>The number of packets to try, the sockets to wait for, the highest of them, and the list.\<close>

fun get_sendto_fds :: "int \<times> int \<Rightarrow> scheduled_send list \<Rightarrow> int set \<Rightarrow> int \<Rightarrow> nat \<times> int set \<times> int \<times> scheduled_send list" where
  "get_sendto_fds now [] writefds max_fd = (0, writefds, max_fd, [])"
| "get_sendto_fds now (e # es) writefds max_fd =
     (if ss_state e = EWAITREADY then
        (let (n, w, m, es') = get_sendto_fds now es (insert (ss_sockfd e) writefds) (max (ss_sockfd e) max_fd)
         in (n + 1, w, m, e # es'))
      else if \<not> earlier now (ss_ts e) then
        (let (n, w, m, es') = get_sendto_fds now es writefds max_fd in (n + 1, w, m, e\<lparr>ss_state := ESENDNOW\<rparr> # es'))
      else
        (let (n, w, m, es') = get_sendto_fds now es writefds max_fd in (n, w, m, e # es')))"

definition sendable :: "int set \<Rightarrow> scheduled_send \<Rightarrow> bool" where
  "sendable writefds e \<longleftrightarrow> ss_state e = ESENDNOW \<or> ss_state e = EWAITREADY \<and> ss_sockfd e \<in> writefds"

text \<open>\<open>result\<close> is what sending a packet returns. The result: minus the number of failures, and the list.\<close>

fun try_sendto :: "(scheduled_send \<Rightarrow> send_result) \<Rightarrow> int set \<Rightarrow> scheduled_send list \<Rightarrow> int \<times> scheduled_send list" where
  "try_sendto result writefds [] = (0, [])"
| "try_sendto result writefds (e # es) =
     (let (ret, es') = try_sendto result writefds es in
      (if sendable writefds e then
         (case result e of
            Send_intr \<Rightarrow> (ret, e\<lparr>ss_state := ESENDNOW\<rparr> # es')
          | Send_again \<Rightarrow> (ret, e\<lparr>ss_state := EWAITREADY\<rparr> # es')
          | Send_error \<Rightarrow> (ret - 1, es')
          | Sent n \<Rightarrow> (ret, es'))
       else (ret, e # es')))"

section \<open>The end of the program\<close>

text \<open>One pass over the list: the sockets to wait for, the highest of them, and what is left.\<close>

fun finalize_pass ::
  "(scheduled_send \<Rightarrow> send_result) \<Rightarrow> scheduled_send list \<Rightarrow> int set \<Rightarrow> int \<Rightarrow> int set \<times> int \<times> scheduled_send list" where
  "finalize_pass result [] writefds max_fd = (writefds, max_fd, [])"
| "finalize_pass result (e # es) writefds max_fd =
     (if result e = Send_again then
        (let (w, m, es') = finalize_pass result es (insert (ss_sockfd e) writefds) (max (ss_sockfd e) max_fd) in (w, m, e # es'))
      else finalize_pass result es writefds max_fd)"

text \<open>A turn of the loop: what the calls of \<^verbatim>\<open>sendto\<close> return, the clock, and whether \<^verbatim>\<open>select\<close> works for these
  sockets and this time to wait.\<close>

record finalize_turn =
  ft_result :: "scheduled_send \<Rightarrow> send_result"
  ft_now :: "(int \<times> int) option"
  ft_select :: "int set \<Rightarrow> int \<times> int \<Rightarrow> bool"

definition time_left :: "int \<times> int \<Rightarrow> int \<times> int \<Rightarrow> int \<times> int" where
  "time_left deadline now =
     (let sec = fst deadline - fst now; usec = snd deadline - snd now
      in if usec < 0 then (sec - 1, usec + 1000000) else (sec, usec))"

text \<open>The calls of \<^verbatim>\<open>select\<close>: the clock before the call, the sockets and the time to wait.\<close>

type_synonym select_call = "(int \<times> int) \<times> int set \<times> (int \<times> int)"

text \<open>The loop over the turns, with its calls of \<^verbatim>\<open>select\<close> and what is left. It does not return when the turns run out
  with packets left.\<close>

fun finalize_loop ::
  "int \<times> int \<Rightarrow> finalize_turn list \<Rightarrow> scheduled_send list \<Rightarrow> (select_call list \<times> scheduled_send list) option" where
  "finalize_loop deadline turns [] = Some ([], [])"
| "finalize_loop deadline [] (e # es) = None"
| "finalize_loop deadline (t # ts) (e # es) =
     (let (writefds, max_fd, left) = finalize_pass (ft_result t) (e # es) {} (- 1) in
      (case ft_now t of None \<Rightarrow> Some ([], left)
       | Some now \<Rightarrow>
         (if earlier deadline now then Some ([], [])
          else (let timeout = time_left deadline now in
            if max_fd < 0 then finalize_loop deadline ts left
            else if \<not> ft_select t writefds timeout then Some ([(now, writefds, timeout)], left)
            else map_option (\<lambda>(calls, left'). ((now, writefds, timeout) # calls, left')) (finalize_loop deadline ts left)))))"

definition FINALIZE_SENDTO_DELAY :: nat where "FINALIZE_SENDTO_DELAY = 500"

definition finalize_sendto ::
  "(int \<times> int) option \<Rightarrow> finalize_turn list \<Rightarrow> scheduled_send list \<Rightarrow> (select_call list \<times> scheduled_send list) option" where
  "finalize_sendto start turns send_list =
     (case start of None \<Rightarrow> Some ([], send_list)
      | Some t \<Rightarrow> finalize_loop (time_after t FINALIZE_SENDTO_DELAY) turns send_list)"

section \<open>The clock\<close>

definition micros :: "int \<times> int \<Rightarrow> int" where
  "micros t = fst t * 1000000 + snd t"

lemma micros_time_after: "micros (time_after t delay) = micros t + int delay * 1000"
proof -
  have "int delay = int (delay div 1000) * 1000 + int (delay mod 1000)"
    by (metis div_mult_mod_eq mult.commute of_nat_add of_nat_mult of_nat_numeral)
  then show ?thesis by (simp add: micros_def time_after_def Let_def algebra_simps)
qed

lemma time_after_range: "0 \<le> snd t \<Longrightarrow> snd t < 1000000 \<Longrightarrow> 0 \<le> snd (time_after t d) \<and> snd (time_after t d) \<le> 1000000"
proof -
  assume "0 \<le> snd t" "snd t < 1000000"
  moreover have "int (d mod 1000) < 1000" by simp
  ultimately show ?thesis by (simp add: time_after_def Let_def del: of_nat_mod) linarith
qed

lemma earlier_micros:
  "0 \<le> snd a \<Longrightarrow> snd a < 1000000 \<Longrightarrow> 0 \<le> snd b \<Longrightarrow> snd b \<le> 1000000 \<Longrightarrow> earlier a b \<Longrightarrow> micros a < micros b"
  by (auto simp: earlier_def micros_def)

section \<open>Nothing is lost, nothing is sent twice\<close>

text \<open>What a packet is, apart from the time and state of its waiting.\<close>

definition packet :: "scheduled_send \<Rightarrow> int \<times> string \<times> int \<times> sockaddr \<times> sockaddr option" where
  "packet e = (ss_sockfd e, ss_buf e, ss_flags e, ss_dest e, ss_src e)"

text \<open>Whether a call ends the waiting of a packet.\<close>

definition ended :: "send_result \<Rightarrow> bool" where
  "ended r \<longleftrightarrow> r \<noteq> Send_again \<and> r \<noteq> Send_intr"

lemma packet_simps [simp]: "packet (e\<lparr>ss_state := st\<rparr>) = packet e" "packet (e\<lparr>ss_ts := t\<rparr>) = packet e"
  by (simp_all add: packet_def)

text \<open>A turn sends each packet at most once, and those that leave the list are exactly the ones that were sendable and whose
  call was the last: their number is what the list loses, and the rest keeps its order, its times and its bytes.
  The result is the number of failures.\<close>

theorem try_sendto_exact:
  "map packet (snd (try_sendto result writefds es))
      = map packet (filter (\<lambda>e. \<not> (sendable writefds e \<and> ended (result e))) es)
    \<and> map ss_ts (snd (try_sendto result writefds es))
      = map ss_ts (filter (\<lambda>e. \<not> (sendable writefds e \<and> ended (result e))) es)
    \<and> fst (try_sendto result writefds es) = - int (length (filter (\<lambda>e. sendable writefds e \<and> result e = Send_error) es))"
  by (induction es) (auto simp: ended_def Let_def split: prod.splits send_result.splits)

lemma get_sendto_fds_list:
  assumes "get_sendto_fds now es w0 m0 = (n, w, m, es')"
  shows "w0 \<subseteq> w \<and> w = w0 \<union> ss_sockfd ` {e \<in> set es. ss_state e = EWAITREADY}
    \<and> es' = map (\<lambda>e. if ss_state e \<noteq> EWAITREADY \<and> \<not> earlier now (ss_ts e) then e\<lparr>ss_state := ESENDNOW\<rparr> else e) es
    \<and> n = length (filter (\<lambda>e. ss_state e = EWAITREADY \<or> \<not> earlier now (ss_ts e)) es)"
  using assms
proof (induction es arbitrary: w0 m0 n w m es')
  case (Cons e es)
  then show ?case
    by (auto simp: Let_def split: if_split_asm prod.split_asm dest!: Cons.IH)
qed simp

lemma filter_packets:
  "(\<And>e. e \<in> set es \<Longrightarrow> P (f e) = Q e \<and> packet (f e) = packet e) \<Longrightarrow> map packet (filter P (map f es)) = map packet (filter Q es)"
  by (induction es) auto

text \<open>A turn of the main loop sends everything that is due, that could not be sent before and whose socket takes it now,
  and nothing else.\<close>

lemma turn_sends_due:
  assumes "get_sendto_fds now es {} m0 = (n, w, m, es')" "w \<subseteq> writefds" "\<forall>e. ended (result e)"
  shows "map packet (snd (try_sendto result writefds es'))
    = map packet (filter (\<lambda>e. ss_state e = ESCHEDULED \<and> earlier now (ss_ts e)) es)"
proof -
  note turn = get_sendto_fds_list [OF assms(1)]
  have w: "\<forall>e \<in> set es. ss_state e = EWAITREADY \<longrightarrow> ss_sockfd e \<in> writefds" using turn assms(2) by auto
  have es': "es' = map (\<lambda>e. if ss_state e \<noteq> EWAITREADY \<and> \<not> earlier now (ss_ts e) then e\<lparr>ss_state := ESENDNOW\<rparr> else e) es"
    using turn by blast
  have "map packet (filter (\<lambda>e. \<not> (sendable writefds e \<and> ended (result e))) es')
      = map packet (filter (\<lambda>e. ss_state e = ESCHEDULED \<and> earlier now (ss_ts e)) es)"
    unfolding es'
  proof (rule filter_packets)
    fix e assume "e \<in> set es"
    then show "(\<not> (sendable writefds (if ss_state e \<noteq> EWAITREADY \<and> \<not> earlier now (ss_ts e) then e\<lparr>ss_state := ESENDNOW\<rparr> else e)
          \<and> ended (result (if ss_state e \<noteq> EWAITREADY \<and> \<not> earlier now (ss_ts e) then e\<lparr>ss_state := ESENDNOW\<rparr> else e))))
        = (ss_state e = ESCHEDULED \<and> earlier now (ss_ts e))
      \<and> packet (if ss_state e \<noteq> EWAITREADY \<and> \<not> earlier now (ss_ts e) then e\<lparr>ss_state := ESENDNOW\<rparr> else e) = packet e"
      using w assms(3) by (cases "ss_state e") (auto simp: sendable_def)
  qed
  moreover have "map packet (snd (try_sendto result writefds es'))
      = map packet (filter (\<lambda>e. \<not> (sendable writefds e \<and> ended (result e))) es')"
    by (induction es') (auto simp: ended_def Let_def split: prod.splits send_result.splits)
  ultimately show ?thesis by simp
qed

lemma earlier_iff:
  assumes "0 \<le> snd a" "snd a < 1000000" "0 \<le> snd b" "snd b \<le> 1000000"
  shows "earlier a b \<longleftrightarrow> micros a < micros b"
proof
  assume "micros a < micros b"
  moreover have "micros b \<le> micros a" if "fst b < fst a"
  proof -
    have "(fst b + 1) * 1000000 \<le> fst a * 1000000" using that by (intro mult_right_mono) simp_all
    then show ?thesis using assms by (simp add: micros_def)
  qed
  ultimately have "\<not> fst b < fst a" by linarith
  then show "earlier a b" using \<open>micros a < micros b\<close> by (cases "fst a = fst b") (auto simp: earlier_def micros_def)
qed (rule earlier_micros [OF assms])

text \<open>C36: A packet that is scheduled is sent by the first turn of the main loop after its delay and not before, when its socket takes
  it, and the others that wait go by their own time.\<close>

theorem scheduled_sent_in_time:
  assumes "0 < delay" and "sendto_schedule2 r (Some t) True pk delay q = (v, q1)"
    and "get_sendto_fds now q1 {} m0 = (n, w, m, q2)" and "w \<subseteq> writefds" and "\<forall>e. ended (result e)"
    and "0 \<le> snd t" and "snd t < 1000000" and "0 \<le> snd now" and "snd now < 1000000"
  shows "v = 0 \<and> map packet (snd (try_sendto result writefds q2))
    = (if micros now < micros t + int delay * 1000 then [packet pk] else [])
      @ map packet (filter (\<lambda>e. ss_state e = ESCHEDULED \<and> earlier now (ss_ts e)) q)"
proof -
  have q1: "v = 0" "q1 = pk\<lparr>ss_ts := time_after t delay, ss_state := ESCHEDULED\<rparr> # q"
    using assms(1,2) by (simp_all add: sendto_schedule2_def Let_def)
  have "earlier now (time_after t delay) \<longleftrightarrow> micros now < micros t + int delay * 1000"
    using earlier_iff [OF assms(8,9)] time_after_range [OF assms(6,7)] by (simp add: micros_time_after)
  then show ?thesis using turn_sends_due [OF assms(3-5)] q1 by simp
qed

definition sample_send :: scheduled_send where
  "sample_send = \<lparr>ss_ts = (0, 0), ss_state = ESCHEDULED, ss_sockfd = 4, ss_buf = ''NOTIFY'', ss_flags = 0, ss_dest = Sin 0xEFFFFFFA 1900, ss_src = None\<rparr>"

theorem scheduled_sent_in_time_witness:
  "snd (sendto_schedule2 Send_again (Some (7, 900000)) True sample_send 250 []) = [sample_send\<lparr>ss_ts := (8, 150000)\<rparr>]
    \<and> map packet (snd (try_sendto (\<lambda>_. Sent 6) {} [sample_send\<lparr>ss_ts := (8, 150000)\<rparr>])) = [packet sample_send]
    \<and> map packet (snd (try_sendto (\<lambda>_. Sent 6) {} [sample_send\<lparr>ss_ts := (8, 150000), ss_state := ESENDNOW\<rparr>])) = []"
proof -
  have q: "sendto_schedule2 Send_again (Some (7, 900000)) True sample_send 250 [] = (0, [sample_send\<lparr>ss_ts := (8, 150000)\<rparr>])"
    by (simp add: sendto_schedule2_def time_after_def sample_send_def Let_def)
  have early: "get_sendto_fds (8, 149999) [sample_send\<lparr>ss_ts := (8, 150000)\<rparr>] {} 0 = (0, {}, 0, [sample_send\<lparr>ss_ts := (8, 150000)\<rparr>])"
    and late: "get_sendto_fds (8, 150000) [sample_send\<lparr>ss_ts := (8, 150000)\<rparr>] {} 0
      = (1, {}, 0, [sample_send\<lparr>ss_ts := (8, 150000), ss_state := ESENDNOW\<rparr>])"
    by (simp_all add: sample_send_def earlier_def)
  have ended: "\<forall>e :: scheduled_send. ended (Sent 6)" by (simp add: ended_def)
  show ?thesis
    using scheduled_sent_in_time [OF _ q early subset_refl, of "\<lambda>_. Sent 6"] scheduled_sent_in_time [OF _ q late subset_refl, of "\<lambda>_. Sent 6"]
      ended q by (simp add: micros_def)
qed

text \<open>The main loop is told the time of the packet that is due first, and how many wait.\<close>

lemma next_loop_min:
  assumes "next_loop es (n, t) = (n', t')" "0 < n"
  shows "n' = n + length es \<and> t' \<in> insert t (ss_ts ` set es) \<and> \<not> earlier t t' \<and> (\<forall>e \<in> set es. \<not> earlier (ss_ts e) t')"
  using assms
proof (induction es arbitrary: n t)
  case (Cons e es)
  let ?t = "if earlier (ss_ts e) t then ss_ts e else t"
  have "next_loop es (n + 1, ?t) = (n', t')" using Cons.prems by simp
  from Cons.IH [OF this] have "n' = n + 1 + length es" "t' \<in> insert ?t (ss_ts ` set es)" "\<not> earlier ?t t'" "\<forall>e \<in> set es. \<not> earlier (ss_ts e) t'"
    by simp_all
  moreover have "\<not> earlier t t' \<and> \<not> earlier (ss_ts e) t'"
    using \<open>\<not> earlier ?t t'\<close> by (auto simp: earlier_def split: if_splits)
  ultimately show ?case by (auto split: if_splits)
qed (simp add: earlier_def)

theorem next_send_is_first:
  assumes "get_next_scheduled_send es t0 = (n, t)"
  shows "n = length es \<and> (es = [] \<longrightarrow> t = t0) \<and> (es \<noteq> [] \<longrightarrow> t \<in> ss_ts ` set es) \<and> (\<forall>e \<in> set es. \<not> earlier (ss_ts e) t)"
proof (cases es)
  case Nil
  then show ?thesis using assms by (simp add: get_next_scheduled_send_def)
next
  case (Cons e r)
  then have "next_loop r (1, ss_ts e) = (n, t)" using assms by (simp add: get_next_scheduled_send_def)
  from next_loop_min [OF this] show ?thesis by (auto simp: Cons)
qed

theorem next_send_is_first_witness:
  "get_next_scheduled_send [sample_send\<lparr>ss_ts := (8, 5)\<rparr>, sample_send\<lparr>ss_ts := (8, 1)\<rparr>, sample_send\<lparr>ss_ts := (9, 0)\<rparr>] (0, 0) = (3, 8, 1)
    \<and> \<not> earlier (8, 5) (8, 1)"
proof -
  have run: "get_next_scheduled_send [sample_send\<lparr>ss_ts := (8, 5)\<rparr>, sample_send\<lparr>ss_ts := (8, 1)\<rparr>, sample_send\<lparr>ss_ts := (9, 0)\<rparr>] (0, 0) = (3, 8, 1)"
    by (simp add: get_next_scheduled_send_def earlier_def)
  then show ?thesis using next_send_is_first [OF run] by simp
qed

section \<open>The end\<close>

lemma finalize_pass_list:
  assumes "finalize_pass result es w m = (w', m', left)"
  shows "left = filter (\<lambda>e. result e = Send_again) es \<and> w' = w \<union> ss_sockfd ` set left \<and> (left = [] \<longrightarrow> m' = m)"
  using assms
proof (induction es arbitrary: w m left)
  case (Cons e es)
  show ?case
  proof (cases "result e = Send_again")
    case True
    then obtain l where "finalize_pass result es (insert (ss_sockfd e) w) (max (ss_sockfd e) m) = (w', m', l)" "left = e # l"
      using Cons.prems by (auto simp: Let_def split: prod.splits)
    then show ?thesis using Cons.IH [of "insert (ss_sockfd e) w" "max (ss_sockfd e) m" l] True by auto
  next
    case False
    then show ?thesis using Cons by simp
  qed
qed simp

lemma micros_time_left: "micros now + micros (time_left deadline now) = micros deadline"
  by (simp add: micros_def time_left_def Let_def algebra_simps)

lemma time_left_range:
  assumes "0 \<le> snd now" "snd now < 1000000" "0 \<le> snd deadline" "snd deadline \<le> 1000000" "\<not> earlier deadline now"
  shows "0 \<le> fst (time_left deadline now) \<and> 0 \<le> snd (time_left deadline now) \<and> snd (time_left deadline now) \<le> 1000000"
  using assms by (auto simp: time_left_def earlier_def Let_def)

text \<open>A wait of the loop: it ends at the deadline, and it is for packets that are left.\<close>

definition waits_until :: "int \<Rightarrow> scheduled_send list \<Rightarrow> select_call \<Rightarrow> bool" where
  "waits_until stop es call \<longleftrightarrow>
     (case call of (now, writefds, timeout) \<Rightarrow>
       micros now + micros timeout = stop \<and> 0 \<le> fst timeout \<and> 0 \<le> snd timeout \<and> snd timeout \<le> 1000000
       \<and> writefds \<noteq> {} \<and> writefds \<subseteq> ss_sockfd ` set es)"

lemma waits_until_mono: "waits_until stop es c \<Longrightarrow> set es \<subseteq> set es' \<Longrightarrow> waits_until stop es' c"
  using image_mono [of "set es" "set es'" ss_sockfd] by (fastforce simp: waits_until_def)

lemma finalize_loop_waits:
  assumes "finalize_loop deadline turns es = Some (calls, left)" and "0 \<le> snd deadline" and "snd deadline \<le> 1000000"
    and "\<forall>u \<in> set turns. \<forall>n. ft_now u = Some n \<longrightarrow> 0 \<le> snd n \<and> snd n < 1000000"
  shows "\<forall>c \<in> set calls. waits_until (micros deadline) es c"
  using assms(1,4,2,3)
proof (induction deadline turns es arbitrary: calls left rule: finalize_loop.induct)
  case (3 deadline t ts e es)
  obtain w m rest where pass: "finalize_pass (ft_result t) (e # es) {} (- 1) = (w, m, rest)"
    by (cases "finalize_pass (ft_result t) (e # es) {} (- 1)")
  note left = finalize_pass_list [OF pass]
  show ?case
  proof (cases "\<exists>now. ft_now t = Some now \<and> \<not> earlier deadline now")
    case True
    then obtain now where now: "ft_now t = Some now" "\<not> earlier deadline now" by blast
    have range: "0 \<le> snd now" "snd now < 1000000" using "3.prems"(2) now(1) by (cases now; auto)+
    have sub: "set rest \<subseteq> set (e # es)" using left by auto
    have this_wait: "waits_until (micros deadline) (e # es) (now, w, time_left deadline now)" if "\<not> m < 0"
    proof -
      have "rest \<noteq> []" "w = ss_sockfd ` set rest" using left that by auto
      then show ?thesis
        using image_mono [OF sub, of ss_sockfd] micros_time_left [of now deadline] time_left_range [OF range "3.prems"(3,4) now(2)]
        by (simp add: waits_until_def)
    qed
    have later: "\<forall>c \<in> set cs. waits_until (micros deadline) (e # es) c"
      if "finalize_loop deadline ts rest = Some (cs, l)" "m < 0 \<or> ft_select t w (time_left deadline now)" for cs l
    proof -
      have "\<forall>c \<in> set cs. waits_until (micros deadline) rest c"
        using that "3.prems"(2-4) "3.IH" pass now by (cases "m < 0"; cases "ft_select t w (time_left deadline now)") auto
      then show ?thesis using waits_until_mono sub by blast
    qed
    show ?thesis using "3.prems"(1) pass now this_wait later by (auto simp: Let_def split: if_splits)
  next
    case False
    then show ?thesis using "3.prems"(1) pass by (auto simp: Let_def split: option.splits if_splits)
  qed
qed auto

lemma finalize_loop_returns:
  assumes "k < length turns" "case ft_now (turns ! k) of None \<Rightarrow> True | Some now \<Rightarrow> earlier deadline now"
  shows "\<exists>calls left. finalize_loop deadline turns es = Some (calls, left)
    \<and> ((\<forall>u \<in> set turns. ft_now u \<noteq> None \<and> (\<forall>fds w. ft_select u fds w)) \<longrightarrow> left = [])"
  using assms
proof (induction deadline turns es arbitrary: k rule: finalize_loop.induct)
  case (3 deadline t ts e es)
  obtain w m rest where pass: "finalize_pass (ft_result t) (e # es) {} (- 1) = (w, m, rest)"
    by (cases "finalize_pass (ft_result t) (e # es) {} (- 1)")
  show ?case
  proof (cases "\<exists>now. ft_now t = Some now \<and> \<not> earlier deadline now \<and> (m < 0 \<or> ft_select t w (time_left deadline now))")
    case True
    then obtain now where now: "ft_now t = Some now" "\<not> earlier deadline now" "m < 0 \<or> ft_select t w (time_left deadline now)" by blast
    then obtain j where j: "k = Suc j" using "3.prems"(2) by (cases k) auto
    have "\<exists>calls left. finalize_loop deadline ts rest = Some (calls, left)
      \<and> ((\<forall>u \<in> set ts. ft_now u \<noteq> None \<and> (\<forall>fds w. ft_select u fds w)) \<longrightarrow> left = [])"
      using "3.IH" pass now "3.prems" j by (cases "m < 0") auto
    then obtain calls left where rec: "finalize_loop deadline ts rest = Some (calls, left)"
      "(\<forall>u \<in> set ts. ft_now u \<noteq> None \<and> (\<forall>fds w. ft_select u fds w)) \<longrightarrow> left = []" by blast
    then show ?thesis using now pass by (auto simp: Let_def)
  next
    case False
    then show ?thesis using pass by (auto simp: Let_def simp del: split_paired_All split_paired_Ex finalize_pass.simps split: option.split)
  qed
qed auto

text \<open>C40: At the end of the program the packets that wait are given half a second. Every call of \<^verbatim>\<open>select\<close> is for
  sockets of packets that are left, and the time it may wait ends exactly at the deadline, half a second after the
  start. The loop returns as soon as it reads a clock past the deadline, and (unless \<^verbatim>\<open>select\<close> fails) no packet is
  left then.\<close>

theorem finalize_sendto_returns:
  assumes "k < length turns" and "ft_now (turns ! k) = Some late" and "earlier (time_after t FINALIZE_SENDTO_DELAY) late"
    and "0 \<le> snd t" and "snd t < 1000000"
    and "\<forall>u \<in> set turns. \<exists>n. ft_now u = Some n \<and> 0 \<le> snd n \<and> snd n < 1000000"
  shows "\<exists>calls left. finalize_sendto (Some t) turns es = Some (calls, left)
    \<and> ((\<forall>u \<in> set turns. \<forall>fds w. ft_select u fds w) \<longrightarrow> left = [])
    \<and> (\<forall>(now, writefds, timeout) \<in> set calls. micros now + micros timeout = micros t + 500000
        \<and> 0 \<le> fst timeout \<and> 0 \<le> snd timeout \<and> snd timeout \<le> 1000000
        \<and> writefds \<noteq> {} \<and> writefds \<subseteq> ss_sockfd ` set es)"
proof -
  let ?deadline = "time_after t FINALIZE_SENDTO_DELAY"
  obtain calls left where run: "finalize_loop ?deadline turns es = Some (calls, left)"
    and all: "(\<forall>u \<in> set turns. ft_now u \<noteq> None \<and> (\<forall>fds w. ft_select u fds w)) \<longrightarrow> left = []"
  proof -
    have "case ft_now (turns ! k) of None \<Rightarrow> True | Some now \<Rightarrow> earlier ?deadline now" using assms(2,3) by simp
    then show thesis using finalize_loop_returns [OF assms(1), of ?deadline es] that by blast
  qed
  have "\<forall>u \<in> set turns. \<forall>n. ft_now u = Some n \<longrightarrow> 0 \<le> snd n \<and> snd n < 1000000" using assms(6) by force
  then have "\<forall>c \<in> set calls. waits_until (micros ?deadline) es c"
    using finalize_loop_waits [OF run] time_after_range [OF assms(4,5)] by blast
  then have "\<forall>c \<in> set calls. waits_until (micros t + 500000) es c"
    by (simp add: micros_time_after FINALIZE_SENDTO_DELAY_def)
  then show ?thesis using run all assms(6) by (force simp: finalize_sendto_def waits_until_def)
qed

theorem finalize_sendto_returns_witness:
  "\<exists>calls. finalize_sendto (Some (7, 600000)) [\<lparr>ft_result = \<lambda>_. Send_again, ft_now = Some (7, 900000), ft_select = \<lambda>_ _. True\<rparr>,
      \<lparr>ft_result = \<lambda>_. Send_again, ft_now = Some (8, 100001), ft_select = \<lambda>_ _. True\<rparr>] [sample_send] = Some (calls, [])
    \<and> calls = [((7, 900000), {4}, (0, 200000))]"
proof -
  let ?turns = "[\<lparr>ft_result = \<lambda>_. Send_again, ft_now = Some (7, 900000), ft_select = \<lambda>_ _. True\<rparr>,
      \<lparr>ft_result = \<lambda>_. Send_again, ft_now = Some (8, 100001), ft_select = \<lambda>_ _. True\<rparr>]"
  have "finalize_sendto (Some (7, 600000)) ?turns [sample_send] = Some ([((7, 900000), {4}, (0, 200000))], [])"
    by (simp add: finalize_sendto_def time_after_def FINALIZE_SENDTO_DELAY_def earlier_def time_left_def sample_send_def)
  moreover have "\<exists>calls left. finalize_sendto (Some (7, 600000)) ?turns [sample_send] = Some (calls, left)
    \<and> ((\<forall>u \<in> set ?turns. \<forall>fds w. ft_select u fds w) \<longrightarrow> left = [])
    \<and> (\<forall>(now, writefds, timeout) \<in> set calls. micros now + micros timeout = micros (7, 600000) + 500000
        \<and> 0 \<le> fst timeout \<and> 0 \<le> snd timeout \<and> snd timeout \<le> 1000000
        \<and> writefds \<noteq> {} \<and> writefds \<subseteq> ss_sockfd ` set [sample_send])"
    by (rule finalize_sendto_returns [where k = 1 and late = "(8, 100001)"])
      (simp_all add: time_after_def FINALIZE_SENDTO_DELAY_def earlier_def)
  ultimately show ?thesis by simp
qed

end
