(* ===== verification/Spec2Isabelle.thy ===== *)
theory Spec2Isabelle
  imports Permissions Jwt_Auth Sdn_Redirect Natpmp Soap_Server Pcp_Peers Http_Server Ssdp Async_Send
begin

text \<open>
  A model of miniupnpd with the extensions of this repository: the daemon that opens ports of a router
  for the clients of its LAN, over UPnP (SOAP), NAT-PMP and PCP, either in the netfilter tables of the
  router or through an SDN controller (ONOS), with JSON web tokens as authorisation. All paths are
  under \<^verbatim>\<open>src/miniupnpd\<close>.

  The parts and how they interact. A request of a client arrives as a SOAP action over HTTP, a NAT-PMP
  packet or a PCP packet. Its handler reads the arguments, asks the permission list whether the mapping is
  allowed, and calls the operations of \<^verbatim>\<open>upnpredirect.c\<close>, which keep the lease file and call the
  redirect backend. Backends are records \<open>fw_ops\<close> of operations, as the functions every backend of
  the program defines; IPv6 pinholes have a table of their own.

  \<^item> \<open>Upnp_Prelude\<close>: C strings as lists of characters (\<open>cstring\<close>, \<open>strncpy\<close>, \<open>atoi\<close>), decimal printing,
    IPv4 addresses in dotted form, and the generic lemmas on lists the other theories share.
  \<^item> \<open>Permissions\<close>: \<^verbatim>\<open>upnppermissions.c\<close>. Parsing of a permission line, the first-match decision, and the
    bitmap of the permitted ports, which agrees with it.
  \<^item> \<open>Jwt_Utils\<close>, \<open>Jwt_Auth\<close>: \<^verbatim>\<open>jwtauthutils.c\<close>, \<^verbatim>\<open>jwtauth.c\<close>, \<^verbatim>\<open>upnpsoapauth.c\<close>. Address ranges, the check of
    the two signatures of a token, and the authorisation of a mapping by its ranges.
  \<^item> \<open>Json_Object\<close>, \<open>Onos_Client\<close>, \<open>Sdn_Redirect\<close>: the accessors of json-c in use, \<^verbatim>\<open>sdn/onosclient.c\<close> and
    \<^verbatim>\<open>sdn/iptcrdr.c\<close>. Requests to the controller, the handlers of the events of a connection, the
    loop that polls them, and the decoding of the replies.
  \<^item> \<open>Lease_File\<close>, \<open>Redirect_Interface\<close>, \<open>Upnp_Redirect\<close>: \<^verbatim>\<open>upnpredirect.c\<close>. The lines of the lease file; the
    contract of a backend as a locale (\<open>redirect_backend\<close>, and \<open>peer_backend\<close> with the listing of the peer
    rules) over a table of mappings; the operations on mappings, which refine operations on the table; the
    cleanup over mappings and peer rules; and the reachable states of the operations, in which every
    mapping is permitted.
  \<^item> \<open>Netfilter_Redirect\<close>: \<^verbatim>\<open>netfilter/iptcrdr.c\<close>. The rules of the tables with libiptc as the list of the
    outcomes of its calls, and the interpretation of the locales on it. The code finds a filter rule by protocol,
    internal port and client, without the remote host; so do the theorems, and
    \<open>deletion_takes_other_filter_rule\<close> shows what follows from it.
  \<^item> \<open>Net_Bytes\<close>, \<open>Natpmp\<close>: \<^verbatim>\<open>natpmp.c\<close>. Packets as bytes, the search for a port, and the replies.
  \<^item> \<open>Minixml\<close>, \<open>Reply_Parse\<close>: \<^verbatim>\<open>minixml.c\<close>, \<^verbatim>\<open>upnpreplyparse.c\<close>. The scanner over a buffer with its callbacks, and
    the list of names and values of a request.
  \<^item> \<open>Upnp_Soap\<close>, \<open>Soap_Replies\<close>, \<open>Soap_Mappings\<close>: the actions of \<^verbatim>\<open>upnpsoap.c\<close> on connections and port
    mappings, their replies, and the mappings a request may change.
  \<^item> \<open>Keyed_Store\<close>, \<open>Inet6\<close>, \<open>Pinhole\<close>, \<open>Pinhole_Soap\<close>: \<^verbatim>\<open>netfilter/iptpinhole.c\<close>, \<^verbatim>\<open>upnppinhole.c\<close> and the pinhole actions.
    The list of pinholes with their rules as an implementation of a store of pinholes.
  \<^item> \<open>Soap_Server\<close>: the table of the methods and \<^verbatim>\<open>ExecuteSoapAction\<close>; what a request may change, and the
    invariant of every sequence of requests and cleanups.
  \<^item> \<open>Scan_Buffer\<close>, \<open>Upnp_Events\<close>: \<^verbatim>\<open>upnpevents.c\<close>. Scanning loops over memory; subscribers and notifications as
    objects of a heap, that no operation meets one that is freed, and that a notification completes over the turns
    of the main loop. The callbacks of \<open>ev_step\<close> are those whose host ends (\<open>host_ends\<close>); what happens to
    any other is \<open>callback_without_path_overreads\<close>.
  \<^item> \<open>Http_Request\<close>, \<open>Http_Response\<close>, \<open>Http_Server\<close>: \<^verbatim>\<open>upnphttp.c\<close>. The headers of a request in their buffer, the
    responses, and the states of a connection, over the SOAP actions and the subscriptions; what HTTP
    traffic keeps of the invariants (the packets of NAT-PMP and PCP are not among its steps), and where the
    notifications of a subscription go.
  \<^item> \<open>Ssdp\<close>, \<open>Async_Send\<close>: \<^verbatim>\<open>minissdp.c\<close>, \<^verbatim>\<open>codelength.h\<close>, \<^verbatim>\<open>asyncsendto.c\<close>. Searches and their answers,
    announcements and their withdrawal, the submission to a MiniSSDPd, and the packets that wait to be sent,
    to the end of the program with its calls of \<^verbatim>\<open>select\<close>.
  \<^item> \<open>Lan_Addr\<close>, \<open>Pcp_Message\<close>, \<open>Pcp_Server\<close>: \<^verbatim>\<open>upnputils.c\<close> and \<^verbatim>\<open>pcpserver.c\<close>. The LAN of a peer, requests and
    responses of PCP as bytes, and its operations over the mappings and the pinholes.
  \<^item> \<open>Pcp_Mappings\<close>, \<open>Pcp_Packets\<close>, \<open>Pcp_Peers\<close>: what the MAP operation grants and removes; what a packet may
    change, that it is answered, and how its fields travel; the PEER operation.

  What is a parameter. The clock, the resolver, the signature and base64 functions of OpenSSL, the
  events mongoose delivers, the routes and the connection tracking of the kernel, and whether a port is
  in use on the router are arguments of the definitions. Calls of libiptc and libip6tc take their
  outcome from a list in the state; the theorems about backends that work assume it to be empty, which
  means that no call fails.

  Bounds and fuel. No definition uses fuel; the loop of \<open>finalize_sendto\<close> and \<open>event_turns\<close> run over the list of what
  the system answers in each turn. The loop that sizes a notification runs at most twice. Searches over ports end because each step moves towards
  the start (\<open>natpmp_search\<close>, \<open>any_search\<close>, \<open>pcp_search\<close>); loops of the program that need not end are
  \<open>partial_function\<close>s, and the theorems say when they return (\<open>pinhole_identifiers_exhausted\<close>,
  \<open>exchange_returns\<close>, \<open>pcp_packet_answered\<close>). Integers keep the width of the code where it matters; a response whose size is beyond an \<^verbatim>\<open>int\<close> has no value.
  The submission to a MiniSSDPd is a list without a bound: its texts are the server's own and
  shorter than the 2048 bytes of the code's buffer.

  Not modelled: the packet filters of other systems (pf, ipf, ipfw, nftables), which define the same
  operations as the netfilter backend; vendored libraries (mongoose, json-c apart from its accessors);
  socket calls and the system interfaces; HTTPS; start-up and options.
\<close>

end
